(* ===== verification/Prelude.thy ===== *)
theory Prelude
  imports
    Complex_Main
    "HOL-Library.AList"
    "HOL-Library.Char_ord"
    "HOL-Library.List_Lexorder"
    "HOL-Library.Product_Lexorder"
    "HOL-Library.Sublist"
begin

text \<open>
  What every component of the Hyperlite model shares.

  \<^item> The Python values the sources compute with: a dict is an association list in
    insertion order (\<open>dict\<close>, read by \<open>map_of\<close>, written by the library's
    \<open>AList.update\<close>, which keeps a present key's place and appends a new one, as Python
    does); a float is a rational (\<open>pyfloat\<close>: exact, so rounding of the machine's
    floats is left out); seconds of a clock are \<open>pyfloat\<close> too; \<open>a or b\<close> on an
    optional number is \<open>num_or\<close> (zero is false); \<open>min\<close> and \<open>max\<close> with a key
    give the first extreme element (\<open>first_min\<close>, \<open>first_max\<close>).
  \<^item> Errors: a raise is \<open>Inl\<close> of the component's own error type.
  \<^item> Strings: \<open>str.isdigit\<close>, \<open>int\<close>, \<open>str\<close>, \<open>split\<close> and \<open>join\<close> on ASCII
    strings, with the round trip of printing and reading a number.
  \<^item> The collections \<open>py_simps\<close> and \<open>result_splits\<close> the component proofs use.
\<close>

named_theorems py_simps \<open>unfolding rules of the small Python helpers\<close>

section \<open>Names, times, dictionaries\<close>

type_synonym vm_name = string
type_synonym node_name = string
type_synonym pyfloat = rat
type_synonym seconds = rat
type_synonym ('k, 'v) dict = "('k \<times> 'v) list"

abbreviation dict_ok :: "('k, 'v) dict \<Rightarrow> bool" where
  "dict_ok d \<equiv> distinct (map fst d)"

abbreviation keys :: "('k, 'v) dict \<Rightarrow> 'k list" where
  "keys d \<equiv> map fst d"

abbreviation dict_set :: "'k \<Rightarrow> 'v \<Rightarrow> ('k, 'v) dict \<Rightarrow> ('k, 'v) dict" where
  "dict_set k v d \<equiv> AList.update k v d"

abbreviation dict_del :: "'k \<Rightarrow> ('k, 'v) dict \<Rightarrow> ('k, 'v) dict" where
  "dict_del k d \<equiv> AList.delete k d"

text \<open>An SQL UPDATE of one row: nothing when the key is missing.\<close>

definition dict_alter :: "'k \<Rightarrow> ('v \<Rightarrow> 'v) \<Rightarrow> ('k, 'v) dict \<Rightarrow> ('k, 'v) dict" where
  "dict_alter k f d = (case map_of d k of None \<Rightarrow> d | Some v \<Rightarrow> dict_set k (f v) d)"

section \<open>Truth of optional numbers, extremes with a key\<close>

text \<open>\<open>x or d\<close>: \<open>d\<close> when \<open>x\<close> is missing or zero.\<close>

definition num_or :: "'a::zero option \<Rightarrow> 'a \<Rightarrow> 'a" where
  "num_or x d = (case x of None \<Rightarrow> d | Some v \<Rightarrow> if v = 0 then d else v)"

text \<open>Truthiness of an optional number.\<close>

definition num_true :: "'a::zero option \<Rightarrow> bool" where
  "num_true x = (case x of None \<Rightarrow> False | Some v \<Rightarrow> v \<noteq> 0)"

text \<open>\<open>min(xs, key=f)\<close> and \<open>max(xs, key=f)\<close>: the first extreme element.\<close>

fun first_min :: "('a \<Rightarrow> 'b::linorder) \<Rightarrow> 'a list \<Rightarrow> 'a option" where
  "first_min f [] = None"
| "first_min f (x # xs) =
     (case first_min f xs of
        None \<Rightarrow> Some x
      | Some y \<Rightarrow> if f x \<le> f y then Some x else Some y)"

fun first_max :: "('a \<Rightarrow> 'b::linorder) \<Rightarrow> 'a list \<Rightarrow> 'a option" where
  "first_max f [] = None"
| "first_max f (x # xs) =
     (case first_max f xs of
        None \<Rightarrow> Some x
      | Some y \<Rightarrow> if f y \<le> f x then Some x else Some y)"

text \<open>\<open>list(dict.fromkeys(xs))\<close>: duplicates dropped, the first occurrence kept.\<close>

fun dedup :: "'a list \<Rightarrow> 'a list" where
  "dedup [] = []"
| "dedup (x # xs) = x # removeAll x (dedup xs)"

text \<open>\<open>dict\<close> built from pairs one after the other, as a comprehension does.\<close>

definition dict_of :: "('k \<times> 'v) list \<Rightarrow> ('k, 'v) dict" where
  "dict_of ps = foldl (\<lambda>d (k, v). dict_set k v d) [] ps"

text \<open>\<open>round(x, 1)\<close>: to the nearest tenth, a tie to the even one.\<close>

definition round_even :: "rat \<Rightarrow> int" where
  "round_even x =
     (let f = floor x; r = x - of_int f in
      if r < 1 / 2 then f else if r > 1 / 2 then f + 1
      else if even f then f else f + 1)"

definition round1 :: "rat \<Rightarrow> rat" where
  "round1 x = of_int (round_even (x * 10)) / 10"

section \<open>Results\<close>

text \<open>
  A computation that may raise: \<open>Inl e\<close> is the error. \<open>rbind\<close> runs the next one on the value,
  \<open>require c e\<close> raises \<open>e\<close> unless \<open>c\<close> holds, \<open>some_or e x\<close> raises \<open>e\<close> on a missing value.
\<close>

definition rbind :: "'e + 'a \<Rightarrow> ('a \<Rightarrow> 'e + 'b) \<Rightarrow> 'e + 'b" where
  "rbind m f = (case m of Inl e \<Rightarrow> Inl e | Inr x \<Rightarrow> f x)"

definition require :: "bool \<Rightarrow> 'e \<Rightarrow> 'e + unit" where
  "require c e = (if c then Inr () else Inl e)"

definition some_or :: "'e \<Rightarrow> 'a option \<Rightarrow> 'e + 'a" where
  "some_or e x = (case x of None \<Rightarrow> Inl e | Some v \<Rightarrow> Inr v)"

section \<open>Strings\<close>

definition is_digit :: "char \<Rightarrow> bool" where
  "is_digit c \<longleftrightarrow> CHR ''0'' \<le> c \<and> c \<le> CHR ''9''"

definition is_lower :: "char \<Rightarrow> bool" where
  "is_lower c \<longleftrightarrow> CHR ''a'' \<le> c \<and> c \<le> CHR ''z''"

definition is_upper :: "char \<Rightarrow> bool" where
  "is_upper c \<longleftrightarrow> CHR ''A'' \<le> c \<and> c \<le> CHR ''Z''"

definition is_alnum :: "char \<Rightarrow> bool" where
  "is_alnum c \<longleftrightarrow> is_digit c \<or> is_lower c \<or> is_upper c"

text \<open>\<open>str.lower\<close>, \<open>str.strip\<close> (Python's ASCII white space) and \<open>str.strip\<close> of given characters.\<close>

definition lower_char :: "char \<Rightarrow> char" where
  "lower_char c = (if is_upper c then char_of ((of_char c :: nat) + 32) else c)"

definition str_lower :: "string \<Rightarrow> string" where
  "str_lower s = map lower_char s"

definition is_blank :: "char \<Rightarrow> bool" where
  "is_blank c \<longleftrightarrow> c = CHR '' '' \<or> (9 \<le> (of_char c :: nat) \<and> (of_char c :: nat) \<le> 13)
     \<or> (28 \<le> (of_char c :: nat) \<and> (of_char c :: nat) \<le> 31)"

definition strip_chars :: "(char \<Rightarrow> bool) \<Rightarrow> string \<Rightarrow> string" where
  "strip_chars p s = rev (dropWhile p (rev (dropWhile p s)))"

abbreviation strip :: "string \<Rightarrow> string" where
  "strip s \<equiv> strip_chars is_blank s"

text \<open>\<open>str.isdigit\<close>: not empty, digits only.\<close>

definition str_isdigit :: "string \<Rightarrow> bool" where
  "str_isdigit s \<longleftrightarrow> s \<noteq> [] \<and> list_all is_digit s"

definition digit_value :: "char \<Rightarrow> nat" where
  "digit_value c = of_char c - 48"

definition digit_char :: "nat \<Rightarrow> char" where
  "digit_char n = char_of (n + 48)"

text \<open>\<open>int(s)\<close> of a string of digits.\<close>

definition nat_of_digits :: "string \<Rightarrow> nat" where
  "nat_of_digits s = foldl (\<lambda>n c. 10 * n + digit_value c) 0 s"

text \<open>\<open>int(s)\<close> of any string: an optional sign and digits (white space around them ignored), else it
  raises (\<open>None\<close>). Underscores between digits are left out.\<close>

definition int_of_text :: "string \<Rightarrow> int option" where
  "int_of_text t =
     (let s = strip t in
      if str_isdigit s then Some (int (nat_of_digits s))
      else case s of c # cs \<Rightarrow> if c = CHR ''-'' \<and> str_isdigit cs then Some (- int (nat_of_digits cs))
                              else if c = CHR ''+'' \<and> str_isdigit cs then Some (int (nat_of_digits cs))
                              else None
           | [] \<Rightarrow> None)"

text \<open>\<open>str(n)\<close> of a natural number.\<close>

fun str_of_nat :: "nat \<Rightarrow> string" where
  "str_of_nat n = (if n < 10 then [digit_char n] else str_of_nat (n div 10) @ [digit_char (n mod 10)])"

declare str_of_nat.simps [simp del]

text \<open>\<open>s.split(c)\<close> and \<open>c.join(parts)\<close> for a one-character separator.\<close>

fun split_on :: "char \<Rightarrow> string \<Rightarrow> string list" where
  "split_on c [] = [[]]"
| "split_on c (x # s) =
     (if x = c then [] # split_on c s
      else (case split_on c s of [] \<Rightarrow> [[x]] | p # ps \<Rightarrow> (x # p) # ps))"

fun join_with :: "char \<Rightarrow> string list \<Rightarrow> string" where
  "join_with c [] = []"
| "join_with c [p] = p"
| "join_with c (p # ps) = p @ c # join_with c ps"

text \<open>\<open>s.partition(c)\<close>: what stands before the first \<open>c\<close> and what stands after it.\<close>

fun partition_on :: "char \<Rightarrow> string \<Rightarrow> string \<times> string" where
  "partition_on c [] = ([], [])"
| "partition_on c (x # s) =
     (if x = c then ([], s) else (let (a, b) = partition_on c s in (x # a, b)))"

section \<open>Lemmas on results\<close>

lemma rbind_simps [simp]: "rbind (Inl e) f = Inl e" "rbind (Inr x) f = f x"
  by (simp_all add: rbind_def)

lemma rbind_Inr_iff [py_simps]: "rbind m f = Inr y \<longleftrightarrow> (\<exists>x. m = Inr x \<and> f x = Inr y)"
  by (cases m) auto

lemma rbind_Inl_iff: "rbind m f = Inl e \<longleftrightarrow> m = Inl e \<or> (\<exists>x. m = Inr x \<and> f x = Inl e)"
  by (cases m) auto

lemma require_Inr_iff [py_simps]: "require c e = Inr u \<longleftrightarrow> c"
  by (simp add: require_def)

lemma require_Inl_iff: "require c e = Inl e' \<longleftrightarrow> \<not> c \<and> e' = e"
  by (auto simp: require_def)

lemma require_True [simp]: "c \<Longrightarrow> require c e = Inr ()"
  by (simp add: require_def)

lemma some_or_Inr_iff [py_simps]: "some_or e x = Inr v \<longleftrightarrow> x = Some v"
  by (auto simp: some_or_def split: option.splits)

lemma some_or_simps [simp]: "some_or e None = Inl e" "some_or e (Some v) = Inr v"
  by (simp_all add: some_or_def)

section \<open>Lemmas on dictionaries\<close>

lemma dict_ok_set [simp]: "dict_ok d \<Longrightarrow> dict_ok (dict_set k v d)"
  by (rule distinct_update)

lemma dict_ok_del [simp]: "dict_ok d \<Longrightarrow> dict_ok (dict_del k d)"
  by (rule distinct_delete)

lemma map_of_dict_set [simp]: "map_of (dict_set k v d) j = (if j = k then Some v else map_of d j)"
  by (simp add: update_conv')

lemma map_of_dict_del [simp]: "map_of (dict_del k d) j = (if j = k then None else map_of d j)"
  by (simp add: delete_conv')

lemma map_of_in_keys: "map_of d k = Some v \<Longrightarrow> k \<in> set (keys d)"
  by (metis domI dom_map_of_conv_image_fst list.set_map)

lemma keys_map_of: "k \<in> set (keys d) \<Longrightarrow> \<exists>v. map_of d k = Some v"
  by (metis domD dom_map_of_conv_image_fst list.set_map)

lemma map_of_Some_mem: "map_of d k = Some v \<Longrightarrow> (k, v) \<in> set d"
  by (rule map_of_SomeD)

declare dom_update [simp]

lemma keys_dict_set_present [simp]: "map_of d k \<noteq> None \<Longrightarrow> keys (dict_set k v d) = keys d"
  by (induction d) auto

lemma dict_set_new: "k \<notin> set (keys d) \<Longrightarrow> dict_set k v d = d @ [(k, v)]"
  by (induction d) auto

lemma length_dict_set_present [simp]: "map_of d k \<noteq> None \<Longrightarrow> length (dict_set k v d) = length d"
  by (induction d) auto

lemma length_dict_set_le: "length (dict_set k v d) \<le> Suc (length d)"
  by (induction d) auto

lemma map_of_dict_alter [simp]: "map_of (dict_alter k f d) j = (if j = k then map_option f (map_of d k) else map_of d j)"
  by (auto simp: dict_alter_def split: option.splits)

lemma keys_dict_alter [simp]: "keys (dict_alter k f d) = keys d"
  by (auto simp: dict_alter_def split: option.splits)

lemma set_dict_set: "dict_ok d \<Longrightarrow> set (dict_set k v d) = insert (k, v) {p \<in> set d. fst p \<noteq> k}"
  by (induction d) (auto simp: image_iff)

lemma set_dict_del: "set (dict_del k d) = {p \<in> set d. fst p \<noteq> k}"
  by (auto simp: AList.delete_eq)

lemma dict_ok_filter [simp]: "dict_ok d \<Longrightarrow> dict_ok (filter P d)"
  by (induction d) auto

lemma map_of_filter_keys: "map_of (filter (\<lambda>p. P (fst p)) d) k = (if P k then map_of d k else None)"
  by (induction d) auto

lemma dict_ok_dict_of [simp]: "dict_ok (dict_of ps)"
proof -
  have "dict_ok d \<Longrightarrow> dict_ok (foldl (\<lambda>d (k, v). dict_set k v d) d ps)" for d :: "('a, 'b) dict"
    by (induction ps arbitrary: d) auto
  then show ?thesis by (simp add: dict_of_def)
qed

lemma dict_of_Nil [simp]: "dict_of [] = []"
  by (simp add: dict_of_def)

lemma dict_of_snoc: "dict_of (ps @ [(k, v)]) = dict_set k v (dict_of ps)"
  by (simp add: dict_of_def)

lemma dict_of_mem: "(k, v) \<in> set (dict_of ps) \<Longrightarrow> (k, v) \<in> set ps"
proof (induction ps rule: rev_induct)
  case Nil
  then show ?case by simp
next
  case (snoc p ps)
  then show ?case by (cases p) (auto simp: dict_of_snoc set_dict_set)
qed

lemma keys_dict_of: "set (keys (dict_of ps)) = fst ` set ps"
proof (induction ps rule: rev_induct)
  case Nil
  then show ?case by simp
next
  case (snoc p ps)
  then show ?case by (cases p) (auto simp: dict_of_snoc dom_update)
qed

section \<open>Lemmas on extremes\<close>

lemma sort_key_Nil_iff [simp]: "sort_key f xs = [] \<longleftrightarrow> xs = []"
  by (metis length_0_conv length_sort)

lemma first_min_None [simp]: "first_min f xs = None \<longleftrightarrow> xs = []"
  by (cases xs) (auto split: option.splits)

lemma first_max_None [simp]: "first_max f xs = None \<longleftrightarrow> xs = []"
  by (cases xs) (auto split: option.splits)

lemma first_min_in: "first_min f xs = Some y \<Longrightarrow> y \<in> set xs"
  by (induction xs arbitrary: y) (auto split: option.splits if_splits)

lemma first_max_in: "first_max f xs = Some y \<Longrightarrow> y \<in> set xs"
  by (induction xs arbitrary: y) (auto split: option.splits if_splits)

lemma first_min_le: "first_min f xs = Some y \<Longrightarrow> x \<in> set xs \<Longrightarrow> f y \<le> f x"
  by (induction xs arbitrary: x y) (fastforce split: option.splits if_splits)+

lemma first_max_ge: "first_max f xs = Some y \<Longrightarrow> x \<in> set xs \<Longrightarrow> f x \<le> f y"
  by (induction xs arbitrary: x y) (fastforce split: option.splits if_splits)+

lemmas first_min_facts = first_min_in first_min_le
lemmas first_max_facts = first_max_in first_max_ge

lemma set_dedup [simp]: "set (dedup xs) = set xs"
  by (induction xs) auto

lemma distinct_dedup [simp]: "distinct (dedup xs)"
  by (induction xs) (auto simp: distinct_removeAll)

lemma dedup_id [simp]: "distinct xs \<Longrightarrow> dedup xs = xs"
  by (induction xs) auto

lemma dedup_idem: "dedup (dedup xs) = dedup xs"
  by simp

lemma length_dedup_le: "length (dedup xs) \<le> length xs"
  by (induction xs) (auto intro: le_trans [OF length_removeAll_less_eq])

lemma dedup_Nil [simp]: "dedup xs = [] \<longleftrightarrow> xs = []"
  by (cases xs) auto

section \<open>Lemmas on strings\<close>

lemma digit_value_char [simp]: "n < 10 \<Longrightarrow> digit_value (digit_char n) = n"
  by (simp add: digit_value_def digit_char_def)

lemma is_digit_char [simp]: "n < 10 \<Longrightarrow> is_digit (digit_char n)"
  by (simp add: is_digit_def digit_char_def less_eq_char_def)

lemma nat_of_digits_snoc [simp]: "nat_of_digits (s @ [c]) = 10 * nat_of_digits s + digit_value c"
  by (simp add: nat_of_digits_def)

lemma nat_of_digits_str_of_nat [simp]: "nat_of_digits (str_of_nat n) = n"
proof (induction n rule: str_of_nat.induct)
  case (1 n)
  show ?case
  proof (cases "n < 10")
    case True
    then show ?thesis by (subst str_of_nat.simps) (simp add: nat_of_digits_def)
  next
    case False
    with 1 show ?thesis by (subst str_of_nat.simps) simp
  qed
qed

lemma digits_str_of_nat: "list_all is_digit (str_of_nat n)"
proof (induction n rule: str_of_nat.induct)
  case (1 n)
  then show ?case by (subst str_of_nat.simps) (cases "n < 10", auto)
qed

lemma str_of_nat_not_Nil [simp]: "str_of_nat n \<noteq> []"
  by (subst str_of_nat.simps) simp

lemma str_isdigit_str_of_nat [simp]: "str_isdigit (str_of_nat n)"
  by (simp add: str_isdigit_def digits_str_of_nat)

lemma digit_not_blank: "is_digit c \<Longrightarrow> \<not> is_blank c"
  by (auto simp: is_blank_def is_digit_def less_eq_char_def)

lemma strip_chars_id: "list_all (\<lambda>c. \<not> p c) s \<Longrightarrow> strip_chars p s = s"
proof -
  have drop: "list_all (\<lambda>c. \<not> p c) t \<Longrightarrow> dropWhile p t = t" for t by (cases t) auto
  assume "list_all (\<lambda>c. \<not> p c) s"
  then show ?thesis using drop [of s] drop [of "rev s"] by (simp add: strip_chars_def list_all_iff)
qed

lemma strip_digits: "list_all is_digit s \<Longrightarrow> strip s = s"
  by (rule strip_chars_id) (auto simp: list_all_iff dest: digit_not_blank)

lemma strip_str_of_nat [simp]: "strip (str_of_nat n) = str_of_nat n"
  by (rule strip_digits [OF digits_str_of_nat])

lemma int_of_text_str_of_nat [simp]: "int_of_text (str_of_nat n) = Some (int n)"
  by (simp add: int_of_text_def Let_def)

lemma split_on_not_Nil [simp]: "split_on c s \<noteq> []"
  by (induction s) (auto split: list.splits)

lemma split_on_no_sep: "c \<notin> set s \<Longrightarrow> split_on c s = [s]"
  by (induction s) auto

lemma split_on_sep: "c \<notin> set a \<Longrightarrow> split_on c (a @ c # s) = a # split_on c s"
  by (induction a) (auto split: list.splits)

lemma split_on_join:
  "ps \<noteq> [] \<Longrightarrow> list_all (\<lambda>p. c \<notin> set p) ps \<Longrightarrow> split_on c (join_with c ps) = ps"
  by (induction ps rule: join_with.induct) (auto simp: split_on_no_sep split_on_sep)

lemma partition_on_no_sep: "c \<notin> set s \<Longrightarrow> partition_on c s = (s, [])"
  by (induction s) auto

lemma partition_on_sep: "c \<notin> set a \<Longrightarrow> partition_on c (a @ c # s) = (a, s)"
  by (induction a) auto

declare num_or_def [py_simps] num_true_def [py_simps]

end
