(* ===== verification/Drs_Rules.thy ===== *)
theory Drs_Rules
  imports Prelude
begin

text \<open>
  Load balancing's settings and rules: \<^verbatim>\<open>app/core/drs_rules.py\<close> and the rule and
  behaviour tables of its store, \<^verbatim>\<open>app/repositories/sqlite/drs.py\<close>.

  A rule arrives as a JSON object (\<open>json\<close>, its missing keys and wrong types included) and is
  checked and normalised by \<open>validate\<close>; the store keeps one row per rule name. \<open>broken\<close>
  lists the enabled rules a VM would break on a node, given where the other VMs run; \<open>allowed\<close>
  and \<open>refuse_if_broken\<close> are what HA, a start and a migration ask.

  Shown: \<open>validate\<close> is idempotent and yields well-formed rules; saving a rule makes exactly
  that rule readable and keeps the table's key; \<open>allowed\<close> holds exactly when every enabled
  must rule of the VM is kept; the settings read back are always in range.
\<close>

section \<open>Data\<close>

datatype json = JNull | JBool bool | JNum int | JStr string | JList "json list"

datatype kind = Together | Apart | On_nodes | Not_on_nodes

datatype strength = Must | Should

datatype mode = Off | Manual | Automatic

datatype behaviour = Default_behaviour | Manual_behaviour | Excluded

record rule =
  rule_name :: string
  rule_kind :: kind
  rule_strength :: strength
  rule_vms :: "vm_name list"
  rule_nodes :: "node_name list"
  rule_enabled :: bool

text \<open>Why a rule breaks: one constructor per sentence of \<open>_breaks\<close>.\<close>

datatype why =
    Runs_together_on "node_name list"
  | Runs_apart "vm_name list" node_name
  | Runs_only_on "node_name list"
  | Never_on node_name

datatype rules_error =
    Bad_mode
  | Bad_threshold
  | Not_a_vm_name string
  | Bad_behaviour
  | Type_error
  | Too_many_names string
  | Bad_names string
  | Bad_rule_name
  | Bad_kind
  | Bad_strength
  | Two_vms_needed
  | Vm_and_node_needed
  | Must_rule_broken string why

section \<open>Constants and name patterns\<close>

definition MAX_MEMBERS :: nat where "MAX_MEMBERS = 64"

definition KINDS :: "(string \<times> kind) list" where
  "KINDS = [(''together'', Together), (''apart'', Apart), (''on_nodes'', On_nodes),
            (''not_on_nodes'', Not_on_nodes)]"

definition STRENGTHS :: "(string \<times> strength) list" where
  "STRENGTHS = [(''must'', Must), (''should'', Should)]"

definition MODES :: "(string \<times> mode) list" where
  "MODES = [(''off'', Off), (''manual'', Manual), (''automatic'', Automatic)]"

definition BEHAVIOURS :: "(string \<times> behaviour) list" where
  "BEHAVIOURS = [(''default'', Default_behaviour), (''manual'', Manual_behaviour),
                 (''excluded'', Excluded)]"

text \<open>\<open>[A-Za-z0-9][...]{0,62}\<close>: a first letter or digit, then at most 62 characters of a class.\<close>

definition name_match :: "(char \<Rightarrow> bool) \<Rightarrow> string \<Rightarrow> bool" where
  "name_match cls s = (case s of [] \<Rightarrow> False
     | c # cs \<Rightarrow> is_alnum c \<and> length cs \<le> 62 \<and> list_all cls cs)"

definition NAME_RE :: "string \<Rightarrow> bool" where
  "NAME_RE = name_match (\<lambda>c. is_alnum c \<or> c \<in> set ''_.-'')"

definition VM_RE :: "string \<Rightarrow> bool" where
  "VM_RE = name_match (\<lambda>c. is_alnum c \<or> c = CHR ''-'')"

definition NODE_RE :: "string \<Rightarrow> bool" where
  "NODE_RE = name_match (\<lambda>c. is_alnum c \<or> c \<in> set ''.-'')"

section \<open>The store: rules, behaviours and settings\<close>

text \<open>Each table has its primary key first; \<open>rules\<close> reads in the order of the names.\<close>

record drs_store =
  st_settings :: "(string, string) dict"
  st_rules :: "(string, rule) dict"
  st_behaviours :: "(vm_name, behaviour) dict"

definition store_ok :: "drs_store \<Rightarrow> bool" where
  "store_ok st \<longleftrightarrow> dict_ok (st_settings st) \<and> dict_ok (st_rules st) \<and> dict_ok (st_behaviours st)
     \<and> (\<forall>(n, r) \<in> set (st_rules st). rule_name r = n)"

definition rules :: "drs_store \<Rightarrow> rule list" where
  "rules st = map snd (sort_key fst (st_rules st))"

definition rule_by_name :: "drs_store \<Rightarrow> string \<Rightarrow> rule option" where
  "rule_by_name st n = map_of (st_rules st) n"

definition store_save_rule :: "drs_store \<Rightarrow> rule \<Rightarrow> drs_store" where
  "store_save_rule st r = st\<lparr>st_rules := dict_set (rule_name r) r (st_rules st)\<rparr>"

definition delete_rule :: "drs_store \<Rightarrow> string \<Rightarrow> drs_store \<times> bool" where
  "delete_rule st n =
     (st\<lparr>st_rules := dict_del n (st_rules st)\<rparr>, map_of (st_rules st) n \<noteq> None)"

definition behaviours :: "drs_store \<Rightarrow> (vm_name, behaviour) dict" where
  "behaviours st = st_behaviours st"

definition store_set_behaviour :: "drs_store \<Rightarrow> vm_name \<Rightarrow> behaviour \<Rightarrow> drs_store" where
  "store_set_behaviour st vm b =
     (if b = Default_behaviour then st\<lparr>st_behaviours := dict_del vm (st_behaviours st)\<rparr>
      else st\<lparr>st_behaviours := dict_set vm b (st_behaviours st)\<rparr>)"

definition store_save_settings :: "drs_store \<Rightarrow> (string \<times> string) list \<Rightarrow> drs_store" where
  "store_save_settings st vs =
     st\<lparr>st_settings := foldl (\<lambda>d (k, v). dict_set k v d) (st_settings st) vs\<rparr>"

section \<open>Settings\<close>

record settings =
  set_mode :: mode
  set_threshold :: int

definition DEFAULT_MODE :: mode where "DEFAULT_MODE = Automatic"

definition DEFAULT_THRESHOLD :: int where "DEFAULT_THRESHOLD = 3"

definition read_settings :: "drs_store \<Rightarrow> settings" where
  "read_settings st =
     (let saved = st_settings st;
          m = (case map_of saved ''mode'' of None \<Rightarrow> DEFAULT_MODE
               | Some t \<Rightarrow> (case map_of MODES t of None \<Rightarrow> DEFAULT_MODE | Some md \<Rightarrow> md));
          threshold = (case map_of saved ''threshold'' of None \<Rightarrow> DEFAULT_THRESHOLD
               | Some t \<Rightarrow> (case int_of_text t of None \<Rightarrow> DEFAULT_THRESHOLD | Some n \<Rightarrow> n))
      in \<lparr>set_mode = m,
          set_threshold = (if 1 \<le> threshold \<and> threshold \<le> 5 then threshold else DEFAULT_THRESHOLD)\<rparr>)"

definition save_settings :: "drs_store \<Rightarrow> string \<Rightarrow> json \<Rightarrow> rules_error + (drs_store \<times> settings)" where
  "save_settings st mode_text threshold =
     (if map_of MODES mode_text = None then Inl Bad_mode
      else case threshold of
        JNum n \<Rightarrow>
          (if \<not> (1 \<le> n \<and> n \<le> 5) then Inl Bad_threshold
           else let st' = store_save_settings st
                  [(''mode'', mode_text), (''threshold'', str_of_nat (nat n))]
                in Inr (st', read_settings st'))
      | JBool b \<Rightarrow>
          \<comment> \<open>a Python bool is an int: True is the level 1, stored as the text True\<close>
          (if \<not> b then Inl Bad_threshold
           else let st' = store_save_settings st [(''mode'', mode_text), (''threshold'', ''True'')]
                in Inr (st', read_settings st'))
      | _ \<Rightarrow> Inl Bad_threshold)"

definition set_behaviour :: "drs_store \<Rightarrow> vm_name \<Rightarrow> string \<Rightarrow> rules_error + drs_store" where
  "set_behaviour st vm b =
     (if \<not> VM_RE vm then Inl (Not_a_vm_name vm)
      else case map_of BEHAVIOURS b of
        None \<Rightarrow> Inl Bad_behaviour
      | Some bh \<Rightarrow> Inr (store_set_behaviour st vm bh))"

section \<open>Checking a rule\<close>

text \<open>Truthiness of a JSON value.\<close>

fun truthy :: "json \<Rightarrow> bool" where
  "truthy JNull = False"
| "truthy (JBool b) = b"
| "truthy (JNum n) = (n \<noteq> 0)"
| "truthy (JStr s) = (s \<noteq> [])"
| "truthy (JList l) = (l \<noteq> [])"

definition get_or :: "(string, json) dict \<Rightarrow> string \<Rightarrow> json \<Rightarrow> json" where
  "get_or d k dflt = (case map_of d k of None \<Rightarrow> dflt | Some v \<Rightarrow> if truthy v then v else dflt)"

definition is_name :: "(string \<Rightarrow> bool) \<Rightarrow> json \<Rightarrow> bool" where
  "is_name pat v = (case v of JStr s \<Rightarrow> pat s | _ \<Rightarrow> False)"

fun jstr :: "json \<Rightarrow> string" where
  "jstr (JStr s) = s"
| "jstr _ = []"

definition names :: "json \<Rightarrow> (string \<Rightarrow> bool) \<Rightarrow> string \<Rightarrow> rules_error + string list" where
  "names values pat what = (case values of
     JList vs \<Rightarrow>
       (if length vs > MAX_MEMBERS then Inl (Too_many_names what)
        else if \<not> list_all (is_name pat) vs then Inl (Bad_names what)
        else Inr (dedup (map jstr vs)))
   | _ \<Rightarrow> Inl (Too_many_names what))"

definition lookup_text :: "(string \<times> 'a) list \<Rightarrow> json \<Rightarrow> 'a option" where
  "lookup_text tab v = (case v of JStr s \<Rightarrow> map_of tab s | _ \<Rightarrow> None)"

definition validate :: "(string, json) dict \<Rightarrow> rules_error + rule" where
  "validate d =
     rbind (case get_or d ''name'' (JStr []) of JStr n \<Rightarrow> Inr n | _ \<Rightarrow> Inl Type_error) (\<lambda>name.
     rbind (require (NAME_RE name) Bad_rule_name) (\<lambda>_.
     rbind (some_or Bad_kind (lookup_text KINDS (case map_of d ''kind'' of None \<Rightarrow> JNull | Some v \<Rightarrow> v))) (\<lambda>k.
     rbind (some_or Bad_strength (lookup_text STRENGTHS
              (case map_of d ''strength'' of None \<Rightarrow> JStr ''should'' | Some v \<Rightarrow> v))) (\<lambda>s.
     rbind (names (get_or d ''vms'' (JList [])) VM_RE ''VMs'') (\<lambda>vms.
     rbind (names (get_or d ''nodes'' (JList [])) NODE_RE ''nodes'') (\<lambda>nodes.
     rbind (require (\<not> (k \<in> {Together, Apart} \<and> length vms < 2)) Two_vms_needed) (\<lambda>_.
     rbind (require (\<not> (k \<in> {On_nodes, Not_on_nodes} \<and> (vms = [] \<or> nodes = []))) Vm_and_node_needed) (\<lambda>_.
     Inr \<lparr>rule_name = name, rule_kind = k, rule_strength = s, rule_vms = vms,
          rule_nodes = (if k \<in> {On_nodes, Not_on_nodes} then nodes else []),
          rule_enabled = (case map_of d ''enabled'' of None \<Rightarrow> True | Some v \<Rightarrow> truthy v)\<rparr>))))))))"

definition save_rule :: "drs_store \<Rightarrow> (string, json) dict \<Rightarrow> rules_error + (drs_store \<times> rule option)" where
  "save_rule st d = (case validate d of
     Inl e \<Rightarrow> Inl e
   | Inr r \<Rightarrow> let st' = store_save_rule st r in Inr (st', rule_by_name st' (rule_name r)))"

section \<open>Where the VMs run, and what a rule allows\<close>

record vm_entry =
  ve_name :: vm_name
  ve_state :: string
  ve_vmid :: "nat option"

definition is_running_state :: "string \<Rightarrow> bool" where
  "is_running_state s \<longleftrightarrow> s = ''active'' \<or> s = ''running''"

text \<open>\<open>placement\<close>: over the members' statuses, each with its list of VMs.\<close>

definition placement :: "(node_name \<times> vm_entry list) list \<Rightarrow> (vm_name, node_name) dict" where
  "placement table =
     dict_of (concat (map (\<lambda>(node, vms).
       map (\<lambda>v. (ve_name v, node)) (filter (\<lambda>v. is_running_state (ve_state v) \<and> ve_name v \<noteq> []) vms)) table))"

definition breaks :: "rule \<Rightarrow> vm_name \<Rightarrow> node_name \<Rightarrow> (vm_name, node_name) dict \<Rightarrow> why option" where
  "breaks r vm node wh =
     (if vm \<notin> set (rule_vms r) then None
      else let others = filter (\<lambda>(v, n). v \<in> set (rule_vms r) \<and> v \<noteq> vm) wh in
        (case rule_kind r of
          Together \<Rightarrow>
            (let elsewhere = sort (remdups (filter (\<lambda>n. n \<noteq> node) (map snd others))) in
             if elsewhere \<noteq> [] then Some (Runs_together_on elsewhere) else None)
        | Apart \<Rightarrow>
            (let here = sort (map fst (filter (\<lambda>(v, n). n = node) others)) in
             if here \<noteq> [] then Some (Runs_apart here node) else None)
        | On_nodes \<Rightarrow>
            (if node \<notin> set (rule_nodes r) then Some (Runs_only_on (rule_nodes r)) else None)
        | Not_on_nodes \<Rightarrow>
            (if node \<in> set (rule_nodes r) then Some (Never_on node) else None)))"

fun broken_list :: "rule list \<Rightarrow> vm_name \<Rightarrow> node_name \<Rightarrow> (vm_name, node_name) dict \<Rightarrow> strength list
    \<Rightarrow> (rule \<times> why) list" where
  "broken_list [] vm node wh ss = []"
| "broken_list (r # rs) vm node wh ss =
     (if rule_enabled r \<and> rule_strength r \<in> set ss
      then (case breaks r vm node wh of
              None \<Rightarrow> broken_list rs vm node wh ss
            | Some w \<Rightarrow> (r, w) # broken_list rs vm node wh ss)
      else broken_list rs vm node wh ss)"

definition broken :: "drs_store \<Rightarrow> vm_name \<Rightarrow> node_name \<Rightarrow> (vm_name, node_name) dict \<Rightarrow> strength list
    \<Rightarrow> (rule \<times> why) list" where
  "broken st vm node wh ss = broken_list (rules st) vm node wh ss"

definition allowed :: "drs_store \<Rightarrow> vm_name \<Rightarrow> node_name \<Rightarrow> (vm_name, node_name) dict \<Rightarrow> bool" where
  "allowed st vm node wh \<longleftrightarrow> broken st vm node wh [Must] = []"

definition refuse_if_broken :: "drs_store \<Rightarrow> vm_name \<Rightarrow> node_name \<Rightarrow> (vm_name, node_name) dict
    \<Rightarrow> rules_error + (string \<times> why) list" where
  "refuse_if_broken st vm node wh =
     (let found = broken st vm node wh [Must, Should];
          must = map (\<lambda>(r, w). (rule_name r, w)) (filter (\<lambda>(r, w). rule_strength r = Must) found)
      in case must of
           (n, w) # _ \<Rightarrow> Inl (Must_rule_broken n w)
         | [] \<Rightarrow> Inr (map (\<lambda>(r, w). (rule_name r, w)) found))"

section \<open>What a rule and a well-formed rule mean\<close>

definition rule_kept :: "rule \<Rightarrow> vm_name \<Rightarrow> node_name \<Rightarrow> (vm_name, node_name) dict \<Rightarrow> bool" where
  "rule_kept r vm node wh \<longleftrightarrow> vm \<in> set (rule_vms r) \<longrightarrow>
     (case rule_kind r of
        Together \<Rightarrow> \<forall>(v, n) \<in> set wh. v \<in> set (rule_vms r) \<and> v \<noteq> vm \<longrightarrow> n = node
      | Apart \<Rightarrow> \<forall>(v, n) \<in> set wh. v \<in> set (rule_vms r) \<and> v \<noteq> vm \<longrightarrow> n \<noteq> node
      | On_nodes \<Rightarrow> node \<in> set (rule_nodes r)
      | Not_on_nodes \<Rightarrow> node \<notin> set (rule_nodes r))"

definition wf_rule :: "rule \<Rightarrow> bool" where
  "wf_rule r \<longleftrightarrow> NAME_RE (rule_name r)
     \<and> distinct (rule_vms r) \<and> length (rule_vms r) \<le> MAX_MEMBERS \<and> list_all VM_RE (rule_vms r)
     \<and> distinct (rule_nodes r) \<and> length (rule_nodes r) \<le> MAX_MEMBERS \<and> list_all NODE_RE (rule_nodes r)
     \<and> (if rule_kind r \<in> {On_nodes, Not_on_nodes} then rule_vms r \<noteq> [] \<and> rule_nodes r \<noteq> []
        else 2 \<le> length (rule_vms r) \<and> rule_nodes r = [])"

text \<open>The JSON object of a rule, as the API answers it.\<close>

definition rule_json :: "rule \<Rightarrow> (string, json) dict" where
  "rule_json r =
     [(''name'', JStr (rule_name r)),
      (''kind'', JStr (case rule_kind r of Together \<Rightarrow> ''together'' | Apart \<Rightarrow> ''apart''
                       | On_nodes \<Rightarrow> ''on_nodes'' | Not_on_nodes \<Rightarrow> ''not_on_nodes'')),
      (''strength'', JStr (case rule_strength r of Must \<Rightarrow> ''must'' | Should \<Rightarrow> ''should'')),
      (''vms'', JList (map JStr (rule_vms r))),
      (''nodes'', JList (map JStr (rule_nodes r))),
      (''enabled'', JBool (rule_enabled r))]"

section \<open>Lemmas\<close>

lemma breaks_None_iff: "breaks r vm node wh = None \<longleftrightarrow> rule_kept r vm node wh"
  by (cases "rule_kind r") (auto simp: breaks_def rule_kept_def Let_def filter_empty_conv split: prod.splits)

lemma set_broken_list:
  "(r, w) \<in> set (broken_list rs vm node wh ss) \<longleftrightarrow>
     r \<in> set rs \<and> rule_enabled r \<and> rule_strength r \<in> set ss \<and> breaks r vm node wh = Some w"
  by (induction rs) (auto split: option.splits)

lemma broken_list_Nil_iff:
  "broken_list rs vm node wh ss = [] \<longleftrightarrow>
     (\<forall>r \<in> set rs. rule_enabled r \<and> rule_strength r \<in> set ss \<longrightarrow> rule_kept r vm node wh)"
  by (induction rs) (auto simp: breaks_None_iff [symmetric] split: option.splits)

lemma set_rules: "set (rules st) = snd ` set (st_rules st)"
  by (simp add: rules_def)

lemma broken_Nil_iff:
  "broken st vm node wh ss = [] \<longleftrightarrow>
     (\<forall>r \<in> snd ` set (st_rules st). rule_enabled r \<and> rule_strength r \<in> set ss \<longrightarrow> rule_kept r vm node wh)"
  by (simp add: broken_def broken_list_Nil_iff set_rules)

lemma broken_Must_subset:
  "broken st vm node wh [Must, Should] = [] \<Longrightarrow> broken st vm node wh [Must] = []"
  by (auto simp: broken_Nil_iff)

lemma filter_Must_broken_list:
  "filter (\<lambda>(r, w). rule_strength r = Must) (broken_list rs vm node wh [Must, Should])
     = broken_list rs vm node wh [Must]"
proof (induction rs)
  case Nil
  then show ?case by simp
next
  case (Cons r rs)
  then show ?case by (cases "rule_strength r") (auto split: option.splits)
qed

lemma names_Inr:
  assumes "names j pat what = Inr ns"
  shows "distinct ns" and "length ns \<le> MAX_MEMBERS" and "list_all pat ns"
proof -
  from assms obtain vs where vs: "j = JList vs" "length vs \<le> MAX_MEMBERS" "list_all (is_name pat) vs"
      "ns = dedup (map jstr vs)"
    by (auto simp: names_def split: json.splits if_splits)
  show "distinct ns" using vs by simp
  show "length ns \<le> MAX_MEMBERS" using vs length_dedup_le [of "map jstr vs"] by simp
  have "is_name pat v \<Longrightarrow> pat (jstr v)" for v
    by (cases v) (simp_all add: is_name_def)
  then have "\<forall>v \<in> set vs. pat (jstr v)"
    using vs(3) by (simp add: list_all_iff)
  then show "list_all pat ns" using vs(4) by (simp add: list_all_iff)
qed

lemma names_JStr:
  "distinct ns \<Longrightarrow> length ns \<le> MAX_MEMBERS \<Longrightarrow> list_all pat ns \<Longrightarrow>
     names (JList (map JStr ns)) pat what = Inr ns"
  by (simp add: names_def is_name_def list_all_iff comp_def)

lemma get_or_Nil_list:
  "get_or [(k, JList (map JStr ns))] k (JList []) = JList (map JStr ns)"
  by (simp add: get_or_def)

lemma validate_wf: "validate d = Inr r \<Longrightarrow> wf_rule r"
  unfolding validate_def py_simps
  by (cases "rule_kind r") (auto simp: wf_rule_def dest: names_Inr)

lemma NAME_RE_not_Nil: "NAME_RE n \<Longrightarrow> n \<noteq> []"
  by (auto simp: NAME_RE_def name_match_def)

lemma validate_rule_json:
  assumes "wf_rule r"
  shows "validate (rule_json r) = Inr r"
proof -
  note wf = assms [unfolded wf_rule_def]
  have nm: "get_or (rule_json r) ''name'' (JStr []) = JStr (rule_name r)"
    using wf NAME_RE_not_Nil [of "rule_name r"] by (simp add: get_or_def rule_json_def)
  have vms: "names (get_or (rule_json r) ''vms'' (JList [])) VM_RE ''VMs'' = Inr (rule_vms r)"
    using wf names_JStr [of "rule_vms r" VM_RE "''VMs''"] by (auto simp: get_or_def rule_json_def)
  have nodes: "names (get_or (rule_json r) ''nodes'' (JList [])) NODE_RE ''nodes'' = Inr (rule_nodes r)"
    using wf names_JStr [of "rule_nodes r" NODE_RE "''nodes''"] by (auto simp: get_or_def rule_json_def)
  have kind: "lookup_text KINDS (case map_of (rule_json r) ''kind'' of None \<Rightarrow> JNull | Some v \<Rightarrow> v)
      = Some (rule_kind r)"
    by (cases "rule_kind r") (simp_all add: rule_json_def lookup_text_def KINDS_def)
  have strength: "lookup_text STRENGTHS
      (case map_of (rule_json r) ''strength'' of None \<Rightarrow> JStr ''should'' | Some v \<Rightarrow> v) = Some (rule_strength r)"
    by (cases "rule_strength r") (simp_all add: rule_json_def lookup_text_def STRENGTHS_def)
  have enabled: "map_of (rule_json r) ''enabled'' = Some (JBool (rule_enabled r))"
    by (simp add: rule_json_def)
  show ?thesis
    using wf by (cases "rule_kind r") (simp_all add: validate_def nm vms nodes kind strength enabled)
qed

lemma store_ok_save_rule: "store_ok st \<Longrightarrow> store_ok (store_save_rule st r)"
  by (auto simp: store_ok_def store_save_rule_def set_dict_set)

lemma store_ok_delete_rule: "store_ok st \<Longrightarrow> store_ok (fst (delete_rule st n))"
  by (auto simp: store_ok_def delete_rule_def set_dict_del)

lemma MODES_complete: "map_of MODES t = Some m \<Longrightarrow> t \<in> {''off'', ''manual'', ''automatic''}"
  by (auto simp: MODES_def split: if_splits)

section \<open>Properties\<close>

text \<open>A VM may run on a node (\<open>allowed\<close>) exactly when every enabled must rule that names the
  VM is kept there: together, no other VM of the rule runs elsewhere; apart, none runs on that
  node; on nodes, it is one of them; not on nodes, it is none of them.\<close>

theorem allowed_iff_must_rules_kept:
  "allowed st vm node wh \<longleftrightarrow>
     (\<forall>r \<in> snd ` set (st_rules st). rule_enabled r \<and> rule_strength r = Must \<longrightarrow> rule_kept r vm node wh)"
  by (simp add: allowed_def broken_Nil_iff)

definition sample_apart :: rule where
  "sample_apart = \<lparr>rule_name = ''db'', rule_kind = Apart, rule_strength = Must,
     rule_vms = [''a'', ''b''], rule_nodes = [], rule_enabled = True\<rparr>"

definition sample_store :: drs_store where
  "sample_store = \<lparr>st_settings = [], st_rules = [(''db'', sample_apart)], st_behaviours = []\<rparr>"

theorem allowed_iff_must_rules_kept_witness:
  "\<not> allowed sample_store ''a'' ''n1'' [(''b'', ''n1'')] \<and> allowed sample_store ''a'' ''n2'' [(''b'', ''n1'')]"
  using allowed_iff_must_rules_kept [of sample_store "''a''" "''n1''" "[(''b'', ''n1'')]"]
    allowed_iff_must_rules_kept [of sample_store "''a''" "''n2''" "[(''b'', ''n1'')]"]
  by (simp add: sample_store_def sample_apart_def rule_kept_def)

text \<open>\<open>validate\<close> normalises: a rule it accepts is well-formed (distinct names of the right form,
  at most 64, two VMs for a rule between VMs, a VM and a node for a rule on nodes), and checking the
  accepted rule again gives that same rule.\<close>

theorem validate_normal_form:
  assumes "validate d = Inr r"
  shows "wf_rule r \<and> validate (rule_json r) = Inr r"
  using validate_wf [OF assms] validate_rule_json by blast

definition sample_json :: "(string, json) dict" where
  "sample_json = [(''name'', JStr ''db''), (''kind'', JStr ''apart''), (''strength'', JStr ''must''),
     (''vms'', JList [JStr ''a'', JStr ''b'', JStr ''a''])]"

lemma validate_sample_json: "validate sample_json = Inr sample_apart"
  by (simp add: sample_json_def sample_apart_def validate_def get_or_def NAME_RE_def VM_RE_def name_match_def
      is_alnum_def is_lower_def is_digit_def is_upper_def KINDS_def STRENGTHS_def lookup_text_def names_def
      MAX_MEMBERS_def is_name_def less_eq_char_def)

theorem validate_normal_form_witness:
  "validate sample_json = Inr sample_apart \<and> wf_rule sample_apart \<and> validate (rule_json sample_apart) = Inr sample_apart"
  using validate_normal_form [OF validate_sample_json] validate_sample_json by simp

text \<open>A must rule refuses: \<open>refuse_if_broken\<close> raises exactly when the VM is not allowed on the
  node, and otherwise returns the should rules it breaks, which is empty when it breaks none.\<close>

theorem refuse_if_broken_iff_not_allowed:
  "(case refuse_if_broken st vm node wh of
      Inl _ \<Rightarrow> \<not> allowed st vm node wh
    | Inr found \<Rightarrow> allowed st vm node wh \<and>
        found = map (\<lambda>(r, w). (rule_name r, w)) (broken st vm node wh [Must, Should]))"
proof (cases "broken st vm node wh [Must]")
  case Nil
  then show ?thesis
    by (simp add: refuse_if_broken_def allowed_def broken_def filter_Must_broken_list Let_def)
next
  case (Cons x xs)
  then show ?thesis
    by (cases x) (simp add: refuse_if_broken_def allowed_def broken_def filter_Must_broken_list Let_def)
qed

text \<open>A saved rule is the one read back under its name, the others are untouched, and the table
  keeps one row per name, each row filed under its rule's name.\<close>

theorem save_rule_reads_back:
  assumes "store_ok st" and "save_rule st d = Inr (st', got)"
  shows "\<exists>r. validate d = Inr r \<and> got = Some r \<and> store_ok st'
           \<and> rule_by_name st' (rule_name r) = Some r
           \<and> (\<forall>n. n \<noteq> rule_name r \<longrightarrow> rule_by_name st' n = rule_by_name st n)"
  using assms store_ok_save_rule
  by (auto simp: save_rule_def rule_by_name_def store_save_rule_def Let_def split: sum.splits)

theorem save_rule_reads_back_witness:
  "store_ok sample_store \<and> (\<exists>st' got. save_rule sample_store sample_json = Inr (st', got)
     \<and> store_ok st' \<and> rule_by_name st' ''db'' = Some sample_apart)"
proof -
  have ok: "store_ok sample_store"
    by (simp add: store_ok_def sample_store_def sample_apart_def)
  obtain st' got where sv: "save_rule sample_store sample_json = Inr (st', got)"
    by (simp add: save_rule_def validate_sample_json Let_def)
  from save_rule_reads_back [OF ok sv] validate_sample_json
  have "store_ok st' \<and> rule_by_name st' ''db'' = Some sample_apart"
    by (auto simp: sample_apart_def)
  with ok sv show ?thesis by blast
qed

text \<open>The settings read are always in range, whatever the table holds, and a level that
  \<open>save_settings\<close> accepts is the level read back with its mode.\<close>

theorem settings_in_range_and_read_back:
  "1 \<le> set_threshold (read_settings st) \<and> set_threshold (read_settings st) \<le> 5
   \<and> (\<forall>t n st' s. save_settings st t (JNum n) = Inr (st', s)
        \<longrightarrow> set_threshold s = n \<and> map_of MODES t = Some (set_mode s))"
proof (intro conjI allI impI)
  show "1 \<le> set_threshold (read_settings st)" and "set_threshold (read_settings st) \<le> 5"
    by (simp_all add: read_settings_def Let_def DEFAULT_THRESHOLD_def)
next
  fix t n st' s
  assume "save_settings st t (JNum n) = Inr (st', s)"
  then have "map_of MODES t \<noteq> None" "1 \<le> n" "n \<le> 5" "s = read_settings st'"
      "st' = store_save_settings st [(''mode'', t), (''threshold'', str_of_nat (nat n))]"
    by (auto simp: save_settings_def Let_def split: if_splits)
  then show "set_threshold s = n" and "map_of MODES t = Some (set_mode s)"
    by (auto simp: read_settings_def store_save_settings_def)
qed

theorem settings_in_range_and_read_back_witness:
  "(\<exists>st' s. save_settings sample_store ''manual'' (JNum 5) = Inr (st', s) \<and> set_threshold s = 5 \<and> set_mode s = Manual)"
proof -
  obtain st' s where sv: "save_settings sample_store ''manual'' (JNum 5) = Inr (st', s)"
    by (simp add: save_settings_def MODES_def Let_def)
  with settings_in_range_and_read_back [of sample_store] show ?thesis
    by (fastforce simp: MODES_def)
qed

end
