(* ===== verification/Drs.thy ===== *)
theory Drs
  imports Drs_Rules
begin

text \<open>
  The recommended moves of load balancing: \<^verbatim>\<open>app/core/drs.py\<close>, from the members' loads to
  the list of moves (\<open>observe\<close>, \<open>view\<close>, \<open>recommend\<close>), and the placement of a drained member's
  VMs and of a new VM (\<open>place\<close>, \<open>drain\<close>, \<open>initial\<close>).

  A member's load is a record of rationals; the members are a dict in the order of the status
  table, because \<open>max\<close> and \<open>min\<close> keep the first of equal scores. A missing key of a Python
  dict (KeyError) is \<open>None\<close>. The greedy loop of \<open>recommend\<close> is \<open>balance_loop\<close>, which ends
  because each round adds a move below \<open>MAX_MOVES\<close>; the ranking loop of \<open>initial\<close> ends because
  each round removes a member.

  Shown: on a view of the cluster no KeyError is raised; every move goes from the VM's node to
  another member with room, keeps the VM's rules and lowers the spread by a quarter of the
  threshold; no VM moves twice; memory is neither lost nor made; a placement fits, breaks no must
  rule and prefers a member where every rule is kept.
\<close>

section \<open>Loads\<close>

record vm_load =
  vl_mem_used_mb :: "pyfloat option"
  vl_mem_total_mb :: "pyfloat option"
  vl_cpu_pct :: "pyfloat option"
  vl_vcpus :: "pyfloat option"
  vl_shared :: bool

record node_load =
  nl_cpu :: pyfloat
  nl_mem :: pyfloat
  nl_score :: pyfloat
  nl_cpus :: pyfloat
  nl_mem_total_mb :: pyfloat
  nl_mem_used_mb :: pyfloat
  nl_vms :: "(vm_name, vm_load) dict"

record host_load =
  h_cpu_pct :: "pyfloat option"
  h_mem_total_mb :: "pyfloat option"
  h_mem_used_mb :: "pyfloat option"
  h_cpus :: "pyfloat option"

text \<open>A member's status as \<open>statd.table\<close> gives it: its load and the list of its VMs.\<close>

record node_status =
  ns_stale :: bool
  ns_host :: host_load
  ns_load_vms :: "(vm_name, vm_load) dict"
  ns_vms :: "vm_entry list"

type_synonym status_table = "(node_name, node_status) dict"
type_synonym nodes = "(node_name, node_load) dict"
type_synonym samples = "(node_name, (seconds \<times> pyfloat) list) dict"

definition CPU_WINDOW_S :: seconds where "CPU_WINDOW_S = 300"
definition HOT_PCT :: pyfloat where "HOT_PCT = 90"
definition MAX_MOVES :: nat where "MAX_MOVES = 4"
definition MEM_MARGIN :: pyfloat where "MEM_MARGIN = 11 / 10"
definition COOLDOWN_S :: seconds where "COOLDOWN_S = 3600"

definition SPREAD :: "int \<Rightarrow> pyfloat option" where
  "SPREAD level = map_of [(2, 40), (3, 25), (4, 15), (5, 10)] level"

section \<open>The cluster's load\<close>

definition observe_node :: "seconds \<Rightarrow> samples \<Rightarrow> node_name \<times> node_status \<Rightarrow> samples" where
  "observe_node now cpu entry = (case entry of (node, status) \<Rightarrow>
     (case h_cpu_pct (ns_host status) of
        None \<Rightarrow> cpu
      | Some c \<Rightarrow>
          if ns_stale status then cpu
          else let kept = filter (\<lambda>s. now - fst s \<le> CPU_WINDOW_S)
                     (case map_of cpu node of None \<Rightarrow> [] | Some l \<Rightarrow> l)
               in dict_set node (kept @ [(now, c)]) cpu))"

definition observe :: "status_table \<Rightarrow> seconds \<Rightarrow> samples \<Rightarrow> samples" where
  "observe table now cpu = foldl (observe_node now) cpu table"

definition cpu_mean :: "samples \<Rightarrow> node_name \<Rightarrow> pyfloat \<Rightarrow> pyfloat" where
  "cpu_mean cpu node current =
     (let samples = (case map_of cpu node of None \<Rightarrow> [] | Some l \<Rightarrow> l)
      in if samples = [] then current else sum_list (map snd samples) / of_nat (length samples))"

definition view_node :: "samples \<Rightarrow> node_name list \<Rightarrow> node_name \<times> node_status \<Rightarrow> (node_name \<times> node_load) list" where
  "view_node cpu unavailable entry = (case entry of (node, status) \<Rightarrow>
     (let host = ns_host status in
      case (h_mem_total_mb host, h_mem_used_mb host, h_cpu_pct host) of
        (Some tot, Some used, Some c) \<Rightarrow>
          (if ns_stale status \<or> node \<in> set unavailable \<or> tot = 0 then []
           else let c' = cpu_mean cpu node c; m = 100 * used / tot
                in [(node, \<lparr>nl_cpu = c', nl_mem = m, nl_score = max c' m, nl_cpus = num_or (h_cpus host) 1,
                     nl_mem_total_mb = tot, nl_mem_used_mb = used, nl_vms = ns_load_vms status\<rparr>)])
      | _ \<Rightarrow> []))"

definition view :: "samples \<Rightarrow> status_table \<Rightarrow> node_name list \<Rightarrow> nodes" where
  "view cpu table unavailable = concat (map (view_node cpu unavailable) table)"

definition spread :: "nodes \<Rightarrow> pyfloat" where
  "spread nodes =
     (let scores = map (nl_score \<circ> snd) nodes
      in if length scores \<ge> 2 then Max (set scores) - Min (set scores) else 0)"

definition vm_memory :: "vm_load \<Rightarrow> pyfloat" where
  "vm_memory vm = num_or (vl_mem_used_mb vm) (num_or (vl_mem_total_mb vm) 0)"

definition vm_cpu_points :: "vm_load \<Rightarrow> node_load \<Rightarrow> pyfloat" where
  "vm_cpu_points vm node =
     num_or (vl_cpu_pct vm) 0 * num_or (vl_vcpus vm) 1 / num_or (Some (nl_cpus node)) 1"

definition rescore :: "node_load \<Rightarrow> node_load" where
  "rescore n = (let m = 100 * nl_mem_used_mb n / nl_mem_total_mb n
                in n\<lparr>nl_mem := m, nl_score := max (nl_cpu n) m\<rparr>)"

text \<open>\<open>_after\<close>: the VM leaves its source, then enters the target (read again after the source is
  written), then both are scored again.\<close>

definition leave :: "node_load \<Rightarrow> vm_name \<Rightarrow> vm_load \<Rightarrow> node_load" where
  "leave s vm_name vm =
     s\<lparr>nl_cpu := nl_cpu s - vm_cpu_points vm s, nl_mem_used_mb := nl_mem_used_mb s - vm_memory vm,
       nl_vms := dict_del vm_name (nl_vms s)\<rparr>"

definition enter :: "node_load \<Rightarrow> node_load \<Rightarrow> vm_name \<Rightarrow> vm_load \<Rightarrow> node_load" where
  "enter t s vm_name vm =
     t\<lparr>nl_cpu := nl_cpu t + vm_cpu_points vm s * (nl_cpus s / num_or (Some (nl_cpus t)) 1),
       nl_mem_used_mb := nl_mem_used_mb t + vm_memory vm, nl_vms := dict_set vm_name vm (nl_vms t)\<rparr>"

definition rescore_two :: "node_name \<Rightarrow> node_name \<Rightarrow> nodes \<Rightarrow> nodes" where
  "rescore_two source target nodes =
     map (\<lambda>(n, v). (n, if n = source \<or> n = target then rescore v else v)) nodes"

definition after :: "nodes \<Rightarrow> vm_name \<Rightarrow> node_name \<Rightarrow> node_name \<Rightarrow> nodes option" where
  "after nodes vm_name source target =
     (case map_of nodes source of
        None \<Rightarrow> None
      | Some s \<Rightarrow>
       (case map_of (nl_vms s) vm_name of
          None \<Rightarrow> None
        | Some vm \<Rightarrow>
          (let nodes1 = dict_set source (leave s vm_name vm) nodes
           in case map_of nodes1 target of
                None \<Rightarrow> None
              | Some t \<Rightarrow> Some (rescore_two source target (dict_set target (enter t s vm_name vm) nodes1)))))"

definition movable :: "(vm_name, behaviour) dict \<Rightarrow> (vm_name, seconds) dict \<Rightarrow> seconds \<Rightarrow> vm_name \<Rightarrow> vm_load \<Rightarrow> bool" where
  "movable bhs moved now vm_name vm =
     (if \<not> vl_shared vm then False
      else if map_of bhs vm_name = Some Excluded then False
      else case map_of moved vm_name of None \<Rightarrow> True | Some t0 \<Rightarrow> now - t0 \<ge> COOLDOWN_S)"

definition fits :: "vm_load \<Rightarrow> node_load \<Rightarrow> bool" where
  "fits vm target \<longleftrightarrow> nl_mem_total_mb target - nl_mem_used_mb target \<ge> vm_memory vm * MEM_MARGIN"

definition keeps_rules :: "drs_store \<Rightarrow> vm_name \<Rightarrow> node_name \<Rightarrow> (vm_name, node_name) dict \<Rightarrow> bool" where
  "keeps_rules st vm_name target wh \<longleftrightarrow> broken st vm_name target wh [Must, Should] = []"

section \<open>Recommended moves\<close>

datatype move_reason =
    Rule_reason string why
  | Hot_reason node_name pyfloat
  | Spread_reason node_name pyfloat pyfloat

record move =
  mv_vm :: vm_name
  mv_source :: node_name
  mv_target :: node_name
  mv_gain :: "pyfloat option"
  mv_reason :: move_reason

text \<open>What \<open>recommend\<close> reads beside the loads: the rules, the behaviours, the last moves, the time.\<close>

record drs_env =
  env_store :: drs_store
  env_behaviours :: "(vm_name, behaviour) dict"
  env_moved :: "(vm_name, seconds) dict"
  env_now :: seconds

fun rule_fixes_loop :: "drs_env \<Rightarrow> nodes \<Rightarrow> (vm_name, node_name) dict \<Rightarrow> (vm_name \<times> node_name) list \<Rightarrow> move list option" where
  "rule_fixes_loop e nodes wh [] = Some []"
| "rule_fixes_loop e nodes wh ((vm_name, source) # rest) =
     (case map_of nodes source of
        None \<Rightarrow> None
      | Some s \<Rightarrow>
       (case map_of (nl_vms s) vm_name of
          None \<Rightarrow> None
        | Some vm \<Rightarrow>
          (case broken (env_store e) vm_name source wh [Must, Should] of
             [] \<Rightarrow> rule_fixes_loop e nodes wh rest
           | (r, w) # _ \<Rightarrow>
             (if \<not> movable (env_behaviours e) (env_moved e) (env_now e) vm_name vm
              then rule_fixes_loop e nodes wh rest
              else
               (case first_min (nl_score \<circ> snd)
                   (filter (\<lambda>(t, n). t \<noteq> source \<and> fits vm n \<and> keeps_rules (env_store e) vm_name t wh) nodes) of
                  None \<Rightarrow> rule_fixes_loop e nodes wh rest
                | Some (target, _) \<Rightarrow>
                    map_option (\<lambda>ms. \<lparr>mv_vm = vm_name, mv_source = source, mv_target = target, mv_gain = None,
                                      mv_reason = Rule_reason (rule_name r) w\<rparr> # ms)
                      (rule_fixes_loop e nodes (dict_set vm_name target wh) rest))))))"

definition rule_fixes :: "drs_env \<Rightarrow> nodes \<Rightarrow> (vm_name, node_name) dict \<Rightarrow> move list option" where
  "rule_fixes e nodes wh = rule_fixes_loop e nodes wh (sort_key fst wh)"

fun apply_fixes :: "nodes \<Rightarrow> (vm_name, node_name) dict \<Rightarrow> move list \<Rightarrow> (nodes \<times> (vm_name, node_name) dict) option" where
  "apply_fixes current wh [] = Some (current, wh)"
| "apply_fixes current wh (m # ms) =
     (case after current (mv_vm m) (mv_source m) (mv_target m) of
        None \<Rightarrow> None
      | Some current' \<Rightarrow> apply_fixes current' (dict_set (mv_vm m) (mv_target m) wh) ms)"

text \<open>The pairs of a VM of the most loaded member and a member it may go to, in the loops' order.\<close>

definition move_pairs :: "drs_env \<Rightarrow> nodes \<Rightarrow> (vm_name, node_name) dict \<Rightarrow> vm_name list \<Rightarrow> node_name \<Rightarrow> node_load
    \<Rightarrow> (vm_name \<times> vm_load \<times> node_name) list" where
  "move_pairs e current wh done source s =
     concat (map (\<lambda>(vm_name, vm).
         map (\<lambda>(target, _). (vm_name, vm, target))
           (filter (\<lambda>(target, n). \<not> (target = source \<or> \<not> fits vm n \<or> \<not> keeps_rules (env_store e) vm_name target wh))
              current))
       (filter (\<lambda>(vm_name, vm).
           \<not> (\<not> movable (env_behaviours e) (env_moved e) (env_now e) vm_name vm \<or> vm_name \<in> set done))
         (sort_key fst (nl_vms s))))"

definition best_move :: "drs_env \<Rightarrow> nodes \<Rightarrow> (vm_name, node_name) dict \<Rightarrow> vm_name list \<Rightarrow> node_name \<Rightarrow> node_load
    \<Rightarrow> (pyfloat \<times> vm_name \<times> node_name \<times> nodes) option option" where
  "best_move e current wh done source s =
     map_option
       (\<lambda>cands. map_option (\<lambda>(vm_name, vm, target, aft). (spread current - spread aft, vm_name, target, aft))
          (first_max (\<lambda>(vm_name, vm, target, aft). (spread current - spread aft, - vm_memory vm)) cands))
       (those (map (\<lambda>(vm_name, vm, target).
          map_option (\<lambda>aft. (vm_name, vm, target, aft)) (after current vm_name source target))
          (move_pairs e current wh done source s)))"

function balance_loop :: "drs_env \<Rightarrow> pyfloat \<Rightarrow> move list \<Rightarrow> nodes \<Rightarrow> (vm_name, node_name) dict \<Rightarrow> move list option" where
  "balance_loop e threshold moves current wh =
     (if length moves < MAX_MOVES \<and> length current \<ge> 2 then
        (case first_max (nl_score \<circ> snd) current of
           None \<Rightarrow> Some moves
         | Some (source, s) \<Rightarrow>
           (let sp = spread current; hot = nl_score s \<ge> HOT_PCT in
            if sp < threshold \<and> \<not> hot then Some moves
            else
             (case best_move e current wh (map mv_vm moves) source s of
                None \<Rightarrow> None
              | Some None \<Rightarrow> Some moves
              | Some (Some (gain, vm_name, target, aft)) \<Rightarrow>
                  (if gain < threshold / 4 then Some moves
                   else balance_loop e threshold
                     (moves @ [\<lparr>mv_vm = vm_name, mv_source = source, mv_target = target,
                                mv_gain = Some (round1 gain),
                                mv_reason = (if hot then Hot_reason source (nl_score s)
                                             else Spread_reason source (nl_score s) sp)\<rparr>])
                     aft (dict_set vm_name target wh)))))
      else Some moves)"
  by pat_completeness auto
termination
  by (relation "measure (\<lambda>(e, threshold, moves, current, wh). MAX_MOVES - length moves)") auto

declare balance_loop.simps [simp del]

definition where_of :: "nodes \<Rightarrow> (vm_name, node_name) dict" where
  "where_of nodes = dict_of (concat (map (\<lambda>(node, v). map (\<lambda>(vm, _). (vm, node)) (nl_vms v)) nodes))"

definition recommend :: "drs_env \<Rightarrow> nodes \<Rightarrow> int \<Rightarrow> move list option" where
  "recommend e nodes level =
     (let wh = where_of nodes in
      case rule_fixes e nodes wh of
        None \<Rightarrow> None
      | Some fixes \<Rightarrow>
       (case apply_fixes nodes wh fixes of
          None \<Rightarrow> None
        | Some (current, wh') \<Rightarrow>
          (case SPREAD level of
             None \<Rightarrow> Some fixes
           | Some threshold \<Rightarrow> balance_loop e threshold fixes current wh')))"

section \<open>Placement: a drained member's VMs and a new VM\<close>

definition with_vm :: "node_load \<Rightarrow> vm_name \<Rightarrow> vm_load \<Rightarrow> node_load" where
  "with_vm n vm_name vm =
     (let n' = n\<lparr>nl_vms := dict_set vm_name vm (nl_vms n)\<rparr>
      in rescore (n'\<lparr>nl_cpu := nl_cpu n' + vm_cpu_points vm n',
                     nl_mem_used_mb := nl_mem_used_mb n' + vm_memory vm\<rparr>))"

definition with_nodes :: "nodes \<Rightarrow> node_name \<Rightarrow> vm_name \<Rightarrow> vm_load \<Rightarrow> nodes" where
  "with_nodes nodes target vm_name vm =
     (case map_of nodes target of None \<Rightarrow> nodes | Some n \<Rightarrow> dict_set target (with_vm n vm_name vm) nodes)"

text \<open>\<open>[... keeps every rule] or [... keeps the must rules]\<close>, for any two such checks.\<close>

definition keeping_of :: "('a \<Rightarrow> bool) \<Rightarrow> ('a \<Rightarrow> bool) \<Rightarrow> 'a list \<Rightarrow> 'a list" where
  "keeping_of keeps may xs = (if filter keeps xs \<noteq> [] then filter keeps xs else filter may xs)"

definition place :: "drs_store \<Rightarrow> vm_name \<Rightarrow> vm_load \<Rightarrow> nodes \<Rightarrow> (vm_name, node_name) dict \<Rightarrow> node_name option" where
  "place st vm_name vm nodes wh =
     (let roomy = filter (\<lambda>(n, v). fits vm v) nodes;
          keeping = keeping_of (\<lambda>(n, v). keeps_rules st vm_name n wh) (\<lambda>(n, v). allowed st vm_name n wh) roomy
      in map_option fst (first_min (\<lambda>(n, v). (nl_score (with_vm v vm_name vm), n)) keeping))"

definition no_load :: vm_load where
  "no_load = \<lparr>vl_mem_used_mb = None, vl_mem_total_mb = None, vl_cpu_pct = None, vl_vcpus = None, vl_shared = False\<rparr>"

fun drain_loop :: "drs_store \<Rightarrow> (vm_name, vm_load) dict \<Rightarrow> vm_name list \<Rightarrow> nodes \<Rightarrow> (vm_name, node_name) dict
    \<Rightarrow> (vm_name \<times> node_name option) list" where
  "drain_loop st loads [] nodes wh = []"
| "drain_loop st loads (name # rest) nodes wh =
     (let vm = (case map_of loads name of None \<Rightarrow> no_load | Some v \<Rightarrow> v) in
      case place st name vm nodes wh of
        None \<Rightarrow> (name, None) # drain_loop st loads rest nodes wh
      | Some target \<Rightarrow>
          (name, Some target) # drain_loop st loads rest (with_nodes nodes target name vm) (dict_set name target wh))"

definition drain :: "drs_store \<Rightarrow> samples \<Rightarrow> status_table \<Rightarrow> node_name list \<Rightarrow> node_name \<Rightarrow> vm_name list
    \<Rightarrow> (vm_name, node_name option) dict" where
  "drain st cpu table unavailable source vm_names =
     (let nodes = view cpu table (source # unavailable);
          loads = (case map_of table source of None \<Rightarrow> [] | Some s \<Rightarrow> ns_load_vms s);
          wh = placement (map (\<lambda>(n, s). (n, ns_vms s)) table);
          order = sort_key (\<lambda>n. (- vm_memory (case map_of loads n of None \<Rightarrow> no_load | Some v \<Rightarrow> v), n)) vm_names
      in dict_of (drain_loop st loads order nodes wh))"

lemma place_in_keys: "place st vm_name vm nodes wh = Some n \<Longrightarrow> n \<in> set (keys nodes)"
  by (force simp: place_def keeping_of_def Let_def dest!: first_min_in split: if_splits)

function initial_loop :: "drs_store \<Rightarrow> vm_name \<Rightarrow> vm_load \<Rightarrow> nodes \<Rightarrow> (vm_name, node_name) dict \<Rightarrow> node_name list" where
  "initial_loop st vm_name vm nodes wh =
     (case place st vm_name vm nodes wh of
        None \<Rightarrow> []
      | Some best \<Rightarrow> best # initial_loop st vm_name vm (filter (\<lambda>(n, v). n \<noteq> best) nodes) wh)"
  by pat_completeness auto
termination
proof (relation "measure (\<lambda>(st, vm_name, vm, nodes, wh). length nodes)", goal_cases)
  case 1
  show ?case by simp
next
  case (2 st vm_name vm nodes wh best)
  then obtain v where "(best, v) \<in> set nodes" by (auto dest!: place_in_keys)
  then have "length (filter (\<lambda>(n, v). n \<noteq> best) nodes) < length nodes"
    by (intro length_filter_less [where x = "(best, v)"]) auto
  then show ?case by simp
qed

declare initial_loop.simps [simp del]

definition initial :: "drs_store \<Rightarrow> samples \<Rightarrow> status_table \<Rightarrow> node_name list \<Rightarrow> vm_name \<Rightarrow> pyfloat \<Rightarrow> pyfloat \<Rightarrow> node_name list" where
  "initial st cpu table unavailable vm_name memory_mb vcpus =
     initial_loop st vm_name
       \<lparr>vl_mem_used_mb = None, vl_mem_total_mb = Some memory_mb, vl_cpu_pct = Some 0, vl_vcpus = Some vcpus, vl_shared = False\<rparr>
       (view cpu table unavailable) (placement (map (\<lambda>(n, s). (n, ns_vms s)) table))"

section \<open>Well-formed views and what a move does to them\<close>

definition wf_nodes :: "nodes \<Rightarrow> bool" where
  "wf_nodes nodes \<longleftrightarrow> dict_ok nodes \<and> (\<forall>v \<in> snd ` set nodes. dict_ok (nl_vms v))"

definition has_vm :: "nodes \<Rightarrow> node_name \<Rightarrow> vm_name \<Rightarrow> bool" where
  "has_vm nodes n vm \<longleftrightarrow> (\<exists>s. map_of nodes n = Some s \<and> map_of (nl_vms s) vm \<noteq> None)"

definition used_memory :: "nodes \<Rightarrow> pyfloat" where
  "used_memory nodes = sum_list (map (nl_mem_used_mb \<circ> snd) nodes)"

lemma rescore_simps [simp]:
  "nl_vms (rescore n) = nl_vms n" "nl_mem_used_mb (rescore n) = nl_mem_used_mb n"
  "nl_mem_total_mb (rescore n) = nl_mem_total_mb n" "nl_cpus (rescore n) = nl_cpus n" "nl_cpu (rescore n) = nl_cpu n"
  by (simp_all add: rescore_def Let_def)

lemma leave_enter_simps [simp]:
  "nl_vms (leave s vm v) = dict_del vm (nl_vms s)" "nl_vms (enter t s vm v) = dict_set vm v (nl_vms t)"
  "nl_mem_used_mb (leave s vm v) = nl_mem_used_mb s - vm_memory v"
  "nl_mem_used_mb (enter t s vm v) = nl_mem_used_mb t + vm_memory v"
  by (simp_all add: leave_def enter_def)

lemma keys_rescore_two [simp]: "keys (rescore_two a b d) = keys d"
  by (induction d) (auto simp: rescore_two_def)

lemma map_of_rescore_two [simp]:
  "map_of (rescore_two a b d) k = map_option (\<lambda>v. if k = a \<or> k = b then rescore v else v) (map_of d k)"
  by (induction d) (auto simp: rescore_two_def)

lemma used_memory_rescore_two [simp]: "used_memory (rescore_two a b d) = used_memory d"
  by (induction d) (auto simp: rescore_two_def used_memory_def)

lemma used_memory_dict_set:
  "map_of d k = Some w \<Longrightarrow> used_memory (dict_set k v d) = used_memory d - nl_mem_used_mb w + nl_mem_used_mb v"
  by (induction d) (auto simp: used_memory_def)

text \<open>The value of \<open>_after\<close> between two different members.\<close>

lemma afterE:
  assumes "after nodes vm src dst = Some aft" and "src \<noteq> dst"
  obtains s v t where "map_of nodes src = Some s" "map_of (nl_vms s) vm = Some v" "map_of nodes dst = Some t"
    "aft = rescore_two src dst (dict_set dst (enter t s vm v) (dict_set src (leave s vm v) nodes))"
  using assms by (auto simp: after_def Let_def split: option.splits)

lemma after_defined:
  assumes "has_vm nodes src vm" and "dst \<in> set (keys nodes)"
  shows "\<exists>aft. after nodes vm src dst = Some aft"
  using assms(1) keys_map_of [OF assms(2)] by (auto simp: has_vm_def after_def Let_def)

lemma keys_after: "after nodes vm src dst = Some aft \<Longrightarrow> src \<noteq> dst \<Longrightarrow> keys aft = keys nodes"
  by (erule (1) afterE) simp

lemma wf_nodes_iff: "wf_nodes nodes \<longleftrightarrow> dict_ok nodes \<and> (\<forall>n v. map_of nodes n = Some v \<longrightarrow> dict_ok (nl_vms v))"
  by (auto simp: wf_nodes_def) (force dest: map_of_SomeD)

lemma wf_nodesD: "wf_nodes nodes \<Longrightarrow> map_of nodes n = Some s \<Longrightarrow> dict_ok (nl_vms s)"
  by (simp add: wf_nodes_iff)

lemma wf_nodes_after:
  assumes "wf_nodes nodes" and "after nodes vm src dst = Some aft" and "src \<noteq> dst"
  shows "wf_nodes aft"
proof -
  have "dict_ok aft" using keys_after [OF assms(2,3)] assms(1) by (simp add: wf_nodes_def)
  moreover have "map_of aft n = Some w \<Longrightarrow> dict_ok (nl_vms w)" for n w
    using assms(2,3) wf_nodesD [OF assms(1)] by (auto elim!: afterE split: if_splits)
  ultimately show ?thesis by (simp add: wf_nodes_iff)
qed

lemma has_vm_after:
  assumes "after nodes vm src dst = Some aft" and "src \<noteq> dst" and "vm' \<noteq> vm"
  shows "has_vm aft n vm' = has_vm nodes n vm'"
  using assms by (auto simp: has_vm_def elim!: afterE split: if_splits)

lemma used_memory_after:
  assumes "after nodes vm src dst = Some aft" and "src \<noteq> dst"
  shows "used_memory aft = used_memory nodes"
  using assms by (auto elim!: afterE simp: used_memory_dict_set)

section \<open>No missing key, no VM twice\<close>

lemma where_of_has_vm:
  assumes "wf_nodes nodes" and "(vm, n) \<in> set (where_of nodes)"
  shows "has_vm nodes n vm"
proof -
  from assms(2) obtain v w where nv: "(n, v) \<in> set nodes" and vw: "(vm, w) \<in> set (nl_vms v)"
    by (fastforce simp: where_of_def dest!: dict_of_mem)
  from assms(1) nv have "map_of nodes n = Some v" by (simp add: wf_nodes_def)
  with vw show ?thesis by (auto simp: has_vm_def dest: weak_map_of_SomeI)
qed

text \<open>What holds of the moves that mend rules: one per VM of the list, from where it runs to another
  member.\<close>

definition fixes_ok :: "nodes \<Rightarrow> vm_name list \<Rightarrow> move list \<Rightarrow> bool" where
  "fixes_ok nodes vms ms \<longleftrightarrow> distinct (map mv_vm ms) \<and> set (map mv_vm ms) \<subseteq> set vms
     \<and> (\<forall>m \<in> set ms. mv_source m \<noteq> mv_target m \<and> has_vm nodes (mv_source m) (mv_vm m)
          \<and> mv_target m \<in> set (keys nodes) \<and> mv_gain m = None)"

lemma fixes_ok_Nil [simp]: "fixes_ok nodes vms []"
  by (simp add: fixes_ok_def)

lemma fixes_ok_weaken: "fixes_ok nodes vms ms \<Longrightarrow> fixes_ok nodes (vm # vms) ms"
  by (auto simp: fixes_ok_def)

lemma fixes_ok_Cons:
  "fixes_ok nodes vms ms \<Longrightarrow> mv_vm m \<notin> set vms \<Longrightarrow> mv_source m \<noteq> mv_target m \<Longrightarrow>
   has_vm nodes (mv_source m) (mv_vm m) \<Longrightarrow> mv_target m \<in> set (keys nodes) \<Longrightarrow> mv_gain m = None \<Longrightarrow>
   fixes_ok nodes (mv_vm m # vms) (m # ms)"
  by (auto simp: fixes_ok_def)

lemma rule_fixes_loop_ok:
  assumes "\<forall>(vm, n) \<in> set l. has_vm nodes n vm" and "distinct (map fst l)"
  shows "\<exists>ms. rule_fixes_loop e nodes wh l = Some ms \<and> fixes_ok nodes (map fst l) ms"
  using assms
proof (induction l arbitrary: wh)
  case Nil
  then show ?case by simp
next
  case (Cons p rest)
  obtain vm src where p: "p = (vm, src)" by (cases p)
  from Cons.prems p obtain s v where sv: "map_of nodes src = Some s" "map_of (nl_vms s) vm = Some v"
    by (auto simp: has_vm_def)
  from Cons.prems have IH: "\<exists>ms. rule_fixes_loop e nodes wh' rest = Some ms \<and> fixes_ok nodes (map fst rest) ms" for wh'
    by (intro Cons.IH) auto
  note skip = IH [of wh] and weaken = fixes_ok_weaken [of nodes "map fst rest" _ vm]
  show ?case
  proof (cases "broken (env_store e) vm src wh [Must, Should]")
    case Nil
    then show ?thesis using sv p skip weaken by auto
  next
    case (Cons b more)
    let ?cands = "filter (\<lambda>(t, n). t \<noteq> src \<and> fits v n \<and> keeps_rules (env_store e) vm t wh) nodes"
    let ?mv = "\<lambda>t. \<lparr>mv_vm = vm, mv_source = src, mv_target = t, mv_gain = None, mv_reason = Rule_reason (rule_name (fst b)) (snd b)\<rparr>"
    show ?thesis
    proof (cases "movable (env_behaviours e) (env_moved e) (env_now e) vm v \<and> ?cands \<noteq> []")
      case False
      then show ?thesis using sv p skip weaken Cons by (cases b) (auto split: option.splits)
    next
      case True
      then obtain t ln where t: "first_min (nl_score \<circ> snd) ?cands = Some (t, ln)"
        by (cases "first_min (nl_score \<circ> snd) ?cands") auto
      from IH [of "dict_set vm t wh"] obtain ms where ms:
        "rule_fixes_loop e nodes (dict_set vm t wh) rest = Some ms" "fixes_ok nodes (map fst rest) ms" by blast
      have "fixes_ok nodes (map fst (p # rest)) (?mv t # ms)"
        using fixes_ok_Cons [OF ms(2), of "?mv t"] Cons.prems p sv first_min_in [OF t]
        by (force simp: has_vm_def)
      moreover have "rule_fixes_loop e nodes wh (p # rest) = Some (?mv t # ms)"
        using sv p Cons True t ms(1) by (cases b) simp
      ultimately show ?thesis by blast
    qed
  qed
qed

lemma apply_fixes_ok:
  assumes "wf_nodes nodes" and "fixes_ok nodes vms ms"
  shows "\<exists>cur wh'. apply_fixes nodes wh ms = Some (cur, wh') \<and> wf_nodes cur \<and> keys cur = keys nodes
           \<and> used_memory cur = used_memory nodes"
  using assms
proof (induction ms arbitrary: nodes wh)
  case Nil
  then show ?case by simp
next
  case (Cons m ms)
  from Cons.prems have m: "mv_source m \<noteq> mv_target m" "has_vm nodes (mv_source m) (mv_vm m)"
      "mv_target m \<in> set (keys nodes)" by (auto simp: fixes_ok_def)
  from after_defined [OF m(2,3)] obtain aft where aft: "after nodes (mv_vm m) (mv_source m) (mv_target m) = Some aft"
    by blast
  note keep = keys_after [OF aft m(1)] wf_nodes_after [OF Cons.prems(1) aft m(1)] used_memory_after [OF aft m(1)]
  have "fixes_ok aft vms ms"
    using Cons.prems(2) keep(1) has_vm_after [OF aft m(1)] unfolding fixes_ok_def by (metis (no_types, lifting)
        distinct.simps(2) image_eqI list.set_intros(2) list.set_map list.simps(9) set_subset_Cons subset_trans)
  from Cons.IH [OF keep(2) this] aft keep show ?case by auto
qed

lemma those_map_Some: "(\<And>x. x \<in> set xs \<Longrightarrow> f x \<noteq> None) \<Longrightarrow> \<exists>ys. those (map f xs) = Some ys"
  by (induction xs) (auto split: option.splits)

lemma those_map_mem: "those (map f xs) = Some ys \<Longrightarrow> y \<in> set ys \<Longrightarrow> \<exists>x \<in> set xs. f x = Some y"
  by (induction xs arbitrary: ys) (auto split: option.splits)

lemma move_pairs_iff:
  "(vm, v, t) \<in> set (move_pairs e cur wh done src s) \<longleftrightarrow>
     (vm, v) \<in> set (nl_vms s) \<and> movable (env_behaviours e) (env_moved e) (env_now e) vm v \<and> vm \<notin> set done \<and> t \<noteq> src
     \<and> (\<exists>n. (t, n) \<in> set cur \<and> fits v n) \<and> keeps_rules (env_store e) vm t wh"
  by (auto simp: move_pairs_def image_iff Bex_def)

lemma best_move_defined:
  assumes "map_of cur src = Some s"
  shows "\<exists>b. best_move e cur wh done src s = Some b"
proof -
  have "after cur vm src t \<noteq> None" if "(vm, v, t) \<in> set (move_pairs e cur wh done src s)" for vm v t
  proof -
    from that have "has_vm cur src vm" and "t \<in> set (keys cur)"
      using assms by (force simp: move_pairs_iff has_vm_def dest: weak_map_of_SomeI)+
    then show ?thesis using after_defined by fastforce
  qed
  then have "\<exists>ys. those (map (\<lambda>(vm, v, t). map_option (\<lambda>aft. (vm, v, t, aft)) (after cur vm src t))
      (move_pairs e cur wh done src s)) = Some ys"
    by (intro those_map_Some) auto
  then show ?thesis by (auto simp: best_move_def)
qed

text \<open>A kept move: what the loop checked of it, and its effect.\<close>

definition good_move :: "drs_env \<Rightarrow> nodes \<Rightarrow> (vm_name, node_name) dict \<Rightarrow> vm_name list \<Rightarrow> node_name \<Rightarrow> node_load
    \<Rightarrow> vm_name \<Rightarrow> node_name \<Rightarrow> nodes \<Rightarrow> bool" where
  "good_move e cur wh done src s vm t aft \<longleftrightarrow>
     (\<exists>v n. (vm, v) \<in> set (nl_vms s) \<and> movable (env_behaviours e) (env_moved e) (env_now e) vm v \<and> vm \<notin> set done
        \<and> t \<noteq> src \<and> (t, n) \<in> set cur \<and> fits v n \<and> keeps_rules (env_store e) vm t wh
        \<and> after cur vm src t = Some aft)"

lemma best_moveD:
  assumes "best_move e cur wh done src s = Some (Some (g, vm, t, aft))"
  shows "good_move e cur wh done src s vm t aft \<and> g = spread cur - spread aft"
proof -
  from assms obtain cands v where c: "those (map (\<lambda>(vm, v, t). map_option (\<lambda>aft. (vm, v, t, aft)) (after cur vm src t))
      (move_pairs e cur wh done src s)) = Some cands"
    and f: "first_max (\<lambda>(vm_name, vm, target, aft). (spread cur - spread aft, - vm_memory vm)) cands = Some (vm, v, t, aft)"
    and g: "g = spread cur - spread aft"
    by (auto simp: best_move_def)
  from those_map_mem [OF c first_max_in [OF f]] have "(vm, v, t) \<in> set (move_pairs e cur wh done src s)"
    and "after cur vm src t = Some aft" by auto
  with g show ?thesis by (auto simp: good_move_def move_pairs_iff)
qed

text \<open>A plan: each move is good in the state the moves before it leave, and pays a quarter of the
  threshold.\<close>

fun plan_ok :: "drs_env \<Rightarrow> pyfloat \<Rightarrow> vm_name list \<Rightarrow> nodes \<Rightarrow> (vm_name, node_name) dict \<Rightarrow> move list \<Rightarrow> bool" where
  "plan_ok e thr done cur wh [] = True"
| "plan_ok e thr done cur wh (m # ms) =
     (\<exists>s aft. map_of cur (mv_source m) = Some s
        \<and> good_move e cur wh done (mv_source m) s (mv_vm m) (mv_target m) aft
        \<and> thr / 4 \<le> spread cur - spread aft
        \<and> plan_ok e thr (done @ [mv_vm m]) aft (dict_set (mv_vm m) (mv_target m) wh) ms)"

lemma good_move_facts:
  assumes "good_move e cur wh done src s vm t aft"
  shows "src \<noteq> t" "after cur vm src t = Some aft" "vm \<notin> set done"
  using assms by (auto simp: good_move_def)

lemma balance_loop_plan:
  assumes "wf_nodes cur" and "distinct (map mv_vm moves)" and "length moves \<le> k" and "MAX_MOVES \<le> k"
  shows "\<exists>rest. balance_loop e thr moves cur wh = Some (moves @ rest)
           \<and> plan_ok e thr (map mv_vm moves) cur wh rest
           \<and> distinct (map mv_vm (moves @ rest)) \<and> length (moves @ rest) \<le> k"
  using assms
proof (induction "MAX_MOVES - length moves" arbitrary: moves cur wh rule: less_induct)
  case less
  let ?res = "\<lambda>rest. balance_loop e thr moves cur wh = Some (moves @ rest)
           \<and> plan_ok e thr (map mv_vm moves) cur wh rest
           \<and> distinct (map mv_vm (moves @ rest)) \<and> length (moves @ rest) \<le> k"
  have stop: "balance_loop e thr moves cur wh = Some moves \<Longrightarrow> ?res []"
    using less.prems by simp
  show ?case
  proof (cases "length moves < MAX_MOVES \<and> length cur \<ge> 2")
    case False
    then have "balance_loop e thr moves cur wh = Some moves" by (subst balance_loop.simps) auto
    with stop show ?thesis by blast
  next
    case True
    then obtain src s where fm: "first_max (nl_score \<circ> snd) cur = Some (src, s)"
      by (cases "first_max (nl_score \<circ> snd) cur") auto
    have ms: "map_of cur src = Some s"
      using first_max_in [OF fm] less.prems(1) by (simp add: wf_nodes_def)
    show ?thesis
    proof (cases "spread cur < thr \<and> \<not> nl_score s \<ge> HOT_PCT")
      case True': True
      then have "balance_loop e thr moves cur wh = Some moves"
        using True fm by (subst balance_loop.simps) (simp add: Let_def)
      with stop show ?thesis by blast
    next
      case False
      from best_move_defined [OF ms] obtain b where b: "best_move e cur wh (map mv_vm moves) src s = Some b" by blast
      show ?thesis
      proof (cases "\<exists>g vm t aft. b = Some (g, vm, t, aft) \<and> \<not> g < thr / 4")
        case no: False
        then have "balance_loop e thr moves cur wh = Some moves"
          using True fm False b by (subst balance_loop.simps) (auto simp: Let_def split: option.splits)
        with stop show ?thesis by blast
      next
        case yes: True
        then obtain g vm t aft where b': "b = Some (g, vm, t, aft)" and g: "\<not> g < thr / 4" by blast
        note good = best_moveD [OF b [unfolded b']]
        let ?m = "\<lparr>mv_vm = vm, mv_source = src, mv_target = t, mv_gain = Some (round1 g),
            mv_reason = (if nl_score s \<ge> HOT_PCT then Hot_reason src (nl_score s) else Spread_reason src (nl_score s) (spread cur))\<rparr>"
        have unfold: "balance_loop e thr moves cur wh = balance_loop e thr (moves @ [?m]) aft (dict_set vm t wh)"
          using True fm False b b' g by (subst balance_loop.simps) (auto simp: Let_def)
        have "wf_nodes aft"
          using wf_nodes_after [OF less.prems(1)] good_move_facts [OF good [THEN conjunct1]] by blast
        moreover have "distinct (map mv_vm (moves @ [?m]))"
          using less.prems(2) good_move_facts(3) [OF good [THEN conjunct1]] by auto
        moreover have "length (moves @ [?m]) \<le> k" using True less.prems(4) by simp
        ultimately obtain rest where r: "balance_loop e thr (moves @ [?m]) aft (dict_set vm t wh) = Some ((moves @ [?m]) @ rest)"
          "plan_ok e thr (map mv_vm (moves @ [?m])) aft (dict_set vm t wh) rest"
          "distinct (map mv_vm ((moves @ [?m]) @ rest))" "length ((moves @ [?m]) @ rest) \<le> k"
          using less.hyps [of "moves @ [?m]" aft "dict_set vm t wh"] True less.prems(4) by fastforce
        have "?res (?m # rest)"
          using r unfold good ms g by auto
        then show ?thesis by blast
      qed
    qed
  qed
qed

lemma plan_lowers_spread:
  assumes "plan_ok e thr done cur wh ms"
  shows "\<exists>fin wh'. apply_fixes cur wh ms = Some (fin, wh')
           \<and> spread fin \<le> spread cur - of_nat (length ms) * (thr / 4) \<and> used_memory fin = used_memory cur"
  using assms
proof (induction e thr "done" cur wh ms rule: plan_ok.induct)
  case (1 e thr "done" cur wh)
  then show ?case by simp
next
  case (2 e thr "done" cur wh m ms)
  then obtain s aft where m: "good_move e cur wh done (mv_source m) s (mv_vm m) (mv_target m) aft"
      "thr / 4 \<le> spread cur - spread aft"
      "plan_ok e thr (done @ [mv_vm m]) aft (dict_set (mv_vm m) (mv_target m) wh) ms" by auto
  from "2.IH" [OF m(3)] obtain fin wh' where fin:
    "apply_fixes aft (dict_set (mv_vm m) (mv_target m) wh) ms = Some (fin, wh')"
    "spread fin \<le> spread aft - of_nat (length ms) * (thr / 4)" "used_memory fin = used_memory aft" by blast
  note facts = good_move_facts [OF m(1)] and mem = used_memory_after [OF good_move_facts(2,1) [OF m(1)]]
  have "spread fin \<le> spread cur - of_nat (length (m # ms)) * (thr / 4)"
    using fin(2) m(2) by (simp add: algebra_simps add_divide_distrib)
  with facts fin mem show ?case by auto
qed

lemma recommend_cases:
  assumes "wf_nodes nodes"
  obtains fxs cur wh where "rule_fixes e nodes (where_of nodes) = Some fxs" "fixes_ok nodes (keys (where_of nodes)) fxs"
    "apply_fixes nodes (where_of nodes) fxs = Some (cur, wh)" "wf_nodes cur" "used_memory cur = used_memory nodes"
    "recommend e nodes level = (case SPREAD level of None \<Rightarrow> Some fxs | Some thr \<Rightarrow> balance_loop e thr fxs cur wh)"
proof -
  let ?w = "where_of nodes"
  have "\<forall>(vm, n) \<in> set (sort_key fst ?w). has_vm nodes n vm"
    using where_of_has_vm [OF assms] by auto
  moreover have "dict_ok ?w" by (simp add: where_of_def)
  then have "distinct (map fst (sort_key fst ?w))"
    by (metis distinct_map distinct_sort set_sort)
  ultimately obtain fxs where f: "rule_fixes e nodes ?w = Some fxs" "fixes_ok nodes (map fst (sort_key fst ?w)) fxs"
    using rule_fixes_loop_ok [of "sort_key fst ?w" nodes e ?w] by (auto simp: rule_fixes_def)
  from apply_fixes_ok [OF assms f(2), of ?w] obtain cur wh where c:
    "apply_fixes nodes ?w fxs = Some (cur, wh)" "wf_nodes cur" "used_memory cur = used_memory nodes" by blast
  have "fixes_ok nodes (keys ?w) fxs" using f(2) by (simp add: fixes_ok_def)
  with that f(1) c show ?thesis by (simp add: recommend_def Let_def)
qed

lemma recommend_defined: "wf_nodes nodes \<Longrightarrow> \<exists>ms. recommend e nodes level = Some ms"
proof (erule recommend_cases [of nodes e level])
  fix fxs cur wh
  assume "fixes_ok nodes (keys (where_of nodes)) fxs" "wf_nodes cur"
    and r: "recommend e nodes level = (case SPREAD level of None \<Rightarrow> Some fxs | Some thr \<Rightarrow> balance_loop e thr fxs cur wh)"
  then have "\<exists>rest. balance_loop e thr fxs cur wh = Some (fxs @ rest)" for thr
    using balance_loop_plan [of cur fxs "max MAX_MOVES (length fxs)" e thr wh] by (auto simp: fixes_ok_def)
  with r show ?thesis by (cases "SPREAD level") auto
qed

section \<open>Placement\<close>

text \<open>The interface placement relies on: a check of every rule and a check of the must rules, the
  first stronger than the second.\<close>

locale rule_gate =
  fixes keeps :: "'a \<Rightarrow> bool" and may :: "'a \<Rightarrow> bool"
  assumes keeps_may: "keeps x \<Longrightarrow> may x"
begin

lemma keeping_may: "x \<in> set (keeping_of keeps may xs) \<Longrightarrow> x \<in> set xs \<and> may x"
  by (auto simp: keeping_of_def keeps_may split: if_splits)

lemma keeping_Nil_iff: "keeping_of keeps may xs = [] \<longleftrightarrow> (\<forall>x \<in> set xs. \<not> may x)"
  by (auto simp: keeping_of_def filter_empty_conv keeps_may)

lemma keeping_prefers: "x \<in> set (keeping_of keeps may xs) \<Longrightarrow> y \<in> set xs \<Longrightarrow> keeps y \<Longrightarrow> keeps x"
  by (auto simp: keeping_of_def filter_empty_conv split: if_splits)

lemma keeping_complete: "y \<in> set xs \<Longrightarrow> keeps y \<or> (may y \<and> (\<forall>x \<in> set xs. \<not> keeps x)) \<Longrightarrow> y \<in> set (keeping_of keeps may xs)"
  by (auto simp: keeping_of_def filter_empty_conv)

end

lemma keeps_rules_allowed: "keeps_rules st vm n wh \<Longrightarrow> allowed st vm n wh"
  by (simp add: keeps_rules_def allowed_def broken_Must_subset)

interpretation drs_gate: rule_gate "\<lambda>(n, v :: node_load). keeps_rules st vm_name n wh" "\<lambda>(n, v). allowed st vm_name n wh"
  for st vm_name wh
  by unfold_locales (auto intro: keeps_rules_allowed)

text \<open>What makes a member a possible place.\<close>

definition can_take :: "drs_store \<Rightarrow> vm_name \<Rightarrow> vm_load \<Rightarrow> (vm_name, node_name) dict \<Rightarrow> node_name \<Rightarrow> node_load \<Rightarrow> bool" where
  "can_take st vm_name vm wh n ld \<longleftrightarrow> fits vm ld \<and> allowed st vm_name n wh"

lemma place_SomeE:
  assumes "place st vm_name vm nodes wh = Some n"
  obtains ld where "(n, ld) \<in> set nodes" "can_take st vm_name vm wh n ld"
    "\<And>m lm. (m, lm) \<in> set nodes \<Longrightarrow> fits vm lm \<Longrightarrow> keeps_rules st vm_name m wh \<Longrightarrow>
       keeps_rules st vm_name n wh
       \<and> (nl_score (with_vm ld vm_name vm), n) \<le> (nl_score (with_vm lm vm_name vm), m)"
proof -
  let ?roomy = "filter (\<lambda>(n, v). fits vm v) nodes"
  let ?keeping = "keeping_of (\<lambda>(n, v). keeps_rules st vm_name n wh) (\<lambda>(n, v). allowed st vm_name n wh) ?roomy"
  from assms obtain ld where f: "first_min (\<lambda>(n, v). (nl_score (with_vm v vm_name vm), n)) ?keeping = Some (n, ld)"
    by (auto simp: place_def Let_def)
  note mem = first_min_in [OF f]
  have "(n, ld) \<in> set nodes" "can_take st vm_name vm wh n ld"
    using drs_gate.keeping_may [OF mem] by (auto simp: can_take_def)
  moreover have "keeps_rules st vm_name n wh
       \<and> (nl_score (with_vm ld vm_name vm), n) \<le> (nl_score (with_vm lm vm_name vm), m)"
    if "(m, lm) \<in> set nodes" "fits vm lm" "keeps_rules st vm_name m wh" for m lm
    using drs_gate.keeping_prefers [OF mem, of "(m, lm)"] first_min_le [OF f, of "(m, lm)"]
      drs_gate.keeping_complete [of "(m, lm)" ?roomy st vm_name wh] that by auto
  ultimately show ?thesis using that by blast
qed

lemma place_None_iff:
  "place st vm_name vm nodes wh = None \<longleftrightarrow> (\<forall>(n, ld) \<in> set nodes. \<not> can_take st vm_name vm wh n ld)"
  by (auto simp: place_def Let_def drs_gate.keeping_Nil_iff can_take_def)

lemma initial_loop_set:
  "set (initial_loop st vm_name vm nodes wh) = {n. \<exists>ld. (n, ld) \<in> set nodes \<and> can_take st vm_name vm wh n ld} \<and>
     distinct (initial_loop st vm_name vm nodes wh)" if "dict_ok nodes"
  using that
proof (induction st vm_name vm nodes wh rule: initial_loop.induct)
  case (1 st vm_name vm nodes wh)
  show ?case
  proof (cases "place st vm_name vm nodes wh")
    case None
    then have "initial_loop st vm_name vm nodes wh = []" by (subst initial_loop.simps) simp
    with None show ?thesis by (auto simp: place_None_iff)
  next
    case (Some best)
    let ?rest = "filter (\<lambda>(n, v). n \<noteq> best) nodes"
    have IH: "set (initial_loop st vm_name vm ?rest wh) = {n. \<exists>ld. (n, ld) \<in> set ?rest \<and> can_take st vm_name vm wh n ld}
        \<and> distinct (initial_loop st vm_name vm ?rest wh)"
      using "1.IH" [OF Some] "1.prems" by simp
    from Some obtain ld where "(best, ld) \<in> set nodes" "can_take st vm_name vm wh best ld" by (rule place_SomeE)
    moreover have "initial_loop st vm_name vm nodes wh = best # initial_loop st vm_name vm ?rest wh"
      using Some by (subst initial_loop.simps) simp
    ultimately show ?thesis using IH by auto
  qed
qed

definition room_ok :: "nodes \<Rightarrow> bool" where
  "room_ok nodes \<longleftrightarrow> (\<forall>v \<in> snd ` set nodes. nl_mem_used_mb v \<le> nl_mem_total_mb v)"

lemma with_vm_simps [simp]:
  "nl_mem_used_mb (with_vm n vm_name vm) = nl_mem_used_mb n + vm_memory vm"
  "nl_mem_total_mb (with_vm n vm_name vm) = nl_mem_total_mb n"
  by (simp_all add: with_vm_def Let_def)

lemma fits_room: "fits vm n \<Longrightarrow> 0 \<le> vm_memory vm \<Longrightarrow> nl_mem_used_mb n + vm_memory vm \<le> nl_mem_total_mb n"
  by (simp add: fits_def MEM_MARGIN_def)

section \<open>Properties\<close>

text \<open>On a view of the cluster (one entry per member, one load per VM of a member) \<open>recommend\<close>
  never raises a KeyError: it returns a list of moves that starts with the rule fixes, in which no VM
  moves twice, and there are at most \<open>MAX_MOVES\<close> of them unless the rule fixes alone are more.\<close>

theorem recommend_returns_moves:
  assumes "wf_nodes nodes"
  shows "\<exists>fixed ms. rule_fixes e nodes (where_of nodes) = Some fixed \<and> recommend e nodes level = Some ms
           \<and> prefix fixed ms \<and> distinct (map mv_vm ms) \<and> length ms \<le> max MAX_MOVES (length fixed)"
proof (rule recommend_cases [OF assms, of e level])
  fix fxs cur wh
  assume f: "rule_fixes e nodes (where_of nodes) = Some fxs" "fixes_ok nodes (keys (where_of nodes)) fxs"
    and cur: "wf_nodes cur"
    and r: "recommend e nodes level = (case SPREAD level of None \<Rightarrow> Some fxs | Some thr \<Rightarrow> balance_loop e thr fxs cur wh)"
  have d: "distinct (map mv_vm fxs)" using f(2) by (simp add: fixes_ok_def)
  show ?thesis
  proof (cases "SPREAD level")
    case None
    with f r d show ?thesis by auto
  next
    case (Some thr)
    from balance_loop_plan [OF cur d, of "max MAX_MOVES (length fxs)" e thr wh] f r Some show ?thesis
      by (force simp: prefix_def)
  qed
qed

definition sample_load :: vm_load where
  "sample_load = \<lparr>vl_mem_used_mb = Some 2000, vl_mem_total_mb = Some 4000, vl_cpu_pct = Some 50, vl_vcpus = Some 2, vl_shared = True\<rparr>"

definition sample_nodes :: nodes where
  "sample_nodes =
     [(''n1'', \<lparr>nl_cpu = 20, nl_mem = 80, nl_score = 80, nl_cpus = 8, nl_mem_total_mb = 10000, nl_mem_used_mb = 8000,
        nl_vms = [(''a'', sample_load), (''b'', sample_load)]\<rparr>),
      (''n2'', \<lparr>nl_cpu = 10, nl_mem = 10, nl_score = 10, nl_cpus = 8, nl_mem_total_mb = 10000, nl_mem_used_mb = 1000,
        nl_vms = []\<rparr>)]"

definition sample_env :: drs_env where
  "sample_env = \<lparr>env_store = sample_store, env_behaviours = [], env_moved = [], env_now = 0\<rparr>"

lemma wf_sample_nodes: "wf_nodes sample_nodes"
  by (simp add: wf_nodes_def sample_nodes_def)

theorem recommend_returns_moves_witness:
  "wf_nodes sample_nodes \<and> (\<exists>fixed ms. rule_fixes sample_env sample_nodes (where_of sample_nodes) = Some fixed
     \<and> recommend sample_env sample_nodes 3 = Some ms \<and> prefix fixed ms \<and> distinct (map mv_vm ms)
     \<and> length ms \<le> max MAX_MOVES (length fixed))"
  using recommend_returns_moves [OF wf_sample_nodes] wf_sample_nodes by blast

text \<open>C1: the moves that even the load pay: each one is of a movable VM to another member that has its
  memory free with the margin and where it keeps every rule, in the state the moves before it leave,
  and lowers the spread by a quarter of the threshold at least; so applying the whole list lowers the
  spread by that much per such move, and no memory is lost or made.\<close>

theorem recommend_lowers_spread:
  assumes "wf_nodes nodes" and "recommend e nodes level = Some ms" and "SPREAD level = Some thr"
  shows "\<exists>fixed rest cur wh fin wh'. ms = fixed @ rest \<and> rule_fixes e nodes (where_of nodes) = Some fixed
           \<and> apply_fixes nodes (where_of nodes) fixed = Some (cur, wh)
           \<and> plan_ok e thr (map mv_vm fixed) cur wh rest
           \<and> apply_fixes cur wh rest = Some (fin, wh')
           \<and> spread fin \<le> spread cur - of_nat (length rest) * (thr / 4)
           \<and> used_memory fin = used_memory nodes"
proof (rule recommend_cases [OF assms(1), of e level])
  fix fxs cur wh
  assume f: "rule_fixes e nodes (where_of nodes) = Some fxs" "fixes_ok nodes (keys (where_of nodes)) fxs"
      "apply_fixes nodes (where_of nodes) fxs = Some (cur, wh)"
    and cur: "wf_nodes cur" "used_memory cur = used_memory nodes"
    and r: "recommend e nodes level = (case SPREAD level of None \<Rightarrow> Some fxs | Some thr \<Rightarrow> balance_loop e thr fxs cur wh)"
  have d: "distinct (map mv_vm fxs)" using f(2) by (simp add: fixes_ok_def)
  from balance_loop_plan [OF cur(1) d, of "max MAX_MOVES (length fxs)" e thr wh] r assms(2,3)
  obtain rest where "ms = fxs @ rest" "plan_ok e thr (map mv_vm fxs) cur wh rest" by auto
  with plan_lowers_spread [of e thr "map mv_vm fxs" cur wh rest] f cur show ?thesis by metis
qed

theorem recommend_lowers_spread_witness:
  "wf_nodes sample_nodes \<and> SPREAD 3 = Some 25 \<and>
   (\<exists>ms fixed rest cur wh. recommend sample_env sample_nodes 3 = Some ms \<and> ms = fixed @ rest
      \<and> plan_ok sample_env 25 (map mv_vm fixed) cur wh rest)"
proof -
  have sp: "SPREAD 3 = Some 25" by (simp add: SPREAD_def)
  obtain ms where ms: "recommend sample_env sample_nodes 3 = Some ms"
    using recommend_defined [OF wf_sample_nodes] by blast
  from recommend_lowers_spread [OF wf_sample_nodes ms sp] ms sp wf_sample_nodes show ?thesis by blast
qed

text \<open>A placement is right: \<open>place\<close> gives a member with the VM's memory free with the margin that
  breaks no must rule; when some member with room keeps every rule, the one given does too and has the
  lowest score with the VM on it among those; and it gives none only when no member both has room and
  breaks no must rule.\<close>

theorem place_correct:
  "(case place st vm_name vm nodes wh of
      None \<Rightarrow> \<forall>(n, ld) \<in> set nodes. \<not> (fits vm ld \<and> allowed st vm_name n wh)
    | Some n \<Rightarrow> \<exists>ld. (n, ld) \<in> set nodes \<and> fits vm ld \<and> allowed st vm_name n wh
        \<and> (\<forall>(m, lm) \<in> set nodes. fits vm lm \<and> keeps_rules st vm_name m wh \<longrightarrow>
             keeps_rules st vm_name n wh \<and> nl_score (with_vm ld vm_name vm) \<le> nl_score (with_vm lm vm_name vm)))"
proof (cases "place st vm_name vm nodes wh")
  case None
  with place_None_iff [of st vm_name vm nodes wh] show ?thesis by (simp add: can_take_def)
next
  case (Some n)
  then show ?thesis
  proof (rule place_SomeE)
    fix ld
    assume "(n, ld) \<in> set nodes" "can_take st vm_name vm wh n ld"
      and best: "\<And>m lm. (m, lm) \<in> set nodes \<Longrightarrow> fits vm lm \<Longrightarrow> keeps_rules st vm_name m wh \<Longrightarrow>
        keeps_rules st vm_name n wh \<and> (nl_score (with_vm ld vm_name vm), n) \<le> (nl_score (with_vm lm vm_name vm), m)"
    moreover have "\<forall>(m, lm) \<in> set nodes. fits vm lm \<and> keeps_rules st vm_name m wh \<longrightarrow>
        keeps_rules st vm_name n wh \<and> nl_score (with_vm ld vm_name vm) \<le> nl_score (with_vm lm vm_name vm)"
      using best by fastforce
    ultimately show ?thesis using Some by (auto simp: can_take_def)
  qed
qed

theorem place_correct_witness:
  "place sample_store ''a'' sample_load sample_nodes [(''b'', ''n1'')] = Some ''n2''
   \<and> allowed sample_store ''a'' ''n2'' [(''b'', ''n1'')]"
proof -
  have al: "allowed sample_store ''a'' ''n2'' [(''b'', ''n1'')]"
    by (simp add: allowed_def broken_def rules_def sample_store_def sample_apart_def breaks_def)
  have fit: "\<not> fits sample_load (snd (sample_nodes ! 0))" "fits sample_load (snd (sample_nodes ! 1))"
    by (simp_all add: sample_nodes_def sample_load_def fits_def vm_memory_def num_or_def MEM_MARGIN_def)
  have nodes: "set sample_nodes = {(''n1'', snd (sample_nodes ! 0)), (''n2'', snd (sample_nodes ! 1))}"
    by (simp add: sample_nodes_def)
  show ?thesis
    using place_correct [where st = sample_store and vm_name = "''a''" and vm = sample_load and nodes = sample_nodes
        and wh = "[(''b'', ''n1'')]"] al fit
    by (cases "place sample_store ''a'' sample_load sample_nodes [(''b'', ''n1'')]") (auto simp: nodes)
qed

text \<open>A new VM's candidates are ranked without loss: \<open>initial\<close>'s loop lists exactly the members that
  have the VM's memory free with the margin and break no must rule, each once.\<close>

theorem initial_ranks_every_candidate:
  assumes "dict_ok nodes"
  shows "distinct (initial_loop st vm_name vm nodes wh)
    \<and> set (initial_loop st vm_name vm nodes wh) = {n. \<exists>ld. (n, ld) \<in> set nodes \<and> fits vm ld \<and> allowed st vm_name n wh}"
  using initial_loop_set [OF assms] by (simp add: can_take_def)

theorem initial_ranks_every_candidate_witness:
  "dict_ok sample_nodes \<and> set (initial_loop sample_store ''a'' sample_load sample_nodes [(''b'', ''n1'')]) = {''n2''}"
proof -
  have ok: "dict_ok sample_nodes" by (simp add: sample_nodes_def)
  have al: "allowed sample_store ''a'' ''n2'' [(''b'', ''n1'')]"
    by (simp add: allowed_def broken_def rules_def sample_store_def sample_apart_def breaks_def)
  have fit: "\<not> fits sample_load (snd (sample_nodes ! 0))" "fits sample_load (snd (sample_nodes ! 1))"
    by (simp_all add: sample_nodes_def sample_load_def fits_def vm_memory_def num_or_def MEM_MARGIN_def)
  have nodes: "set sample_nodes = {(''n1'', snd (sample_nodes ! 0)), (''n2'', snd (sample_nodes ! 1))}"
    by (simp add: sample_nodes_def)
  show ?thesis
    using initial_ranks_every_candidate [OF ok, of sample_store "''a''" sample_load "[(''b'', ''n1'')]"] ok al fit
    by (auto simp: nodes)
qed

end
