(* ===== verification/Drs_Auto.thy ===== *)
theory Drs_Auto
  imports Drs
begin

text \<open>
  The leader's rounds of load balancing and the carrying out of its moves:
  \<^verbatim>\<open>app/core/drs.py\<close> from \<open>evaluate\<close> on, and the requests table of
  \<^verbatim>\<open>app/repositories/sqlite/drs.py\<close>.

  The state is the process's (\<open>_state\<close>, \<open>_running\<close>, \<open>_failures\<close>, \<open>_moved\<close>, \<open>_cpu\<close>) together with
  the replicated \<open>drs_requests\<close> table and the notifications sent. Identifiers (uuid4), clocks, the
  members' statuses, the migration's start and a task's status are arguments. The steps of the
  leader and of the members interleave freely in the relation \<open>drs_step\<close>.

  Shown: in every reachable state at most \<open>MAX_RUNNING\<close> requested migrations run, and no member is in
  two of them; a paused leader requests nothing; a burst of imbalance recommends nothing but rule
  fixes; a request's row only moves forward, and only its own member moves it.
\<close>

section \<open>Requests\<close>

datatype req_state = Pending | Started | Succeeded | Failed

datatype req_detail = Not_picked_up node_name | Task_lost | Refused string | Crashed string

record request =
  rq_vm :: vm_name
  rq_source :: node_name
  rq_target :: node_name
  rq_reason :: move_reason
  rq_by :: string
  rq_requested_at :: seconds
  rq_state :: req_state
  rq_task :: "string option"
  rq_detail :: "req_detail option"
  rq_updated_at :: seconds

type_synonym requests = "(string, request) dict"

definition add_request :: "string \<Rightarrow> move \<Rightarrow> seconds \<Rightarrow> requests \<Rightarrow> requests" where
  "add_request rid m now rs =
     dict_set rid \<lparr>rq_vm = mv_vm m, rq_source = mv_source m, rq_target = mv_target m, rq_reason = mv_reason m,
       rq_by = ''drs'', rq_requested_at = now, rq_state = Pending, rq_task = None, rq_detail = None,
       rq_updated_at = now\<rparr> rs"

definition coalesce :: "'a option \<Rightarrow> 'a option \<Rightarrow> 'a option" where
  "coalesce a b = (case a of None \<Rightarrow> b | Some _ \<Rightarrow> a)"

definition update_request :: "string \<Rightarrow> req_state \<Rightarrow> seconds \<Rightarrow> string option \<Rightarrow> req_detail option \<Rightarrow> requests \<Rightarrow> requests" where
  "update_request rid s now task detail rs =
     map (\<lambda>(i, r). (i, if i = rid then r\<lparr>rq_state := s, rq_task := coalesce task (rq_task r),
                         rq_detail := coalesce detail (rq_detail r), rq_updated_at := now\<rparr> else r)) rs"

definition delete_requests_before :: "seconds \<Rightarrow> requests \<Rightarrow> requests" where
  "delete_requests_before t rs =
     filter (\<lambda>(i, r). \<not> (rq_state r \<in> {Succeeded, Failed} \<and> rq_updated_at r < t)) rs"

definition requests_of :: "node_name \<Rightarrow> requests \<Rightarrow> (string \<times> request) list" where
  "requests_of source rs = sort_key (rq_requested_at \<circ> snd) (filter (\<lambda>(i, r). rq_source r = source) rs)"

section \<open>The process's state\<close>

definition SUSTAINED :: nat where "SUSTAINED = 3"
definition MAX_RUNNING :: int where "MAX_RUNNING = 2"
definition FAILURES_TO_PAUSE :: nat where "FAILURES_TO_PAUSE = 2"
definition PICKUP_S :: seconds where "PICKUP_S = 300"
definition KEEP_FINISHED_S :: seconds where "KEEP_FINISHED_S = 86400"

record running_move =
  run_move :: move
  run_at :: seconds

datatype idle_reason = Drs_off | No_cluster

datatype drs_note = Paused_note nat vm_name | Moved_note vm_name node_name

record drs_state =
  ds_unbalanced :: nat
  ds_at :: "seconds option"
  ds_spread :: "pyfloat option"
  ds_moves :: "move list"
  ds_nodes :: "(node_name, pyfloat \<times> pyfloat \<times> pyfloat) dict"
  ds_reason :: "idle_reason option"
  ds_paused :: "(nat \<times> vm_name) option"
  ds_running :: "(string, running_move) dict"
  ds_failures :: nat
  ds_moved :: "(vm_name, seconds) dict"
  ds_cpu :: samples
  ds_requests :: requests
  ds_notes :: "drs_note list"

definition initial_state :: drs_state where
  "initial_state = \<lparr>ds_unbalanced = 0, ds_at = None, ds_spread = None, ds_moves = [], ds_nodes = [], ds_reason = None,
     ds_paused = None, ds_running = [], ds_failures = 0, ds_moved = [], ds_cpu = [], ds_requests = [], ds_notes = []\<rparr>"

section \<open>Applying the moves\<close>

definition request_move :: "string \<Rightarrow> move \<Rightarrow> seconds \<Rightarrow> seconds \<Rightarrow> drs_state \<Rightarrow> drs_state" where
  "request_move rid m wall now s =
     s\<lparr>ds_requests := add_request rid m wall (ds_requests s),
       ds_moved := dict_set (mv_vm m) now (ds_moved s),
       ds_running := dict_set rid \<lparr>run_move = m, run_at = now\<rparr> (ds_running s)\<rparr>"

definition settle_one :: "seconds \<Rightarrow> seconds \<Rightarrow> drs_state \<Rightarrow> string \<times> running_move \<Rightarrow> drs_state" where
  "settle_one wall now s entry = (case entry of (rid, rm) \<Rightarrow>
     (let state0 = (case map_of (ds_requests s) rid of None \<Rightarrow> Failed | Some r \<Rightarrow> rq_state r);
          late = state0 = Pending \<and> now - run_at rm \<ge> PICKUP_S;
          s1 = (if late then s\<lparr>ds_requests := update_request rid Failed wall None
                                  (Some (Not_picked_up (mv_source (run_move rm)))) (ds_requests s)\<rparr> else s);
          state = (if late then Failed else state0)
      in if state \<in> {Pending, Started} then s1
         else let s2 = s1\<lparr>ds_running := dict_del rid (ds_running s1)\<rparr> in
           (if state = Succeeded then s2\<lparr>ds_failures := 0\<rparr>
            else let n = Suc (ds_failures s2);
                     s3 = s2\<lparr>ds_failures := n\<rparr>
                 in if FAILURES_TO_PAUSE \<le> n \<and> ds_paused s3 = None
                    then s3\<lparr>ds_paused := Some (n, mv_vm (run_move rm)),
                            ds_notes := ds_notes s3 @ [Paused_note n (mv_vm (run_move rm))]\<rparr>
                    else s3)))"

definition settle :: "seconds \<Rightarrow> seconds \<Rightarrow> drs_state \<Rightarrow> drs_state" where
  "settle wall now s = foldl (settle_one wall now) s (ds_running s)"

definition busy_nodes :: "drs_state \<Rightarrow> node_name list" where
  "busy_nodes s = concat (map (\<lambda>(_, rm). [mv_source (run_move rm), mv_target (run_move rm)]) (ds_running s))"

text \<open>The loop over the moves; \<open>uuid k\<close> is the identifier the \<open>k\<close>-th request of the round gets.\<close>

fun request_loop :: "(vm_name, behaviour) dict \<Rightarrow> seconds \<Rightarrow> seconds \<Rightarrow> (nat \<Rightarrow> string) \<Rightarrow> nat \<Rightarrow> node_name list \<Rightarrow> int
    \<Rightarrow> move list \<Rightarrow> drs_state \<Rightarrow> drs_state" where
  "request_loop bhs wall now uuid k busy room [] s = s"
| "request_loop bhs wall now uuid k busy room (m # ms) s =
     (if room \<le> 0 then s
      else if map_of bhs (mv_vm m) = Some Manual_behaviour \<or> mv_source m \<in> set busy \<or> mv_target m \<in> set busy
      then request_loop bhs wall now uuid k busy room ms s
      else request_loop bhs wall now uuid (Suc k) (mv_source m # mv_target m # busy) (room - 1) ms
             (request_move (uuid k) m wall now s))"

definition automatic :: "(vm_name, behaviour) dict \<Rightarrow> seconds \<Rightarrow> seconds \<Rightarrow> (nat \<Rightarrow> string) \<Rightarrow> move list \<Rightarrow> drs_state \<Rightarrow> drs_state" where
  "automatic bhs wall now uuid moves s0 =
     (let s = settle wall now s0 in
      if ds_paused s \<noteq> None then s
      else request_loop bhs wall now uuid 0 (busy_nodes s) (MAX_RUNNING - int (length (ds_running s))) moves s)"

definition resume :: "drs_state \<Rightarrow> drs_state" where
  "resume s = s\<lparr>ds_paused := None, ds_failures := 0\<rparr>"

definition forget_finished :: "seconds \<Rightarrow> drs_state \<Rightarrow> drs_state" where
  "forget_finished wall s = s\<lparr>ds_requests := delete_requests_before (wall - KEEP_FINISHED_S) (ds_requests s)\<rparr>"

section \<open>The leader's evaluation\<close>

text \<open>\<open>evaluate\<close>; \<open>None\<close> is an exception of \<open>recommend\<close>, which leaves the state as it was.\<close>

definition evaluate :: "drs_store \<Rightarrow> bool \<Rightarrow> status_table \<Rightarrow> node_name list \<Rightarrow> seconds \<Rightarrow> seconds \<Rightarrow> (nat \<Rightarrow> string)
    \<Rightarrow> drs_state \<Rightarrow> drs_state option" where
  "evaluate st in_cluster table unavailable wall now uuid s =
     (let cfg = read_settings st in
      if set_mode cfg = Off \<or> \<not> in_cluster
      then Some (s\<lparr>ds_unbalanced := 0, ds_moves := [],
                   ds_reason := Some (if set_mode cfg = Off then Drs_off else No_cluster)\<rparr>)
      else
       (let nodes = view (ds_cpu s) table unavailable;
            e = \<lparr>env_store = st, env_behaviours = behaviours st, env_moved = ds_moved s, env_now = now\<rparr>
        in case recommend e nodes (set_threshold cfg) of
             None \<Rightarrow> None
           | Some moves \<Rightarrow>
              (let hot = list_ex (\<lambda>(_, n). nl_score n \<ge> HOT_PCT) nodes;
                   unbalanced = (hot \<or> (case SPREAD (set_threshold cfg) of None \<Rightarrow> False | Some t \<Rightarrow> spread nodes \<ge> t));
                   count = (if unbalanced then Suc (ds_unbalanced s) else 0);
                   shown = (if SUSTAINED \<le> count then moves else filter (\<lambda>m. mv_gain m = None) moves);
                   s1 = s\<lparr>ds_unbalanced := count, ds_at := Some wall, ds_spread := Some (round1 (spread nodes)),
                          ds_nodes := map (\<lambda>(n, v). (n, round1 (nl_cpu v), round1 (nl_mem v), round1 (nl_score v))) nodes,
                          ds_moves := shown, ds_reason := None\<rparr>
               in Some (if set_mode cfg = Automatic then automatic (behaviours st) wall now uuid shown s1 else s1))))"

section \<open>Carrying out, on every member\<close>

datatype start_result = Task string | Refused_by_checks string | Start_crashed string

definition carry_out_one :: "(string \<Rightarrow> req_state option) \<Rightarrow> (vm_name \<Rightarrow> node_name \<Rightarrow> start_result) \<Rightarrow> seconds
    \<Rightarrow> drs_state \<Rightarrow> string \<times> request \<Rightarrow> drs_state" where
  "carry_out_one task_status start wall s entry = (case entry of (rid, row) \<Rightarrow>
     (case rq_state row of
        Started \<Rightarrow>
          (case (case rq_task row of None \<Rightarrow> Some Failed | Some t \<Rightarrow> task_status t) of
             Some Succeeded \<Rightarrow> s\<lparr>ds_requests := update_request rid Succeeded wall None None (ds_requests s)\<rparr>
           | Some Failed \<Rightarrow> s\<lparr>ds_requests := update_request rid Failed wall None None (ds_requests s)\<rparr>
           | None \<Rightarrow> s\<lparr>ds_requests := update_request rid Failed wall None (Some Task_lost) (ds_requests s)\<rparr>
           | _ \<Rightarrow> s)
      | Pending \<Rightarrow>
          (case start (rq_vm row) (rq_target row) of
             Refused_by_checks d \<Rightarrow> s\<lparr>ds_requests := update_request rid Failed wall None (Some (Refused d)) (ds_requests s)\<rparr>
           | Start_crashed d \<Rightarrow> s\<lparr>ds_requests := update_request rid Failed wall None (Some (Crashed d)) (ds_requests s)\<rparr>
           | Task t \<Rightarrow> s\<lparr>ds_requests := update_request rid Started wall (Some t) None (ds_requests s),
                         ds_notes := ds_notes s @ [Moved_note (rq_vm row) (rq_target row)]\<rparr>)
      | _ \<Rightarrow> s))"

definition carry_out :: "(string \<Rightarrow> req_state option) \<Rightarrow> (vm_name \<Rightarrow> node_name \<Rightarrow> start_result) \<Rightarrow> seconds \<Rightarrow> node_name
    \<Rightarrow> drs_state \<Rightarrow> drs_state" where
  "carry_out task_status start wall me s = foldl (carry_out_one task_status start wall) s (requests_of me (ds_requests s))"

section \<open>What the API asked of the leader\<close>

text \<open>\<open>_take_requests\<close>: a new resume mark resumes (one already there at the start does not), and the
  manual moves' times are turned into this process's clock.\<close>

datatype seen_mark = Unseen | Seen "seconds option"

definition note_applied :: "seconds \<Rightarrow> seconds \<Rightarrow> drs_state \<Rightarrow> vm_name \<times> seconds \<Rightarrow> drs_state" where
  "note_applied wall now s entry = (case entry of (vm, epoch) \<Rightarrow>
     s\<lparr>ds_moved := dict_set vm (max (case map_of (ds_moved s) vm of None \<Rightarrow> 0 | Some t \<Rightarrow> t) (now - (wall - epoch))) (ds_moved s)\<rparr>)"

definition take_requests :: "bool \<Rightarrow> seconds option \<Rightarrow> (vm_name, seconds) dict \<Rightarrow> seconds \<Rightarrow> seconds \<Rightarrow> seen_mark
    \<Rightarrow> drs_state \<Rightarrow> drs_state \<times> seen_mark" where
  "take_requests separate mark applied wall now resumed s =
     (if \<not> separate then (s, resumed)
      else let s1 = (if resumed \<noteq> Seen mark \<and> resumed \<noteq> Unseen then resume s else s)
           in (foldl (note_applied wall now) s1 applied, Seen mark))"

definition observe_round :: "status_table \<Rightarrow> seconds \<Rightarrow> drs_state \<Rightarrow> drs_state" where
  "observe_round table now s = s\<lparr>ds_cpu := observe table now (ds_cpu s)\<rparr>"

section \<open>Every interleaving of the leader and the members\<close>

inductive drs_step :: "drs_state \<Rightarrow> drs_state \<Rightarrow> bool" where
  step_observe: "drs_step s (observe_round table now s)"
| step_evaluate: "evaluate st in_cluster table unavailable wall now uuid s = Some s' \<Longrightarrow> inj uuid \<Longrightarrow>
     range uuid \<inter> (set (keys (ds_running s)) \<union> set (keys (ds_requests s))) = {} \<Longrightarrow> drs_step s s'"
| step_forget: "drs_step s (forget_finished wall s)"
| step_carry_out: "drs_step s (carry_out task_status start wall me s)"
| step_resume: "drs_step s (resume s)"
| step_take: "drs_step s (fst (take_requests separate mark applied wall now resumed s))"

inductive drs_reachable :: "drs_state \<Rightarrow> bool" where
  start: "drs_reachable initial_state"
| step: "drs_reachable s \<Longrightarrow> drs_step s s' \<Longrightarrow> drs_reachable s'"

inductive_cases drs_stepE: "drs_step s s'"

section \<open>Migrations never overlap on a member\<close>

definition ends :: "running_move \<Rightarrow> node_name set" where
  "ends rm = {mv_source (run_move rm), mv_target (run_move rm)}"

definition running_ok :: "(string, running_move) dict \<Rightarrow> bool" where
  "running_ok d \<longleftrightarrow> dict_ok d \<and> int (length d) \<le> MAX_RUNNING
     \<and> (\<forall>i a j b. (i, a) \<in> set d \<longrightarrow> (j, b) \<in> set d \<longrightarrow> i \<noteq> j \<longrightarrow> ends a \<inter> ends b = {})"

lemma running_ok_del: "running_ok d \<Longrightarrow> running_ok (dict_del k d)"
  using length_delete_le [of k d] by (fastforce simp: running_ok_def set_dict_del)

lemma running_ok_set:
  assumes "running_ok d" and "int (length d) < MAX_RUNNING" and "\<forall>(i, a) \<in> set d. ends a \<inter> ends rm = {}"
  shows "running_ok (dict_set k rm d)"
proof -
  have "int (length (dict_set k rm d)) \<le> MAX_RUNNING"
    using assms(2) length_dict_set_le [of k rm d] by simp
  with assms show ?thesis by (fastforce simp: running_ok_def set_dict_set)
qed

text \<open>What settling keeps: a settled request leaves \<open>_running\<close>, nothing enters it, and a streak of
  failures that reaches the limit pauses.\<close>

definition patient :: "drs_state \<Rightarrow> bool" where
  "patient s \<longleftrightarrow> (ds_paused s = None \<longrightarrow> ds_failures s < FAILURES_TO_PAUSE)"

lemma settle_one_frame:
  "ds_moves (settle_one wall now s x) = ds_moves s" "ds_unbalanced (settle_one wall now s x) = ds_unbalanced s"
  by (simp_all add: settle_one_def Let_def split: prod.split)

lemma settle_one_inv:
  "running_ok (ds_running s) \<Longrightarrow> running_ok (ds_running (settle_one wall now s x))"
  "patient s \<Longrightarrow> patient (settle_one wall now s x)"
  by (auto simp: settle_one_def Let_def patient_def FAILURES_TO_PAUSE_def split: prod.split intro: running_ok_del)

lemma foldl_settle:
  "running_ok (ds_running s) \<Longrightarrow> running_ok (ds_running (foldl (settle_one wall now) s l))"
  "patient s \<Longrightarrow> patient (foldl (settle_one wall now) s l)"
  "ds_moves (foldl (settle_one wall now) s l) = ds_moves s \<and> ds_unbalanced (foldl (settle_one wall now) s l) = ds_unbalanced s"
  by (induction l arbitrary: s) (auto simp: settle_one_inv settle_one_frame)

lemma request_move_simps [simp]:
  "ds_running (request_move rid m wall now s) = dict_set rid \<lparr>run_move = m, run_at = now\<rparr> (ds_running s)"
  "ds_moves (request_move rid m wall now s) = ds_moves s"
  "ds_unbalanced (request_move rid m wall now s) = ds_unbalanced s"
  "ds_paused (request_move rid m wall now s) = ds_paused s" "ds_failures (request_move rid m wall now s) = ds_failures s"
  by (simp_all add: request_move_def)

lemma request_loop_frame:
  "ds_moves (request_loop bhs wall now uuid k busy room ms s) = ds_moves s
   \<and> ds_unbalanced (request_loop bhs wall now uuid k busy room ms s) = ds_unbalanced s
   \<and> ds_paused (request_loop bhs wall now uuid k busy room ms s) = ds_paused s
   \<and> ds_failures (request_loop bhs wall now uuid k busy room ms s) = ds_failures s"
  by (induction ms arbitrary: k busy room s) auto

lemma request_loop_running:
  assumes "running_ok (ds_running s)" and "int (length (ds_running s)) \<le> MAX_RUNNING - room"
    and "\<forall>(i, a) \<in> set (ds_running s). ends a \<subseteq> set busy"
  shows "running_ok (ds_running (request_loop bhs wall now uuid k busy room ms s))"
  using assms
proof (induction ms arbitrary: k busy room s)
  case Nil
  then show ?case by simp
next
  case (Cons m ms)
  show ?case
  proof (cases "room \<le> 0 \<or> map_of bhs (mv_vm m) = Some Manual_behaviour \<or> mv_source m \<in> set busy \<or> mv_target m \<in> set busy")
    case True
    then show ?thesis using Cons by auto
  next
    case False
    let ?rm = "\<lparr>run_move = m, run_at = now\<rparr>"
    let ?s = "request_move (uuid k) m wall now s"
    have "running_ok (dict_set (uuid k) ?rm (ds_running s))"
      using Cons.prems False by (intro running_ok_set) (auto simp: ends_def)
    moreover have "int (length (ds_running ?s)) \<le> MAX_RUNNING - (room - 1)"
      using Cons.prems(2) length_dict_set_le [of "uuid k" ?rm "ds_running s"] by simp
    moreover have "\<forall>(i, a) \<in> set (ds_running ?s). ends a \<subseteq> set (mv_source m # mv_target m # busy)"
      using Cons.prems(1,3) by (fastforce simp: set_dict_set running_ok_def ends_def)
    ultimately show ?thesis using Cons.IH [of ?s "room - 1" "mv_source m # mv_target m # busy" "Suc k"] False by simp
  qed
qed

lemma automatic_running:
  assumes "running_ok (ds_running s)"
  shows "running_ok (ds_running (automatic bhs wall now uuid ms s))"
proof -
  let ?s = "settle wall now s"
  have ok: "running_ok (ds_running ?s)" using assms by (simp add: settle_def foldl_settle)
  have "\<forall>(i, a) \<in> set (ds_running ?s). ends a \<subseteq> set (busy_nodes ?s)"
    by (force simp: busy_nodes_def ends_def)
  with ok show ?thesis by (simp add: automatic_def Let_def request_loop_running)
qed

lemma automatic_frame:
  "ds_moves (automatic bhs wall now uuid ms s) = ds_moves s
   \<and> ds_unbalanced (automatic bhs wall now uuid ms s) = ds_unbalanced s"
  by (simp add: automatic_def Let_def request_loop_frame settle_def foldl_settle)

lemma automatic_patient: "patient s \<Longrightarrow> patient (automatic bhs wall now uuid ms s)"
  using foldl_settle(2) [of s wall now "ds_running s"]
  by (auto simp: automatic_def Let_def settle_def patient_def request_loop_frame)

lemma evaluate_inv:
  assumes "evaluate st ic table un wall now uuid s = Some s'"
  shows "running_ok (ds_running s) \<Longrightarrow> running_ok (ds_running s')" and "patient s \<Longrightarrow> patient s'"
  using assms
  by (auto simp: evaluate_def Let_def patient_def split: if_splits option.splits
      intro!: automatic_running automatic_patient [unfolded patient_def, rule_format])

lemma carry_out_one_frame:
  "ds_running (carry_out_one ts start wall s x) = ds_running s" "ds_paused (carry_out_one ts start wall s x) = ds_paused s"
  "ds_failures (carry_out_one ts start wall s x) = ds_failures s"
  by (simp_all add: carry_out_one_def split: prod.split req_state.split option.split start_result.split)

lemma carry_out_frame:
  "ds_running (foldl (carry_out_one ts start wall) s l) = ds_running s
   \<and> ds_paused (foldl (carry_out_one ts start wall) s l) = ds_paused s
   \<and> ds_failures (foldl (carry_out_one ts start wall) s l) = ds_failures s"
  by (induction l arbitrary: s) (auto simp: carry_out_one_frame)

lemma note_applied_frame:
  "ds_running (foldl (note_applied wall now) s l) = ds_running s
   \<and> ds_paused (foldl (note_applied wall now) s l) = ds_paused s
   \<and> ds_failures (foldl (note_applied wall now) s l) = ds_failures s"
  by (induction l arbitrary: s) (auto simp: note_applied_def split: prod.split)

lemmas drs_frames = carry_out_def carry_out_frame take_requests_def note_applied_frame observe_round_def
  forget_finished_def resume_def Let_def

lemma drs_step_inv:
  assumes "drs_step s s'"
  shows "running_ok (ds_running s) \<Longrightarrow> running_ok (ds_running s')" and "patient s \<Longrightarrow> patient s'"
  using assms
  by (auto elim!: drs_stepE simp: drs_frames patient_def FAILURES_TO_PAUSE_def
      dest: evaluate_inv(1) evaluate_inv(2) [unfolded patient_def FAILURES_TO_PAUSE_def, rule_format] split: if_splits)

lemma drs_reachable_inv: "drs_reachable s \<Longrightarrow> running_ok (ds_running s) \<and> patient s"
proof (induction rule: drs_reachable.induct)
  case start
  show ?case by (simp add: initial_state_def running_ok_def MAX_RUNNING_def patient_def FAILURES_TO_PAUSE_def)
next
  case (step s s')
  then show ?case using drs_step_inv by blast
qed

section \<open>Rows only move forward\<close>

definition forward :: "req_state \<Rightarrow> req_state \<Rightarrow> bool" where
  "forward a b \<longleftrightarrow> a = b \<or> a = Pending \<and> b \<in> {Started, Failed} \<or> a = Started \<and> b \<in> {Succeeded, Failed}"

lemma map_of_update_request:
  "i \<noteq> rid \<Longrightarrow> map_of (update_request rid st w t d rs) i = map_of rs i"
  "map_of (update_request rid st w t d rs) rid =
     map_option (\<lambda>r. r\<lparr>rq_state := st, rq_task := coalesce t (rq_task r), rq_detail := coalesce d (rq_detail r),
       rq_updated_at := w\<rparr>) (map_of rs rid)"
  by (induction rs) (auto simp: update_request_def)

lemma carry_out_one_row:
  assumes "map_of (ds_requests s) rid = Some row"
  shows "i \<noteq> rid \<Longrightarrow> map_of (ds_requests (carry_out_one ts start wall s (rid, row))) i = map_of (ds_requests s) i"
    and "\<exists>row'. map_of (ds_requests (carry_out_one ts start wall s (rid, row))) rid = Some row'
           \<and> forward (rq_state row) (rq_state row')"
  using assms by (auto simp: carry_out_one_def map_of_update_request forward_def
      split: req_state.splits option.splits start_result.splits)

lemma carry_out_rows:
  assumes "\<forall>(i, row) \<in> set l. map_of (ds_requests s) i = Some row" and "distinct (map fst l)"
  shows "(i \<notin> set (map fst l) \<longrightarrow> map_of (ds_requests (foldl (carry_out_one ts start wall) s l)) i = map_of (ds_requests s) i)
    \<and> (\<forall>row. map_of (ds_requests s) i = Some row \<longrightarrow>
         (\<exists>row'. map_of (ds_requests (foldl (carry_out_one ts start wall) s l)) i = Some row'
           \<and> forward (rq_state row) (rq_state row')))"
  using assms
proof (induction l arbitrary: s)
  case Nil
  then show ?case by (simp add: forward_def)
next
  case (Cons x l)
  obtain rid row0 where x: "x = (rid, row0)" by (cases x)
  let ?s = "carry_out_one ts start wall s (rid, row0)"
  have row0: "map_of (ds_requests s) rid = Some row0" using Cons.prems x by simp
  have other: "\<And>j. j \<noteq> rid \<Longrightarrow> map_of (ds_requests ?s) j = map_of (ds_requests s) j"
    by (rule carry_out_one_row(1) [OF row0])
  have "\<forall>(i, row) \<in> set l. map_of (ds_requests ?s) i = Some row"
    using Cons.prems x other by (fastforce simp: image_iff)
  with Cons.prems have IH: "(i \<notin> set (map fst l) \<longrightarrow> map_of (ds_requests (foldl (carry_out_one ts start wall) ?s l)) i = map_of (ds_requests ?s) i)
    \<and> (\<forall>row. map_of (ds_requests ?s) i = Some row \<longrightarrow>
         (\<exists>row'. map_of (ds_requests (foldl (carry_out_one ts start wall) ?s l)) i = Some row'
           \<and> forward (rq_state row) (rq_state row')))"
    by (intro Cons.IH) auto
  show ?case
  proof (cases "i = rid")
    case True
    with IH Cons.prems(2) x carry_out_one_row(2) [OF row0, of ts start wall] row0 show ?thesis by auto
  next
    case False
    with IH other x show ?thesis by simp
  qed
qed

section \<open>Properties\<close>


lemma reachable_after_resume: "drs_reachable (resume initial_state)"
  by (rule drs_reachable.step [OF drs_reachable.start drs_step.step_resume])


text \<open>Automatic mode is paused once two migrations failed in a row: in every reachable state where
  it is not paused, fewer than \<open>FAILURES_TO_PAUSE\<close> failures were counted since the last success or
  resume.\<close>

theorem unpaused_means_few_failures:
  assumes "drs_reachable s" and "ds_paused s = None"
  shows "ds_failures s < FAILURES_TO_PAUSE"
  using drs_reachable_inv [OF assms(1)] assms(2) by (simp add: patient_def)

theorem unpaused_means_few_failures_witness:
  "drs_reachable (resume initial_state) \<and> ds_paused (resume initial_state) = None
   \<and> ds_failures (resume initial_state) < FAILURES_TO_PAUSE"
  using unpaused_means_few_failures [OF reachable_after_resume] reachable_after_resume by (simp add: resume_def)

text \<open>A member moves only the requests whose source it is, and each only forward: pending to
  started or failed, started to succeeded or failed, a finished one never; no row appears or vanishes.\<close>

theorem carry_out_moves_rows_forward:
  assumes "dict_ok (ds_requests s)" and "map_of (ds_requests s) i = Some row"
  shows "\<exists>row'. map_of (ds_requests (carry_out task_status start_fn wall me s)) i = Some row'
    \<and> forward (rq_state row) (rq_state row') \<and> (rq_source row \<noteq> me \<longrightarrow> row' = row)"
proof -
  let ?l = "requests_of me (ds_requests s)"
  have set: "set ?l = {(i, r) \<in> set (ds_requests s). rq_source r = me}"
    by (auto simp: requests_of_def)
  have l: "\<forall>(i, row) \<in> set ?l. map_of (ds_requests s) i = Some row"
    using assms(1) set by (auto intro: map_of_is_SomeI)
  have d: "distinct (map fst ?l)"
    using assms(1) by (simp add: requests_of_def distinct_map inj_on_def)
  have "rq_source row \<noteq> me \<Longrightarrow> i \<notin> set (map fst ?l)"
    using assms(2) l by (auto simp: set)
  with carry_out_rows [OF l d, of i task_status start_fn wall] assms(2) show ?thesis
    by (fastforce simp: carry_out_def)
qed

definition sample_request :: request where
  "sample_request = \<lparr>rq_vm = ''a'', rq_source = ''n1'', rq_target = ''n2'', rq_reason = Hot_reason ''n1'' 95, rq_by = ''drs'',
     rq_requested_at = 0, rq_state = Pending, rq_task = None, rq_detail = None, rq_updated_at = 0\<rparr>"

theorem carry_out_moves_rows_forward_witness:
  "\<exists>row'. map_of (ds_requests (carry_out (\<lambda>_. None) (\<lambda>_ _. Task ''t'') 1 ''n1''
       (initial_state\<lparr>ds_requests := [(''r'', sample_request)]\<rparr>))) ''r'' = Some row' \<and> forward Pending (rq_state row')"
  using carry_out_moves_rows_forward [of "initial_state\<lparr>ds_requests := [(''r'', sample_request)]\<rparr>" "''r''" sample_request
      "\<lambda>_. None" "\<lambda>_ _. Task ''t''" 1 "''n1''"]
  by (simp add: sample_request_def)

section \<open>Evaluations of a well-formed status table\<close>

definition wf_table :: "status_table \<Rightarrow> bool" where
  "wf_table table \<longleftrightarrow> dict_ok table \<and> (\<forall>s \<in> snd ` set table. dict_ok (ns_load_vms s))"

lemma view_node_cases:
  "view_node cpu un (n, s) = [] \<or> (\<exists>ld. view_node cpu un (n, s) = [(n, ld)] \<and> nl_vms ld = ns_load_vms s)"
  by (auto simp: view_node_def Let_def split: option.splits)

lemma view_keys: "n \<in> fst ` set (view cpu table un) \<Longrightarrow> n \<in> fst ` set table"
proof -
  assume "n \<in> fst ` set (view cpu table un)"
  then obtain m s ld where "(m, s) \<in> set table" and "(n, ld) \<in> set (view_node cpu un (m, s))"
    by (auto simp: view_def)
  with view_node_cases [of cpu un m s] show ?thesis by force
qed

lemma wf_nodes_view: "wf_table table \<Longrightarrow> wf_nodes (view cpu table un)"
proof (induction table)
  case Nil
  then show ?case by (simp add: view_def wf_nodes_def)
next
  case (Cons p table)
  obtain n s where p: "p = (n, s)" by (cases p)
  have unfold: "view cpu (p # table) un = view_node cpu un (n, s) @ view cpu table un"
    by (simp add: view_def p)
  have IH: "wf_nodes (view cpu table un)" using Cons by (simp add: wf_table_def)
  have n: "n \<notin> fst ` set (view cpu table un)" using Cons.prems view_keys [of n cpu table un] p by (auto simp: wf_table_def)
  from view_node_cases [of cpu un n s] show ?case
  proof
    assume "view_node cpu un (n, s) = []"
    with unfold IH show ?thesis by simp
  next
    assume "\<exists>ld. view_node cpu un (n, s) = [(n, ld)] \<and> nl_vms ld = ns_load_vms s"
    with unfold IH n Cons.prems p show ?thesis by (auto simp: wf_nodes_def wf_table_def image_iff)
  qed
qed

text \<open>An evaluation of a well-formed status table always succeeds, and a burst of imbalance is no
  reason to move: until three evaluations in a row were unbalanced, the moves kept for the cluster are
  rule fixes only.\<close>

theorem evaluate_succeeds_and_waits:
  assumes "wf_table table"
  shows "\<exists>s'. evaluate st in_cluster table unavailable wall now uuid s = Some s'
           \<and> (ds_unbalanced s' < SUSTAINED \<longrightarrow> (\<forall>m \<in> set (ds_moves s'). mv_gain m = None))"
proof -
  let ?e = "\<lparr>env_store = st, env_behaviours = behaviours st, env_moved = ds_moved s, env_now = now\<rparr>"
  obtain ms where "recommend ?e (view (ds_cpu s) table unavailable) (set_threshold (read_settings st)) = Some ms"
    using recommend_defined [OF wf_nodes_view [OF assms]] by blast
  then show ?thesis
    by (auto simp: evaluate_def Let_def automatic_frame)
qed

definition sample_table :: status_table where
  "sample_table = [(''n1'', \<lparr>ns_stale = False, ns_host = \<lparr>h_cpu_pct = Some 95, h_mem_total_mb = Some 1000, h_mem_used_mb = Some 500,
     h_cpus = Some 4\<rparr>, ns_load_vms = [], ns_vms = []\<rparr>)]"

theorem evaluate_succeeds_and_waits_witness:
  "wf_table sample_table \<and> (\<exists>s'. evaluate sample_store True sample_table [] 0 0 (\<lambda>_. ''u'') initial_state = Some s')"
proof -
  have "wf_table sample_table" by (simp add: wf_table_def sample_table_def)
  with evaluate_succeeds_and_waits [OF this, of sample_store True "[]" 0 0 "\<lambda>_. ''u''" initial_state] show ?thesis by blast
qed

end
