(* ===== verification/Cfs.thy ===== *)
theory Cfs
  imports Prelude
begin

text \<open>
  The replicated store every node reads and writes, hyperlite-cfs, as its clients see it
  (\<^verbatim>\<open>app/core/cfs_client.py\<close>, answered by \<^verbatim>\<open>cfs/src/store.c\<close>): entries with a version taken
  from one counter that every change moves on, a compare-and-set on that version, and locks with an
  owner and an expiry. \<open>trouble\<close> stands for every other refusal of the daemon (no quorum, a size limit,
  a path that is a directory, its database failing): it leaves the store as it was.

  The interface \<open>cas_store\<close> is what the Python side relies on; the interpretation \<open>cfs\<close> shows that the
  store keeps it. The interface \<open>lease_lock\<close> is what the leader's election relies on; the interpretation
  \<open>cfsl\<close> shows that the store's locks keep it.
\<close>

section \<open>The tree of entries\<close>

datatype expected = Any_version | Must_not_exist | Version int

datatype cfs_error = Not_found | Conflict | Locked_by string | Trouble string

record cfs =
  cfs_tree :: "string \<rightharpoonup> string \<times> int"
  cfs_version :: int
  cfs_locks :: "string \<rightharpoonup> string \<times> seconds"

definition cfs_get :: "string \<Rightarrow> cfs \<Rightarrow> cfs_error + (string \<times> int)" where
  "cfs_get p s = some_or Not_found (cfs_tree s p)"

definition check_expected :: "(string \<times> int) option \<Rightarrow> expected \<Rightarrow> cfs_error + unit" where
  "check_expected found ex = (case ex of
     Any_version \<Rightarrow> Inr ()
   | Must_not_exist \<Rightarrow> (if found = None then Inr () else Inl Conflict)
   | Version v \<Rightarrow> (case found of None \<Rightarrow> Inl Not_found | Some (_, cur) \<Rightarrow> if cur = v then Inr () else Inl Conflict))"

definition cfs_put :: "cfs_error option \<Rightarrow> string \<Rightarrow> string \<Rightarrow> expected \<Rightarrow> cfs \<Rightarrow> cfs_error + (int \<times> cfs)" where
  "cfs_put trouble p data ex s =
     rbind (check_expected (cfs_tree s p) ex) (\<lambda>_.
     case trouble of
       Some e \<Rightarrow> Inl e
     | None \<Rightarrow> let v = cfs_version s + 1
               in Inr (v, s\<lparr>cfs_tree := (cfs_tree s)(p \<mapsto> (data, v)), cfs_version := v\<rparr>))"

definition cfs_delete :: "cfs_error option \<Rightarrow> string \<Rightarrow> expected \<Rightarrow> cfs \<Rightarrow> cfs_error + cfs" where
  "cfs_delete trouble p ex s =
     (case cfs_tree s p of
        None \<Rightarrow> Inl Not_found
      | Some (_, cur) \<Rightarrow>
          (if ex \<noteq> Any_version \<and> ex \<noteq> Version cur then Inl Conflict
           else case trouble of
             Some e \<Rightarrow> Inl e
           | None \<Rightarrow> Inr (s\<lparr>cfs_tree := (cfs_tree s)(p := None), cfs_version := cfs_version s + 1\<rparr>)))"

text \<open>Versions come from the store's counter, so no entry is newer than it.\<close>

definition cfs_ok :: "cfs \<Rightarrow> bool" where
  "cfs_ok s \<longleftrightarrow> (\<forall>p d v. cfs_tree s p = Some (d, v) \<longrightarrow> v \<le> cfs_version s)"

section \<open>Locks\<close>

definition live_lock :: "cfs \<Rightarrow> seconds \<Rightarrow> string \<Rightarrow> (string \<times> seconds) option" where
  "live_lock s now name = (case cfs_locks s name of
     Some (owner, ex) \<Rightarrow> if ex \<le> now then None else Some (owner, ex)
   | None \<Rightarrow> None)"

definition drop_expired :: "seconds \<Rightarrow> cfs \<Rightarrow> cfs" where
  "drop_expired now s = s\<lparr>cfs_locks := (\<lambda>name. live_lock s now name)\<rparr>"

definition cfs_lock :: "cfs_error option \<Rightarrow> string \<Rightarrow> string \<Rightarrow> seconds \<Rightarrow> seconds \<Rightarrow> cfs \<Rightarrow> cfs_error + cfs" where
  "cfs_lock trouble name owner ttl now s =
     (let s1 = drop_expired now s in
      case trouble of
        Some e \<Rightarrow> Inl e
      | None \<Rightarrow>
         (case cfs_locks s1 name of
            Some (current, _) \<Rightarrow>
              (if current \<noteq> owner then Inl (Locked_by current)
               else Inr (s1\<lparr>cfs_locks := (cfs_locks s1)(name \<mapsto> (owner, now + ttl)), cfs_version := cfs_version s1 + 1\<rparr>))
          | None \<Rightarrow> Inr (s1\<lparr>cfs_locks := (cfs_locks s1)(name \<mapsto> (owner, now + ttl)), cfs_version := cfs_version s1 + 1\<rparr>)))"

section \<open>The interface of the tree\<close>

locale cas_store =
  fixes get :: "string \<Rightarrow> 's \<Rightarrow> (string \<times> int) option"
    and put :: "string \<Rightarrow> string \<Rightarrow> expected \<Rightarrow> 's \<Rightarrow> cfs_error + (int \<times> 's)"
    and invar :: "'s \<Rightarrow> bool"
  assumes get_put: "put p d ex s = Inr (v, s') \<Longrightarrow> get q s' = (if q = p then Some (d, v) else get q s)"
    and put_version: "put p d (Version v0) s = Inr (v, s') \<Longrightarrow> \<exists>d0. get p s = Some (d0, v0)"
    and put_new: "put p d Must_not_exist s = Inr (v, s') \<Longrightarrow> get p s = None"
    and put_fresh: "invar s \<Longrightarrow> put p d ex s = Inr (v, s') \<Longrightarrow> get q s = Some (d0, v0) \<Longrightarrow> v0 < v"
    and put_invar: "invar s \<Longrightarrow> put p d ex s = Inr (v, s') \<Longrightarrow> invar s'"
begin

text \<open>A writer that saw a version writes on top of exactly what it saw: two such writes on one version
  never both succeed.\<close>

lemma no_second_write:
  assumes "invar s" and "put p d (Version v0) s = Inr (v, s')"
  shows "\<nexists>d' v' s''. put p d' (Version v0) s' = Inr (v', s'')"
proof
  assume "\<exists>d' v' s''. put p d' (Version v0) s' = Inr (v', s'')"
  then obtain d0 where "get p s' = Some (d0, v0)" using put_version by blast
  with get_put [OF assms(2), of p] have "v = v0" by simp
  moreover from put_version [OF assms(2)] put_fresh [OF assms] have "v0 < v" by blast
  ultimately show False by simp
qed

lemma no_second_create:
  "put p d Must_not_exist s = Inr (v, s') \<Longrightarrow> \<nexists>d' v' s''. put p d' Must_not_exist s' = Inr (v', s'')"
  using get_put [of p d Must_not_exist s v s' p] put_new [of p _ s'] by force

end

lemma cfs_put_Inr_iff:
  "cfs_put tr p d ex s = Inr (v, s') \<longleftrightarrow> tr = None \<and> check_expected (cfs_tree s p) ex = Inr () \<and> v = cfs_version s + 1
     \<and> s' = s\<lparr>cfs_tree := (cfs_tree s)(p \<mapsto> (d, v)), cfs_version := v\<rparr>"
  by (auto simp: cfs_put_def py_simps Let_def split: option.splits)

interpretation cfs: cas_store "\<lambda>p s. cfs_tree s p" "cfs_put tr" cfs_ok for tr
proof unfold_locales
  fix p d ex s v q d0 v0 and s' :: cfs
  show "cfs_put tr p d ex s = Inr (v, s') \<Longrightarrow> cfs_tree s' q = (if q = p then Some (d, v) else cfs_tree s q)"
    by (simp add: cfs_put_Inr_iff)
  show "cfs_put tr p d (Version v0) s = Inr (v, s') \<Longrightarrow> \<exists>d0. cfs_tree s p = Some (d0, v0)"
    by (auto simp: cfs_put_Inr_iff check_expected_def split: option.splits if_splits)
  show "cfs_put tr p d Must_not_exist s = Inr (v, s') \<Longrightarrow> cfs_tree s p = None"
    by (auto simp: cfs_put_Inr_iff check_expected_def split: if_splits)
  show "cfs_ok s \<Longrightarrow> cfs_put tr p d ex s = Inr (v, s') \<Longrightarrow> cfs_tree s q = Some (d0, v0) \<Longrightarrow> v0 < v"
    by (fastforce simp: cfs_put_Inr_iff cfs_ok_def)
  show "cfs_ok s \<Longrightarrow> cfs_put tr p d ex s = Inr (v, s') \<Longrightarrow> cfs_ok s'"
    by (fastforce simp: cfs_put_Inr_iff cfs_ok_def)
qed

section \<open>The interface of the locks\<close>

text \<open>\<open>held s now name\<close> is the owner of an unexpired lock and its expiry.\<close>

locale lease_lock =
  fixes lock :: "string \<Rightarrow> string \<Rightarrow> seconds \<Rightarrow> seconds \<Rightarrow> 's \<Rightarrow> cfs_error + 's"
    and held :: "'s \<Rightarrow> seconds \<Rightarrow> string \<Rightarrow> (string \<times> seconds) option"
  assumes lock_takes: "lock n owner ttl now s = Inr s' \<Longrightarrow> 0 < ttl \<Longrightarrow> held s' now n = Some (owner, now + ttl)"
    and lock_exclusive: "lock n owner ttl now s = Inr s' \<Longrightarrow> held s now n = Some (o', ex) \<Longrightarrow> o' = owner"
    and lock_others: "lock n owner ttl now s = Inr s' \<Longrightarrow> m \<noteq> n \<Longrightarrow> now \<le> later \<Longrightarrow> held s' later m = held s later m"
    and held_until: "held s now n = Some (owner, ex) \<Longrightarrow> now < ex"
    and held_lasts: "held s now n = Some (owner, ex) \<Longrightarrow> now \<le> later \<Longrightarrow> later < ex \<Longrightarrow> held s later n = Some (owner, ex)"
begin

text \<open>While a lease runs, nobody else gets the lock.\<close>

lemma refused_while_held:
  "held s now n = Some (o', ex) \<Longrightarrow> now \<le> later \<Longrightarrow> later < ex \<Longrightarrow> owner \<noteq> o' \<Longrightarrow> lock n owner ttl later s \<noteq> Inr s'"
  using held_lasts lock_exclusive by metis

end

lemma cfs_lock_Inr_iff:
  "cfs_lock tr n owner ttl now s = Inr s' \<longleftrightarrow> tr = None \<and> (\<forall>o' ex. live_lock s now n = Some (o', ex) \<longrightarrow> o' = owner)
     \<and> s' = (drop_expired now s)\<lparr>cfs_locks := (cfs_locks (drop_expired now s))(n \<mapsto> (owner, now + ttl)),
            cfs_version := cfs_version s + 1\<rparr>"
  by (auto simp: cfs_lock_def Let_def drop_expired_def split: option.splits prod.splits if_splits)

interpretation cfsl: lease_lock "cfs_lock tr" live_lock for tr
  by unfold_locales
    (auto simp: cfs_lock_Inr_iff live_lock_def drop_expired_def split: option.splits prod.splits if_splits)

end
