(* ===== verification/Vmid.thy ===== *)
theory Vmid
  imports Cfs
begin

text \<open>
  Numeric guest identifiers, unique in the cluster: \<^verbatim>\<open>app/core/vmid.py\<close>.

  \<open>of_root\<close> reads the number a guest's definition carries; \<open>allocate\<close> is the loop of fifty attempts of a
  read and a compare-and-set on the counter (\<open>alloc_read\<close>, \<open>alloc_write\<close>), between which the other nodes
  may do anything (\<open>others\<close>); \<open>number\<close> gives a number to every guest without one; \<open>resolve\<close> finds the
  guest a number stands for. \<open>vmid_step\<close> interleaves the attempts of any number of nodes with writes
  elsewhere in the tree.

  Shown: in every reachable state no number was handed out twice and each is at least 100; an attempt
  with nobody in between succeeds; a copied definition is never taken for the original.
\<close>

section \<open>The number in a guest's definition\<close>

text \<open>Of a parsed definition: its name, its UUID, and the \<open>vmid\<close> metadata element with its text and its
  \<open>uuid\<close> attribute.\<close>

record guest =
  g_name :: string
  g_uuid :: string
  g_vmid :: "(string \<times> string option) option"

definition of_root :: "guest \<Rightarrow> nat option" where
  "of_root g = (case g_vmid g of
     None \<Rightarrow> None
   | Some (text, uuid) \<Rightarrow>
       (if \<not> str_isdigit (strip text) then None
        else if (case uuid of None \<Rightarrow> False | Some u \<Rightarrow> u \<noteq> [] \<and> u \<noteq> strip (g_uuid g)) then None
        else Some (nat_of_digits (strip text))))"

text \<open>\<open>assign\<close> records a number for the guest's own UUID.\<close>

definition assign :: "guest \<Rightarrow> nat \<Rightarrow> guest" where
  "assign g n = g\<lparr>g_vmid := Some (str_of_nat n, Some (g_uuid g))\<rparr>"

section \<open>The counter\<close>

definition COUNTER :: string where "COUNTER = ''/cluster/vmid-next''"
definition FIRST :: nat where "FIRST = 100"
definition ATTEMPTS :: nat where "ATTEMPTS = 50"

datatype alloc_error = Not_a_number string | Counter_kept_changing | Cfs_failed cfs_error

text \<open>What an attempt read: nothing, or the counter's text and version.\<close>

type_synonym seen_entry = "(string \<times> int) option"

definition alloc_read :: "cfs \<Rightarrow> seen_entry" where
  "alloc_read s = (case cfs_get COUNTER s of Inl _ \<Rightarrow> None | Inr e \<Rightarrow> Some e)"

datatype attempt = Got nat | Again | Broke alloc_error

definition alloc_write :: "cfs_error option \<Rightarrow> seen_entry \<Rightarrow> cfs \<Rightarrow> attempt \<times> cfs" where
  "alloc_write trouble seen s = (case seen of
     None \<Rightarrow>
       (case cfs_put trouble COUNTER (str_of_nat (FIRST + 1)) Must_not_exist s of
          Inr (_, s') \<Rightarrow> (Got FIRST, s')
        | Inl Conflict \<Rightarrow> (Again, s)
        | Inl e \<Rightarrow> (Broke (Cfs_failed e), s))
   | Some (data, v) \<Rightarrow>
       (if data \<noteq> [] \<and> \<not> str_isdigit data then (Broke (Not_a_number data), s)
        else let value = (if data = [] then FIRST else nat_of_digits data) in
          (case cfs_put trouble COUNTER (str_of_nat (value + 1)) (Version v) s of
             Inr (_, s') \<Rightarrow> (Got value, s')
           | Inl Conflict \<Rightarrow> (Again, s)
           | Inl e \<Rightarrow> (Broke (Cfs_failed e), s))))"

text \<open>\<open>others k\<close> is what the other nodes do between the read and the write of the attempt \<open>k\<close>.\<close>

fun alloc_loop :: "nat \<Rightarrow> (nat \<Rightarrow> cfs_error option) \<Rightarrow> (nat \<Rightarrow> cfs \<Rightarrow> cfs) \<Rightarrow> cfs \<Rightarrow> (alloc_error + nat) \<times> cfs" where
  "alloc_loop 0 trouble others s = (Inl Counter_kept_changing, s)"
| "alloc_loop (Suc k) trouble others s =
     (case alloc_write (trouble k) (alloc_read s) (others k s) of
        (Got n, s') \<Rightarrow> (Inr n, s')
      | (Again, s') \<Rightarrow> alloc_loop k trouble others s'
      | (Broke e, s') \<Rightarrow> (Inl e, s'))"

definition allocate :: "(nat \<Rightarrow> cfs_error option) \<Rightarrow> (nat \<Rightarrow> cfs \<Rightarrow> cfs) \<Rightarrow> cfs \<Rightarrow> (alloc_error + nat) \<times> cfs" where
  "allocate = alloc_loop ATTEMPTS"

section \<open>Numbering and resolving\<close>

text \<open>\<open>number\<close>: \<open>alloc\<close> is the allocation, \<open>records g\<close> whether libvirt takes the guest's metadata; a number
  not recorded is lost. An exception of the allocation stops the pass.\<close>

fun number :: "('s \<Rightarrow> (alloc_error + nat) \<times> 's) \<Rightarrow> (guest \<Rightarrow> bool) \<Rightarrow> guest list \<Rightarrow> 's
    \<Rightarrow> (alloc_error + (string \<times> nat) list) \<times> guest list \<times> 's" where
  "number alloc records [] s = (Inr [], [], s)"
| "number alloc records (g # gs) s =
     (if of_root g \<noteq> None
      then (case number alloc records gs s of (r, gs', s') \<Rightarrow> (r, g # gs', s'))
      else case alloc s of
        (Inl e, s1) \<Rightarrow> (Inl e, g # gs, s1)
      | (Inr n, s1) \<Rightarrow>
          (if records g
           then (case number alloc records gs s1 of
                   (Inr l, gs', s') \<Rightarrow> (Inr ((g_name g, n) # l), assign g n # gs', s')
                 | (Inl e, gs', s') \<Rightarrow> (Inl e, assign g n # gs', s'))
           else (case number alloc records gs s1 of (r, gs', s') \<Rightarrow> (r, g # gs', s'))))"

definition local_match :: "guest list \<Rightarrow> nat \<Rightarrow> string option" where
  "local_match gs n = map_option g_name (find (\<lambda>g. of_root g = Some n) gs)"

text \<open>A member's status for \<open>resolve\<close>: whether it is stale, and its VMs with their numbers.\<close>

record member_vms =
  mb_stale :: bool
  mb_vms :: "(vm_name \<times> nat option) list"

fun find_member :: "node_name \<Rightarrow> nat \<Rightarrow> (node_name \<times> member_vms) list \<Rightarrow> (vm_name \<times> node_name) option" where
  "find_member me n [] = None"
| "find_member me n ((node, st) # rest) =
     (if node = me \<or> mb_stale st then find_member me n rest
      else case find (\<lambda>(_, i). i = Some n) (mb_vms st) of
             Some (vm, _) \<Rightarrow> Some (vm, node)
           | None \<Rightarrow> find_member me n rest)"

text \<open>\<open>resolve\<close>: \<open>text\<close> is a string of digits; \<open>None\<close> when it is the name of a guest of this node, or no
  guest has that number. \<open>lxc\<close> is missing when the node has no LXC driver.\<close>

definition resolve :: "bool \<Rightarrow> guest list \<Rightarrow> guest list option \<Rightarrow> node_name \<Rightarrow> (node_name \<times> member_vms) list \<Rightarrow> string
    \<Rightarrow> (string \<times> node_name option) option" where
  "resolve is_vm vms lxc me table txt =
     (let n = nat_of_digits txt in
      case (if is_vm then Some vms else lxc) of
        None \<Rightarrow> None
      | Some gs \<Rightarrow>
          (if \<exists>g \<in> set gs. g_name g = txt then None
           else case local_match gs n of
             Some name \<Rightarrow> if name \<noteq> [] then Some (name, None)
                          else if is_vm then map_option (\<lambda>(vm, node). (vm, Some node)) (find_member me n table) else None
           | None \<Rightarrow> if is_vm then map_option (\<lambda>(vm, node). (vm, Some node)) (find_member me n table) else None))"

section \<open>Any number of nodes at once\<close>

record vmid_sys =
  vs_cfs :: cfs
  vs_pc :: "nat \<Rightarrow> seen_entry option"
  vs_given :: "nat list"

definition vmid_init :: vmid_sys where
  "vmid_init = \<lparr>vs_cfs = \<lparr>cfs_tree = Map.empty, cfs_version = 0, cfs_locks = Map.empty\<rparr>, vs_pc = (\<lambda>_. None), vs_given = []\<rparr>"

inductive vmid_step :: "vmid_sys \<Rightarrow> vmid_sys \<Rightarrow> bool" where
  node_read: "vs_pc s i = None \<Longrightarrow> vmid_step s (s\<lparr>vs_pc := (vs_pc s)(i := Some (alloc_read (vs_cfs s)))\<rparr>)"
| node_got: "vs_pc s i = Some seen \<Longrightarrow> alloc_write trouble seen (vs_cfs s) = (Got n, c) \<Longrightarrow>
     vmid_step s (s\<lparr>vs_cfs := c, vs_pc := (vs_pc s)(i := None), vs_given := n # vs_given s\<rparr>)"
| node_retry: "vs_pc s i = Some seen \<Longrightarrow> alloc_write trouble seen (vs_cfs s) = (r, c) \<Longrightarrow> \<nexists>n. r = Got n \<Longrightarrow>
     vmid_step s (s\<lparr>vs_cfs := c, vs_pc := (vs_pc s)(i := None)\<rparr>)"
| other_write: "p \<noteq> COUNTER \<Longrightarrow> cfs_put trouble p d ex (vs_cfs s) = Inr (v, c) \<Longrightarrow> vmid_step s (s\<lparr>vs_cfs := c\<rparr>)"

inductive vmid_reachable :: "vmid_sys \<Rightarrow> bool" where
  vmid_start: "vmid_reachable vmid_init"
| vmid_next: "vmid_reachable s \<Longrightarrow> vmid_step s t \<Longrightarrow> vmid_reachable t"

inductive_cases vmid_stepE: "vmid_step s t"

section \<open>The invariant of the counter\<close>

definition counter_value :: "string \<Rightarrow> nat" where
  "counter_value d = (if d = [] then FIRST else nat_of_digits d)"

definition vmid_inv :: "vmid_sys \<Rightarrow> bool" where
  "vmid_inv s \<longleftrightarrow> cfs_ok (vs_cfs s) \<and> distinct (vs_given s) \<and> (\<forall>n \<in> set (vs_given s). FIRST \<le> n)
     \<and> (case cfs_tree (vs_cfs s) COUNTER of
          None \<Rightarrow> vs_given s = []
        | Some (d, v) \<Rightarrow> str_isdigit d \<and> FIRST \<le> nat_of_digits d \<and> (\<forall>n \<in> set (vs_given s). n < nat_of_digits d))
     \<and> (\<forall>i d v. vs_pc s i = Some (Some (d, v)) \<longrightarrow> v \<le> cfs_version (vs_cfs s)
          \<and> (\<forall>d'. cfs_tree (vs_cfs s) COUNTER = Some (d', v) \<longrightarrow> d' = d))"

lemma alloc_read_eq: "alloc_read s = cfs_tree s COUNTER"
  by (cases "cfs_tree s COUNTER") (auto simp: alloc_read_def cfs_get_def)

lemma alloc_write_Got:
  assumes "alloc_write tr seen s = (Got n, c)"
  shows "(seen = None \<and> n = FIRST \<and> (\<exists>v. cfs_put tr COUNTER (str_of_nat (FIRST + 1)) Must_not_exist s = Inr (v, c)))
    \<or> (\<exists>d v w. seen = Some (d, v) \<and> n = counter_value d \<and> cfs_put tr COUNTER (str_of_nat (n + 1)) (Version v) s = Inr (w, c))"
  using assms by (auto simp: alloc_write_def Let_def counter_value_def
      split: option.splits sum.splits prod.splits if_splits cfs_error.splits)

lemma alloc_write_not_Got: "alloc_write tr seen s = (r, c) \<Longrightarrow> \<nexists>n. r = Got n \<Longrightarrow> c = s"
  by (auto simp: alloc_write_def Let_def split: option.splits sum.splits prod.splits if_splits cfs_error.splits)

lemma str_isdigit_not_Nil: "str_isdigit d \<Longrightarrow> d \<noteq> []"
  by (simp add: str_isdigit_def)

lemma vmid_inv_put_counter:
  assumes "vmid_inv s" and "cfs_put tr COUNTER (str_of_nat (n + 1)) ex (vs_cfs s) = Inr (v, c)"
    and "FIRST \<le> n" and "\<forall>m \<in> set (vs_given s). m < n"
  shows "vmid_inv (s\<lparr>vs_cfs := c, vs_pc := (vs_pc s)(i := None), vs_given := n # vs_given s\<rparr>)"
proof -
  have c: "c = (vs_cfs s)\<lparr>cfs_tree := (cfs_tree (vs_cfs s))(COUNTER \<mapsto> (str_of_nat (n + 1), v)), cfs_version := v\<rparr>"
    and v: "v = cfs_version (vs_cfs s) + 1"
    using assms(2) by (simp_all add: cfs_put_Inr_iff)
  have "cfs_ok c" using cfs.put_invar assms(1,2) by (auto simp: vmid_inv_def)
  with assms(1,3,4) c v show ?thesis by (fastforce simp: vmid_inv_def)
qed

lemma vmid_step_inv:
  assumes "vmid_inv s" and "vmid_step s t"
  shows "vmid_inv t"
  using assms(2)
proof (cases rule: vmid_step.cases)
  case (node_read i)
  with assms(1) show ?thesis by (auto simp: vmid_inv_def alloc_read_eq cfs_ok_def split: option.splits)
next
  case (node_got i seen tr n c)
  from alloc_write_Got [OF node_got(3)] show ?thesis
  proof (elim disjE exE conjE)
    fix v assume "seen = None" "n = FIRST" and put: "cfs_put tr COUNTER (str_of_nat (FIRST + 1)) Must_not_exist (vs_cfs s) = Inr (v, c)"
    moreover from cfs.put_new [OF put] assms(1) have "vs_given s = []" by (simp add: vmid_inv_def)
    ultimately show ?thesis using vmid_inv_put_counter [OF assms(1)] node_got(1) by simp
  next
    fix d v w assume sd: "seen = Some (d, v)" "n = counter_value d"
      and put: "cfs_put tr COUNTER (str_of_nat (n + 1)) (Version v) (vs_cfs s) = Inr (w, c)"
    from cfs.put_version [OF put] obtain d0 where "cfs_tree (vs_cfs s) COUNTER = Some (d0, v)" by blast
    with assms(1) node_got(2) sd have "FIRST \<le> n" "\<forall>m \<in> set (vs_given s). m < n"
      by (auto simp: vmid_inv_def counter_value_def dest: str_isdigit_not_Nil)
    with vmid_inv_put_counter [OF assms(1) put] node_got(1) show ?thesis by simp
  qed
next
  case (node_retry i seen tr r c)
  then have "c = vs_cfs s" by (blast dest: alloc_write_not_Got)
  with node_retry(1) assms(1) show ?thesis by (auto simp: vmid_inv_def split: option.splits)
next
  case (other_write p tr d ex v c)
  have "cfs_ok c" using cfs.put_invar [OF _ other_write(3)] assms(1) by (simp add: vmid_inv_def)
  moreover have "cfs_tree c COUNTER = cfs_tree (vs_cfs s) COUNTER" "cfs_version (vs_cfs s) \<le> cfs_version c"
    using other_write(2,3) by (simp_all add: cfs_put_Inr_iff)
  ultimately show ?thesis using assms(1) unfolding other_write(1)
    by (auto simp: vmid_inv_def split: option.splits) (meson order_trans)+
qed

lemma vmid_reachable_inv: "vmid_reachable s \<Longrightarrow> vmid_inv s"
proof (induction rule: vmid_reachable.induct)
  case vmid_start
  show ?case by (simp add: vmid_inv_def vmid_init_def cfs_ok_def)
next
  case (vmid_next s t)
  then show ?case by (blast intro: vmid_step_inv)
qed

section \<open>Properties\<close>

text \<open>C29: whatever the interleaving of the nodes that allocate at the same time, and whatever else is
  written in the tree, no VMID is ever handed out twice, and each is at least 100.\<close>

theorem vmids_unique:
  assumes "vmid_reachable s"
  shows "distinct (vs_given s) \<and> (\<forall>n \<in> set (vs_given s). 100 \<le> n)"
  using vmid_reachable_inv [OF assms] by (simp add: vmid_inv_def FIRST_def)

lemma vmid_first_read: "vmid_reachable (vmid_init\<lparr>vs_pc := (vs_pc vmid_init)(0 := Some None)\<rparr>)"
proof -
  have "alloc_read (vs_cfs vmid_init) = None" by (simp add: alloc_read_eq vmid_init_def)
  with node_read [of vmid_init 0] show ?thesis
    by (auto intro: vmid_reachable.intros simp: vmid_init_def)
qed

lemma vmid_first_given: "\<exists>s. vmid_reachable s \<and> vs_given s = [100]"
proof -
  let ?s = "vmid_init\<lparr>vs_pc := (vs_pc vmid_init)(0 := Some None)\<rparr>"
  have "\<exists>c. alloc_write None None (vs_cfs ?s) = (Got 100, c)"
    by (simp add: alloc_write_def vmid_init_def cfs_put_def check_expected_def FIRST_def)
  then obtain c where "alloc_write None None (vs_cfs ?s) = (Got 100, c)" by blast
  then have "vmid_step ?s (?s\<lparr>vs_cfs := c, vs_pc := (vs_pc ?s)(0 := None), vs_given := 100 # vs_given ?s\<rparr>)"
    by (intro node_got [where seen = None]) simp_all
  from vmid_next [OF vmid_first_read this] show ?thesis
    by (intro exI conjI) (assumption, simp add: vmid_init_def)
qed

theorem vmids_unique_witness:
  "\<exists>s. vmid_reachable s \<and> vs_given s = [100] \<and> distinct (vs_given s) \<and> 100 \<le> hd (vs_given s)"
  using vmid_first_given vmids_unique by force

lemma alloc_loop_alone:
  assumes "case cfs_tree s COUNTER of None \<Rightarrow> n = 100 | Some (d, v) \<Rightarrow> d = str_of_nat n"
  shows "\<exists>v s'. alloc_loop (Suc k) (\<lambda>_. None) (\<lambda>_ c. c) s = (Inr n, s') \<and> cfs_tree s' COUNTER = Some (str_of_nat (n + 1), v)"
proof (cases "cfs_tree s COUNTER")
  case None
  with assms show ?thesis
    by (simp add: alloc_read_eq alloc_write_def Let_def cfs_put_def check_expected_def FIRST_def)
next
  case (Some e)
  with assms show ?thesis
    by (cases e) (simp add: alloc_read_eq alloc_write_def Let_def cfs_put_def check_expected_def)
qed

text \<open>An allocation alone succeeds at its first attempt and moves the counter on by one: with no
  other node in between and the daemon answering, \<open>allocate\<close> returns the counter's value (100 when there
  is no counter yet) and leaves the next one.\<close>

theorem allocate_alone:
  assumes "case cfs_tree s COUNTER of None \<Rightarrow> n = 100 | Some (d, v) \<Rightarrow> d = str_of_nat n"
  shows "\<exists>v s'. allocate (\<lambda>_. None) (\<lambda>_ c. c) s = (Inr n, s') \<and> cfs_tree s' COUNTER = Some (str_of_nat (n + 1), v)"
  using alloc_loop_alone [OF assms, of 49] by (simp add: allocate_def ATTEMPTS_def)

theorem allocate_alone_witness:
  "\<exists>v s'. allocate (\<lambda>_. None) (\<lambda>_ c. c) (vs_cfs vmid_init) = (Inr 100, s') \<and> cfs_tree s' COUNTER = Some (str_of_nat 101, v)"
  using allocate_alone [where s = "vs_cfs vmid_init" and n = 100] by (simp add: vmid_init_def)

text \<open>A number recorded by \<open>assign\<close> is read back from that guest's definition, and a copy of the
  definition under another UUID has none: it is numbered again, never sharing the number.\<close>

theorem assigned_number_is_the_guests_own:
  assumes "strip u = u" and "u \<noteq> []" and "g_uuid g = u" and "strip u' \<noteq> u"
  shows "of_root (assign g n) = Some n \<and> of_root ((assign g n)\<lparr>g_uuid := u'\<rparr>) = None"
  using assms by (simp add: of_root_def assign_def)

theorem assigned_number_is_the_guests_own_witness:
  "of_root (assign \<lparr>g_name = ''a'', g_uuid = ''u1'', g_vmid = None\<rparr> 123) = Some 123
   \<and> of_root ((assign \<lparr>g_name = ''a'', g_uuid = ''u1'', g_vmid = None\<rparr> 123)\<lparr>g_uuid := ''u2''\<rparr>) = None"
  using assigned_number_is_the_guests_own [of "''u1''" "\<lparr>g_name = ''a'', g_uuid = ''u1'', g_vmid = None\<rparr>" "''u2''" 123]
  by (simp add: strip_chars_def is_blank_def)

end
