(* ===== verification/Cluster_Lead.thy ===== *)
theory Cluster_Lead
  imports Cfs
begin

text \<open>
  Which node runs the cluster-wide work, and whether this node may change anything:
  \<^verbatim>\<open>app/core/cluster_lead.py\<close>.

  The state of one process is the record \<open>lead\<close>: the daemon's mode as last reported and when, the mode
  kept in the settings, how long this node leads, the last answer about the quorum, and the works paused.
  What a call learns from outside stands in \<open>lead_env\<close>: whether the shadow mode is on, the clock, the
  daemon's answers (missing when it does not answer), the reason of \<^verbatim>\<open>cluster_v1.py\<close>. The clock is read
  once per call.

  \<open>lead_step\<close> interleaves any number of processes of any number of nodes that take the lock in the
  replicated store, receive the answer within a bounded delay and count on it, while nodes leave the
  membership (their locks are dropped) and time passes. Shown: two nodes never lead at the same time, a
  departed one apart; a node that cannot renew stops leading before its lock expires; only a positive
  answer about the quorum is kept, for two seconds.
\<close>

section \<open>The state of one process\<close>

datatype daemon_mode = Local_mode | Cluster_mode

datatype reason = No_quorum | No_daemon | Update_to_1_0 string

record lead =
  ld_mode :: "daemon_mode option"
  ld_mode_at :: seconds
  ld_setting :: "daemon_mode option"
  ld_leading_until :: seconds
  ld_quorum :: "seconds \<times> reason option"
  ld_paused :: "string list"

definition lead_start :: "daemon_mode option \<Rightarrow> lead" where
  "lead_start kept = \<lparr>ld_mode = None, ld_mode_at = 0, ld_setting = kept, ld_leading_until = 0,
     ld_quorum = (0, None), ld_paused = []\<rparr>"

record lead_env =
  le_shadow :: bool
  le_now :: seconds
  le_mode :: "daemon_mode option"
  le_quorate :: "bool option"
  le_v1 :: "string option"
  le_behind :: "node_name list"

definition TTL_S :: seconds where "TTL_S = 60"
definition RENEW_S :: seconds where "RENEW_S = 15"
definition STATUS_TTL_S :: seconds where "STATUS_TTL_S = 5"
definition QUORUM_TTL_S :: seconds where "QUORUM_TTL_S = 2"
definition LOCK :: string where "LOCK = ''hyperlite-lead''"

text \<open>\<open>mode(record)\<close>: asked again after five seconds; without an answer the last one known holds.\<close>

definition mode_of :: "bool \<Rightarrow> lead_env \<Rightarrow> lead \<Rightarrow> daemon_mode option \<times> lead" where
  "mode_of rec e s =
     (if \<not> le_shadow e then (None, s)
      else if ld_mode s \<noteq> None \<and> le_now e - ld_mode_at s < STATUS_TTL_S then (ld_mode s, s)
      else case le_mode e of
        None \<Rightarrow> ((case ld_mode s of Some m \<Rightarrow> Some m | None \<Rightarrow> ld_setting s), s)
      | Some current \<Rightarrow>
          (let changed = (ld_mode s \<noteq> Some current);
               s1 = s\<lparr>ld_mode := Some current, ld_mode_at := le_now e\<rparr>
           in (Some current,
               if rec \<and> changed \<and> ld_setting s \<noteq> Some current then s1\<lparr>ld_setting := Some current\<rparr> else s1)))"

section \<open>Whether this node may change anything\<close>

definition read_only_reason :: "lead_env \<Rightarrow> lead \<Rightarrow> reason option \<times> lead" where
  "read_only_reason e s0 =
     (case mode_of True e s0 of (m, s) \<Rightarrow>
      if m \<noteq> Some Cluster_mode then (None, s)
      else case ld_quorum s of (t, kept) \<Rightarrow>
        if kept = None \<and> le_now e - t < QUORUM_TTL_S then (None, s)
        else
          let asked = (case le_quorate e of
                         None \<Rightarrow> Some No_daemon
                       | Some q \<Rightarrow> if q then map_option Update_to_1_0 (le_v1 e) else Some No_quorum)
          in (asked, s\<lparr>ld_quorum := (le_now e, asked)\<rparr>))"

datatype cause = Cause_no_quorum | Cause_no_daemon | Cause_update

definition read_only_cause :: "lead_env \<Rightarrow> lead \<Rightarrow> (cause option \<times> node_name list) \<times> lead" where
  "read_only_cause e s =
     (case read_only_reason e s of
        (None, s') \<Rightarrow> ((None, []), s')
      | (Some No_quorum, s') \<Rightarrow> ((Some Cause_no_quorum, []), s')
      | (Some No_daemon, s') \<Rightarrow> ((Some Cause_no_daemon, []), s')
      | (Some (Update_to_1_0 _), s') \<Rightarrow> ((Some Cause_update, le_behind e), s'))"

datatype pause_log = Paused_now string reason | Resumed_now string

definition paused :: "string \<Rightarrow> lead_env \<Rightarrow> lead \<Rightarrow> bool \<times> pause_log option \<times> lead" where
  "paused what e s0 =
     (case read_only_reason e s0 of (r, s) \<Rightarrow>
      let was = what \<in> set (ld_paused s);
          s' = s\<lparr>ld_paused := if r \<noteq> None then List.insert what (ld_paused s) else removeAll what (ld_paused s)\<rparr>;
          said = (case r of
                    Some w \<Rightarrow> if was then None else Some (Paused_now what w)
                  | None \<Rightarrow> if was then Some (Resumed_now what) else None)
      in (r \<noteq> None, said, s'))"

definition in_cluster :: "lead_env \<Rightarrow> lead \<Rightarrow> bool \<times> lead" where
  "in_cluster e s =
     (if \<not> le_shadow e then (False, s) else case mode_of True e s of (m, s') \<Rightarrow> (m \<noteq> Some Local_mode, s'))"

section \<open>The lead\<close>

definition is_leader :: "lead_env \<Rightarrow> lead \<Rightarrow> bool \<times> lead" where
  "is_leader e s =
     (case in_cluster e s of (inside, s') \<Rightarrow> if \<not> inside then (True, s') else (le_now e < ld_leading_until s', s'))"

text \<open>\<open>renew\<close>: \<open>healthy\<close> is the answer of the check a process was started with, if any; \<open>held\<close> whether
  the daemon gave the lock, \<open>answered\<close> the clock once it answered.\<close>

definition renew :: "lead_env \<Rightarrow> bool option \<Rightarrow> bool \<Rightarrow> seconds \<Rightarrow> lead \<Rightarrow> bool \<times> lead" where
  "renew e healthy held answered s =
     (case in_cluster e s of (inside, s') \<Rightarrow>
      if \<not> inside then (False, s'\<lparr>ld_leading_until := 0\<rparr>)
      else if healthy = Some False then (False, s'\<lparr>ld_leading_until := 0\<rparr>)
      else (held, s'\<lparr>ld_leading_until := if held then answered + TTL_S - 2 * RENEW_S else 0\<rparr>))"

definition forget :: "lead \<Rightarrow> lead" where
  "forget s = s\<lparr>ld_mode := None, ld_mode_at := 0, ld_leading_until := 0, ld_quorum := (0, None)\<rparr>"

section \<open>Every process of every node\<close>

text \<open>A process is a node and the number of its service; the lock's owner is the node. \<open>sy_asked\<close>: when the
  daemon granted the lock a process has not heard about yet. \<open>sy_gone\<close>: the nodes that left the membership
  since they last took the lock; their locks were dropped.\<close>

type_synonym proc = "node_name \<times> nat"

record lead_sys =
  sy_now :: seconds
  sy_cfs :: cfs
  sy_lead :: "proc \<Rightarrow> lead"
  sy_asked :: "proc \<Rightarrow> seconds option"
  sy_gone :: "node_name set"

definition drop_locks :: "node_name \<Rightarrow> cfs \<Rightarrow> cfs" where
  "drop_locks n c = c\<lparr>cfs_locks := (\<lambda>name. case cfs_locks c name of
      Some (owner, ex) \<Rightarrow> if owner = n then None else Some (owner, ex)
    | None \<Rightarrow> None)\<rparr>"

definition lead_init :: lead_sys where
  "lead_init = \<lparr>sy_now = 0, sy_cfs = \<lparr>cfs_tree = Map.empty, cfs_version = 0, cfs_locks = Map.empty\<rparr>,
     sy_lead = (\<lambda>_. lead_start None), sy_asked = (\<lambda>_. None), sy_gone = {}\<rparr>"

text \<open>In the steps of \<open>delay\<close>, an answer arrives at most \<open>delay\<close> after the daemon granted the lock (a later
  one is a timeout of the client, so \<open>refused\<close>).\<close>

inductive lead_step :: "seconds \<Rightarrow> lead_sys \<Rightarrow> lead_sys \<Rightarrow> bool" for delay where
  passes: "sy_now s \<le> t \<Longrightarrow> lead_step delay s (s\<lparr>sy_now := t\<rparr>)"
| granted: "sy_asked s p = None \<Longrightarrow> cfs_lock tr LOCK (fst p) TTL_S (sy_now s) (sy_cfs s) = Inr c \<Longrightarrow>
     lead_step delay s (s\<lparr>sy_cfs := c, sy_asked := (sy_asked s)(p := Some (sy_now s)), sy_gone := sy_gone s - {fst p}\<rparr>)"
| heard: "sy_asked s p = Some t \<Longrightarrow> sy_now s \<le> t + delay \<Longrightarrow>
     renew e healthy True (sy_now s) (sy_lead s p) = (r, l) \<Longrightarrow>
     lead_step delay s (s\<lparr>sy_lead := (sy_lead s)(p := l), sy_asked := (sy_asked s)(p := None)\<rparr>)"
| refused: "renew e healthy False (sy_now s) (sy_lead s p) = (r, l) \<Longrightarrow>
     lead_step delay s (s\<lparr>sy_lead := (sy_lead s)(p := l), sy_asked := (sy_asked s)(p := None)\<rparr>)"
| asks: "snd (is_leader e (sy_lead s p)) = l \<or> snd (read_only_reason e (sy_lead s p)) = l \<Longrightarrow>
     lead_step delay s (s\<lparr>sy_lead := (sy_lead s)(p := l)\<rparr>)"
| departs: "lead_step delay s (s\<lparr>sy_cfs := drop_locks n (sy_cfs s), sy_gone := insert n (sy_gone s)\<rparr>)"

inductive lead_reachable :: "seconds \<Rightarrow> lead_sys \<Rightarrow> bool" for delay where
  lead_begins: "lead_reachable delay lead_init"
| lead_goes_on: "lead_reachable delay s \<Longrightarrow> lead_step delay s t \<Longrightarrow> lead_reachable delay t"

text \<open>In a cluster \<open>is_leader\<close> says whether the time a process leads is not over.\<close>

definition leads :: "lead_sys \<Rightarrow> proc \<Rightarrow> bool" where
  "leads s p \<longleftrightarrow> sy_now s < ld_leading_until (sy_lead s p)"

section \<open>Lemmas\<close>

lemma mode_of_keeps [simp]:
  "mode_of r e s = (m, s') \<Longrightarrow> ld_leading_until s' = ld_leading_until s \<and> ld_quorum s' = ld_quorum s \<and> ld_paused s' = ld_paused s"
  by (auto simp: mode_of_def Let_def split: if_splits option.splits)

lemma in_cluster_keeps:
  "in_cluster e s = (i, s') \<Longrightarrow> ld_leading_until s' = ld_leading_until s"
  by (auto simp: in_cluster_def split: if_splits prod.splits)

lemma is_leader_keeps: "ld_leading_until (snd (is_leader e s)) = ld_leading_until s"
  by (auto simp: is_leader_def split: prod.splits dest: in_cluster_keeps)

lemma read_only_keeps: "ld_leading_until (snd (read_only_reason e s)) = ld_leading_until s"
  by (auto simp: read_only_reason_def Let_def split: prod.splits dest: mode_of_keeps)

lemma renew_until:
  "renew e h held answered s = (r, l) \<Longrightarrow>
     ld_leading_until l = 0 \<or> (held \<and> r \<and> ld_leading_until l = answered + TTL_S - 2 * RENEW_S)"
  by (auto simp: renew_def split: prod.splits if_splits)

subsection \<open>A lock covers a claim until a time\<close>

definition covered :: "cfs \<Rightarrow> seconds \<Rightarrow> node_name \<Rightarrow> seconds \<Rightarrow> bool" where
  "covered c now n u \<longleftrightarrow> (now < u \<longrightarrow> (\<exists>ex. live_lock c now LOCK = Some (n, ex) \<and> u \<le> ex))"

lemma covered_later: "covered c now n u \<Longrightarrow> now \<le> t \<Longrightarrow> covered c t n u"
  unfolding covered_def by (meson cfsl.held_lasts le_less_trans less_le_trans)

lemma covered_lock:
  assumes "cfs_lock tr LOCK owner TTL_S now c = Inr c'" and "covered c now n u" and "n = owner \<Longrightarrow> u \<le> now + TTL_S"
  shows "covered c' now n u"
proof -
  have held: "live_lock c' now LOCK = Some (owner, now + TTL_S)"
    using cfsl.lock_takes [OF assms(1)] by (simp add: TTL_S_def)
  show ?thesis
  proof (cases "n = owner")
    case True
    with held assms(3) show ?thesis by (simp add: covered_def)
  next
    case False
    have "\<not> now < u"
    proof
      assume "now < u"
      with assms(2) obtain ex where "live_lock c now LOCK = Some (n, ex)" by (auto simp: covered_def)
      from cfsl.lock_exclusive [OF assms(1) this] False show False by simp
    qed
    then show ?thesis by (simp add: covered_def)
  qed
qed

lemma covered_granted: "cfs_lock tr LOCK n TTL_S now c = Inr c' \<Longrightarrow> covered c' now n (now + TTL_S)"
  using cfsl.lock_takes [of tr LOCK n TTL_S now c c'] by (simp add: covered_def TTL_S_def)

lemma covered_drop: "covered c now n u \<Longrightarrow> m \<noteq> n \<Longrightarrow> covered (drop_locks m c) now n u"
  by (auto simp: covered_def drop_locks_def live_lock_def split: option.splits if_splits)

lemma covered_less: "covered c now n u \<Longrightarrow> v \<le> u \<Longrightarrow> covered c now n v"
  unfolding covered_def by (meson less_le_trans order_trans)

text \<open>The invariant, on the parts of the state.\<close>

definition leases_ok :: "seconds \<Rightarrow> cfs \<Rightarrow> (proc \<Rightarrow> lead) \<Rightarrow> (proc \<Rightarrow> seconds option) \<Rightarrow> node_name set \<Rightarrow> bool" where
  "leases_ok now c lead asked gone \<longleftrightarrow> 0 \<le> now
     \<and> (\<forall>p. ld_leading_until (lead p) \<le> now + TTL_S - 2 * RENEW_S)
     \<and> (\<forall>p t. asked p = Some t \<longrightarrow> t \<le> now)
     \<and> (\<forall>p. fst p \<notin> gone \<longrightarrow> covered c now (fst p) (ld_leading_until (lead p)))
     \<and> (\<forall>p t. fst p \<notin> gone \<longrightarrow> asked p = Some t \<longrightarrow> covered c now (fst p) (t + TTL_S))"

lemmas lease_times = TTL_S_def RENEW_S_def

lemma leasesD:
  assumes "leases_ok now c lead asked gone"
  shows "0 \<le> now" "ld_leading_until (lead p) \<le> now + TTL_S - 2 * RENEW_S" "asked p = Some t \<Longrightarrow> t \<le> now"
    "fst p \<notin> gone \<Longrightarrow> covered c now (fst p) (ld_leading_until (lead p))"
    "fst p \<notin> gone \<Longrightarrow> asked p = Some t \<Longrightarrow> covered c now (fst p) (t + TTL_S)"
  using assms unfolding leases_ok_def by blast+

lemma leasesI:
  assumes "0 \<le> now" "\<And>p. ld_leading_until (lead p) \<le> now + TTL_S - 2 * RENEW_S" "\<And>p t. asked p = Some t \<Longrightarrow> t \<le> now"
    "\<And>p. fst p \<notin> gone \<Longrightarrow> covered c now (fst p) (ld_leading_until (lead p))"
    "\<And>p t. fst p \<notin> gone \<Longrightarrow> asked p = Some t \<Longrightarrow> covered c now (fst p) (t + TTL_S)"
  shows "leases_ok now c lead asked gone"
  using assms unfolding leases_ok_def by blast

lemma leases_granted:
  assumes ok: "leases_ok now c lead asked gone" and lock: "cfs_lock tr LOCK (fst p) TTL_S now c = Inr c'"
  shows "leases_ok now c' lead (asked(p := Some now)) (gone - {fst p})"
proof (rule leasesI)
  have own: "covered c' now (fst p) u" if "u \<le> now + TTL_S" for u
    using covered_less [OF covered_granted [OF lock] that] .
  have other: "n \<noteq> fst p \<Longrightarrow> covered c now n u \<Longrightarrow> covered c' now n u" for n u
    using covered_lock [OF lock] by blast
  show asked: "t \<le> now" if "(asked(p := Some now)) q = Some t" for q t
    using that leasesD(3) [OF ok] by (cases "q = p") auto
  fix q :: proc
  assume q: "fst q \<notin> gone - {fst p}"
  have "ld_leading_until (lead q) \<le> now + TTL_S"
    using leasesD(2) [OF ok, of q] by (simp add: lease_times)
  with q own other leasesD(4) [OF ok, of q] show "covered c' now (fst q) (ld_leading_until (lead q))"
    by (cases "fst q = fst p") auto
  fix t
  assume t: "(asked(p := Some now)) q = Some t"
  show "covered c' now (fst q) (t + TTL_S)"
  proof (cases "fst q = fst p")
    case True
    with own asked [OF t] show ?thesis by simp
  next
    case False
    then have "q \<noteq> p" by auto
    with q t False other leasesD(5) [OF ok, of q] show ?thesis by simp
  qed
qed (use leasesD(1,2) [OF ok] in auto)

lemma leases_later:
  assumes ok: "leases_ok now c lead asked gone" and "now \<le> t"
  shows "leases_ok t c lead asked gone"
proof (rule leasesI)
  show "0 \<le> t" using leasesD(1) [OF ok] assms(2) by simp
  show "ld_leading_until (lead p) \<le> t + TTL_S - 2 * RENEW_S" for p
    using leasesD(2) [OF ok, of p] assms(2) by simp
  show "asked p = Some u \<Longrightarrow> u \<le> t" for p u
    using leasesD(3) [OF ok, of p u] assms(2) by simp
qed (use leasesD(4,5) [OF ok] covered_later [OF _ assms(2)] in auto)

lemma leases_departs:
  assumes ok: "leases_ok now c lead asked gone"
  shows "leases_ok now (drop_locks n c) lead asked (insert n gone)"
  using leasesD [OF ok] by (intro leasesI) (auto intro: covered_drop)

lemma leases_until:
  assumes ok: "leases_ok now c lead asked gone" and "ld_leading_until l = 0 \<or> ld_leading_until l = ld_leading_until (lead p)
      \<or> (ld_leading_until l = now + TTL_S - 2 * RENEW_S \<and> asked p = Some t \<and> now \<le> t + 2 * RENEW_S)"
  shows "leases_ok now c (lead(p := l)) asked gone"
proof (rule leasesI)
  show "ld_leading_until ((lead(p := l)) q) \<le> now + TTL_S - 2 * RENEW_S" for q
    using assms(2) leasesD(1) [OF ok] leasesD(2) [OF ok, of q] by (cases "q = p") (auto simp: lease_times)
  have "covered c now (fst p) (ld_leading_until l)" if "fst p \<notin> gone"
    using assms(2)
  proof (elim disjE conjE)
    assume "ld_leading_until l = 0"
    with leasesD(1) [OF ok] show ?thesis by (simp add: covered_def)
  next
    assume "ld_leading_until l = ld_leading_until (lead p)"
    with leasesD(4) [OF ok that] show ?thesis by simp
  next
    assume "ld_leading_until l = now + TTL_S - 2 * RENEW_S" and "asked p = Some t" and "now \<le> t + 2 * RENEW_S"
    with covered_less [OF leasesD(5) [OF ok that]] show ?thesis by simp
  qed
  then show "fst q \<notin> gone \<Longrightarrow> covered c now (fst q) (ld_leading_until ((lead(p := l)) q))" for q
    using leasesD(4) [OF ok, of q] by (cases "q = p") auto
qed (use leasesD(1,3,5) [OF ok] in auto)

lemma leases_answered: "leases_ok now c lead asked gone \<Longrightarrow> leases_ok now c lead (asked(p := None)) gone"
  using leasesD [of now c lead asked gone] by (intro leasesI) (auto split: if_splits)

abbreviation lead_inv :: "lead_sys \<Rightarrow> bool" where
  "lead_inv s \<equiv> leases_ok (sy_now s) (sy_cfs s) (sy_lead s) (sy_asked s) (sy_gone s)"

lemma lead_step_inv:
  assumes "lead_step delay s t" and "lead_inv s" and "delay \<le> 2 * RENEW_S"
  shows "lead_inv t"
  using assms(1)
proof (cases rule: lead_step.cases)
  case (passes u)
  with assms(2) show ?thesis by (simp add: leases_later)
next
  case (granted p tr c)
  with leases_granted [OF assms(2) granted(3)] show ?thesis by simp
next
  case (heard p u e healthy r l)
  then have "ld_leading_until l = 0 \<or> (ld_leading_until l = sy_now s + TTL_S - 2 * RENEW_S \<and> sy_asked s p = Some u \<and> sy_now s \<le> u + 2 * RENEW_S)"
    using renew_until [OF heard(4)] assms(3) by auto
  with leases_until [OF assms(2), of l p u] heard(1) show ?thesis by (auto intro: leases_answered)
next
  case (refused e healthy p r l)
  then have "ld_leading_until l = 0" using renew_until [OF refused(2)] by simp
  with leases_until [OF assms(2), of l p] refused(1) show ?thesis by (auto intro: leases_answered)
next
  case (asks e p l)
  then have "ld_leading_until l = ld_leading_until (sy_lead s p)" using is_leader_keeps read_only_keeps by metis
  with leases_until [OF assms(2), of l p] asks(1) show ?thesis by auto
next
  case (departs n)
  with assms(2) show ?thesis by (simp add: leases_departs)
qed

lemma lead_reachable_inv: "lead_reachable delay s \<Longrightarrow> delay \<le> 2 * RENEW_S \<Longrightarrow> lead_inv s"
proof (induction rule: lead_reachable.induct)
  case lead_begins
  show ?case by (simp add: lead_init_def leases_ok_def lead_start_def covered_def lease_times)
next
  case (lead_goes_on s t)
  then show ?case by (blast intro: lead_step_inv)
qed

lemma leader_holds_lock:
  assumes "lead_inv s" and "leads s p" and "fst p \<notin> sy_gone s"
  shows "\<exists>ex. live_lock (sy_cfs s) (sy_now s) LOCK = Some (fst p, ex)"
  using assms unfolding leases_ok_def leads_def covered_def by blast

section \<open>Properties\<close>


lemma first_leader:
  "\<exists>s. lead_reachable 2 s \<and> leads s (''a'', 0) \<and> sy_gone s = {}"
proof -
  let ?p = "(''a'', 0) :: proc"
  define e where "e = \<lparr>le_shadow = True, le_now = 0, le_mode = Some Cluster_mode, le_quorate = Some True, le_v1 = None, le_behind = []\<rparr>"
  obtain c where c: "cfs_lock None LOCK (fst ?p) TTL_S (sy_now lead_init) (sy_cfs lead_init) = Inr c"
    by (simp add: lead_init_def cfs_lock_def drop_expired_def live_lock_def Let_def)
  define s1 where "s1 = lead_init\<lparr>sy_cfs := c, sy_asked := (sy_asked lead_init)(?p := Some (sy_now lead_init)), sy_gone := sy_gone lead_init - {fst ?p}\<rparr>"
  have s1: "lead_reachable 2 s1"
    unfolding s1_def by (rule lead_goes_on [OF lead_begins granted [OF _ c]]) (simp add: lead_init_def)
  obtain r l where l: "renew e None True (sy_now s1) (sy_lead s1 ?p) = (r, l)" by fastforce
  have "sy_lead s1 ?p = lead_start None" "sy_now s1 = 0" by (simp_all add: s1_def lead_init_def)
  moreover have "ld_leading_until (snd (renew e None True 0 (lead_start None))) = 30"
    by (simp add: renew_def in_cluster_def mode_of_def e_def lead_start_def Let_def lease_times)
  ultimately have "ld_leading_until l = 30" using l by simp
  moreover have "lead_reachable 2 (s1\<lparr>sy_lead := (sy_lead s1)(?p := l), sy_asked := (sy_asked s1)(?p := None)\<rparr>)"
    by (rule lead_goes_on [OF s1 heard [OF _ _ l]]) (auto simp: s1_def lead_init_def)
  ultimately show ?thesis
    by (intro exI [of _ "s1\<lparr>sy_lead := (sy_lead s1)(?p := l), sy_asked := (sy_asked s1)(?p := None)\<rparr>"])
      (simp add: leads_def s1_def lead_init_def)
qed


section \<open>The quorum, over a sequence of calls\<close>

fun ask_all :: "lead_env list \<Rightarrow> lead \<Rightarrow> lead" where
  "ask_all [] s = s"
| "ask_all (e # es) s = ask_all es (snd (read_only_reason e s))"

definition confirms :: "lead_env \<Rightarrow> bool" where
  "confirms e \<longleftrightarrow> le_quorate e = Some True \<and> le_v1 e = None"

lemma ask_all_append: "ask_all (es @ fs) s = ask_all fs (ask_all es s)"
  by (induction es arbitrary: s) auto

lemma read_only_quorum:
  "ld_quorum (snd (read_only_reason e s)) = ld_quorum s
   \<or> (\<exists>r. ld_quorum (snd (read_only_reason e s)) = (le_now e, r) \<and> (r = None \<longleftrightarrow> confirms e))"
  by (auto simp: read_only_reason_def confirms_def Let_def split: prod.splits option.splits if_splits dest: mode_of_keeps)

lemma quorum_kept:
  "(\<exists>e \<in> set es. confirms e \<and> ld_quorum (ask_all es s) = (le_now e, None))
   \<or> ld_quorum (ask_all es s) = ld_quorum s \<or> snd (ld_quorum (ask_all es s)) \<noteq> None"
proof (induction es rule: rev_induct)
  case Nil
  show ?case by simp
next
  case (snoc e es)
  show ?case
    using read_only_quorum [of e "ask_all es s"] snoc by (auto simp: ask_all_append)
qed

text \<open>A node of a cluster changes things only with a fresh quorum: when \<open>read_only_reason\<close> lets a
  change through after any calls since the start, then the daemon itself says now, or said less than two
  seconds before, that the node is quorate and that no member is behind; and a refusal is never kept: as
  soon as the daemon confirms, the node may change things again.\<close>

theorem changes_need_fresh_quorum:
  assumes "read_only_reason e (ask_all es (lead_start kept)) = (r, s)"
    and "fst (mode_of True e (ask_all es (lead_start kept))) = Some Cluster_mode" and "QUORUM_TTL_S \<le> le_now e"
  shows "(r = None \<longrightarrow> (\<exists>e' \<in> set (e # es). confirms e' \<and> le_now e - le_now e' < QUORUM_TTL_S))
    \<and> (confirms e \<longrightarrow> r = None)"
proof -
  obtain m s1 where m: "mode_of True e (ask_all es (lead_start kept)) = (m, s1)" by fastforce
  with assms(2) have "m = Some Cluster_mode" by simp
  moreover have q: "ld_quorum s1 = ld_quorum (ask_all es (lead_start kept))" using mode_of_keeps [OF m] by simp
  ultimately have "(r = None \<longrightarrow> confirms e \<or> (snd (ld_quorum s1) = None \<and> le_now e - fst (ld_quorum s1) < QUORUM_TTL_S))
      \<and> (confirms e \<longrightarrow> r = None)"
    using assms(1) m by (auto simp: read_only_reason_def confirms_def Let_def split: prod.splits option.splits if_splits)
  moreover have "confirms e \<Longrightarrow> le_now e - le_now e < QUORUM_TTL_S" by (simp add: QUORUM_TTL_S_def)
  ultimately show ?thesis
    using quorum_kept [of es "lead_start kept"] q assms(3) by (auto simp: lead_start_def)
qed

theorem changes_need_fresh_quorum_witness:
  "\<exists>e s. read_only_reason e (ask_all [] (lead_start None)) = (None, s) \<and> QUORUM_TTL_S \<le> le_now e \<and> confirms e
     \<and> le_now e - le_now e < QUORUM_TTL_S"
proof -
  define e where "e = \<lparr>le_shadow = True, le_now = 9, le_mode = Some Cluster_mode, le_quorate = Some True, le_v1 = None, le_behind = []\<rparr>"
  obtain r s where rs: "read_only_reason e (ask_all [] (lead_start None)) = (r, s)" by fastforce
  have m: "fst (mode_of True e (ask_all [] (lead_start None))) = Some Cluster_mode"
    by (simp add: e_def mode_of_def lead_start_def Let_def)
  have t: "QUORUM_TTL_S \<le> le_now e" by (simp add: e_def QUORUM_TTL_S_def)
  have "confirms e" by (simp add: e_def confirms_def)
  with changes_need_fresh_quorum [OF rs m t] rs t show ?thesis by (auto simp: QUORUM_TTL_S_def)
qed

end
