(* ===== verification/Ha_Store.thy ===== *)
theory Ha_Store
  imports Prelude
begin

text \<open>
  The tables of high availability (\<^verbatim>\<open>app/repositories/sqlite/ha.py\<close>) and this node's own name
  (\<^verbatim>\<open>app/core/self_node.py\<close>).

  \<^item> The name: \<open>from_hostname\<close>, \<open>own_name\<close>; \<open>to_db\<close> and \<open>from_db\<close> translate \<open>local\<close> at the boundary of the
    tables all nodes share. Python's \<open>None\<close> for a node is the empty string.
  \<^item> The tables: the record \<open>ha_store\<close> with the protected VMs, their policies, their monitoring, the
    settings and each node's fencing, and one definition per statement. Times are numbers of seconds; an
    unreadable time of a JSON list is \<open>None\<close>. The texts written to \<open>last_action\<close> are constructors of \<open>ha_note\<close>.
  \<^item> \<open>memory_mib\<close> (\<^verbatim>\<open>app/core/ha_recovery.py\<close>) reads a definition's memory.

  Shown: the derived name is always a valid one and never \<open>local\<close>; a node written is the node read, with
  \<open>local\<close> for this one; the statements keep one row per VM, and removing a protection removes everything
  kept about the VM.
\<close>

section \<open>This node's name\<close>

definition LOCAL :: string where "LOCAL = ''local''"

definition name_char :: "char \<Rightarrow> bool" where
  "name_char c \<longleftrightarrow> is_lower c \<or> is_digit c \<or> c = CHR ''-''"

text \<open>\<open>NAME_RE\<close> of \<open>self_node\<close>.\<close>

definition self_name_ok :: "string \<Rightarrow> bool" where
  "self_name_ok s \<longleftrightarrow> 2 \<le> length s \<and> length s \<le> 63 \<and> (is_lower (hd s) \<or> is_digit (hd s))
     \<and> list_all (\<lambda>c. name_char c \<or> c = CHR ''.'') s"

definition from_hostname :: "string \<Rightarrow> string" where
  "from_hostname host =
     (let raw = str_lower (hd (split_on (CHR ''.'') host));
          name = strip_chars (\<lambda>c. c = CHR ''-'') (map (\<lambda>c. if name_char c then c else CHR ''-'') raw);
          name' = (if \<not> self_name_ok name \<or> name = LOCAL then ''node-'' @ (if name = [] then ''1'' else name) else name)
      in take 63 name')"

record self_state =
  ss_cached :: "string option"
  ss_setting :: "string option"

text \<open>\<open>name()\<close>: \<open>forced\<close> is the environment's value, already stripped and in lower case.\<close>

definition own_name :: "string \<Rightarrow> string \<Rightarrow> self_state \<Rightarrow> string + string \<times> self_state" where
  "own_name forced host s =
     (if forced \<noteq> [] then (if \<not> self_name_ok forced \<or> forced = LOCAL then Inl forced else Inr (forced, s))
      else case ss_cached s of
        Some n \<Rightarrow> Inr (n, s)
      | None \<Rightarrow>
          (case ss_setting s of
             Some n \<Rightarrow> if n \<noteq> [] then Inr (n, s\<lparr>ss_cached := Some n\<rparr>)
                       else Inr (from_hostname host, \<lparr>ss_cached = Some (from_hostname host), ss_setting = Some (from_hostname host)\<rparr>)
           | None \<Rightarrow> Inr (from_hostname host, \<lparr>ss_cached = Some (from_hostname host), ss_setting = Some (from_hostname host)\<rparr>)))"

definition forget_name :: "self_state \<Rightarrow> self_state" where
  "forget_name s = s\<lparr>ss_cached := None\<rparr>"

definition is_self :: "node_name \<Rightarrow> node_name \<Rightarrow> bool" where
  "is_self me node \<longleftrightarrow> node = [] \<or> node = LOCAL \<or> node = me"

definition to_db :: "node_name \<Rightarrow> node_name \<Rightarrow> node_name" where
  "to_db me node = (if node = [] \<or> node = LOCAL then me else node)"

definition from_db :: "node_name \<Rightarrow> node_name \<Rightarrow> node_name" where
  "from_db me node = (if node = me then LOCAL else node)"

section \<open>A definition's memory\<close>

text \<open>Of a VM's definition: its \<open>memory\<close> element with its text and its unit, when it can be read.\<close>

record domain_xml =
  dx_memory :: "(string \<times> string option) option"
  dx_rest :: string

definition int_trunc :: "rat \<Rightarrow> int" where
  "int_trunc x = (if 0 \<le> x then floor x else ceiling x)"

definition unit_factor :: "string \<Rightarrow> rat" where
  "unit_factor u =
     (if u \<in> {''b'', ''bytes''} then 1 / 1048576
      else if u \<in> {''mib'', ''m''} then 1
      else if u \<in> {''gib'', ''g''} then 1024
      else 1 / 1024)"

definition memory_mib :: "domain_xml option \<Rightarrow> int" where
  "memory_mib xml =
     (case xml of None \<Rightarrow> 0
      | Some d \<Rightarrow>
          (case dx_memory d of None \<Rightarrow> 0
           | Some (text, unit) \<Rightarrow>
               (case int_of_text text of None \<Rightarrow> 0
                | Some v \<Rightarrow>
                    let u = (case unit of None \<Rightarrow> ''KiB'' | Some w \<Rightarrow> if w = [] then ''KiB'' else w)
                    in int_trunc (of_int v * unit_factor (str_lower u)))))"

section \<open>The rows\<close>

datatype ha_state = Ha_ok | Ha_lost | Ha_fencing | Ha_recovering | Ha_manual | Ha_suspect | Ha_down | Ha_libvirt_unreachable

datatype fence_method = Ipmi | Redfish | Amt | Lease_only

datatype fence_why =
    Stopped_normally
  | Bmc_read_off fence_method
  | Watchdog_passed
  | Watchdog_waits
  | Bmc_asked_again fence_method
  | Bmc_never_confirmed fence_method
  | Nothing_proves

datatype watch_sentence =
    One_node_only
  | Two_nodes_no_witness
  | Maybe_isolated nat nat
  | No_fencing_set node_name
  | No_target
  | Would_restart fence_method node_name

datatype ha_note =
    Runs_where_started node_name node_name
  | Restarts_exhausted
  | No_member_with int
  | No_member_keeps_rules
  | Restarting_on node_name
  | Disk_still_locked node_name
  | Started_not_recorded node_name
  | Restarted_on node_name node_name "string list"
  | Not_started_elsewhere
  | Answers_again node_name
  | Stopped_when_lost node_name
  | Not_seen_for node_name
  | Member_lost node_name fence_why
  | Dry_run watch_sentence
  | Node_reachable_again
  | Not_answering node_name
  | Libvirt_silent node_name
  | Monitor_left
  | Monitor_reset
  | No_note

record protected_row =
  pr_node :: node_name
  pr_xml :: "domain_xml option"
  pr_enabled_by :: string
  pr_enabled_at :: seconds
  pr_synced_at :: seconds
  pr_state :: "ha_state option"
  pr_action :: "ha_note option"
  pr_action_at :: "seconds option"

record policy_row =
  po_priority :: string
  po_preferred :: "node_name list"
  po_restarts :: "seconds option list"

record monitoring_row =
  mo_enabled :: bool
  mo_resets :: "seconds option list"

record fencing_row =
  fe_method :: fence_method
  fe_address :: "string option"
  fe_port :: "int option"
  fe_user :: "string option"
  fe_secret :: "string option"
  fe_tls_unverified :: bool

record ha_store =
  hs_protected :: "(vm_name, protected_row) dict"
  hs_policies :: "(vm_name, policy_row) dict"
  hs_monitoring :: "(vm_name, monitoring_row) dict"
  hs_settings :: "(string, string) dict"
  hs_fencing :: "(node_name, fencing_row) dict"

definition ha_store_ok :: "ha_store \<Rightarrow> bool" where
  "ha_store_ok st \<longleftrightarrow> dict_ok (hs_protected st) \<and> dict_ok (hs_policies st) \<and> dict_ok (hs_monitoring st)
     \<and> dict_ok (hs_settings st) \<and> dict_ok (hs_fencing st)"

section \<open>Protected VMs\<close>

definition of_row :: "node_name \<Rightarrow> protected_row \<Rightarrow> protected_row" where
  "of_row me r = r\<lparr>pr_node := from_db me (pr_node r)\<rparr>"

definition protected :: "node_name \<Rightarrow> ha_store \<Rightarrow> (vm_name \<times> protected_row) list" where
  "protected me st = map (\<lambda>(v, r). (v, of_row me r)) (sort_key fst (hs_protected st))"

definition protected_vm :: "node_name \<Rightarrow> vm_name \<Rightarrow> ha_store \<Rightarrow> protected_row option" where
  "protected_vm me vm st = map_option (of_row me) (map_of (hs_protected st) vm)"

definition protect :: "node_name \<Rightarrow> vm_name \<Rightarrow> node_name \<Rightarrow> domain_xml \<Rightarrow> string \<Rightarrow> seconds \<Rightarrow> ha_store \<Rightarrow> ha_store" where
  "protect me vm node xml user now st =
     (let row = (case map_of (hs_protected st) vm of
          None \<Rightarrow> \<lparr>pr_node = to_db me node, pr_xml = Some xml, pr_enabled_by = user, pr_enabled_at = now,
                   pr_synced_at = now, pr_state = None, pr_action = None, pr_action_at = None\<rparr>
        | Some r \<Rightarrow> r\<lparr>pr_node := to_db me node, pr_xml := Some xml, pr_synced_at := now\<rparr>)
      in st\<lparr>hs_protected := dict_set vm row (hs_protected st)\<rparr>)"

definition drop_policy :: "vm_name \<Rightarrow> ha_store \<Rightarrow> ha_store" where
  "drop_policy vm st = st\<lparr>hs_policies := dict_del vm (hs_policies st)\<rparr>"

definition unprotect :: "vm_name \<Rightarrow> ha_store \<Rightarrow> ha_store" where
  "unprotect vm st =
     (let st1 = drop_policy vm (st\<lparr>hs_protected := dict_del vm (hs_protected st)\<rparr>)
      in st1\<lparr>hs_monitoring := dict_del vm (hs_monitoring st1)\<rparr>)"

definition sync_definition :: "node_name \<Rightarrow> vm_name \<Rightarrow> domain_xml \<Rightarrow> seconds \<Rightarrow> node_name option \<Rightarrow> ha_store \<Rightarrow> ha_store" where
  "sync_definition me vm xml now node st =
     st\<lparr>hs_protected := (case node of
         None \<Rightarrow> dict_alter vm (\<lambda>r. r\<lparr>pr_synced_at := now, pr_xml := Some xml\<rparr>) (hs_protected st)
       | Some n \<Rightarrow> dict_alter vm (\<lambda>r. r\<lparr>pr_node := to_db me n, pr_xml := Some xml, pr_synced_at := now\<rparr>) (hs_protected st))\<rparr>"

definition move_protected :: "node_name \<Rightarrow> vm_name \<Rightarrow> node_name \<Rightarrow> ha_store \<Rightarrow> ha_store \<times> bool" where
  "move_protected me vm node st =
     (st\<lparr>hs_protected := dict_alter vm (\<lambda>r. r\<lparr>pr_node := to_db me node\<rparr>) (hs_protected st)\<rparr>,
      map_of (hs_protected st) vm \<noteq> None)"

definition record_watch :: "vm_name \<Rightarrow> ha_state \<Rightarrow> ha_note \<Rightarrow> seconds \<Rightarrow> ha_store \<Rightarrow> ha_store" where
  "record_watch vm s a now st =
     st\<lparr>hs_protected := dict_alter vm (\<lambda>r. r\<lparr>pr_state := Some s, pr_action := Some a, pr_action_at := Some now\<rparr>) (hs_protected st)\<rparr>"

section \<open>Policies and monitoring\<close>

definition default_policy :: policy_row where
  "default_policy = \<lparr>po_priority = ''medium'', po_preferred = [], po_restarts = []\<rparr>"

definition policy :: "vm_name \<Rightarrow> ha_store \<Rightarrow> policy_row" where
  "policy vm st = (case map_of (hs_policies st) vm of None \<Rightarrow> default_policy | Some p \<Rightarrow> p)"

definition store_set_policy :: "vm_name \<Rightarrow> string \<Rightarrow> node_name list \<Rightarrow> ha_store \<Rightarrow> ha_store" where
  "store_set_policy vm prio pref st =
     st\<lparr>hs_policies := dict_set vm ((policy vm st)\<lparr>po_priority := prio, po_preferred := pref\<rparr>) (hs_policies st)\<rparr>"

definition record_restart :: "vm_name \<Rightarrow> seconds option list \<Rightarrow> ha_store \<Rightarrow> ha_store" where
  "record_restart vm restarts st =
     st\<lparr>hs_policies := dict_set vm ((policy vm st)\<lparr>po_restarts := restarts\<rparr>) (hs_policies st)\<rparr>"

definition default_monitoring :: monitoring_row where
  "default_monitoring = \<lparr>mo_enabled = False, mo_resets = []\<rparr>"

definition monitoring :: "vm_name \<Rightarrow> ha_store \<Rightarrow> monitoring_row" where
  "monitoring vm st = (case map_of (hs_monitoring st) vm of None \<Rightarrow> default_monitoring | Some m \<Rightarrow> m)"

definition set_monitoring :: "vm_name \<Rightarrow> bool \<Rightarrow> ha_store \<Rightarrow> ha_store" where
  "set_monitoring vm on st =
     st\<lparr>hs_monitoring := dict_set vm ((monitoring vm st)\<lparr>mo_enabled := on\<rparr>) (hs_monitoring st)\<rparr>"

definition record_reset :: "vm_name \<Rightarrow> seconds option list \<Rightarrow> ha_store \<Rightarrow> ha_store" where
  "record_reset vm resets st =
     st\<lparr>hs_monitoring := dict_set vm ((monitoring vm st)\<lparr>mo_resets := resets\<rparr>) (hs_monitoring st)\<rparr>"

text \<open>The times of the last hour, unreadable ones dropped: \<open>_recent_restarts\<close> and \<open>_recent\<close>.\<close>

definition recent :: "seconds \<Rightarrow> seconds option list \<Rightarrow> seconds option list" where
  "recent now ats = filter (\<lambda>a. case a of None \<Rightarrow> False | Some t \<Rightarrow> now - 3600 < t) ats"

text \<open>\<open>ha.set_policy\<close>: the names and the priority are checked, duplicates dropped.\<close>

definition NODE_NAME :: "string \<Rightarrow> bool" where
  "NODE_NAME s \<longleftrightarrow> s \<noteq> [] \<and> length s \<le> 63 \<and> is_alnum (hd s) \<and> list_all (\<lambda>c. is_alnum c \<or> c = CHR ''-'') s"

datatype policy_error = Not_a_node_name "string list" | Bad_priority

definition set_policy :: "vm_name \<Rightarrow> string \<Rightarrow> node_name list \<Rightarrow> ha_store \<Rightarrow> policy_error + ha_store" where
  "set_policy vm prio pref st =
     rbind (require (filter (\<lambda>n. \<not> NODE_NAME n) pref = []) (Not_a_node_name (filter (\<lambda>n. \<not> NODE_NAME n) pref))) (\<lambda>_.
     rbind (require (prio \<in> {''high'', ''medium'', ''low''}) Bad_priority) (\<lambda>_.
     Inr (store_set_policy vm prio (dedup pref) st)))"

section \<open>Settings and fencing\<close>

definition ha_save_settings :: "(string \<times> string) list \<Rightarrow> ha_store \<Rightarrow> ha_store" where
  "ha_save_settings vs st = st\<lparr>hs_settings := foldl (\<lambda>d (k, v). dict_set k v d) (hs_settings st) vs\<rparr>"

definition fencing :: "node_name \<Rightarrow> node_name \<Rightarrow> ha_store \<Rightarrow> fencing_row option" where
  "fencing me node st = map_of (hs_fencing st) (to_db me node)"

definition fenced_nodes :: "node_name \<Rightarrow> ha_store \<Rightarrow> node_name list" where
  "fenced_nodes me st = map (from_db me) (sort (keys (hs_fencing st)))"

definition save_fencing :: "node_name \<Rightarrow> node_name \<Rightarrow> fencing_row \<Rightarrow> ha_store \<Rightarrow> ha_store" where
  "save_fencing me node row st = st\<lparr>hs_fencing := dict_set (to_db me node) row (hs_fencing st)\<rparr>"

definition delete_fencing :: "node_name \<Rightarrow> node_name \<Rightarrow> ha_store \<Rightarrow> ha_store \<times> bool" where
  "delete_fencing me node st =
     (st\<lparr>hs_fencing := dict_del (to_db me node) (hs_fencing st)\<rparr>, map_of (hs_fencing st) (to_db me node) \<noteq> None)"

section \<open>Lemmas\<close>

lemma from_db_to_db: "from_db me (to_db me node) = (if is_self me node then LOCAL else node)"
  by (auto simp: from_db_def to_db_def is_self_def)

lemma length_recent_le: "length (recent now ats) \<le> length ats"
  by (simp add: recent_def)

lemma recent_idem [simp]: "recent now (recent now ats) = recent now ats"
  by (simp add: recent_def)

lemma ha_store_ok_ops:
  assumes "ha_store_ok st"
  shows "ha_store_ok (protect me vm node xml user now st)" "ha_store_ok (unprotect vm st)"
    "ha_store_ok (sync_definition me vm xml now on st)" "ha_store_ok (record_watch vm s a now st)"
    "ha_store_ok (store_set_policy vm prio pref st)" "ha_store_ok (record_restart vm rs st)"
    "ha_store_ok (set_monitoring vm b st)" "ha_store_ok (record_reset vm rs st)"
    "ha_store_ok (save_fencing me node row st)" "ha_store_ok (fst (delete_fencing me node st))"
    "ha_store_ok (fst (move_protected me vm node st))"
  using assms
  by (simp_all add: ha_store_ok_def protect_def unprotect_def drop_policy_def sync_definition_def record_watch_def
      store_set_policy_def record_restart_def set_monitoring_def record_reset_def save_fencing_def delete_fencing_def
      move_protected_def Let_def split: option.splits)

subsection \<open>The derived name\<close>

lemma strip_chars_set: "set (strip_chars p s) \<subseteq> set s"
  unfolding strip_chars_def by (metis set_dropWhileD set_rev subsetI)

lemma list_all_strip: "list_all P s \<Longrightarrow> list_all P (strip_chars p s)"
  using strip_chars_set [of p s] by (auto simp: list_all_iff)

lemma node_prefix_valid:
  assumes "list_all name_char s" and "s \<noteq> []"
  shows "self_name_ok (take 63 (''node-'' @ s)) \<and> take 63 (''node-'' @ s) \<noteq> LOCAL"
proof -
  have "list_all (\<lambda>c. name_char c \<or> c = CHR ''.'') (take 63 (''node-'' @ s))"
    using assms(1) by (auto simp: list_all_iff name_char_def is_lower_def less_eq_char_def dest!: in_set_takeD)
  moreover have "2 \<le> length (take 63 (''node-'' @ s))" by simp
  ultimately show ?thesis
    by (simp add: self_name_ok_def LOCAL_def is_lower_def less_eq_char_def)
qed

section \<open>Properties\<close>

text \<open>Whatever the host is called, the name derived from it is a valid node name and is never
  \<open>local\<close>: it can be written in the tables the nodes share.\<close>

theorem hostname_gives_valid_name:
  "self_name_ok (from_hostname host) \<and> from_hostname host \<noteq> LOCAL"
proof -
  let ?raw = "map (\<lambda>c. if name_char c then c else CHR ''-'') (str_lower (hd (split_on (CHR ''.'') host)))"
  let ?name = "strip_chars (\<lambda>c. c = CHR ''-'') ?raw"
  have "name_char (if name_char c then c else CHR ''-'')" for c by (simp add: name_char_def)
  then have "list_all name_char ?raw" unfolding list.pred_map by (simp add: list.pred_True comp_def)
  then have chars: "list_all name_char ?name" by (rule list_all_strip)
  show ?thesis
  proof (cases "self_name_ok ?name \<and> ?name \<noteq> LOCAL")
    case True
    then have "length ?name \<le> 63" by (simp add: self_name_ok_def)
    with True show ?thesis by (simp add: from_hostname_def Let_def)
  next
    case False
    then have "from_hostname host = take 63 (''node-'' @ (if ?name = [] then ''1'' else ?name))"
      unfolding from_hostname_def Let_def by auto
    moreover have "list_all name_char ''1''" by (simp add: name_char_def is_digit_def less_eq_char_def)
    ultimately show ?thesis using node_prefix_valid [of "''1''"] node_prefix_valid [OF chars] by (cases "?name = []") simp_all
  qed
qed

text \<open>A protection is read back where it was written: a VM protected on a node is listed on that node
  (\<open>local\<close> for this one) with the definition given, keeping what the record held before of its state; its
  removal leaves no row, no policy and no monitoring of it; and neither touches another VM.\<close>

theorem protection_round_trip:
  "(\<exists>r. protected_vm me vm (protect me vm node xml user now st) = Some r
        \<and> pr_node r = (if is_self me node then LOCAL else node) \<and> pr_xml r = Some xml
        \<and> pr_state r = (case map_of (hs_protected st) vm of None \<Rightarrow> None | Some old \<Rightarrow> pr_state old))
   \<and> protected_vm me vm (unprotect vm st) = None
   \<and> policy vm (unprotect vm st) = default_policy \<and> monitoring vm (unprotect vm st) = default_monitoring
   \<and> (other = vm \<or> (protected_vm me other (protect me vm node xml user now st) = protected_vm me other st
        \<and> protected_vm me other (unprotect vm st) = protected_vm me other st \<and> policy other (unprotect vm st) = policy other st))"
  by (auto simp: protected_vm_def protect_def unprotect_def drop_policy_def policy_def monitoring_def of_row_def
      from_db_to_db Let_def split: option.splits)

end
