(* ===== verification/Py_Text.thy ===== *)
theory Py_Text
  imports Prelude
begin

text \<open>
  The text operations of Python's standard library that several components use, on ASCII strings:
  \<open>str.replace\<close>, \<open>str.splitlines\<close>, a regular expression's \<open>$\<close> (which also matches before a final newline),
  and the addresses \<^verbatim>\<open>ipaddress.ip_address\<close> accepts.

  Shown: replacing a secret without the replacement's character leaves no occurrence of it.
\<close>

abbreviation newline :: char where "newline \<equiv> CHR 0x0A"

section \<open>Replace\<close>

text \<open>\<open>s.replace(old, new)\<close> for \<open>old\<close> not empty: left to right, without overlaps.\<close>

function py_replace :: "string \<Rightarrow> string \<Rightarrow> string \<Rightarrow> string" where
  "py_replace old new s =
     (if s = [] \<or> old = [] then s
      else if prefix old s then new @ py_replace old new (drop (length old) s)
      else hd s # py_replace old new (tl s))"
  by pat_completeness auto
termination
  by (relation "measure (\<lambda>(_, _, s). length s)") auto

declare py_replace.simps [simp del]

lemma py_replace_Nil [simp]: "py_replace old new [] = []"
  by (subst py_replace.simps) simp

lemma py_replace_Cons:
  "old \<noteq> [] \<Longrightarrow> py_replace old new (c # s) =
     (if prefix old (c # s) then new @ py_replace old new (drop (length old) (c # s)) else c # py_replace old new s)"
  by (subst py_replace.simps) simp

lemma py_replace_prefix:
  assumes "old \<noteq> []" and "x \<notin> set u" and "new \<noteq> []" and "set new = {x}" and "prefix u (py_replace old new s)"
  shows "prefix u s"
  using assms
proof (induction s arbitrary: u)
  case Nil
  then show ?case by simp
next
  case (Cons c s)
  show ?case
  proof (cases "prefix old (c # s)")
    case True
    with Cons.prems have "prefix u (new @ py_replace old new (drop (length old) (c # s)))"
      by (simp add: py_replace_Cons)
    moreover have "hd new = x" using Cons.prems(3,4) by (cases new) auto
    ultimately have "u = []"
      using Cons.prems(2,3) by (cases u; cases new) auto
    then show ?thesis by simp
  next
    case False
    with Cons show ?thesis by (cases u) (auto simp: py_replace_Cons)
  qed
qed

lemma py_replace_no_old:
  assumes "old \<noteq> []" and "x \<notin> set old" and "new \<noteq> []" and "set new = {x}"
  shows "\<not> sublist old (py_replace old new s)"
proof (induction "length s" arbitrary: s rule: less_induct)
  case less
  show ?case
  proof (cases s)
    case Nil
    with assms(1) show ?thesis by simp
  next
    case (Cons c r)
    show ?thesis
    proof (cases "prefix old s")
      case True
      have "length (drop (length old) s) < length s" using assms(1) Cons by (cases old) auto
      then have rest: "\<not> sublist old (py_replace old new (drop (length old) s))" by (rule less)
      have "\<not> sublist old (n @ py_replace old new (drop (length old) s))" if "set n \<subseteq> {x}" for n
        using that
      proof (induction n)
        case Nil
        with rest show ?case by simp
      next
        case (Cons d n)
        with assms(1,2) show ?case by (cases old) (auto simp: sublist_Cons_right)
      qed
      with assms(4) True Cons assms(1) show ?thesis by (simp add: py_replace_Cons)
    next
      case False
      then have eq: "py_replace old new s = c # py_replace old new r" using Cons assms(1) by (simp add: py_replace_Cons)
      have "\<not> sublist old (py_replace old new r)" using less Cons by simp
      moreover have "\<not> prefix old (py_replace old new s)"
        using py_replace_prefix [OF assms(1) assms(2) assms(3,4)] False by blast
      ultimately show ?thesis unfolding eq by (simp add: sublist_Cons_right)
    qed
  qed
qed

section \<open>Lines\<close>

definition is_line_break :: "char \<Rightarrow> bool" where
  "is_line_break c \<longleftrightarrow> (10 \<le> (of_char c :: nat) \<and> (of_char c :: nat) \<le> 13) \<or> (28 \<le> (of_char c :: nat) \<and> (of_char c :: nat) \<le> 30)"

fun splitlines_from :: "string \<Rightarrow> string \<Rightarrow> string list" where
  "splitlines_from acc [] = (if acc = [] then [] else [rev acc])"
| "splitlines_from acc (c # cs) =
     (if is_line_break c
      then rev acc # (case cs of
             [] \<Rightarrow> []
           | d # ds \<Rightarrow> if c = CHR 0x0D \<and> d = newline then splitlines_from [] ds else splitlines_from [] cs)
      else splitlines_from (c # acc) cs)"

definition splitlines :: "string \<Rightarrow> string list" where
  "splitlines s = splitlines_from [] s"

text \<open>\<open>P$\<close> with \<open>re.match\<close>: the whole string, or all of it but a final newline.\<close>

definition re_dollar :: "(string \<Rightarrow> bool) \<Rightarrow> string \<Rightarrow> bool" where
  "re_dollar P s \<longleftrightarrow> P s \<or> (s \<noteq> [] \<and> last s = newline \<and> P (butlast s))"

section \<open>Addresses\<close>

definition octet_ok :: "string \<Rightarrow> bool" where
  "octet_ok p \<longleftrightarrow> str_isdigit p \<and> length p \<le> 3 \<and> (length p = 1 \<or> hd p \<noteq> CHR ''0'') \<and> nat_of_digits p \<le> 255"

definition ipv4_ok :: "string \<Rightarrow> bool" where
  "ipv4_ok s \<longleftrightarrow> (let ps = split_on (CHR ''.'') s in length ps = 4 \<and> list_all octet_ok ps)"

definition is_hex :: "char \<Rightarrow> bool" where
  "is_hex c \<longleftrightarrow> is_digit c \<or> (CHR ''a'' \<le> c \<and> c \<le> CHR ''f'') \<or> (CHR ''A'' \<le> c \<and> c \<le> CHR ''F'')"

definition hextet_ok :: "string \<Rightarrow> bool" where
  "hextet_ok p \<longleftrightarrow> p \<noteq> [] \<and> list_all is_hex p \<and> length p \<le> 4"

text \<open>The parts of an IPv6 address, after a dotted quad at its end was replaced by its two parts.\<close>

definition ipv6_parts_ok :: "string list \<Rightarrow> bool" where
  "ipv6_parts_ok ps \<longleftrightarrow>
     (let n = length ps; inner = filter (\<lambda>i. ps ! i = []) [1..<n - 1] in
      n \<le> 9 \<and> length inner \<le> 1 \<and>
      (case inner of
         [] \<Rightarrow> n = 8 \<and> list_all hextet_ok ps
       | k # _ \<Rightarrow>
           (let hi = (if hd ps = [] then k - 1 else k);
                lo = (if last ps = [] then n - k - 2 else n - k - 1) in
            (hd ps = [] \<longrightarrow> hi = 0) \<and> (last ps = [] \<longrightarrow> lo = 0) \<and> hi + lo \<le> 7
            \<and> list_all hextet_ok (take hi ps) \<and> list_all hextet_ok (drop (n - lo) ps))))"

definition ipv6_ok :: "string \<Rightarrow> bool" where
  "ipv6_ok s \<longleftrightarrow>
     CHR ''/'' \<notin> set s \<and>
     (let (addr, scope) = partition_on (CHR ''%'') s; ps = split_on (CHR '':'') addr in
      (CHR ''%'' \<in> set s \<longrightarrow> scope \<noteq> [] \<and> CHR ''%'' \<notin> set scope)
      \<and> 3 \<le> length ps
      \<and> (if CHR ''.'' \<in> set (last ps) then ipv4_ok (last ps) \<and> ipv6_parts_ok (butlast ps @ [''0'', ''0'']) else ipv6_parts_ok ps))"

definition is_ip_address :: "string \<Rightarrow> bool" where
  "is_ip_address s \<longleftrightarrow> ipv4_ok s \<or> ipv6_ok s"

text \<open>The host names of \<open>HOST_RE\<close>.\<close>

definition label_ok :: "string \<Rightarrow> bool" where
  "label_ok p \<longleftrightarrow> p \<noteq> [] \<and> length p \<le> 63 \<and> is_alnum (hd p) \<and> is_alnum (last p) \<and> list_all (\<lambda>c. is_alnum c \<or> c = CHR ''-'') p"

definition host_name_ok :: "string \<Rightarrow> bool" where
  "host_name_ok s \<longleftrightarrow> length s \<le> 253 \<and> list_all label_ok (split_on (CHR ''.'') s)"

definition valid_host :: "string \<Rightarrow> bool" where
  "valid_host s \<longleftrightarrow> is_ip_address s \<or> re_dollar host_name_ok s"

end
