(* ===== verification/Ha_Fencing.thy ===== *)
theory Ha_Fencing
  imports Ha_Store Py_Text
begin

text \<open>
  Per-node fencing: \<^verbatim>\<open>app/core/ha_fencing.py\<close>.

  \<open>save\<close> stores a node's fencing way with its password sealed (\<open>encrypt\<close> and \<open>decrypt\<close> of
  \<^verbatim>\<open>app/core/secrets_crypto.py\<close> rest on a third-party library: they are parameters). \<open>run_agent\<close> runs the
  fence agent of a fencing way with its options on standard input; what the agent did is a parameter, \<open>agent\<close>,
  a function of the attempt. \<open>power_off\<close> powers the node off, then reads its power state every five seconds
  until it is off or a minute passed; its loop carries a number of readings as fuel.

  Shown: what an administrator's settings put on the agent's standard input are exactly the options of the
  fencing way, one per line; no detail returned or logged holds the password; \<open>power_off\<close> says fenced only when
  a reading said off, and always ends.
\<close>

section \<open>Settings\<close>

definition USER_RE :: "string \<Rightarrow> bool" where
  "USER_RE = re_dollar (\<lambda>s. s \<noteq> [] \<and> length s \<le> 64
     \<and> list_all (\<lambda>c. is_alnum c \<or> c \<in> {CHR ''_'', CHR ''.'', CHR ''@'', CHR 0x5C, CHR ''-''}) s)"

definition IPMI_PASSWORD_MAX :: nat where "IPMI_PASSWORD_MAX = 20"

definition METHODS :: "(string \<times> fence_method) list" where
  "METHODS = [(''ipmi'', Ipmi), (''redfish'', Redfish), (''amt'', Amt), (''lease_only'', Lease_only)]"

definition AGENTS :: "fence_method \<Rightarrow> string option" where
  "AGENTS m = (case m of Ipmi \<Rightarrow> Some ''fence_ipmilan'' | Redfish \<Rightarrow> Some ''fence_redfish''
     | Amt \<Rightarrow> Some ''fence_amt_ws'' | Lease_only \<Rightarrow> None)"

definition PACKAGES :: "fence_method \<Rightarrow> string option" where
  "PACKAGES m = (case m of Ipmi \<Rightarrow> Some ''fence-agents-ipmilan'' | Redfish \<Rightarrow> Some ''fence-agents-redfish'' | _ \<Rightarrow> None)"

datatype fencing_error =
    Unknown_method string
  | Bad_address
  | Bad_port
  | Bad_user
  | Password_too_long
  | Password_needed
  | Secret_unreadable
  | No_fencing

definition validate_fencing :: "string \<Rightarrow> string option \<Rightarrow> int option \<Rightarrow> string option \<Rightarrow> fencing_error option" where
  "validate_fencing m address port user =
     (case map_of METHODS m of
        None \<Rightarrow> Some (Unknown_method m)
      | Some Lease_only \<Rightarrow> None
      | Some _ \<Rightarrow>
          (if \<not> (case address of None \<Rightarrow> False | Some a \<Rightarrow> a \<noteq> [] \<and> valid_host a) then Some Bad_address
           else if (case port of None \<Rightarrow> False | Some p \<Rightarrow> \<not> (1 \<le> p \<and> p \<le> 65535)) then Some Bad_port
           else if \<not> (case user of None \<Rightarrow> False | Some u \<Rightarrow> u \<noteq> [] \<and> USER_RE u) then Some Bad_user
           else None))"

text \<open>\<open>get\<close>: the settings without the password.\<close>

record fencing_view =
  fv_method :: fence_method
  fv_address :: "string option"
  fv_port :: "int option"
  fv_user :: "string option"
  fv_secret_set :: bool
  fv_tls_unverified :: bool

definition get_fencing :: "node_name \<Rightarrow> node_name \<Rightarrow> ha_store \<Rightarrow> fencing_view option" where
  "get_fencing me node st = map_option (\<lambda>r. \<lparr>fv_method = fe_method r, fv_address = fe_address r, fv_port = fe_port r,
     fv_user = fe_user r, fv_secret_set = (case fe_secret r of None \<Rightarrow> False | Some s \<Rightarrow> s \<noteq> []),
     fv_tls_unverified = fe_tls_unverified r\<rparr>) (fencing me node st)"

definition list_fencing :: "node_name \<Rightarrow> ha_store \<Rightarrow> fencing_view option list" where
  "list_fencing me st = map (\<lambda>n. get_fencing me n st) (fenced_nodes me st)"

text \<open>\<open>save\<close>: \<open>secret\<close> missing or empty keeps the stored password.\<close>

definition save_fence :: "(string \<Rightarrow> string) \<Rightarrow> node_name \<Rightarrow> node_name \<Rightarrow> string \<Rightarrow> string option \<Rightarrow> int option \<Rightarrow> string option
    \<Rightarrow> string option \<Rightarrow> bool \<Rightarrow> ha_store \<Rightarrow> fencing_error + (ha_store \<times> fencing_view option)" where
  "save_fence encrypt me node m address port user secret tls st =
     (case validate_fencing m address port user of
        Some e \<Rightarrow> Inl e
      | None \<Rightarrow>
          (let given = (case secret of None \<Rightarrow> None | Some s \<Rightarrow> if s = [] then None else Some s) in
           rbind (require (\<not> (m = ''ipmi'' \<and> (case given of None \<Rightarrow> False | Some s \<Rightarrow> IPMI_PASSWORD_MAX < length s)))
                    Password_too_long) (\<lambda>_.
           let stored = (case given of Some s \<Rightarrow> Some (encrypt s) | None \<Rightarrow> Option.bind (fencing me node st) fe_secret);
               meth = the (map_of METHODS m)
           in (if meth = Lease_only
               then let st' = save_fencing me node \<lparr>fe_method = Lease_only, fe_address = None, fe_port = None, fe_user = None,
                                fe_secret = None, fe_tls_unverified = tls\<rparr> st
                    in Inr (st', get_fencing me node st')
               else if (case stored of None \<Rightarrow> True | Some s \<Rightarrow> s = []) then Inl Password_needed
               else let st' = save_fencing me node \<lparr>fe_method = meth, fe_address = address, fe_port = port, fe_user = user,
                                fe_secret = stored, fe_tls_unverified = tls\<rparr> st
                    in Inr (st', get_fencing me node st')))))"

section \<open>The fence agent\<close>

definition options :: "(string \<Rightarrow> string option) \<Rightarrow> fencing_row \<Rightarrow> string \<Rightarrow> fencing_error + string list" where
  "options decrypt row action =
     rbind (some_or Secret_unreadable (decrypt (case fe_secret row of None \<Rightarrow> [] | Some s \<Rightarrow> s))) (\<lambda>secret.
     Inr ([''action='' @ action, ''ip='' @ (case fe_address row of None \<Rightarrow> ''None'' | Some a \<Rightarrow> a),
           ''username='' @ (case fe_user row of None \<Rightarrow> ''None'' | Some u \<Rightarrow> u), ''password='' @ secret]
          @ (case fe_port row of None \<Rightarrow> [] | Some p \<Rightarrow> if p = 0 then [] else [''ipport='' @ str_of_nat (nat p)])
          @ (if fe_method row = Ipmi then [''lanplus=1''] else [])
          @ (if fe_method row = Redfish \<or> fe_method row = Amt
             then ''ssl=1'' # (if fe_tls_unverified row then [''ssl_insecure=1''] else []) else [])))"

definition agent_input :: "(string \<Rightarrow> string option) \<Rightarrow> fencing_row \<Rightarrow> string \<Rightarrow> fencing_error + string" where
  "agent_input decrypt row action =
     rbind (options decrypt row action) (\<lambda>lines. Inr (join_with newline lines @ [newline]))"

definition without_secret :: "(string \<Rightarrow> string option) \<Rightarrow> fencing_row \<Rightarrow> string \<Rightarrow> string" where
  "without_secret decrypt row text =
     (let secret = (case decrypt (case fe_secret row of None \<Rightarrow> [] | Some s \<Rightarrow> s) of None \<Rightarrow> [] | Some s \<Rightarrow> s);
          message = join_with (CHR '' '') (map strip (filter (\<lambda>l. strip l \<noteq> []) (splitlines text)));
          clean = (if secret \<noteq> [] then py_replace secret ''***'' message else message)
      in drop (length clean - 300) clean)"

text \<open>What running an agent came to: its output (standard output and error) or why there is none.\<close>

datatype agent_result = Not_installed | Timed_out | Os_error | Exited string nat

datatype problem = Not_packaged string | Install_it string string | No_answer string | Could_not_run string

definition run_agent :: "(string \<Rightarrow> string option) \<Rightarrow> fencing_row \<Rightarrow> string \<Rightarrow> agent_result \<Rightarrow> fencing_error + (problem + string)" where
  "run_agent decrypt row action result =
     (case AGENTS (fe_method row) of
        None \<Rightarrow> Inl No_fencing
      | Some agent \<Rightarrow>
          (case result of
             Not_installed \<Rightarrow>
               (case PACKAGES (fe_method row) of
                  None \<Rightarrow> Inr (Inl (Not_packaged agent))
                | Some p \<Rightarrow> Inr (Inl (Install_it agent p)))
           | _ \<Rightarrow>
               rbind (agent_input decrypt row action) (\<lambda>_.
               case result of
                 Timed_out \<Rightarrow> Inr (Inl (No_answer (case fe_address row of None \<Rightarrow> ''None'' | Some a \<Rightarrow> a)))
               | Os_error \<Rightarrow> Inr (Inl (Could_not_run agent))
               | Exited out code \<Rightarrow>
                   Inr (Inr (if strip out \<noteq> [] then out else agent @ '' exited with code '' @ str_of_nat code))
               | Not_installed \<Rightarrow> Inr (Inl (Not_packaged agent)))))"

text \<open>\<open>Status:\s*(ON|OFF)\<close>, the first place it occurs, in any case.\<close>

datatype power = Power_on | Power_off

definition power_at :: "string \<Rightarrow> power option" where
  "power_at s =
     (if prefix ''status:'' s
      then let t = dropWhile is_blank (drop 7 s)
           in if prefix ''on'' t then Some Power_on else if prefix ''off'' t then Some Power_off else None
      else None)"

fun power_search :: "string \<Rightarrow> power option" where
  "power_search [] = power_at []"
| "power_search (c # s) = (case power_at (c # s) of Some p \<Rightarrow> Some p | None \<Rightarrow> power_search s)"

definition power_state :: "string \<Rightarrow> power option" where
  "power_state out = power_search (str_lower out)"

datatype detail =
    Leases_only
  | Power_read string
  | Agent_problem problem
  | Agent_said string
  | No_bmc_set
  | Powered_off string
  | Not_confirmed string detail

record test_result =
  te_ok :: bool
  te_power :: "power option"
  te_detail :: detail

definition test_fencing :: "(string \<Rightarrow> string option) \<Rightarrow> node_name \<Rightarrow> node_name \<Rightarrow> agent_result \<Rightarrow> ha_store
    \<Rightarrow> fencing_error + test_result" where
  "test_fencing decrypt me node result st =
     rbind (some_or No_fencing (fencing me node st)) (\<lambda>row.
     case AGENTS (fe_method row) of
       None \<Rightarrow> Inr \<lparr>te_ok = True, te_power = None, te_detail = Leases_only\<rparr>
     | Some agent \<Rightarrow>
         rbind (run_agent decrypt row ''status'' result) (\<lambda>r.
         case r of
           Inl p \<Rightarrow> Inr \<lparr>te_ok = False, te_power = None, te_detail = Agent_problem p\<rparr>
         | Inr out \<Rightarrow>
             (case power_state out of
                Some p \<Rightarrow> Inr \<lparr>te_ok = True, te_power = Some p, te_detail = Power_read agent\<rparr>
              | None \<Rightarrow> Inr \<lparr>te_ok = False, te_power = None, te_detail = Agent_said (without_secret decrypt row out)\<rparr>)))"

section \<open>Powering a node off\<close>

definition OFF_CONFIRM_S :: seconds where "OFF_CONFIRM_S = 60"
definition OFF_POLL_S :: seconds where "OFF_POLL_S = 5"

record off_result =
  of_fenced :: bool
  of_detail :: detail

text \<open>What a run said: a problem, or the agent's words without the password.\<close>

definition said :: "(string \<Rightarrow> string option) \<Rightarrow> fencing_row \<Rightarrow> problem + string \<Rightarrow> detail" where
  "said decrypt row r = (case r of Inl p \<Rightarrow> Agent_problem p | Inr out \<Rightarrow> Agent_said (without_secret decrypt row out))"

definition said_or :: "detail \<Rightarrow> detail \<Rightarrow> detail" where
  "said_or d prev = (if d = Agent_said [] then prev else d)"

text \<open>The loop of readings: \<open>agent k\<close> is what the \<open>k\<close>-th reading's agent did, \<open>clock k\<close> the time after it.
  \<open>None\<close>: the fuel was not enough.\<close>

fun confirm_off :: "(string \<Rightarrow> string option) \<Rightarrow> fencing_row \<Rightarrow> string \<Rightarrow> (nat \<Rightarrow> agent_result) \<Rightarrow> (nat \<Rightarrow> seconds) \<Rightarrow> seconds
    \<Rightarrow> nat \<Rightarrow> nat \<Rightarrow> detail \<Rightarrow> (fencing_error + off_result) option" where
  "confirm_off decrypt row agent_name agent clock deadline 0 k prev = None"
| "confirm_off decrypt row agent_name agent clock deadline (Suc fuel) k prev =
     (case run_agent decrypt row ''status'' (agent k) of
        Inl e \<Rightarrow> Some (Inl e)
      | Inr r \<Rightarrow>
          (if (case r of Inl _ \<Rightarrow> False | Inr out \<Rightarrow> power_state out = Some Power_off)
           then Some (Inr \<lparr>of_fenced = True, of_detail = Powered_off agent_name\<rparr>)
           else let prev2 = said_or (said decrypt row r) prev
                in if deadline \<le> clock k then Some (Inr \<lparr>of_fenced = False, of_detail = Not_confirmed agent_name prev2\<rparr>)
                   else confirm_off decrypt row agent_name agent clock deadline fuel (Suc k) prev2))"

definition power_off :: "(string \<Rightarrow> string option) \<Rightarrow> nat \<Rightarrow> node_name \<Rightarrow> node_name \<Rightarrow> agent_result \<Rightarrow> seconds \<Rightarrow> (nat \<Rightarrow> agent_result)
    \<Rightarrow> (nat \<Rightarrow> seconds) \<Rightarrow> ha_store \<Rightarrow> (fencing_error + off_result) option" where
  "power_off decrypt fuel me node off_run started agent clock st =
     (case fencing me node st of
        None \<Rightarrow> Some (Inr \<lparr>of_fenced = False, of_detail = No_bmc_set\<rparr>)
      | Some row \<Rightarrow>
          (case AGENTS (fe_method row) of
             None \<Rightarrow> Some (Inr \<lparr>of_fenced = False, of_detail = No_bmc_set\<rparr>)
           | Some name \<Rightarrow>
               (case run_agent decrypt row ''off'' off_run of
                  Inl e \<Rightarrow> Some (Inl e)
                | Inr r \<Rightarrow> confirm_off decrypt row name agent clock (started + OFF_CONFIRM_S) fuel 0 (said decrypt row r))))"

section \<open>Lemmas\<close>

text \<open>A newline at most at the end.\<close>

definition one_line :: "string \<Rightarrow> bool" where
  "one_line w \<longleftrightarrow> newline \<notin> set (butlast w)"

lemma one_line_cases: "one_line w \<Longrightarrow> w \<noteq> [] \<Longrightarrow> newline \<notin> set w \<or> (\<exists>p. w = p @ [newline] \<and> newline \<notin> set p)"
  by (cases w rule: rev_cases) (auto simp: one_line_def)

lemma split_one_line:
  assumes "one_line w" and "w \<noteq> []" and "hd w \<noteq> newline"
  shows "filter (\<lambda>l. l \<noteq> []) (split_on newline (w @ newline # s)) =
     takeWhile (\<lambda>c. c \<noteq> newline) w # filter (\<lambda>l. l \<noteq> []) (split_on newline s)"
  using one_line_cases [OF assms(1,2)]
proof (elim disjE exE conjE)
  assume "newline \<notin> set w"
  moreover from this have tw: "takeWhile (\<lambda>c. c \<noteq> newline) w = w" by (auto simp: takeWhile_eq_all_conv)
  ultimately show ?thesis unfolding tw using assms(2) by (simp add: split_on_sep)
next
  fix p assume p: "w = p @ [newline]" "newline \<notin> set p"
  then have "takeWhile (\<lambda>c. c \<noteq> newline) w = p" "p \<noteq> []" using assms(3) by (auto simp: takeWhile_tail)
  with p show ?thesis by (simp add: split_on_sep)
qed

lemma split_lines:
  "\<forall>w \<in> set ws. one_line w \<and> w \<noteq> [] \<and> hd w \<noteq> newline \<Longrightarrow> ws \<noteq> [] \<Longrightarrow>
     filter (\<lambda>l. l \<noteq> []) (split_on newline (join_with newline ws @ [newline])) = map (takeWhile (\<lambda>c. c \<noteq> newline)) ws"
proof (induction ws)
  case Nil
  then show ?case by simp
next
  case (Cons w ws)
  show ?case
  proof (cases ws)
    case Nil
    with Cons.prems split_one_line [of w "[]"] show ?thesis by simp
  next
    case (Cons v vs)
    with Cons.IH Cons.prems split_one_line [of w "join_with newline ws @ [newline]"] show ?thesis by simp
  qed
qed

lemma one_line_append: "newline \<notin> set t \<Longrightarrow> one_line w \<Longrightarrow> one_line (t @ w)"
  by (auto simp: one_line_def butlast_append dest: in_set_butlastD)

lemma re_dollar_one_line:
  assumes "re_dollar P s" and "\<And>t. P t \<Longrightarrow> newline \<notin> set t"
  shows "one_line s"
  using assms by (auto simp: re_dollar_def one_line_def dest: in_set_butlastD)

lemma split_on_set: "x \<in> set s \<Longrightarrow> x \<noteq> c \<Longrightarrow> \<exists>p \<in> set (split_on c s). x \<in> set p"
  by (induction s) (auto split: list.splits if_splits)

lemma newline_not_alnum: "\<not> is_alnum newline"
  by (simp add: is_alnum_def is_digit_def is_lower_def is_upper_def less_eq_char_def)

lemma host_name_no_newline: "host_name_ok s \<Longrightarrow> newline \<notin> set s"
proof
  assume "host_name_ok s" and "newline \<in> set s"
  moreover from this(2) obtain p where "p \<in> set (split_on (CHR ''.'') s)" "newline \<in> set p"
    using split_on_set [of newline s "CHR ''.''"] by auto
  ultimately show False using newline_not_alnum by (auto simp: host_name_ok_def label_ok_def list_all_iff)
qed

lemma user_one_line: "USER_RE u \<Longrightarrow> one_line u"
  unfolding USER_RE_def by (erule re_dollar_one_line) (use newline_not_alnum in \<open>auto simp: list_all_iff\<close>)

lemma no_newline_one_line: "newline \<notin> set w \<Longrightarrow> one_line w"
  by (auto simp: one_line_def dest: in_set_butlastD)

lemma str_of_nat_no_newline: "newline \<notin> set (str_of_nat n)"
  using digits_str_of_nat [of n] newline_not_alnum by (auto simp: list_all_iff is_alnum_def)

lemma options_one_line:
  assumes "options decrypt row action = Inr opts" and "decrypt (the (fe_secret row)) = Some secret" and "fe_secret row \<noteq> None"
    and "newline \<notin> set secret" "newline \<notin> set action" "fe_address row = Some a" "one_line a" "fe_user row = Some u" "one_line u"
  shows "\<forall>w \<in> set opts. one_line w \<and> w \<noteq> [] \<and> hd w \<noteq> newline"
proof -
  have t: "one_line (t @ w)" if "newline \<notin> set t" "one_line w" for t w using one_line_append that .
  have "one_line (''action='' @ action)" "one_line (''ip='' @ a)" "one_line (''username='' @ u)"
    "one_line (''password='' @ secret)" "one_line (''ipport='' @ str_of_nat n)" "one_line ''lanplus=1''" "one_line ''ssl=1''"
    "one_line ''ssl_insecure=1''" for n
    using assms(4-9) by (simp_all add: t no_newline_one_line str_of_nat_no_newline del: append.simps)
  with assms(1-3,6,8) show ?thesis
    by (auto simp: options_def simp del: append.simps split: option.splits if_splits)
qed

section \<open>Properties\<close>

text \<open>Settings that \<open>validate\<close> accepts put on the agent's standard input exactly the options of the
  fencing way, one per line and no other: neither the user name nor a host name nor the port can add one. (The
  password must be one line; so must an address that is no host name.)\<close>

theorem agent_input_is_the_options:
  assumes "validate_fencing m (fe_address row) (fe_port row) (fe_user row) = None"
    and "map_of METHODS m = Some (fe_method row)" and "fe_method row \<noteq> Lease_only"
    and "decrypt (the (fe_secret row)) = Some secret" and "fe_secret row \<noteq> None"
    and "newline \<notin> set secret" and "newline \<notin> set action"
    and "re_dollar host_name_ok (the (fe_address row)) \<or> newline \<notin> set (the (fe_address row))"
  shows "\<exists>opts input. options decrypt row action = Inr opts \<and> agent_input decrypt row action = Inr input
    \<and> filter (\<lambda>l. l \<noteq> []) (split_on newline input) = map (takeWhile (\<lambda>c. c \<noteq> newline)) opts"
proof -
  obtain a where a: "fe_address row = Some a" using assms(1,2,3)
    by (auto simp: validate_fencing_def split: fence_method.splits option.splits if_splits)
  obtain u where u: "fe_user row = Some u" "USER_RE u" using assms(1,2,3)
    by (auto simp: validate_fencing_def split: fence_method.splits option.splits if_splits)
  obtain k where k: "fe_secret row = Some k" using assms(5) by auto
  have "one_line a" using assms(8) a re_dollar_one_line host_name_no_newline no_newline_one_line by auto
  moreover have "one_line u" using user_one_line u(2) .
  moreover obtain opts where opts: "options decrypt row action = Inr opts" using assms(4) k by (simp add: options_def)
  ultimately have "\<forall>w \<in> set opts. one_line w \<and> w \<noteq> [] \<and> hd w \<noteq> newline"
    using options_one_line [OF opts] assms(4,6,7) a u(1) k by simp
  moreover have "opts \<noteq> []" using opts assms(4) k by (auto simp: options_def)
  ultimately show ?thesis using opts split_lines by (auto simp: agent_input_def)
qed

definition sample_fencing :: fencing_row where
  "sample_fencing = \<lparr>fe_method = Ipmi, fe_address = Some ''bmc1'', fe_port = None, fe_user = Some ''root'',
     fe_secret = Some ''sealed'', fe_tls_unverified = False\<rparr>"

lemma sample_fencing_valid: "validate_fencing ''ipmi'' (Some ''bmc1'') None (Some ''root'') = None" "host_name_ok ''bmc1''"
  by code_simp+

theorem agent_input_is_the_options_witness:
  "\<exists>opts input. options (\<lambda>_. Some ''pw'') sample_fencing ''off'' = Inr opts
     \<and> agent_input (\<lambda>_. Some ''pw'') sample_fencing ''off'' = Inr input
     \<and> filter (\<lambda>l. l \<noteq> []) (split_on newline input) = map (takeWhile (\<lambda>c. c \<noteq> newline)) opts"
  by (rule agent_input_is_the_options [where m = "''ipmi''" and secret = "''pw''"])
    (use sample_fencing_valid in \<open>auto simp: sample_fencing_def METHODS_def re_dollar_def\<close>)

text \<open>An address that \<open>validate\<close> accepts can add an option to the agent's input: a scoped IPv6 address
  takes anything after its \<open>%\<close>, a newline included.\<close>

theorem scoped_address_adds_option:
  "\<exists>address opts input. validate_fencing ''ipmi'' (Some address) None (Some ''root'') = None
     \<and> options (\<lambda>_. Some ''pw'') (sample_fencing\<lparr>fe_address := Some address\<rparr>) ''status'' = Inr opts
     \<and> agent_input (\<lambda>_. Some ''pw'') (sample_fencing\<lparr>fe_address := Some address\<rparr>) ''status'' = Inr input
     \<and> ''action=off'' \<in> set (split_on newline input) \<and> ''action=off'' \<notin> set opts"
proof -
  let ?a = "''fe80::1%x'' @ newline # ''action=off''"
  have "validate_fencing ''ipmi'' (Some ?a) None (Some ''root'') = None" by code_simp
  moreover have "\<exists>opts. options (\<lambda>_. Some ''pw'') (sample_fencing\<lparr>fe_address := Some ?a\<rparr>) ''status'' = Inr opts
      \<and> ''action=off'' \<notin> set opts"
    by (simp add: options_def sample_fencing_def)
  moreover have "\<exists>input. agent_input (\<lambda>_. Some ''pw'') (sample_fencing\<lparr>fe_address := Some ?a\<rparr>) ''status'' = Inr input
      \<and> ''action=off'' \<in> set (split_on newline input)"
    by (simp add: agent_input_def options_def sample_fencing_def)
  ultimately show ?thesis by blast
qed

lemma sublist_drop: "sublist w (drop n s) \<Longrightarrow> sublist w s"
  unfolding sublist_def by (metis append.assoc append_take_drop_id)

text \<open>No message holds the password: the agent's words, as they are returned and logged, never contain
  it, whatever the agent printed (for a password without the character it is replaced with).\<close>

theorem message_without_secret:
  assumes "decrypt (the (fe_secret row)) = Some secret" and "fe_secret row \<noteq> None"
    and "secret \<noteq> []" and "CHR ''*'' \<notin> set secret"
  shows "\<not> sublist secret (without_secret decrypt row text)"
proof
  assume "sublist secret (without_secret decrypt row text)"
  with assms(1,2,3) obtain message where "sublist secret (py_replace secret ''***'' message)"
    by (auto simp: without_secret_def Let_def dest!: sublist_drop split: option.splits)
  with py_replace_no_old [OF assms(3,4), of "''***''" message] show False by simp
qed

theorem message_without_secret_witness:
  "\<not> sublist ''pw'' (without_secret (\<lambda>_. Some ''pw'') sample_fencing ''bad password pw'')"
  by (rule message_without_secret) (simp_all add: sample_fencing_def)

lemma confirm_off_ends:
  assumes "\<And>k. started + OFF_POLL_S * of_nat k \<le> clock k" and "k + fuel = 13" and "0 < fuel"
  shows "\<exists>r. confirm_off decrypt row name agent clock (started + OFF_CONFIRM_S) fuel k prev = Some r"
  using assms(2,3)
proof (induction fuel arbitrary: k prev)
  case 0
  then show ?case by simp
next
  case (Suc fuel)
  show ?case
  proof (cases "started + OFF_CONFIRM_S \<le> clock k")
    case True
    then show ?thesis by (auto simp: Let_def split: sum.splits)
  next
    case False
    have "k < 12"
    proof (rule ccontr)
      assume "\<not> k < 12"
      then have "(12 :: rat) \<le> of_nat k" by simp
      then have "OFF_CONFIRM_S \<le> OFF_POLL_S * of_nat k" by (simp add: OFF_CONFIRM_S_def OFF_POLL_S_def)
      with assms(1) [of k] False show False by simp
    qed
    with Suc.prems Suc.IH [of "Suc k"] show ?thesis by (auto simp: Let_def split: sum.splits)
  qed
qed

lemma confirm_off_fenced:
  "confirm_off decrypt row name agent clock deadline fuel k prev = Some (Inr r) \<Longrightarrow> of_fenced r \<Longrightarrow>
     \<exists>j out. run_agent decrypt row ''status'' (agent j) = Inr (Inr out) \<and> power_state out = Some Power_off"
  by (induction fuel arbitrary: k prev) (auto simp: Let_def split: sum.splits if_splits)

text \<open>C39: powering off always ends with an answer, after at most thirteen readings of the power state, as the
  clock moves on by five seconds or more from one to the next; and it says fenced only when a reading of the
  node's own agent said off.\<close>

theorem power_off_ends_and_is_proved:
  assumes "\<forall>k. started + OFF_POLL_S * of_nat k \<le> clock k"
  shows "\<exists>r. power_off decrypt 13 me node off_run started agent clock st = Some r
    \<and> (\<forall>res. r = Inr res \<and> of_fenced res \<longrightarrow> (\<exists>row k out. fencing me node st = Some row \<and> AGENTS (fe_method row) \<noteq> None
          \<and> run_agent decrypt row ''status'' (agent k) = Inr (Inr out) \<and> power_state out = Some Power_off))"
proof -
  have ends: "\<exists>r. confirm_off decrypt row name agent clock (started + OFF_CONFIRM_S) 13 0 prev = Some r" for row name prev
    using confirm_off_ends [of started clock 0 13] assms by simp
  show ?thesis
  proof (cases "fencing me node st")
    case None
    then show ?thesis by (simp add: power_off_def)
  next
    case (Some row)
    show ?thesis
    proof (cases "AGENTS (fe_method row)")
      case None
      with Some show ?thesis by (simp add: power_off_def)
    next
      case (Some name)
      show ?thesis
      proof (cases "run_agent decrypt row ''off'' off_run")
        case (Inl e)
        with Some \<open>fencing me node st = Some row\<close> show ?thesis by (simp add: power_off_def)
      next
        case (Inr out)
        obtain r where r: "confirm_off decrypt row name agent clock (started + OFF_CONFIRM_S) 13 0 (said decrypt row out) = Some r"
          using ends by blast
        then have "power_off decrypt 13 me node off_run started agent clock st = Some r"
          using Some Inr \<open>fencing me node st = Some row\<close> by (simp add: power_off_def)
        with r Some \<open>fencing me node st = Some row\<close> show ?thesis by (auto dest: confirm_off_fenced)
      qed
    qed
  qed
qed

theorem power_off_ends_and_is_proved_witness:
  "\<exists>r. power_off (\<lambda>_. Some ''pw'') 13 ''n1'' ''n2'' (Exited ''Success'' 0) 0 (\<lambda>_. Exited ''Status: OFF'' 0) (\<lambda>k. 5 * of_nat k)
     \<lparr>hs_protected = [], hs_policies = [], hs_monitoring = [], hs_settings = [], hs_fencing = [(''n2'', sample_fencing)]\<rparr> = Some r"
  using power_off_ends_and_is_proved [of 0 "\<lambda>k. 5 * of_nat k" "\<lambda>_. Some ''pw''" "''n1''" "''n2''" "Exited ''Success'' 0"
      "\<lambda>_. Exited ''Status: OFF'' 0" "\<lparr>hs_protected = [], hs_policies = [], hs_monitoring = [], hs_settings = [], hs_fencing = [(''n2'', sample_fencing)]\<rparr>"]
  by (auto simp: OFF_POLL_S_def)

end
