(* ===== verification/Ha_Selffence.thy ===== *)
theory Ha_Selffence
  imports Ha_Store
begin

text \<open>
  A node that runs HA VMs fences itself with its watchdog: \<^verbatim>\<open>app/core/ha_selffence.py\<close>.

  The record \<open>watchdog\<close> holds the process's state (open, its real timeout, the problem told, starving, what
  the last run may have left published, stopping), and two things outside it: when the device was last fed
  and what the node's entry of the cluster's tree says. One \<open>tick\<close> feeds the device while the node has the
  quorum and its heartbeat goes out, then arms or disarms it as its HA VMs need. What a round learns from
  outside stands in \<open>watch_env\<close>.

  Shown: the device is fed only by a round with the quorum and, once armed, with a heartbeat less than forty
  seconds old; a stopped service never arms it again; what is published is true of the device.
\<close>

section \<open>The state\<close>

definition TIMEOUT_S :: int where "TIMEOUT_S = 60"
definition FEED_S :: int where "FEED_S = 5"
definition MIN_TIMEOUT_S :: int where "MIN_TIMEOUT_S = 3 * FEED_S"
definition HEARTBEAT_STALE_S :: seconds where "HEARTBEAT_STALE_S = 40"

definition reset_within :: "int option \<Rightarrow> int option" where
  "reset_within t = (case t of None \<Rightarrow> None | Some s \<Rightarrow> if s = 0 then None else Some (2 * s + FEED_S))"

record entry =
  en_armed :: bool
  en_delay :: "int option"
  en_reset_within :: "int option"
  en_stopped :: bool

datatype wd_problem = Not_armed | Too_short int | Timeout_unknown

record watchdog =
  wd_open :: bool
  wd_timeout :: "int option"
  wd_problem :: "wd_problem option"
  wd_starving :: bool
  wd_unpublished_start :: bool
  wd_stop :: bool
  wd_fed_at :: seconds
  wd_entry :: "entry option"

definition wd_start :: "entry option \<Rightarrow> watchdog" where
  "wd_start left_over = \<lparr>wd_open = False, wd_timeout = None, wd_problem = None, wd_starving = False,
     wd_unpublished_start = True, wd_stop = False, wd_fed_at = 0, wd_entry = left_over\<rparr>"

text \<open>\<open>we_open\<close>: what opening the device gives, its timeout (missing when its driver does not say), or nothing
  when it cannot be opened. \<open>we_needed\<close>: whether HA VMs run here in a cluster, nothing when it is unknown.
  \<open>we_reads\<close>, \<open>we_puts\<close>: whether the tree answers.\<close>

record watch_env =
  we_now :: seconds
  we_enabled :: bool
  we_quorum :: bool
  we_heartbeat_age :: seconds
  we_needed :: "bool option"
  we_open :: "int option option"
  we_reads :: bool
  we_puts :: bool

text \<open>\<open>_hosts_running_ha_vm\<close>: \<open>active\<close> is libvirt's answer, nothing when the VM is not defined here.\<close>

definition hosts_running_ha_vm :: "(vm_name \<Rightarrow> bool option) \<Rightarrow> (vm_name \<times> protected_row) list \<Rightarrow> bool" where
  "hosts_running_ha_vm active rows =
     list_ex (\<lambda>v. active v = Some True) (map fst (filter (\<lambda>(_, r). pr_node r = [] \<or> pr_node r = LOCAL) rows))"

definition publish :: "bool \<Rightarrow> bool \<Rightarrow> watch_env \<Rightarrow> watchdog \<Rightarrow> watchdog" where
  "publish armed stopped e s =
     (if we_puts e
      then s\<lparr>wd_entry := Some \<lparr>en_armed = armed, en_delay = wd_timeout s, en_reset_within = reset_within (wd_timeout s), en_stopped = stopped\<rparr>\<rparr>
      else s)"

definition published :: "watch_env \<Rightarrow> watchdog \<Rightarrow> entry option" where
  "published e s = (if we_reads e then wd_entry s else None)"

definition clear_last_run :: "watch_env \<Rightarrow> watchdog \<Rightarrow> watchdog" where
  "clear_last_run e s =
     (if (case published e s of None \<Rightarrow> False | Some n \<Rightarrow> en_stopped n \<or> en_armed n)
      then (if we_puts e then (publish False False e s)\<lparr>wd_unpublished_start := False\<rparr> else s)
      else s\<lparr>wd_unpublished_start := False\<rparr>)"

section \<open>One round\<close>

definition heartbeat_goes_out :: "watch_env \<Rightarrow> bool" where
  "heartbeat_goes_out e \<longleftrightarrow> we_heartbeat_age e < HEARTBEAT_STALE_S"

definition arm :: "watch_env \<Rightarrow> watchdog \<Rightarrow> watchdog" where
  "arm e s =
     (case we_open e of
        None \<Rightarrow> s\<lparr>wd_problem := Some Not_armed\<rparr>
      | Some timeout \<Rightarrow>
          (if (case timeout of None \<Rightarrow> False | Some t \<Rightarrow> t < MIN_TIMEOUT_S)
           then s\<lparr>wd_problem := Some (Too_short (the timeout))\<rparr>
           else publish True False e
                  (s\<lparr>wd_open := True, wd_timeout := timeout,
                     wd_problem := (case timeout of None \<Rightarrow> Some Timeout_unknown | Some t \<Rightarrow> if t = 0 then Some Timeout_unknown else None),
                     wd_fed_at := we_now e\<rparr>)))"

definition disarm :: "bool \<Rightarrow> watch_env \<Rightarrow> watchdog \<Rightarrow> watchdog" where
  "disarm stopped e s = publish False stopped e (s\<lparr>wd_open := False, wd_timeout := None\<rparr>)"

definition feed_round :: "watch_env \<Rightarrow> watchdog \<Rightarrow> bool \<times> watchdog" where
  "feed_round e s =
     (let armed = wd_open s;
          writable = (we_quorum e \<and> (armed \<longrightarrow> heartbeat_goes_out e))
      in (writable, s\<lparr>wd_fed_at := (if armed \<and> writable then we_now e else wd_fed_at s), wd_starving := (armed \<and> \<not> writable)\<rparr>))"

definition tick :: "watch_env \<Rightarrow> watchdog \<Rightarrow> watchdog" where
  "tick e s =
     (if \<not> we_enabled e then s
      else case feed_round e s of (writable, s1) \<Rightarrow>
        if \<not> writable then s1
        else let s2 = (if wd_unpublished_start s1 then clear_last_run e s1 else s1) in
          case we_needed e of
            None \<Rightarrow> s2
          | Some needed \<Rightarrow>
              (if wd_stop s2 then s2
               else if needed \<and> \<not> wd_open s2 then arm e s2
               else if \<not> needed \<and> wd_open s2 then disarm False e s2
               else s2))"

definition stop :: "watch_env \<Rightarrow> watchdog \<Rightarrow> watchdog" where
  "stop e s = (let s1 = s\<lparr>wd_stop := True\<rparr> in if \<not> wd_open s1 then s1 else disarm True e s1)"

record wd_report =
  wr_armed :: bool
  wr_without_quorum :: bool
  wr_problem :: "wd_problem option"
  wr_delay :: "int option"
  wr_reset_within :: "int option"
  wr_active :: bool

definition report :: "watch_env \<Rightarrow> watchdog \<Rightarrow> wd_report" where
  "report e s =
     (let t = (if wd_open s then wd_timeout s else Some TIMEOUT_S)
      in \<lparr>wr_armed = wd_open s, wr_without_quorum = wd_starving s, wr_problem = wd_problem s, wr_delay = t,
          wr_reset_within = reset_within t, wr_active = we_enabled e\<rparr>)"

section \<open>Runs\<close>

datatype wd_event = Round watch_env | Stops watch_env

fun wd_do :: "wd_event \<Rightarrow> watchdog \<Rightarrow> watchdog" where
  "wd_do (Round e) s = tick e s"
| "wd_do (Stops e) s = stop e s"

definition wd_run :: "wd_event list \<Rightarrow> watchdog \<Rightarrow> watchdog" where
  "wd_run es s = foldl (\<lambda>s e. wd_do e s) s es"

lemma wd_run_simps [simp]: "wd_run [] s = s" "wd_run (e # es) s = wd_run es (wd_do e s)"
  by (simp_all add: wd_run_def)

lemma wd_run_snoc [simp]: "wd_run (es @ [e]) s = wd_do e (wd_run es s)"
  by (simp add: wd_run_def)

section \<open>Lemmas\<close>

lemmas wd_defs = tick_def stop_def feed_round_def clear_last_run_def arm_def disarm_def publish_def published_def Let_def

text \<open>What the tree says of this node while the puts go through.\<close>

definition wd_inv :: "watchdog \<Rightarrow> bool" where
  "wd_inv s \<longleftrightarrow> (\<not> wd_open s \<longrightarrow> wd_timeout s = None)
     \<and> (wd_open s \<longrightarrow> (case wd_timeout s of None \<Rightarrow> True | Some t \<Rightarrow> MIN_TIMEOUT_S \<le> t))
     \<and> (wd_open s \<longrightarrow> \<not> wd_stop s)"

lemma wd_inv_do: "wd_inv s \<Longrightarrow> wd_inv (wd_do ev s)"
  by (cases ev) (auto simp: wd_inv_def wd_defs split: option.splits if_splits)

lemma wd_inv_start: "wd_inv (wd_start left_over)"
  by (simp add: wd_inv_def wd_start_def)

lemma wd_inv_run: "wd_inv s \<Longrightarrow> wd_inv (wd_run es s)"
  by (induction es arbitrary: s) (auto simp: wd_inv_do)

lemma wd_stop_do: "wd_stop s \<Longrightarrow> wd_stop (wd_do ev s)"
  by (cases ev) (auto simp: wd_defs split: option.splits if_splits)

lemma wd_stop_run: "wd_stop s \<Longrightarrow> wd_stop (wd_run es s)"
  by (induction es arbitrary: s) (auto simp: wd_stop_do)

lemma wd_run_append: "wd_run (es @ fs) s = wd_run fs (wd_run es s)"
  by (simp add: wd_run_def)

text \<open>A round of an armed watchdog feeds it only with the quorum and a heartbeat.\<close>

lemma tick_feeds:
  "wd_open s \<Longrightarrow> wd_fed_at (tick e s) = wd_fed_at s \<or> (wd_fed_at (tick e s) = we_now e \<and> we_quorum e \<and> heartbeat_goes_out e)"
  by (auto simp: wd_defs split: option.splits if_splits)

section \<open>What is published\<close>

definition answers :: "wd_event \<Rightarrow> bool" where
  "answers ev \<longleftrightarrow> (case ev of Round e \<Rightarrow> we_puts e \<and> we_reads e | Stops e \<Rightarrow> we_puts e \<and> we_reads e)"

definition entry_true :: "entry option \<Rightarrow> watchdog \<Rightarrow> bool" where
  "entry_true left_over s \<longleftrightarrow>
     (\<not> wd_open s \<and> wd_unpublished_start s \<and> wd_entry s = left_over)
     \<or> (\<not> wd_unpublished_start s \<and>
        (case wd_entry s of
           None \<Rightarrow> \<not> wd_open s
         | Some n \<Rightarrow> en_armed n = wd_open s \<and> (wd_open s \<longrightarrow> en_reset_within n = reset_within (wd_timeout s))
             \<and> (en_stopped n \<longrightarrow> wd_stop s)))"

lemma entry_true_do: "entry_true left_over s \<Longrightarrow> answers ev \<Longrightarrow> entry_true left_over (wd_do ev s)"
  by (cases ev) (auto simp: entry_true_def answers_def wd_defs split: option.splits if_splits)

lemma entry_true_run: "entry_true left_over s \<Longrightarrow> list_all answers es \<Longrightarrow> entry_true left_over (wd_run es s)"
  by (induction es arbitrary: s) (auto simp: entry_true_do)

section \<open>Properties\<close>

text \<open>What the node publishes is true of its device: as long as the tree answers, once the service has
  cleared what its last run left, the entry says armed exactly while the device is armed, with the reset
  time of the device's own timeout, and says stopped only once the service was stopped.\<close>

theorem published_is_true:
  assumes "list_all answers es" and "wd_run es (wd_start left_over) = s" and "\<not> wd_unpublished_start s"
  shows "case wd_entry s of
      None \<Rightarrow> \<not> wd_open s
    | Some n \<Rightarrow> en_armed n = wd_open s \<and> (wd_open s \<longrightarrow> en_reset_within n = reset_within (wd_timeout s)) \<and> (en_stopped n \<longrightarrow> wd_stop s)"
proof -
  have "entry_true left_over (wd_start left_over)" by (simp add: entry_true_def wd_start_def)
  from entry_true_run [OF this assms(1)] assms(2,3) show ?thesis by (simp add: entry_true_def)
qed

definition sample_env :: watch_env where
  "sample_env = \<lparr>we_now = 7, we_enabled = True, we_quorum = True, we_heartbeat_age = 3, we_needed = Some True,
     we_open = Some (Some 60), we_reads = True, we_puts = True\<rparr>"

lemma sample_round:
  "wd_run [Round sample_env] (wd_start None) = \<lparr>wd_open = True, wd_timeout = Some 60, wd_problem = None, wd_starving = False,
     wd_unpublished_start = False, wd_stop = False, wd_fed_at = 7,
     wd_entry = Some \<lparr>en_armed = True, en_delay = Some 60, en_reset_within = Some 125, en_stopped = False\<rparr>\<rparr>"
  by (simp add: wd_defs sample_env_def wd_start_def heartbeat_goes_out_def HEARTBEAT_STALE_S_def MIN_TIMEOUT_S_def FEED_S_def
      reset_within_def)

theorem published_is_true_witness:
  "\<exists>s. wd_run [Round sample_env] (wd_start None) = s \<and> wd_open s
     \<and> (\<exists>n. wd_entry s = Some n \<and> en_armed n = wd_open s \<and> en_reset_within n = Some 125)"
  using published_is_true [of "[Round sample_env]" None, OF _ sample_round] sample_round
  by (simp add: answers_def sample_env_def)

text \<open>Once the service was told to stop, no later round arms the watchdog again, so the node is not
  reset once the process is gone; and an armed device always has a timeout long enough to be fed, when its
  driver says it.\<close>

theorem stopped_stays_disarmed:
  "\<not> wd_open (wd_run (es @ Stops e # fs) (wd_start left_over))
   \<and> (case wd_timeout (wd_run es (wd_start left_over)) of None \<Rightarrow> True | Some t \<Rightarrow> MIN_TIMEOUT_S \<le> t)"
proof -
  have "wd_stop (wd_run (Stops e # fs) s)" for s
    by (auto intro!: wd_stop_run simp: wd_defs)
  then have "wd_stop (wd_run (es @ Stops e # fs) (wd_start left_over))" by (simp add: wd_run_append del: wd_run_simps)
  moreover have inv: "wd_inv (wd_run gs (wd_start left_over))" for gs by (rule wd_inv_run [OF wd_inv_start])
  moreover have "case wd_timeout (wd_run es (wd_start left_over)) of None \<Rightarrow> True | Some t \<Rightarrow> MIN_TIMEOUT_S \<le> t"
    using inv [of es] by (cases "wd_open (wd_run es (wd_start left_over))") (auto simp: wd_inv_def)
  ultimately show ?thesis by (auto simp: wd_inv_def)
qed

text \<open>A node cut off stays armed and is not fed: from an armed watchdog, any rounds without the quorum or
  with a heartbeat of forty seconds or more neither feed it nor disarm it nor change what the leader reads.\<close>

theorem starved_node_stays_armed:
  assumes "wd_open s" and "\<forall>ev \<in> set es. \<exists>e. ev = Round e \<and> (\<not> we_quorum e \<or> HEARTBEAT_STALE_S \<le> we_heartbeat_age e)"
  shows "wd_open (wd_run es s) \<and> wd_fed_at (wd_run es s) = wd_fed_at s \<and> wd_entry (wd_run es s) = wd_entry s"
  using assms
proof (induction es arbitrary: s)
  case Nil
  then show ?case by simp
next
  case (Cons ev es)
  then obtain e where e: "ev = Round e" "\<not> we_quorum e \<or> HEARTBEAT_STALE_S \<le> we_heartbeat_age e" by auto
  with Cons.prems have "wd_open (wd_do ev s)" "wd_fed_at (wd_do ev s) = wd_fed_at s" "wd_entry (wd_do ev s) = wd_entry s"
    by (auto simp: wd_defs heartbeat_goes_out_def)
  with Cons.IH [of "wd_do ev s"] Cons.prems show ?case by simp
qed

theorem starved_node_stays_armed_witness:
  "wd_open (wd_run [Round (sample_env\<lparr>we_quorum := False\<rparr>)] (wd_run [Round sample_env] (wd_start None)))
   \<and> wd_fed_at (wd_run [Round (sample_env\<lparr>we_quorum := False\<rparr>)] (wd_run [Round sample_env] (wd_start None))) = 7"
  using starved_node_stays_armed [of "wd_run [Round sample_env] (wd_start None)" "[Round (sample_env\<lparr>we_quorum := False\<rparr>)]"]
  unfolding sample_round by simp

end
