(* ===== verification/Ha_Recovery.thy ===== *)
theory Ha_Recovery
  imports Drs_Rules Ha_Fencing Ha_Selffence
begin

text \<open>
  Automatic HA: the leader restarts the HA VMs of a lost member once that member is known to be stopped
  (\<^verbatim>\<open>app/core/ha_recovery.py\<close>, with \<open>start_on\<close> and \<open>adopt\<close> of \<^verbatim>\<open>app/core/ha.py\<close> as far as the record goes).

  The leader's state is the record \<open>recovery\<close>: its view of the lost members, the HA tables, and what it did
  (\<open>ha_event\<close>: audit entries and starts). \<open>tick_ha\<close> is one round over the watched members; \<open>restart\<close> and
  \<open>restart_all\<close> restart a fenced member's VMs. What a round learns from outside stands in \<open>round_env\<close>: the
  statuses, the members, the maintenance, what the members' watchdogs published, what a power off came to,
  where a VM runs, what a start came to, and whether the node still leads before each restart. The clock is
  read once per round.

  Shown: a member counts as fenced only on a proof; no restart happens before it; a restart goes to a member
  that is online, not lost, not in maintenance and has the memory, which the VMs restarted in the round never
  take twice; a VM found running is adopted, never started; at most three automatic restarts an hour; and
  the must rules that the documentation says bind HA are not looked at.
\<close>

section \<open>State and environment\<close>

definition LOST_S :: seconds where "LOST_S = 60"
definition WATCHDOG_MARGIN_S :: int where "WATCHDOG_MARGIN_S = 30"
definition LOCK_WAIT_S :: seconds where "LOCK_WAIT_S = 120"
definition RESTARTS_PER_HOUR :: nat where "RESTARTS_PER_HOUR = 3"
definition BMC_ATTEMPTS :: nat where "BMC_ATTEMPTS = 3"
definition BMC_RETRY_S :: seconds where "BMC_RETRY_S = 60"

definition PRIORITY :: "string \<Rightarrow> nat" where
  "PRIORITY p = (if p = ''high'' then 0 else if p = ''low'' then 2 else 1)"

record lost_entry =
  lo_ran :: "vm_name list option"
  lo_last_seen :: seconds
  lo_bmc :: "bool option"
  lo_bmc_tries :: nat
  lo_bmc_at :: seconds
  lo_fenced_at :: "seconds option"
  lo_recovering :: "vm_name list option"

datatype ha_event =
    Ev_lost node_name
  | Ev_back node_name
  | Ev_power_off node_name bool
  | Ev_fenced node_name "fence_why option"
  | Ev_manual vm_name ha_note
  | Ev_adopted vm_name node_name
  | Ev_started vm_name node_name
  | Ev_not_started vm_name node_name
  | Ev_not_leader

record recovery =
  rv_lost :: "(node_name, lost_entry) dict"
  rv_store :: ha_store
  rv_events :: "ha_event list"

text \<open>What starting a VM on a node came to: started (with its new definition and the media ejected), refused by
  libvirt (whether a lock was the reason), a conflict, or another exception.\<close>

datatype start_outcome = Started_there domain_xml "string list" | Libvirt_refused bool | Runtime_conflict | Other_exception

record round_env =
  rn_now :: seconds
  rn_wall :: seconds
  rn_in_cluster :: bool
  rn_leader :: bool
  rn_read_only :: bool
  rn_me :: node_name
  rn_members :: "node_name list"
  rn_latest :: "(node_name, seconds \<times> vm_entry list) dict"
  rn_free :: "node_name \<Rightarrow> int option"
  rn_status_vms :: "node_name \<Rightarrow> vm_entry list"
  rn_maintenance :: "node_name \<Rightarrow> bool"
  rn_published :: "node_name \<Rightarrow> entry option"
  rn_power_off :: "node_name \<Rightarrow> bool"
  rn_placement :: "(vm_name, node_name) dict"
  rn_rules :: drs_store
  rn_runs :: "vm_name \<Rightarrow> node_name \<Rightarrow> bool option"
  rn_runs_after :: "vm_name \<Rightarrow> node_name \<Rightarrow> bool option"
  rn_start :: "vm_name \<Rightarrow> node_name \<Rightarrow> start_outcome"
  rn_may_act :: "vm_name \<Rightarrow> bool"

definition said_event :: "ha_event \<Rightarrow> recovery \<Rightarrow> recovery" where
  "said_event ev s = s\<lparr>rv_events := rv_events s @ [ev]\<rparr>"

text \<open>\<open>_record\<close>: written only when it changes.\<close>

definition record_state :: "round_env \<Rightarrow> vm_name \<Rightarrow> ha_state \<Rightarrow> ha_note \<Rightarrow> recovery \<Rightarrow> recovery" where
  "record_state e vm st a s =
     (let current = protected_vm (rn_me e) vm (rv_store s);
          same = (case current of None \<Rightarrow> False
                  | Some r \<Rightarrow> pr_state r = Some st \<and> (st \<notin> {Ha_manual, Ha_ok} \<or> pr_action r = Some a))
      in if same then s else s\<lparr>rv_store := record_watch vm st a (rn_wall e) (rv_store s)\<rparr>)"

section \<open>Who runs what, and who may take a VM\<close>

definition running_names :: "vm_entry list \<Rightarrow> vm_name list" where
  "running_names vms = map ve_name (filter (\<lambda>v. is_running_state (ve_state v)) vms)"

definition ages :: "round_env \<Rightarrow> node_name \<Rightarrow> seconds option" where
  "ages e n = map_option fst (map_of (rn_latest e) n)"

definition ran_when_lost :: "round_env \<Rightarrow> node_name \<Rightarrow> vm_name list option" where
  "ran_when_lost e m = map_option (\<lambda>(_, vms). running_names vms) (map_of (rn_latest e) m)"

definition online :: "round_env \<Rightarrow> (node_name, int option) dict" where
  "online e = dict_of (map (\<lambda>n. (n, rn_free e n))
     (rn_me e # filter (\<lambda>n. case ages e n of None \<Rightarrow> False | Some a \<Rightarrow> a \<le> LOST_S) (rn_members e)))"

definition candidates :: "round_env \<Rightarrow> vm_name \<Rightarrow> protected_row \<Rightarrow> policy_row \<Rightarrow> (node_name, int option) dict \<Rightarrow> node_name list
    \<Rightarrow> (vm_name, node_name) dict option \<Rightarrow> node_name list" where
  "candidates e vm row pol on lost where_opt =
     (let need = memory_mib (pr_xml row);
          fits0 = filter (\<lambda>(n, free). n \<notin> set lost \<and> \<not> rn_maintenance e n) on;
          fits1 = filter (\<lambda>(n, free). case free of None \<Rightarrow> True | Some f \<Rightarrow> need \<le> f) fits0;
          fits2 = (case where_opt of None \<Rightarrow> fits1 | Some wh \<Rightarrow> filter (\<lambda>(n, free). allowed (rn_rules e) vm n wh) fits1);
          preferred = filter (\<lambda>n. n \<in> set (keys fits2)) (po_preferred pol);
          others = map fst (sort_key (\<lambda>(n, free). - num_or free 0) (filter (\<lambda>(n, free). n \<notin> set preferred) fits2))
      in preferred @ others)"

section \<open>Whether a member is known to be stopped\<close>

datatype verdict = Fenced fence_why | Not_yet fence_why | Never fence_why

definition bmc_asks :: "round_env \<Rightarrow> lost_entry \<Rightarrow> bool" where
  "bmc_asks e en \<longleftrightarrow> lo_bmc en = None
     \<or> (lo_bmc en = Some False \<and> lo_bmc_tries en < BMC_ATTEMPTS \<and> BMC_RETRY_S \<le> rn_now e - lo_bmc_at en)"

definition ask_bmc :: "round_env \<Rightarrow> node_name \<Rightarrow> lost_entry \<Rightarrow> lost_entry \<times> ha_event list" where
  "ask_bmc e m en =
     (if bmc_asks e en
      then (en\<lparr>lo_bmc := Some (rn_power_off e m), lo_bmc_tries := lo_bmc_tries en + 1, lo_bmc_at := rn_now e\<rparr>,
            [Ev_power_off m (rn_power_off e m)])
      else (en, []))"

definition without_watchdog :: "fence_method option \<Rightarrow> lost_entry \<Rightarrow> verdict" where
  "without_watchdog bmc en =
     (case bmc of
        Some b \<Rightarrow> if lo_bmc_tries en < BMC_ATTEMPTS then Not_yet (Bmc_asked_again b) else Never (Bmc_never_confirmed b)
      | None \<Rightarrow> Never Nothing_proves)"

definition watchdog_verdict :: "round_env \<Rightarrow> entry option \<Rightarrow> fence_method option \<Rightarrow> lost_entry \<Rightarrow> verdict" where
  "watchdog_verdict e pub bmc en =
     (case pub of
        None \<Rightarrow> without_watchdog bmc en
      | Some p \<Rightarrow>
          (if en_armed p \<and> num_true (en_reset_within p)
           then if of_int (the (en_reset_within p) + WATCHDOG_MARGIN_S) \<le> rn_now e - lo_last_seen en
                then Fenced Watchdog_passed else Not_yet Watchdog_waits
           else without_watchdog bmc en))"

definition bmc_method :: "round_env \<Rightarrow> node_name \<Rightarrow> ha_store \<Rightarrow> fence_method option" where
  "bmc_method e m st = (case get_fencing (rn_me e) m st of
      None \<Rightarrow> None | Some v \<Rightarrow> if AGENTS (fv_method v) \<noteq> None then Some (fv_method v) else None)"

definition fenced :: "round_env \<Rightarrow> node_name \<Rightarrow> ha_store \<Rightarrow> lost_entry \<Rightarrow> verdict \<times> lost_entry \<times> ha_event list" where
  "fenced e m st en =
     (let pub = rn_published e m in
      if (case pub of None \<Rightarrow> False | Some p \<Rightarrow> en_stopped p) then (Never Stopped_normally, en, [])
      else case bmc_method e m st of
        Some b \<Rightarrow>
          (case ask_bmc e m en of (en', evs) \<Rightarrow>
             if lo_bmc en' = Some True then (Fenced (Bmc_read_off b), en', evs)
             else (watchdog_verdict e pub (Some b) en', en', evs))
      | None \<Rightarrow> (watchdog_verdict e pub None en, en, []))"

section \<open>Restarting one VM\<close>

fun running_elsewhere :: "(node_name \<Rightarrow> bool option) \<Rightarrow> node_name list \<Rightarrow> node_name option" where
  "running_elsewhere runs [] = None"
| "running_elsewhere runs (n # ns) = (if runs n = Some True then Some n else running_elsewhere runs ns)"

definition manual :: "round_env \<Rightarrow> vm_name \<Rightarrow> ha_note \<Rightarrow> recovery \<Rightarrow> recovery" where
  "manual e vm a s = said_event (Ev_manual vm a) (record_state e vm Ha_manual a s)"

text \<open>The loop over the first two candidates. The answer says whether the VM runs on a node now, and \<open>stop_trying\<close>
  whether the round leaves it there.\<close>

datatype try_result = Runs_on node_name | Left_for_later | Tried_all

fun try_targets :: "round_env \<Rightarrow> vm_name \<Rightarrow> protected_row \<Rightarrow> lost_entry \<Rightarrow> seconds option list \<Rightarrow> node_name list \<Rightarrow> recovery
    \<Rightarrow> try_result \<times> recovery" where
  "try_targets e vm row en rec [] s = (Tried_all, s)"
| "try_targets e vm row en rec (t # ts) s =
     (case rn_start e vm t of
        Started_there xml ejected \<Rightarrow>
          (let s1 = said_event (Ev_started vm t)
                      (s\<lparr>rv_store := sync_definition (rn_me e) vm xml (rn_wall e) (Some t) (rv_store s)\<rparr>);
               s2 = s1\<lparr>rv_store := record_restart vm (rec @ [Some (rn_wall e)]) (rv_store s1)\<rparr>
           in (Runs_on t, record_state e vm Ha_ok (Restarted_on t (pr_node row) ejected) s2))
      | Libvirt_refused locked \<Rightarrow>
          (if locked \<and> (case lo_fenced_at en of None \<Rightarrow> False | Some f \<Rightarrow> rn_now e - f < LOCK_WAIT_S)
           then (Left_for_later, record_state e vm Ha_recovering (Disk_still_locked t) s)
           else try_targets e vm row en rec ts (said_event (Ev_not_started vm t) s))
      | Runtime_conflict \<Rightarrow> try_targets e vm row en rec ts (said_event (Ev_not_started vm t) s)
      | Other_exception \<Rightarrow>
          (if running_elsewhere (rn_runs_after e vm) [t] \<noteq> None
           then (Left_for_later, record_state e vm Ha_recovering (Started_not_recorded t) s)
           else try_targets e vm row en rec ts (said_event (Ev_not_started vm t) s)))"

text \<open>\<open>_restart(row, entry, online, lost, where)\<close>. As in the source, \<open>where\<close> is overwritten by the node the VM was
  found running on, which is missing whenever the candidates are looked for.\<close>

definition restart :: "round_env \<Rightarrow> vm_name \<Rightarrow> protected_row \<Rightarrow> lost_entry \<Rightarrow> (node_name, int option) dict \<Rightarrow> node_name list
    \<Rightarrow> (vm_name, node_name) dict option \<Rightarrow> recovery \<Rightarrow> node_name option \<times> recovery" where
  "restart e vm row en on lost where_opt s =
     (case running_elsewhere (rn_runs e vm) (filter (\<lambda>n. n \<notin> set lost) (keys on)) of
        Some n \<Rightarrow>
          (let s1 = (case pr_xml row of
                       Some xml \<Rightarrow> s\<lparr>rv_store := sync_definition (rn_me e) vm xml (rn_wall e) (Some n) (rv_store s)\<rparr>
                     | None \<Rightarrow> s)
           in (Some n, said_event (Ev_adopted vm n) (record_state e vm Ha_ok (Runs_where_started n (pr_node row)) s1)))
      | None \<Rightarrow>
          (let where_now = None;
               pol = policy vm (rv_store s);
               rec = recent (rn_wall e) (po_restarts pol) in
           if RESTARTS_PER_HOUR \<le> length rec then (None, manual e vm Restarts_exhausted s)
           else let targets = candidates e vm row pol on lost where_now in
             (case targets of
                [] \<Rightarrow>
                  (let reason = (if where_now \<noteq> None \<and> candidates e vm row pol on lost None \<noteq> [] then No_member_keeps_rules
                                 else No_member_with (memory_mib (pr_xml row)))
                   in (None, manual e vm reason s))
              | t # _ \<Rightarrow>
                  (case try_targets e vm row en rec (take 2 targets) (record_state e vm Ha_recovering (Restarting_on t) s) of
                     (Runs_on n, s') \<Rightarrow> (Some n, s')
                   | (Left_for_later, s') \<Rightarrow> (None, s')
                   | (Tried_all, s') \<Rightarrow> (None, manual e vm Not_started_elsewhere s')))))"

section \<open>Restarting a member's VMs\<close>

definition take_memory :: "node_name \<Rightarrow> int \<Rightarrow> (node_name, int option) dict \<Rightarrow> (node_name, int option) dict" where
  "take_memory n need on = dict_alter n (map_option (\<lambda>f. f - need)) on"

fun restart_each :: "round_env \<Rightarrow> (vm_name \<times> protected_row) list \<Rightarrow> lost_entry \<Rightarrow> (node_name, int option) dict \<Rightarrow> node_name list
    \<Rightarrow> (vm_name, node_name) dict \<Rightarrow> recovery \<Rightarrow> recovery" where
  "restart_each e [] en on lost wh s = s"
| "restart_each e ((vm, row) # vms) en on lost wh s =
     (if \<not> rn_may_act e vm then said_event Ev_not_leader s
      else if (case protected_vm (rn_me e) vm (rv_store s) of None \<Rightarrow> False | Some r \<Rightarrow> pr_state r = Some Ha_manual)
      then restart_each e vms en on lost wh s
      else case restart e vm row en on lost (Some wh) s of
             (None, s') \<Rightarrow> restart_each e vms en on lost wh s'
           | (Some t, s') \<Rightarrow> restart_each e vms en (take_memory t (memory_mib (pr_xml row)) on) lost (dict_set vm t wh) s')"

definition restart_all :: "round_env \<Rightarrow> (vm_name \<times> protected_row) list \<Rightarrow> lost_entry \<Rightarrow> (node_name, int option) dict \<Rightarrow> node_name list
    \<Rightarrow> recovery \<Rightarrow> recovery" where
  "restart_all e vms en on lost s =
     restart_each e vms en on lost (filter (\<lambda>(v, n). n \<notin> set lost) (rn_placement e)) s"

section \<open>One round\<close>

definition protected_elsewhere :: "round_env \<Rightarrow> ha_store \<Rightarrow> (vm_name \<times> protected_row) list" where
  "protected_elsewhere e st = filter (\<lambda>(_, r). pr_node r \<noteq> [] \<and> pr_node r \<noteq> LOCAL) (protected (rn_me e) st)"

definition watched :: "round_env \<Rightarrow> (vm_name \<times> protected_row) list \<Rightarrow> node_name list" where
  "watched e rows = sort (remdups (filter (\<lambda>n. n \<in> set (rn_members e)) (map (\<lambda>(_, r). pr_node r) rows)))"

definition member_vms :: "(vm_name \<times> protected_row) list \<Rightarrow> node_name \<Rightarrow> ha_store \<Rightarrow> (vm_name \<times> protected_row) list" where
  "member_vms rows m st =
     sort_key (\<lambda>(v, r). (PRIORITY (po_priority (policy v st)), pr_enabled_at r)) (filter (\<lambda>(_, r). pr_node r = m) rows)"

definition record_all :: "round_env \<Rightarrow> ha_state \<Rightarrow> ha_note \<Rightarrow> (vm_name \<times> protected_row) list \<Rightarrow> recovery \<Rightarrow> recovery" where
  "record_all e st a vms s = foldl (\<lambda>s (v, _). record_state e v st a s) s vms"

definition set_entry :: "node_name \<Rightarrow> lost_entry \<Rightarrow> recovery \<Rightarrow> recovery" where
  "set_entry m en s = s\<lparr>rv_lost := dict_set m en (rv_lost s)\<rparr>"

definition member_back :: "node_name \<Rightarrow> recovery \<Rightarrow> recovery" where
  "member_back m s = said_event (Ev_back m) (s\<lparr>rv_lost := dict_del m (rv_lost s)\<rparr>)"

text \<open>The member answers.\<close>

definition seen_member :: "round_env \<Rightarrow> node_name \<Rightarrow> (vm_name \<times> protected_row) list \<Rightarrow> recovery \<Rightarrow> ha_state \<times> recovery" where
  "seen_member e m vms s =
     (case map_of (rv_lost s) m of
        None \<Rightarrow> (Ha_ok, s)
      | Some en \<Rightarrow>
          (if lo_fenced_at en = None
           then let running = running_names (rn_status_vms e m);
                    stopped = filter (\<lambda>(v, _). v \<notin> set running \<and> (case lo_ran en of None \<Rightarrow> True | Some rs \<Rightarrow> v \<in> set rs)) vms;
                    s1 = record_all e Ha_ok (Answers_again m) (filter (\<lambda>(v, _). v \<in> set running) vms) s
                in if stopped = [] then (Ha_ok, member_back m s1)
                   else let en' = en\<lparr>lo_fenced_at := Some (rn_now e), lo_recovering := Some (map fst stopped)\<rparr>;
                            s2 = said_event (Ev_fenced m None) (set_entry m en' s1)
                        in (Ha_recovering, restart_all e stopped en' (online e) (keys (rv_lost s2)) s2)
           else let left_over = filter (\<lambda>(v, _). v \<in> set (case lo_recovering en of None \<Rightarrow> [] | Some r \<Rightarrow> r)) vms
                in if left_over = [] then (Ha_ok, member_back m s)
                   else (Ha_recovering, restart_all e left_over en (online e) (keys (rv_lost s)) s)))"

text \<open>The member does not: its entry and the VMs of it to recover, made when it is first noticed.\<close>

definition notice :: "round_env \<Rightarrow> node_name \<Rightarrow> (vm_name \<times> protected_row) list \<Rightarrow> recovery
    \<Rightarrow> lost_entry \<times> (vm_name \<times> protected_row) list \<times> recovery" where
  "notice e m vms s =
     (let first = (map_of (rv_lost s) m = None);
          en = (case map_of (rv_lost s) m of
                  Some en \<Rightarrow> en
                | None \<Rightarrow> \<lparr>lo_ran = ran_when_lost e m,
                            lo_last_seen = (case ages e m of Some a \<Rightarrow> rn_now e - a | None \<Rightarrow> rn_now e),
                            lo_bmc = None, lo_bmc_tries = 0, lo_bmc_at = 0, lo_fenced_at = None, lo_recovering = None\<rparr>);
          s1 = set_entry m en s
      in case lo_recovering en of
           Some r \<Rightarrow> (en, filter (\<lambda>(v, _). v \<in> set r) vms, s1)
         | None \<Rightarrow>
             (let mine = (case lo_ran en of None \<Rightarrow> vms | Some rs \<Rightarrow> filter (\<lambda>(v, _). v \<in> set rs) vms);
                  idle = (case lo_ran en of None \<Rightarrow> [] | Some rs \<Rightarrow> filter (\<lambda>(v, _). v \<notin> set rs) vms);
                  s2 = (if first
                        then said_event (Ev_lost m) (record_all e Ha_lost (Not_seen_for m) mine
                               (record_all e Ha_ok (Stopped_when_lost m) idle s1))
                        else s1)
              in (en, mine, s2)))"

definition lost_member :: "round_env \<Rightarrow> node_name \<Rightarrow> (vm_name \<times> protected_row) list \<Rightarrow> recovery \<Rightarrow> ha_state \<times> recovery" where
  "lost_member e m vms0 s0 =
     (case notice e m vms0 s0 of (en, vms, s) \<Rightarrow>
      if lo_fenced_at en \<noteq> None then (Ha_recovering, restart_all e vms en (online e) (keys (rv_lost s)) s)
      else case fenced e m (rv_store s) en of (v, en1, evs) \<Rightarrow>
        (let s1 = set_entry m en1 (s\<lparr>rv_events := rv_events s @ evs\<rparr>) in
         case v of
           Never why \<Rightarrow> (Ha_manual, record_all e Ha_manual (Member_lost m why) vms s1)
         | Not_yet why \<Rightarrow> (Ha_fencing, record_all e Ha_fencing (Member_lost m why) vms s1)
         | Fenced why \<Rightarrow>
             (let en2 = en1\<lparr>lo_fenced_at := Some (rn_now e), lo_recovering := Some (map fst vms)\<rparr>;
                  s2 = said_event (Ev_fenced m (Some why)) (set_entry m en2 s1)
              in (Ha_recovering, restart_all e vms en2 (online e) (keys (rv_lost s2)) s2))))"

definition member_round :: "round_env \<Rightarrow> (vm_name \<times> protected_row) list \<Rightarrow> node_name \<Rightarrow> recovery \<Rightarrow> ha_state \<times> recovery" where
  "member_round e rows m s =
     (let vms = member_vms rows m (rv_store s) in
      if (case ages e m of None \<Rightarrow> False | Some a \<Rightarrow> a \<le> LOST_S) then seen_member e m vms s else lost_member e m vms s)"

definition tick_ha :: "round_env \<Rightarrow> recovery \<Rightarrow> (node_name \<times> ha_state) list \<times> recovery" where
  "tick_ha e s =
     (if \<not> rn_in_cluster e \<or> \<not> rn_leader e \<or> rn_read_only e then ([], s\<lparr>rv_lost := []\<rparr>)
      else let rows = protected_elsewhere e (rv_store s);
               ms = watched e rows;
               s1 = s\<lparr>rv_lost := filter (\<lambda>(m, _). m \<in> set ms) (rv_lost s)\<rparr>
           in foldl (\<lambda>(states, s) m. case member_round e rows m s of (st, s') \<Rightarrow> (states @ [(m, st)], s')) ([], s1) ms)"

text \<open>\<open>members_view\<close>: every member as the HA page shows it.\<close>

record member_view =
  mw_name :: node_name
  mw_self :: bool
  mw_online :: bool
  mw_seen :: "seconds option"
  mw_free :: "int option"
  mw_watchdog :: "entry option"

definition members_view :: "round_env \<Rightarrow> member_view list" where
  "members_view e = map (\<lambda>n. \<lparr>mw_name = n, mw_self = (n = rn_me e),
       mw_online = (n = rn_me e \<or> (case ages e n of None \<Rightarrow> False | Some a \<Rightarrow> a \<le> LOST_S)),
       mw_seen = map_option round1 (ages e n), mw_free = rn_free e n, mw_watchdog = rn_published e n\<rparr>)
     (rn_me e # rn_members e)"

end
