(* ===== verification/Ha_Recovery_Props.thy ===== *)
theory Ha_Recovery_Props
  imports Ha_Recovery
begin

text \<open>
  What \<^verbatim>\<open>Ha_Recovery\<close> keeps: the proof a fence rests on, where a VM may restart, what a round's restarts do
  to the members' memory and to each VM's hourly budget, and that nothing is started before its node was
  known to be stopped.
\<close>

section \<open>Events only grow\<close>

text \<open>\<open>grows P s s'\<close>: the round added only events of \<open>P\<close>.\<close>

definition grows :: "(ha_event \<Rightarrow> bool) \<Rightarrow> recovery \<Rightarrow> recovery \<Rightarrow> bool" where
  "grows P s s' \<longleftrightarrow> (\<exists>evs. rv_events s' = rv_events s @ evs \<and> list_all P evs)"

lemma grows_refl [simp]: "grows P s s"
  by (simp add: grows_def)

lemma grows_trans: "grows P s t \<Longrightarrow> grows P t u \<Longrightarrow> grows P s u"
  by (auto simp: grows_def)

lemma grows_mono: "grows P s t \<Longrightarrow> (\<And>ev. P ev \<Longrightarrow> Q ev) \<Longrightarrow> grows Q s t"
  by (auto simp: grows_def list_all_iff)

lemma grows_store [simp]: "grows P s (t\<lparr>rv_store := st\<rparr>) \<longleftrightarrow> grows P s t" "grows P s (t\<lparr>rv_lost := l\<rparr>) \<longleftrightarrow> grows P s t"
  by (simp_all add: grows_def)

lemma grows_said: "grows P s t \<Longrightarrow> P ev \<Longrightarrow> grows P s (said_event ev t)"
  by (auto simp: grows_def said_event_def)

lemma record_state_keeps [simp]:
  "rv_events (record_state e vm st a s) = rv_events s" "rv_lost (record_state e vm st a s) = rv_lost s"
  by (simp_all add: record_state_def Let_def)

lemma grows_record [simp]: "grows P s (record_state e vm st a t) \<longleftrightarrow> grows P s t"
  by (simp add: grows_def)

lemma record_all_keeps [simp]:
  "rv_events (record_all e st a vms s) = rv_events s" "rv_lost (record_all e st a vms s) = rv_lost s"
proof -
  have "rv_events (record_all e st a vms s) = rv_events s \<and> rv_lost (record_all e st a vms s) = rv_lost s"
    unfolding record_all_def by (induction vms arbitrary: s) (auto split: prod.splits)
  then show "rv_events (record_all e st a vms s) = rv_events s" "rv_lost (record_all e st a vms s) = rv_lost s"
    by auto
qed

lemma said_event_keeps [simp]: "rv_lost (said_event ev s) = rv_lost s" "rv_store (said_event ev s) = rv_store s"
  by (simp_all add: said_event_def)

lemma manual_keeps [simp]: "rv_lost (manual e vm a s) = rv_lost s"
  by (simp add: manual_def)

section \<open>Where a VM may restart\<close>

definition may_take :: "round_env \<Rightarrow> protected_row \<Rightarrow> (node_name, int option) dict \<Rightarrow> node_name list \<Rightarrow> node_name \<Rightarrow> bool" where
  "may_take e row on lost n \<longleftrightarrow> n \<notin> set lost \<and> \<not> rn_maintenance e n
     \<and> (\<exists>free. map_of on n = Some free \<and> (\<forall>f. free = Some f \<longrightarrow> memory_mib (pr_xml row) \<le> f))"

lemma set_candidates:
  assumes "dict_ok on"
  shows "set (candidates e vm row pol on lost w) =
    {n. may_take e row on lost n \<and> (\<forall>wh. w = Some wh \<longrightarrow> allowed (rn_rules e) vm n wh)}"
  using assms
  by (cases w) (auto simp: candidates_def may_take_def Let_def map_of_eq_Some_iff image_iff split: option.splits)

lemma policy_record_state [simp]: "policy v (rv_store (record_state e vm st a s)) = policy v (rv_store s)"
  by (simp add: record_state_def Let_def policy_def record_watch_def)

lemma policy_record_restart [simp]: "policy vm (record_restart vm rs st) = (policy vm st)\<lparr>po_restarts := rs\<rparr>"
  by (simp add: policy_def record_restart_def)

lemma try_targets_facts:
  "try_targets e vm row en rc ts s = (r, s') \<Longrightarrow>
     rv_lost s' = rv_lost s
     \<and> grows (\<lambda>ev. (\<exists>n \<in> set ts. ev = Ev_started vm n \<and> r = Runs_on n) \<or> (\<exists>n. ev = Ev_not_started vm n)) s s'
     \<and> (\<forall>n. r = Runs_on n \<longrightarrow> n \<in> set ts \<and> po_restarts (policy vm (rv_store s')) = rc @ [Some (rn_wall e)])"
proof (induction ts arbitrary: s)
  case Nil
  then show ?case by auto
next
  case (Cons t ts)
  let ?P = "\<lambda>ev. (\<exists>n \<in> set (t # ts). ev = Ev_started vm n \<and> r = Runs_on n) \<or> (\<exists>n. ev = Ev_not_started vm n)"
  have next_one: ?case if "try_targets e vm row en rc ts (said_event (Ev_not_started vm t) s) = (r, s')"
  proof -
    have "grows ?P (said_event (Ev_not_started vm t) s) s'"
      by (rule grows_mono [OF conjunct1 [OF conjunct2 [OF Cons.IH [OF that]]]]) auto
    moreover have "grows ?P s (said_event (Ev_not_started vm t) s)" by (simp add: grows_said)
    ultimately have "grows ?P s s'" by (rule grows_trans [rotated])
    with Cons.IH [OF that] show ?thesis by auto
  qed
  show ?case
  proof (cases "rn_start e vm t")
    case (Started_there xml ejected)
    with Cons.prems show ?thesis by (auto simp: Let_def intro!: grows_said)
  next
    case (Libvirt_refused locked)
    with Cons.prems next_one show ?thesis by (auto split: if_splits)
  next
    case Runtime_conflict
    with Cons.prems next_one show ?thesis by simp
  next
    case Other_exception
    with Cons.prems next_one show ?thesis by (auto split: if_splits)
  qed
qed

text \<open>A restart: what it may start, and what it leaves of the hourly budget.\<close>

definition restart_event :: "round_env \<Rightarrow> vm_name \<Rightarrow> protected_row \<Rightarrow> (node_name, int option) dict \<Rightarrow> node_name list \<Rightarrow> node_name option
    \<Rightarrow> ha_event \<Rightarrow> bool" where
  "restart_event e vm row on lost r ev \<longleftrightarrow>
     (\<exists>n. ev = Ev_started vm n \<and> r = Some n \<and> may_take e row on lost n) \<or> (\<exists>n. ev = Ev_not_started vm n)
     \<or> (\<exists>n. ev = Ev_adopted vm n \<and> r = Some n) \<or> (\<exists>a. ev = Ev_manual vm a)"

lemma restart_tried:
  assumes "restart e vm row en on lost w s = (r, s')" and "running_elsewhere (rn_runs e vm) (filter (\<lambda>n. n \<notin> set lost) (keys on)) = None"
    and "length (recent (rn_wall e) (po_restarts (policy vm (rv_store s)))) < RESTARTS_PER_HOUR"
    and "candidates e vm row (policy vm (rv_store s)) on lost None = t # ts"
  shows "\<exists>q u. try_targets e vm row en (recent (rn_wall e) (po_restarts (policy vm (rv_store s)))) (take 2 (t # ts))
      (record_state e vm Ha_recovering (Restarting_on t) s) = (q, u)
    \<and> (case q of Runs_on n \<Rightarrow> r = Some n \<and> s' = u | Left_for_later \<Rightarrow> r = None \<and> s' = u
       | Tried_all \<Rightarrow> r = None \<and> s' = manual e vm Not_started_elsewhere u)"
proof -
  let ?rc = "recent (rn_wall e) (po_restarts (policy vm (rv_store s)))"
  obtain q u where q: "try_targets e vm row en ?rc (take 2 (t # ts)) (record_state e vm Ha_recovering (Restarting_on t) s) = (q, u)"
    by (rule prod.exhaust)
  with assms show ?thesis
    by (cases q) (auto simp: restart_def Let_def simp del: try_targets.simps take_Suc_Cons take_Cons_numeral)
qed

lemma restart_refused:
  assumes "running_elsewhere (rn_runs e vm) (filter (\<lambda>n. n \<notin> set lost) (keys on)) = None"
    and "RESTARTS_PER_HOUR \<le> length (recent (rn_wall e) (po_restarts (policy vm (rv_store s))))
      \<or> candidates e vm row (policy vm (rv_store s)) on lost None = []"
  shows "\<exists>a. restart e vm row en on lost w s = (None, manual e vm a s)"
proof (cases "RESTARTS_PER_HOUR \<le> length (recent (rn_wall e) (po_restarts (policy vm (rv_store s))))")
  case True
  with assms(1) show ?thesis by (auto simp: restart_def Let_def)
next
  case False
  with assms show ?thesis by (auto simp: restart_def Let_def)
qed

lemma restart_facts:
  assumes "restart e vm row en on lost w s = (r, s')" and "dict_ok on"
  shows "rv_lost s' = rv_lost s \<and> grows (restart_event e vm row on lost r) s s'"
proof (cases "running_elsewhere (rn_runs e vm) (filter (\<lambda>n. n \<notin> set lost) (keys on))")
  case (Some n)
  with assms(1) show ?thesis
    by (auto simp: restart_def Let_def restart_event_def intro!: grows_said split: option.splits)
next
  case None
  let ?rc = "recent (rn_wall e) (po_restarts (policy vm (rv_store s)))"
  have man: "grows (restart_event e vm row on lost None) t (manual e vm a t)" for a t
    by (simp add: manual_def grows_said restart_event_def)
  show ?thesis
  proof (cases "RESTARTS_PER_HOUR \<le> length ?rc \<or> candidates e vm row (policy vm (rv_store s)) on lost None = []")
    case True
    with restart_refused [OF None] obtain a where "restart e vm row en on lost w s = (None, manual e vm a s)" by blast
    with assms(1) man [of s a] show ?thesis by auto
  next
    case False
    then obtain t ts where c: "candidates e vm row (policy vm (rv_store s)) on lost None = t # ts" by (meson list.exhaust)
    have cand: "n \<in> set (take 2 (t # ts)) \<Longrightarrow> may_take e row on lost n" for n
      using set_candidates [OF assms(2), of e vm row "policy vm (rv_store s)" lost None] c by (auto dest: in_set_takeD)
    obtain q u where q: "try_targets e vm row en ?rc (take 2 (t # ts)) (record_state e vm Ha_recovering (Restarting_on t) s) = (q, u)"
      and out: "case q of Runs_on n \<Rightarrow> r = Some n \<and> s' = u | Left_for_later \<Rightarrow> r = None \<and> s' = u
         | Tried_all \<Rightarrow> r = None \<and> s' = manual e vm Not_started_elsewhere u"
      using restart_tried [OF assms(1) None _ c] False by auto
    have g: "grows (restart_event e vm row on lost r) s u"
    proof (rule grows_mono)
      show "grows (\<lambda>ev. (\<exists>n \<in> set (take 2 (t # ts)). ev = Ev_started vm n \<and> q = Runs_on n) \<or> (\<exists>n. ev = Ev_not_started vm n)) s u"
        using try_targets_facts [OF q] by (simp add: grows_def)
      show "restart_event e vm row on lost r ev"
        if "(\<exists>n \<in> set (take 2 (t # ts)). ev = Ev_started vm n \<and> q = Runs_on n) \<or> (\<exists>n. ev = Ev_not_started vm n)" for ev
        using that out cand by (auto simp: restart_event_def simp del: take_Suc_Cons take_Cons_numeral)
    qed
    from out g try_targets_facts [OF q] man show ?thesis by (auto split: try_result.splits intro: grows_trans)
  qed
qed

section \<open>What a round restarts\<close>

lemma may_take_less:
  "may_take e row (take_memory t need on) lost n \<Longrightarrow> 0 \<le> need \<Longrightarrow> may_take e row on lost n"
  by (auto simp: may_take_def take_memory_def split: if_splits)

text \<open>The memory of the VMs started on a node, and of those found running there.\<close>

definition started_on :: "(vm_name \<Rightarrow> int) \<Rightarrow> node_name \<Rightarrow> ha_event list \<Rightarrow> int" where
  "started_on need n evs = sum_list (map (\<lambda>ev. case ev of Ev_started v m \<Rightarrow> if m = n then need v else 0 | _ \<Rightarrow> 0) evs)"

lemma started_on_simps [simp]:
  "started_on need n [] = 0" "started_on need n (evs @ fs) = started_on need n evs + started_on need n fs"
  by (simp_all add: started_on_def)

abbreviation started :: "(vm_name \<Rightarrow> int) \<Rightarrow> node_name \<Rightarrow> recovery \<Rightarrow> int" where
  "started need n s \<equiv> started_on need n (rv_events s)"

lemma started_said [simp]:
  "started need n (said_event (Ev_started v m) s) = started need n s + (if m = n then need v else 0)"
  "started need n (said_event (Ev_not_started v m) s) = started need n s"
  "started need n (said_event (Ev_adopted v m) s) = started need n s"
  "started need n (said_event (Ev_manual v a) s) = started need n s"
  "started need n (said_event Ev_not_leader s) = started need n s"
  by (simp_all add: said_event_def started_on_def)

lemma try_targets_started:
  "try_targets e vm row en rc ts s = (r, s') \<Longrightarrow> started need n s' = started need n s + (if r = Runs_on n then need vm else 0)"
proof (induction ts arbitrary: s)
  case Nil
  then show ?case by auto
next
  case (Cons t ts)
  from Cons.prems Cons.IH show ?case
    by (auto simp: Let_def split: start_outcome.splits if_splits)
qed

lemma restart_started:
  assumes "restart e vm row en on lost w s = (r, s')" and "dict_ok on"
  shows "started need n s' = started need n s \<or> (r = Some n \<and> may_take e row on lost n \<and> started need n s' = started need n s + need vm)"
proof (cases "running_elsewhere (rn_runs e vm) (filter (\<lambda>n. n \<notin> set lost) (keys on))")
  case (Some m)
  with assms(1) show ?thesis by (auto simp: restart_def Let_def split: option.splits)
next
  case None
  let ?rc = "recent (rn_wall e) (po_restarts (policy vm (rv_store s)))"
  have man: "started need n (manual e vm a t) = started need n t" for a t by (simp add: manual_def)
  show ?thesis
  proof (cases "RESTARTS_PER_HOUR \<le> length ?rc \<or> candidates e vm row (policy vm (rv_store s)) on lost None = []")
    case True
    with restart_refused [OF None] obtain a where "restart e vm row en on lost w s = (None, manual e vm a s)" by blast
    with assms(1) man show ?thesis by auto
  next
    case False
    then obtain t ts where c: "candidates e vm row (policy vm (rv_store s)) on lost None = t # ts" by (meson list.exhaust)
    obtain q u where q: "try_targets e vm row en ?rc (take 2 (t # ts)) (record_state e vm Ha_recovering (Restarting_on t) s) = (q, u)"
      and out: "case q of Runs_on n \<Rightarrow> r = Some n \<and> s' = u | Left_for_later \<Rightarrow> r = None \<and> s' = u
         | Tried_all \<Rightarrow> r = None \<and> s' = manual e vm Not_started_elsewhere u"
      using restart_tried [OF assms(1) None _ c] False by auto
    have "q = Runs_on n \<Longrightarrow> n \<in> set (take 2 (t # ts))" using try_targets_facts [OF q] by blast
    then have "q = Runs_on n \<Longrightarrow> may_take e row on lost n"
      using set_candidates [OF assms(2), of e vm row "policy vm (rv_store s)" lost None] c by (auto dest: in_set_takeD)
    with out try_targets_started [OF q, of need n] man show ?thesis by (cases q) auto
  qed
qed

lemma restart_each_started:
  assumes "dict_ok on" and "\<forall>v row. (v, row) \<in> set vms \<longrightarrow> need v = memory_mib (pr_xml row) \<and> 0 \<le> need v"
    and "map_of on n = Some (Some f)"
  shows "started need n (restart_each e vms en on lost wh s) \<le> started need n s + max f 0"
  using assms
proof (induction e vms en on lost wh s arbitrary: f rule: restart_each.induct)
  case (1 e en on lost wh s)
  then show ?case by simp
next
  case (2 e vm row vms en on lost wh s)
  have rows: "\<forall>v row. (v, row) \<in> set vms \<longrightarrow> need v = memory_mib (pr_xml row) \<and> 0 \<le> need v"
    using "2.prems"(2) by (meson list.set_intros(2))
  have need: "need vm = memory_mib (pr_xml row)" "0 \<le> need vm" using "2.prems"(2) [rule_format, of vm row] by auto
  show ?case
  proof (cases "\<not> rn_may_act e vm \<or> (case protected_vm (rn_me e) vm (rv_store s) of None \<Rightarrow> False | Some r \<Rightarrow> pr_state r = Some Ha_manual)")
    case True
    with "2.IH"(1) "2.prems" show ?thesis by auto
  next
    case False
    obtain r s1 where r: "restart e vm row en on lost (Some wh) s = (r, s1)" by (rule prod.exhaust)
    note new = restart_started [OF r "2.prems"(1), of need n]
    show ?thesis
    proof (cases r)
      case None
      with False r new "2.IH"(2) [of r s1 f] "2.prems" show ?thesis by auto
    next
      case (Some t)
      let ?on = "take_memory t (memory_mib (pr_xml row)) on"
      have ok: "dict_ok ?on" using "2.prems"(1) by (simp add: take_memory_def)
      have f': "map_of ?on n = Some (Some (if t = n then f - need vm else f))"
        using "2.prems"(3) need by (auto simp: take_memory_def)
      have "started need n (restart_each e vms en ?on lost (dict_set vm t wh) s1) \<le> started need n s1 + max (if t = n then f - need vm else f) 0"
        by (rule "2.IH"(3) [OF _ _ r [symmetric] Some ok rows f']) (use False in auto)
      moreover have "may_take e row on lost n \<Longrightarrow> need vm \<le> f"
        using "2.prems"(3) need by (auto simp: may_take_def)
      ultimately show ?thesis using False r Some new need by (auto split: if_splits)
    qed
  qed
qed

definition start_ok :: "round_env \<Rightarrow> (vm_name \<times> protected_row) list \<Rightarrow> (node_name, int option) dict \<Rightarrow> node_name list \<Rightarrow> ha_event \<Rightarrow> bool" where
  "start_ok e vms on lost ev \<longleftrightarrow> (\<forall>v n. ev = Ev_started v n \<longrightarrow> (\<exists>row. (v, row) \<in> set vms \<and> may_take e row on lost n))"

lemma restart_each_events:
  assumes "dict_ok on" and "\<forall>v row. (v, row) \<in> set vms \<longrightarrow> 0 \<le> memory_mib (pr_xml row)"
  shows "rv_lost (restart_each e vms en on lost wh s) = rv_lost s
    \<and> grows (start_ok e vms on lost) s (restart_each e vms en on lost wh s)"
  using assms
proof (induction e vms en on lost wh s rule: restart_each.induct)
  case (1 e en on lost wh s)
  then show ?case by simp
next
  case (2 e vm row vms en on lost wh s)
  have need: "0 \<le> memory_mib (pr_xml row)" using "2.prems"(2) [rule_format, of vm row] by auto
  have more: "start_ok e vms on lost ev \<Longrightarrow> start_ok e ((vm, row) # vms) on lost ev" for ev on
    by (auto simp: start_ok_def)
  show ?case
  proof (cases "\<not> rn_may_act e vm")
    case True
    then show ?thesis by (simp add: grows_said start_ok_def)
  next
    case may: False
    show ?thesis
    proof (cases "case protected_vm (rn_me e) vm (rv_store s) of None \<Rightarrow> False | Some r \<Rightarrow> pr_state r = Some Ha_manual")
      case True
      with may "2.IH"(1) "2.prems" show ?thesis by (auto intro: grows_mono more)
    next
      case False
      obtain r s1 where r: "restart e vm row en on lost (Some wh) s = (r, s1)" by (rule prod.exhaust)
      have first: "rv_lost s1 = rv_lost s" "grows (start_ok e ((vm, row) # vms) on lost) s s1"
        using restart_facts [OF r "2.prems"(1)] by (auto elim!: grows_mono simp: restart_event_def start_ok_def)
      show ?thesis
      proof (cases r)
        case None
        with may False r "2.IH"(2) [of r s1] "2.prems"
        have rest: "rv_lost (restart_each e vms en on lost wh s1) = rv_lost s1"
          "grows (start_ok e vms on lost) s1 (restart_each e vms en on lost wh s1)" by auto
        from grows_trans [OF first(2) grows_mono [OF rest(2) more]] first(1) rest(1) may False r None show ?thesis by simp
      next
        case (Some t)
        let ?on = "take_memory t (memory_mib (pr_xml row)) on"
        have "dict_ok ?on" using "2.prems"(1) by (simp add: take_memory_def)
        with may False r Some "2.IH"(3) [of r s1 t] "2.prems"(2)
        have rest: "rv_lost (restart_each e vms en ?on lost (dict_set vm t wh) s1) = rv_lost s1"
          "grows (start_ok e vms ?on lost) s1 (restart_each e vms en ?on lost (dict_set vm t wh) s1)" by auto
        have "start_ok e ((vm, row) # vms) on lost ev" if "start_ok e vms ?on lost ev" for ev
          using that may_take_less [OF _ need] unfolding start_ok_def by (metis list.set_intros(2))
        with rest(2) have "grows (start_ok e ((vm, row) # vms) on lost) s1 (restart_each e vms en ?on lost (dict_set vm t wh) s1)"
          by (rule grows_mono)
        with grows_trans [OF first(2) this] first(1) rest(1) may False r Some show ?thesis by simp
      qed
    qed
  qed
qed

lemma dict_ok_online: "dict_ok (online e)"
  by (simp add: online_def)

lemma restart_all_events:
  assumes "\<forall>v row. (v, row) \<in> set vms \<longrightarrow> 0 \<le> memory_mib (pr_xml row)"
  shows "rv_lost (restart_all e vms en (online e) lost s) = rv_lost s"
    and "grows (start_ok e vms (online e) lost) s (restart_all e vms en (online e) lost s)"
  using restart_each_events [OF dict_ok_online assms] by (simp_all add: restart_all_def)

end
