(* ===== verification/Ha_Round.thy ===== *)
theory Ha_Round
  imports Ha_Recovery_Props
begin

text \<open>
  Whole rounds of \<^verbatim>\<open>Ha_Recovery\<close>: nothing is started before its node was known to be stopped, a VM found
  running is never started, the hourly budget of automatic restarts, a node that does not lead does nothing;
  and the two places where the code does not do what its documentation says: the must rules of load balancing
  are not looked at on a restart, and a member whose heartbeat stops while it keeps the quorum is taken for
  reset before its watchdog may have reset it.
\<close>

section \<open>Starts of a round\<close>

definition no_start :: "ha_event \<Rightarrow> bool" where
  "no_start ev \<longleftrightarrow> (\<nexists>v n. ev = Ev_started v n)"

definition good_start :: "round_env \<Rightarrow> (vm_name \<times> protected_row) list \<Rightarrow> node_name \<Rightarrow> recovery \<Rightarrow> ha_event \<Rightarrow> bool" where
  "good_start e rows m s' ev \<longleftrightarrow> (\<forall>v n. ev = Ev_started v n \<longrightarrow> (\<exists>row en. (v, row) \<in> set rows \<and> pr_node row = m
     \<and> map_of (rv_lost s') m = Some en \<and> lo_fenced_at en \<noteq> None \<and> may_take e row (online e) (keys (rv_lost s')) n))"

lemma no_start_good: "grows no_start s t \<Longrightarrow> grows (good_start e rows m s') s t"
  by (erule grows_mono) (auto simp: no_start_def good_start_def)

lemma round_restarts:
  assumes "grows no_start s t" and "map_of (rv_lost t) m = Some en" and "lo_fenced_at en \<noteq> None"
    and vms: "\<forall>v row. (v, row) \<in> set vms \<longrightarrow> (v, row) \<in> set rows \<and> pr_node row = m"
    and mem: "\<forall>v row. (v, row) \<in> set rows \<longrightarrow> 0 \<le> memory_mib (pr_xml row)"
    and s': "s' = restart_all e vms en' (online e) (keys (rv_lost t)) t"
  shows "grows (good_start e rows m s') s s'"
proof -
  have mem': "\<forall>v row. (v, row) \<in> set vms \<longrightarrow> 0 \<le> memory_mib (pr_xml row)" using vms mem by blast
  have lost: "rv_lost s' = rv_lost t" unfolding s' by (rule restart_all_events(1) [OF mem'])
  have "grows (good_start e rows m s') t s'"
  proof (rule grows_mono)
    show "grows (start_ok e vms (online e) (keys (rv_lost t))) t s'" unfolding s' by (rule restart_all_events(2) [OF mem'])
    fix ev
    assume "start_ok e vms (online e) (keys (rv_lost t)) ev"
    then show "good_start e rows m s' ev"
      unfolding start_ok_def good_start_def lost using vms assms(2,3) by fastforce
  qed
  from grows_trans [OF no_start_good [OF assms(1)] this] show ?thesis .
qed

lemma member_vms_rows: "(v, row) \<in> set (member_vms rows m st) \<longleftrightarrow> (v, row) \<in> set rows \<and> pr_node row = m"
  by (auto simp: member_vms_def)

lemma seen_member_starts:
  assumes "seen_member e m vms s = (st, s')" and vms: "\<forall>v row. (v, row) \<in> set vms \<longrightarrow> (v, row) \<in> set rows \<and> pr_node row = m"
    and mem: "\<forall>v row. (v, row) \<in> set rows \<longrightarrow> 0 \<le> memory_mib (pr_xml row)"
  shows "grows (good_start e rows m s') s s'"
proof (cases "map_of (rv_lost s) m")
  case None
  with assms(1) show ?thesis by (simp add: seen_member_def)
next
  case (Some en)
  have gone: "grows (good_start e rows m x) s (member_back m t)" if "rv_events t = rv_events s" for t x
    using that by (intro no_start_good) (auto simp: grows_def member_back_def said_event_def no_start_def)
  show ?thesis
  proof (cases "lo_fenced_at en")
    case None
    let ?running = "running_names (rn_status_vms e m)"
    let ?stopped = "filter (\<lambda>(v, _). v \<notin> set ?running \<and> (case lo_ran en of None \<Rightarrow> True | Some rs \<Rightarrow> v \<in> set rs)) vms"
    let ?s1 = "record_all e Ha_ok (Answers_again m) (filter (\<lambda>(v, _). v \<in> set ?running) vms) s"
    let ?en = "en\<lparr>lo_fenced_at := Some (rn_now e), lo_recovering := Some (map fst ?stopped)\<rparr>"
    let ?s2 = "said_event (Ev_fenced m None) (set_entry m ?en ?s1)"
    show ?thesis
    proof (cases "?stopped = []")
      case True
      with assms(1) Some None gone [of ?s1] show ?thesis by (simp add: seen_member_def Let_def)
    next
      case False
      with assms(1) Some None have s': "s' = restart_all e ?stopped ?en (online e) (keys (rv_lost ?s2)) ?s2"
        by (simp add: seen_member_def Let_def)
      show ?thesis
      proof (rule round_restarts [OF _ _ _ _ mem s'])
        show "grows no_start s ?s2"
          by (rule grows_said) (simp_all add: set_entry_def no_start_def grows_def)
        show "map_of (rv_lost ?s2) m = Some ?en" by (simp add: set_entry_def)
      qed (use vms in auto)
    qed
  next
    case (Some f)
    let ?left = "filter (\<lambda>(v, _). v \<in> set (case lo_recovering en of None \<Rightarrow> [] | Some r \<Rightarrow> r)) vms"
    show ?thesis
    proof (cases "?left = []")
      case True
      with assms(1) Some \<open>map_of (rv_lost s) m = Some en\<close> gone [of s] show ?thesis by (simp add: seen_member_def Let_def)
    next
      case False
      with assms(1) Some \<open>map_of (rv_lost s) m = Some en\<close>
      have s': "s' = restart_all e ?left en (online e) (keys (rv_lost s)) s"
        by (simp add: seen_member_def Let_def)
      show ?thesis
        by (rule round_restarts [OF _ \<open>map_of (rv_lost s) m = Some en\<close> _ _ mem s']) (use vms Some in auto)
    qed
  qed
qed

lemma notice_facts:
  assumes "notice e m vms s = (en, vms', s')"
  shows "grows no_start s s'" "map_of (rv_lost s') m = Some en" "set vms' \<subseteq> set vms"
  using assms
  by (auto simp: notice_def Let_def set_entry_def no_start_def grows_def said_event_def split: option.splits if_splits)

lemma fenced_events: "fenced e m st en = (v, en', evs) \<Longrightarrow> list_all no_start evs"
  by (auto simp: fenced_def ask_bmc_def no_start_def Let_def split: option.splits if_splits)

lemma lost_member_starts:
  assumes "lost_member e m vms0 s0 = (st, s')" and vms0: "\<forall>v row. (v, row) \<in> set vms0 \<longrightarrow> (v, row) \<in> set rows \<and> pr_node row = m"
    and mem: "\<forall>v row. (v, row) \<in> set rows \<longrightarrow> 0 \<le> memory_mib (pr_xml row)"
  shows "grows (good_start e rows m s') s0 s'"
proof -
  obtain en vms s where n: "notice e m vms0 s0 = (en, vms, s)" by (rule prod_cases3)
  have vms: "\<forall>v row. (v, row) \<in> set vms \<longrightarrow> (v, row) \<in> set rows \<and> pr_node row = m"
    using vms0 notice_facts(3) [OF n] by blast
  show ?thesis
  proof (cases "lo_fenced_at en")
    case (Some f)
    with assms(1) n have s': "s' = restart_all e vms en (online e) (keys (rv_lost s)) s" by (simp add: lost_member_def)
    show ?thesis
      by (rule round_restarts [OF notice_facts(1,2) [OF n] _ vms mem s']) (simp add: Some)
  next
    case None
    obtain v en1 evs where f: "fenced e m (rv_store s) en = (v, en1, evs)" by (rule prod_cases3)
    let ?s1 = "set_entry m en1 (s\<lparr>rv_events := rv_events s @ evs\<rparr>)"
    have "grows no_start s ?s1" using fenced_events [OF f] by (auto simp: grows_def set_entry_def)
    then have g: "grows no_start s0 ?s1" by (rule grows_trans [OF notice_facts(1) [OF n]])
    show ?thesis
    proof (cases v)
      case (Fenced why)
      let ?en = "en1\<lparr>lo_fenced_at := Some (rn_now e), lo_recovering := Some (map fst vms)\<rparr>"
      let ?s2 = "said_event (Ev_fenced m (Some why)) (set_entry m ?en ?s1)"
      from Fenced assms(1) n None f have s': "s' = restart_all e vms ?en (online e) (keys (rv_lost ?s2)) ?s2"
        by (simp add: lost_member_def Let_def)
      show ?thesis
      proof (rule round_restarts [OF _ _ _ vms mem s'])
        show "grows no_start s0 ?s2" using g by (intro grows_said) (simp_all add: set_entry_def no_start_def)
        show "map_of (rv_lost ?s2) m = Some ?en" by (simp add: set_entry_def)
      qed simp
    next
      case (Not_yet why)
      with assms(1) n None f g show ?thesis by (auto simp: lost_member_def Let_def grows_def no_start_def good_start_def list_all_iff)
    next
      case (Never why)
      with assms(1) n None f g show ?thesis by (auto simp: lost_member_def Let_def grows_def no_start_def good_start_def list_all_iff)
    qed
  qed
qed

lemma may_take_online: "may_take e row (online e) lost n \<Longrightarrow> n \<in> set (keys (online e))"
  by (auto simp: may_take_def dest: map_of_in_keys)


section \<open>The hourly budget, and a VM found running\<close>

text \<open>One automatic restart of a VM at most per attempt and three an hour: an attempt that finds the VM
  running elsewhere adopts it and starts nothing; with three automatic restarts in the last hour, or no member
  to take it, the VM goes to an administrator and nothing is started; and when it is started, the list kept is
  the restarts of the last hour and this one, three at most.\<close>

theorem restart_budget:
  assumes "restart e vm row en on lost w s = (r, s')" and "dict_ok on"
  shows "(\<forall>n. running_elsewhere (rn_runs e vm) (filter (\<lambda>n. n \<notin> set lost) (keys on)) = Some n \<longrightarrow>
            r = Some n \<and> rv_events s' = rv_events s @ [Ev_adopted vm n])
    \<and> (running_elsewhere (rn_runs e vm) (filter (\<lambda>n. n \<notin> set lost) (keys on)) = None \<and>
        RESTARTS_PER_HOUR \<le> length (recent (rn_wall e) (po_restarts (policy vm (rv_store s)))) \<longrightarrow>
            r = None \<and> (\<exists>a. rv_events s' = rv_events s @ [Ev_manual vm a]))
    \<and> (running_elsewhere (rn_runs e vm) (filter (\<lambda>n. n \<notin> set lost) (keys on)) = None \<and> r \<noteq> None \<longrightarrow>
            po_restarts (policy vm (rv_store s')) = recent (rn_wall e) (po_restarts (policy vm (rv_store s))) @ [Some (rn_wall e)]
            \<and> length (po_restarts (policy vm (rv_store s'))) \<le> RESTARTS_PER_HOUR)"
proof (cases "running_elsewhere (rn_runs e vm) (filter (\<lambda>n. n \<notin> set lost) (keys on))")
  case (Some n)
  with assms(1) show ?thesis by (auto simp: restart_def Let_def said_event_def split: option.splits)
next
  case None
  let ?rc = "recent (rn_wall e) (po_restarts (policy vm (rv_store s)))"
  show ?thesis
  proof (cases "RESTARTS_PER_HOUR \<le> length ?rc \<or> candidates e vm row (policy vm (rv_store s)) on lost None = []")
    case True
    with restart_refused [OF None] obtain a where "restart e vm row en on lost w s = (None, manual e vm a s)" by blast
    with assms(1) None show ?thesis by (auto simp: manual_def said_event_def)
  next
    case False
    then obtain t ts where c: "candidates e vm row (policy vm (rv_store s)) on lost None = t # ts" by (meson list.exhaust)
    obtain q u where q: "try_targets e vm row en ?rc (take 2 (t # ts)) (record_state e vm Ha_recovering (Restarting_on t) s) = (q, u)"
      and out: "case q of Runs_on n \<Rightarrow> r = Some n \<and> s' = u | Left_for_later \<Rightarrow> r = None \<and> s' = u
         | Tried_all \<Rightarrow> r = None \<and> s' = manual e vm Not_started_elsewhere u"
      using restart_tried [OF assms(1) None _ c] False by auto
    have "po_restarts (policy vm (rv_store s')) = ?rc @ [Some (rn_wall e)]" if "r \<noteq> None"
      using try_targets_facts [OF q] out that by (cases q) auto
    with None False show ?thesis by (auto simp: RESTARTS_PER_HOUR_def)
  qed
qed

text \<open>A node that is alone, does not lead or lacks the quorum starts nothing.\<close>

lemma no_lead_no_round:
  assumes "\<not> (rn_in_cluster e \<and> rn_leader e \<and> \<not> rn_read_only e)"
  shows "tick_ha e s = ([], s\<lparr>rv_lost := []\<rparr>)"
  using assms by (auto simp: tick_ha_def)

section \<open>Memory and proofs of a fence\<close>


text \<open>C23: a member counts as stopped only on a proof: its service did not say it stopped normally, and either
  its BMC or AMT said it is off (now, or at an earlier attempt), or its watchdog was armed with a known reset
  time and that time and the margin passed since the member was last seen.\<close>

theorem fenced_only_on_proof:
  assumes "fenced e m st en = (Fenced why, en', evs)"
  shows "\<not> (\<exists>p. rn_published e m = Some p \<and> en_stopped p)
    \<and> ((\<exists>b. bmc_method e m st = Some b \<and> (rn_power_off e m \<or> lo_bmc en = Some True))
       \<or> (\<exists>p w. rn_published e m = Some p \<and> en_armed p \<and> en_reset_within p = Some w \<and> w \<noteq> 0
            \<and> of_int (w + WATCHDOG_MARGIN_S) \<le> rn_now e - lo_last_seen en))"
proof -
  have wd: "\<exists>p w. pub = Some p \<and> en_armed p \<and> en_reset_within p = Some w \<and> w \<noteq> 0 \<and> of_int (w + WATCHDOG_MARGIN_S) \<le> rn_now e - lo_last_seen x"
    if "watchdog_verdict e pub bmc x = Fenced why" for pub bmc x
    using that by (auto simp: watchdog_verdict_def without_watchdog_def num_true_def split: option.splits if_splits)
  show ?thesis
  proof (cases "bmc_method e m st")
    case None
    with assms wd [of "rn_published e m" None en] show ?thesis
      by (auto simp: fenced_def Let_def split: option.splits if_splits)
  next
    case (Some b)
    obtain en1 evs1 where a: "ask_bmc e m en = (en1, evs1)" by (rule prod.exhaust)
    then have "lo_last_seen en1 = lo_last_seen en" "lo_bmc en1 = Some True \<Longrightarrow> rn_power_off e m \<or> lo_bmc en = Some True"
      by (auto simp: ask_bmc_def split: if_splits)
    with assms Some a wd [of "rn_published e m" "Some b" en1] show ?thesis
      by (auto simp: fenced_def Let_def split: option.splits if_splits)
  qed
qed

section \<open>A concrete cluster\<close>

definition sample_xml :: domain_xml where
  "sample_xml = \<lparr>dx_memory = Some (''1048576'', Some ''kib''), dx_rest = []\<rparr>"

definition sample_row :: protected_row where
  "sample_row = \<lparr>pr_node = ''n2'', pr_xml = Some sample_xml, pr_enabled_by = ''admin'', pr_enabled_at = 1, pr_synced_at = 1,
     pr_state = None, pr_action = None, pr_action_at = None\<rparr>"

definition sample_ha :: ha_store where
  "sample_ha = \<lparr>hs_protected = [(''a'', sample_row)], hs_policies = [], hs_monitoring = [], hs_settings = [], hs_fencing = []\<rparr>"

definition sample_recovery :: recovery where
  "sample_recovery = \<lparr>rv_lost = [], rv_store = sample_ha, rv_events = []\<rparr>"

definition sample_lost :: lost_entry where
  "sample_lost = \<lparr>lo_ran = Some [''a''], lo_last_seen = 800, lo_bmc = None, lo_bmc_tries = 0, lo_bmc_at = 0,
     lo_fenced_at = Some 1000, lo_recovering = Some [''a'']\<rparr>"

definition sample_round :: round_env where
  "sample_round = \<lparr>rn_now = 1000, rn_wall = 5000, rn_in_cluster = True, rn_leader = True, rn_read_only = False,
     rn_me = ''n1'', rn_members = [''n2'', ''n3''],
     rn_latest = [(''n2'', (200, [\<lparr>ve_name = ''a'', ve_state = ''active'', ve_vmid = None\<rparr>])), (''n3'', (5, []))],
     rn_free = (\<lambda>n. if n = ''n3'' then Some 4096 else Some 512), rn_status_vms = (\<lambda>_. []), rn_maintenance = (\<lambda>_. False),
     rn_published = (\<lambda>_. Some \<lparr>en_armed = True, en_delay = Some 60, en_reset_within = Some 125, en_stopped = False\<rparr>),
     rn_power_off = (\<lambda>_. False), rn_placement = [(''b'', ''n3'')], rn_rules = sample_store,
     rn_runs = (\<lambda>_ _. Some False), rn_runs_after = (\<lambda>_ _. Some False),
     rn_start = (\<lambda>_ _. Started_there sample_xml []), rn_may_act = (\<lambda>_. True)\<rparr>"

lemma sample_round_simps [simp]:
  "rn_now sample_round = 1000" "rn_wall sample_round = 5000" "rn_me sample_round = ''n1''" "rn_members sample_round = [''n2'', ''n3'']"
  "rn_runs sample_round = (\<lambda>_ _. Some False)" "rn_start sample_round = (\<lambda>_ _. Started_there sample_xml [])"
  "rn_may_act sample_round = (\<lambda>_. True)" "rn_maintenance sample_round = (\<lambda>_. False)" "rn_rules sample_round = sample_store"
  "rn_placement sample_round = [(''b'', ''n3'')]"
  "rn_published sample_round n = Some \<lparr>en_armed = True, en_delay = Some 60, en_reset_within = Some 125, en_stopped = False\<rparr>"
  by (simp_all add: sample_round_def)

lemma sample_ages: "ages sample_round ''n2'' = Some 200" "ages sample_round ''n3'' = Some 5"
  by (simp_all add: ages_def sample_round_def)

lemma sample_online: "online sample_round = [(''n1'', Some 512), (''n3'', Some 4096)]"
proof -
  have "filter (\<lambda>n. case ages sample_round n of None \<Rightarrow> False | Some a \<Rightarrow> a \<le> LOST_S) (rn_members sample_round) = [''n3'']"
    by (simp add: sample_ages LOST_S_def)
  moreover have "rn_free sample_round ''n1'' = Some 512" "rn_free sample_round ''n3'' = Some 4096"
    by (simp_all add: sample_round_def)
  ultimately show ?thesis unfolding online_def dict_of_def by simp
qed

lemma sample_memory: "memory_mib (Some sample_xml) = 1024"
proof -
  have "int_of_text ''1048576'' = Some 1048576"
    by (simp add: int_of_text_def strip_chars_def is_blank_def str_isdigit_def is_digit_def less_eq_char_def nat_of_digits_def
        digit_value_def Let_def)
  moreover have "str_lower ''kib'' = ''kib''" by (simp add: str_lower_def lower_char_def is_upper_def less_eq_char_def)
  ultimately show ?thesis by (simp add: memory_mib_def sample_xml_def unit_factor_def int_trunc_def)
qed

lemma sample_candidates:
  "candidates sample_round ''a'' sample_row default_policy (online sample_round) [''n2''] None = [''n3'']"
  unfolding sample_online
  by (simp add: candidates_def Let_def sample_row_def sample_memory default_policy_def)

lemma sample_policy: "policy ''a'' (rv_store sample_recovery) = default_policy"
  by (simp add: policy_def sample_recovery_def sample_ha_def)

lemma sample_restart:
  "fst (restart sample_round ''a'' sample_row sample_lost (online sample_round) [''n2''] w s) = Some ''n3''"
  if "policy ''a'' (rv_store s) = default_policy" for w s
  using that sample_candidates
  by (auto simp: restart_def Let_def sample_online recent_def default_policy_def RESTARTS_PER_HOUR_def)

definition sample_second :: recovery where
  "sample_second = sample_recovery\<lparr>rv_lost := [(''n2'', sample_lost)]\<rparr>"

lemma sample_lost_member:
  "member_round sample_round [(''a'', sample_row)] ''n2'' sample_second =
     (Ha_recovering, restart_all sample_round [(''a'', sample_row)] sample_lost (online sample_round) [''n2''] sample_second)"
  by (simp add: member_round_def sample_ages LOST_S_def lost_member_def notice_def Let_def set_entry_def sample_second_def
      sample_lost_def member_vms_def sample_row_def)

lemma sample_restart_all:
  "restart_all sample_round [(''a'', sample_row)] sample_lost (online sample_round) [''n2''] sample_second
   = snd (restart sample_round ''a'' sample_row sample_lost (online sample_round) [''n2''] (Some [(''b'', ''n3'')]) sample_second)"
proof -
  have "protected_vm ''n1'' ''a'' (rv_store sample_second) = Some (of_row ''n1'' sample_row)"
    by (simp add: protected_vm_def sample_second_def sample_recovery_def sample_ha_def)
  moreover have "pr_state (of_row ''n1'' sample_row) \<noteq> Some Ha_manual" by (simp add: of_row_def sample_row_def)
  ultimately show ?thesis
    by (simp add: restart_all_def restart_each.simps split: prod.splits option.splits)
qed

lemma sample_policy_second: "policy ''a'' (rv_store sample_second) = default_policy"
  by (simp add: policy_def sample_second_def sample_recovery_def sample_ha_def)

lemma sample_started:
  "rv_events (snd (restart sample_round ''a'' sample_row sample_lost (online sample_round) [''n2''] w sample_second)) = [Ev_started ''a'' ''n3'']"
  using sample_candidates sample_policy_second
  by (simp add: restart_def Let_def sample_online recent_def default_policy_def RESTARTS_PER_HOUR_def sample_second_def
      sample_recovery_def said_event_def)



theorem restart_budget_witness:
  "\<exists>s'. restart sample_round ''a'' sample_row sample_lost (online sample_round) [''n2''] None sample_second = (Some ''n3'', s')
     \<and> po_restarts (policy ''a'' (rv_store s')) = [Some 5000]"
proof -
  obtain s' where r: "restart sample_round ''a'' sample_row sample_lost (online sample_round) [''n2''] None sample_second = (Some ''n3'', s')"
    using sample_restart [OF sample_policy_second, of None] by (metis prod.collapse)
  have "running_elsewhere (rn_runs sample_round ''a'') (filter (\<lambda>n. n \<notin> set [''n2'']) (keys (online sample_round))) = None"
    by (simp add: sample_online)
  moreover note restart_budget [OF r dict_ok_online]
  moreover have "recent 5000 (po_restarts (policy ''a'' (rv_store sample_second))) = []"
    by (simp add: sample_policy_second default_policy_def recent_def)
  ultimately show ?thesis using r by auto
qed

theorem fenced_only_on_proof_witness:
  "\<exists>en'. fenced sample_round ''n2'' sample_ha (sample_lost\<lparr>lo_fenced_at := None\<rparr>) = (Fenced Watchdog_passed, en', [])
     \<and> \<not> (\<exists>p. rn_published sample_round ''n2'' = Some p \<and> en_stopped p)"
proof -
  have "fenced sample_round ''n2'' sample_ha (sample_lost\<lparr>lo_fenced_at := None\<rparr>) = (Fenced Watchdog_passed, sample_lost\<lparr>lo_fenced_at := None\<rparr>, [])"
    by (simp add: fenced_def Let_def bmc_method_def get_fencing_def fencing_def sample_ha_def watchdog_verdict_def num_true_def
        WATCHDOG_MARGIN_S_def sample_lost_def)
  with fenced_only_on_proof [OF this] show ?thesis by blast
qed

section \<open>The must rules are not looked at\<close>

text \<open>An automatic restart never looks at where the other VMs run: its outcome is the same whatever
  \<open>where\<close> says, and there is a cluster in which it starts a VM on a member a must rule keeps it off, with \<open>where\<close>
  saying so.\<close>

theorem restart_ignores_must_rules:
  "restart e vm row en on lost w1 s = restart e vm row en on lost w2 s
   \<and> (\<exists>e vm row en on lost wh s n s'. restart e vm row en on lost (Some wh) s = (Some n, s') \<and> Ev_started vm n \<in> set (rv_events s')
        \<and> \<not> allowed (rn_rules e) vm n wh)"
proof -
  let ?wh = "[(''b'', ''n3'')]"
  have "\<exists>s'. restart sample_round ''a'' sample_row sample_lost (online sample_round) [''n2''] (Some ?wh) sample_second = (Some ''n3'', s')
      \<and> Ev_started ''a'' ''n3'' \<in> set (rv_events s')"
    using sample_restart [OF sample_policy_second, of "Some ?wh"] sample_started [of "Some ?wh"]
    by (metis list.set_intros(1) prod.collapse)
  moreover have "\<not> allowed (rn_rules sample_round) ''a'' ''n3'' ?wh"
    by (simp add: allowed_def broken_def breaks_def rules_def sample_store_def sample_apart_def)
  moreover have "restart e vm row en on lost w1 s = restart e vm row en on lost w2 s"
    by (simp add: restart_def)
  ultimately show ?thesis by blast
qed

section \<open>The watchdog's reset and the leader's wait\<close>

lemma fed_by:
  assumes "wd_fed_at s \<le> b" and "\<forall>r. Round r \<in> set es \<longrightarrow> we_quorum r \<longrightarrow> we_now r \<le> b"
  shows "wd_fed_at (wd_run es s) \<le> b"
  using assms
proof (induction es arbitrary: s)
  case Nil
  then show ?case by simp
next
  case (Cons ev es)
  have "wd_fed_at (wd_do ev s) \<le> b"
  proof (cases ev)
    case (Round r)
    have "wd_fed_at (tick r s) = wd_fed_at s \<or> (wd_fed_at (tick r s) = we_now r \<and> we_quorum r)"
      by (auto simp: wd_defs split: option.splits if_splits)
    with Cons.prems Round show ?thesis by auto
  next
    case (Stops r)
    with Cons.prems(1) show ?thesis by (simp add: wd_defs)
  qed
  with Cons show ?case by simp
qed

text \<open>The leader waits for the reset of a member cut off from the majority: when the member had no quorum
  any more thirty-five seconds after the leader last saw it, then by the time the leader takes it for reset by
  its watchdog, twice the device's timeout passed since the watchdog was last fed, so the device reset it.\<close>

theorem leader_waits_for_reset:
  assumes "wd_fed_at s \<le> lo_last_seen en + of_int (FEED_S + WATCHDOG_MARGIN_S)"
    and "\<forall>r. Round r \<in> set es \<longrightarrow> we_quorum r \<longrightarrow> we_now r \<le> lo_last_seen en + of_int (FEED_S + WATCHDOG_MARGIN_S)"
    and "rn_published e m = Some p" and "wd_timeout (wd_run es s) = Some t" and "en_reset_within p = reset_within (Some t)"
    and "watchdog_verdict e (rn_published e m) bmc en = Fenced Watchdog_passed"
  shows "wd_fed_at (wd_run es s) + of_int (2 * t) \<le> rn_now e"
proof -
  have "wd_fed_at (wd_run es s) \<le> lo_last_seen en + of_int (FEED_S + WATCHDOG_MARGIN_S)" using fed_by assms(1,2) by blast
  moreover have "en_reset_within p \<noteq> None \<and> of_int (the (en_reset_within p) + WATCHDOG_MARGIN_S) \<le> rn_now e - lo_last_seen en"
    using assms(3,6) by (auto simp: watchdog_verdict_def without_watchdog_def num_true_def split: option.splits if_splits)
  ultimately show ?thesis using assms(5) by (auto simp: reset_within_def split: if_splits)
qed

theorem leader_waits_for_reset_witness:
  "wd_fed_at (wd_run [Round (sample_env\<lparr>we_now := 790\<rparr>)] (wd_start None)) + of_int (2 * 60) \<le> rn_now sample_round"
proof (rule leader_waits_for_reset [where en = sample_lost and e = sample_round and m = "''n2''" and bmc = None])
  show "rn_published sample_round ''n2'' = Some \<lparr>en_armed = True, en_delay = Some 60, en_reset_within = Some 125, en_stopped = False\<rparr>"
    by (simp add: sample_round_def)
  show "watchdog_verdict sample_round (rn_published sample_round ''n2'') None sample_lost = Fenced Watchdog_passed"
    by (simp add: watchdog_verdict_def num_true_def WATCHDOG_MARGIN_S_def sample_lost_def)
  show "wd_timeout (wd_run [Round (sample_env\<lparr>we_now := 790\<rparr>)] (wd_start None)) = Some 60"
    by (simp add: wd_defs sample_env_def wd_start_def MIN_TIMEOUT_S_def FEED_S_def)
qed (simp_all add: wd_start_def sample_lost_def FEED_S_def WATCHDOG_MARGIN_S_def sample_env_def reset_within_def)

text \<open>A member whose heartbeat stops while it keeps the quorum is taken for reset too early: it feeds its
  watchdog until its last heartbeat is forty seconds old, while the leader counts thirty-five seconds and the
  reset time from that same heartbeat. In this run the leader starts the recovery while the member's watchdog,
  last fed thirty-nine seconds after its last heartbeat, has not had twice its timeout to reset it.\<close>

theorem leader_may_act_before_reset:
  "\<exists>es s e en. wd_run es (wd_start None) = s \<and> wd_open s
     \<and> list_all (\<lambda>ev. case ev of Round r \<Rightarrow> we_quorum r \<and> we_now r - we_heartbeat_age r \<le> lo_last_seen en
         | Stops r \<Rightarrow> False) es
     \<and> rn_published e ''n2'' = wd_entry s
     \<and> fst (fenced e ''n2'' sample_ha en) = Fenced Watchdog_passed
     \<and> rn_now e < wd_fed_at s + of_int (2 * the (wd_timeout s))"
proof -
  let ?es = "[Round (sample_env\<lparr>we_now := 90\<rparr>), Round (sample_env\<lparr>we_now := 139, we_heartbeat_age := 39\<rparr>)]"
  let ?p = "\<lparr>en_armed = True, en_delay = Some 60, en_reset_within = Some 125, en_stopped = False\<rparr>"
  let ?s = "\<lparr>wd_open = True, wd_timeout = Some 60, wd_problem = None, wd_starving = False, wd_unpublished_start = False,
     wd_stop = False, wd_fed_at = 139, wd_entry = Some ?p\<rparr>"
  let ?e = "sample_round\<lparr>rn_now := 255\<rparr>"
  let ?en = "sample_lost\<lparr>lo_last_seen := 100, lo_fenced_at := None\<rparr>"
  have "wd_run ?es (wd_start None) = ?s"
    by (simp add: wd_defs sample_env_def wd_start_def heartbeat_goes_out_def HEARTBEAT_STALE_S_def MIN_TIMEOUT_S_def FEED_S_def
        reset_within_def)
  moreover have "rn_published ?e ''n2'' = Some ?p" by (simp add: sample_round_def)
  moreover have "fst (fenced ?e ''n2'' sample_ha ?en) = Fenced Watchdog_passed"
    by (simp add: fenced_def Let_def bmc_method_def get_fencing_def fencing_def sample_ha_def watchdog_verdict_def num_true_def
        WATCHDOG_MARGIN_S_def sample_lost_def)
  ultimately show ?thesis
    by (intro exI [of _ ?es] exI [of _ ?s] exI [of _ ?e] exI [of _ ?en]) (auto simp: sample_env_def)
qed

end
