(* ===== verification/Ha_Admission.thy ===== *)
theory Ha_Admission
  imports Ha_Recovery "HOL-Library.Multiset"
begin

text \<open>
  HA admission control: the loss of any one member must leave room for its running HA VMs on the others
  (\<^verbatim>\<open>app/core/ha_admission.py\<close>).

  \<open>cluster_loads\<close> gathers the online members' free memory and their running HA VMs; \<open>absorbed\<close> places a
  member's VMs on the others, the largest first, each on the member with the most memory left; \<open>check\<close> does it
  for every member, with a VM about to run added; \<open>refuse_if_strict\<close> raises under the strict policy.

  Shown: a member that \<open>absorbed\<close> accepts can be lost, as its VMs have a placement in the others' free memory;
  for a member with one VM the answer is exact; what is refused, and what a strict acceptance promises.
\<close>

section \<open>The policy\<close>

datatype admission = Warn | Strict | Admission_off

definition POLICIES :: "(string \<times> admission) list" where
  "POLICIES = [(''warn'', Warn), (''strict'', Strict), (''off'', Admission_off)]"

definition SETTING :: string where "SETTING = ''admission_control''"

definition admission_policy :: "ha_store \<Rightarrow> admission" where
  "admission_policy st = (case Option.bind (map_of (hs_settings st) SETTING) (map_of POLICIES) of None \<Rightarrow> Warn | Some p \<Rightarrow> p)"

definition set_admission :: "string \<Rightarrow> ha_store \<Rightarrow> string + ha_store" where
  "set_admission v st = (if map_of POLICIES v = None then Inl v else Inr (ha_save_settings [(SETTING, v)] st))"

section \<open>The cluster's memory\<close>

type_synonym free_memory = "(node_name, int option) dict"
type_synonym ha_loads = "(node_name, (vm_name \<times> int) list) dict"

definition online_names :: "round_env \<Rightarrow> node_name list" where
  "online_names e = filter (\<lambda>n. n = rn_me e \<or> (case map_of (rn_latest e) n of None \<Rightarrow> False | Some (a, _) \<Rightarrow> a \<le> LOST_S))
     (rn_me e # rn_members e)"

definition running_on :: "round_env \<Rightarrow> node_name \<Rightarrow> vm_name list" where
  "running_on e n = (case map_of (rn_latest e) n of None \<Rightarrow> [] | Some (_, vms) \<Rightarrow> running_names vms)"

definition add_load :: "round_env \<Rightarrow> ha_loads \<Rightarrow> vm_name \<times> protected_row \<Rightarrow> ha_loads" where
  "add_load e loads vr =
     (case vr of (v, r) \<Rightarrow>
      let node = (if is_self (rn_me e) (pr_node r) then rn_me e else pr_node r) in
      (case map_of loads node of
         None \<Rightarrow> loads
       | Some l \<Rightarrow> if v \<in> set (running_on e node) then dict_set node (l @ [(v, memory_mib (pr_xml r))]) loads else loads))"

definition cluster_loads :: "round_env \<Rightarrow> ha_store \<Rightarrow> free_memory \<times> ha_loads" where
  "cluster_loads e st =
     (dict_of (map (\<lambda>n. (n, rn_free e n)) (online_names e)),
      foldl (add_load e) (dict_of (map (\<lambda>n. (n, [])) (online_names e))) (protected (rn_me e) st))"

section \<open>Whether a member can be lost\<close>

fun place_all :: "(node_name, int) dict \<Rightarrow> (vm_name \<times> int) list \<Rightarrow> bool" where
  "place_all room [] = True"
| "place_all room ((v, need) # vms) =
     (case first_max snd room of
        None \<Rightarrow> False
      | Some (t, f) \<Rightarrow> if f < need then False else place_all (dict_set t (f - need) room) vms)"

definition absorbed :: "node_name \<Rightarrow> free_memory \<Rightarrow> ha_loads \<Rightarrow> bool option" where
  "absorbed m free loads =
     (let room = filter (\<lambda>(n, _). n \<noteq> m) free in
      if list_ex (\<lambda>(_, f). f = None) room then None
      else Some (place_all (map (\<lambda>(n, f). (n, the f)) room)
             (sort_key (\<lambda>(_, need). - need) (case map_of loads m of None \<Rightarrow> [] | Some l \<Rightarrow> l))))"

record check_result =
  ck_policy :: admission
  ck_ok :: bool
  ck_unabsorbed :: "node_name list"
  ck_unknown :: "node_name list"

text \<open>\<open>extra\<close>: a VM about to count as a running HA VM: its name, node, memory, and whether it is starting.\<close>

type_synonym extra_vm = "vm_name \<times> node_name \<times> int \<times> bool"

definition with_extra :: "round_env \<Rightarrow> extra_vm option \<Rightarrow> free_memory \<times> ha_loads \<Rightarrow> free_memory \<times> ha_loads" where
  "with_extra e extra fl =
     (case (extra, fl) of
        (None, _) \<Rightarrow> fl
      | (Some (name, node0, need, starting), (free, loads)) \<Rightarrow>
          (let node = (if is_self (rn_me e) node0 then rn_me e else node0) in
           (case map_of loads node of
              None \<Rightarrow> fl
            | Some l \<Rightarrow>
                (if list_all (\<lambda>(v, _). v \<noteq> name) l
                 then (if starting then dict_alter node (map_option (\<lambda>f. f - need)) free else free,
                       dict_set node (l @ [(name, need)]) loads)
                 else fl))))"

definition check :: "round_env \<Rightarrow> extra_vm option \<Rightarrow> ha_store \<Rightarrow> check_result" where
  "check e extra st =
     (let p = admission_policy st in
      if p = Admission_off \<or> \<not> rn_in_cluster e then \<lparr>ck_policy = p, ck_ok = True, ck_unabsorbed = [], ck_unknown = []\<rparr>
      else case with_extra e extra (cluster_loads e st) of (free, loads) \<Rightarrow>
        (let loaded = filter (\<lambda>(_, l). l \<noteq> []) loads;
             unabs = map fst (filter (\<lambda>(m, _). absorbed m free loads = Some False) loaded);
             unknown = map fst (filter (\<lambda>(m, _). absorbed m free loads = None) loaded)
         in \<lparr>ck_policy = p, ck_ok = (unabs = []), ck_unabsorbed = unabs, ck_unknown = unknown\<rparr>))"

definition refuse_if_strict :: "round_env \<Rightarrow> extra_vm \<Rightarrow> ha_store \<Rightarrow> check_result + check_result" where
  "refuse_if_strict e extra st =
     (let r = check e (Some extra) st in if ck_policy r = Strict \<and> \<not> ck_ok r then Inl r else Inr r)"

section \<open>Lemmas\<close>

text \<open>The memory a placement puts on a node.\<close>

definition load_on :: "node_name \<Rightarrow> ((vm_name \<times> int) \<times> node_name) list \<Rightarrow> int" where
  "load_on n ps = sum_list (map (\<lambda>((_, need), m). if m = n then need else 0) ps)"

lemma load_on_simps [simp]: "load_on n [] = 0" "load_on n (((v, need), m) # ps) = (if m = n then need else 0) + load_on n ps"
  by (simp_all add: load_on_def)

lemma load_on_nonneg: "\<forall>((v, need), m) \<in> set ps. 0 \<le> need \<Longrightarrow> 0 \<le> load_on n ps"
  by (induction ps) auto

lemma place_all_placement:
  assumes "place_all room vms" and "dict_ok room" and "\<forall>(v, need) \<in> set vms. 0 \<le> need"
  shows "\<exists>ps. map fst ps = vms \<and> (\<forall>n f. map_of room n = Some f \<longrightarrow> load_on n ps \<le> max f 0) \<and> snd ` set ps \<subseteq> set (keys room)"
  using assms
proof (induction room vms rule: place_all.induct)
  case (1 room)
  show ?case by (rule exI [of _ "[]"]) simp
next
  case (2 room v need vms)
  from "2.prems"(1) obtain t f where t: "first_max snd room = Some (t, f)" and f: "need \<le> f"
    and rest: "place_all (dict_set t (f - need) room) vms"
    by (auto split: option.splits if_splits)
  have in_room: "(t, f) \<in> set room" using first_max_in [OF t] .
  then have room_t: "map_of room t = Some f" using "2.prems"(2) by simp
  have keys: "keys (dict_set t (f - need) room) = keys room" using room_t by simp
  have ok: "dict_ok (dict_set t (f - need) room)" using "2.prems"(2) by simp
  have nn: "0 \<le> need" "\<forall>(v, need) \<in> set vms. 0 \<le> need" using "2.prems"(3) by auto
  obtain ps where ps: "map fst ps = vms" "snd ` set ps \<subseteq> set (keys room)"
    and load: "\<forall>n g. map_of (dict_set t (f - need) room) n = Some g \<longrightarrow> load_on n ps \<le> max g 0"
    using "2.IH" [OF t refl _ rest ok nn(2)] f unfolding keys by auto
  have l: "load_on n (((v, need), t) # ps) \<le> max g 0" if "map_of room n = Some g" for n g
    using that load [rule_format, of n] room_t f nn(1) by (cases "n = t") auto
  have k: "snd ` set (((v, need), t) # ps) \<subseteq> set (keys room)"
    unfolding list.set image_insert snd_conv using ps(2) map_of_in_keys [OF room_t] by blast
  show ?case
    by (rule exI [of _ "((v, need), t) # ps"]) (use l k ps(1) in simp)
qed

lemma absorbed_True:
  assumes "absorbed m free loads = Some True"
  shows "place_all (map (\<lambda>(n, f). (n, the f)) (filter (\<lambda>(n, _). n \<noteq> m) free))
      (sort_key (\<lambda>(_, need). - need) (case map_of loads m of None \<Rightarrow> [] | Some l \<Rightarrow> l))"
  using assms by (auto simp: absorbed_def Let_def list_ex_iff split: if_splits)

lemma map_of_filter_ne: "n \<noteq> m \<Longrightarrow> map_of (filter (\<lambda>(n, _). n \<noteq> m) d) n = map_of d n"
  by (induction d) auto

lemma keys_map_the: "keys (map (\<lambda>(n, f). (n, the f)) d) = keys d"
  by (auto simp: case_prod_beta)

lemma map_of_map_the: "map_of d n = Some (Some f) \<Longrightarrow> map_of (map (\<lambda>(n, f). (n, the f)) d) n = Some f"
  by (induction d) auto

section \<open>Properties\<close>

text \<open>C31: a member that admission control accepts can be lost: its running HA VMs, all of them, have a
  placement on the other online members in which no member gets more than the memory it has free.\<close>

theorem absorbed_member_can_be_lost:
  assumes "absorbed m free loads = Some True" and "map_of loads m = Some vms" and "dict_ok free"
    and "\<forall>(v, need) \<in> set vms. 0 \<le> need"
  shows "\<exists>ps. mset (map fst ps) = mset vms \<and> (\<forall>n \<in> snd ` set ps. n \<noteq> m \<and> n \<in> set (keys free))
    \<and> (\<forall>n f. map_of free n = Some (Some f) \<and> n \<noteq> m \<longrightarrow> load_on n ps \<le> max f 0)"
proof -
  let ?free = "filter (\<lambda>(n, _). n \<noteq> m) free"
  let ?room = "map (\<lambda>(n, f). (n, the f)) ?free"
  let ?vms = "sort_key (\<lambda>(_, need). - need) vms"
  have place: "place_all ?room ?vms" using absorbed_True [OF assms(1)] assms(2) by simp
  have ok: "dict_ok ?room" unfolding keys_map_the using assms(3) by simp
  have nn: "\<forall>(v, need) \<in> set ?vms. 0 \<le> need" using assms(4) by simp
  obtain ps where ps: "map fst ps = ?vms" "snd ` set ps \<subseteq> set (keys ?room)"
    and load: "\<forall>n f. map_of ?room n = Some f \<longrightarrow> load_on n ps \<le> max f 0"
    using place_all_placement [OF place ok nn] by blast
  have "mset (map fst ps) = mset vms" unfolding ps(1) by simp
  moreover have "n \<noteq> m \<and> n \<in> set (keys free)" if "n \<in> snd ` set ps" for n
  proof -
    have "n \<in> set (keys ?free)" using that ps(2) unfolding keys_map_the by blast
    then show ?thesis by auto
  qed
  moreover have "load_on n ps \<le> max f 0" if "map_of free n = Some (Some f)" "n \<noteq> m" for n f
  proof -
    have "map_of ?free n = Some (Some f)" using that by (simp add: map_of_filter_ne)
    from map_of_map_the [OF this] load show ?thesis by blast
  qed
  ultimately show ?thesis by blast
qed

definition sample_free :: free_memory where
  "sample_free = [(''n1'', Some 1000), (''n2'', Some 500), (''n3'', Some 800)]"

definition sample_loads :: ha_loads where
  "sample_loads = [(''n1'', [(''a'', 700), (''b'', 400)]), (''n2'', []), (''n3'', [(''c'', 900)])]"

lemma sample_absorbed: "absorbed ''n1'' sample_free sample_loads = Some True" "absorbed ''n2'' sample_free sample_loads = Some True"
  by (simp_all add: absorbed_def sample_free_def sample_loads_def Let_def)

theorem absorbed_member_can_be_lost_witness:
  "absorbed ''n1'' sample_free sample_loads = Some True
   \<and> (\<exists>ps. mset (map fst ps) = mset [(''a'', 700), (''b'', 400)] \<and> load_on ''n2'' ps \<le> 500 \<and> load_on ''n3'' ps \<le> 800)"
proof -
  have "map_of sample_loads ''n1'' = Some [(''a'', 700), (''b'', 400)]" "dict_ok sample_free"
    "\<forall>(v, need) \<in> set [(''a'', 700), (''b'', 400 :: int)]. 0 \<le> need"
    by (simp_all add: sample_loads_def sample_free_def)
  from absorbed_member_can_be_lost [OF sample_absorbed(1) this] obtain ps
    where "mset (map fst ps) = mset [(''a'', 700), (''b'', 400 :: int)]"
      and load: "\<forall>n f. map_of sample_free n = Some (Some f) \<and> n \<noteq> ''n1'' \<longrightarrow> load_on n ps \<le> max f 0" by blast
  moreover from load have "load_on ''n2'' ps \<le> 500" "load_on ''n3'' ps \<le> 800"
    by (auto simp: sample_free_def dest: spec [of _ "''n2''"] spec [of _ "''n3''"])
  ultimately show ?thesis using sample_absorbed(1) by blast
qed

lemma check_lists:
  assumes "admission_policy st \<noteq> Admission_off" and "rn_in_cluster e" and "with_extra e extra (cluster_loads e st) = (free, loads)"
  shows "m \<in> set (ck_unabsorbed (check e extra st)) \<longleftrightarrow> (\<exists>l. (m, l) \<in> set loads \<and> l \<noteq> [] \<and> absorbed m free loads = Some False)"
    and "m \<in> set (ck_unknown (check e extra st)) \<longleftrightarrow> (\<exists>l. (m, l) \<in> set loads \<and> l \<noteq> [] \<and> absorbed m free loads = None)"
    and "ck_ok (check e extra st) \<longleftrightarrow> ck_unabsorbed (check e extra st) = []" and "ck_policy (check e extra st) = admission_policy st"
  using assms by (auto simp: check_def Let_def image_iff Bex_def)

text \<open>The strict policy refuses exactly when a loss could not be absorbed: a VM about to run as an HA VM is
  refused if and only if the policy is strict, the node is in a cluster and some member with running HA VMs, that
  VM counted, would not be absorbed; and a strict acceptance leaves every loaded member whose loss can be judged
  absorbed.\<close>

theorem strict_refuses_unabsorbed:
  assumes "with_extra e (Some extra) (cluster_loads e st) = (free, loads)"
  shows "case refuse_if_strict e extra st of
      Inl r \<Rightarrow> admission_policy st = Strict \<and> rn_in_cluster e
        \<and> (\<exists>m l. m \<in> set (ck_unabsorbed r) \<and> (m, l) \<in> set loads \<and> l \<noteq> [] \<and> absorbed m free loads = Some False)
    | Inr r \<Rightarrow> admission_policy st = Strict \<and> rn_in_cluster e \<longrightarrow>
        (\<forall>(m, l) \<in> set loads. l = [] \<or> absorbed m free loads = Some True \<or> (absorbed m free loads = None \<and> m \<in> set (ck_unknown r)))"
proof (cases "admission_policy st = Strict \<and> rn_in_cluster e")
  case False
  then have "\<not> (ck_policy (check e (Some extra) st) = Strict \<and> \<not> ck_ok (check e (Some extra) st))"
    by (auto simp: check_def Let_def split: prod.splits)
  with False show ?thesis by (auto simp: refuse_if_strict_def Let_def)
next
  case True
  then have on: "admission_policy st \<noteq> Admission_off" "rn_in_cluster e" by simp_all
  note lists = check_lists [OF on assms]
  show ?thesis
  proof (cases "ck_unabsorbed (check e (Some extra) st)")
    case Nil
    have "absorbed m free loads = Some True \<or> (absorbed m free loads = None \<and> m \<in> set (ck_unknown (check e (Some extra) st)))"
      if "(m, l) \<in> set loads" "l \<noteq> []" for m l
      using that lists(1,2) [of m] Nil by (cases "absorbed m free loads") auto
    with True Nil lists(3,4) show ?thesis by (fastforce simp: refuse_if_strict_def Let_def)
  next
    case (Cons m ms)
    with True lists(3,4) lists(1) [of m] show ?thesis by (auto simp: refuse_if_strict_def Let_def)
  qed
qed

definition sample_cluster :: round_env where
  "sample_cluster = \<lparr>rn_now = 0, rn_wall = 0, rn_in_cluster = True, rn_leader = True, rn_read_only = False, rn_me = ''n1'',
     rn_members = [''n2''], rn_latest = [(''n2'', (5, []))], rn_free = (\<lambda>_. Some 100), rn_status_vms = (\<lambda>_. []),
     rn_maintenance = (\<lambda>_. False), rn_published = (\<lambda>_. None), rn_power_off = (\<lambda>_. False), rn_placement = [], rn_rules = sample_store,
     rn_runs = (\<lambda>_ _. None), rn_runs_after = (\<lambda>_ _. None), rn_start = (\<lambda>_ _. Runtime_conflict), rn_may_act = (\<lambda>_. True)\<rparr>"

definition sample_strict :: ha_store where
  "sample_strict = \<lparr>hs_protected = [], hs_policies = [], hs_monitoring = [], hs_settings = [(SETTING, ''strict'')], hs_fencing = []\<rparr>"

lemma sample_strict_loads:
  "with_extra sample_cluster (Some (''x'', ''n1'', 500, False)) (cluster_loads sample_cluster sample_strict)
   = ([(''n1'', Some 100), (''n2'', Some 100)], [(''n1'', [(''x'', 500)]), (''n2'', [])])"
proof -
  have "cluster_loads sample_cluster sample_strict = ([(''n1'', Some 100), (''n2'', Some 100)], [(''n1'', []), (''n2'', [])])"
    by (simp add: cluster_loads_def online_names_def sample_cluster_def sample_strict_def protected_def dict_of_def LOST_S_def)
  moreover have "rn_me sample_cluster = ''n1''" by (simp add: sample_cluster_def)
  ultimately show ?thesis by (simp add: with_extra_def is_self_def LOCAL_def Let_def)
qed

theorem strict_refuses_unabsorbed_witness:
  "\<exists>r. refuse_if_strict sample_cluster (''x'', ''n1'', 500, False) sample_strict = Inl r \<and> admission_policy sample_strict = Strict
     \<and> ck_unabsorbed r \<noteq> []"
proof -
  have strict: "admission_policy sample_strict = Strict" "rn_in_cluster sample_cluster"
    by (simp_all add: admission_policy_def sample_strict_def POLICIES_def sample_cluster_def)
  have bad: "absorbed ''n1'' [(''n1'', Some 100), (''n2'', Some 100)] [(''n1'', [(''x'', 500)]), (''n2'', [])] = Some False"
    by (simp add: absorbed_def Let_def)
  note c = strict_refuses_unabsorbed [OF sample_strict_loads]
  show ?thesis
  proof (cases "refuse_if_strict sample_cluster (''x'', ''n1'', 500, False) sample_strict")
    case (Inl r)
    with c strict show ?thesis by auto
  next
    case (Inr r)
    with c strict bad show ?thesis by auto
  qed
qed

end
