(* ===== verification/Ha_Monitor.thy ===== *)
theory Ha_Monitor
  imports Ha_Store
begin

text \<open>
  VM monitoring: a guest that hangs is reset in place by its own node (\<^verbatim>\<open>app/core/ha_monitor.py\<close>).

  \<open>seen\<close> is what the node knows of a VM's current run; \<open>watch\<close> is one round for one VM, given what the round
  observed of it (\<open>observation\<close>: the agent's answer, whether something else works on the VM, its I/O counters);
  \<open>reset_vm\<close> resets it, at most three times an hour; \<open>tick_monitor\<close> goes over the node's VMs.

  Shown: a VM is reset only after three rounds in a row in which its agent, which had answered since the VM
  started or was last reset, kept silent with its channel connected, nothing else worked on the VM and its I/O
  did not move; and never a fourth time within an hour.
\<close>

section \<open>One VM\<close>

definition MISSED_ROUNDS :: nat where "MISSED_ROUNDS = 3"
definition RESETS_PER_HOUR :: nat where "RESETS_PER_HOUR = 3"

record seen =
  sn_id :: int
  sn_answered :: bool
  sn_missed :: nat
  sn_io :: "(nat \<times> nat) option"
  sn_left :: bool

text \<open>\<open>ob_ping\<close>: the agent answered, did not, or has no channel connected. \<open>ob_disks\<close>, \<open>ob_nics\<close>: each disk's read
  and write requests and each card's packets sent, missing when libvirt refuses them.\<close>

record observation =
  ob_ping :: "bool option"
  ob_busy :: bool
  ob_disks :: "(nat \<times> nat) option list"
  ob_nics :: "nat option list"

definition io_of :: "observation \<Rightarrow> nat \<times> nat" where
  "io_of o1 = (sum_list (map (\<lambda>d. case d of None \<Rightarrow> 0 | Some (r, w) \<Rightarrow> r + w) (ob_disks o1)),
               sum_list (map (\<lambda>n. case n of None \<Rightarrow> 0 | Some t \<Rightarrow> t) (ob_nics o1)))"

text \<open>\<open>_quiet\<close>: why the VM may not be reset now.\<close>

datatype busy_reason = Not_running | Libvirt_job | Operation string

definition quiet :: "bool \<Rightarrow> bool \<Rightarrow> string option \<Rightarrow> busy_reason option" where
  "quiet running job operation =
     (if \<not> running then Some Not_running else if job then Some Libvirt_job else map_option Operation operation)"

datatype monitor_event = Reset_done vm_name | Left_to_admin vm_name

definition record_note :: "node_name \<Rightarrow> vm_name \<Rightarrow> ha_note \<Rightarrow> seconds \<Rightarrow> ha_store \<Rightarrow> ha_store" where
  "record_note me vm a now st =
     (let s = (case protected_vm me vm st of None \<Rightarrow> Ha_ok | Some r \<Rightarrow> (case pr_state r of None \<Rightarrow> Ha_ok | Some x \<Rightarrow> x))
      in record_watch vm s a now st)"

definition reset_vm :: "node_name \<Rightarrow> vm_name \<Rightarrow> seconds \<Rightarrow> seen \<Rightarrow> ha_store \<Rightarrow> monitor_event list \<times> seen \<times> ha_store" where
  "reset_vm me vm now sn st =
     (let rec = recent now (mo_resets (monitoring vm st)) in
      if RESETS_PER_HOUR \<le> length rec
      then if \<not> sn_left sn then ([Left_to_admin vm], sn\<lparr>sn_left := True\<rparr>, record_note me vm Monitor_left now st) else ([], sn, st)
      else ([Reset_done vm], sn\<lparr>sn_answered := False, sn_missed := 0, sn_io := None\<rparr>,
            record_note me vm Monitor_reset now (record_reset vm (rec @ [Some now]) st)))"

definition watch :: "node_name \<Rightarrow> vm_name \<Rightarrow> seconds \<Rightarrow> observation \<Rightarrow> seen \<Rightarrow> ha_store \<Rightarrow> monitor_event list \<times> seen \<times> ha_store" where
  "watch me vm now o1 sn st =
     (if ob_ping o1 = Some True then ([], sn\<lparr>sn_answered := True, sn_missed := 0, sn_io := None, sn_left := False\<rparr>, st)
      else if \<not> sn_answered sn \<or> ob_ping o1 = None then ([], sn\<lparr>sn_missed := 0, sn_io := None\<rparr>, st)
      else if ob_busy o1 then ([], sn\<lparr>sn_missed := 0, sn_io := None\<rparr>, st)
      else if sn_missed sn = 0 \<or> Some (io_of o1) \<noteq> sn_io sn then ([], sn\<lparr>sn_missed := 1, sn_io := Some (io_of o1)\<rparr>, st)
      else let sn1 = sn\<lparr>sn_missed := sn_missed sn + 1\<rparr> in
        if MISSED_ROUNDS \<le> sn_missed sn1 then reset_vm me vm now sn1 st else ([], sn1, st))"

section \<open>One round over the node's VMs\<close>

text \<open>What libvirt says of a VM: its UUID and the identifier of its run, when it is active here; and what the round
  observed of it, missing when libvirt raised.\<close>

record monitor_env =
  me_name :: node_name
  me_now :: seconds
  me_read_only :: bool
  me_maintenance :: bool
  me_active :: "vm_name \<Rightarrow> (string \<times> int) option"
  me_observed :: "vm_name \<Rightarrow> observation option"

definition fresh_seen :: "int \<Rightarrow> seen" where
  "fresh_seen run = \<lparr>sn_id = run, sn_answered = False, sn_missed = 0, sn_io = None, sn_left = False\<rparr>"

record monitor_state =
  ms_seen :: "(string, seen) dict"
  ms_store :: ha_store
  ms_events :: "monitor_event list"

definition watch_one :: "monitor_env \<Rightarrow> vm_name \<Rightarrow> monitor_state \<Rightarrow> string list \<times> monitor_state" where
  "watch_one e vm s =
     (case me_active e vm of
        None \<Rightarrow> ([], s)
      | Some (uuid, run) \<Rightarrow>
          (let sn = (case map_of (ms_seen s) uuid of
                       None \<Rightarrow> fresh_seen run
                     | Some x \<Rightarrow> if sn_id x \<noteq> run then fresh_seen run else x)
           in case me_observed e vm of
                None \<Rightarrow> ([uuid], s\<lparr>ms_seen := dict_set uuid sn (ms_seen s)\<rparr>)
              | Some o1 \<Rightarrow>
                  (case watch (me_name e) vm (me_now e) o1 sn (ms_store s) of
                     (evs, sn', st') \<Rightarrow>
                       ([uuid], s\<lparr>ms_seen := dict_set uuid sn' (ms_seen s), ms_store := st', ms_events := ms_events s @ evs\<rparr>))))"

fun watch_all :: "monitor_env \<Rightarrow> vm_name list \<Rightarrow> string list \<Rightarrow> monitor_state \<Rightarrow> string list \<times> monitor_state" where
  "watch_all e [] alive s = (alive, s)"
| "watch_all e (vm # vms) alive s = (case watch_one e vm s of (a, s') \<Rightarrow> watch_all e vms (alive @ a) s')"

definition monitored :: "monitor_env \<Rightarrow> ha_store \<Rightarrow> vm_name list" where
  "monitored e st = map fst (filter (\<lambda>(v, r). is_self (me_name e) (pr_node r) \<and> mo_enabled (monitoring v st)) (protected (me_name e) st))"

definition tick_monitor :: "monitor_env \<Rightarrow> monitor_state \<Rightarrow> monitor_state" where
  "tick_monitor e s =
     (if me_read_only e \<or> me_maintenance e then s
      else let names = monitored e (ms_store s) in
        if names = [] then s\<lparr>ms_seen := []\<rparr>
        else case watch_all e names [] s of
               (alive, s') \<Rightarrow> s'\<lparr>ms_seen := filter (\<lambda>(u, _). u \<in> set alive) (ms_seen s')\<rparr>)"

section \<open>The rounds of one run of a VM\<close>

text \<open>\<open>watch_run\<close>: rounds of one VM with nothing else changing its records; a history of the observations since the
  run's start or its last reset, the newest first, is kept beside.\<close>

definition silent :: "observation \<Rightarrow> bool" where
  "silent o1 \<longleftrightarrow> ob_ping o1 = Some False \<and> \<not> ob_busy o1"

definition seen_ok :: "observation list \<Rightarrow> seen \<Rightarrow> bool" where
  "seen_ok hist sn \<longleftrightarrow> sn_missed sn \<le> length hist
     \<and> (\<forall>o1 \<in> set (take (sn_missed sn) hist). silent o1 \<and> sn_io sn = Some (io_of o1))
     \<and> (sn_answered sn \<longrightarrow> (\<exists>o1 \<in> set hist. ob_ping o1 = Some True))"

lemma watch_cases:
  assumes "watch me vm now o1 sn st = (evs, sn', st')" and "seen_ok hist sn"
  shows "(evs = [Reset_done vm] \<and> MISSED_ROUNDS \<le> length (o1 # hist)
      \<and> (\<forall>p \<in> set (take MISSED_ROUNDS (o1 # hist)). silent p \<and> io_of p = io_of o1)
      \<and> (\<exists>p \<in> set hist. ob_ping p = Some True) \<and> seen_ok [] sn'
      \<and> length (recent now (mo_resets (monitoring vm st))) < RESETS_PER_HOUR)
    \<or> (Reset_done vm \<notin> set evs \<and> seen_ok (o1 # hist) sn')"
proof (cases "ob_ping o1 = Some True \<or> \<not> sn_answered sn \<or> ob_ping o1 = None \<or> ob_busy o1 \<or> sn_missed sn = 0 \<or> Some (io_of o1) \<noteq> sn_io sn")
  case True
  with assms show ?thesis
    by (auto simp: watch_def seen_ok_def silent_def split: if_splits)
next
  case False
  then have ping: "ob_ping o1 = Some False" "\<not> ob_busy o1" and ans: "sn_answered sn" and io: "sn_io sn = Some (io_of o1)"
    by auto
  let ?sn1 = "sn\<lparr>sn_missed := sn_missed sn + 1\<rparr>"
  have sil: "\<forall>p \<in> set (take (Suc (sn_missed sn)) (o1 # hist)). silent p \<and> io_of p = io_of o1"
    using assms(2) ping io by (auto simp: seen_ok_def silent_def)
  have ok1: "seen_ok (o1 # hist) ?sn1"
    using assms(2) ping io by (auto simp: seen_ok_def silent_def)
  show ?thesis
  proof (cases "MISSED_ROUNDS \<le> Suc (sn_missed sn)")
    case True
    have w: "watch me vm now o1 sn st = reset_vm me vm now ?sn1 st" using False True by (auto simp: watch_def Let_def)
    show ?thesis
    proof (cases "RESETS_PER_HOUR \<le> length (recent now (mo_resets (monitoring vm st)))")
      case True
      with assms(1) w ok1 show ?thesis by (auto simp: reset_vm_def Let_def seen_ok_def split: if_splits)
    next
      case less: False
      have "set (take MISSED_ROUNDS (o1 # hist)) \<subseteq> set (take (Suc (sn_missed sn)) (o1 # hist))"
        using True by (rule set_take_subset_set_take)
      moreover have "MISSED_ROUNDS \<le> length (o1 # hist)" using True assms(2) by (simp add: seen_ok_def)
      moreover have "\<exists>p \<in> set hist. ob_ping p = Some True" using assms(2) ans by (simp add: seen_ok_def)
      ultimately show ?thesis using assms(1) w less sil by (auto simp: reset_vm_def Let_def seen_ok_def)
    qed
  next
    case no: False
    with False assms(1) ok1 show ?thesis by (auto simp: watch_def Let_def)
  qed
qed

text \<open>The rounds of a VM's current run: the observations since it started or was last reset, the newest first, and
  what the node has seen. The tables may change otherwise between two rounds.\<close>

inductive monitor_run :: "node_name \<Rightarrow> vm_name \<Rightarrow> observation list \<Rightarrow> seen \<Rightarrow> bool" for me vm where
  run_starts: "monitor_run me vm [] (fresh_seen i)"
| run_round: "monitor_run me vm hist sn \<Longrightarrow> watch me vm now o1 sn st = (evs, sn', st') \<Longrightarrow>
     monitor_run me vm (if Reset_done vm \<in> set evs then [] else o1 # hist) sn'"

lemma monitor_run_ok: "monitor_run me vm hist sn \<Longrightarrow> seen_ok hist sn"
proof (induction rule: monitor_run.induct)
  case (run_starts i)
  show ?case by (simp add: seen_ok_def fresh_seen_def)
next
  case (run_round hist sn now o1 st evs sn' st')
  from watch_cases [OF run_round.hyps(2) run_round.IH] show ?case by auto
qed

lemma reset_records:
  assumes "watch me vm now o1 sn st = (evs, sn', st')" and "Reset_done vm \<in> set evs"
  shows "mo_resets (monitoring vm st') = recent now (mo_resets (monitoring vm st)) @ [Some now]"
proof -
  have "watch me vm now o1 sn st = reset_vm me vm now (sn\<lparr>sn_missed := sn_missed sn + 1\<rparr>) st"
    using assms by (auto simp: watch_def Let_def split: if_splits)
  with assms show ?thesis
    by (auto simp: reset_vm_def Let_def record_note_def record_watch_def record_reset_def monitoring_def split: if_splits)
qed

section \<open>Properties\<close>

text \<open>Only a hung guest is reset: when a round resets a VM, then this round and the two before it found its
  agent's channel connected and silent, nothing else working on it and the same I/O counters; some round since the
  VM's run began or since its last reset had found the agent answering; fewer than three resets were made in the
  last hour, and this one is recorded with them.\<close>

theorem only_hung_guests_are_reset:
  assumes "monitor_run me vm hist sn" and "watch me vm now o1 sn st = (evs, sn', st')" and "Reset_done vm \<in> set evs"
  shows "MISSED_ROUNDS \<le> length (o1 # hist)
    \<and> (\<forall>p \<in> set (take MISSED_ROUNDS (o1 # hist)). silent p \<and> io_of p = io_of o1)
    \<and> (\<exists>p \<in> set hist. ob_ping p = Some True)
    \<and> mo_resets (monitoring vm st') = recent now (mo_resets (monitoring vm st)) @ [Some now]
    \<and> length (mo_resets (monitoring vm st')) \<le> RESETS_PER_HOUR"
  using watch_cases [OF assms(2) monitor_run_ok [OF assms(1)]] reset_records [OF assms(2,3)] assms(3) by auto

definition answering :: observation where
  "answering = \<lparr>ob_ping = Some True, ob_busy = False, ob_disks = [], ob_nics = []\<rparr>"

definition hanging :: observation where
  "hanging = \<lparr>ob_ping = Some False, ob_busy = False, ob_disks = [], ob_nics = []\<rparr>"

definition empty_ha :: ha_store where
  "empty_ha = \<lparr>hs_protected = [], hs_policies = [], hs_monitoring = [], hs_settings = [], hs_fencing = []\<rparr>"

lemma sample_hang:
  "monitor_run ''n1'' ''a'' [hanging, hanging, answering] \<lparr>sn_id = 7, sn_answered = True, sn_missed = 2, sn_io = Some (0, 0), sn_left = False\<rparr>"
proof -
  let ?s1 = "\<lparr>sn_id = 7, sn_answered = True, sn_missed = 0, sn_io = None, sn_left = False\<rparr>"
  let ?s2 = "\<lparr>sn_id = 7, sn_answered = True, sn_missed = 1, sn_io = Some (0, 0), sn_left = False\<rparr>"
  let ?s3 = "\<lparr>sn_id = 7, sn_answered = True, sn_missed = 2, sn_io = Some (0, 0), sn_left = False\<rparr>"
  have "watch ''n1'' ''a'' 0 answering (fresh_seen 7) empty_ha = ([], ?s1, empty_ha)"
    by (simp add: watch_def answering_def fresh_seen_def)
  from run_round [OF run_starts this] have r1: "monitor_run ''n1'' ''a'' [answering] ?s1" by simp
  have "watch ''n1'' ''a'' 30 hanging ?s1 empty_ha = ([], ?s2, empty_ha)"
    by (simp add: watch_def hanging_def io_of_def)
  from run_round [OF r1 this] have r2: "monitor_run ''n1'' ''a'' [hanging, answering] ?s2" by simp
  have "watch ''n1'' ''a'' 60 hanging ?s2 empty_ha = ([], ?s3, empty_ha)"
    by (simp add: watch_def hanging_def io_of_def Let_def MISSED_ROUNDS_def)
  from run_round [OF r2 this] show ?thesis by simp
qed

theorem only_hung_guests_are_reset_witness:
  "\<exists>evs sn' st'. watch ''n1'' ''a'' 90 hanging \<lparr>sn_id = 7, sn_answered = True, sn_missed = 2, sn_io = Some (0, 0), sn_left = False\<rparr> empty_ha
      = (evs, sn', st') \<and> Reset_done ''a'' \<in> set evs \<and> mo_resets (monitoring ''a'' st') = [Some 90]"
proof -
  let ?sn = "\<lparr>sn_id = 7, sn_answered = True, sn_missed = 2, sn_io = Some (0, 0), sn_left = False\<rparr>"
  obtain evs sn' st' where w: "watch ''n1'' ''a'' 90 hanging ?sn empty_ha = (evs, sn', st')" by (rule prod_cases3)
  then have ev: "Reset_done ''a'' \<in> set evs"
    by (auto simp: watch_def hanging_def io_of_def Let_def MISSED_ROUNDS_def RESETS_PER_HOUR_def reset_vm_def recent_def empty_ha_def
        monitoring_def default_monitoring_def)
  have "recent 90 (mo_resets (monitoring ''a'' empty_ha)) = []"
    by (simp add: recent_def empty_ha_def monitoring_def default_monitoring_def)
  with only_hung_guests_are_reset [OF sample_hang w ev] w ev show ?thesis by simp
qed

end
