(* ===== verification/Ha_Watch.thy ===== *)
theory Ha_Watch
  imports Ha_Fencing
begin

text \<open>
  The HA watcher of hosts driven over SSH (\<^verbatim>\<open>app/core/ha_watch.py\<close>): each round probes the nodes that carry
  protected VMs, and when one fails it decides, records and announces what automatic HA would do. It never acts.

  \<open>isolation\<close> counts the voters this controller reaches, \<open>decide\<close> is the dry run's decision, \<open>node_step\<close> the
  state machine of one node and \<open>tick_watch\<close> a round. What the network answers is in \<open>watch_net\<close>. A Python
  exception is \<open>Inl\<close>; one raised in the middle of a round leaves what the round had changed.

  Shown: two controllers that reach disjoint voters never both count a majority; a node is down only after the
  threshold's number of rounds in a row without any answer; the decision to act needs every condition of the
  design; and a witness that the settings accept may make every decision raise, so that no alert is ever sent.
\<close>

section \<open>Settings\<close>

definition DEFAULTS :: "(string \<times> string) list" where
  "DEFAULTS = [(''witness'', []), (''suspect_threshold'', ''3''), (''failure_threshold'', ''6'')]"

record watch_settings =
  wt_witness :: string
  wt_suspect :: int
  wt_failure :: int

datatype watch_error = Bad_witness | Bad_thresholds | Value_error

definition setting :: "ha_store \<Rightarrow> string \<Rightarrow> string" where
  "setting st k = (case map_of (hs_settings st) k of Some v \<Rightarrow> v | None \<Rightarrow> the (map_of DEFAULTS k))"

definition watch_settings_of :: "ha_store \<Rightarrow> watch_error + watch_settings" where
  "watch_settings_of st =
     rbind (some_or Value_error (int_of_text (setting st ''suspect_threshold''))) (\<lambda>s.
     rbind (some_or Value_error (int_of_text (setting st ''failure_threshold''))) (\<lambda>f.
     Inr \<lparr>wt_witness = setting st ''witness'', wt_suspect = s, wt_failure = f\<rparr>))"

definition one_colon :: "string \<Rightarrow> bool" where
  "one_colon t \<longleftrightarrow> length (filter (\<lambda>c. c = CHR '':'') t) = 1"

definition save_watch_settings :: "string \<Rightarrow> int \<Rightarrow> int \<Rightarrow> ha_store \<Rightarrow> watch_error + (ha_store \<times> watch_settings)" where
  "save_watch_settings temoin0 suspect failure st =
     (let temoin = strip temoin0;
          (host, port) = (if one_colon temoin then partition_on (CHR '':'') temoin else (temoin, []))
      in rbind (require (\<not> (temoin \<noteq> [] \<and> (\<not> valid_host host \<or> (port \<noteq> [] \<and> \<not> str_isdigit port)))) Bad_witness) (\<lambda>_.
         rbind (require (1 \<le> suspect \<and> suspect < failure \<and> failure \<le> 60) Bad_thresholds) (\<lambda>_.
         let st' = ha_save_settings [(''witness'', temoin), (''suspect_threshold'', str_of_nat (nat suspect)),
                      (''failure_threshold'', str_of_nat (nat failure))] st
         in rbind (watch_settings_of st') (\<lambda>w. Inr (st', w)))))"

section \<open>Probes\<close>

record watch_net =
  nt_tcp :: "string \<Rightarrow> int \<Rightarrow> bool"
  nt_ping :: "string \<Rightarrow> bool"
  nt_ssh_port :: "node_name \<Rightarrow> bool"
  nt_probe :: "node_name \<Rightarrow> bool \<times> bool"
  nt_maintenance :: "node_name \<Rightarrow> bool"

record reg_node =
  nd_name :: node_name
  nd_online :: bool

text \<open>\<open>_tcp(host, port)\<close> with the port still a text: only an OSError is a plain \<open>False\<close>.\<close>

definition tcp_text :: "watch_net \<Rightarrow> string \<Rightarrow> string \<Rightarrow> watch_error + bool" where
  "tcp_text net host port =
     rbind (some_or Value_error (int_of_text port)) (\<lambda>p. Inr (nt_tcp net host p))"

definition witness_reachable :: "watch_net \<Rightarrow> string \<Rightarrow> watch_error + bool option" where
  "witness_reachable net temoin =
     (if temoin = [] then Inr None
      else if one_colon temoin
      then case partition_on (CHR '':'') temoin of (host, port) \<Rightarrow> rbind (tcp_text net host port) (\<lambda>b. Inr (Some b))
      else Inr (Some (nt_ping net temoin)))"

record isolation_view =
  is_isolated :: bool
  is_reachable :: nat
  is_voters :: nat
  is_witness :: "bool option"

definition isolation :: "watch_net \<Rightarrow> reg_node list \<Rightarrow> string \<Rightarrow> watch_error + isolation_view" where
  "isolation net nodes temoin =
     (let reachable = 1 + length (filter (\<lambda>n. nt_ssh_port net (nd_name n)) nodes) in
      rbind (witness_reachable net temoin) (\<lambda>w.
      let voters = 1 + length nodes + (if temoin \<noteq> [] then 1 else 0);
          reach = reachable + (if w = Some True then 1 else 0)
      in Inr \<lparr>is_isolated = (reach * 2 \<le> voters), is_reachable = reach, is_voters = voters, is_witness = w\<rparr>))"

definition auto_restart_possible :: "reg_node list \<Rightarrow> string \<Rightarrow> watch_sentence option" where
  "auto_restart_possible nodes temoin =
     (if nodes = [] then Some One_node_only
      else if length nodes = 1 \<and> temoin = [] then Some Two_nodes_no_witness
      else None)"

section \<open>The decision\<close>

definition restart_target :: "watch_net \<Rightarrow> node_name \<Rightarrow> reg_node list \<Rightarrow> node_name option" where
  "restart_target net failed nodes =
     find (\<lambda>n. n \<noteq> failed \<and> \<not> nt_maintenance net n) (LOCAL # map nd_name (filter nd_online nodes))"

definition decide :: "watch_net \<Rightarrow> node_name \<Rightarrow> ha_store \<Rightarrow> node_name \<Rightarrow> reg_node list \<Rightarrow> string \<Rightarrow> isolation_view \<Rightarrow> bool \<times> watch_sentence" where
  "decide net me st failed nodes temoin iv =
     (case auto_restart_possible nodes temoin of
        Some reason \<Rightarrow> (False, reason)
      | None \<Rightarrow>
          (if is_isolated iv then (False, Maybe_isolated (is_reachable iv) (is_voters iv))
           else case get_fencing me failed st of
             None \<Rightarrow> (False, No_fencing_set failed)
           | Some f \<Rightarrow>
               (case restart_target net failed nodes of
                  None \<Rightarrow> (False, No_target)
                | Some t \<Rightarrow> (True, Would_restart (fv_method f) t))))"

section \<open>A round\<close>

record node_watch =
  nw_failures :: nat
  nw_state :: ha_state

definition fresh_watch :: node_watch where
  "fresh_watch = \<lparr>nw_failures = 0, nw_state = Ha_ok\<rparr>"

definition node_step :: "watch_settings \<Rightarrow> bool \<times> bool \<Rightarrow> node_watch \<Rightarrow> node_watch" where
  "node_step conf pr w =
     (case pr of (libvirt_ok, ssh_ok) \<Rightarrow>
      let failures = (if libvirt_ok \<or> ssh_ok then 0 else nw_failures w + 1)
      in \<lparr>nw_failures = failures,
          nw_state = (if libvirt_ok then Ha_ok
                      else if ssh_ok then Ha_libvirt_unreachable
                      else if wt_failure conf \<le> int failures then Ha_down
                      else if wt_suspect conf \<le> int failures then Ha_suspect
                      else nw_state w)\<rparr>)"

datatype watch_event = Recorded vm_name ha_state ha_note | Alerted node_name "vm_name list" watch_sentence

record watcher =
  wa_state :: "(node_name, node_watch) dict"
  wa_iso :: "isolation_view option"
  wa_events :: "watch_event list"

definition watch_note :: "node_name \<Rightarrow> ha_state \<Rightarrow> ha_note" where
  "watch_note n s = (case s of Ha_ok \<Rightarrow> Node_reachable_again | Ha_suspect \<Rightarrow> Not_answering n | _ \<Rightarrow> Libvirt_silent n)"

text \<open>One node of a round: \<open>Inl\<close> when the round raises there, with the state already changed.\<close>

definition watch_node :: "watch_net \<Rightarrow> node_name \<Rightarrow> ha_store \<Rightarrow> watch_settings \<Rightarrow> reg_node list \<Rightarrow> (node_name \<Rightarrow> vm_name list)
    \<Rightarrow> node_name \<Rightarrow> watcher \<Rightarrow> watch_error option \<times> watcher" where
  "watch_node net me st conf nodes vms_of name s =
     (let old = (case map_of (wa_state s) name of None \<Rightarrow> fresh_watch | Some w \<Rightarrow> w);
          new = node_step conf (nt_probe net name) old;
          s1 = s\<lparr>wa_state := dict_set name new (wa_state s)\<rparr>
      in if nw_state new = nw_state old then (None, s1)
         else if nw_state new = Ha_down
         then (case (case wa_iso s1 of Some i \<Rightarrow> Inr i | None \<Rightarrow> isolation net nodes (wt_witness conf)) of
                 Inl e \<Rightarrow> (Some e, s1)
               | Inr i \<Rightarrow>
                   (let sentence = snd (decide net me st name nodes (wt_witness conf) i)
                    in (None, s1\<lparr>wa_iso := Some i,
                          wa_events := wa_events s1 @ map (\<lambda>v. Recorded v Ha_down (Dry_run sentence)) (vms_of name)
                            @ [Alerted name (vms_of name) sentence]\<rparr>)))
         else (None, s1\<lparr>wa_events := wa_events s1 @ map (\<lambda>v. Recorded v (nw_state new) (watch_note name (nw_state new))) (vms_of name)\<rparr>))"

fun watch_nodes :: "watch_net \<Rightarrow> node_name \<Rightarrow> ha_store \<Rightarrow> watch_settings \<Rightarrow> reg_node list \<Rightarrow> (node_name \<Rightarrow> vm_name list)
    \<Rightarrow> node_name list \<Rightarrow> watcher \<Rightarrow> watch_error option \<times> watcher" where
  "watch_nodes net me st conf nodes vms_of [] s = (None, s)"
| "watch_nodes net me st conf nodes vms_of (n # ns) s =
     (case watch_node net me st conf nodes vms_of n s of
        (Some e, s') \<Rightarrow> (Some e, s')
      | (None, s') \<Rightarrow> watch_nodes net me st conf nodes vms_of ns s')"

definition watched_nodes :: "node_name \<Rightarrow> ha_store \<Rightarrow> reg_node list \<Rightarrow> node_name list" where
  "watched_nodes me st nodes =
     sort (remdups (filter (\<lambda>n. n \<noteq> LOCAL \<and> n \<in> set (map nd_name nodes)) (map (\<lambda>(_, r). pr_node r) (protected me st))))"

definition vms_on :: "node_name \<Rightarrow> ha_store \<Rightarrow> node_name \<Rightarrow> vm_name list" where
  "vms_on me st n = map fst (filter (\<lambda>(_, r). pr_node r = n) (protected me st))"

definition tick_watch :: "watch_net \<Rightarrow> node_name \<Rightarrow> ha_store \<Rightarrow> reg_node list \<Rightarrow> watcher \<Rightarrow> watch_error option \<times> watcher" where
  "tick_watch net me st nodes s =
     (let ns = watched_nodes me st nodes in
      case watch_settings_of st of
        Inl e \<Rightarrow> (Some e, s)
      | Inr conf \<Rightarrow>
          watch_nodes net me st conf nodes (vms_on me st) ns
            (s\<lparr>wa_state := filter (\<lambda>(n, _). n \<in> set ns) (wa_state s), wa_iso := None\<rparr>))"

section \<open>Leases\<close>

definition without_comment :: "string \<Rightarrow> string" where
  "without_comment line = fst (partition_on (CHR ''#'') line)"

definition no_spaces :: "string \<Rightarrow> string" where
  "no_spaces s = filter (\<lambda>c. c \<noteq> CHR '' '') s"

datatype lockd_detail = Lock_manager_not_set | Lockspace_not_set | Lockspace_in string

definition is_quote :: "char \<Rightarrow> bool" where
  "is_quote c \<longleftrightarrow> c = CHR 0x22 \<or> c = CHR 0x27"

definition quoted :: "char \<Rightarrow> string \<Rightarrow> string" where
  "quoted q s = q # s @ [q]"

definition lockspace_of :: "string \<Rightarrow> string option" where
  "lockspace_of line =
     (let body = strip (without_comment line)
      in if prefix ''file_lockspace_dir='' (no_spaces body)
         then Some (strip_chars is_quote (strip (snd (partition_on (CHR ''='') body))))
         else None)"

definition lockd_state :: "string \<Rightarrow> string \<Rightarrow> bool \<times> lockd_detail" where
  "lockd_state qemu_conf lockd_conf =
     (let enabled = list_ex (\<lambda>line. no_spaces (without_comment line) \<in>
              {''lock_manager='' @ quoted (CHR 0x22) ''lockd'', ''lock_manager='' @ quoted (CHR 0x27) ''lockd''}) (splitlines qemu_conf);
          lockspace = foldl (\<lambda>acc line. case lockspace_of line of Some d \<Rightarrow> Some d | None \<Rightarrow> acc) None (splitlines lockd_conf)
      in if \<not> enabled then (False, Lock_manager_not_set)
         else case lockspace of
           None \<Rightarrow> (False, Lockspace_not_set)
         | Some d \<Rightarrow> if d = [] then (False, Lockspace_not_set) else (True, Lockspace_in d))"

section \<open>Lemmas\<close>

text \<open>What a node's history of probes, the newest first, says of its state.\<close>

definition no_answer :: "bool \<times> bool \<Rightarrow> bool" where
  "no_answer pr \<longleftrightarrow> \<not> fst pr \<and> \<not> snd pr"

lemma no_answer_pair [simp]: "no_answer (a, b) \<longleftrightarrow> \<not> a \<and> \<not> b"
  by (simp add: no_answer_def)

fun node_run :: "watch_settings \<Rightarrow> (bool \<times> bool) list \<Rightarrow> node_watch" where
  "node_run conf [] = fresh_watch"
| "node_run conf (pr # hist) = node_step conf pr (node_run conf hist)"

lemma node_run_failures: "nw_failures (node_run conf hist) = length (takeWhile no_answer hist)"
  by (induction hist) (auto simp: node_step_def fresh_watch_def Let_def split: prod.splits)

lemma node_run_states:
  assumes "1 \<le> wt_suspect conf" and "wt_suspect conf < wt_failure conf"
  shows "(nw_state (node_run conf hist) = Ha_down \<longleftrightarrow> wt_failure conf \<le> int (length (takeWhile no_answer hist)))
    \<and> (nw_state (node_run conf hist) = Ha_suspect \<longrightarrow> wt_suspect conf \<le> int (length (takeWhile no_answer hist)))"
proof (induction hist)
  case Nil
  with assms show ?case by (simp add: fresh_watch_def)
next
  case (Cons pr hist)
  have "nw_failures (node_run conf hist) = length (takeWhile no_answer hist)" by (rule node_run_failures)
  with Cons assms show ?case
    by (cases pr) (auto simp: node_step_def Let_def)
qed

lemma takeWhile_all_le: "n \<le> length (takeWhile P xs) \<Longrightarrow> \<forall>x \<in> set (take n xs). P x"
  by (metis set_takeWhileD takeWhile_eq_take in_set_takeD take_take min.absorb1)

section \<open>Properties\<close>

text \<open>Two sides of a cut never both act: if two controllers, each with every other node of one cluster
  registered and the same witness or none, reach disjoint sets of nodes and not both the witness, then at least
  one of them counts itself isolated.\<close>

theorem no_two_majorities:
  assumes "isolation net1 nodes1 temoin = Inr v1" and "isolation net2 nodes2 temoin = Inr v2"
    and all1: "set (map nd_name nodes1) = V - {c1}" "distinct (map nd_name nodes1)"
    and all2: "set (map nd_name nodes2) = V - {c2}" "distinct (map nd_name nodes2)"
    and "finite V" "c1 \<in> V" "c2 \<in> V"
    and cut: "({c1} \<union> {n \<in> V - {c1}. nt_ssh_port net1 n}) \<inter> ({c2} \<union> {n \<in> V - {c2}. nt_ssh_port net2 n}) = {}"
    and "\<not> (is_witness v1 = Some True \<and> is_witness v2 = Some True)"
  shows "is_isolated v1 \<or> is_isolated v2"
proof -
  have count: "length (filter (\<lambda>n. P (nd_name n)) nodes) = card {n \<in> set (map nd_name nodes). P n}"
    if "distinct (map nd_name nodes)" for P and nodes :: "reg_node list"
  proof -
    have "length (filter (\<lambda>n. P (nd_name n)) nodes) = length (filter P (map nd_name nodes))" by (simp add: filter_map comp_def)
    also have "\<dots> = card (set (filter P (map nd_name nodes)))" using that by (simp only: distinct_card distinct_filter)
    finally show ?thesis by (simp only: set_filter)
  qed
  let ?A = "{c1} \<union> {n \<in> V - {c1}. nt_ssh_port net1 n}" and ?B = "{c2} \<union> {n \<in> V - {c2}. nt_ssh_port net2 n}"
  have len: "length nodes1 = card V - 1" "length nodes2 = card V - 1"
    using distinct_card [OF all1(2)] distinct_card [OF all2(2)] all1(1) all2(1) assms(7-9) by simp_all
  have A: "1 + length (filter (\<lambda>n. nt_ssh_port net1 (nd_name n)) nodes1) = card ?A"
    unfolding count [OF all1(2)] all1(1) using assms(7) by (subst card_Un_disjoint) auto
  have B: "1 + length (filter (\<lambda>n. nt_ssh_port net2 (nd_name n)) nodes2) = card ?B"
    unfolding count [OF all2(2)] all2(1) using assms(7) by (subst card_Un_disjoint) auto
  have "card ?A + card ?B = card (?A \<union> ?B)" using assms(7) cut by (subst card_Un_disjoint) auto
  also have "\<dots> \<le> card V" using assms(7-9) by (intro card_mono) auto
  finally have sum: "card ?A + card ?B \<le> card V" .
  have "0 < card V" using assms(7,8) by (auto simp: card_gt_0_iff)
  define w where "w = (if temoin \<noteq> [] then 1 else 0 :: nat)"
  have v1: "is_reachable v1 = card ?A + (if is_witness v1 = Some True then 1 else 0)" "is_voters v1 = card V + w"
      "is_isolated v1 \<longleftrightarrow> is_reachable v1 * 2 \<le> is_voters v1" "is_witness v1 = Some True \<Longrightarrow> w = 1"
    using assms(1) A len(1) \<open>0 < card V\<close> by (auto simp: isolation_def Let_def py_simps witness_reachable_def w_def)
  have v2: "is_reachable v2 = card ?B + (if is_witness v2 = Some True then 1 else 0)" "is_voters v2 = card V + w"
      "is_isolated v2 \<longleftrightarrow> is_reachable v2 * 2 \<le> is_voters v2" "is_witness v2 = Some True \<Longrightarrow> w = 1"
    using assms(2) B len(2) \<open>0 < card V\<close> by (auto simp: isolation_def Let_def py_simps witness_reachable_def w_def)
  show ?thesis using sum v1 v2 assms(11) by (auto split: if_splits)
qed

definition cut_net :: "node_name \<Rightarrow> watch_net" where
  "cut_net n = \<lparr>nt_tcp = (\<lambda>_ _. False), nt_ping = (\<lambda>_. False), nt_ssh_port = (\<lambda>m. m = n), nt_probe = (\<lambda>_. (False, False)),
     nt_maintenance = (\<lambda>_. False)\<rparr>"

definition node_on :: "node_name \<Rightarrow> reg_node" where
  "node_on n = \<lparr>nd_name = n, nd_online = True\<rparr>"

theorem no_two_majorities_witness:
  "\<exists>v1 v2. isolation (cut_net ''n2'') [node_on ''n2'', node_on ''n3'', node_on ''n4''] [] = Inr v1
     \<and> isolation (cut_net ''n4'') [node_on ''n1'', node_on ''n2'', node_on ''n4''] [] = Inr v2 \<and> (is_isolated v1 \<or> is_isolated v2)"
proof -
  obtain v1 v2 where v: "isolation (cut_net ''n2'') [node_on ''n2'', node_on ''n3'', node_on ''n4''] [] = Inr v1"
      "isolation (cut_net ''n4'') [node_on ''n1'', node_on ''n2'', node_on ''n4''] [] = Inr v2"
      "is_witness v1 = None"
    by (simp add: isolation_def witness_reachable_def Let_def)
  have "is_isolated v1 \<or> is_isolated v2"
    by (rule no_two_majorities [OF v(1,2), where V = "{''n1'', ''n2'', ''n3'', ''n4''}" and ?c1.0 = "''n1''" and ?c2.0 = "''n3''"])
      (use v(3) in \<open>auto simp: node_on_def cut_net_def\<close>)
  with v show ?thesis by blast
qed

text \<open>A node is taken for down exactly after the failure threshold's number of rounds in a row in which neither
  libvirt nor SSH answered, and for suspect only after the suspect threshold's: one answer starts the count again.\<close>

theorem down_after_threshold:
  assumes "1 \<le> wt_suspect conf" and "wt_suspect conf < wt_failure conf"
  shows "(nw_state (node_run conf hist) = Ha_down \<longleftrightarrow>
      wt_failure conf \<le> int (length hist) \<and> (\<forall>pr \<in> set (take (nat (wt_failure conf)) hist). no_answer pr))
    \<and> (nw_state (node_run conf hist) = Ha_suspect \<longrightarrow> (\<forall>pr \<in> set (take (nat (wt_suspect conf)) hist). no_answer pr))"
proof -
  have iff: "n \<le> int (length (takeWhile no_answer hist)) \<longleftrightarrow> n \<le> int (length hist) \<and> (\<forall>pr \<in> set (take (nat n) hist). no_answer pr)"
    if "0 \<le> n" for n
  proof
    assume n: "n \<le> int (length (takeWhile no_answer hist))"
    then have "nat n \<le> length (takeWhile no_answer hist)" by simp
    with takeWhile_all_le n length_takeWhile_le [of no_answer hist]
    show "n \<le> int (length hist) \<and> (\<forall>pr \<in> set (take (nat n) hist). no_answer pr)" by force
  next
    assume n: "n \<le> int (length hist) \<and> (\<forall>pr \<in> set (take (nat n) hist). no_answer pr)"
    then have "takeWhile no_answer (take (nat n) hist) = take (nat n) hist" by (simp add: takeWhile_eq_all_conv)
    then have "takeWhile no_answer hist = take (nat n) hist @ takeWhile no_answer (drop (nat n) hist)"
      by (metis append_take_drop_id n takeWhile_append2)
    moreover have "nat n \<le> length hist" using n by (simp add: nat_le_iff)
    ultimately have "nat n \<le> length (takeWhile no_answer hist)" by simp
    with that show "n \<le> int (length (takeWhile no_answer hist))" by simp
  qed
  with node_run_states [OF assms, of hist] assms show ?thesis by auto
qed

theorem down_after_threshold_witness:
  "nw_state (node_run \<lparr>wt_witness = [], wt_suspect = 1, wt_failure = 2\<rparr> [(False, False), (False, False), (True, True)]) = Ha_down"
  using down_after_threshold [of "\<lparr>wt_witness = [], wt_suspect = 1, wt_failure = 2\<rparr>" "[(False, False), (False, False), (True, True)]"]
  by simp

lemma find_Some_in: "find P xs = Some x \<Longrightarrow> x \<in> set xs \<and> P x"
  by (auto simp: find_Some_iff)

text \<open>The dry run says it would act only when every condition of the design holds: more than one node, a
  witness when there are two, a majority of the voters reached, a fencing way set for the failed node, and an
  online node, another one and not in maintenance, to restart on, which is the one it names.\<close>

theorem decide_needs_every_condition:
  "(case decide net me st failed nodes temoin iv of (act, sentence) \<Rightarrow>
     act \<longleftrightarrow> nodes \<noteq> [] \<and> (length nodes = 1 \<longrightarrow> temoin \<noteq> []) \<and> \<not> is_isolated iv \<and> get_fencing me failed st \<noteq> None
       \<and> (\<exists>t. t \<in> set (LOCAL # map nd_name (filter nd_online nodes)) \<and> t \<noteq> failed \<and> \<not> nt_maintenance net t))
   \<and> (\<forall>m t. decide net me st failed nodes temoin iv = (True, Would_restart m t) \<longrightarrow>
        t \<in> set (LOCAL # map nd_name (filter nd_online nodes)) \<and> t \<noteq> failed \<and> \<not> nt_maintenance net t)"
proof -
  have none: "restart_target net failed nodes = None \<longleftrightarrow>
      (\<nexists>t. t \<in> set (LOCAL # map nd_name (filter nd_online nodes)) \<and> t \<noteq> failed \<and> \<not> nt_maintenance net t)"
    unfolding restart_target_def by (auto simp: find_None_iff)
  have some: "restart_target net failed nodes = Some t \<Longrightarrow>
      t \<in> set (LOCAL # map nd_name (filter nd_online nodes)) \<and> t \<noteq> failed \<and> \<not> nt_maintenance net t" for t
    unfolding restart_target_def by (drule find_Some_in) auto
  show ?thesis
  proof (cases "restart_target net failed nodes")
    case None
    with none show ?thesis by (auto simp: decide_def auto_restart_possible_def split: option.splits)
  next
    case (Some t)
    from some [OF this] Some show ?thesis by (auto simp: decide_def auto_restart_possible_def split: option.splits)
  qed
qed

theorem decide_needs_every_condition_witness:
  "case decide (cut_net ''n3'') ''n1''
      \<lparr>hs_protected = [], hs_policies = [], hs_monitoring = [], hs_settings = [], hs_fencing = [(''n2'', sample_fencing)]\<rparr>
      ''n2'' [node_on ''n2'', node_on ''n3''] [] \<lparr>is_isolated = False, is_reachable = 2, is_voters = 3, is_witness = None\<rparr>
    of (act, sentence) \<Rightarrow> act"
proof -
  let ?st = "\<lparr>hs_protected = [], hs_policies = [], hs_monitoring = [], hs_settings = [], hs_fencing = [(''n2'', sample_fencing)]\<rparr>"
  let ?iv = "\<lparr>is_isolated = False, is_reachable = 2, is_voters = 3, is_witness = None\<rparr>"
  obtain act se where d: "decide (cut_net ''n3'') ''n1'' ?st ''n2'' [node_on ''n2'', node_on ''n3''] [] ?iv = (act, se)"
    by (rule prod.exhaust)
  have f: "get_fencing ''n1'' ''n2'' ?st \<noteq> None" by (simp add: get_fencing_def fencing_def to_db_def LOCAL_def)
  have l: "LOCAL \<noteq> ''n2''" "\<not> nt_maintenance (cut_net ''n3'') LOCAL" by (simp_all add: LOCAL_def cut_net_def)
  have c: "act \<longleftrightarrow> [node_on ''n2'', node_on ''n3''] \<noteq> [] \<and> (length [node_on ''n2'', node_on ''n3''] = 1 \<longrightarrow> [] \<noteq> ([] :: string))
      \<and> \<not> is_isolated ?iv \<and> get_fencing ''n1'' ''n2'' ?st \<noteq> None
      \<and> (\<exists>t. t \<in> set (LOCAL # map nd_name (filter nd_online [node_on ''n2'', node_on ''n3''])) \<and> t \<noteq> ''n2'' \<and> \<not> nt_maintenance (cut_net ''n3'') t)"
    using decide_needs_every_condition [where net = "cut_net ''n3''" and me = "''n1''" and st = ?st and failed = "''n2''"
        and nodes = "[node_on ''n2'', node_on ''n3'']" and temoin = "[]" and iv = ?iv, THEN conjunct1]
    unfolding d prod.case .
  have "act" unfolding c by (intro conjI exI [of _ LOCAL]) (use f l in simp_all)
  with d show ?thesis by simp
qed

section \<open>A witness that silences the watcher\<close>

lemma witness_empty_port: "witness_reachable net ''w:'' = Inl Value_error"
  by (simp add: witness_reachable_def one_colon_def tcp_text_def int_of_text_def strip_chars_def str_isdigit_def)

definition no_settings :: ha_store where
  "no_settings = \<lparr>hs_protected = [], hs_policies = [], hs_monitoring = [], hs_settings = [], hs_fencing = []\<rparr>"

lemma empty_port_accepted: "\<exists>st w. save_watch_settings ''w:'' 3 6 no_settings = Inr (st, w) \<and> wt_witness w = ''w:''"
proof -
  have "valid_host ''w''" by code_simp
  moreover have "strip ''w:'' = ''w:''" "one_colon ''w:''" by (simp_all add: strip_chars_def is_blank_def one_colon_def)
  ultimately show ?thesis
    by (simp add: save_watch_settings_def Let_def watch_settings_of_def setting_def ha_save_settings_def no_settings_def)
qed

text \<open>A witness with an empty port is accepted by the settings, and then a node that fails is never announced:
  the round in which it reaches the threshold raises before anything is recorded, with its state already changed to
  down, and a later round without an answer of it records and announces nothing.\<close>

theorem empty_port_silences_watcher:
  assumes "wt_witness conf = ''w:''" and "nt_probe net name = (False, False)" and "map_of (wa_state s) name = Some old"
    and "nw_state old \<noteq> Ha_down" and "wt_failure conf \<le> int (nw_failures old) + 1" and "wa_iso s = None"
  shows "(\<exists>st w. save_watch_settings ''w:'' 3 6 no_settings = Inr (st, w) \<and> wt_witness w = ''w:'')
    \<and> (\<exists>s' s''. watch_node net me st conf nodes vms_of name s = (Some Value_error, s')
         \<and> watch_node net me st conf nodes vms_of name s' = (None, s'') \<and> wa_events s'' = wa_events s)"
proof -
  let ?new = "node_step conf (nt_probe net name) old"
  let ?s' = "s\<lparr>wa_state := dict_set name ?new (wa_state s)\<rparr>"
  have new: "nw_state ?new = Ha_down" using assms(2,5) by (simp add: node_step_def Let_def)
  have iso: "isolation net nodes (wt_witness conf) = Inl Value_error"
    by (simp add: isolation_def assms(1) witness_empty_port Let_def)
  have "watch_node net me st conf nodes vms_of name s = (Some Value_error, ?s')"
    using assms(3,4,6) new iso by (simp add: watch_node_def Let_def)
  moreover have "nw_state (node_step conf (nt_probe net name) ?new) = Ha_down"
    using assms(2,5) by (simp add: node_step_def Let_def)
  then have "\<exists>s''. watch_node net me st conf nodes vms_of name ?s' = (None, s'') \<and> wa_events s'' = wa_events s"
    using new by (simp add: watch_node_def Let_def)
  ultimately show ?thesis using empty_port_accepted by blast
qed

theorem empty_port_silences_watcher_witness:
  "\<exists>s' s''. watch_node (cut_net ''n3'') ''n1'' no_settings \<lparr>wt_witness = ''w:'', wt_suspect = 3, wt_failure = 6\<rparr> [node_on ''n2'', node_on ''n3'']
        (\<lambda>_. [''a'']) ''n2'' \<lparr>wa_state = [(''n2'', \<lparr>nw_failures = 5, nw_state = Ha_suspect\<rparr>)], wa_iso = None, wa_events = []\<rparr>
      = (Some Value_error, s')
    \<and> watch_node (cut_net ''n3'') ''n1'' no_settings \<lparr>wt_witness = ''w:'', wt_suspect = 3, wt_failure = 6\<rparr> [node_on ''n2'', node_on ''n3'']
        (\<lambda>_. [''a'']) ''n2'' s' = (None, s'') \<and> wa_events s'' = []"
  using empty_port_silences_watcher [where conf = "\<lparr>wt_witness = ''w:'', wt_suspect = 3, wt_failure = 6\<rparr>" and net = "cut_net ''n3''"
      and name = "''n2''" and s = "\<lparr>wa_state = [(''n2'', \<lparr>nw_failures = 5, nw_state = Ha_suspect\<rparr>)], wa_iso = None, wa_events = []\<rparr>"
      and old = "\<lparr>nw_failures = 5, nw_state = Ha_suspect\<rparr>" and me = "''n1''" and st = no_settings
      and nodes = "[node_on ''n2'', node_on ''n3'']" and vms_of = "\<lambda>_. [''a'']"]
  by (simp add: cut_net_def)

end
