(* ===== verification/Access_Store.thy ===== *)
theory Access_Store
  imports Prelude
begin

text \<open>
  The permission tables (\<open>app/repositories/sqlite/access.py\<close>, schema in \<open>app/core/database.py\<close>):
  \<open>custom_roles\<close>, \<open>groups\<close>, \<open>group_members\<close>, \<open>pools\<close>, \<open>pool_members\<close>, \<open>acl\<close> and what a
  rename reads of \<open>api_tokens\<close>.

  A table keyed by an id is a dictionary in the order of the ids; a table keyed by two columns is a list of
  pairs. The ids are AUTOINCREMENT: a new row gets one more than the largest id the table ever had, so each
  table carries its row of \<open>sqlite_sequence\<close> (the numbering of a node outside a cluster; in a cluster
  the sequence is raised to a fresh id first). A UNIQUE or CHECK constraint that fails is an error and
  changes nothing. The dispatch of a write to the daemon is left out: the statement that runs there is the
  one modelled.
\<close>

record acl_row =
  acl_id :: nat
  acl_subject_type :: string
  acl_subject_id :: string
  acl_role :: string
  acl_resource_type :: string
  acl_resource_id :: string

record access =
  ac_roles :: "(nat, string \<times> string) dict"
  ac_groups :: "(nat, string) dict"
  ac_members :: "(nat \<times> string) list"
  ac_pools :: "(nat, string \<times> string) dict"
  ac_pool_members :: "(nat \<times> string) list"
  ac_acl :: "acl_row list"
  ac_tokens :: "(nat, string \<times> string) dict"
  ac_seq_roles :: nat
  ac_seq_groups :: nat
  ac_seq_pools :: nat
  ac_seq_acl :: nat

datatype access_error =
    Name_taken string
  | Check_failed
  | Row_exists
  | Unknown_privileges "string list"
  | No_privileges
  | Unknown_role string
  | Not_a_number string

type_synonym 'a access_result = "access_error + 'a"

text \<open>The id of a new row of an AUTOINCREMENT table.\<close>

definition next_rowid :: "nat \<Rightarrow> nat list \<Rightarrow> nat" where
  "next_rowid sequence ids = Suc (fold max ids sequence)"

section \<open>Custom roles\<close>

definition custom_roles :: "access \<Rightarrow> (nat \<times> string \<times> string) list" where
  "custom_roles s = sort_key (\<lambda>(_, name, _). name) (ac_roles s)"

definition custom_role :: "int \<Rightarrow> access \<Rightarrow> (string \<times> string) option" where
  "custom_role role_id s = (if role_id < 0 then None else map_of (ac_roles s) (nat role_id))"

definition store_create_custom_role :: "string \<Rightarrow> string \<Rightarrow> access \<Rightarrow> (nat \<times> access) access_result" where
  "store_create_custom_role name privileges s =
     (if name \<in> fst ` snd ` set (ac_roles s) then Inl (Name_taken name)
      else let i = next_rowid (ac_seq_roles s) (keys (ac_roles s)) in
        Inr (i, s\<lparr>ac_roles := ac_roles s @ [(i, name, privileges)], ac_seq_roles := i\<rparr>))"

definition store_set_custom_role_privileges :: "nat \<Rightarrow> string \<Rightarrow> access \<Rightarrow> bool \<times> access" where
  "store_set_custom_role_privileges role_id privileges s =
     (role_id \<in> set (keys (ac_roles s)),
      s\<lparr>ac_roles := dict_alter role_id (\<lambda>(name, _). (name, privileges)) (ac_roles s)\<rparr>)"

definition store_delete_custom_role :: "string \<Rightarrow> nat \<Rightarrow> access \<Rightarrow> access" where
  "store_delete_custom_role role_key role_id s =
     s\<lparr>ac_acl := filter (\<lambda>a. acl_role a \<noteq> role_key) (ac_acl s),
       ac_roles := dict_del role_id (ac_roles s)\<rparr>"

section \<open>Groups\<close>

definition store_groups :: "access \<Rightarrow> (nat \<times> string \<times> string list) list" where
  "store_groups s = map (\<lambda>(i, name). (i, name, sort (map snd (filter (\<lambda>(g, _). g = i) (ac_members s)))))
     (sort_key snd (ac_groups s))"

definition store_create_group :: "string \<Rightarrow> access \<Rightarrow> (nat \<times> access) access_result" where
  "store_create_group name s =
     (if name \<in> snd ` set (ac_groups s) then Inl (Name_taken name)
      else let i = next_rowid (ac_seq_groups s) (keys (ac_groups s)) in
        Inr (i, s\<lparr>ac_groups := ac_groups s @ [(i, name)], ac_seq_groups := i\<rparr>))"

definition store_delete_group :: "nat \<Rightarrow> access \<Rightarrow> access" where
  "store_delete_group group_id s =
     s\<lparr>ac_members := filter (\<lambda>(g, _). g \<noteq> group_id) (ac_members s),
       ac_acl := filter (\<lambda>a. \<not> (acl_subject_type a = ''group'' \<and> acl_subject_id a = str_of_nat group_id)) (ac_acl s),
       ac_groups := dict_del group_id (ac_groups s)\<rparr>"

text \<open>INSERT OR IGNORE.\<close>

definition insert_or_ignore :: "'a \<Rightarrow> 'a list \<Rightarrow> 'a list" where
  "insert_or_ignore x xs = (if x \<in> set xs then xs else xs @ [x])"

definition store_add_group_member :: "nat \<Rightarrow> string \<Rightarrow> access \<Rightarrow> access" where
  "store_add_group_member group_id username s = s\<lparr>ac_members := insert_or_ignore (group_id, username) (ac_members s)\<rparr>"

definition store_remove_group_member :: "nat \<Rightarrow> string \<Rightarrow> access \<Rightarrow> access" where
  "store_remove_group_member group_id username s = s\<lparr>ac_members := filter (\<lambda>m. m \<noteq> (group_id, username)) (ac_members s)\<rparr>"

definition groups_of :: "string \<Rightarrow> access \<Rightarrow> nat list" where
  "groups_of username s = map fst (filter (\<lambda>(_, u). u = username) (ac_members s))"

section \<open>Pools\<close>

definition store_pools :: "access \<Rightarrow> (nat \<times> string \<times> string \<times> string list) list" where
  "store_pools s = map (\<lambda>(i, name, description). (i, name, description,
       sort (map snd (filter (\<lambda>(p, _). p = i) (ac_pool_members s)))))
     (sort_key (\<lambda>(_, name, _). name) (ac_pools s))"

definition store_create_pool :: "string \<Rightarrow> string \<Rightarrow> access \<Rightarrow> (nat \<times> access) access_result" where
  "store_create_pool name description s =
     (if name \<in> fst ` snd ` set (ac_pools s) then Inl (Name_taken name)
      else let i = next_rowid (ac_seq_pools s) (keys (ac_pools s)) in
        Inr (i, s\<lparr>ac_pools := ac_pools s @ [(i, name, description)], ac_seq_pools := i\<rparr>))"

definition store_set_pool_description :: "nat \<Rightarrow> string \<Rightarrow> access \<Rightarrow> bool \<times> access" where
  "store_set_pool_description pool_id description s =
     (pool_id \<in> set (keys (ac_pools s)),
      s\<lparr>ac_pools := dict_alter pool_id (\<lambda>(name, _). (name, description)) (ac_pools s)\<rparr>)"

definition store_delete_pool :: "nat \<Rightarrow> access \<Rightarrow> access" where
  "store_delete_pool pool_id s =
     s\<lparr>ac_pool_members := filter (\<lambda>(p, _). p \<noteq> pool_id) (ac_pool_members s),
       ac_acl := filter (\<lambda>a. \<not> (acl_resource_type a = ''pool'' \<and> acl_resource_id a = str_of_nat pool_id)) (ac_acl s),
       ac_pools := dict_del pool_id (ac_pools s)\<rparr>"

definition store_add_pool_member :: "nat \<Rightarrow> string \<Rightarrow> access \<Rightarrow> access" where
  "store_add_pool_member pool_id vm_name s = s\<lparr>ac_pool_members := insert_or_ignore (pool_id, vm_name) (ac_pool_members s)\<rparr>"

definition store_remove_pool_member :: "nat \<Rightarrow> string \<Rightarrow> access \<Rightarrow> access" where
  "store_remove_pool_member pool_id vm_name s = s\<lparr>ac_pool_members := filter (\<lambda>m. m \<noteq> (pool_id, vm_name)) (ac_pool_members s)\<rparr>"

text \<open>A plain UPDATE: it fails when a pool already has the new name beside the old one.\<close>

definition store_rename_pool_member :: "string \<Rightarrow> string \<Rightarrow> access \<Rightarrow> access access_result" where
  "store_rename_pool_member old new s =
     (if old \<noteq> new \<and> (\<exists>(p, v) \<in> set (ac_pool_members s). v = old \<and> (p, new) \<in> set (ac_pool_members s)) then Inl Row_exists
      else Inr (s\<lparr>ac_pool_members := map (\<lambda>(p, v). (p, if v = old then new else v)) (ac_pool_members s),
             ac_acl := filter (\<lambda>a. \<not> (acl_resource_type a = ''vm'' \<and> acl_resource_id a = old)) (ac_acl s)\<rparr>))"

definition pools_of :: "string \<Rightarrow> access \<Rightarrow> nat list" where
  "pools_of vm_name s = map fst (filter (\<lambda>(_, v). v = vm_name) (ac_pool_members s))"

definition store_remove_vm_from_all_pools :: "string \<Rightarrow> access \<Rightarrow> access" where
  "store_remove_vm_from_all_pools vm_name s = s\<lparr>ac_pool_members := filter (\<lambda>(_, v). v \<noteq> vm_name) (ac_pool_members s)\<rparr>"

section \<open>Assignments\<close>

definition acl_of :: "string \<Rightarrow> access \<Rightarrow> acl_row list" where
  "acl_of resource_type s = filter (\<lambda>a. acl_resource_type a = resource_type) (ac_acl s)"

text \<open>The CHECK constraints of the table.\<close>

definition SUBJECT_TYPES :: "string list" where
  "SUBJECT_TYPES = [''user'', ''group'']"

definition RESOURCE_TYPES :: "string list" where
  "RESOURCE_TYPES = [''vm'', ''pool'', ''container'', ''storage'', ''network'', ''backup_store'']"

definition store_create_acl ::
  "string \<Rightarrow> string \<Rightarrow> string \<Rightarrow> string \<Rightarrow> string \<Rightarrow> access \<Rightarrow> (nat \<times> access) access_result" where
  "store_create_acl subject_type subject_id role resource_type resource_id s =
     (if subject_type \<notin> set SUBJECT_TYPES \<or> resource_type \<notin> set RESOURCE_TYPES then Inl Check_failed
      else let i = next_rowid (ac_seq_acl s) (map acl_id (ac_acl s)) in
        Inr (i, s\<lparr>ac_acl := ac_acl s @ [\<lparr>acl_id = i, acl_subject_type = subject_type, acl_subject_id = subject_id,
                acl_role = role, acl_resource_type = resource_type, acl_resource_id = resource_id\<rparr>],
              ac_seq_acl := i\<rparr>))"

definition store_delete_acl :: "nat \<Rightarrow> access \<Rightarrow> access" where
  "store_delete_acl i s = s\<lparr>ac_acl := filter (\<lambda>a. acl_id a \<noteq> i) (ac_acl s)\<rparr>"

definition store_delete_acl_for_vm :: "string \<Rightarrow> access \<Rightarrow> access" where
  "store_delete_acl_for_vm vm_name s =
     s\<lparr>ac_acl := filter (\<lambda>a. \<not> (acl_resource_type a = ''vm'' \<and> acl_resource_id a = vm_name)) (ac_acl s)\<rparr>"

section \<open>Renames\<close>

text \<open>UPDATE OR REPLACE: a membership already under the new name gives way.\<close>

definition moved_members :: "string \<Rightarrow> string \<Rightarrow> (nat \<times> string) list \<Rightarrow> (nat \<times> string) list" where
  "moved_members old new ms =
     map (\<lambda>(p, v). (p, if v = old then new else v))
       (filter (\<lambda>(p, v). \<not> (old \<noteq> new \<and> v = new \<and> (p, old) \<in> set ms)) ms)"

definition moved_acl :: "string \<Rightarrow> string \<Rightarrow> string \<Rightarrow> acl_row list \<Rightarrow> acl_row list" where
  "moved_acl resource_type old new =
     map (\<lambda>a. if acl_resource_id a = old \<and> acl_resource_type a = resource_type then a\<lparr>acl_resource_id := new\<rparr> else a)"

definition move_vm :: "string \<Rightarrow> string \<Rightarrow> access \<Rightarrow> access" where
  "move_vm old new s =
     s\<lparr>ac_pool_members := moved_members old new (ac_pool_members s), ac_acl := moved_acl ''vm'' old new (ac_acl s)\<rparr>"

definition move_container :: "string \<Rightarrow> string \<Rightarrow> access \<Rightarrow> access" where
  "move_container old new s = s\<lparr>ac_acl := moved_acl ''container'' old new (ac_acl s)\<rparr>"

datatype label_kind = Pool_label | Group_label | Custom_role_label | Api_token_label

datatype label_answer = Old_name "string option" | Taken

text \<open>The table a label lives in, as \<open>(id, name)\<close> rows, with the owner of an API token.\<close>

definition label_rows :: "label_kind \<Rightarrow> access \<Rightarrow> (nat, string option \<times> string) dict" where
  "label_rows kind s = (case kind of
       Pool_label \<Rightarrow> map (\<lambda>(i, name, _). (i, None, name)) (ac_pools s)
     | Group_label \<Rightarrow> map (\<lambda>(i, name). (i, None, name)) (ac_groups s)
     | Custom_role_label \<Rightarrow> map (\<lambda>(i, name, _). (i, None, name)) (ac_roles s)
     | Api_token_label \<Rightarrow> map (\<lambda>(i, username, name). (i, Some username, name)) (ac_tokens s))"

definition set_label :: "label_kind \<Rightarrow> nat \<Rightarrow> string \<Rightarrow> access \<Rightarrow> access" where
  "set_label kind object_id new s = (case kind of
       Pool_label \<Rightarrow> s\<lparr>ac_pools := dict_alter object_id (\<lambda>(_, d). (new, d)) (ac_pools s)\<rparr>
     | Group_label \<Rightarrow> s\<lparr>ac_groups := dict_alter object_id (\<lambda>_. new) (ac_groups s)\<rparr>
     | Custom_role_label \<Rightarrow> s\<lparr>ac_roles := dict_alter object_id (\<lambda>(_, p). (new, p)) (ac_roles s)\<rparr>
     | Api_token_label \<Rightarrow> s\<lparr>ac_tokens := dict_alter object_id (\<lambda>(u, _). (u, new)) (ac_tokens s)\<rparr>)"

definition rename_label :: "label_kind \<Rightarrow> nat \<Rightarrow> string \<Rightarrow> string option \<Rightarrow> access \<Rightarrow> label_answer \<times> access" where
  "rename_label kind object_id new owner s =
     (case map_of (label_rows kind s) object_id of
        None \<Rightarrow> (Old_name None, s)
      | Some (user, name) \<Rightarrow>
          if owner \<noteq> None \<and> user \<noteq> owner then (Old_name None, s)
          else if kind \<noteq> Api_token_label \<and> (\<exists>(i, _, n) \<in> set (label_rows kind s). n = new \<and> i \<noteq> object_id) then (Taken, s)
          else (Old_name (Some name), set_label kind object_id new s))"

section \<open>Lemmas\<close>

named_theorems access_defs \<open>the statements of the store\<close>

lemmas store_defs [access_defs] =
  store_create_custom_role_def store_set_custom_role_privileges_def store_delete_custom_role_def
  store_create_group_def store_delete_group_def store_add_group_member_def store_remove_group_member_def
  store_create_pool_def store_set_pool_description_def store_delete_pool_def store_add_pool_member_def
  store_remove_pool_member_def store_rename_pool_member_def store_remove_vm_from_all_pools_def
  store_create_acl_def store_delete_acl_def store_delete_acl_for_vm_def move_vm_def move_container_def
  rename_label_def set_label_def

lemma fold_max_ge: "(m :: nat) \<le> fold max ids m" "i \<in> set ids \<Longrightarrow> i \<le> fold max ids m"
proof (induction ids arbitrary: m)
  case (Cons a ids)
  { case 1 show ?case using Cons.IH(1) [of "max a m"] by simp }
  { case 2 then show ?case using Cons.IH(1) [of "max a m"] Cons.IH(2) [of "max a m"] by auto }
qed simp_all

lemma next_rowid_fresh: "sequence < next_rowid sequence ids" "i \<in> set ids \<Longrightarrow> i < next_rowid sequence ids"
  using fold_max_ge [of sequence ids] fold_max_ge(2) [of i ids sequence] by (auto simp: next_rowid_def less_Suc_eq_le)

lemma set_groups_of [simp]: "g \<in> set (groups_of u s) \<longleftrightarrow> (g, u) \<in> set (ac_members s)"
  by (force simp: groups_of_def)

lemma set_pools_of [simp]: "p \<in> set (pools_of v s) \<longleftrightarrow> (p, v) \<in> set (ac_pool_members s)"
  by (force simp: pools_of_def)

lemma set_insert_or_ignore [simp]: "set (insert_or_ignore x xs) = insert x (set xs)"
  by (auto simp: insert_or_ignore_def)

lemma moved_members_iff:
  "(p, v) \<in> set (moved_members old new ms) \<longleftrightarrow>
     (if v = new then (p, old) \<in> set ms \<or> (p, new) \<in> set ms else v \<noteq> old \<and> (p, v) \<in> set ms)"
proof (cases "v = new")
  case True
  have "(p, new) \<in> set (moved_members old new ms) \<longleftrightarrow>
      (\<exists>w. (p, w) \<in> set ms \<and> \<not> (old \<noteq> new \<and> w = new \<and> (p, old) \<in> set ms) \<and> (w = old \<or> w = new))"
    by (force simp: moved_members_def image_iff split: if_splits)
  then show ?thesis using True by auto
next
  case False
  then show ?thesis by (force simp: moved_members_def image_iff split: if_splits)
qed

end
