(* ===== verification/Permission_Props.thy ===== *)
theory Permission_Props
  imports Permissions
begin

text \<open>
  The operations on the permissions as events of a run, the invariant every run keeps, and what follows for
  the three checks. The checks share one contract, the locale \<open>acl_check\<close>: a right is a global one or comes
  from an assignment that applies to the user and the object and whose role has the privilege. It is
  interpreted on the VM check, the scoped check and the container check.
\<close>

section \<open>The contract of a check\<close>

lemma get_role_privileges_cong: "ac_roles s' = ac_roles s \<Longrightarrow> get_role_privileges k s' = get_role_privileges k s"
  by (simp add: get_role_privileges_def custom_role_def split: option.splits)

locale acl_check =
  fixes check :: "user \<Rightarrow> 'r \<Rightarrow> string \<Rightarrow> access \<Rightarrow> bool"
    and global_right :: "user \<Rightarrow> string \<Rightarrow> bool"
    and applies :: "user \<Rightarrow> 'r \<Rightarrow> access \<Rightarrow> acl_row \<Rightarrow> bool"
  assumes check_iff: "check u r p s \<longleftrightarrow> global_right u p
      \<or> (\<exists>a \<in> set (ac_acl s). applies u r s a \<and> p \<in> get_role_privileges (acl_role a) s)"
    and applies_cong: "ac_members s = ac_members s' \<Longrightarrow> ac_pool_members s = ac_pool_members s' \<Longrightarrow>
      applies u r s a \<longleftrightarrow> applies u r s' a"
begin

lemma created_exactly:
  assumes "create_acl st sid role rt rid s = Inr (i, s')"
  shows "check u r p s' \<longleftrightarrow> check u r p s
    \<or> (applies u r s \<lparr>acl_id = i, acl_subject_type = st, acl_subject_id = sid, acl_role = role, acl_resource_type = rt,
         acl_resource_id = rid\<rparr> \<and> p \<in> get_role_privileges role s)"
proof -
  let ?new = "\<lparr>acl_id = i, acl_subject_type = st, acl_subject_id = sid, acl_role = role, acl_resource_type = rt, acl_resource_id = rid\<rparr>"
  have s': "ac_acl s' = ac_acl s @ [?new]" "ac_members s' = ac_members s" "ac_pool_members s' = ac_pool_members s"
    "ac_roles s' = ac_roles s"
    using assms by (auto simp: create_acl_def store_create_acl_def Let_def split: if_splits)
  have "get_role_privileges k s' = get_role_privileges k s" for k
    by (rule get_role_privileges_cong) (simp add: s')
  moreover have "applies u r s' a = applies u r s a" for a by (rule applies_cong) (simp_all add: s')
  ultimately show ?thesis by (auto simp: check_iff s'(1))
qed

lemma fewer_rows:
  assumes "set (ac_acl s') \<subseteq> set (ac_acl s)" "ac_members s' = ac_members s" "ac_pool_members s' = ac_pool_members s"
    "ac_roles s' = ac_roles s" "check u r p s'"
  shows "check u r p s"
proof -
  have "get_role_privileges k s' = get_role_privileges k s" for k
    by (rule get_role_privileges_cong) (simp add: assms)
  moreover have "applies u r s' a = applies u r s a" for a by (rule applies_cong) (simp_all add: assms)
  ultimately show ?thesis using assms(1,5) by (auto simp: check_iff)
qed

lemma no_row_no_right:
  "(\<And>a. a \<in> set (ac_acl s) \<Longrightarrow> \<not> applies u r s a) \<Longrightarrow> check u r p s \<longleftrightarrow> global_right u p"
  by (auto simp: check_iff)

end

section \<open>The three checks meet it\<close>

definition vm_global :: "user \<Rightarrow> string \<Rightarrow> bool" where
  "vm_global u p \<longleftrightarrow> us_role u = ''admin'' \<or> us_role u = ''viewer'' \<and> p \<in> {''vm.view'', ''vm.console''}"

definition container_global :: "user \<Rightarrow> string \<Rightarrow> bool" where
  "container_global u p \<longleftrightarrow> us_role u = ''admin'' \<or> us_role u = ''viewer'' \<and> p = ''container.view''"

definition vm_applies :: "user \<Rightarrow> string \<Rightarrow> access \<Rightarrow> acl_row \<Rightarrow> bool" where
  "vm_applies u vm s a \<longleftrightarrow> subject_ok u (groups_of (us_name u) s) a \<and> resource_ok vm (pools_of vm s) a"

definition scoped_applies :: "user \<Rightarrow> string \<times> string \<Rightarrow> access \<Rightarrow> acl_row \<Rightarrow> bool" where
  "scoped_applies u r s a \<longleftrightarrow> subject_ok u (groups_of (us_name u) s) a \<and> acl_resource_type a = fst r \<and> acl_resource_id a = snd r"

lemmas applies_defs = vm_applies_def scoped_applies_def subject_ok_def resource_ok_def

lemma vm_rows_grant_iff:
  "vm_rows_grant u vm p s as \<longleftrightarrow> (\<exists>a \<in> set as. vm_applies u vm s a \<and> p \<in> get_role_privileges (acl_role a) s)"
  by (induction as) (auto simp: vm_applies_def)

lemma scoped_rows_grant_iff:
  "scoped_rows_grant u i p s as \<longleftrightarrow>
     (\<exists>a \<in> set as. subject_ok u (groups_of (us_name u) s) a \<and> acl_resource_id a = i \<and> p \<in> get_role_privileges (acl_role a) s)"
  by (induction as) auto

lemma container_rows_grant_iff:
  "container_rows_grant u i p s as \<longleftrightarrow>
     (\<exists>a \<in> set as. subject_ok u (groups_of (us_name u) s) a \<and> acl_resource_id a = i \<and> p \<in> get_role_privileges (acl_role a) s)"
  by (induction as) auto

interpretation vm: acl_check has_privilege vm_global vm_applies
proof
  show "has_privilege u r p s \<longleftrightarrow> vm_global u p
      \<or> (\<exists>a \<in> set (ac_acl s). vm_applies u r s a \<and> p \<in> get_role_privileges (acl_role a) s)" for u r p s
    by (auto simp: has_privilege_def vm_global_def vm_rows_grant_iff)
qed (simp add: applies_defs)

interpretation sc: acl_check "\<lambda>u r. has_scoped_privilege u (fst r) (snd r)" "\<lambda>u _. us_role u = ''admin''" scoped_applies
proof
  show "has_scoped_privilege u (fst r) (snd r) p s \<longleftrightarrow> us_role u = ''admin''
      \<or> (\<exists>a \<in> set (ac_acl s). scoped_applies u r s a \<and> p \<in> get_role_privileges (acl_role a) s)" for u r p s
    by (auto simp: has_scoped_privilege_def scoped_rows_grant_iff acl_of_def scoped_applies_def)
qed (simp add: applies_defs)

interpretation ct: acl_check has_container_privilege container_global "\<lambda>u name. scoped_applies u (''container'', name)"
proof
  show "has_container_privilege u r p s \<longleftrightarrow> container_global u p
      \<or> (\<exists>a \<in> set (ac_acl s). scoped_applies u (''container'', r) s a \<and> p \<in> get_role_privileges (acl_role a) s)" for u r p s
    by (auto simp: has_container_privilege_def container_global_def container_rows_grant_iff acl_of_def scoped_applies_def)
qed (simp add: applies_defs)

section \<open>Runs of operations\<close>

datatype access_op =
    Create_role string "string list"
  | Set_role nat "string list"
  | Delete_role nat
  | Create_group string
  | Delete_group nat
  | Add_member nat string
  | Remove_member nat string
  | Create_pool string string
  | Describe_pool nat string
  | Delete_pool nat
  | Add_to_pool nat string
  | Remove_from_pool nat string
  | Rename_in_pools string string
  | Forget_vm string
  | Assign bool "string list" string string string string string
  | Unassign nat
  | Delete_user string "string option" nat string
  | Move_vm string string
  | Move_container string string
  | Rename_label label_kind nat string "string option"

text \<open>The state an operation leaves; one that raises leaves it as it was.\<close>

definition kept_or :: "access \<Rightarrow> 'e + access \<Rightarrow> access" where
  "kept_or s r = (case r of Inl _ \<Rightarrow> s | Inr s' \<Rightarrow> s')"

definition kept_or_snd :: "access \<Rightarrow> 'e + 'b \<times> access \<Rightarrow> access" where
  "kept_or_snd s r = (case r of Inl _ \<Rightarrow> s | Inr (_, s') \<Rightarrow> s')"

fun access_do :: "access_op \<Rightarrow> access \<Rightarrow> access" where
  "access_do (Create_role name ps) s = kept_or_snd s (create_custom_role name ps s)"
| "access_do (Set_role i ps) s = kept_or_snd s (set_custom_role_privileges i ps s)"
| "access_do (Delete_role i) s = delete_custom_role i s"
| "access_do (Create_group name) s = kept_or_snd s (store_create_group name s)"
| "access_do (Delete_group g) s = store_delete_group g s"
| "access_do (Add_member g u) s = store_add_group_member g u s"
| "access_do (Remove_member g u) s = store_remove_group_member g u s"
| "access_do (Create_pool name d) s = kept_or_snd s (store_create_pool name d s)"
| "access_do (Describe_pool q d) s = snd (store_set_pool_description q d s)"
| "access_do (Delete_pool q) s = store_delete_pool q s"
| "access_do (Add_to_pool q v) s = store_add_pool_member q v s"
| "access_do (Remove_from_pool q v) s = store_remove_pool_member q v s"
| "access_do (Rename_in_pools old new) s = kept_or s (store_rename_pool_member old new s)"
| "access_do (Forget_vm v) s = store_remove_vm_from_all_pools v (store_delete_acl_for_vm v s)"
| "access_do (Assign known behind st sid role rt rid) s = kept_or_snd s (route_create_acl known behind st sid role rt rid s)"
| "access_do (Unassign i) s = store_delete_acl i s"
| "access_do (Delete_user caller target others u) s = kept_or s (route_delete_user caller target others u s)"
| "access_do (Move_vm old new) s = move_vm old new s"
| "access_do (Move_container old new) s = move_container old new s"
| "access_do (Rename_label kind i new owner) s = snd (rename_label kind i new owner s)"

definition access_run :: "access_op list \<Rightarrow> access \<Rightarrow> access" where
  "access_run ops s = fold access_do ops s"

definition access_empty :: access where
  "access_empty = \<lparr>ac_roles = [], ac_groups = [], ac_members = [], ac_pools = [], ac_pool_members = [], ac_acl = [],
     ac_tokens = [], ac_seq_roles = 0, ac_seq_groups = 0, ac_seq_pools = 0, ac_seq_acl = 0\<rparr>"

section \<open>What an operation does to the ids and the assignments\<close>

lemma set_store_groups: "set (map (\<lambda>(i, _). f i) (store_groups s)) = f ` set (keys (ac_groups s))"
  by (force simp: store_groups_def)

lemma set_store_pools: "set (map (\<lambda>(i, _). f i) (store_pools s)) = f ` set (keys (ac_pools s))"
  by (force simp: store_pools_def)

lemma delete_rows_of_user_fields:
  "set (ac_acl (delete_rows_of_user as u s)) \<subseteq> set (ac_acl s)
   \<and> delete_rows_of_user as u s = s\<lparr>ac_acl := ac_acl (delete_rows_of_user as u s)\<rparr>"
proof (induction as arbitrary: s)
  case (Cons a as)
  show ?case
    using Cons.IH [of "store_delete_acl (acl_id a) s"] Cons.IH [of s]
    by (cases s) (auto simp: store_delete_acl_def)
qed simp

lemma fold_remove_member_fields:
  "fold (\<lambda>g. store_remove_group_member g u) gs s
     = s\<lparr>ac_members := filter (\<lambda>(g, x). \<not> (x = u \<and> g \<in> set gs)) (ac_members s)\<rparr>"
proof (induction gs arbitrary: s)
  case (Cons a gs)
  have "(\<lambda>x. x \<noteq> (a, u) \<and> (case x of (g, x) \<Rightarrow> \<not> (x = u \<and> g \<in> set gs))) = (\<lambda>(g, x). \<not> (x = u \<and> g \<in> set (a # gs)))"
    by auto
  then show ?case by (simp add: Cons.IH) (simp add: store_remove_group_member_def)
qed simp

text \<open>An assignment keeps its subject, role and kind of resource, and its resource unless that is a VM or a
  container.\<close>

definition same_assignment :: "acl_row \<Rightarrow> acl_row \<Rightarrow> bool" where
  "same_assignment a b \<longleftrightarrow> acl_subject_type a = acl_subject_type b \<and> acl_subject_id a = acl_subject_id b
     \<and> acl_role a = acl_role b \<and> acl_resource_type a = acl_resource_type b
     \<and> (acl_resource_type b = ''pool'' \<longrightarrow> acl_resource_id a = acl_resource_id b)"

definition known_row :: "access \<Rightarrow> acl_row \<Rightarrow> bool" where
  "known_row s a \<longleftrightarrow>
     (acl_subject_type a = ''group'' \<longrightarrow> acl_subject_id a \<in> str_of_nat ` set (keys (ac_groups s)))
     \<and> (acl_resource_type a = ''pool'' \<longrightarrow> acl_resource_id a \<in> str_of_nat ` set (keys (ac_pools s)))"

lemma same_assignment_refl [simp]: "same_assignment a a"
  by (simp add: same_assignment_def)

lemma moved_acl_origin:
  "rt \<noteq> ''pool'' \<Longrightarrow> a \<in> set (moved_acl rt old new as) \<Longrightarrow> \<exists>b \<in> set as. same_assignment a b"
  by (fastforce simp: moved_acl_def same_assignment_def)

lemma rename_label_state: "snd (rename_label kind i new owner s) \<in> {s, set_label kind i new s}"
  by (auto simp: rename_label_def split: option.splits)

lemma set_label_fields:
  "ac_acl (set_label kind i new s) = ac_acl s" "ac_members (set_label kind i new s) = ac_members s"
  "ac_pool_members (set_label kind i new s) = ac_pool_members s" "keys (ac_groups (set_label kind i new s)) = keys (ac_groups s)"
  "keys (ac_pools (set_label kind i new s)) = keys (ac_pools s)" "keys (ac_roles (set_label kind i new s)) = keys (ac_roles s)"
  "ac_seq_groups (set_label kind i new s) = ac_seq_groups s" "ac_seq_pools (set_label kind i new s) = ac_seq_pools s"
  "ac_seq_roles (set_label kind i new s) = ac_seq_roles s" "ac_seq_acl (set_label kind i new s) = ac_seq_acl s"
  by (simp_all add: set_label_def split: label_kind.splits)

lemmas op_defs = kept_or_def kept_or_snd_def create_custom_role_def set_custom_role_privileges_def delete_custom_role_def
  store_defs Let_def

lemma route_create_acl_Inr:
  assumes "route_create_acl known behind st sid role rt rid s = Inr (i, s')"
  shows "role_exists role s" and "known_row s \<lparr>acl_id = i, acl_subject_type = st, acl_subject_id = sid, acl_role = role,
      acl_resource_type = rt, acl_resource_id = rid\<rparr>"
    and "s' = s\<lparr>ac_acl := ac_acl s @ [\<lparr>acl_id = i, acl_subject_type = st, acl_subject_id = sid, acl_role = role,
      acl_resource_type = rt, acl_resource_id = rid\<rparr>], ac_seq_acl := i\<rparr>"
    and "i = next_rowid (ac_seq_acl s) (map acl_id (ac_acl s))"
  using assms unfolding route_create_acl_def known_row_def create_acl_def store_create_acl_def Let_def
    set_store_groups set_store_pools
  by (auto split: if_splits sum.splits)

lemma route_delete_user_Inr:
  assumes "route_delete_user caller target others u s = Inr s'"
  shows "s' = delete_acl_for_user u (s\<lparr>ac_members := filter (\<lambda>(g, x). x \<noteq> u) (ac_members s)\<rparr>)"
proof -
  have "filter (\<lambda>(g, x). \<not> (x = u \<and> g \<in> set (groups_of u s))) (ac_members s) = filter (\<lambda>(g, x). x \<noteq> u) (ac_members s)"
    by (rule filter_cong) auto
  then show ?thesis
    using assms by (auto simp: route_delete_user_def fold_remove_member_fields split: if_splits option.splits)
qed

text \<open>Every assignment after an operation was there before, or is the one a guarded route created.\<close>

lemma row_origin:
  assumes "a \<in> set (ac_acl (access_do op s))"
  shows "(\<exists>b \<in> set (ac_acl s). same_assignment a b) \<or> role_exists (acl_role a) s \<and> known_row s a"
proof (cases op)
  case (Assign known behind st sid role rt rid)
  then show ?thesis
    using assms route_create_acl_Inr [of known behind st sid role rt rid s]
    by (cases "route_create_acl known behind st sid role rt rid s") (fastforce simp: kept_or_snd_def)+
next
  case (Delete_user caller target others u)
  then show ?thesis
    using assms route_delete_user_Inr [of caller target others u s]
      delete_rows_of_user_fields [of "ac_acl s" u "s\<lparr>ac_members := filter (\<lambda>(g, x). x \<noteq> u) (ac_members s)\<rparr>"]
    by (cases "route_delete_user caller target others u s") (auto simp: kept_or_def delete_acl_for_user_def intro!: bexI [of _ a])
next
  case (Rename_label kind i new owner)
  then show ?thesis
    using assms rename_label_state [of kind i new owner s] by (auto simp: set_label_fields intro!: bexI [of _ a])
next
  case (Move_vm old new)
  then show ?thesis using assms moved_acl_origin [of "''vm''" a old new] by (simp add: move_vm_def)
next
  case (Move_container old new)
  then show ?thesis using assms moved_acl_origin [of "''container''" a old new] by (simp add: move_container_def)
qed (use assms in \<open>auto simp: op_defs rbind_def split: sum.splits if_splits intro!: bexI [of _ a]\<close>)

text \<open>The ids: a sequence never goes back, and a new id lies above it.\<close>

lemma route_delete_user_ids:
  assumes "route_delete_user caller target others u s = Inr s'"
  shows "ac_groups s' = ac_groups s" "ac_pools s' = ac_pools s" "ac_roles s' = ac_roles s" "ac_seq_groups s' = ac_seq_groups s"
    "ac_seq_pools s' = ac_seq_pools s" "ac_seq_roles s' = ac_seq_roles s" "ac_seq_acl s' = ac_seq_acl s"
    "ac_pool_members s' = ac_pool_members s" "ac_members s' = filter (\<lambda>(g, x). x \<noteq> u) (ac_members s)"
  by (subst route_delete_user_Inr [OF assms], unfold delete_acl_for_user_def,
      subst delete_rows_of_user_fields [THEN conjunct2], simp)+

lemma set_keys_dict_del [simp]: "set (keys (dict_del k d)) = set (keys d) - {k}"
  by (auto simp: delete_keys)

definition ids_grow :: "(access \<Rightarrow> nat list) \<Rightarrow> (access \<Rightarrow> nat) \<Rightarrow> access \<Rightarrow> access \<Rightarrow> bool" where
  "ids_grow ids sequence s s' \<longleftrightarrow> sequence s \<le> sequence s'
     \<and> (\<forall>i \<in> set (ids s'). i \<in> set (ids s) \<or> sequence s < i \<and> i \<le> sequence s')"

abbreviation group_ids :: "access \<Rightarrow> nat list" where "group_ids s \<equiv> keys (ac_groups s)"
abbreviation pool_ids :: "access \<Rightarrow> nat list" where "pool_ids s \<equiv> keys (ac_pools s)"
abbreviation role_ids :: "access \<Rightarrow> nat list" where "role_ids s \<equiv> keys (ac_roles s)"

text \<open>The operations that touch no id.\<close>

definition same_ids :: "access \<Rightarrow> access \<Rightarrow> bool" where
  "same_ids s s' \<longleftrightarrow> group_ids s' = group_ids s \<and> pool_ids s' = pool_ids s \<and> role_ids s' = role_ids s
     \<and> ac_seq_groups s' = ac_seq_groups s \<and> ac_seq_pools s' = ac_seq_pools s \<and> ac_seq_roles s' = ac_seq_roles s"

lemma same_ids_grow:
  "same_ids s s' \<Longrightarrow> ids_grow group_ids ac_seq_groups s s' \<and> ids_grow pool_ids ac_seq_pools s s' \<and> ids_grow role_ids ac_seq_roles s s'"
  by (simp add: same_ids_def ids_grow_def del: set_map)

lemma quiet_ops:
  "same_ids s (access_do (Assign known behind st sid role rt rid) s)"
  "same_ids s (access_do (Delete_user caller target others u) s)"
  "same_ids s (access_do (Rename_label kind i new owner) s)"
proof -
  show "same_ids s (access_do (Assign known behind st sid role rt rid) s)"
  proof (cases "route_create_acl known behind st sid role rt rid s")
    case (Inr r)
    then obtain n s' where "route_create_acl known behind st sid role rt rid s = Inr (n, s')" by (cases r) simp
    then show ?thesis using route_create_acl_Inr(3) [of known behind st sid role rt rid s n s'] by (simp add: kept_or_snd_def same_ids_def)
  qed (simp add: kept_or_snd_def same_ids_def)
  show "same_ids s (access_do (Delete_user caller target others u) s)"
  proof (cases "route_delete_user caller target others u s")
    case (Inr s')
    then show ?thesis using route_delete_user_ids [OF Inr] by (simp add: kept_or_def same_ids_def)
  qed (simp add: kept_or_def same_ids_def)
  show "same_ids s (access_do (Rename_label kind i new owner) s)"
    using rename_label_state [of kind i new owner s]
    by (elim insertE) (simp_all add: same_ids_def set_label_fields)
qed

lemma op_ids:
  shows "ids_grow group_ids ac_seq_groups s (access_do op s)"
    and "ids_grow pool_ids ac_seq_pools s (access_do op s)"
    and "ids_grow role_ids ac_seq_roles s (access_do op s)"
proof -
  have less: "sequence \<le> next_rowid sequence ids" for sequence ids
    using next_rowid_fresh(1) [of sequence ids] by simp
  have "ids_grow group_ids ac_seq_groups s (access_do op s) \<and> ids_grow pool_ids ac_seq_pools s (access_do op s)
      \<and> ids_grow role_ids ac_seq_roles s (access_do op s)"
  proof (cases op)
    case (Assign known behind st sid role rt rid)
    then show ?thesis using same_ids_grow quiet_ops(1) by blast
  next
    case (Delete_user caller target others u)
    then show ?thesis using same_ids_grow quiet_ops(2) by blast
  next
    case (Rename_label kind i new owner)
    then show ?thesis using same_ids_grow quiet_ops(3) by blast
  qed (auto simp: op_defs ids_grow_def rbind_def next_rowid_fresh less simp del: set_map split: sum.splits)
  then show "ids_grow group_ids ac_seq_groups s (access_do op s)" "ids_grow pool_ids ac_seq_pools s (access_do op s)"
    "ids_grow role_ids ac_seq_roles s (access_do op s)" by simp_all
qed

section \<open>The invariant\<close>

text \<open>Ids stay under their sequence, assignments name groups and pools that exist, and a custom role they name
  was created.\<close>

definition created_role :: "access \<Rightarrow> string \<Rightarrow> bool" where
  "created_role s key \<longleftrightarrow> map_of ROLES key \<noteq> None
     \<or> (\<exists>tail. custom_tail key = Some tail \<and> str_isdigit tail \<and> nat_of_digits tail \<le> ac_seq_roles s)"

definition access_ok :: "access \<Rightarrow> bool" where
  "access_ok s \<longleftrightarrow> (\<forall>g \<in> set (group_ids s). g \<le> ac_seq_groups s) \<and> (\<forall>q \<in> set (pool_ids s). q \<le> ac_seq_pools s)
     \<and> (\<forall>r \<in> set (role_ids s). r \<le> ac_seq_roles s) \<and> (\<forall>a \<in> set (ac_acl s). known_row s a \<and> created_role s (acl_role a))"

lemma ids_grow_bound:
  "ids_grow ids sequence s s' \<Longrightarrow> \<forall>i \<in> set (ids s). i \<le> sequence s \<Longrightarrow> \<forall>i \<in> set (ids s'). i \<le> sequence s'"
  by (fastforce simp: ids_grow_def)

lemma ids_grow_gone:
  "ids_grow ids sequence s s' \<Longrightarrow> i \<notin> set (ids s) \<Longrightarrow> i \<le> sequence s \<Longrightarrow> i \<notin> set (ids s') \<and> i \<le> sequence s'"
  by (fastforce simp: ids_grow_def)

lemma role_exists_created:
  assumes "role_exists key s" "\<forall>r \<in> set (role_ids s). r \<le> ac_seq_roles s"
  shows "created_role s key"
proof (cases "map_of ROLES key")
  case None
  then obtain tail where "custom_tail key = Some tail" "str_isdigit tail" "nat_of_digits tail \<in> set (role_ids s)"
    using assms(1) by (auto simp: role_exists_def custom_role_def dest: map_of_in_keys split: option.splits)
  then show ?thesis using assms(2) by (auto simp: created_role_def)
qed (simp add: created_role_def)

lemma created_role_mono: "ac_seq_roles s \<le> ac_seq_roles s' \<Longrightarrow> created_role s key \<Longrightarrow> created_role s' key"
  by (fastforce simp: created_role_def)

text \<open>An existing group leaves only with its own assignments, and a pool too.\<close>

lemma groups_stay:
  assumes "g \<in> set (group_ids s)" "a \<in> set (ac_acl (access_do op s))" "acl_subject_type a = ''group''"
    "acl_subject_id a = str_of_nat g"
  shows "g \<in> set (group_ids (access_do op s))"
proof (cases op)
  case (Assign known behind st sid role rt rid)
  then show ?thesis using assms(1) quiet_ops(1) by (metis same_ids_def)
next
  case (Delete_user caller target others u)
  then show ?thesis using assms(1) quiet_ops(2) by (metis same_ids_def)
next
  case (Rename_label kind i new owner)
  then show ?thesis using assms(1) quiet_ops(3) by (metis same_ids_def)
qed (use assms in \<open>auto simp: op_defs rbind_def simp del: set_map split: sum.splits if_splits\<close>)

lemma pools_stay:
  assumes "q \<in> set (pool_ids s)" "a \<in> set (ac_acl (access_do op s))" "acl_resource_type a = ''pool''"
    "acl_resource_id a = str_of_nat q"
  shows "q \<in> set (pool_ids (access_do op s))"
proof (cases op)
  case (Assign known behind st sid role rt rid)
  then show ?thesis using assms(1) quiet_ops(1) by (metis same_ids_def)
next
  case (Delete_user caller target others u)
  then show ?thesis using assms(1) quiet_ops(2) by (metis same_ids_def)
next
  case (Rename_label kind i new owner)
  then show ?thesis using assms(1) quiet_ops(3) by (metis same_ids_def)
qed (use assms in \<open>auto simp: op_defs rbind_def simp del: set_map split: sum.splits if_splits\<close>)

lemma access_do_ok:
  assumes "access_ok s"
  shows "access_ok (access_do op s)"
proof -
  note ids = op_ids [of s op]
  note seqs = assms [unfolded access_ok_def]
  have "known_row (access_do op s) a \<and> created_role (access_do op s) (acl_role a)" if a: "a \<in> set (ac_acl (access_do op s))" for a
  proof -
    have "known_row s a \<and> created_role s (acl_role a)"
      using row_origin [OF a] seqs role_exists_created [of "acl_role a" s]
      by (auto simp: same_assignment_def known_row_def)
    moreover have "created_role (access_do op s) (acl_role a)" if "created_role s (acl_role a)"
      using that ids(3) by (auto simp: ids_grow_def intro: created_role_mono)
    ultimately show ?thesis using groups_stay [OF _ a] pools_stay [OF _ a] by (auto simp: known_row_def simp del: set_map)
  qed
  then show ?thesis
    using seqs ids [THEN ids_grow_bound] by (simp add: access_ok_def)
qed

lemma access_run_ok: "access_ok s \<Longrightarrow> access_ok (access_run ops s)"
  by (induction ops arbitrary: s) (simp_all add: access_run_def access_do_ok)

lemma access_empty_ok: "access_ok access_empty"
  by (simp add: access_ok_def access_empty_def)

section \<open>Deleted objects\<close>

lemma str_of_nat_inject [simp]: "str_of_nat m = str_of_nat n \<longleftrightarrow> m = n"
  by (metis nat_of_digits_str_of_nat)

lemma gone_stays:
  assumes "\<And>op s. ids_grow ids sequence s (access_do op s)"
  shows "i \<notin> set (ids s) \<Longrightarrow> i \<le> sequence s \<Longrightarrow> i \<notin> set (ids (access_run ops s))"
  using ids_grow_gone [OF assms] by (induction ops arbitrary: s) (simp_all add: access_run_def)

lemma no_row_of_missing_group:
  "access_ok s \<Longrightarrow> g \<notin> set (group_ids s) \<Longrightarrow> a \<in> set (ac_acl s) \<Longrightarrow> acl_subject_type a = ''group'' \<Longrightarrow>
     nat_of_digits (acl_subject_id a) \<noteq> g"
  by (auto simp: access_ok_def known_row_def simp del: set_map)

lemma no_row_of_missing_pool:
  "access_ok s \<Longrightarrow> q \<notin> set (pool_ids s) \<Longrightarrow> a \<in> set (ac_acl s) \<Longrightarrow> acl_resource_type a = ''pool'' \<Longrightarrow>
     nat_of_digits (acl_resource_id a) \<noteq> q"
  by (auto simp: access_ok_def known_row_def simp del: set_map)

lemma missing_group_gives_nothing:
  assumes "access_ok s" "g \<notin> set (group_ids s)"
  shows "has_privilege u v p (store_add_group_member g x s) \<longleftrightarrow> has_privilege u v p s"
proof -
  have "vm_applies u v (store_add_group_member g x s) a \<longleftrightarrow> vm_applies u v s a" if "a \<in> set (ac_acl s)" for a
    using no_row_of_missing_group [OF assms that] by (auto simp: applies_defs store_add_group_member_def)
  moreover have "get_role_privileges k (store_add_group_member g x s) = get_role_privileges k s" for k
    by (rule get_role_privileges_cong) (simp add: store_add_group_member_def)
  ultimately show ?thesis by (auto simp: vm.check_iff store_add_group_member_def)
qed

lemma missing_pool_gives_nothing:
  assumes "access_ok s" "q \<notin> set (pool_ids s)"
  shows "has_privilege u v p (store_add_pool_member q x s) \<longleftrightarrow> has_privilege u v p s"
proof -
  have "vm_applies u v (store_add_pool_member q x s) a \<longleftrightarrow> vm_applies u v s a" if "a \<in> set (ac_acl s)" for a
    using no_row_of_missing_pool [OF assms that] by (auto simp: applies_defs store_add_pool_member_def)
  moreover have "get_role_privileges k (store_add_pool_member q x s) = get_role_privileges k s" for k
    by (rule get_role_privileges_cong) (simp add: store_add_pool_member_def)
  ultimately show ?thesis by (auto simp: vm.check_iff store_add_pool_member_def)
qed

lemma ROLES_not_custom [simp]: "map_of ROLES (''custom:'' @ t) = None"
  by (simp add: ROLES_def)

lemma missing_role_gives_nothing:
  "r \<notin> set (role_ids s) \<Longrightarrow> get_role_privileges (custom_role_key r) s = {}"
  by (auto simp: get_role_privileges_def custom_role_key_def custom_tail_def custom_role_def ROLES_def
      dest: map_of_in_keys split: option.splits)

lemma deleted_object_facts:
  assumes "s = access_run ops access_empty"
  shows "g \<in> set (group_ids s) \<Longrightarrow> s' = access_run later (access_do (Delete_group g) s) \<Longrightarrow>
      has_privilege u v p (store_add_group_member g x s') \<longleftrightarrow> has_privilege u v p s'"
    and "q \<in> set (pool_ids s) \<Longrightarrow> s' = access_run later (access_do (Delete_pool q) s) \<Longrightarrow>
      has_privilege u v p (store_add_pool_member q x s') \<longleftrightarrow> has_privilege u v p s'"
    and "r \<in> set (role_ids s) \<Longrightarrow> s' = access_run later (access_do (Delete_role r) s) \<Longrightarrow>
      get_role_privileges (custom_role_key r) s' = {}"
proof -
  have ok: "access_ok s" using assms access_run_ok access_empty_ok by simp
  then have ok': "access_ok (access_run later (access_do op s))" for op by (simp add: access_run_ok access_do_ok)
  show "has_privilege u v p (store_add_group_member g x s') \<longleftrightarrow> has_privilege u v p s'"
    if "g \<in> set (group_ids s)" "s' = access_run later (access_do (Delete_group g) s)"
  proof -
    have "g \<notin> set (group_ids s')"
      unfolding that(2) using that(1) ok by (intro gone_stays [OF op_ids(1)]) (auto simp: store_delete_group_def access_ok_def simp del: set_map)
    then show ?thesis using missing_group_gives_nothing ok' that(2) by blast
  qed
  show "has_privilege u v p (store_add_pool_member q x s') \<longleftrightarrow> has_privilege u v p s'"
    if "q \<in> set (pool_ids s)" "s' = access_run later (access_do (Delete_pool q) s)"
  proof -
    have "q \<notin> set (pool_ids s')"
      unfolding that(2) using that(1) ok by (intro gone_stays [OF op_ids(2)]) (auto simp: store_delete_pool_def access_ok_def simp del: set_map)
    then show ?thesis using missing_pool_gives_nothing ok' that(2) by blast
  qed
  show "get_role_privileges (custom_role_key r) s' = {}"
    if "r \<in> set (role_ids s)" "s' = access_run later (access_do (Delete_role r) s)"
  proof -
    have "r \<notin> set (role_ids s')"
      unfolding that(2) using that(1) ok
      by (intro gone_stays [OF op_ids(3)]) (auto simp: delete_custom_role_def store_delete_custom_role_def access_ok_def simp del: set_map)
    then show ?thesis by (rule missing_role_gives_nothing)
  qed
qed


definition sample_ops :: "access_op list" where
  "sample_ops = [Create_group ''dev'', Add_member 1 ''ann'', Create_pool ''p'' [], Add_to_pool 1 ''web'',
     Create_role ''power'' [''vm.power''], Assign True [] ''group'' ''1'' ''custom:1'' ''pool'' ''1'']"

definition sample_access :: access where
  "sample_access = \<lparr>ac_roles = [(1, ''power'', ''vm.power'')], ac_groups = [(1, ''dev'')], ac_members = [(1, ''ann'')],
     ac_pools = [(1, ''p'', [])], ac_pool_members = [(1, ''web'')],
     ac_acl = [\<lparr>acl_id = 1, acl_subject_type = ''group'', acl_subject_id = ''1'', acl_role = ''custom:1'',
       acl_resource_type = ''pool'', acl_resource_id = ''1''\<rparr>],
     ac_tokens = [], ac_seq_roles = 1, ac_seq_groups = 1, ac_seq_pools = 1, ac_seq_acl = 1\<rparr>"

lemma sample_access_run: "access_run sample_ops access_empty = sample_access"
  by code_simp

lemma sample_holds:
  "has_privilege \<lparr>us_name = ''ann'', us_role = ''user''\<rparr> ''web'' ''vm.power'' sample_access"
  by code_simp


section \<open>Deleted accounts\<close>

lemma delete_rows_of_user_acl:
  "ac_acl (delete_rows_of_user as name s)
     = filter (\<lambda>a. \<not> (\<exists>b \<in> set as. acl_subject_type b = ''user'' \<and> acl_subject_id b = name \<and> acl_id a = acl_id b)) (ac_acl s)"
  by (induction as arbitrary: s) (auto simp: store_delete_acl_def intro!: filter_cong)

lemma delete_acl_for_user_rows:
  assumes "distinct (map acl_id (ac_acl s))"
  shows "ac_acl (delete_acl_for_user name s)
    = filter (\<lambda>a. \<not> (acl_subject_type a = ''user'' \<and> acl_subject_id a = name)) (ac_acl s)"
proof -
  have "acl_id a = acl_id b \<Longrightarrow> a = b" if "a \<in> set (ac_acl s)" "b \<in> set (ac_acl s)" for a b
    using assms that by (auto simp: distinct_map inj_on_def)
  then show ?thesis
    unfolding delete_acl_for_user_def delete_rows_of_user_acl by (intro filter_cong) auto
qed

text \<open>A deleted account leaves no right to the next account of that name: on every VM, container or scoped
  object that name holds what its global role gives and nothing else; every other account keeps exactly the
  rights it had.\<close>

theorem deleted_account_leaves_nothing:
  assumes "route_delete_user caller target others name s = Inr s'" and "distinct (map acl_id (ac_acl s))"
  shows "if us_name u = name
    then has_privilege u v p s' = vm_global u p \<and> has_container_privilege u v p s' = container_global u p
      \<and> has_scoped_privilege u rt rid p s' = (us_role u = ''admin'')
    else has_privilege u v p s' = has_privilege u v p s \<and> has_container_privilege u v p s' = has_container_privilege u v p s
      \<and> has_scoped_privilege u rt rid p s' = has_scoped_privilege u rt rid p s"
proof -
  note ids = route_delete_user_ids [OF assms(1)]
  have acl: "set (ac_acl s') = {a \<in> set (ac_acl s). \<not> (acl_subject_type a = ''user'' \<and> acl_subject_id a = name)}"
    using delete_acl_for_user_rows [of "s\<lparr>ac_members := filter (\<lambda>(g, x). x \<noteq> name) (ac_members s)\<rparr>"] assms(2)
    unfolding route_delete_user_Inr [OF assms(1)] by simp
  have roles: "get_role_privileges k s' = get_role_privileges k s" for k by (rule get_role_privileges_cong) (simp add: ids)
  show ?thesis
  proof (cases "us_name u = name")
    case True
    then have "\<not> subject_ok u (groups_of (us_name u) s') a" if "a \<in> set (ac_acl s')" for a
      using that by (auto simp: subject_ok_def acl ids)
    then show ?thesis
      using True vm.no_row_no_right [of s' u v p] ct.no_row_no_right [of s' u v p] sc.no_row_no_right [of s' u "(rt, rid)" p]
      by (simp add: vm_applies_def scoped_applies_def)
  next
    case False
    then have "subject_ok u (groups_of (us_name u) s') a \<longleftrightarrow> subject_ok u (groups_of (us_name u) s) a" for a
      by (auto simp: subject_ok_def ids)
    moreover have "a \<in> set (ac_acl s')" if "a \<in> set (ac_acl s)" "subject_ok u (groups_of (us_name u) s) a" for a
      using that False by (auto simp: acl subject_ok_def)
    moreover have "set (ac_acl s') \<subseteq> set (ac_acl s)" by (auto simp: acl)
    ultimately show ?thesis
      using False vm.check_iff [of u v p] ct.check_iff [of u v p] sc.check_iff [of u "(rt, rid)" p]
      by (auto simp: roles vm_applies_def scoped_applies_def resource_ok_def ids)
  qed
qed

theorem deleted_account_leaves_nothing_witness:
  "\<exists>s'. route_delete_user ''root'' (Some ''user'') 0 ''ann'' sample_access = Inr s'
     \<and> has_privilege \<lparr>us_name = ''ann'', us_role = ''user''\<rparr> ''web'' ''vm.power'' sample_access
     \<and> \<not> has_privilege \<lparr>us_name = ''ann'', us_role = ''user''\<rparr> ''web'' ''vm.power'' s'"
proof -
  have ok: "distinct (map acl_id (ac_acl sample_access))" by (simp add: sample_access_def)
  obtain s' where "route_delete_user ''root'' (Some ''user'') 0 ''ann'' sample_access = Inr s'"
    by (simp add: route_delete_user_def)
  then show ?thesis
    using deleted_account_leaves_nothing [OF _ ok, of "''root''" "Some ''user''" 0 "''ann''" s'
        "\<lparr>us_name = ''ann'', us_role = ''user''\<rparr>" "''web''" "''vm.power''"] sample_holds
    by (auto simp: vm_global_def)
qed

section \<open>Renamed and forgotten VMs\<close>

text \<open>A rename moves a VM's rights with it: under the new name everyone has what they had on the VM under
  its old name (and what assignments left under the new name gave), under the old name only the global
  rights; a forgotten VM leaves only the global rights on its name.\<close>

theorem rights_follow_a_rename:
  assumes "old \<noteq> new"
  shows "(has_privilege u new p (move_vm old new s) \<longleftrightarrow> has_privilege u old p s \<or> has_privilege u new p s)
    \<and> (has_privilege u old p (move_vm old new s) \<longleftrightarrow> vm_global u p)
    \<and> (v \<notin> {old, new} \<longrightarrow> has_privilege u v p (move_vm old new s) = has_privilege u v p s)
    \<and> (has_privilege u v p (access_do (Forget_vm v) s) \<longleftrightarrow> vm_global u p)"
proof -
  define m :: "acl_row \<Rightarrow> acl_row" where "m a = (if acl_resource_id a = old \<and> acl_resource_type a = ''vm'' then a\<lparr>acl_resource_id := new\<rparr> else a)" for a
  let ?s = "move_vm old new s"
  have acl: "ac_acl ?s = map m (ac_acl s)" by (simp add: move_vm_def moved_acl_def m_def)
  have roles: "get_role_privileges k ?s = get_role_privileges k s" for k
    by (rule get_role_privileges_cong) (simp add: move_vm_def)
  have role_m: "acl_role (m a) = acl_role a" for a by (simp add: m_def)
  have grp: "ac_members ?s = ac_members s" by (simp add: move_vm_def)
  have pools: "(q, x) \<in> set (ac_pool_members ?s) \<longleftrightarrow>
      (if x = new then (q, old) \<in> set (ac_pool_members s) \<or> (q, new) \<in> set (ac_pool_members s)
       else x \<noteq> old \<and> (q, x) \<in> set (ac_pool_members s))" for q x
    by (simp add: move_vm_def moved_members_iff)
  have sub: "subject_ok u (groups_of (us_name u) ?s) (m a) \<longleftrightarrow> subject_ok u (groups_of (us_name u) s) a" for a
    by (simp add: subject_ok_def grp m_def)
  have "vm_applies u new ?s (m a) \<longleftrightarrow> vm_applies u old s a \<or> vm_applies u new s a"
    and "\<not> vm_applies u old ?s (m a)"
    and "v \<notin> {old, new} \<Longrightarrow> vm_applies u v ?s (m a) \<longleftrightarrow> vm_applies u v s a" for a
    unfolding vm_applies_def sub using assms by (auto simp: resource_ok_def pools m_def)
  note applies = this
  have forget: "\<not> vm_applies u v (access_do (Forget_vm v) s) a" if "a \<in> set (ac_acl (access_do (Forget_vm v) s))" for a
    using that by (auto simp: store_remove_vm_from_all_pools_def store_delete_acl_for_vm_def applies_defs)
  show ?thesis
    using applies vm.no_row_no_right [of "access_do (Forget_vm v) s", OF forget]
    by (auto simp: vm.check_iff acl roles role_m simp del: access_do.simps)
qed

theorem rights_follow_a_rename_witness:
  "''web'' \<noteq> ''www'' \<and> has_privilege \<lparr>us_name = ''ann'', us_role = ''user''\<rparr> ''www'' ''vm.power'' (move_vm ''web'' ''www'' sample_access)"
  using rights_follow_a_rename [of "''web''" "''www''"] sample_holds by simp

section \<open>What an assignment adds\<close>

text \<open>Rights are additive: creating an assignment takes no right away, on a VM, a container or a scoped
  object, and adds exactly the privileges of its role to its subject on its resource; deleting one adds
  none.\<close>

theorem assignments_only_add_what_they_say:
  assumes "create_acl st sid role rt rid s = Inr (i, s')"
  defines "a \<equiv> \<lparr>acl_id = i, acl_subject_type = st, acl_subject_id = sid, acl_role = role, acl_resource_type = rt, acl_resource_id = rid\<rparr>"
  shows "(has_privilege u v p s' \<longleftrightarrow> has_privilege u v p s \<or> p \<in> get_role_privileges role s
        \<and> subject_ok u (groups_of (us_name u) s) a \<and> resource_ok v (pools_of v s) a)
    \<and> (has_container_privilege u v p s' \<longleftrightarrow> has_container_privilege u v p s \<or> p \<in> get_role_privileges role s
        \<and> subject_ok u (groups_of (us_name u) s) a \<and> rt = ''container'' \<and> rid = v)
    \<and> (has_scoped_privilege u t v p s' \<longleftrightarrow> has_scoped_privilege u t v p s \<or> p \<in> get_role_privileges role s
        \<and> subject_ok u (groups_of (us_name u) s) a \<and> rt = t \<and> rid = v)
    \<and> (has_privilege u v p (store_delete_acl j s) \<longrightarrow> has_privilege u v p s)"
  using vm.created_exactly [OF assms(1), of u v p] ct.created_exactly [OF assms(1), of u v p]
    sc.created_exactly [OF assms(1), of u "(t, v)" p] vm.fewer_rows [of "store_delete_acl j s" s u v p]
  by (auto simp: a_def vm_applies_def scoped_applies_def store_delete_acl_def)

theorem assignments_only_add_what_they_say_witness:
  "\<exists>i s'. create_acl ''user'' ''bob'' ''operator'' ''vm'' ''web'' sample_access = Inr (i, s')
     \<and> has_privilege \<lparr>us_name = ''bob'', us_role = ''user''\<rparr> ''web'' ''vm.power'' s'"
proof -
  obtain i s' where c: "create_acl ''user'' ''bob'' ''operator'' ''vm'' ''web'' sample_access = Inr (i, s')"
    by (simp add: create_acl_def role_exists_def ROLES_def store_create_acl_def SUBJECT_TYPES_def RESOURCE_TYPES_def Let_def)
  then show ?thesis
    using assignments_only_add_what_they_say [OF c, of "\<lparr>us_name = ''bob'', us_role = ''user''\<rparr>" "''web''" "''vm.power''"]
    by (auto simp: subject_ok_def resource_ok_def get_role_privileges_def ROLES_def)
qed

section \<open>Custom roles read back\<close>

lemma ALL_PRIVILEGES_plain: "p \<in> set ALL_PRIVILEGES \<Longrightarrow> CHR '','' \<notin> set p \<and> p \<noteq> []"
  by (auto simp: ALL_PRIVILEGES_def)

lemma join_with_not_Nil: "ps \<noteq> [] \<Longrightarrow> \<forall>p \<in> set ps. p \<noteq> [] \<Longrightarrow> join_with c ps \<noteq> []"
  by (induction c ps rule: join_with.induct) auto

lemma split_privileges_join:
  assumes "check_privileges ps = Inr ()"
  shows "split_privileges (join_with CHR '','' ps) = set ps"
proof -
  have ps: "ps \<noteq> []" "set ps \<subseteq> set ALL_PRIVILEGES"
    using assms by (auto simp: check_privileges_def Let_def filter_empty_conv split: if_splits)
  then have "\<forall>p \<in> set ps. CHR '','' \<notin> set p \<and> p \<noteq> []" using ALL_PRIVILEGES_plain by blast
  then show ?thesis
    using ps(1) join_with_not_Nil [of ps] split_on_join [of ps "CHR '',''"] by (simp add: split_privileges_def list_all_iff)
qed

lemma get_custom_role: "get_role_privileges (custom_role_key i) s =
    (case map_of (ac_roles s) i of None \<Rightarrow> {} | Some (_, ps) \<Rightarrow> split_privileges ps)"
  by (simp add: get_role_privileges_def custom_role_key_def custom_tail_def custom_role_def ROLES_def)

text \<open>A custom role has the privileges it was given when it was created, and those it is set to later,
  read back from the comma-separated column; a privilege out of the catalogue or an empty choice is refused;
  no other role changes.\<close>

theorem custom_role_reads_back:
  "(create_custom_role name ps s = Inr (i, s') \<longrightarrow> get_role_privileges (custom_role_key i) s' = set ps
      \<and> ps \<noteq> [] \<and> set ps \<subseteq> set ALL_PRIVILEGES
      \<and> (j \<noteq> i \<longrightarrow> get_role_privileges (custom_role_key j) s' = get_role_privileges (custom_role_key j) s))
   \<and> (set_custom_role_privileges k ps s = Inr (True, s') \<longrightarrow> get_role_privileges (custom_role_key k) s' = set ps
      \<and> (j \<noteq> k \<longrightarrow> get_role_privileges (custom_role_key j) s' = get_role_privileges (custom_role_key j) s))"
proof (intro conjI impI)
  assume c: "create_custom_role name ps s = Inr (i, s')"
  then have ps: "check_privileges ps = Inr ()" by (auto simp: create_custom_role_def py_simps)
  have s': "ac_roles s' = ac_roles s @ [(i, name, join_with CHR '','' ps)]" "i \<notin> set (role_ids s)"
    using c next_rowid_fresh(2) [of _ "role_ids s" "ac_seq_roles s"]
    by (auto simp: create_custom_role_def py_simps store_create_custom_role_def Let_def simp del: set_map split: if_splits)
  then have "map_of (ac_roles s) i = None" by (simp add: map_of_eq_None_iff)
  with ps show "get_role_privileges (custom_role_key i) s' = set ps"
    by (simp add: get_custom_role s' map_add_def split_privileges_join)
  show "get_role_privileges (custom_role_key j) s' = get_role_privileges (custom_role_key j) s" if "j \<noteq> i"
    using that by (simp add: get_custom_role s' map_add_def split: option.splits)
  show "ps \<noteq> []" "set ps \<subseteq> set ALL_PRIVILEGES"
    using ps by (auto simp: check_privileges_def Let_def filter_empty_conv split: if_splits)
next
  assume c: "set_custom_role_privileges k ps s = Inr (True, s')"
  then have ps: "check_privileges ps = Inr ()" by (auto simp: set_custom_role_privileges_def py_simps)
  have s': "ac_roles s' = dict_alter k (\<lambda>(name, _). (name, join_with CHR '','' ps)) (ac_roles s)" "k \<in> set (role_ids s)"
    using c by (auto simp: set_custom_role_privileges_def py_simps store_set_custom_role_privileges_def simp del: set_map)
  obtain r where "map_of (ac_roles s) k = Some r" using keys_map_of [OF s'(2)] by auto
  with ps show "get_role_privileges (custom_role_key k) s' = set ps"
    by (cases r) (simp add: get_custom_role s' split_privileges_join)
  show "get_role_privileges (custom_role_key j) s' = get_role_privileges (custom_role_key j) s" if "j \<noteq> k"
    using that by (simp add: get_custom_role s')
qed

theorem custom_role_reads_back_witness:
  "\<exists>i s'. create_custom_role ''ops'' [''vm.view'', ''vm.power''] sample_access = Inr (i, s')
     \<and> get_role_privileges (custom_role_key i) s' = {''vm.view'', ''vm.power''}"
proof -
  obtain i s' where c: "create_custom_role ''ops'' [''vm.view'', ''vm.power''] sample_access = Inr (i, s')"
    by (simp add: create_custom_role_def check_privileges_def ALL_PRIVILEGES_def store_create_custom_role_def sample_access_def Let_def)
  then show ?thesis using custom_role_reads_back [of "''ops''" "[''vm.view'', ''vm.power'']" sample_access i s'] by simp
qed

section \<open>The rights the page shows\<close>

lemma int_of_digits: "str_isdigit t \<Longrightarrow> int_of_text t = Some (int (nat_of_digits t))"
  by (simp add: int_of_text_def str_isdigit_def strip_digits)

lemma label_of_known: "\<exists>l. label_of before names (str_of_nat n) = Inr l"
  by (simp add: label_of_def)

lemma label_rows_of_ok:
  assumes "\<forall>a \<in> set as. known_row s a"
  shows "\<exists>ls. label_rows_of s as = Inr ls \<and> map lb_row ls = as"
  using assms
proof (induction as)
  case (Cons a as)
  obtain ls where ls: "label_rows_of s as = Inr ls" "map lb_row ls = as" using Cons by auto
  have "\<exists>l. (if acl_subject_type a = ''group'' then label_of b n (acl_subject_id a) else Inr (acl_subject_id a)) = Inr l"
    and "\<exists>l. (if acl_resource_type a = ''pool'' then label_of b n (acl_resource_id a) else Inr (acl_resource_id a)) = Inr l" for b n
    using Cons.prems label_of_known by (auto simp: known_row_def simp del: set_map)
  then obtain x y where
    "(if acl_subject_type a = ''group'' then label_of ''group#'' (map (\<lambda>(i, name, _). (i, name)) (store_groups s)) (acl_subject_id a)
      else Inr (acl_subject_id a)) = Inr x"
    "(if acl_resource_type a = ''pool'' then label_of ''pool#'' (map (\<lambda>(i, name, _). (i, name)) (store_pools s)) (acl_resource_id a)
      else Inr (acl_resource_id a)) = Inr y" by metis
  then show ?case using ls by (simp add: rbind_def)
qed simp

text \<open>The pools that contain a VM, as the page finds them.\<close>

lemma pools_with_vm:
  "map_of (map (\<lambda>(i, name, _, _). (i, name)) (filter (\<lambda>(_, _, _, vms). v \<in> set vms) (store_pools s))) q \<noteq> None
     \<longleftrightarrow> q \<in> set (pool_ids s) \<and> (q, v) \<in> set (ac_pool_members s)"
  by (force simp: map_of_eq_None_iff store_pools_def)

lemma inherited_entry:
  "(\<lambda>e. lb_row (fst e)) ` set (if P then (case m of Some name \<Rightarrow> [(l, Some name)] | None \<Rightarrow> []) else [])
     = (if P \<and> m \<noteq> None then {lb_row l} else {})"
  by (cases P; cases m) simp_all

lemma UN_if_image: "(\<Union>l \<in> A. if Q (f l) then {f l} else {}) = {a \<in> f ` A. Q a}"
  by auto

lemma image_own: "(\<lambda>e. f (fst e)) ` (\<lambda>l. (l, None)) ` {l \<in> A. Q (f l)} = {a \<in> f ` A. Q a}"
  by (auto simp: image_image)

lemma acl_for_object_rows:
  assumes "access_ok s"
  shows "\<exists>es. acl_for_object ''vm'' v s = Inr es
    \<and> (\<lambda>e. lb_row (fst e)) ` set es = {a \<in> set (ac_acl s). resource_ok v (pools_of v s) a}"
proof -
  obtain ls where ls: "list_acl s = Inr ls" "map lb_row ls = ac_acl s"
    using label_rows_of_ok [of "ac_acl s" s] assms by (auto simp: list_acl_def access_ok_def)
  let ?pools = "map (\<lambda>(i, name, _, _). (i, name)) (filter (\<lambda>(_, _, _, vms). v \<in> set vms) (store_pools s))"
  let ?P = "\<lambda>a. acl_resource_type a = ''pool'' \<and> str_isdigit (acl_resource_id a)"
  let ?m = "\<lambda>a. map_of ?pools (nat_of_digits (acl_resource_id a))"
  let ?inh = "\<lambda>l. if ?P (lb_row l) then (case ?m (lb_row l) of Some name \<Rightarrow> [(l, Some name)] | None \<Rightarrow> []) else []"
  let ?own = "\<lambda>a. acl_resource_type a = ''vm'' \<and> acl_resource_id a = v"
  let ?es = "map (\<lambda>l. (l, None)) (filter (\<lambda>l. ?own (lb_row l)) ls) @ concat (map ?inh ls)"
  have es: "acl_for_object ''vm'' v s = Inr ?es" by (simp add: acl_for_object_def ls Let_def)
  have acl: "lb_row ` set ls = set (ac_acl s)" by (simp add: ls(2) [symmetric])
  have known: "acl_resource_id a \<in> str_of_nat ` set (pool_ids s)" if "a \<in> set (ac_acl s)" "acl_resource_type a = ''pool''" for a
    using assms that by (auto simp: access_ok_def known_row_def simp del: set_map)
  have "(\<lambda>e. lb_row (fst e)) ` set ?es
      = (\<lambda>e. lb_row (fst e)) ` (\<lambda>l. (l, None :: string option)) ` {l \<in> set ls. ?own (lb_row l)} \<union> (\<Union>l \<in> set ls. (\<lambda>e. lb_row (fst e)) ` set (?inh l))"
    by (simp only: set_append set_map set_filter set_concat image_Un image_UN image_image)
  also have "\<dots> = {a \<in> lb_row ` set ls. ?own a} \<union> {a \<in> lb_row ` set ls. ?P a \<and> ?m a \<noteq> None}"
    unfolding inherited_entry image_own [of lb_row "set ls" ?own] UN_if_image [of "\<lambda>a. ?P a \<and> ?m a \<noteq> None" lb_row] by (rule refl)
  also have "\<dots> = {a \<in> set (ac_acl s). ?own a \<or> ?P a \<and> ?m a \<noteq> None}" unfolding acl by blast
  also have "\<dots> = {a \<in> set (ac_acl s). resource_ok v (pools_of v s) a}"
    unfolding pools_with_vm resource_ok_def set_pools_of using known by force
  finally show ?thesis using es by blast
qed

text \<open>The page of a VM shows who may use it: in every state the operations reach, the assignments it
  lists, its own and those of its pools, are exactly those the permission check consults, so a right on the
  VM is a global one or one of an assignment listed there.\<close>

theorem page_lists_the_rights:
  assumes "s = access_run ops access_empty"
  shows "\<exists>es. acl_for_object ''vm'' v s = Inr es
    \<and> (has_privilege u v p s \<longleftrightarrow> vm_global u p
       \<or> list_ex (\<lambda>(l, _). subject_ok u (groups_of (us_name u) s) (lb_row l) \<and> p \<in> get_role_privileges (acl_role (lb_row l)) s) es)"
proof -
  have "access_ok s" using assms access_run_ok access_empty_ok by simp
  from acl_for_object_rows [OF this, of v] obtain es where es: "acl_for_object ''vm'' v s = Inr es"
    "(\<lambda>e. lb_row (fst e)) ` set es = {a \<in> set (ac_acl s). resource_ok v (pools_of v s) a}" by blast
  let ?q = "\<lambda>a. subject_ok u (groups_of (us_name u) s) a \<and> p \<in> get_role_privileges (acl_role a) s"
  have "(\<exists>a \<in> set (ac_acl s). vm_applies u v s a \<and> p \<in> get_role_privileges (acl_role a) s)
      \<longleftrightarrow> (\<exists>a \<in> (\<lambda>e. lb_row (fst e)) ` set es. ?q a)"
    unfolding es(2) vm_applies_def by blast
  then show ?thesis using es(1) by (simp add: vm.check_iff list_ex_iff case_prod_beta)
qed

theorem page_lists_the_rights_witness:
  "\<exists>es. acl_for_object ''vm'' ''web'' (access_run sample_ops access_empty) = Inr es
    \<and> list_ex (\<lambda>(l, _). subject_ok \<lparr>us_name = ''ann'', us_role = ''user''\<rparr> (groups_of ''ann'' (access_run sample_ops access_empty)) (lb_row l)) es"
  using page_lists_the_rights [OF refl, of "''web''" sample_ops "\<lparr>us_name = ''ann'', us_role = ''user''\<rparr>" "''vm.power''"] sample_holds
  by (auto simp: sample_access_run vm_global_def list_ex_iff)

section \<open>Creating a VM\<close>

lemma first_without_None:
  "first_without u t p s names = None \<longleftrightarrow> (\<forall>name \<in> set names. has_scoped_privilege u t name p s)"
  by (induction names) auto

lemma first_without_Some:
  "first_without u t p s names = Some name \<Longrightarrow> name \<in> set names \<and> \<not> has_scoped_privilege u t name p s"
  by (induction names) (auto split: if_splits)

text \<open>An account creates a VM exactly when it is an administrator, or the VM goes in a pool it may allocate
  in, on storage pools it may put disks on and networks it may connect to, every one of them.\<close>

theorem allocation_needs_every_right:
  "allocation_refusal u resource_pool storage_pools networks s = None \<longleftrightarrow>
     us_role u = ''admin'' \<or> (\<exists>p. resource_pool = Some p \<and> has_scoped_privilege u ''pool'' (str_of_nat p) ''vm.allocate'' s
       \<and> list_all (\<lambda>name. has_scoped_privilege u ''storage'' name ''storage.allocate'' s) storage_pools
       \<and> list_all (\<lambda>name. has_scoped_privilege u ''network'' name ''network.assign'' s) networks)"
  by (auto simp: allocation_refusal_def first_without_None list_all_iff split: option.splits) (use first_without_Some in fastforce)+

end
