(* ===== verification/Py_Bytes.thy ===== *)
theory Py_Bytes
  imports Main "HOL-Library.Word"
begin

text \<open>
  Bytes and the integers \<open>struct\<close> packs into them: a byte is an \<open>8 word\<close>, an integer of \<open>k\<close> bytes is laid out from
  its lowest byte (\<open>le_bytes\<close>, Python's \<open><\<close>) or from its highest (\<open>be_bytes\<close>, Python's \<open>>\<close>), and reading back what
  was written gives the integer.
\<close>

unbundle bit_operations_syntax

type_synonym byte = "8 word"
type_synonym bytes = "byte list"

section \<open>Little-endian integers\<close>

text \<open>\<open>struct\<close>'s layout of \<open>k\<close> bytes, and its reading.\<close>

definition le_bytes :: "nat \<Rightarrow> 'a::len word \<Rightarrow> bytes" where
  "le_bytes k w = map (\<lambda>i. ucast (drop_bit (8 * i) w)) [0..<k]"

definition le_word :: "bytes \<Rightarrow> 'a::len word" where
  "le_word bs = foldr (\<lambda>b v. push_bit 8 v OR ucast b) bs 0"

lemma length_le_bytes [simp]: "length (le_bytes k w) = k"
  by (simp add: le_bytes_def)

lemma bit_le_word:
  "bit (le_word bs :: 'a::len word) n \<longleftrightarrow> n < LENGTH('a) \<and> n div 8 < length bs \<and> bit (bs ! (n div 8)) (n mod 8)"
proof (induction bs arbitrary: n)
  case (Cons b bs)
  have step: "le_word (b # bs) = (push_bit 8 (le_word bs) OR ucast b :: 'a word)" by (simp add: le_word_def)
  show ?case
  proof (cases "n < 8")
    case True
    then show ?thesis by (auto simp: step bit_simps)
  next
    case False
    then have "n div 8 = Suc ((n - 8) div 8)" "n mod 8 = (n - 8) mod 8" by (simp_all add: div_if mod_if)
    moreover have "\<not> bit b n" using False bit_imp_le_length [of b n] by auto
    ultimately show ?thesis using False Cons.IH [of "n - 8"] by (auto simp: step bit_simps)
  qed
qed (simp add: le_word_def)

lemma le_word_le_bytes:
  assumes "LENGTH('a) = 8 * k"
  shows "le_word (le_bytes k w) = (w :: 'a::len word)"
proof (rule bit_word_eqI)
  fix n assume "n < LENGTH('a)"
  moreover have "8 * (n div 8) + n mod 8 = n" by simp
  ultimately show "bit (le_word (le_bytes k w) :: 'a word) n = bit w n"
    using assms by (auto simp: bit_le_word le_bytes_def bit_simps)
qed

section \<open>Big-endian integers\<close>

definition be_bytes :: "nat \<Rightarrow> 'a::len word \<Rightarrow> bytes" where
  "be_bytes k w = rev (le_bytes k w)"

definition be_word :: "bytes \<Rightarrow> 'a::len word" where
  "be_word bs = le_word (rev bs)"

lemma length_be_bytes [simp]: "length (be_bytes k w) = k"
  by (simp add: be_bytes_def)

lemma be_word_be_bytes: "LENGTH('a) = 8 * k \<Longrightarrow> be_word (be_bytes k w) = (w :: 'a::len word)"
  by (simp add: be_bytes_def be_word_def le_word_le_bytes)

end
