(* ===== verification/Cfs_Wire.thy ===== *)
theory Cfs_Wire
  imports Prelude Py_Bytes
begin

text \<open>
  The local protocol of hyperlite-cfs, both sides of it: the only Python speaker
  (\<^verbatim>\<open>app/core/cfs_client.py\<close>) and the daemon's reading and writing of frames (\<^verbatim>\<open>cfs/src/proto.c\<close>,
  \<open>cfs_answer\<close> of \<^verbatim>\<open>cfs/src/handler.c\<close>).

  A byte is an \<open>8 word\<close>; the C side keeps its integers at their width and shifts them, the Python side has
  unbounded integers and \<open>struct.pack\<close> refuses what does not fit. Texts are their UTF-8 bytes, both ways. The
  socket is the list of what each \<open>recv\<close> will find (\<open>recv_event\<close>), so an answer may come in any pieces, be cut
  short, or fail; what the daemon sends back for a frame, whether it can be reached and whether the frame goes
  out are parameters (\<open>world\<close>). The memory of the C writer does not run out.

  Shown: what the client sends the daemon decodes as the same request; what the daemon answers the client
  reads back, in whatever pieces it arrives; a payload is only ever taken from an answer that names this very
  request, and any exchange that broke in the middle ends the connection.
\<close>

unbundle bit_operations_syntax

section \<open>The client\<close>

datatype wire_error =
    Struct_error
  | Os_error
  | Connection_error
  | Cfs_error byte bytes
  | Truncated_answer
  | Answer_to_another_request

text \<open>\<open>struct.pack\<close> of \<open><I\<close> and \<open><q\<close>.\<close>

definition pack_u32 :: "int \<Rightarrow> wire_error + bytes" where
  "pack_u32 n = (if 0 \<le> n \<and> n < 2 ^ 32 then Inr (le_bytes 4 (word_of_int n :: 32 word)) else Inl Struct_error)"

definition pack_i64 :: "int \<Rightarrow> wire_error + bytes" where
  "pack_i64 n = (if - (2 ^ 63) \<le> n \<and> n < 2 ^ 63 then Inr (le_bytes 8 (word_of_int n :: 64 word)) else Inl Struct_error)"

text \<open>\<open>_string\<close>.\<close>

definition wire_string :: "bytes \<Rightarrow> wire_error + bytes" where
  "wire_string raw = rbind (pack_u32 (int (length raw))) (\<lambda>n. Inr (n @ raw))"

text \<open>\<open>_Reader\<close>: its buffer and its offset.\<close>

record reader =
  rd_buf :: bytes
  rd_off :: nat

definition rd_take :: "nat \<Rightarrow> reader \<Rightarrow> wire_error + (bytes \<times> reader)" where
  "rd_take n r = (if rd_off r + n > length (rd_buf r) then Inl Truncated_answer
     else Inr (take n (drop (rd_off r) (rd_buf r)), r\<lparr>rd_off := rd_off r + n\<rparr>))"

definition rd_u8 :: "reader \<Rightarrow> wire_error + (byte \<times> reader)" where
  "rd_u8 r = rbind (rd_take 1 r) (\<lambda>(bs, r). Inr (hd bs, r))"

definition rd_u32 :: "reader \<Rightarrow> wire_error + (int \<times> reader)" where
  "rd_u32 r = rbind (rd_take 4 r) (\<lambda>(bs, r). Inr (uint (le_word bs :: 32 word), r))"

definition rd_i64 :: "reader \<Rightarrow> wire_error + (int \<times> reader)" where
  "rd_i64 r = rbind (rd_take 8 r) (\<lambda>(bs, r). Inr (sint (le_word bs :: 64 word), r))"

definition rd_blob :: "reader \<Rightarrow> wire_error + (bytes \<times> reader)" where
  "rd_blob r = rbind (rd_u32 r) (\<lambda>(n, r). rd_take (nat n) r)"

subsection \<open>The socket\<close>

text \<open>What the next \<open>recv\<close> finds: bytes (an empty chunk, or none left, is the connection closed by the other side) or a
  failure (a timeout, a reset). A \<open>recv\<close> asking for fewer bytes leaves the others for the next.\<close>

datatype recv_event = Got bytes | Recv_fails

type_synonym socket = "recv_event list"

definition recv :: "nat \<Rightarrow> socket \<Rightarrow> wire_error + (bytes \<times> socket)" where
  "recv k s = (case s of
       [] \<Rightarrow> Inr ([], [])
     | Recv_fails # es \<Rightarrow> Inl Os_error
     | Got bs # es \<Rightarrow> Inr (take k bs, if k < length bs then Got (drop k bs) # es else es))"

function recv_exact :: "nat \<Rightarrow> socket \<Rightarrow> wire_error + (bytes \<times> socket)" where
  "recv_exact n s =
     (if n = 0 then Inr ([], s)
      else case recv (min n 65536) s of
          Inl e \<Rightarrow> Inl e
        | Inr (chunk, s') \<Rightarrow>
            if chunk = [] then Inl Connection_error
            else rbind (recv_exact (n - length chunk) s') (\<lambda>(rest, s''). Inr (chunk @ rest, s'')))"
  by pat_completeness auto
termination by (relation "measure fst") auto

declare recv_exact.simps [simp del]

definition FRAME_MAX :: int where
  "FRAME_MAX = 1024 * 1024 + 4096"

record client =
  cl_sock :: "socket option"
  cl_next_id :: "32 word"

record world =
  wd_connects :: bool
  wd_sends :: bool
  wd_answers :: "bytes \<Rightarrow> socket"

text \<open>What the socket gives during a call: the length, its check, the answer.\<close>

definition read_answer :: "socket \<Rightarrow> wire_error + (bytes \<times> socket)" where
  "read_answer s =
     rbind (recv_exact 4 s) (\<lambda>(four, s').
       let len = uint (le_word four :: 32 word) in
       if len > FRAME_MAX then Inl Connection_error else recv_exact (nat len) s')"

text \<open>The answer once it is complete: its request, its status, then the payload's reader or the refusal. The flag says
  whether the connection is closed.\<close>

definition take_answer :: "32 word \<Rightarrow> bytes \<Rightarrow> (wire_error + reader) \<times> bool" where
  "take_answer request_id answer =
     (case rd_u32 \<lparr>rd_buf = answer, rd_off = 0\<rparr> of
        Inl e \<Rightarrow> (Inl e, False)
      | Inr (i, r) \<Rightarrow>
          if i \<noteq> uint request_id then (Inl Answer_to_another_request, True)
          else (case rd_u8 r of
              Inl e \<Rightarrow> (Inl e, False)
            | Inr (status, r) \<Rightarrow>
                if status \<noteq> 0 then (rbind (rd_blob r) (\<lambda>(reason, _). Inl (Cfs_error status reason)), False)
                else (Inr r, False)))"

definition call :: "world \<Rightarrow> byte \<Rightarrow> bytes \<Rightarrow> client \<Rightarrow> (wire_error + reader) \<times> client" where
  "call w op payload c =
     (let request_id = cl_next_id c + 1;
          c = c\<lparr>cl_next_id := request_id\<rparr>;
          body = op # le_bytes 4 request_id @ payload in
      case (case cl_sock c of Some s \<Rightarrow> Some s | None \<Rightarrow> if wd_connects w then Some [] else None) of
        None \<Rightarrow> (Inl Os_error, c)
      | Some s \<Rightarrow>
          (case pack_u32 (int (length body)) of
             Inl e \<Rightarrow> (Inl e, c\<lparr>cl_sock := Some s\<rparr>)
           | Inr len \<Rightarrow>
               if \<not> wd_sends w then (Inl Os_error, c\<lparr>cl_sock := None\<rparr>)
               else (case read_answer (s @ wd_answers w (len @ body)) of
                   Inl e \<Rightarrow> (Inl e, c\<lparr>cl_sock := None\<rparr>)
                 | Inr (answer, s') \<Rightarrow>
                     let (result, closed) = take_answer request_id answer in
                     (result, c\<lparr>cl_sock := if closed then None else Some s'\<rparr>))))"

subsection \<open>The operations\<close>

text \<open>\<open>self._call(op, payload)\<close> and the reading of its answer; a payload that cannot be packed raises before the call.\<close>

definition request ::
  "world \<Rightarrow> byte \<Rightarrow> wire_error + bytes \<Rightarrow> (reader \<Rightarrow> wire_error + 'a) \<Rightarrow> client \<Rightarrow> (wire_error + 'a) \<times> client" where
  "request w op payload read_it c =
     (case payload of
        Inl e \<Rightarrow> (Inl e, c)
      | Inr p \<Rightarrow> (case call w op p c of (r, c') \<Rightarrow> (rbind r read_it, c')))"

definition two :: "wire_error + bytes \<Rightarrow> wire_error + bytes \<Rightarrow> wire_error + bytes" where
  "two a b = rbind a (\<lambda>x. rbind b (\<lambda>y. Inr (x @ y)))"

definition nothing :: "reader \<Rightarrow> wire_error + unit" where
  "nothing r = Inr ()"

definition read_i64 :: "reader \<Rightarrow> wire_error + int" where
  "read_i64 r = rbind (rd_i64 r) (\<lambda>(v, _). Inr v)"

record entry_answer =
  ea_data :: bytes
  ea_version :: int
  ea_mtime :: int

definition read_entry :: "reader \<Rightarrow> wire_error + entry_answer" where
  "read_entry r = rbind (rd_i64 r) (\<lambda>(version, r). rbind (rd_i64 r) (\<lambda>(mtime, r). rbind (rd_blob r) (\<lambda>(data, r).
     Inr \<lparr>ea_data = data, ea_version = version, ea_mtime = mtime\<rparr>)))"

record child =
  ch_name :: bytes
  ch_is_dir :: bool
  ch_version :: int
  ch_size :: int

fun read_children :: "nat \<Rightarrow> reader \<Rightarrow> wire_error + (child list \<times> reader)" where
  "read_children 0 r = Inr ([], r)"
| "read_children (Suc n) r = rbind (rd_blob r) (\<lambda>(name, r). rbind (rd_u8 r) (\<lambda>(d, r). rbind (rd_i64 r) (\<lambda>(version, r).
     rbind (rd_i64 r) (\<lambda>(size, r). rbind (read_children n r) (\<lambda>(rest, r).
       Inr (\<lparr>ch_name = name, ch_is_dir = (d \<noteq> 0), ch_version = version, ch_size = size\<rparr> # rest, r))))))"

definition read_listing :: "reader \<Rightarrow> wire_error + child list" where
  "read_listing r = rbind (rd_u32 r) (\<lambda>(n, r). rbind (read_children (nat n) r) (\<lambda>(cs, _). Inr cs))"

record status_answer =
  sa_version :: int
  sa_checksum :: bytes
  sa_quorate :: bool
  sa_cluster :: bool
  sa_entries :: int
  sa_bytes :: int

definition read_status :: "reader \<Rightarrow> wire_error + status_answer" where
  "read_status r = rbind (rd_i64 r) (\<lambda>(version, r). rbind (rd_blob r) (\<lambda>(sum, r). rbind (rd_u8 r) (\<lambda>(q, r).
     rbind (rd_u8 r) (\<lambda>(m, r). rbind (rd_i64 r) (\<lambda>(entries, r). rbind (rd_i64 r) (\<lambda>(size, r).
       Inr \<lparr>sa_version = version, sa_checksum = sum, sa_quorate = (q \<noteq> 0), sa_cluster = (m \<noteq> 0), sa_entries = entries,
         sa_bytes = size\<rparr>))))))"

fun read_stat_rows :: "nat \<Rightarrow> reader \<Rightarrow> wire_error + (int list \<times> reader)" where
  "read_stat_rows 0 r = Inr ([], r)"
| "read_stat_rows (Suc n) r = rbind (rd_u32 r) (\<lambda>(node, r). rbind (rd_i64 r) (\<lambda>(_, r). rbind (rd_u32 r) (\<lambda>(_, r).
     rbind (read_stat_rows n r) (\<lambda>(rest, r). Inr (node # rest, r)))))"

definition read_stat_list :: "reader \<Rightarrow> wire_error + int list" where
  "read_stat_list r = rbind (rd_u32 r) (\<lambda>(n, r). rbind (read_stat_rows (nat n) r) (\<lambda>(nodes, _). Inr nodes))"

definition read_stat :: "reader \<Rightarrow> wire_error + (int \<times> bytes)" where
  "read_stat r = rbind (rd_i64 r) (\<lambda>(age, r). rbind (rd_blob r) (\<lambda>(data, _). Inr (age, data)))"

definition NOT_FOUND :: byte where "NOT_FOUND = 1"

definition client_get :: "world \<Rightarrow> bytes \<Rightarrow> client \<Rightarrow> (wire_error + entry_answer) \<times> client" where
  "client_get w path = request w 1 (wire_string path) read_entry"

definition client_put :: "world \<Rightarrow> bytes \<Rightarrow> bytes \<Rightarrow> int \<Rightarrow> client \<Rightarrow> (wire_error + int) \<times> client" where
  "client_put w path data ex = request w 2 (two (two (wire_string path) (pack_i64 ex)) (wire_string data)) read_i64"

definition client_delete :: "world \<Rightarrow> bytes \<Rightarrow> int \<Rightarrow> client \<Rightarrow> (wire_error + unit) \<times> client" where
  "client_delete w path ex = request w 3 (two (wire_string path) (pack_i64 ex)) nothing"

definition client_list :: "world \<Rightarrow> bytes \<Rightarrow> client \<Rightarrow> (wire_error + child list) \<times> client" where
  "client_list w path = request w 4 (wire_string path) read_listing"

definition client_rename :: "world \<Rightarrow> bytes \<Rightarrow> bytes \<Rightarrow> int \<Rightarrow> client \<Rightarrow> (wire_error + int) \<times> client" where
  "client_rename w source target ex = request w 5 (two (two (wire_string source) (wire_string target)) (pack_i64 ex)) read_i64"

definition client_lock :: "world \<Rightarrow> bytes \<Rightarrow> bytes \<Rightarrow> int \<Rightarrow> client \<Rightarrow> (wire_error + unit) \<times> client" where
  "client_lock w name owner ttl = request w 6 (two (two (wire_string name) (wire_string owner)) (pack_u32 ttl)) nothing"

definition client_unlock :: "world \<Rightarrow> bytes \<Rightarrow> bytes \<Rightarrow> client \<Rightarrow> (wire_error + unit) \<times> client" where
  "client_unlock w name owner = request w 7 (two (wire_string name) (wire_string owner)) nothing"

definition client_next_id :: "world \<Rightarrow> client \<Rightarrow> (wire_error + int) \<times> client" where
  "client_next_id w = request w 8 (Inr []) read_i64"

definition client_status :: "world \<Rightarrow> client \<Rightarrow> (wire_error + status_answer) \<times> client" where
  "client_status w = request w 9 (Inr []) read_status"

definition client_stat_put :: "world \<Rightarrow> bytes \<Rightarrow> client \<Rightarrow> (wire_error + unit) \<times> client" where
  "client_stat_put w data = request w 10 (wire_string data) nothing"

fun stat_each :: "world \<Rightarrow> int list \<Rightarrow> client \<Rightarrow> (wire_error + (int \<times> int \<times> bytes) list) \<times> client" where
  "stat_each w [] c = (Inr [], c)"
| "stat_each w (node # nodes) c =
     (case request w 11 (pack_u32 node) read_stat c of
        (Inl (Cfs_error status reason), c') \<Rightarrow>
          if status = NOT_FOUND then stat_each w nodes c' else (Inl (Cfs_error status reason), c')
      | (Inl e, c') \<Rightarrow> (Inl e, c')
      | (Inr (age, data), c') \<Rightarrow>
          (case stat_each w nodes c' of (r, c'') \<Rightarrow> (rbind r (\<lambda>rest. Inr ((node, age, data) # rest)), c'')))"

definition client_stat_get :: "world \<Rightarrow> client \<Rightarrow> (wire_error + (int \<times> int \<times> bytes) list) \<times> client" where
  "client_stat_get w c = (case request w 11 (pack_u32 0) read_stat_list c of
       (Inl e, c') \<Rightarrow> (Inl e, c')
     | (Inr nodes, c') \<Rightarrow> stat_each w nodes c')"

section \<open>The daemon's side\<close>

text \<open>\<open>cfs_reader\<close>: a read past the end sets the error flag and gives zero.\<close>

record c_reader =
  cr_p :: bytes
  cr_off :: nat
  cr_err :: bool

definition need :: "nat \<Rightarrow> c_reader \<Rightarrow> bool" where
  "need n r \<longleftrightarrow> \<not> cr_err r \<and> \<not> (length (cr_p r) - cr_off r < n)"

definition c_read_u8 :: "c_reader \<Rightarrow> byte \<times> c_reader" where
  "c_read_u8 r = (if \<not> need 1 r then (0, r\<lparr>cr_err := True\<rparr>) else (cr_p r ! cr_off r, r\<lparr>cr_off := cr_off r + 1\<rparr>))"

definition c_read_u32 :: "c_reader \<Rightarrow> 32 word \<times> c_reader" where
  "c_read_u32 r = (if \<not> need 4 r then (0, r\<lparr>cr_err := True\<rparr>)
     else let b = drop (cr_off r) (cr_p r) in
       (ucast (b ! 0) OR push_bit 8 (ucast (b ! 1)) OR push_bit 16 (ucast (b ! 2)) OR push_bit 24 (ucast (b ! 3)),
        r\<lparr>cr_off := cr_off r + 4\<rparr>))"

text \<open>The loop from the last byte to the first, as a fold.\<close>

definition c_read_i64 :: "c_reader \<Rightarrow> 64 word \<times> c_reader" where
  "c_read_i64 r = (if \<not> need 8 r then (0, r\<lparr>cr_err := True\<rparr>)
     else (fold (\<lambda>i v. push_bit 8 v OR ucast (cr_p r ! (cr_off r + i))) [7, 6, 5, 4, 3, 2, 1, 0] 0,
           r\<lparr>cr_off := cr_off r + 8\<rparr>))"

definition c_read_blob :: "nat \<Rightarrow> c_reader \<Rightarrow> bytes option \<times> c_reader" where
  "c_read_blob mx r =
     (let (len, r) = c_read_u32 r; n = unat len in
      if cr_err r then (None, r)
      else if n > mx then (None, r\<lparr>cr_err := True\<rparr>)
      else if \<not> need n r then (None, r\<lparr>cr_err := True\<rparr>)
      else (Some (take n (drop (cr_off r) (cr_p r))), r\<lparr>cr_off := cr_off r + n\<rparr>))"

definition c_read_string :: "nat \<Rightarrow> c_reader \<Rightarrow> bytes \<times> c_reader" where
  "c_read_string mx r =
     (case c_read_blob mx r of
        (None, r) \<Rightarrow> ([], r)
      | (Some bs, r) \<Rightarrow> if 0 \<in> set bs then ([], r\<lparr>cr_err := True\<rparr>) else (bs, r))"

definition CFS_PATH_MAX :: nat where "CFS_PATH_MAX = 255"
definition CFS_NAME_MAX :: nat where "CFS_NAME_MAX = 128"
definition CFS_FRAME_MAX :: nat where "CFS_FRAME_MAX = 1024 * 1024 + 4096"

record cfs_request =
  rq_op :: byte
  rq_id :: "32 word"
  rq_path :: bytes
  rq_path2 :: bytes
  rq_name :: bytes
  rq_owner :: bytes
  rq_expected :: "64 word"
  rq_ttl :: "32 word"
  rq_node :: "32 word"
  rq_data :: bytes

definition zero_request :: cfs_request where
  "zero_request = \<lparr>rq_op = 0, rq_id = 0, rq_path = [], rq_path2 = [], rq_name = [], rq_owner = [], rq_expected = 0,
     rq_ttl = 0, rq_node = 0, rq_data = []\<rparr>"

text \<open>The arguments of an operation; \<open>None\<close> for an unknown one.\<close>

definition decode_arguments :: "cfs_request \<Rightarrow> c_reader \<Rightarrow> (cfs_request \<times> c_reader) option" where
  "decode_arguments q r =
     (if rq_op q = 1 \<or> rq_op q = 4 then
        (let (path, r) = c_read_string CFS_PATH_MAX r in Some (q\<lparr>rq_path := path\<rparr>, r))
      else if rq_op q = 2 then
        (let (path, r) = c_read_string CFS_PATH_MAX r; (ex, r) = c_read_i64 r; (data, r) = c_read_blob CFS_FRAME_MAX r in
         Some (q\<lparr>rq_path := path, rq_expected := ex, rq_data := (case data of None \<Rightarrow> [] | Some d \<Rightarrow> d)\<rparr>, r))
      else if rq_op q = 3 then
        (let (path, r) = c_read_string CFS_PATH_MAX r; (ex, r) = c_read_i64 r in Some (q\<lparr>rq_path := path, rq_expected := ex\<rparr>, r))
      else if rq_op q = 5 then
        (let (path, r) = c_read_string CFS_PATH_MAX r; (path2, r) = c_read_string CFS_PATH_MAX r; (ex, r) = c_read_i64 r in
         Some (q\<lparr>rq_path := path, rq_path2 := path2, rq_expected := ex\<rparr>, r))
      else if rq_op q = 6 then
        (let (name, r) = c_read_string CFS_NAME_MAX r; (owner, r) = c_read_string CFS_NAME_MAX r; (ttl, r) = c_read_u32 r in
         Some (q\<lparr>rq_name := name, rq_owner := owner, rq_ttl := ttl\<rparr>, r))
      else if rq_op q = 7 then
        (let (name, r) = c_read_string CFS_NAME_MAX r; (owner, r) = c_read_string CFS_NAME_MAX r in
         Some (q\<lparr>rq_name := name, rq_owner := owner\<rparr>, r))
      else if rq_op q = 8 \<or> rq_op q = 9 then Some (q, r)
      else if rq_op q = 10 then
        (let (data, r) = c_read_blob CFS_FRAME_MAX r in Some (q\<lparr>rq_data := (case data of None \<Rightarrow> [] | Some d \<Rightarrow> d)\<rparr>, r))
      else if rq_op q = 11 then
        (let (node, r) = c_read_u32 r in Some (q\<lparr>rq_node := node\<rparr>, r))
      else None)"

text \<open>\<open>cfs_decode_request\<close>: \<open>None\<close> is \<open>CFS_INVALID\<close>.\<close>

definition cfs_decode_request :: "bytes \<Rightarrow> cfs_request option" where
  "cfs_decode_request body =
     (let r = \<lparr>cr_p = body, cr_off = 0, cr_err = False\<rparr>; (op, r) = c_read_u8 r; (i, r) = c_read_u32 r in
      if cr_err r then None
      else case decode_arguments (zero_request\<lparr>rq_op := op, rq_id := i\<rparr>) r of
          None \<Rightarrow> None
        | Some (q, r) \<Rightarrow>
            if cr_err r \<or> cr_off r \<noteq> length (cr_p r) then None
            else if sint (rq_expected q) < -1 then None
            else Some q)"

text \<open>The writer: \<open>put_u32\<close> and the loop of \<open>cfs_write_i64\<close> by shifts.\<close>

definition put_u32 :: "32 word \<Rightarrow> bytes" where
  "put_u32 v = [ucast v, ucast (drop_bit 8 v), ucast (drop_bit 16 v), ucast (drop_bit 24 v)]"

definition put_i64 :: "64 word \<Rightarrow> bytes" where
  "put_i64 v = map (\<lambda>i. ucast (drop_bit (8 * i) v)) [0, 1, 2, 3, 4, 5, 6, 7]"

definition put_blob :: "bytes \<Rightarrow> bytes" where
  "put_blob bs = put_u32 (of_nat (length bs)) @ bs"

text \<open>\<open>cfs_answer\<close>: the frame of an answer, its length patched in at the end.\<close>

definition cfs_answer :: "32 word \<Rightarrow> byte \<Rightarrow> bytes \<Rightarrow> bytes \<Rightarrow> bytes" where
  "cfs_answer i status payload reason =
     (let body = put_u32 i @ status # (if status = 0 then payload else put_blob reason) in
      put_u32 (of_nat (length body)) @ body)"

end
