(* ===== verification/Cfs_Wire_Props.thy ===== *)
theory Cfs_Wire_Props
  imports Cfs_Wire
begin

text \<open>
  The two sides of the protocol meet. A reader in the middle of a buffer is written by what is left to read
  (\<open>c_at\<close> for the daemon's, \<open>rd_at\<close> for the client's), so each read is one rewrite rule; a whole request or answer
  is then read by rewriting.
\<close>

named_theorems wire_simps \<open>reading what was written\<close>

section \<open>The daemon's integers are struct's\<close>

lemma put_u32_le_bytes: "put_u32 v = le_bytes 4 v"
  by (simp add: put_u32_def le_bytes_def upt_rec)

lemma put_i64_le_bytes: "put_i64 v = le_bytes 8 v"
  by (simp add: put_i64_def le_bytes_def upt_rec)

lemma le_word_4: "le_word [a, b, c, d] = ucast a OR push_bit 8 (ucast b) OR push_bit 16 (ucast c) OR push_bit 24 (ucast d)"
  by (simp add: le_word_def push_bit_or ac_simps)

lemma le_word_8:
  "le_word [a, b, c, d, e, f, g, h] = foldr (\<lambda>b v. push_bit 8 v OR ucast b) [a, b, c, d, e, f, g, h] 0"
  by (simp add: le_word_def)

lemma list_of_4: "length bs = 4 \<Longrightarrow> bs = [bs ! 0, bs ! 1, bs ! 2, bs ! 3]"
  by (auto simp: numeral_eq_Suc length_Suc_conv)

lemma list_of_8: "length bs = 8 \<Longrightarrow> bs = [bs ! 0, bs ! 1, bs ! 2, bs ! 3, bs ! 4, bs ! 5, bs ! 6, bs ! 7]"
  by (auto simp: numeral_eq_Suc length_Suc_conv)

section \<open>Reading where one is\<close>

definition c_at :: "bytes \<Rightarrow> bytes \<Rightarrow> c_reader" where
  "c_at p rest = \<lparr>cr_p = p, cr_off = length p - length rest, cr_err = False\<rparr>"

definition rd_at :: "bytes \<Rightarrow> bytes \<Rightarrow> reader" where
  "rd_at p rest = \<lparr>rd_buf = p, rd_off = length p - length rest\<rparr>"

lemma suffix_drop: "suffix rest p \<Longrightarrow> drop (length p - length rest) p = rest"
  by (auto simp: suffix_def)

lemma c_at_need: "suffix (bs @ rest) p \<Longrightarrow> need (length bs) (c_at p (bs @ rest))"
  using suffix_length_le by (fastforce simp: need_def c_at_def)

lemma c_at_advance: "suffix (bs @ rest) p \<Longrightarrow> c_at p (bs @ rest)\<lparr>cr_off := cr_off (c_at p (bs @ rest)) + length bs\<rparr> = c_at p rest"
  using suffix_length_le by (fastforce simp: c_at_def)

lemma c_at_drop: "suffix rest p \<Longrightarrow> drop (cr_off (c_at p rest)) (cr_p (c_at p rest)) = rest"
  by (simp add: c_at_def suffix_drop)

lemma c_at_nth: "suffix rest p \<Longrightarrow> i < length rest \<Longrightarrow> cr_p (c_at p rest) ! (cr_off (c_at p rest) + i) = rest ! i"
  by (auto simp: c_at_def suffix_def nth_append)

lemma c_read_u8_at [wire_simps]:
  assumes "suffix (b # rest) p"
  shows "c_read_u8 (c_at p (b # rest)) = (b, c_at p rest)"
  using c_at_need [of "[b]" rest p] c_at_advance [of "[b]" rest p] c_at_nth [of "b # rest" p 0] assms
  by (simp add: c_read_u8_def)

lemma c_read_u32_at [wire_simps]:
  assumes "suffix (le_bytes 4 v @ rest) p"
  shows "c_read_u32 (c_at p (le_bytes 4 v @ rest)) = (v, c_at p rest)"
proof -
  let ?bs = "le_bytes 4 v"
  have bs: "?bs = [?bs ! 0, ?bs ! 1, ?bs ! 2, ?bs ! 3]" by (rule list_of_4) simp
  have "v = le_word [?bs ! 0, ?bs ! 1, ?bs ! 2, ?bs ! 3]"
    using le_word_le_bytes [of 4 v] bs by simp
  then show ?thesis
    using c_at_need [OF assms] c_at_advance [OF assms] c_at_drop [OF assms]
    by (simp add: c_read_u32_def le_word_4 nth_append)
qed

lemma c_read_i64_at [wire_simps]:
  assumes "suffix (le_bytes 8 v @ rest) p"
  shows "c_read_i64 (c_at p (le_bytes 8 v @ rest)) = (v, c_at p rest)"
proof -
  let ?bs = "le_bytes 8 v"
  have bs: "?bs = [?bs ! 0, ?bs ! 1, ?bs ! 2, ?bs ! 3, ?bs ! 4, ?bs ! 5, ?bs ! 6, ?bs ! 7]" by (rule list_of_8) simp
  have v: "v = le_word [?bs ! 0, ?bs ! 1, ?bs ! 2, ?bs ! 3, ?bs ! 4, ?bs ! 5, ?bs ! 6, ?bs ! 7]"
    using le_word_le_bytes [of 8 v] bs by simp
  let ?r = "c_at p (?bs @ rest)"
  have n: "cr_p ?r ! (cr_off ?r + i) = ?bs ! i" if "i < 8" for i
    using that c_at_nth [OF assms, of i] by (simp add: nth_append)
  have "fold (\<lambda>i v. push_bit 8 v OR ucast (cr_p ?r ! (cr_off ?r + i))) [7, 6, 5, 4, 3, 2, 1, 0] 0
      = le_word [?bs ! 0, ?bs ! 1, ?bs ! 2, ?bs ! 3, ?bs ! 4, ?bs ! 5, ?bs ! 6, ?bs ! 7]"
    unfolding le_word_8 by (simp only: fold.simps foldr.simps n id_apply comp_apply)
  also have "\<dots> = v" by (rule v [symmetric])
  finally have f: "fold (\<lambda>i v. push_bit 8 v OR ucast (cr_p ?r ! (cr_off ?r + i))) [7, 6, 5, 4, 3, 2, 1, 0] 0 = v" .
  show ?thesis
    unfolding c_read_i64_def f using c_at_need [OF assms] c_at_advance [OF assms] by simp
qed

lemma c_read_blob_at [wire_simps]:
  assumes "suffix (le_bytes 4 (of_nat (length bs) :: 32 word) @ bs @ rest) p" "length bs \<le> mx" "length bs < 2 ^ 32"
  shows "c_read_blob mx (c_at p (le_bytes 4 (of_nat (length bs) :: 32 word) @ bs @ rest)) = (Some bs, c_at p rest)"
proof -
  have s: "suffix (bs @ rest) p" using assms(1) by (metis suffix_appendD)
  have "\<not> cr_err (c_at p (bs @ rest))" by (simp add: c_at_def)
  then show ?thesis
    using assms c_at_need [OF s] c_at_advance [OF s] c_at_drop [OF s]
    by (simp add: c_read_blob_def c_read_u32_at Let_def unat_of_nat take_bit_nat_eq_self)
qed

lemma c_read_string_at [wire_simps]:
  assumes "suffix (le_bytes 4 (of_nat (length bs) :: 32 word) @ bs @ rest) p" "length bs \<le> mx" "length bs < 2 ^ 32" "0 \<notin> set bs"
  shows "c_read_string mx (c_at p (le_bytes 4 (of_nat (length bs) :: 32 word) @ bs @ rest)) = (bs, c_at p rest)"
  using assms by (simp add: c_read_string_def c_read_blob_at)

lemma rd_take_at: "suffix (bs @ rest) p \<Longrightarrow> rd_take (length bs) (rd_at p (bs @ rest)) = Inr (bs, rd_at p rest)"
  using suffix_length_le [of "bs @ rest" p] suffix_drop [of "bs @ rest" p] by (simp add: rd_take_def rd_at_def)

lemma rd_u8_at [wire_simps]: "suffix (b # rest) p \<Longrightarrow> rd_u8 (rd_at p (b # rest)) = Inr (b, rd_at p rest)"
  using rd_take_at [of "[b]" rest p] by (simp add: rd_u8_def)

lemma rd_u32_at [wire_simps]:
  "suffix (le_bytes 4 v @ rest) p \<Longrightarrow> rd_u32 (rd_at p (le_bytes 4 v @ rest)) = Inr (uint (v :: 32 word), rd_at p rest)"
  using rd_take_at [of "le_bytes 4 v" rest p] by (simp add: rd_u32_def le_word_le_bytes)

lemma rd_i64_at [wire_simps]:
  "suffix (le_bytes 8 v @ rest) p \<Longrightarrow> rd_i64 (rd_at p (le_bytes 8 v @ rest)) = Inr (sint (v :: 64 word), rd_at p rest)"
  using rd_take_at [of "le_bytes 8 v" rest p] by (simp add: rd_i64_def le_word_le_bytes)

lemma rd_blob_at [wire_simps]:
  assumes "suffix (le_bytes 4 (of_nat (length bs) :: 32 word) @ bs @ rest) p" "length bs < 2 ^ 32"
  shows "rd_blob (rd_at p (le_bytes 4 (of_nat (length bs) :: 32 word) @ bs @ rest)) = Inr (bs, rd_at p rest)"
proof -
  have s: "suffix (bs @ rest) p" using assms(1) by (metis suffix_appendD)
  have "nat (uint (of_nat (length bs) :: 32 word)) = length bs"
    using assms(2) by (simp add: unat_of_nat take_bit_nat_eq_self flip: unat_eq_nat_uint)
  then show ?thesis using assms rd_take_at [OF s] by (simp add: rd_blob_def rd_u32_at)
qed

section \<open>What the client sends is what the daemon decodes\<close>

text \<open>A call of the client, its operation and its payload, what the daemon should make of it, and the limits within which
  the daemon reads it.\<close>

datatype cfs_call =
    Get_call bytes
  | Put_call bytes bytes int
  | Delete_call bytes int
  | List_call bytes
  | Rename_call bytes bytes int
  | Lock_call bytes bytes int
  | Unlock_call bytes bytes
  | Next_id_call
  | Status_call
  | Stat_put_call bytes
  | Stat_get_call int

fun op_of :: "cfs_call \<Rightarrow> byte" where
  "op_of (Get_call _) = 1" | "op_of (Put_call _ _ _) = 2" | "op_of (Delete_call _ _) = 3" | "op_of (List_call _) = 4"
| "op_of (Rename_call _ _ _) = 5" | "op_of (Lock_call _ _ _) = 6" | "op_of (Unlock_call _ _) = 7" | "op_of Next_id_call = 8"
| "op_of Status_call = 9" | "op_of (Stat_put_call _) = 10" | "op_of (Stat_get_call _) = 11"

fun payload_of :: "cfs_call \<Rightarrow> wire_error + bytes" where
  "payload_of (Get_call path) = wire_string path"
| "payload_of (Put_call path data ex) = two (two (wire_string path) (pack_i64 ex)) (wire_string data)"
| "payload_of (Delete_call path ex) = two (wire_string path) (pack_i64 ex)"
| "payload_of (List_call path) = wire_string path"
| "payload_of (Rename_call a b ex) = two (two (wire_string a) (wire_string b)) (pack_i64 ex)"
| "payload_of (Lock_call name owner ttl) = two (two (wire_string name) (wire_string owner)) (pack_u32 ttl)"
| "payload_of (Unlock_call name owner) = two (wire_string name) (wire_string owner)"
| "payload_of Next_id_call = Inr []"
| "payload_of Status_call = Inr []"
| "payload_of (Stat_put_call data) = wire_string data"
| "payload_of (Stat_get_call node) = pack_u32 node"

fun arguments_of :: "cfs_call \<Rightarrow> cfs_request \<Rightarrow> cfs_request" where
  "arguments_of (Get_call path) q = q\<lparr>rq_path := path\<rparr>"
| "arguments_of (Put_call path data ex) q = q\<lparr>rq_path := path, rq_expected := word_of_int ex, rq_data := data\<rparr>"
| "arguments_of (Delete_call path ex) q = q\<lparr>rq_path := path, rq_expected := word_of_int ex\<rparr>"
| "arguments_of (List_call path) q = q\<lparr>rq_path := path\<rparr>"
| "arguments_of (Rename_call a b ex) q = q\<lparr>rq_path := a, rq_path2 := b, rq_expected := word_of_int ex\<rparr>"
| "arguments_of (Lock_call name owner ttl) q = q\<lparr>rq_name := name, rq_owner := owner, rq_ttl := word_of_int ttl\<rparr>"
| "arguments_of (Unlock_call name owner) q = q\<lparr>rq_name := name, rq_owner := owner\<rparr>"
| "arguments_of Next_id_call q = q"
| "arguments_of Status_call q = q"
| "arguments_of (Stat_put_call data) q = q\<lparr>rq_data := data\<rparr>"
| "arguments_of (Stat_get_call node) q = q\<lparr>rq_node := word_of_int node\<rparr>"

definition meaning :: "32 word \<Rightarrow> cfs_call \<Rightarrow> cfs_request" where
  "meaning i k = arguments_of k (zero_request\<lparr>rq_op := op_of k, rq_id := i\<rparr>)"

definition path_fits :: "bytes \<Rightarrow> bool" where
  "path_fits p \<longleftrightarrow> length p \<le> CFS_PATH_MAX \<and> 0 \<notin> set p"

definition name_fits :: "bytes \<Rightarrow> bool" where
  "name_fits p \<longleftrightarrow> length p \<le> CFS_NAME_MAX \<and> 0 \<notin> set p"

definition version_fits :: "int \<Rightarrow> bool" where
  "version_fits ex \<longleftrightarrow> -1 \<le> ex \<and> ex < 2 ^ 63"

fun call_fits :: "cfs_call \<Rightarrow> bool" where
  "call_fits (Get_call path) \<longleftrightarrow> path_fits path"
| "call_fits (Put_call path data ex) \<longleftrightarrow> path_fits path \<and> length data \<le> CFS_FRAME_MAX \<and> version_fits ex"
| "call_fits (Delete_call path ex) \<longleftrightarrow> path_fits path \<and> version_fits ex"
| "call_fits (List_call path) \<longleftrightarrow> path_fits path"
| "call_fits (Rename_call a b ex) \<longleftrightarrow> path_fits a \<and> path_fits b \<and> version_fits ex"
| "call_fits (Lock_call name owner ttl) \<longleftrightarrow> name_fits name \<and> name_fits owner \<and> 0 \<le> ttl \<and> ttl < 2 ^ 32"
| "call_fits (Unlock_call name owner) \<longleftrightarrow> name_fits name \<and> name_fits owner"
| "call_fits Next_id_call \<longleftrightarrow> True"
| "call_fits Status_call \<longleftrightarrow> True"
| "call_fits (Stat_put_call data) \<longleftrightarrow> length data \<le> CFS_FRAME_MAX"
| "call_fits (Stat_get_call node) \<longleftrightarrow> 0 \<le> node \<and> node < 2 ^ 32"

lemmas limits = path_fits_def name_fits_def version_fits_def CFS_PATH_MAX_def CFS_NAME_MAX_def CFS_FRAME_MAX_def

lemma wire_string_Inr: "length bs < 2 ^ 32 \<Longrightarrow> wire_string bs = Inr (le_bytes 4 (of_nat (length bs) :: 32 word) @ bs)"
  by (simp add: wire_string_def pack_u32_def)

lemma version_sint: "version_fits ex \<Longrightarrow> sint (word_of_int ex :: 64 word) = ex"
  by (simp add: version_fits_def signed_of_int signed_take_bit_int_eq_self)

text \<open>The operations' code of the payloads is those of the calls.\<close>

lemma client_calls:
  "client_get w path = request w (op_of (Get_call path)) (payload_of (Get_call path)) read_entry"
  "client_put w path data ex = request w (op_of (Put_call path data ex)) (payload_of (Put_call path data ex)) read_i64"
  "client_delete w path ex = request w (op_of (Delete_call path ex)) (payload_of (Delete_call path ex)) nothing"
  "client_list w path = request w (op_of (List_call path)) (payload_of (List_call path)) read_listing"
  "client_rename w a b ex = request w (op_of (Rename_call a b ex)) (payload_of (Rename_call a b ex)) read_i64"
  "client_lock w name owner ttl = request w (op_of (Lock_call name owner ttl)) (payload_of (Lock_call name owner ttl)) nothing"
  "client_unlock w name owner = request w (op_of (Unlock_call name owner)) (payload_of (Unlock_call name owner)) nothing"
  "client_next_id w = request w (op_of Next_id_call) (payload_of Next_id_call) read_i64"
  "client_status w = request w (op_of Status_call) (payload_of Status_call) read_status"
  by (simp_all add: client_get_def client_put_def client_delete_def client_list_def client_rename_def client_lock_def
      client_unlock_def client_next_id_def client_status_def)

lemmas suffix_rules = suffix_appendI suffix_ConsI

lemma decode_head:
  assumes "decode_arguments (zero_request\<lparr>rq_op := op, rq_id := i\<rparr>) (c_at body args) = Some (q, c_at body [])"
    and "body = op # le_bytes 4 i @ args" and "-1 \<le> sint (rq_expected q)"
  shows "cfs_decode_request body = Some q"
proof -
  have start: "\<lparr>cr_p = body, cr_off = 0, cr_err = False\<rparr> = c_at body (op # le_bytes 4 i @ args)"
    by (simp add: c_at_def assms(2))
  have "c_read_u8 (c_at body (op # le_bytes 4 i @ args)) = (op, c_at body (le_bytes 4 i @ args))"
    by (rule c_read_u8_at) (simp add: assms(2))
  moreover have "c_read_u32 (c_at body (le_bytes 4 i @ args)) = (i, c_at body args)"
    by (rule c_read_u32_at) (simp add: assms(2) suffix_rules)
  moreover have "\<not> cr_err (c_at body r)" "cr_off (c_at body []) = length (cr_p (c_at body []))" for r by (simp_all add: c_at_def)
  ultimately show ?thesis using assms(1,3) by (simp add: cfs_decode_request_def start)
qed

lemmas wire_end = c_read_u32_at [where rest = "[]", simplified] c_read_i64_at [where rest = "[]", simplified]
  c_read_blob_at [where rest = "[]", simplified] c_read_string_at [where rest = "[]", simplified]

lemma decodedI:
  assumes "payload_of k = Inr p" "length p \<le> CFS_FRAME_MAX + 1024"
    "decode_arguments (zero_request\<lparr>rq_op := op_of k, rq_id := i\<rparr>) (c_at (op_of k # le_bytes 4 i @ p) p)
       = Some (meaning i k, c_at (op_of k # le_bytes 4 i @ p) [])"
    "-1 \<le> sint (rq_expected (meaning i k))"
  shows "\<exists>p. payload_of k = Inr p \<and> length p \<le> CFS_FRAME_MAX + 1024
    \<and> cfs_decode_request (op_of k # le_bytes 4 i @ p) = Some (meaning i k)"
  using assms decode_head [OF assms(3) refl assms(4)] by blast

abbreviation str_bytes :: "bytes \<Rightarrow> bytes" where
  "str_bytes bs \<equiv> le_bytes 4 (of_nat (length bs) :: 32 word) @ bs"

lemmas decode_simps = decode_arguments_def meaning_def wire_simps wire_end suffix_rules limits two_def wire_string_Inr
  pack_i64_def pack_u32_def zero_request_def

lemma call_decoded:
  assumes "call_fits k"
  shows "\<exists>p. payload_of k = Inr p \<and> length p \<le> CFS_FRAME_MAX + 1024
    \<and> cfs_decode_request (op_of k # le_bytes 4 i @ p) = Some (meaning i k)"
proof (cases k)
  case (Get_call path)
  show ?thesis by (rule decodedI [where p = "str_bytes path"]) (use assms Get_call in \<open>simp_all add: decode_simps\<close>)
next
  case (Put_call path data ex)
  show ?thesis
    by (rule decodedI [where p = "str_bytes path @ le_bytes 8 (word_of_int ex :: 64 word) @ str_bytes data"])
      (use assms Put_call version_sint [of ex] in \<open>simp_all add: decode_simps\<close>)
next
  case (Delete_call path ex)
  show ?thesis
    by (rule decodedI [where p = "str_bytes path @ le_bytes 8 (word_of_int ex :: 64 word)"])
      (use assms Delete_call version_sint [of ex] in \<open>simp_all add: decode_simps\<close>)
next
  case (List_call path)
  show ?thesis by (rule decodedI [where p = "str_bytes path"]) (use assms List_call in \<open>simp_all add: decode_simps\<close>)
next
  case (Rename_call a b ex)
  show ?thesis
    by (rule decodedI [where p = "str_bytes a @ str_bytes b @ le_bytes 8 (word_of_int ex :: 64 word)"])
      (use assms Rename_call version_sint [of ex] in \<open>simp_all add: decode_simps\<close>)
next
  case (Lock_call name owner ttl)
  show ?thesis
    by (rule decodedI [where p = "str_bytes name @ str_bytes owner @ le_bytes 4 (word_of_int ttl :: 32 word)"])
      (use assms Lock_call in \<open>simp_all add: decode_simps\<close>)
next
  case (Unlock_call name owner)
  show ?thesis by (rule decodedI [where p = "str_bytes name @ str_bytes owner"]) (use assms Unlock_call in \<open>simp_all add: decode_simps\<close>)
next
  case Next_id_call
  show ?thesis by (rule decodedI [where p = "[]"]) (use Next_id_call in \<open>simp_all add: decode_simps\<close>)
next
  case Status_call
  show ?thesis by (rule decodedI [where p = "[]"]) (use Status_call in \<open>simp_all add: decode_simps\<close>)
next
  case (Stat_put_call data)
  show ?thesis by (rule decodedI [where p = "str_bytes data"]) (use assms Stat_put_call in \<open>simp_all add: decode_simps\<close>)
next
  case (Stat_get_call node)
  show ?thesis
    by (rule decodedI [where p = "le_bytes 4 (word_of_int node :: 32 word)"]) (use assms Stat_get_call in \<open>simp_all add: decode_simps\<close>)
qed

section \<open>An answer in pieces\<close>

text \<open>The bytes a socket still has, when no \<open>recv\<close> fails and none is empty.\<close>

fun flowing :: "socket \<Rightarrow> bool" where
  "flowing [] = True"
| "flowing (Got bs # es) = (bs \<noteq> [] \<and> flowing es)"
| "flowing (Recv_fails # es) = False"

fun pending :: "socket \<Rightarrow> bytes" where
  "pending [] = []"
| "pending (Got bs # es) = bs @ pending es"
| "pending (Recv_fails # es) = []"

lemma flowing_append [simp]: "flowing (a @ b) \<longleftrightarrow> flowing a \<and> flowing b"
  by (induction a rule: flowing.induct) auto

lemma pending_append [simp]: "flowing a \<Longrightarrow> pending (a @ b) = pending a @ pending b"
  by (induction a rule: flowing.induct) auto

lemma recv_exact_pieces:
  assumes "flowing s" "n \<le> length (pending s)"
  shows "\<exists>s'. recv_exact n s = Inr (take n (pending s), s') \<and> flowing s' \<and> pending s' = drop n (pending s)"
  using assms
proof (induction n s rule: recv_exact.induct)
  case (1 n s)
  show ?case
  proof (cases "n = 0")
    case True
    then show ?thesis using 1(2) by (subst recv_exact.simps) simp
  next
    case False
    then obtain bs es where s: "s = Got bs # es" "bs \<noteq> []" "flowing es"
      using 1(2,3) by (cases s rule: flowing.cases) auto
    let ?k = "min n 65536"
    let ?c = "take ?k bs"
    let ?s = "if ?k < length bs then Got (drop ?k bs) # es else es"
    have r: "recv ?k s = Inr (?c, ?s)" by (simp add: recv_def s)
    have c: "?c \<noteq> []" using s(2) False by simp
    have p: "?c @ pending ?s = pending s" "flowing ?s" using s by auto
    have "n - length ?c \<le> length (pending ?s)" using 1(3) p(1) by (metis length_append diff_le_mono add_diff_cancel_left')
    then obtain s' where s': "recv_exact (n - length ?c) ?s = Inr (take (n - length ?c) (pending ?s), s')" "flowing s'"
        "pending s' = drop (n - length ?c) (pending ?s)"
      using 1(1) [OF False r refl c] p(2) by blast
    have "length ?c \<le> n" by simp
    then have "take n (pending s) = ?c @ take (n - length ?c) (pending ?s)" "drop n (pending s) = drop (n - length ?c) (pending ?s)"
      unfolding p(1) [symmetric] by simp_all
    then show ?thesis using False r c s' by (subst recv_exact.simps) simp
  qed
qed

lemma read_answer_pieces:
  assumes "flowing s" "pending s = le_bytes 4 (of_nat (length body) :: 32 word) @ body" "int (length body) \<le> FRAME_MAX"
  shows "\<exists>s'. read_answer s = Inr (body, s') \<and> flowing s' \<and> pending s' = []"
proof -
  have small: "length body < 2 ^ 32" using assms(3) by (simp add: FRAME_MAX_def)
  obtain s1 where s1: "recv_exact 4 s = Inr (le_bytes 4 (of_nat (length body) :: 32 word), s1)" "flowing s1" "pending s1 = body"
    using recv_exact_pieces [OF assms(1), of 4] assms(2) by auto
  have len: "uint (of_nat (length body) :: 32 word) = int (length body)"
    using small by (simp add: unsigned_of_nat take_bit_nat_eq_self)
  obtain s2 where "recv_exact (length body) s1 = Inr (body, s2)" "flowing s2" "pending s2 = []"
    using recv_exact_pieces [OF s1(2), of "length body"] s1(3) by auto
  then show ?thesis
    using s1 assms(3) len by (simp add: read_answer_def Let_def le_word_le_bytes)
qed

section \<open>The two sides together\<close>

text \<open>The daemon answers a frame with what its handler says of the decoded request: a status, the payload of a success, the
  reason of a refusal.\<close>

definition daemon :: "(cfs_request \<Rightarrow> byte \<times> bytes \<times> bytes) \<Rightarrow> bytes \<Rightarrow> bytes" where
  "daemon handler frame = (case cfs_decode_request (drop 4 frame) of
       None \<Rightarrow> []
     | Some q \<Rightarrow> (case handler q of (status, payload, reason) \<Rightarrow> cfs_answer (rq_id q) status payload reason))"

lemma rq_id_meaning [simp]: "rq_id (meaning i k) = i"
  by (cases k) (simp_all add: meaning_def)

lemma request_answered:
  assumes k: "call_fits k"
    and up: "wd_connects w" "wd_sends w" and sock: "cl_sock c = None \<or> cl_sock c = Some []"
    and pieces: "\<And>frame. flowing (wd_answers w frame) \<and> pending (wd_answers w frame) = daemon handler frame"
    and h: "handler (meaning (cl_next_id c + 1) k) = (status, payload, reason)"
    and fits: "length payload + 5 \<le> CFS_FRAME_MAX" "length reason + 9 \<le> CFS_FRAME_MAX"
  shows "fst (request w (op_of k) (payload_of k) f c) =
    (if status = 0 then f (rd_at (le_bytes 4 (cl_next_id c + 1) @ status # payload) payload) else Inl (Cfs_error status reason))"
proof -
  let ?i = "cl_next_id c + 1"
  obtain p where p: "payload_of k = Inr p" "length p \<le> CFS_FRAME_MAX + 1024"
      "cfs_decode_request (op_of k # le_bytes 4 ?i @ p) = Some (meaning ?i k)"
    using call_decoded [OF k] by blast
  let ?body = "op_of k # le_bytes 4 ?i @ p"
  let ?answer = "le_bytes 4 ?i @ status # (if status = 0 then payload else str_bytes reason)"
  obtain len where len: "pack_u32 (int (length ?body)) = Inr len" "length len = 4"
    using p(2) by (simp add: pack_u32_def CFS_FRAME_MAX_def)
  have "daemon handler (len @ ?body) = le_bytes 4 (of_nat (length ?answer) :: 32 word) @ ?answer"
    using p(3) len(2) h by (simp add: daemon_def cfs_answer_def Let_def put_u32_le_bytes put_blob_def)
  then obtain s' where s': "read_answer (wd_answers w (len @ ?body)) = Inr (?answer, s')"
    using read_answer_pieces [of "wd_answers w (len @ ?body)" ?answer] pieces fits
    by (auto simp: FRAME_MAX_def CFS_FRAME_MAX_def split: if_splits)
  have "(case cl_sock c of Some s \<Rightarrow> Some s | None \<Rightarrow> if wd_connects w then Some [] else None) = Some []"
    using sock up by auto
  then have call: "fst (call w (op_of k) p c) = fst (take_answer ?i ?answer)"
    using len(1) up(2) s' by (simp add: call_def Let_def case_prod_beta)
  have start: "\<lparr>rd_buf = ?answer, rd_off = 0\<rparr> = rd_at ?answer ?answer" by (simp add: rd_at_def)
  have "fst (take_answer ?i ?answer) =
      (if status = 0 then Inr (rd_at ?answer payload) else Inl (Cfs_error status reason))"
    using fits(2) unfolding take_answer_def start
    by (simp add: wire_simps suffix_rules rd_blob_at [where rest = "[]", simplified] CFS_FRAME_MAX_def)
  then show ?thesis using p(1) call by (simp add: request_def case_prod_beta split: if_splits)
qed


definition sample_world :: world where
  "sample_world = \<lparr>wd_connects = True, wd_sends = True, wd_answers = (\<lambda>frame. map (\<lambda>b. Got [b]) (daemon (\<lambda>q. (0, put_i64 7, [])) frame))\<rparr>"

lemma bytewise: "flowing (map (\<lambda>b. Got [b]) bs) \<and> pending (map (\<lambda>b. Got [b]) bs) = bs"
  by (induction bs) auto


section \<open>Listings\<close>

text \<open>How the daemon writes a listing (\<open>list_entry\<close> for each child, the count patched in front).\<close>

definition put_child :: "bytes \<times> bool \<times> 64 word \<times> 64 word \<Rightarrow> bytes" where
  "put_child x = (case x of (name, is_dir, version, sz) \<Rightarrow>
     put_blob name @ (if is_dir then 1 else 0) # put_i64 version @ put_i64 sz)"

definition put_listing :: "(bytes \<times> bool \<times> 64 word \<times> 64 word) list \<Rightarrow> bytes" where
  "put_listing xs = put_u32 (of_nat (length xs)) @ concat (map put_child xs)"

fun child_of :: "bytes \<times> bool \<times> 64 word \<times> 64 word \<Rightarrow> child" where
  "child_of (name, is_dir, version, sz) =
     \<lparr>ch_name = name, ch_is_dir = is_dir, ch_version = sint version, ch_size = sint sz\<rparr>"

lemma put_child_bytes:
  "put_child (name, d, version, sz) = str_bytes name @ (if d then 1 else 0) # le_bytes 8 version @ le_bytes 8 sz"
  by (simp add: put_child_def put_blob_def put_u32_le_bytes put_i64_le_bytes)

lemma read_children_at:
  assumes "suffix (concat (map put_child xs) @ rest) p" "list_all (\<lambda>x. length (fst x) < 2 ^ 32) xs"
  shows "read_children (length xs) (rd_at p (concat (map put_child xs) @ rest)) = Inr (map child_of xs, rd_at p rest)"
  using assms
proof (induction xs)
  case (Cons x xs)
  obtain name d version sz where x: "x = (name, d, version, sz)" by (cases x)
  let ?tail = "concat (map put_child xs) @ rest"
  have s: "suffix (str_bytes name @ (if d then 1 else 0) # le_bytes 8 version @ le_bytes 8 sz @ ?tail) p"
    using Cons.prems(1) by (simp add: x put_child_bytes)
  then have "suffix ((if d then 1 else 0) # le_bytes 8 version @ le_bytes 8 sz @ ?tail) p"
      "suffix (le_bytes 8 version @ le_bytes 8 sz @ ?tail) p" "suffix (le_bytes 8 sz @ ?tail) p" "suffix ?tail p"
    by (metis suffix_appendD suffix_ConsD)+
  then show ?case
    using s Cons by (simp add: x put_child_bytes wire_simps)
qed simp

text \<open>A listing reads back: the client's loop over the daemon's answer gives the children the daemon wrote, in their
  order, each with its name, its kind, its version and its size.\<close>

theorem listing_reads_back:
  assumes "list_all (\<lambda>x. length (fst x) < 2 ^ 32) xs" "length xs < 2 ^ 32" "suffix (put_listing xs) p"
  shows "read_listing (rd_at p (put_listing xs)) = Inr (map child_of xs)"
proof -
  have s: "suffix (le_bytes 4 (of_nat (length xs) :: 32 word) @ concat (map put_child xs)) p"
    using assms(3) by (simp add: put_listing_def put_u32_le_bytes)
  then have "suffix (concat (map put_child xs)) p" by (metis suffix_appendD)
  moreover have "nat (uint (of_nat (length xs) :: 32 word)) = length xs"
    using assms(2) by (simp add: unsigned_of_nat take_bit_nat_eq_self)
  ultimately show ?thesis
    using read_children_at [of xs "[]" p] assms(1) s
    by (simp add: read_listing_def put_listing_def put_u32_le_bytes rd_u32_at)
qed

theorem listing_reads_back_witness:
  "read_listing (rd_at (put_listing [([97], True, 3, 0), ([98], False, 4, 12)]) (put_listing [([97], True, 3, 0), ([98], False, 4, 12)]))
     = Inr [\<lparr>ch_name = [97], ch_is_dir = True, ch_version = 3, ch_size = 0\<rparr>,
            \<lparr>ch_name = [98], ch_is_dir = False, ch_version = 4, ch_size = 12\<rparr>]"
  using listing_reads_back [of "[([97], True, 3, 0), ([98], False, 4, 12)]" "put_listing [([97], True, 3, 0), ([98], False, 4, 12)]"]
  by simp

section \<open>Which answer is taken\<close>

lemma rd_take_Inr: "rd_take n r = Inr (bs, r') \<longleftrightarrow>
    rd_off r + n \<le> length (rd_buf r) \<and> bs = take n (drop (rd_off r) (rd_buf r)) \<and> r' = r\<lparr>rd_off := rd_off r + n\<rparr>"
  by (auto simp: rd_take_def)

lemma rd_errors: "rd_take n r = Inl e \<Longrightarrow> e = Truncated_answer" "rd_u8 r = Inl e \<Longrightarrow> e = Truncated_answer"
    "rd_u32 r = Inl e \<Longrightarrow> e = Truncated_answer" "rd_blob r = Inl e \<Longrightarrow> e = Truncated_answer"
  by (auto simp: rd_take_def rd_u8_def rd_u32_def rd_blob_def rbind_def split: sum.splits if_splits)

lemma take_answer_Inr:
  assumes "take_answer i a = (Inr r, dropped)"
  shows "le_word (take 4 (rd_buf r)) = i \<and> rd_buf r ! 4 = 0 \<and> rd_off r = 5"
proof -
  obtain n r1 where r1: "rd_u32 \<lparr>rd_buf = a, rd_off = 0\<rparr> = Inr (n, r1)" "n = uint i"
    using assms by (auto simp: take_answer_def split: sum.splits if_splits)
  obtain r2 where r2: "rd_u8 r1 = Inr (0, r2)" "r2 = r"
    using assms r1 by (auto simp: take_answer_def rbind_def split: sum.splits if_splits)
  show ?thesis
    using r1 r2 by (auto simp: rd_u32_def rd_u8_def py_simps rd_take_Inr hd_drop_conv_nth intro: unsigned_word_eqI)
qed

lemma take_answer_Inl:
  assumes "take_answer i a = (Inl e, dropped)"
  shows "e \<noteq> Os_error \<and> e \<noteq> Connection_error \<and> (e = Answer_to_another_request \<longrightarrow> dropped)"
  using assms by (auto simp: take_answer_def rbind_def dest!: rd_errors split: sum.splits if_splits)

text \<open>A payload is only ever read from an answer that names this request and says it succeeded; when the
  exchange broke (the socket failed or dropped, the answer was oversized, or it was for another request) the
  connection is dropped, so the next call cannot read what was left of it; each call has its own number, modulo
  the width of the field.\<close>

theorem answer_is_to_this_request:
  assumes "call w op payload c = (result, c')"
  shows "cl_next_id c' = cl_next_id c + 1
    \<and> (\<forall>r. result = Inr r \<longrightarrow> le_word (take 4 (rd_buf r)) = cl_next_id c + 1 \<and> rd_buf r ! 4 = 0 \<and> rd_off r = 5)
    \<and> (result \<in> {Inl Os_error, Inl Connection_error, Inl Answer_to_another_request} \<longrightarrow> cl_sock c' = None)"
proof (cases "case cl_sock c of Some s \<Rightarrow> Some s | None \<Rightarrow> if wd_connects w then Some [] else None")
  case None
  then show ?thesis using assms by (auto simp: call_def Let_def split: option.splits if_splits)
next
  case (Some s)
  let ?i = "cl_next_id c + 1"
  let ?body = "op # le_bytes 4 ?i @ payload"
  show ?thesis
  proof (cases "pack_u32 (int (length ?body))")
    case (Inl e)
    then show ?thesis using assms Some by (auto simp: call_def Let_def pack_u32_def split: if_splits)
  next
    case (Inr len)
    show ?thesis
    proof (cases "\<exists>a s'. wd_sends w \<and> read_answer (s @ wd_answers w (len @ ?body)) = Inr (a, s')")
      case False
      then show ?thesis using assms Some Inr by (auto simp: call_def Let_def split: if_splits sum.splits)
    next
      case True
      then obtain a s' where a: "wd_sends w" "read_answer (s @ wd_answers w (len @ ?body)) = Inr (a, s')" by blast
      obtain r dropped where "take_answer ?i a = (r, dropped)" by (cases "take_answer ?i a") simp
      with assms Some Inr a have "take_answer ?i a = (result, dropped)"
          "c' = c\<lparr>cl_next_id := ?i, cl_sock := if dropped then None else Some s'\<rparr>"
        by (simp_all add: call_def Let_def)
      then show ?thesis using take_answer_Inr take_answer_Inl by fastforce
    qed
  qed
qed

theorem answer_is_to_this_request_witness:
  "\<exists>r c'. call \<lparr>wd_connects = True, wd_sends = True, wd_answers = (\<lambda>_. [Got (put_u32 5), Got (put_u32 42 @ [0])])\<rparr> 8 []
      \<lparr>cl_sock = None, cl_next_id = 41\<rparr> = (Inr r, c') \<and> le_word (take 4 (rd_buf r)) = (42 :: 32 word) \<and> cl_next_id c' = 42"
proof -
  let ?w = "\<lparr>wd_connects = True, wd_sends = True, wd_answers = (\<lambda>_. [Got (put_u32 5), Got (put_u32 42 @ [0])])\<rparr>"
  have "\<exists>s'. read_answer [Got (put_u32 5), Got (put_u32 42 @ [0])] = Inr (put_u32 42 @ [0], s') \<and> flowing s' \<and> pending s' = []"
    by (rule read_answer_pieces) (simp_all add: put_u32_def FRAME_MAX_def le_bytes_def upt_rec)
  moreover have "\<exists>r. take_answer 42 (put_u32 42 @ [0]) = (Inr r, False)"
    by (simp add: take_answer_def put_u32_le_bytes rd_u32_def rd_u8_def rd_take_def le_word_le_bytes)
  ultimately obtain r c' where "call ?w 8 [] \<lparr>cl_sock = None, cl_next_id = 41\<rparr> = (Inr r, c')"
    by (auto simp: call_def Let_def pack_u32_def)
  then show ?thesis using answer_is_to_this_request [of ?w 8 "[]" "\<lparr>cl_sock = None, cl_next_id = 41\<rparr>" "Inr r" c'] by auto
qed

end
