(* ===== verification/Ip_Net.thy ===== *)
theory Ip_Net
  imports Py_Text
begin

text \<open>
  IPv4 networks as Python's \<open>ipaddress\<close> reads and prints them: \<open>ip_network(text, strict=False)\<close>, whose text is an
  address alone, an address with a prefix length, or an address with a network mask or a host mask, and whose host
  bits are cleared; \<open>str\<close> of the network. Shown: what is printed reads back as the same network.
\<close>

text \<open>An address as a number, and its printing.\<close>

definition ipv4_number :: "string \<Rightarrow> nat" where
  "ipv4_number s = foldl (\<lambda>n p. 256 * n + nat_of_digits p) 0 (split_on (CHR ''.'') s)"

definition ipv4_text :: "nat \<Rightarrow> string" where
  "ipv4_text n = join_with (CHR ''.'')
     [str_of_nat (n div 16777216 mod 256), str_of_nat (n div 65536 mod 256), str_of_nat (n div 256 mod 256), str_of_nat (n mod 256)]"

text \<open>A mask's prefix length: ones, then zeros.\<close>

definition mask_prefix :: "nat \<Rightarrow> nat option" where
  "mask_prefix x = find (\<lambda>p. x = (2 ^ p - 1) * 2 ^ (32 - p)) [0..<33]"

definition prefix_of_text :: "string \<Rightarrow> nat option" where
  "prefix_of_text t =
     (if str_isdigit t \<and> nat_of_digits t \<le> 32 then Some (nat_of_digits t)
      else if ipv4_ok t then
        (case mask_prefix (ipv4_number t) of Some p \<Rightarrow> Some p | None \<Rightarrow> mask_prefix (2 ^ 32 - 1 - ipv4_number t))
      else None)"

type_synonym ip_net = "nat \<times> nat"

text \<open>Cleared of its host bits.\<close>

definition net_of :: "nat \<Rightarrow> nat \<Rightarrow> ip_net" where
  "net_of n p = (n - n mod 2 ^ (32 - p), p)"

definition ip_network4 :: "string \<Rightarrow> ip_net option" where
  "ip_network4 s = (case split_on (CHR ''/'') s of
       [a] \<Rightarrow> if ipv4_ok a then Some (net_of (ipv4_number a) 32) else None
     | [a, m] \<Rightarrow> if ipv4_ok a then map_option (net_of (ipv4_number a)) (prefix_of_text m) else None
     | _ \<Rightarrow> None)"

definition net_text :: "ip_net \<Rightarrow> string" where
  "net_text net = ipv4_text (fst net) @ CHR ''/'' # str_of_nat (snd net)"

definition net_ok :: "ip_net \<Rightarrow> bool" where
  "net_ok net \<longleftrightarrow> fst net < 2 ^ 32 \<and> snd net \<le> 32 \<and> fst net mod 2 ^ (32 - snd net) = 0"

text \<open>Whether an address lies in a network.\<close>

definition in_net :: "nat \<Rightarrow> ip_net \<Rightarrow> bool" where
  "in_net a net \<longleftrightarrow> a - a mod 2 ^ (32 - snd net) = fst net"

section \<open>Reading back\<close>

lemma digits_no: "list_all is_digit s \<Longrightarrow> \<not> is_digit c \<Longrightarrow> c \<notin> set s"
  by (auto simp: list_all_iff)

lemma no_dot_slash [simp]: "CHR ''.'' \<notin> set (str_of_nat n)" "CHR ''/'' \<notin> set (str_of_nat n)"
  using digits_no [OF digits_str_of_nat [of n]] by (simp_all add: is_digit_def less_eq_char_def)

lemma length_str_of_nat_byte: "n \<le> 255 \<Longrightarrow> length (str_of_nat n) \<le> 3"
  by (subst str_of_nat.simps, simp, subst str_of_nat.simps, simp, subst str_of_nat.simps, simp)

lemma hd_str_of_nat: "10 \<le> n \<Longrightarrow> hd (str_of_nat n) \<noteq> CHR ''0''"
proof (induction n rule: str_of_nat.induct)
  case (1 n)
  show ?case
  proof (cases "n < 100")
    case True
    then have "str_of_nat n = [digit_char (n div 10), digit_char (n mod 10)]"
      using 1(2) by (subst str_of_nat.simps, simp, subst str_of_nat.simps) simp
    moreover have "digit_char (n div 10) \<noteq> CHR ''0''"
    proof
      assume "digit_char (n div 10) = CHR ''0''"
      then have "digit_value (digit_char (n div 10)) = 0" by (simp add: digit_value_def)
      then show False using True 1(2) by (simp add: div_eq_0_iff)
    qed
    ultimately show ?thesis by simp
  next
    case False
    then have "hd (str_of_nat (n div 10)) \<noteq> CHR ''0''" using 1 by simp
    then show ?thesis using False by (subst str_of_nat.simps) simp
  qed
qed

lemma octet_ok_str_of_nat: "n \<le> 255 \<Longrightarrow> octet_ok (str_of_nat n)"
proof -
  assume n: "n \<le> 255"
  have "length (str_of_nat n) = 1 \<or> hd (str_of_nat n) \<noteq> CHR ''0''"
    using hd_str_of_nat [of n] by (cases "n < 10") (simp_all add: str_of_nat.simps [of n])
  then show ?thesis using n length_str_of_nat_byte [OF n] by (simp add: octet_ok_def)
qed

lemma split_ipv4_text:
  "split_on (CHR ''.'') (ipv4_text n) =
     [str_of_nat (n div 16777216 mod 256), str_of_nat (n div 65536 mod 256), str_of_nat (n div 256 mod 256), str_of_nat (n mod 256)]"
  unfolding ipv4_text_def by (rule split_on_join) simp_all

lemma mod_256_le: "(n :: nat) mod 256 \<le> 255"
  using mod_less_divisor [of 256 n] by linarith

lemma ipv4_ok_text: "ipv4_ok (ipv4_text n)"
  by (simp add: ipv4_ok_def split_ipv4_text octet_ok_str_of_nat mod_256_le)

lemma ipv4_number_text: "n < 2 ^ 32 \<Longrightarrow> ipv4_number (ipv4_text n) = n"
proof -
  assume "n < 2 ^ 32"
  then have "n div 16777216 mod 256 = n div 16777216" by simp
  moreover have "n = 256 * (n div 256) + n mod 256" by simp
  moreover have "n div 256 = 256 * (n div 65536) + n div 256 mod 256"
    using mult_div_mod_eq [of 256 "n div 256"] by (simp add: div_mult2_eq [symmetric])
  moreover have "n div 65536 = 256 * (n div 16777216) + n div 65536 mod 256"
    using mult_div_mod_eq [of 256 "n div 65536"] by (simp add: div_mult2_eq [symmetric])
  ultimately have "16777216 * (n div 16777216) + 65536 * (n div 65536 mod 256) + 256 * (n div 256 mod 256) + n mod 256 = n"
    by linarith
  then show ?thesis using \<open>n div 16777216 mod 256 = _\<close> by (simp add: ipv4_number_def split_ipv4_text)
qed

lemma net_text_reads_back:
  assumes "net_ok net"
  shows "ip_network4 (net_text net) = Some net"
proof -
  obtain n p where net: "net = (n, p)" by (cases net)
  have "CHR ''/'' \<notin> set (ipv4_text n)" by (simp add: ipv4_text_def)
  then have "split_on (CHR ''/'') (net_text net) = [ipv4_text n, str_of_nat p]"
    by (simp add: net_text_def net split_on_sep split_on_no_sep)
  then show ?thesis
    using assms by (simp add: ip_network4_def ipv4_ok_text ipv4_number_text prefix_of_text_def net net_ok_def net_of_def)
qed

lemma mask_prefix_le: "mask_prefix x = Some p \<Longrightarrow> p \<le> 32"
  by (auto simp: mask_prefix_def find_Some_iff)

lemma prefix_of_text_le: "prefix_of_text t = Some p \<Longrightarrow> p \<le> 32"
  by (auto simp: prefix_of_text_def dest: mask_prefix_le split: if_splits option.splits)

lemma ipv4_number_bound:
  assumes "ipv4_ok s"
  shows "ipv4_number s < 2 ^ 32"
proof -
  obtain a b c d where ps: "split_on (CHR ''.'') s = [a, b, c, d]"
    using assms by (auto simp: ipv4_ok_def Let_def numeral_eq_Suc length_Suc_conv)
  then have "nat_of_digits a \<le> 255" "nat_of_digits b \<le> 255" "nat_of_digits c \<le> 255" "nat_of_digits d \<le> 255"
    using assms by (simp_all add: ipv4_ok_def octet_ok_def Let_def)
  then show ?thesis by (simp add: ipv4_number_def ps)
qed

lemma net_of_ok: "n < 2 ^ 32 \<Longrightarrow> p \<le> 32 \<Longrightarrow> net_ok (net_of n p)"
  by (auto simp: net_ok_def net_of_def)

lemma ip_network4_ok: "ip_network4 s = Some net \<Longrightarrow> net_ok net"
  by (auto simp: ip_network4_def intro!: net_of_ok ipv4_number_bound dest: prefix_of_text_le split: list.splits if_splits)

end
