(* ===== verification/Firewall_Doc.thy ===== *)
theory Firewall_Doc
  imports Ip_Net
begin

text \<open>
  The document of the nodes' firewall (\<open>app/core/host_firewall.py\<close>): its check (\<open>normalize\<close>), where a group or an IP
  set is used, the rules in order with the groups expanded, the nftables script of a node (\<open>render\<close>) and the rules of
  a group for the VMs and the networks (\<open>expand_group\<close>, \<open>group_iptables_specs\<close>).

  What comes in is JSON. A value in a scalar place is \<open>scalar\<close>: a list, an object or a float there only matters by its
  truth and its \<open>str\<close> (\<open>Other\<close>). An object is a record of optional fields; keys the code does not read are left out.
  Strings are ASCII. A refused IPv6 source and an unreadable one are one error; so are the two ways a name is refused.
\<close>

section \<open>What comes in\<close>

datatype scalar = Null | Boolean bool | Number int | Str string | Other bool string

fun truthy :: "scalar \<Rightarrow> bool" where
  "truthy Null = False"
| "truthy (Boolean b) = b"
| "truthy (Number n) = (n \<noteq> 0)"
| "truthy (Str s) = (s \<noteq> [])"
| "truthy (Other b _) = b"

text \<open>\<open>str(value)\<close>.\<close>

fun py_str :: "scalar \<Rightarrow> string" where
  "py_str Null = ''None''"
| "py_str (Boolean b) = (if b then ''True'' else ''False'')"
| "py_str (Number n) = (if n < 0 then CHR ''-'' # str_of_nat (nat (- n)) else str_of_nat (nat n))"
| "py_str (Str s) = s"
| "py_str (Other _ s) = s"

record raw_rule =
  rr_group :: "scalar option"
  rr_action :: "scalar option"
  rr_protocol :: "scalar option"
  rr_port :: "scalar option"
  rr_source :: "scalar option"
  rr_comment :: "scalar option"
  rr_enabled :: "scalar option"

text \<open>\<open>None\<close>: an element that is not an object.\<close>

record raw_group =
  rg_name :: "scalar option"
  rg_comment :: "scalar option"
  rg_rules :: "raw_rule option list"

record raw_ipset =
  ri_name :: "scalar option"
  ri_comment :: "scalar option"
  ri_cidrs :: "scalar list"

record raw_doc =
  rd_enabled :: "scalar option"
  rd_policy :: "scalar option"
  rd_rules :: "raw_rule option list"
  rd_nodes :: "(string \<times> raw_rule option list) list"
  rd_groups :: "raw_group option list"
  rd_ipsets :: "raw_ipset option list"

section \<open>The checked document\<close>

datatype fw_action = Accept | Drop | Reject

datatype protocol = Tcp | Udp | Icmp | All

datatype source = Any | Ip_set string | Net ip_net

record plain_rule =
  pr_action :: fw_action
  pr_protocol :: protocol
  pr_port :: "string option"
  pr_source :: source
  pr_comment :: string
  pr_enabled :: bool

datatype fw_rule = Group_rule string bool | Plain plain_rule

record fw_group =
  fg_name :: string
  fg_comment :: string
  fg_rules :: "plain_rule list"

record fw_ipset =
  fi_name :: string
  fi_comment :: string
  fi_cidrs :: "ip_net list"

record fw_doc =
  fd_enabled :: bool
  fd_policy :: fw_action
  fd_rules :: "fw_rule list"
  fd_nodes :: "(string, fw_rule list) dict"
  fd_groups :: "fw_group list"
  fd_ipsets :: "fw_ipset list"

datatype fw_error =
    Bad_port string
  | Bad_port_range string
  | No_such_ipset string
  | Bad_source
  | Not_an_object
  | Group_in_group
  | No_such_group
  | Bad_action
  | Bad_protocol
  | Port_without_protocol
  | Bad_ipset_name
  | Bad_cidr
  | Bad_group_name
  | Bad_node_name string
  | Too_many_rules
  | Bad_policy

definition MAX_RULES :: nat where
  "MAX_RULES = 200"

section \<open>The checks\<close>

text \<open>\<open>NAME\<close>, \<open>PORTS\<close> and the node names' pattern; a \<open>$\<close> lets one newline at the end pass.\<close>

definition name_form :: "string \<Rightarrow> bool" where
  "name_form s \<longleftrightarrow> s \<noteq> [] \<and> length s \<le> 32 \<and> (is_lower (hd s) \<or> is_upper (hd s))
     \<and> list_all (\<lambda>c. is_alnum c \<or> c = CHR ''_'' \<or> c = CHR ''-'') s"

definition NAME :: "string \<Rightarrow> bool" where
  "NAME s \<longleftrightarrow> re_dollar name_form s"

definition number_form :: "string \<Rightarrow> bool" where
  "number_form s \<longleftrightarrow> str_isdigit s \<and> length s \<le> 5"

definition ports_form :: "string \<Rightarrow> bool" where
  "ports_form s \<longleftrightarrow> (let parts = split_on (CHR '','') s in length parts \<le> 16
     \<and> list_all (\<lambda>p. let bounds = split_on (CHR ''-'') p in length bounds \<le> 2 \<and> list_all number_form bounds) parts)"

definition PORTS :: "string \<Rightarrow> bool" where
  "PORTS s \<longleftrightarrow> re_dollar ports_form s"

definition node_form :: "string \<Rightarrow> bool" where
  "node_form s \<longleftrightarrow> s \<noteq> [] \<and> length s \<le> 63 \<and> is_alnum (hd s) \<and> list_all (\<lambda>c. is_alnum c \<or> c = CHR ''.'' \<or> c = CHR ''-'') s"

text \<open>\<open>[int(p) for p in part.split("-")]\<close>; the pattern makes every \<open>int\<close> succeed.\<close>

definition port_bounds :: "string \<Rightarrow> int list" where
  "port_bounds part = map (\<lambda>p. case int_of_text p of Some n \<Rightarrow> n | None \<Rightarrow> 0) (split_on (CHR ''-'') part)"

definition port_range_ok :: "string \<Rightarrow> bool" where
  "port_range_ok part \<longleftrightarrow> (let bounds = port_bounds part in
     list_all (\<lambda>b. 1 \<le> b \<and> b \<le> 65535) bounds \<and> \<not> (length bounds = 2 \<and> bounds ! 0 > bounds ! 1))"

definition check_ports :: "scalar option \<Rightarrow> fw_error + string option" where
  "check_ports value =
     (if value = None \<or> value = Some Null \<or> value = Some (Str []) then Inr None
      else let v = filter (\<lambda>c. c \<noteq> CHR '' '') (py_str (the value)) in
        if \<not> PORTS v then Inl (Bad_port v)
        else case find (\<lambda>part. \<not> port_range_ok part) (split_on (CHR '','') v) of
            Some part \<Rightarrow> Inl (Bad_port_range part)
          | None \<Rightarrow> Inr (Some v))"

text \<open>\<open>ip_network\<close> of a value: a number is an address; an address past 32 bits, or one of another version, is refused.\<close>

definition network_of :: "scalar \<Rightarrow> ip_net option" where
  "network_of value = (case value of
       Str s \<Rightarrow> ip_network4 s
     | Number n \<Rightarrow> if 0 \<le> n \<and> n < 2 ^ 32 then Some (nat n, 32) else None
     | Boolean b \<Rightarrow> Some (if b then 1 else 0, 32)
     | _ \<Rightarrow> None)"

definition check_source :: "scalar option \<Rightarrow> string list \<Rightarrow> fw_error + source" where
  "check_source value ipsets =
     (if value = None \<or> value = Some Null \<or> value = Some (Str []) \<or> value = Some (Str ''any'') then Inr Any
      else case the value of
          Str (c # name) \<Rightarrow>
            if c = CHR ''+'' then (if name \<in> set ipsets then Inr (Ip_set name) else Inl (No_such_ipset name))
            else (case network_of (the value) of Some net \<Rightarrow> Inr (Net net) | None \<Rightarrow> Inl Bad_source)
        | v \<Rightarrow> (case network_of v of Some net \<Rightarrow> Inr (Net net) | None \<Rightarrow> Inl Bad_source))"

text \<open>\<open>str(x or "")[:120]\<close>.\<close>

definition comment_of :: "scalar option \<Rightarrow> string" where
  "comment_of c = (case c of None \<Rightarrow> [] | Some v \<Rightarrow> if truthy v then take 120 (py_str v) else [])"

definition action_of :: "scalar option \<Rightarrow> fw_action option" where
  "action_of v = (if v = Some (Str ''accept'') then Some Accept else if v = Some (Str ''drop'') then Some Drop
     else if v = Some (Str ''reject'') then Some Reject else None)"

definition protocol_of :: "scalar option \<Rightarrow> protocol option" where
  "protocol_of v = (if v = None \<or> v = Some (Str ''all'') then Some All else if v = Some (Str ''tcp'') then Some Tcp
     else if v = Some (Str ''udp'') then Some Udp else if v = Some (Str ''icmp'') then Some Icmp else None)"

definition is_enabled :: "raw_rule \<Rightarrow> bool" where
  "is_enabled r \<longleftrightarrow> rr_enabled r \<noteq> Some (Boolean False)"

definition check_plain :: "raw_rule \<Rightarrow> string list \<Rightarrow> fw_error + plain_rule" where
  "check_plain r ipsets =
     rbind (some_or Bad_action (action_of (rr_action r))) (\<lambda>action.
     rbind (some_or Bad_protocol (protocol_of (rr_protocol r))) (\<lambda>protocol.
     rbind (check_ports (rr_port r)) (\<lambda>port.
     rbind (require (port = None \<or> port = Some [] \<or> protocol = Tcp \<or> protocol = Udp) Port_without_protocol) (\<lambda>_.
     rbind (check_source (rr_source r) ipsets) (\<lambda>src.
       Inr \<lparr>pr_action = action, pr_protocol = protocol, pr_port = port, pr_source = src, pr_comment = comment_of (rr_comment r),
         pr_enabled = is_enabled r\<rparr>)))))"

text \<open>\<open>_rule\<close>, of a security group and elsewhere.\<close>

definition check_group_rule :: "raw_rule option \<Rightarrow> string list \<Rightarrow> fw_error + plain_rule" where
  "check_group_rule rule ipsets = (case rule of
       None \<Rightarrow> Inl Not_an_object
     | Some r \<Rightarrow> if rr_group r \<noteq> None then Inl Group_in_group else check_plain r ipsets)"

definition check_rule :: "raw_rule option \<Rightarrow> string list \<Rightarrow> string list \<Rightarrow> fw_error + fw_rule" where
  "check_rule rule ipsets groups = (case rule of
       None \<Rightarrow> Inl Not_an_object
     | Some r \<Rightarrow> (case rr_group r of
          Some (Str g) \<Rightarrow> if g \<in> set groups then Inr (Group_rule g (is_enabled r)) else Inl No_such_group
        | Some _ \<Rightarrow> Inl No_such_group
        | None \<Rightarrow> rbind (check_plain r ipsets) (\<lambda>p. Inr (Plain p))))"

fun each :: "('a \<Rightarrow> 'e + 'b) \<Rightarrow> 'a list \<Rightarrow> 'e + 'b list" where
  "each f [] = Inr []"
| "each f (x # xs) = rbind (f x) (\<lambda>y. rbind (each f xs) (\<lambda>ys. Inr (y # ys)))"

text \<open>A free name: a string of the right form, not taken by an earlier one.\<close>

definition free_name :: "scalar option \<Rightarrow> string list \<Rightarrow> string option" where
  "free_name v taken = (case v of Some (Str s) \<Rightarrow> if NAME s \<and> s \<notin> set taken then Some s else None | _ \<Rightarrow> None)"

definition check_cidr :: "scalar \<Rightarrow> fw_error + ip_net" where
  "check_cidr c = rbind (check_source (Some c) []) (\<lambda>s. case s of Net net \<Rightarrow> Inr net | _ \<Rightarrow> Inl Bad_cidr)"

text \<open>\<open>sorted(set(cidrs))\<close>: by their text.\<close>

definition sorted_nets :: "ip_net list \<Rightarrow> ip_net list" where
  "sorted_nets nets = sort_key net_text (dedup nets)"

fun check_ipsets :: "raw_ipset option list \<Rightarrow> string list \<Rightarrow> fw_error + fw_ipset list" where
  "check_ipsets [] taken = Inr []"
| "check_ipsets (s # ss) taken = (case s of
     None \<Rightarrow> Inl Bad_ipset_name
   | Some r \<Rightarrow>
       rbind (some_or Bad_ipset_name (free_name (ri_name r) taken)) (\<lambda>name.
       rbind (each check_cidr (ri_cidrs r)) (\<lambda>nets.
       rbind (check_ipsets ss (taken @ [name])) (\<lambda>rest.
         Inr (\<lparr>fi_name = name, fi_comment = comment_of (ri_comment r), fi_cidrs = sorted_nets nets\<rparr> # rest)))))"

fun check_group_names :: "raw_group option list \<Rightarrow> string list \<Rightarrow> fw_error + string list" where
  "check_group_names [] taken = Inr taken"
| "check_group_names (g # gs) taken = (case g of
     None \<Rightarrow> Inl Bad_group_name
   | Some r \<Rightarrow> rbind (some_or Bad_group_name (free_name (rg_name r) taken)) (\<lambda>name. check_group_names gs (taken @ [name])))"

definition check_group :: "string list \<Rightarrow> raw_group option \<Rightarrow> fw_error + fw_group" where
  "check_group ipsets g = (case g of
     None \<Rightarrow> Inl Bad_group_name
   | Some r \<Rightarrow> rbind (each (\<lambda>x. check_group_rule x ipsets) (rg_rules r)) (\<lambda>rules.
       Inr \<lparr>fg_name = (case rg_name r of Some (Str s) \<Rightarrow> s | _ \<Rightarrow> []), fg_comment = comment_of (rg_comment r), fg_rules = rules\<rparr>))"

text \<open>A node without rules is left out.\<close>

fun check_nodes :: "(string \<times> raw_rule option list) list \<Rightarrow> string list \<Rightarrow> string list \<Rightarrow> fw_error + (string, fw_rule list) dict" where
  "check_nodes [] ipsets groups = Inr []"
| "check_nodes ((node, conf) # ns) ipsets groups =
     (if \<not> re_dollar node_form node then Inl (Bad_node_name node)
      else rbind (each (\<lambda>x. check_rule x ipsets groups) conf) (\<lambda>rules.
           rbind (check_nodes ns ipsets groups) (\<lambda>rest. Inr (if rules = [] then rest else (node, rules) # rest))))"

definition rule_count :: "fw_rule list \<Rightarrow> (string, fw_rule list) dict \<Rightarrow> fw_group list \<Rightarrow> nat" where
  "rule_count rules nodes groups =
     length rules + sum_list (map (\<lambda>(_, rs). length rs) nodes) + sum_list (map (\<lambda>g. length (fg_rules g)) groups)"

definition policy_of :: "scalar option \<Rightarrow> fw_action option" where
  "policy_of v = (if v = None \<or> v = Some (Str ''drop'') then Some Drop else if v = Some (Str ''accept'') then Some Accept else None)"

text \<open>\<open>normalize\<close>; \<open>None\<close> is a document that is not an object.\<close>

definition normalize :: "raw_doc option \<Rightarrow> fw_error + fw_doc" where
  "normalize doc = (case doc of
     None \<Rightarrow> Inl Not_an_object
   | Some d \<Rightarrow>
       rbind (check_ipsets (rd_ipsets d) []) (\<lambda>ipsets.
       rbind (check_group_names (rd_groups d) []) (\<lambda>group_names.
       let names = map fi_name ipsets in
       rbind (each (check_group names) (rd_groups d)) (\<lambda>groups.
       rbind (each (\<lambda>x. check_rule x names group_names) (rd_rules d)) (\<lambda>rules.
       rbind (check_nodes (rd_nodes d) names group_names) (\<lambda>nodes.
       rbind (require (rule_count rules nodes groups \<le> MAX_RULES) Too_many_rules) (\<lambda>_.
       rbind (some_or Bad_policy (policy_of (rd_policy d))) (\<lambda>policy.
         Inr \<lparr>fd_enabled = (rd_enabled d = Some (Boolean True)), fd_policy = policy, fd_rules = rules, fd_nodes = nodes,
           fd_groups = groups, fd_ipsets = ipsets\<rparr>))))))))"

section \<open>Where a name is used\<close>

definition refers_plain :: "string \<Rightarrow> plain_rule \<Rightarrow> bool" where
  "refers_plain name p \<longleftrightarrow> pr_source p = Ip_set name"

definition refers :: "bool \<Rightarrow> string \<Rightarrow> fw_rule \<Rightarrow> bool" where
  "refers of_group name r = (case r of Group_rule g _ \<Rightarrow> of_group \<and> g = name | Plain p \<Rightarrow> \<not> of_group \<and> refers_plain name p)"

datatype place = In_cluster | In_node string | In_group string

definition used :: "fw_doc \<Rightarrow> string \<Rightarrow> bool \<Rightarrow> place list" where
  "used doc name of_group =
     (if list_ex (refers of_group name) (fd_rules doc) then [In_cluster] else [])
     @ map (\<lambda>(node, _). In_node node) (filter (\<lambda>(_, rs). list_ex (refers of_group name) rs) (fd_nodes doc))
     @ (if of_group then [] else map (\<lambda>g. In_group (fg_name g)) (filter (\<lambda>g. list_ex (refers_plain name) (fg_rules g)) (fd_groups doc)))"

section \<open>The rules in order\<close>

text \<open>\<open>by_name[...]\<close>: a dictionary built from the groups, where a later one replaces an earlier one of its name; a missing name
  raises, which a checked document never does.\<close>

definition group_rules :: "fw_group list \<Rightarrow> string \<Rightarrow> plain_rule list" where
  "group_rules groups name = (case map_of (dict_of (map (\<lambda>g. (fg_name g, fg_rules g)) groups)) name of Some rs \<Rightarrow> rs | None \<Rightarrow> [])"

fun expand :: "fw_rule list \<Rightarrow> fw_group list \<Rightarrow> plain_rule list" where
  "expand [] groups = []"
| "expand (Group_rule g enabled # rs) groups =
     (if enabled then filter pr_enabled (group_rules groups g) else []) @ expand rs groups"
| "expand (Plain p # rs) groups = (if pr_enabled p then [p] else []) @ expand rs groups"

section \<open>The nftables script\<close>

abbreviation quote :: char where "quote \<equiv> CHR 0x22"

definition quoted :: "string \<Rightarrow> string" where
  "quoted s = quote # s @ [quote]"

definition TABLE :: string where
  "TABLE = ''hyperlite''"

definition set_name :: "string \<Rightarrow> string" where
  "set_name ipset = ''ipset_'' @ ipset"

text \<open>The characters \<open>re.sub\<close> keeps of a comment.\<close>

definition comment_char :: "char \<Rightarrow> bool" where
  "comment_char c \<longleftrightarrow> is_alnum c \<or> c \<in> set ''_ .,:()/+-'' \<or> c = CHR 0x27"

definition comma_space :: "string \<Rightarrow> string" where
  "comma_space s = concat (map (\<lambda>c. if c = CHR '','' then '', '' else [c]) s)"

definition proto_text :: "protocol \<Rightarrow> string" where
  "proto_text p = (case p of Tcp \<Rightarrow> ''tcp'' | Udp \<Rightarrow> ''udp'' | Icmp \<Rightarrow> ''icmp'' | All \<Rightarrow> ''all'')"

definition action_text :: "fw_action \<Rightarrow> string" where
  "action_text a = (case a of Accept \<Rightarrow> ''accept'' | Drop \<Rightarrow> ''drop'' | Reject \<Rightarrow> ''reject'')"

definition source_words :: "plain_rule \<Rightarrow> string list" where
  "source_words r = (case pr_source r of Any \<Rightarrow> [] | Ip_set name \<Rightarrow> [''ip saddr @'' @ set_name name]
     | Net net \<Rightarrow> [''ip saddr '' @ net_text net])"

definition proto_words :: "plain_rule \<Rightarrow> string list" where
  "proto_words r = (case pr_protocol r of
       All \<Rightarrow> []
     | Icmp \<Rightarrow> [''meta l4proto icmp'']
     | p \<Rightarrow> (case pr_port r of
          Some (c # cs) \<Rightarrow> [proto_text p @ '' dport { '' @ comma_space (c # cs) @ '' }'']
        | _ \<Rightarrow> [''meta l4proto '' @ proto_text p]))"

definition verdict_word :: "plain_rule \<Rightarrow> string" where
  "verdict_word r =
     (let comment = take 120 (filter comment_char (pr_comment r)) in
      if comment = [] then action_text (pr_action r) else action_text (pr_action r) @ '' comment '' @ quoted comment)"

definition nft_rule :: "plain_rule \<Rightarrow> string" where
  "nft_rule r = join_with CHR '' '' (source_words r @ proto_words r @ [verdict_word r])"

definition elements :: "string list \<Rightarrow> string" where
  "elements xs = (if xs = [] then [] else '' elements = { '' @ concat (map (\<lambda>x. x @ '', '') (butlast xs)) @ last xs @ '' }'')"

definition own_rules :: "fw_doc \<Rightarrow> string \<Rightarrow> fw_rule list" where
  "own_rules doc node = (case map_of (fd_nodes doc) node of Some rs \<Rightarrow> rs | None \<Rightarrow> [])"

text \<open>The rules of the input chain in their order: the pinned ones, then the administrator's.\<close>

datatype chain_rule =
    Pin_loopback
  | Pin_established
  | Drop_invalid
  | Pin_icmpv6
  | Pin_members
  | Pin_vm_udp "string list"
  | Pin_vm_tcp "string list"
  | Rule plain_rule

definition chain :: "fw_doc \<Rightarrow> string \<Rightarrow> string list \<Rightarrow> chain_rule list" where
  "chain doc node vm_bridges =
     [Pin_loopback, Pin_established, Drop_invalid, Pin_icmpv6, Pin_members]
     @ (if vm_bridges = [] then [] else [Pin_vm_udp (sort (dedup vm_bridges)), Pin_vm_tcp (sort (dedup vm_bridges))])
     @ map Rule (expand (fd_rules doc @ own_rules doc node) (fd_groups doc))"

definition bridge_names :: "string list \<Rightarrow> string" where
  "bridge_names bs = concat (map (\<lambda>b. quoted b @ '', '') (butlast bs)) @ quoted (last bs)"

definition chain_line :: "chain_rule \<Rightarrow> string" where
  "chain_line r = (case r of
       Pin_loopback \<Rightarrow> ''    iif '' @ quoted ''lo'' @ '' accept comment '' @ quoted ''pinned: loopback''
     | Pin_established \<Rightarrow> ''    ct state established,related accept comment '' @ quoted ''pinned: established connections''
     | Drop_invalid \<Rightarrow> ''    ct state invalid drop''
     | Pin_icmpv6 \<Rightarrow> ''    meta l4proto ipv6-icmp accept comment '' @ quoted ''pinned: IPv6 needs ICMPv6''
     | Pin_members \<Rightarrow> ''    ip saddr @members accept comment '' @ quoted (''pinned: the cluster'' @ [CHR 0x27] @ ''s members'')
     | Pin_vm_udp bs \<Rightarrow> ''    iifname { '' @ bridge_names bs @ '' } udp dport { 53, 67 } accept comment '' @ quoted ''pinned: DHCP and DNS for the VMs''
     | Pin_vm_tcp bs \<Rightarrow> ''    iifname { '' @ bridge_names bs @ '' } tcp dport 53 accept comment '' @ quoted ''pinned: DNS for the VMs''
     | Rule p \<Rightarrow> ''    '' @ nft_rule p)"

definition render_lines :: "fw_doc \<Rightarrow> string \<Rightarrow> string list \<Rightarrow> string list \<Rightarrow> string list" where
  "render_lines doc node members vm_bridges =
     [''table inet '' @ TABLE @ '' {}'', ''delete table inet '' @ TABLE]
     @ (if \<not> fd_enabled doc then []
        else [''table inet '' @ TABLE @ '' {'']
          @ map (\<lambda>s. ''  set '' @ set_name (fi_name s) @ '' { type ipv4_addr; flags interval;''
                   @ elements (map net_text (fi_cidrs s)) @ '' }'') (fd_ipsets doc)
          @ [''  set members { type ipv4_addr; flags interval;'' @ elements (sort (dedup members)) @ '' }'',
             ''  chain input {'',
             ''    type filter hook input priority filter; policy '' @ action_text (fd_policy doc) @ '';'']
          @ map chain_line (chain doc node vm_bridges)
          @ [''  }'', ''}''])"

definition render :: "fw_doc \<Rightarrow> string \<Rightarrow> string list \<Rightarrow> string list \<Rightarrow> string" where
  "render doc node members vm_bridges = join_with newline (render_lines doc node members vm_bridges) @ [newline]"

section \<open>A group's rules for the VMs and the networks\<close>

record expanded =
  ex_action :: fw_action
  ex_protocol :: protocol
  ex_net :: "ip_net option"
  ex_ports :: "(int \<times> int) option"

definition sources :: "plain_rule \<Rightarrow> (string, ip_net list) dict \<Rightarrow> ip_net option list" where
  "sources r ipsets = (case pr_source r of
       Any \<Rightarrow> [None]
     | Ip_set name \<Rightarrow> (case map_of ipsets name of Some nets \<Rightarrow> map Some nets | None \<Rightarrow> [])
     | Net net \<Rightarrow> [Some net])"

definition port_pair :: "string \<Rightarrow> int \<times> int" where
  "port_pair part = (let bounds = port_bounds part @ port_bounds part in (bounds ! 0, bounds ! 1))"

definition port_parts :: "plain_rule \<Rightarrow> (int \<times> int) option list" where
  "port_parts r = (if pr_port r = None \<or> pr_port r = Some [] \<or> (pr_protocol r \<noteq> Tcp \<and> pr_protocol r \<noteq> Udp) then [None]
     else map (\<lambda>part. Some (port_pair part)) (split_on (CHR '','') (the (pr_port r))))"

definition expand_rule :: "(string, ip_net list) dict \<Rightarrow> plain_rule \<Rightarrow> expanded list" where
  "expand_rule ipsets r = (if \<not> pr_enabled r then []
     else concat (map (\<lambda>net. map (\<lambda>ports. \<lparr>ex_action = pr_action r, ex_protocol = pr_protocol r, ex_net = net, ex_ports = ports\<rparr>)
       (port_parts r)) (sources r ipsets)))"

definition expand_group :: "fw_doc \<Rightarrow> string \<Rightarrow> expanded list" where
  "expand_group doc name =
     (let ipsets = dict_of (map (\<lambda>s. (fi_name s, fi_cidrs s)) (fd_ipsets doc)) in
      case find (\<lambda>g. fg_name g = name) (fd_groups doc) of
        None \<Rightarrow> []
      | Some g \<Rightarrow> concat (map (expand_rule ipsets) (fg_rules g)))"

text \<open>The rules of a group's nwfilter (\<open>group_filter_xml\<close>), with their priorities.\<close>

definition GROUP_PRIORITY :: nat where "GROUP_PRIORITY = 100"
definition GROUP_MAX_EXPANDED :: nat where "GROUP_MAX_EXPANDED = 199"

definition group_filter_rules :: "fw_doc \<Rightarrow> string \<Rightarrow> (nat \<times> expanded) list" where
  "group_filter_rules doc name =
     (let rs = take GROUP_MAX_EXPANDED (expand_group doc name) in zip (map (\<lambda>i. GROUP_PRIORITY + i) [0..<length rs]) rs)"

definition upper_action :: "fw_action \<Rightarrow> string" where
  "upper_action a = (case a of Accept \<Rightarrow> ''ACCEPT'' | Drop \<Rightarrow> ''DROP'' | Reject \<Rightarrow> ''REJECT'')"

definition iptables_spec :: "string \<Rightarrow> expanded \<Rightarrow> string list" where
  "iptables_spec bridge r =
     [''-o'', bridge]
     @ (case ex_net r of None \<Rightarrow> [] | Some net \<Rightarrow> [''-s'', net_text net])
     @ (if ex_protocol r = All then [] else [''-p'', proto_text (ex_protocol r)])
     @ (case ex_ports r of None \<Rightarrow> []
        | Some (a, b) \<Rightarrow> [''--dport'', if a = b then str_of_nat (nat a) else str_of_nat (nat a) @ CHR '':'' # str_of_nat (nat b)])
     @ [''-j'', upper_action (ex_action r)]"

definition group_iptables_specs :: "fw_doc \<Rightarrow> string \<Rightarrow> string \<Rightarrow> string list list" where
  "group_iptables_specs doc name bridge = map (iptables_spec bridge) (expand_group doc name)"

definition unknown_groups :: "fw_doc \<Rightarrow> string list \<Rightarrow> string list" where
  "unknown_groups doc names = filter (\<lambda>n. n \<notin> set (map fg_name (fd_groups doc))) names"

end
