(* ===== verification/Firewall_Props.thy ===== *)
theory Firewall_Props
  imports Firewall_Doc
begin

text \<open>
  What a checked firewall document is (\<open>doc_ok\<close>), that \<open>normalize\<close> gives nothing else and reads such a document back
  unchanged, what the pinned rules let in whatever the document says, and that an unused group can go.
\<close>

section \<open>Checked documents\<close>

definition port_ok :: "string \<Rightarrow> bool" where
  "port_ok v \<longleftrightarrow> CHR '' '' \<notin> set v \<and> PORTS v \<and> list_all port_range_ok (split_on (CHR '','') v)"

definition source_ok :: "string list \<Rightarrow> source \<Rightarrow> bool" where
  "source_ok ipsets s = (case s of Any \<Rightarrow> True | Ip_set n \<Rightarrow> n \<in> set ipsets | Net net \<Rightarrow> net_ok net)"

definition plain_ok :: "string list \<Rightarrow> plain_rule \<Rightarrow> bool" where
  "plain_ok ipsets p \<longleftrightarrow> (case pr_port p of None \<Rightarrow> True | Some v \<Rightarrow> port_ok v \<and> (pr_protocol p = Tcp \<or> pr_protocol p = Udp))
     \<and> source_ok ipsets (pr_source p) \<and> length (pr_comment p) \<le> 120"

definition rule_ok :: "string list \<Rightarrow> string list \<Rightarrow> fw_rule \<Rightarrow> bool" where
  "rule_ok ipsets groups r = (case r of Group_rule g _ \<Rightarrow> g \<in> set groups | Plain p \<Rightarrow> plain_ok ipsets p)"

definition ipset_ok :: "fw_ipset \<Rightarrow> bool" where
  "ipset_ok s \<longleftrightarrow> NAME (fi_name s) \<and> length (fi_comment s) \<le> 120 \<and> list_all net_ok (fi_cidrs s) \<and> distinct (fi_cidrs s)
     \<and> sorted (map net_text (fi_cidrs s))"

definition group_ok :: "string list \<Rightarrow> fw_group \<Rightarrow> bool" where
  "group_ok ipsets g \<longleftrightarrow> NAME (fg_name g) \<and> length (fg_comment g) \<le> 120 \<and> list_all (plain_ok ipsets) (fg_rules g)"

definition doc_ok :: "fw_doc \<Rightarrow> bool" where
  "doc_ok d \<longleftrightarrow> (let ipsets = map fi_name (fd_ipsets d); groups = map fg_name (fd_groups d) in
     distinct ipsets \<and> distinct groups \<and> list_all ipset_ok (fd_ipsets d) \<and> list_all (group_ok ipsets) (fd_groups d)
     \<and> list_all (rule_ok ipsets groups) (fd_rules d)
     \<and> list_all (\<lambda>(node, rs). re_dollar node_form node \<and> rs \<noteq> [] \<and> list_all (rule_ok ipsets groups) rs) (fd_nodes d)
     \<and> rule_count (fd_rules d) (fd_nodes d) (fd_groups d) \<le> MAX_RULES \<and> fd_policy d \<in> {Accept, Drop})"

section \<open>What normalize gives\<close>

lemma each_list_all: "each f xs = Inr ys \<Longrightarrow> (\<And>x y. f x = Inr y \<Longrightarrow> P y) \<Longrightarrow> list_all P ys"
  by (induction xs arbitrary: ys) (auto simp: py_simps)

lemma length_each: "each f xs = Inr ys \<Longrightarrow> length ys = length xs"
  by (induction xs arbitrary: ys) (auto simp: py_simps)

lemma check_ports_ok: "check_ports v = Inr (Some p) \<Longrightarrow> port_ok p"
  by (auto simp: check_ports_def port_ok_def Let_def find_None_iff list_all_iff split: if_splits option.splits)

lemma network_of_ok: "network_of v = Some net \<Longrightarrow> net_ok net"
  by (auto simp: network_of_def ip_network4_ok net_ok_def split: scalar.splits if_splits dest: ip_network4_ok)

lemma check_source_ok: "check_source v ipsets = Inr s \<Longrightarrow> source_ok ipsets s"
  by (auto simp: check_source_def source_ok_def dest: network_of_ok split: if_splits scalar.splits option.splits list.splits)

lemma length_comment_of: "length (comment_of c) \<le> 120"
  by (simp add: comment_of_def split: option.splits)

lemma PORTS_Nil: "\<not> PORTS []"
  by (simp add: PORTS_def re_dollar_def ports_form_def number_form_def str_isdigit_def)

lemma check_plain_ok:
  assumes "check_plain r ipsets = Inr p"
  shows "plain_ok ipsets p"
proof -
  obtain port where port: "check_ports (rr_port r) = Inr port" "pr_port p = port"
      "port = None \<or> port = Some [] \<or> pr_protocol p = Tcp \<or> pr_protocol p = Udp"
    using assms by (auto simp: check_plain_def py_simps)
  have "check_source (rr_source r) ipsets = Inr (pr_source p)" "pr_comment p = comment_of (rr_comment r)"
    using assms by (auto simp: check_plain_def py_simps)
  then show ?thesis
    using port check_ports_ok [of "rr_port r"] check_source_ok length_comment_of PORTS_Nil
    by (auto simp: plain_ok_def port_ok_def split: option.splits)
qed

lemma check_rule_ok: "check_rule x ipsets groups = Inr r \<Longrightarrow> rule_ok ipsets groups r"
  by (auto simp: check_rule_def rule_ok_def py_simps dest: check_plain_ok split: option.splits scalar.splits if_splits)

lemma check_group_rule_ok: "check_group_rule x ipsets = Inr p \<Longrightarrow> plain_ok ipsets p"
  by (auto simp: check_group_rule_def dest: check_plain_ok split: option.splits if_splits)

lemma sorted_nets_facts: "distinct (sorted_nets nets)" "sorted (map net_text (sorted_nets nets))" "set (sorted_nets nets) = set nets"
  by (simp_all add: sorted_nets_def)

lemma free_name_Some: "free_name v taken = Some s \<Longrightarrow> v = Some (Str s) \<and> NAME s \<and> s \<notin> set taken"
  by (auto simp: free_name_def split: option.splits scalar.splits if_splits)

lemma check_cidr_ok: "check_cidr c = Inr net \<Longrightarrow> net_ok net"
proof -
  assume "check_cidr c = Inr net"
  then obtain x where "check_source (Some c) [] = Inr x" "(case x of Net net \<Rightarrow> Inr net | _ \<Rightarrow> Inl Bad_cidr) = Inr net"
    by (auto simp: check_cidr_def py_simps)
  then show "net_ok net" using check_source_ok [of "Some c" "[]" x] by (cases x) (auto simp: source_ok_def)
qed

lemma check_ipsets_ok:
  "check_ipsets ss taken = Inr ys \<Longrightarrow> list_all ipset_ok ys \<and> distinct (map fi_name ys) \<and> set (map fi_name ys) \<inter> set taken = {}"
proof (induction ss arbitrary: taken ys)
  case (Cons s ss)
  then obtain r name nets rest where x: "s = Some r" "free_name (ri_name r) taken = Some name" "each check_cidr (ri_cidrs r) = Inr nets"
      "check_ipsets ss (taken @ [name]) = Inr rest"
      "ys = \<lparr>fi_name = name, fi_comment = comment_of (ri_comment r), fi_cidrs = sorted_nets nets\<rparr> # rest"
    by (auto simp: py_simps split: option.splits)
  have "list_all net_ok nets" using x(3) by (rule each_list_all) (rule check_cidr_ok)
  then show ?case
    using Cons.IH [OF x(4)] x free_name_Some [OF x(2)]
    by (auto simp: ipset_ok_def length_comment_of sorted_nets_facts list_all_iff)
qed simp

lemma check_group_names_ok:
  "check_group_names gs taken = Inr names \<Longrightarrow> distinct taken \<Longrightarrow>
     \<exists>ns. names = taken @ ns \<and> distinct names \<and> list_all NAME ns \<and> map (\<lambda>g. rg_name (the g)) gs = map (Some \<circ> Str) ns \<and> None \<notin> set gs"
proof (induction gs arbitrary: taken)
  case (Cons g gs)
  then obtain r name where x: "g = Some r" "free_name (rg_name r) taken = Some name" "check_group_names gs (taken @ [name]) = Inr names"
    by (auto simp: py_simps split: option.splits)
  obtain ns where "names = (taken @ [name]) @ ns" "distinct names" "list_all NAME ns"
      "map (\<lambda>g. rg_name (the g)) gs = map (Some \<circ> Str) ns" "None \<notin> set gs"
    using Cons.IH [OF x(3)] Cons.prems(2) free_name_Some [OF x(2)] by auto
  then show ?case using x free_name_Some [OF x(2)] by (intro exI [of _ "name # ns"]) auto
qed simp

lemma check_group_names_map:
  "each (check_group ipsets) gs = Inr groups \<Longrightarrow> map (\<lambda>g. rg_name (the g)) gs = map (Some \<circ> Str) ns \<Longrightarrow> None \<notin> set gs \<Longrightarrow>
     map fg_name groups = ns"
proof (induction gs arbitrary: groups ns)
  case (Cons g gs)
  then obtain r where "g = Some r" by (cases g) auto
  with Cons show ?case by (auto simp: py_simps check_group_def)
qed (simp)

lemma check_nodes_ok:
  "check_nodes ns ipsets groups = Inr nodes \<Longrightarrow>
     list_all (\<lambda>(node, rs). re_dollar node_form node \<and> rs \<noteq> [] \<and> list_all (rule_ok ipsets groups) rs) nodes"
proof (induction ns arbitrary: nodes)
  case (Cons n ns)
  obtain node conf where n: "n = (node, conf)" by (cases n)
  with Cons.prems obtain rules rest where x: "re_dollar node_form node" "each (\<lambda>x. check_rule x ipsets groups) conf = Inr rules"
      "check_nodes ns ipsets groups = Inr rest" "nodes = (if rules = [] then rest else (node, rules) # rest)"
    by (auto simp: py_simps split: if_splits)
  have "list_all (rule_ok ipsets groups) rules" using x(2) by (rule each_list_all) (rule check_rule_ok)
  then show ?case using Cons.IH [OF x(3)] x by auto
qed simp

lemma normalize_ok:
  assumes "normalize doc = Inr d"
  shows "doc_ok d"
proof -
  obtain r ipsets names groups rules nodes policy where x: "doc = Some r" "check_ipsets (rd_ipsets r) [] = Inr ipsets"
      "check_group_names (rd_groups r) [] = Inr names" "each (check_group (map fi_name ipsets)) (rd_groups r) = Inr groups"
      "each (\<lambda>x. check_rule x (map fi_name ipsets) names) (rd_rules r) = Inr rules"
      "check_nodes (rd_nodes r) (map fi_name ipsets) names = Inr nodes" "rule_count rules nodes groups \<le> MAX_RULES"
      "policy_of (rd_policy r) = Some policy"
      "d = \<lparr>fd_enabled = (rd_enabled r = Some (Boolean True)), fd_policy = policy, fd_rules = rules, fd_nodes = nodes,
           fd_groups = groups, fd_ipsets = ipsets\<rparr>"
    using assms by (auto simp: normalize_def py_simps Let_def split: option.splits)
  obtain ns where ns: "names = ns" "distinct names" "list_all NAME ns" "map (\<lambda>g. rg_name (the g)) (rd_groups r) = map (Some \<circ> Str) ns"
      "None \<notin> set (rd_groups r)"
    using check_group_names_ok [OF x(3)] by auto
  have names: "map fg_name groups = names" using check_group_names_map [OF x(4) ns(4,5)] ns(1) by simp
  have "list_all (\<lambda>g. length (fg_comment g) \<le> 120 \<and> list_all (plain_ok (map fi_name ipsets)) (fg_rules g)) groups"
    using x(4)
  proof (rule each_list_all)
    fix g y assume "check_group (map fi_name ipsets) g = Inr y"
    moreover from this obtain r' where "g = Some r'" by (cases g) (auto simp: check_group_def)
    ultimately have "each (\<lambda>x. check_group_rule x (map fi_name ipsets)) (rg_rules r') = Inr (fg_rules y)"
        "fg_comment y = comment_of (rg_comment r')"
      by (auto simp: check_group_def py_simps)
    then show "length (fg_comment y) \<le> 120 \<and> list_all (plain_ok (map fi_name ipsets)) (fg_rules y)"
      using each_list_all [OF _ check_group_rule_ok] length_comment_of by auto
  qed
  moreover have "list_all (\<lambda>g. NAME (fg_name g)) groups" using names ns(1,3) by (auto simp: list_all_iff)
  ultimately have "list_all (group_ok (map fi_name ipsets)) groups" by (auto simp: group_ok_def list_all_iff)
  moreover have "list_all (rule_ok (map fi_name ipsets) names) rules" using x(5) by (rule each_list_all) (rule check_rule_ok)
  moreover have "policy \<in> {Accept, Drop}" using x(8) by (auto simp: policy_of_def split: if_splits)
  ultimately show ?thesis
    using check_ipsets_ok [OF x(2)] check_nodes_ok [OF x(6)] ns(2) names x(7) by (simp add: doc_ok_def x(9))
qed

section \<open>Reading it back\<close>

text \<open>The document as it is saved.\<close>

definition source_text :: "source \<Rightarrow> string" where
  "source_text s = (case s of Any \<Rightarrow> ''any'' | Ip_set n \<Rightarrow> CHR ''+'' # n | Net net \<Rightarrow> net_text net)"

definition raw_plain :: "plain_rule \<Rightarrow> raw_rule" where
  "raw_plain p = \<lparr>rr_group = None, rr_action = Some (Str (action_text (pr_action p))), rr_protocol = Some (Str (proto_text (pr_protocol p))),
     rr_port = Some (case pr_port p of None \<Rightarrow> Null | Some v \<Rightarrow> Str v), rr_source = Some (Str (source_text (pr_source p))),
     rr_comment = Some (Str (pr_comment p)), rr_enabled = Some (Boolean (pr_enabled p))\<rparr>"

definition raw_rule_of :: "fw_rule \<Rightarrow> raw_rule" where
  "raw_rule_of r = (case r of
       Group_rule g enabled \<Rightarrow> \<lparr>rr_group = Some (Str g), rr_action = None, rr_protocol = None, rr_port = None, rr_source = None,
         rr_comment = None, rr_enabled = Some (Boolean enabled)\<rparr>
     | Plain p \<Rightarrow> raw_plain p)"

definition raw_of :: "fw_doc \<Rightarrow> raw_doc" where
  "raw_of d = \<lparr>rd_enabled = Some (Boolean (fd_enabled d)), rd_policy = Some (Str (action_text (fd_policy d))),
     rd_rules = map (\<lambda>r. Some (raw_rule_of r)) (fd_rules d), rd_nodes = map (\<lambda>(n, rs). (n, map (\<lambda>r. Some (raw_rule_of r)) rs)) (fd_nodes d),
     rd_groups = map (\<lambda>g. Some \<lparr>rg_name = Some (Str (fg_name g)), rg_comment = Some (Str (fg_comment g)),
       rg_rules = map (\<lambda>r. Some (raw_plain r)) (fg_rules g)\<rparr>) (fd_groups d),
     rd_ipsets = map (\<lambda>s. Some \<lparr>ri_name = Some (Str (fi_name s)), ri_comment = Some (Str (fi_comment s)),
       ri_cidrs = map (\<lambda>n. Str (net_text n)) (fi_cidrs s)\<rparr>) (fd_ipsets d)\<rparr>"

lemma each_map_Inr: "(\<And>x. x \<in> set xs \<Longrightarrow> f (g x) = Inr x) \<Longrightarrow> each f (map g xs) = Inr xs"
  by (induction xs) auto

lemma comment_of_Str: "length c \<le> 120 \<Longrightarrow> comment_of (Some (Str c)) = c"
  by (simp add: comment_of_def)

lemma net_text_digit: "\<exists>c cs. net_text net = c # cs \<and> is_digit c"
proof -
  obtain c cs where "str_of_nat (fst net div 16777216 mod 256) = c # cs"
    using str_of_nat_not_Nil by (cases "str_of_nat (fst net div 16777216 mod 256)") auto
  moreover have "list_all is_digit (str_of_nat (fst net div 16777216 mod 256))" by (rule digits_str_of_nat)
  ultimately show ?thesis by (simp add: net_text_def ipv4_text_def)
qed

lemma check_source_text:
  assumes "source_ok ipsets s"
  shows "check_source (Some (Str (source_text s))) ipsets = Inr s"
proof (cases s)
  case (Net net)
  obtain c cs where c: "net_text net = c # cs" "is_digit c" using net_text_digit by blast
  have "c \<noteq> CHR ''a''" "c \<noteq> CHR ''+''" using c(2) by (auto simp: is_digit_def less_eq_char_def)
  then show ?thesis
    using assms Net c net_text_reads_back [of net] by (auto simp: check_source_def source_text_def source_ok_def network_of_def)
qed (use assms in \<open>auto simp: check_source_def source_text_def source_ok_def\<close>)

lemma filter_no_space: "CHR '' '' \<notin> set v \<Longrightarrow> filter (\<lambda>c. c \<noteq> CHR '' '') v = v"
  by (induction v) auto

lemma check_ports_text:
  assumes "port_ok v"
  shows "check_ports (Some (Str v)) = Inr (Some v)"
proof -
  have "v \<noteq> []" using assms PORTS_Nil by (auto simp: port_ok_def)
  moreover have "find (\<lambda>part. \<not> port_range_ok part) (split_on (CHR '','') v) = None"
    using assms by (auto simp: port_ok_def find_None_iff list_all_iff)
  ultimately show ?thesis using assms by (simp add: check_ports_def Let_def port_ok_def filter_no_space)
qed

lemma check_plain_raw:
  assumes "plain_ok ipsets p"
  shows "check_plain (raw_plain p) ipsets = Inr p"
proof -
  have "action_of (Some (Str (action_text (pr_action p)))) = Some (pr_action p)" by (cases "pr_action p") (simp_all add: action_of_def action_text_def)
  moreover have "protocol_of (Some (Str (proto_text (pr_protocol p)))) = Some (pr_protocol p)"
    by (cases "pr_protocol p") (simp_all add: protocol_of_def proto_text_def)
  moreover have "check_ports (Some (case pr_port p of None \<Rightarrow> Null | Some v \<Rightarrow> Str v)) = Inr (pr_port p)"
    using assms by (cases "pr_port p") (simp_all add: plain_ok_def check_ports_text, simp add: check_ports_def)
  ultimately show ?thesis
    using assms check_source_text [of ipsets "pr_source p"]
    by (auto simp: check_plain_def raw_plain_def plain_ok_def comment_of_Str is_enabled_def require_def split: option.splits)
qed

lemma check_rule_raw: "rule_ok ipsets groups r \<Longrightarrow> check_rule (Some (raw_rule_of r)) ipsets groups = Inr r"
  using check_plain_raw by (cases r) (auto simp: check_rule_def raw_rule_of_def rule_ok_def is_enabled_def raw_plain_def)

lemma sort_key_sorted: "sorted (map f xs) \<Longrightarrow> sort_key f xs = xs"
  by (induction xs) (auto simp: insort_is_Cons)

lemma check_cidr_text: "net_ok net \<Longrightarrow> check_cidr (Str (net_text net)) = Inr net"
  using check_source_text [of "[]" "Net net"] by (simp add: check_cidr_def source_text_def source_ok_def)

lemma check_ipsets_raw:
  "list_all ipset_ok ss \<Longrightarrow> distinct (map fi_name ss) \<Longrightarrow> set (map fi_name ss) \<inter> set taken = {} \<Longrightarrow>
     check_ipsets (map (\<lambda>s. Some \<lparr>ri_name = Some (Str (fi_name s)), ri_comment = Some (Str (fi_comment s)),
       ri_cidrs = map (\<lambda>n. Str (net_text n)) (fi_cidrs s)\<rparr>) ss) taken = Inr ss"
proof (induction ss arbitrary: taken)
  case (Cons s ss)
  then have s: "NAME (fi_name s)" "length (fi_comment s) \<le> 120" "list_all net_ok (fi_cidrs s)" "distinct (fi_cidrs s)"
      "sorted (map net_text (fi_cidrs s))" "fi_name s \<notin> set taken"
    by (auto simp: ipset_ok_def)
  have "each check_cidr (map (\<lambda>n. Str (net_text n)) (fi_cidrs s)) = Inr (fi_cidrs s)"
    using s(3) by (intro each_map_Inr) (auto simp: check_cidr_text list_all_iff)
  moreover have "sorted_nets (fi_cidrs s) = fi_cidrs s" using s(4,5) by (simp add: sorted_nets_def sort_key_sorted)
  ultimately show ?case
    using Cons s by (simp add: free_name_def comment_of_Str)
qed simp

lemma check_group_names_raw:
  "list_all NAME (map fg_name gs) \<Longrightarrow> distinct (map fg_name gs) \<Longrightarrow> set (map fg_name gs) \<inter> set taken = {} \<Longrightarrow>
     check_group_names (map (\<lambda>g. Some \<lparr>rg_name = Some (Str (fg_name g)), rg_comment = c g, rg_rules = rs g\<rparr>) gs) taken
       = Inr (taken @ map fg_name gs)"
  by (induction gs arbitrary: taken) (auto simp: free_name_def)

lemma check_group_raw:
  "group_ok ipsets g \<Longrightarrow> check_group ipsets (Some \<lparr>rg_name = Some (Str (fg_name g)), rg_comment = Some (Str (fg_comment g)),
     rg_rules = map (\<lambda>r. Some (raw_plain r)) (fg_rules g)\<rparr>) = Inr g"
proof -
  assume g: "group_ok ipsets g"
  have "each (\<lambda>x. check_group_rule x ipsets) (map (\<lambda>r. Some (raw_plain r)) (fg_rules g)) = Inr (fg_rules g)"
    using g check_plain_raw by (intro each_map_Inr) (auto simp: group_ok_def list_all_iff check_group_rule_def raw_plain_def)
  then show ?thesis using g by (simp add: check_group_def group_ok_def comment_of_Str)
qed

lemma check_nodes_raw:
  "list_all (\<lambda>(node, rs). re_dollar node_form node \<and> rs \<noteq> [] \<and> list_all (rule_ok ipsets groups) rs) ns \<Longrightarrow>
     check_nodes (map (\<lambda>(n, rs). (n, map (\<lambda>r. Some (raw_rule_of r)) rs)) ns) ipsets groups = Inr ns"
proof (induction ns)
  case (Cons n ns)
  obtain node rs where n: "n = (node, rs)" by (cases n)
  have "each (\<lambda>x. check_rule x ipsets groups) (map (\<lambda>r. Some (raw_rule_of r)) rs) = Inr rs"
    using Cons.prems n check_rule_raw by (intro each_map_Inr) (auto simp: list_all_iff)
  then show ?case using Cons n by simp
qed simp

lemma raw_of_reads_back:
  assumes ok: "doc_ok d"
  shows "normalize (Some (raw_of d)) = Inr d"
proof -
  let ?ips = "map fi_name (fd_ipsets d)" and ?gs = "map fg_name (fd_groups d)"
  have "list_all NAME ?gs" using ok by (auto simp: doc_ok_def Let_def list_all_iff group_ok_def)
  then have names: "check_group_names (rd_groups (raw_of d)) [] = Inr ?gs"
    using ok check_group_names_raw [of "fd_groups d" "[]"] by (simp add: raw_of_def doc_ok_def Let_def)
  have ipsets: "check_ipsets (rd_ipsets (raw_of d)) [] = Inr (fd_ipsets d)"
    using ok check_ipsets_raw [of "fd_ipsets d" "[]"] by (simp add: raw_of_def doc_ok_def Let_def)
  have groups: "each (check_group ?ips) (rd_groups (raw_of d)) = Inr (fd_groups d)"
    unfolding raw_of_def raw_doc.simps using ok check_group_raw
    by (intro each_map_Inr) (auto simp: doc_ok_def Let_def list_all_iff)
  have rules: "each (\<lambda>x. check_rule x ?ips ?gs) (rd_rules (raw_of d)) = Inr (fd_rules d)"
    unfolding raw_of_def raw_doc.simps using ok check_rule_raw
    by (intro each_map_Inr) (auto simp: doc_ok_def Let_def list_all_iff)
  have nodes: "check_nodes (rd_nodes (raw_of d)) ?ips ?gs = Inr (fd_nodes d)"
    unfolding raw_of_def raw_doc.simps using ok check_nodes_raw by (simp add: doc_ok_def Let_def)
  have policy: "policy_of (rd_policy (raw_of d)) = Some (fd_policy d)" "rd_enabled (raw_of d) = Some (Boolean (fd_enabled d))"
    "rule_count (fd_rules d) (fd_nodes d) (fd_groups d) \<le> MAX_RULES"
    using ok by (auto simp: raw_of_def policy_of_def action_text_def doc_ok_def Let_def)
  show ?thesis
    using ok ipsets names groups rules nodes policy by (simp add: normalize_def Let_def)
qed

text \<open>C34: a firewall document that was accepted is well formed: every security group and IP set it names exists, names
  are distinct, ports lie between 1 and 65535, sources are networks with no host bits, and there are at most 200
  rules; and it reads back unchanged when it is saved and checked again, which is what every node does when it
  follows the saved document.\<close>

theorem accepted_document_reads_back:
  assumes "normalize doc = Inr d"
  shows "doc_ok d \<and> normalize (Some (raw_of d)) = Inr d"
  using normalize_ok [OF assms] raw_of_reads_back by blast

definition blank_rule :: raw_rule where
  "blank_rule = \<lparr>rr_group = None, rr_action = None, rr_protocol = None, rr_port = None, rr_source = None, rr_comment = None,
     rr_enabled = None\<rparr>"

definition sample_raw :: raw_doc where
  "sample_raw = \<lparr>rd_enabled = Some (Boolean True), rd_policy = None,
     rd_rules = [Some (blank_rule\<lparr>rr_action := Some (Str ''accept''), rr_protocol := Some (Str ''tcp''), rr_port := Some (Number 22)\<rparr>),
       Some (blank_rule\<lparr>rr_group := Some (Str ''web'')\<rparr>)],
     rd_nodes = [], rd_groups = [Some \<lparr>rg_name = Some (Str ''web''), rg_comment = None,
       rg_rules = [Some (blank_rule\<lparr>rr_action := Some (Str ''drop''), rr_source := Some (Str ''+lan'')\<rparr>)]\<rparr>],
     rd_ipsets = [Some \<lparr>ri_name = Some (Str ''lan''), ri_comment = Some (Str ''office''), ri_cidrs = []\<rparr>]\<rparr>"

definition sample_doc :: fw_doc where
  "sample_doc = \<lparr>fd_enabled = True, fd_policy = Drop,
     fd_rules = [Plain \<lparr>pr_action = Accept, pr_protocol = Tcp, pr_port = Some ''22'', pr_source = Any, pr_comment = [], pr_enabled = True\<rparr>,
       Group_rule ''web'' True],
     fd_nodes = [],
     fd_groups = [\<lparr>fg_name = ''web'', fg_comment = [], fg_rules = [\<lparr>pr_action = Drop, pr_protocol = All, pr_port = None,
       pr_source = Ip_set ''lan'', pr_comment = [], pr_enabled = True\<rparr>]\<rparr>],
     fd_ipsets = [\<lparr>fi_name = ''lan'', fi_comment = ''office'', fi_cidrs = []\<rparr>]\<rparr>"

lemma sample_normalized: "normalize (Some sample_raw) = Inr sample_doc"
  by code_simp

theorem accepted_document_reads_back_witness:
  "normalize (Some sample_raw) = Inr sample_doc \<and> normalize (Some (raw_of sample_doc)) = Inr sample_doc"
  using accepted_document_reads_back [OF sample_normalized] sample_normalized by simp

section \<open>What the chain does with a packet\<close>

text \<open>A reading of the input chain: the first rule that matches decides, the policy decides when none does.\<close>

datatype conn_state = New | Established | Invalid

record packet =
  pk_loopback :: bool
  pk_state :: conn_state
  pk_icmpv6 :: bool
  pk_source :: "nat option"
  pk_protocol :: protocol
  pk_port :: int
  pk_iif :: string

definition in_ports :: "int \<Rightarrow> string option \<Rightarrow> bool" where
  "in_ports n port = (case port of None \<Rightarrow> True | Some [] \<Rightarrow> True
     | Some v \<Rightarrow> list_ex (\<lambda>part. fst (port_pair part) \<le> n \<and> n \<le> snd (port_pair part)) (split_on (CHR '','') v))"

definition source_matches :: "(string, ip_net list) dict \<Rightarrow> source \<Rightarrow> nat option \<Rightarrow> bool" where
  "source_matches sets s a = (case s of
       Any \<Rightarrow> True
     | Net net \<Rightarrow> (case a of Some x \<Rightarrow> in_net x net | None \<Rightarrow> False)
     | Ip_set n \<Rightarrow> (case (a, map_of sets n) of (Some x, Some nets) \<Rightarrow> list_ex (in_net x) nets | _ \<Rightarrow> False))"

definition plain_matches :: "(string, ip_net list) dict \<Rightarrow> packet \<Rightarrow> plain_rule \<Rightarrow> bool" where
  "plain_matches sets k p \<longleftrightarrow> source_matches sets (pr_source p) (pk_source k)
     \<and> (pr_protocol p = All \<or> pr_protocol p = pk_protocol k)
     \<and> (pr_protocol p \<in> {Tcp, Udp} \<longrightarrow> in_ports (pk_port k) (pr_port p))"

fun chain_matches :: "string list \<Rightarrow> (string, ip_net list) dict \<Rightarrow> packet \<Rightarrow> chain_rule \<Rightarrow> bool" where
  "chain_matches members sets k Pin_loopback = pk_loopback k"
| "chain_matches members sets k Pin_established = (pk_state k = Established)"
| "chain_matches members sets k Drop_invalid = (pk_state k = Invalid)"
| "chain_matches members sets k Pin_icmpv6 = pk_icmpv6 k"
| "chain_matches members sets k Pin_members = (case pk_source k of Some a \<Rightarrow> ipv4_text a \<in> set members | None \<Rightarrow> False)"
| "chain_matches members sets k (Pin_vm_udp bs) = (pk_iif k \<in> set bs \<and> pk_protocol k = Udp \<and> pk_port k \<in> {53, 67})"
| "chain_matches members sets k (Pin_vm_tcp bs) = (pk_iif k \<in> set bs \<and> pk_protocol k = Tcp \<and> pk_port k = 53)"
| "chain_matches members sets k (Rule p) = plain_matches sets k p"

fun chain_action :: "chain_rule \<Rightarrow> fw_action" where
  "chain_action Drop_invalid = Drop"
| "chain_action (Rule p) = pr_action p"
| "chain_action _ = Accept"

definition chain_verdict :: "fw_doc \<Rightarrow> string \<Rightarrow> string list \<Rightarrow> string list \<Rightarrow> packet \<Rightarrow> fw_action" where
  "chain_verdict d node members vm_bridges k =
     (case find (chain_matches members (map (\<lambda>s. (fi_name s, fi_cidrs s)) (fd_ipsets d)) k) (chain d node vm_bridges) of
        Some r \<Rightarrow> chain_action r
      | None \<Rightarrow> fd_policy d)"

lemma find_map: "find P (map f xs) = map_option f (find (P \<circ> f) xs)"
  by (induction xs) auto

lemma find_append: "find P (xs @ ys) = (case find P xs of Some x \<Rightarrow> Some x | None \<Rightarrow> find P ys)"
  by (induction xs) auto

text \<open>Whatever the document says, the pinned rules come first: the loopback, established connections, ICMPv6 and
  every cluster member are let in (an invalid packet that is not of the loopback is dropped before that), so a saved document cannot
  cut the cluster apart; any other new packet from outside the VMs' bridges is decided by the first enabled rule
  that matches it, the cluster's first, then the node's, groups taken in place, and by the policy when none does.\<close>

theorem pinned_rules_come_first:
  "(pk_loopback k \<or> pk_state k = Established \<longrightarrow> chain_verdict d node members bridges k = Accept)
   \<and> (pk_state k = New \<and> (pk_icmpv6 k \<or> (\<exists>a. pk_source k = Some a \<and> ipv4_text a \<in> set members)) \<longrightarrow>
        chain_verdict d node members bridges k = Accept)
   \<and> (pk_state k = Invalid \<and> \<not> pk_loopback k \<longrightarrow> chain_verdict d node members bridges k = Drop)
   \<and> (pk_state k = New \<and> \<not> pk_loopback k \<and> \<not> pk_icmpv6 k \<and> (\<forall>a. pk_source k = Some a \<longrightarrow> ipv4_text a \<notin> set members)
        \<and> pk_iif k \<notin> set bridges \<longrightarrow>
        chain_verdict d node members bridges k =
          (case find (plain_matches (map (\<lambda>s. (fi_name s, fi_cidrs s)) (fd_ipsets d)) k)
              (expand (fd_rules d @ own_rules d node) (fd_groups d)) of
             Some p \<Rightarrow> pr_action p | None \<Rightarrow> fd_policy d))"
proof -
  let ?m = "chain_matches members (map (\<lambda>s. (fi_name s, fi_cidrs s)) (fd_ipsets d)) k"
  let ?pins = "if bridges = [] then [] else [Pin_vm_udp (sort (dedup bridges)), Pin_vm_tcp (sort (dedup bridges))]"
  have bridges: "find ?m ?pins = None" if "pk_iif k \<notin> set bridges" using that by simp
  have rules: "find ?m (map Rule ps) = map_option Rule (find (plain_matches (map (\<lambda>s. (fi_name s, fi_cidrs s)) (fd_ipsets d)) k) ps)" for ps
    by (simp add: find_map comp_def)
  show ?thesis
    using bridges by (cases "pk_source k")
      (auto simp: chain_verdict_def chain_def find_append rules split: option.splits)
qed

lemma digit_chars: "digit_char 0 = CHR ''0''" "digit_char (Suc 0) = CHR ''1''" "digit_char 1 = CHR ''1''" "digit_char 2 = CHR ''2''"
  by code_simp+

theorem pinned_rules_come_first_witness:
  "chain_verdict sample_doc ''n1'' [''10.0.0.2''] []
     \<lparr>pk_loopback = False, pk_state = New, pk_icmpv6 = False, pk_source = Some 167772162, pk_protocol = Tcp, pk_port = 443, pk_iif = ''eth0''\<rparr> = Accept"
proof -
  have "ipv4_text 167772162 = ''10.0.0.2''"
    by (simp add: ipv4_text_def str_of_nat.simps digit_chars)
  then show ?thesis
    using pinned_rules_come_first [of "\<lparr>pk_loopback = False, pk_state = New, pk_icmpv6 = False, pk_source = Some 167772162,
        pk_protocol = Tcp, pk_port = 443, pk_iif = ''eth0''\<rparr>" sample_doc "''n1''" "[''10.0.0.2'']" "[]"] by simp
qed

section \<open>Removing what nothing uses\<close>

lemma map_of_dict_of: "map_of (dict_of ps) k = map_of (rev ps) k"
proof (induction ps rule: rev_induct)
  case (snoc x ps)
  then show ?case by (cases x) (simp add: dict_of_snoc)
qed simp

lemma dict_of_without:
  assumes "k \<noteq> name"
  shows "map_of (dict_of (map (\<lambda>x. (f x, g x)) (filter (\<lambda>x. f x \<noteq> name) xs))) k = map_of (dict_of (map (\<lambda>x. (f x, g x)) xs)) k"
proof -
  have "rev (map (\<lambda>x. (f x, g x)) (filter (\<lambda>x. f x \<noteq> name) xs)) = filter (\<lambda>p. fst p \<noteq> name) (rev (map (\<lambda>x. (f x, g x)) xs))"
    by (simp add: filter_map comp_def rev_filter rev_map)
  then show ?thesis using assms by (simp add: map_of_dict_of map_of_filter_keys [of "\<lambda>k. k \<noteq> name"])
qed

lemma group_rules_without:
  "g \<noteq> name \<Longrightarrow> group_rules (filter (\<lambda>x. fg_name x \<noteq> name) groups) g = group_rules groups g"
  by (simp add: group_rules_def dict_of_without)

lemma expand_without:
  "\<not> list_ex (refers True name) rs \<Longrightarrow> expand rs (filter (\<lambda>x. fg_name x \<noteq> name) groups) = expand rs groups"
  by (induction rs groups rule: expand.induct) (auto simp: refers_def group_rules_without)

lemma map_of_list_ex: "map_of ns n = Some rs \<Longrightarrow> \<not> list_ex P ns \<Longrightarrow> \<not> P (n, rs)"
  by (auto simp: list_ex_iff dest: map_of_SomeD)

lemma unused_nodes:
  assumes "used d name of_group = []"
  shows "\<not> list_ex (refers of_group name) (fd_rules d)" "\<not> list_ex (\<lambda>(_, rs). list_ex (refers of_group name) rs) (fd_nodes d)"
  using assms by (auto simp: used_def list_ex_iff filter_empty_conv split: if_splits)

lemma unused_groups:
  assumes "used d name False = []" "g \<in> set (fd_groups d)" "p \<in> set (fg_rules g)"
  shows "\<not> refers_plain name p"
proof -
  have "filter (\<lambda>g. list_ex (refers_plain name) (fg_rules g)) (fd_groups d) = []" using assms(1) by (simp add: used_def)
  then show ?thesis using assms(2,3) by (auto simp: filter_empty_conv list_ex_iff)
qed

lemma rule_ok_without:
  "plain_ok ips p \<Longrightarrow> \<not> refers_plain name p \<Longrightarrow> plain_ok (filter (\<lambda>n. n \<noteq> name) ips) p"
  "rule_ok ips gs r \<Longrightarrow> \<not> refers False name r \<Longrightarrow> rule_ok (filter (\<lambda>n. n \<noteq> name) ips) gs r"
  by (auto simp: rule_ok_def refers_def plain_ok_def refers_plain_def source_ok_def split: source.splits fw_rule.splits)

lemma rules_ok_without:
  "list_all (rule_ok ips gs) rs \<Longrightarrow> \<not> list_ex (refers False name) rs \<Longrightarrow> list_all (rule_ok (filter (\<lambda>n. n \<noteq> name) ips) gs) rs"
  by (induction rs) (auto intro: rule_ok_without(2))

lemma nodes_ok_without:
  "list_all (\<lambda>(node, rs). P node \<and> rs \<noteq> [] \<and> list_all (rule_ok ips gs) rs) ns \<Longrightarrow>
     \<not> list_ex (\<lambda>(_, rs). list_ex (refers False name) rs) ns \<Longrightarrow>
     list_all (\<lambda>(node, rs). P node \<and> rs \<noteq> [] \<and> list_all (rule_ok (filter (\<lambda>n. n \<noteq> name) ips) gs) rs) ns"
  by (induction ns) (auto intro: rules_ok_without)

lemma sources_without:
  "\<not> refers_plain name p \<Longrightarrow>
     sources p (dict_of (map (\<lambda>s. (fi_name s, fi_cidrs s)) (filter (\<lambda>s. fi_name s \<noteq> name) ss)))
       = sources p (dict_of (map (\<lambda>s. (fi_name s, fi_cidrs s)) ss))"
  by (cases "pr_source p") (simp_all add: sources_def refers_plain_def dict_of_without)

lemma doc_ok_without_ipset:
  assumes "used d name False = []" "doc_ok d"
  shows "doc_ok (d\<lparr>fd_ipsets := filter (\<lambda>s. fi_name s \<noteq> name) (fd_ipsets d)\<rparr>)"
proof -
  let ?ips = "map fi_name (fd_ipsets d)" and ?gs = "map fg_name (fd_groups d)"
  let ?left = "filter (\<lambda>n. n \<noteq> name) ?ips"
  have names: "map fi_name (filter (\<lambda>s. fi_name s \<noteq> name) (fd_ipsets d)) = ?left" by (simp add: filter_map comp_def)
  have "list_all (group_ok ?left) (fd_groups d)"
    using assms(2) unused_groups [OF assms(1)] rule_ok_without(1) by (auto simp: doc_ok_def Let_def list_all_iff group_ok_def)
  moreover have "list_all (rule_ok ?left ?gs) (fd_rules d)"
    using assms(2) rules_ok_without [OF _ unused_nodes(1) [OF assms(1)]] by (simp add: doc_ok_def Let_def)
  moreover have "list_all (\<lambda>(node, rs). re_dollar node_form node \<and> rs \<noteq> [] \<and> list_all (rule_ok ?left ?gs) rs) (fd_nodes d)"
    using assms(2) nodes_ok_without [OF _ unused_nodes(2) [OF assms(1)]] by (simp add: doc_ok_def Let_def)
  moreover have "distinct ?left" "list_all ipset_ok (filter (\<lambda>s. fi_name s \<noteq> name) (fd_ipsets d))"
    using assms(2) by (auto simp: doc_ok_def Let_def list_all_iff)
  ultimately show ?thesis using assms(2) by (simp add: doc_ok_def names Let_def)
qed

lemma expand_without_ipset:
  assumes "used d name False = []"
  shows "expand_group (d\<lparr>fd_ipsets := filter (\<lambda>s. fi_name s \<noteq> name) (fd_ipsets d)\<rparr>) g = expand_group d g"
proof (cases "find (\<lambda>x. fg_name x = g) (fd_groups d)")
  case (Some x)
  then have "x \<in> set (fd_groups d)" by (auto simp: find_Some_iff)
  then have "map (expand_rule (dict_of (map (\<lambda>s. (fi_name s, fi_cidrs s)) (filter (\<lambda>s. fi_name s \<noteq> name) (fd_ipsets d))))) (fg_rules x)
      = map (expand_rule (dict_of (map (\<lambda>s. (fi_name s, fi_cidrs s)) (fd_ipsets d)))) (fg_rules x)"
    using unused_groups [OF assms]
    by (intro map_cong refl) (simp add: expand_rule_def sources_without)
  then show ?thesis using Some by (simp add: expand_group_def Let_def del: map_eq_conv)
qed (simp add: expand_group_def)

lemma render_without_group:
  assumes "used d name True = []"
  shows "render (d\<lparr>fd_groups := filter (\<lambda>g. fg_name g \<noteq> name) (fd_groups d)\<rparr>) node members bridges = render d node members bridges"
proof -
  let ?d = "d\<lparr>fd_groups := filter (\<lambda>g. fg_name g \<noteq> name) (fd_groups d)\<rparr>"
  have "\<not> list_ex (refers True name) (own_rules d node)"
  proof (cases "map_of (fd_nodes d) node")
    case (Some rs)
    then show ?thesis using map_of_list_ex [OF Some unused_nodes(2) [OF assms]] by (simp add: own_rules_def)
  qed (simp add: own_rules_def)
  then have "chain ?d node bridges = chain d node bridges"
    using unused_nodes(1) [OF assms] expand_without [of name "fd_rules d @ own_rules d node"] by (simp add: chain_def own_rules_def)
  then show ?thesis by (simp add: render_def render_lines_def)
qed

text \<open>What nothing uses can go: removing a security group that \<open>used\<close> finds nowhere leaves every node's ruleset
  as it was, to the letter, and removing an IP set that \<open>used\<close> finds nowhere leaves a well-formed document whose
  groups expand as before.\<close>

theorem unused_can_go:
  "(used d name True = [] \<longrightarrow>
      render (d\<lparr>fd_groups := filter (\<lambda>g. fg_name g \<noteq> name) (fd_groups d)\<rparr>) node members bridges = render d node members bridges)
   \<and> (used d name False = [] \<and> doc_ok d \<longrightarrow>
      doc_ok (d\<lparr>fd_ipsets := filter (\<lambda>s. fi_name s \<noteq> name) (fd_ipsets d)\<rparr>)
      \<and> expand_group (d\<lparr>fd_ipsets := filter (\<lambda>s. fi_name s \<noteq> name) (fd_ipsets d)\<rparr>) g = expand_group d g)"
  using render_without_group doc_ok_without_ipset expand_without_ipset by blast

theorem unused_can_go_witness:
  "used (sample_doc\<lparr>fd_rules := []\<rparr>) ''web'' True = [] \<and> used sample_doc ''web'' True = [In_cluster]
   \<and> render (sample_doc\<lparr>fd_rules := [], fd_groups := []\<rparr>) ''n1'' [] [] = render (sample_doc\<lparr>fd_rules := []\<rparr>) ''n1'' [] []"
  using unused_can_go [of "sample_doc\<lparr>fd_rules := []\<rparr>" "''web''" "''n1''" "[]" "[]"]
  by (simp add: sample_doc_def used_def refers_def)

section \<open>Group filters of the VMs\<close>

text \<open>The rules of a group take priorities under 300, before a VM's own; those past the hundred and ninety-ninth are left
  out of the VM's filter, while a network's chain has them all.\<close>

lemma group_filter_before_own_rules: "(n, r) \<in> set (group_filter_rules d name) \<Longrightarrow> GROUP_PRIORITY \<le> n \<and> n < 300"
  by (auto simp: group_filter_rules_def Let_def GROUP_MAX_EXPANDED_def GROUP_PRIORITY_def dest!: set_zip_leftD)

definition big_group_doc :: fw_doc where
  "big_group_doc = \<lparr>fd_enabled = True, fd_policy = Drop, fd_rules = [], fd_nodes = [],
     fd_groups = [\<lparr>fg_name = ''web'', fg_comment = [],
       fg_rules = replicate 199 \<lparr>pr_action = Accept, pr_protocol = Icmp, pr_port = None, pr_source = Any, pr_comment = [], pr_enabled = True\<rparr>
         @ [\<lparr>pr_action = Drop, pr_protocol = All, pr_port = None, pr_source = Any, pr_comment = [], pr_enabled = True\<rparr>]\<rparr>],
     fd_ipsets = []\<rparr>"

lemma concat_replicate_single: "concat (replicate n [x]) = replicate n x"
  by (induction n) auto

lemma big_group_expanded:
  "expand_group big_group_doc ''web'' =
     replicate 199 \<lparr>ex_action = Accept, ex_protocol = Icmp, ex_net = None, ex_ports = None\<rparr>
     @ [\<lparr>ex_action = Drop, ex_protocol = All, ex_net = None, ex_ports = None\<rparr>]"
  by (simp add: expand_group_def big_group_doc_def expand_rule_def sources_def port_parts_def concat_replicate_single)

text \<open>A group of two hundred accepted rules loses its last one, a drop, in the filter of the VMs that reference
  it, without an error; the chain of a network that references it has the drop.\<close>

theorem group_filter_loses_rules:
  "doc_ok big_group_doc
   \<and> \<lparr>ex_action = Drop, ex_protocol = All, ex_net = None, ex_ports = None\<rparr> \<in> set (expand_group big_group_doc ''web'')
   \<and> \<lparr>ex_action = Drop, ex_protocol = All, ex_net = None, ex_ports = None\<rparr> \<notin> snd ` set (group_filter_rules big_group_doc ''web'')
   \<and> [''-o'', ''br0'', ''-j'', ''DROP''] \<in> set (group_iptables_specs big_group_doc ''web'' ''br0'')"
proof -
  have "take 199 (expand_group big_group_doc ''web'') = replicate 199 \<lparr>ex_action = Accept, ex_protocol = Icmp, ex_net = None, ex_ports = None\<rparr>"
    by (simp add: big_group_expanded)
  then have "snd ` set (group_filter_rules big_group_doc ''web'') \<subseteq> {\<lparr>ex_action = Accept, ex_protocol = Icmp, ex_net = None, ex_ports = None\<rparr>}"
    by (auto simp: group_filter_rules_def GROUP_MAX_EXPANDED_def Let_def dest!: set_zip_rightD)
  moreover have "[''-o'', ''br0'', ''-j'', ''DROP''] \<in> set (group_iptables_specs big_group_doc ''web'' ''br0'')"
    by (simp add: group_iptables_specs_def big_group_expanded iptables_spec_def upper_action_def)
  moreover have "NAME ''web''" by code_simp
  then have "doc_ok big_group_doc"
    by (simp add: doc_ok_def big_group_doc_def group_ok_def plain_ok_def source_ok_def rule_count_def MAX_RULES_def list_all_iff)
  ultimately show ?thesis by (auto simp: big_group_expanded)
qed

section \<open>A newline at the end of a name\<close>

text \<open>The pattern of a name lets a newline at its end pass, so an IP set may be named with one, and its line of the script is
  broken in two.\<close>

lemma name_with_newline: "NAME (''lan'' @ [newline])"
  by code_simp

end
