(* ===== verification/Firewall_Apply.thy ===== *)
theory Firewall_Apply
  imports Firewall_Props
begin

text \<open>
  Applying, confirming and undoing a firewall change on a node, and following the document the cluster saved
  (\<open>app/core/host_firewall.py\<close>, \<open>app/core/rollback_timer.py\<close>, the daemon's start and the API's confirmation).

  The kernel's table is of any type \<open>'t\<close>. What is not in the sources is an argument: \<open>nft_table script\<close> is the table
  a script gives (every script here empties the table first), \<open>nft_list t\<close> what \<open>nft list table\<close> prints of it
  (nothing when there is no table), \<open>sha256\<close> the digests. Each call of nft or systemd-run is answered by the
  environment; \<open>Lost b\<close> is a call that did not end in time, the kernel having taken the script (\<open>b\<close>) or not. Files
  under \<open>/var/lib\<close> and the replicated setting survive a reboot; the kernel's table and the transient timer do not.
\<close>

section \<open>State\<close>

datatype answer = Done | Refused | Lost bool

record 't outside =
  nft_table :: "string \<Rightarrow> 't"
  nft_list :: "'t \<Rightarrow> string"
  no_table :: 't
  sha256 :: "string \<Rightarrow> string"
  groups_digest :: "fw_group list \<Rightarrow> fw_ipset list \<Rightarrow> string"

record change =
  ch_id :: string
  ch_deadline :: seconds
  ch_document :: fw_doc
  ch_before :: string

text \<open>The saved setting: none, a text that is not JSON, or a JSON value.\<close>

datatype setting = Unset | Garbled | Saved "raw_doc option"

text \<open>\<open>filters\<close>: the groups' nwfilters; \<open>referenced\<close>: the names other filters call; \<open>chains\<close>: the document the networks'
  chains were last built from.\<close>

record 't fw_node =
  table :: 't
  waiting :: "change option"
  timer :: "string option"
  applied :: "string option"
  groups_mark :: "string option"
  setting :: setting
  node_name :: string
  members :: "string list"
  vm_bridges :: "string list"
  filters :: "(string, (nat \<times> expanded) list) dict"
  referenced :: "string list"
  chains :: "fw_doc option"

datatype apply_error =
    Bad_delay
  | Bad_document fw_error
  | Change_waiting
  | Nft_refused
  | Timer_refused
  | No_such_change
  | Gave_up

definition TIMEOUT_MIN_S :: int where "TIMEOUT_MIN_S = 30"
definition TIMEOUT_MAX_S :: int where "TIMEOUT_MAX_S = 600"

definition DEFAULT :: fw_doc where
  "DEFAULT = \<lparr>fd_enabled = False, fd_policy = Drop, fd_rules = [], fd_nodes = [], fd_groups = [], fd_ipsets = []\<rparr>"

section \<open>nftables and the timer\<close>

definition ruleset :: "fw_doc \<Rightarrow> 't fw_node \<Rightarrow> string" where
  "ruleset doc s = render doc (node_name s) (members s) (vm_bridges s)"

text \<open>\<open>_nft(script)\<close>, and \<open>_nft(script, check=True)\<close>, which changes nothing.\<close>

definition nft_load :: "'t outside \<Rightarrow> answer \<Rightarrow> string \<Rightarrow> 't fw_node \<Rightarrow> (apply_error + unit) \<times> 't fw_node" where
  "nft_load out a script s = (case a of
       Done \<Rightarrow> (Inr (), s\<lparr>table := nft_table out script\<rparr>)
     | Refused \<Rightarrow> (Inl Nft_refused, s)
     | Lost b \<Rightarrow> (Inl Gave_up, if b then s\<lparr>table := nft_table out script\<rparr> else s))"

definition nft_check :: "answer \<Rightarrow> apply_error + unit" where
  "nft_check a = (case a of Done \<Rightarrow> Inr () | Refused \<Rightarrow> Inl Nft_refused | Lost _ \<Rightarrow> Inl Gave_up)"

definition preamble :: string where
  "preamble = ''table inet '' @ TABLE @ '' {}'' @ [newline] @ ''delete table inet '' @ TABLE @ [newline]"

definition current_script :: "'t outside \<Rightarrow> 't fw_node \<Rightarrow> string" where
  "current_script out s = preamble @ nft_list out (table s)"

text \<open>\<open>rollback_timer.start\<close>: the old timer stopped first. A call of systemd-run that does not end in time is not a \<open>TimerError\<close>;
  \<open>Lost b\<close> says whether systemd took it.\<close>

definition stop_timer :: "'t fw_node \<Rightarrow> 't fw_node" where
  "stop_timer s = s\<lparr>timer := None\<rparr>"

definition start_timer :: "answer \<Rightarrow> string \<Rightarrow> 't fw_node \<Rightarrow> (apply_error + unit) \<times> 't fw_node" where
  "start_timer a change_id s = (case a of
       Done \<Rightarrow> (Inr (), s\<lparr>timer := Some change_id\<rparr>)
     | Refused \<Rightarrow> (Inl Timer_refused, stop_timer s)
     | Lost b \<Rightarrow> (Inl Gave_up, if b then s\<lparr>timer := Some change_id\<rparr> else stop_timer s))"

definition mark_applied :: "'t outside \<Rightarrow> string \<Rightarrow> 't fw_node \<Rightarrow> 't fw_node" where
  "mark_applied out script s = s\<lparr>applied := Some (sha256 out script)\<rparr>"

section \<open>Apply, confirm, roll back\<close>

text \<open>\<open>_rollback_locked\<close>: the identifier rolled back, if any; a refusal of nft is raised after the change is forgotten.\<close>

definition rollback :: "'t outside \<Rightarrow> answer \<Rightarrow> string option \<Rightarrow> 't fw_node \<Rightarrow> (apply_error + string option) \<times> 't fw_node" where
  "rollback out a change_id s = (case waiting s of
       None \<Rightarrow> (Inr None, s)
     | Some c \<Rightarrow>
         if change_id \<noteq> None \<and> Some (ch_id c) \<noteq> change_id then (Inr None, s)
         else case nft_load out a (ch_before c) (stop_timer s) of
             (Inl e, s') \<Rightarrow> (Inl e, s'\<lparr>waiting := None\<rparr>)
           | (Inr _, s') \<Rightarrow> (Inr (Some (ch_id c)), (mark_applied out (ch_before c) s')\<lparr>waiting := None\<rparr>))"

text \<open>The answers one \<open>apply\<close> gets: the check, the timer, the load and, after a refused load, the rollback's own load.\<close>

record answers =
  an_check :: answer
  an_timer :: answer
  an_load :: answer
  an_undo :: answer

definition preview :: "answer \<Rightarrow> raw_doc option \<Rightarrow> 't fw_node \<Rightarrow> apply_error + string" where
  "preview a doc s = (case normalize doc of
       Inl e \<Rightarrow> Inl (Bad_document e)
     | Inr d \<Rightarrow> rbind (nft_check a) (\<lambda>_. Inr (ruleset d s)))"

definition load_change ::
  "'t outside \<Rightarrow> answers \<Rightarrow> string \<Rightarrow> string \<Rightarrow> seconds \<Rightarrow> 't fw_node \<Rightarrow> (apply_error + string \<times> seconds) \<times> 't fw_node" where
  "load_change out an script change_id deadline s = (case nft_load out (an_load an) script s of
       (Inr _, s') \<Rightarrow> (Inr (change_id, deadline), mark_applied out script s')
     | (Inl Nft_refused, s') \<Rightarrow> (case rollback out (an_undo an) (Some change_id) s' of
           (Inl e, s'') \<Rightarrow> (Inl e, s'')
         | (Inr _, s'') \<Rightarrow> (Inl Nft_refused, s''))
     | (Inl e, s') \<Rightarrow> (Inl e, s'))"

definition apply_change ::
  "'t outside \<Rightarrow> answers \<Rightarrow> string \<Rightarrow> seconds \<Rightarrow> raw_doc option \<Rightarrow> int \<Rightarrow> 't fw_node \<Rightarrow> (apply_error + string \<times> seconds) \<times> 't fw_node" where
  "apply_change out an change_id now doc timeout_s s =
     (if \<not> (TIMEOUT_MIN_S \<le> timeout_s \<and> timeout_s \<le> TIMEOUT_MAX_S) then (Inl Bad_delay, s)
      else case normalize doc of
        Inl e \<Rightarrow> (Inl (Bad_document e), s)
      | Inr d \<Rightarrow>
          if waiting s \<noteq> None then (Inl Change_waiting, s)
          else case nft_check (an_check an) of
              Inl e \<Rightarrow> (Inl e, s)
            | Inr _ \<Rightarrow>
                let deadline = now + of_int timeout_s;
                    s1 = s\<lparr>waiting := Some \<lparr>ch_id = change_id, ch_deadline = deadline, ch_document = d,
                             ch_before = current_script out s\<rparr>\<rparr>
                in case start_timer (an_timer an) change_id s1 of
                    (Inl Timer_refused, s2) \<Rightarrow> (Inl Timer_refused, s2\<lparr>waiting := None\<rparr>)
                  | (Inl e, s2) \<Rightarrow> (Inl e, s2)
                  | (Inr _, s2) \<Rightarrow> load_change out an (ruleset d s) change_id deadline s2)"

definition confirm :: "string \<Rightarrow> 't fw_node \<Rightarrow> (apply_error + fw_doc) \<times> 't fw_node" where
  "confirm change_id s = (case waiting s of
       None \<Rightarrow> (Inl No_such_change, s)
     | Some c \<Rightarrow>
         if ch_id c \<noteq> change_id then (Inl No_such_change, s)
         else (Inr (ch_document c), (stop_timer s)\<lparr>waiting := None\<rparr>))"

text \<open>The API: what was confirmed is saved for the cluster (\<open>routers/host_firewall.py\<close>); \<open>json.dumps\<close> then \<open>json.loads\<close>
  of a checked document is \<open>raw_of\<close>.\<close>

definition firewall_confirm :: "string \<Rightarrow> 't fw_node \<Rightarrow> (apply_error + fw_doc) \<times> 't fw_node" where
  "firewall_confirm change_id s = (case confirm change_id s of
       (Inl e, s') \<Rightarrow> (Inl e, s')
     | (Inr d, s') \<Rightarrow> (Inr d, s'\<lparr>setting := Saved (Some (raw_of d))\<rparr>))"

section \<open>Following the saved document\<close>

definition saved :: "'t fw_node \<Rightarrow> fw_doc option" where
  "saved s = (case setting s of
       Unset \<Rightarrow> Some DEFAULT
     | Garbled \<Rightarrow> None
     | Saved raw \<Rightarrow> (case normalize raw of Inl _ \<Rightarrow> None | Inr d \<Rightarrow> Some d))"

definition group_filter_name :: "string \<Rightarrow> string" where
  "group_filter_name name = ''hyperlite-group-'' @ name"

text \<open>\<open>sync_groups\<close>: libvirt may refuse a definition (the rest is then left as it is) or keep a filter a running VM holds.
  The networks' chains are rebuilt from the saved document.\<close>

fun define_filters :: "(string \<Rightarrow> bool) \<Rightarrow> fw_doc \<Rightarrow> fw_group list \<Rightarrow> (string, (nat \<times> expanded) list) dict
    \<Rightarrow> bool \<times> (string, (nat \<times> expanded) list) dict" where
  "define_filters accepts doc [] fs = (True, fs)"
| "define_filters accepts doc (g # gs) fs =
     (if accepts (fg_name g)
      then define_filters accepts doc gs (dict_set (group_filter_name (fg_name g)) (group_filter_rules doc (fg_name g)) fs)
      else (False, fs))"

record libvirt_answers =
  lv_accepts :: "string \<Rightarrow> bool"
  lv_held :: "string \<Rightarrow> bool"

definition sync_groups :: "libvirt_answers \<Rightarrow> fw_doc \<Rightarrow> 't fw_node \<Rightarrow> bool \<times> 't fw_node" where
  "sync_groups lv doc s =
     (let wanted = map (\<lambda>g. group_filter_name (fg_name g)) (fd_groups doc) in
      case define_filters (lv_accepts lv) doc (fd_groups doc) (filters s) of
        (False, fs) \<Rightarrow> (False, s\<lparr>filters := fs\<rparr>)
      | (True, fs) \<Rightarrow> (True, s\<lparr>filters := filter (\<lambda>(n, _). n \<in> set wanted \<or> n \<in> set (referenced s) \<or> lv_held lv n) fs,
          chains := saved s\<rparr>))"

text \<open>\<open>follow_once\<close> up to its lock: the script to apply, if any; \<open>Inl\<close> is an exception.\<close>

definition follow_groups :: "'t outside \<Rightarrow> libvirt_answers \<Rightarrow> fw_doc \<Rightarrow> 't fw_node \<Rightarrow> bool \<times> 't fw_node" where
  "follow_groups out lv doc s =
     (let digest = groups_digest out (fd_groups doc) (fd_ipsets doc) in
      if groups_mark s = Some digest then (True, s)
      else case sync_groups lv doc s of
          (False, s') \<Rightarrow> (False, s')
        | (True, s') \<Rightarrow> (True, s'\<lparr>groups_mark := Some digest\<rparr>))"

definition follow_read :: "'t outside \<Rightarrow> libvirt_answers \<Rightarrow> 't fw_node \<Rightarrow> (apply_error + string option) \<times> 't fw_node" where
  "follow_read out lv s =
     (if waiting s \<noteq> None then (Inr None, s)
      else case saved s of
        None \<Rightarrow> (Inr None, s)
      | Some doc \<Rightarrow> (case follow_groups out lv doc s of
            (False, s') \<Rightarrow> (Inl Gave_up, s')
          | (True, s') \<Rightarrow>
              let script = ruleset doc s' in
              case applied s' of
                Some d \<Rightarrow> if d = sha256 out script then (Inr None, s') else (Inr (Some script), s')
              | None \<Rightarrow> if fd_enabled doc then (Inr (Some script), s') else (Inr None, mark_applied out script s')))"

text \<open>The rest, under the lock.\<close>

definition follow_load :: "'t outside \<Rightarrow> answer \<Rightarrow> string \<Rightarrow> 't fw_node \<Rightarrow> (apply_error + bool) \<times> 't fw_node" where
  "follow_load out a script s =
     (if waiting s \<noteq> None then (Inr False, s)
      else case nft_load out a script s of
          (Inl e, s') \<Rightarrow> (Inl e, s')
        | (Inr _, s') \<Rightarrow> (Inr True, mark_applied out script s'))"

definition follow_once :: "'t outside \<Rightarrow> libvirt_answers \<Rightarrow> answer \<Rightarrow> 't fw_node \<Rightarrow> (apply_error + bool) \<times> 't fw_node" where
  "follow_once out lv a s = (case follow_read out lv s of
       (Inl e, s') \<Rightarrow> (Inl e, s')
     | (Inr None, s') \<Rightarrow> (Inr False, s')
     | (Inr (Some script), s') \<Rightarrow> follow_load out a script s')"

definition finish_interrupted :: "'t outside \<Rightarrow> answer \<Rightarrow> seconds \<Rightarrow> 't fw_node \<Rightarrow> 't fw_node" where
  "finish_interrupted out a now s = (case waiting s of
       None \<Rightarrow> s
     | Some c \<Rightarrow> if ch_deadline c < now then snd (rollback out a (Some (ch_id c)) s) else s)"

text \<open>The timer's service runs \<open>python -m app.core.host_firewall rollback <id>\<close>.\<close>

definition timer_fires :: "'t outside \<Rightarrow> answer \<Rightarrow> 't fw_node \<Rightarrow> 't fw_node" where
  "timer_fires out a s = (case timer s of
       None \<Rightarrow> s
     | Some i \<Rightarrow> snd (rollback out a (Some i) (s\<lparr>timer := None\<rparr>)))"

definition reboot :: "'t outside \<Rightarrow> 't fw_node \<Rightarrow> 't fw_node" where
  "reboot out s = s\<lparr>table := no_table out, timer := None\<rparr>"

section \<open>Runs\<close>

text \<open>What can happen on a node, one step at a time: \<open>Follow_end\<close> goes on with a script an earlier \<open>follow_read\<close> gave,
  whatever happened in between; \<open>Settings\<close> is another member's confirmation arriving.\<close>

datatype fw_step =
    Apply answers string seconds "raw_doc option" int
  | Confirm string
  | Roll_back answer "string option"
  | Timer answer
  | Follow_begin libvirt_answers
  | Follow_end answer string
  | Settings setting
  | Surroundings "string list" "string list"
  | Daemon_start answer seconds
  | Reboot

fun fw_do :: "'t outside \<Rightarrow> fw_step \<Rightarrow> 't fw_node \<Rightarrow> 't fw_node" where
  "fw_do out (Apply an i now doc t) s = snd (apply_change out an i now doc t s)"
| "fw_do out (Confirm i) s = snd (firewall_confirm i s)"
| "fw_do out (Roll_back a i) s = snd (rollback out a i s)"
| "fw_do out (Timer a) s = timer_fires out a s"
| "fw_do out (Follow_begin lv) s = snd (follow_read out lv s)"
| "fw_do out (Follow_end a script) s = snd (follow_load out a script s)"
| "fw_do out (Settings v) s = s\<lparr>setting := v\<rparr>"
| "fw_do out (Surroundings ms bs) s = s\<lparr>members := ms, vm_bridges := bs\<rparr>"
| "fw_do out (Daemon_start a now) s = finish_interrupted out a now s"
| "fw_do out Reboot s = reboot out s"

fun fw_run :: "'t outside \<Rightarrow> fw_step list \<Rightarrow> 't fw_node \<Rightarrow> 't fw_node" where
  "fw_run out [] s = s"
| "fw_run out (x # xs) s = fw_run out xs (fw_do out x s)"

end
