(* ===== verification/Firewall_Run.thy ===== *)
theory Firewall_Run
  imports Firewall_Apply
begin

text \<open>
  What holds of a node's firewall over whole runs: a change that waits has its timer armed (\<open>armed\<close>), the file that says
  what is applied is true (\<open>marked\<close>), an unconfirmed change is undone by its timer whatever else happened meanwhile, a
  pass of the follow loop leaves the saved rules in place; and where a reboot breaks this.
\<close>

named_theorems fw_defs \<open>the operations on a node's firewall\<close>

declare nft_load_def [fw_defs] nft_check_def [fw_defs] stop_timer_def [fw_defs] start_timer_def [fw_defs] mark_applied_def [fw_defs]
  rollback_def [fw_defs] load_change_def [fw_defs] confirm_def [fw_defs] firewall_confirm_def [fw_defs] follow_load_def [fw_defs]
  finish_interrupted_def [fw_defs] timer_fires_def [fw_defs] reboot_def [fw_defs]

lemmas fw_splits = option.splits sum.splits answer.splits apply_error.splits if_splits prod.splits

section \<open>What the steps of following keep\<close>

lemma follow_groups_keeps:
  assumes "follow_groups out lv doc s = (ok, s')"
  shows "table s' = table s \<and> waiting s' = waiting s \<and> timer s' = timer s \<and> applied s' = applied s \<and> setting s' = setting s
    \<and> node_name s' = node_name s \<and> members s' = members s \<and> vm_bridges s' = vm_bridges s"
  using assms by (auto simp: follow_groups_def sync_groups_def Let_def split: if_splits prod.splits bool.splits)

lemma follow_read_eq:
  assumes "waiting s = None" "saved s = Some d" "follow_groups out lv d s = (ok, s1)"
  shows "follow_read out lv s = (if \<not> ok then (Inl Gave_up, s1) else case applied s of
      Some e \<Rightarrow> if e = sha256 out (ruleset d s) then (Inr None, s1) else (Inr (Some (ruleset d s)), s1)
    | None \<Rightarrow> if fd_enabled d then (Inr (Some (ruleset d s)), s1) else (Inr None, mark_applied out (ruleset d s) s1))"
proof -
  note keep = follow_groups_keeps [OF assms(3)]
  have "ruleset d s1 = ruleset d s" using keep by (simp add: ruleset_def)
  then show ?thesis using assms keep by (simp add: follow_read_def Let_def)
qed

lemma follow_read_keeps:
  assumes "follow_read out lv s = (r, s')"
  shows "table s' = table s \<and> waiting s' = waiting s \<and> timer s' = timer s \<and> setting s' = setting s
    \<and> (applied s' = applied s \<or> (\<exists>d. saved s = Some d \<and> \<not> fd_enabled d \<and> applied s = None
          \<and> applied s' = Some (sha256 out (ruleset d s))))"
proof (cases "waiting s = None")
  case False
  then show ?thesis using assms by (simp add: follow_read_def)
next
  case free: True
  show ?thesis
  proof (cases "saved s")
    case None
    then show ?thesis using assms free by (simp add: follow_read_def)
  next
    case (Some d)
    obtain ok s1 where g: "follow_groups out lv d s = (ok, s1)" by (cases "follow_groups out lv d s") simp
    have "s' = s1 \<or> (s' = mark_applied out (ruleset d s) s1 \<and> applied s = None \<and> \<not> fd_enabled d)"
      using assms follow_read_eq [OF free Some g] by (simp split: if_splits option.splits)
    then show ?thesis using follow_groups_keeps [OF g] Some by (elim disjE) (simp_all add: mark_applied_def)
  qed
qed

section \<open>A change that waits has its timer\<close>

definition armed :: "'t fw_node \<Rightarrow> bool" where
  "armed s \<longleftrightarrow> timer s = map_option ch_id (waiting s)"

text \<open>The steps that keep it: all but a reboot, and an \<open>apply\<close> whose systemd-run did not end in time.\<close>

fun timely :: "fw_step \<Rightarrow> bool" where
  "timely (Apply an _ _ _ _) = (\<forall>b. an_timer an \<noteq> Lost b)"
| "timely Reboot = False"
| "timely _ = True"

lemma rollback_armed: "armed s \<Longrightarrow> armed (snd (rollback out a i s))"
  by (auto simp: armed_def fw_defs split: fw_splits)

lemma load_change_armed: "armed s \<Longrightarrow> armed (snd (load_change out an script i d s))"
  by (auto simp: armed_def fw_defs split: fw_splits)

lemma apply_armed:
  assumes "armed s" "\<forall>b. an_timer an \<noteq> Lost b"
  shows "armed (snd (apply_change out an i now doc t s))"
proof -
  have load: "armed (snd (load_change out an (ruleset d s) i dl (s\<lparr>waiting := Some c, timer := Some i\<rparr>)))" if "ch_id c = i" for c d dl
    by (rule load_change_armed) (simp add: armed_def that)
  show ?thesis
    using assms load by (auto simp: apply_change_def start_timer_def Let_def stop_timer_def armed_def split: sum.splits answer.splits if_splits)
qed

lemma fw_do_armed: "armed s \<Longrightarrow> timely x \<Longrightarrow> armed (fw_do out x s)"
proof (cases x)
  case (Apply an i now doc t)
  moreover assume "armed s" "timely x"
  ultimately show ?thesis by (simp add: apply_armed)
next
  case (Follow_begin lv)
  moreover assume "armed s"
  ultimately show ?thesis using follow_read_keeps [of out lv s "fst (follow_read out lv s)" "snd (follow_read out lv s)"] by (simp add: armed_def)
qed (auto simp: rollback_armed armed_def fw_defs split: fw_splits)

lemma fw_run_armed: "armed s \<Longrightarrow> list_all timely xs \<Longrightarrow> armed (fw_run out xs s)"
  by (induction xs arbitrary: s) (auto simp: fw_do_armed)

section \<open>An unconfirmed change is undone\<close>

text \<open>Steps that are no answer to the change \<open>i\<close> and no reboot.\<close>

fun leaves :: "string \<Rightarrow> seconds \<Rightarrow> fw_step \<Rightarrow> bool" where
  "leaves i deadline (Confirm j) = (j \<noteq> i)"
| "leaves i deadline (Roll_back a j) = (j \<noteq> None \<and> j \<noteq> Some i)"
| "leaves i deadline (Timer a) = False"
| "leaves i deadline (Daemon_start a now) = (now \<le> deadline)"
| "leaves i deadline Reboot = False"
| "leaves i deadline _ = True"

lemma leaves_keeps:
  assumes "waiting s = Some c" "timer s = Some i" "ch_id c = i" "leaves i (ch_deadline c) x"
  shows "waiting (fw_do out x s) = Some c \<and> timer (fw_do out x s) = Some i \<and> table (fw_do out x s) = table s"
proof (cases x)
  case (Follow_begin lv)
  then show ?thesis
    using assms follow_read_keeps [of out lv s "fst (follow_read out lv s)" "snd (follow_read out lv s)"] by simp
qed (use assms in \<open>auto simp: apply_change_def fw_defs split: sum.splits\<close>)

lemma leaves_run:
  assumes "waiting s = Some c" "timer s = Some (ch_id c)" "list_all (leaves (ch_id c) (ch_deadline c)) xs"
  shows "waiting (fw_run out xs s) = Some c \<and> timer (fw_run out xs s) = Some (ch_id c) \<and> table (fw_run out xs s) = table s"
  using assms by (induction xs arbitrary: s) (auto simp: leaves_keeps)

lemma load_change_waiting:
  assumes "waiting s = Some c" "load_change out an script i d s = (r, s')" "waiting s' \<noteq> None"
  shows "waiting s' = Some c \<and> timer s' = timer s"
  using assms by (auto simp: fw_defs split: fw_splits)

lemma apply_waiting:
  assumes "waiting s = None" "an_timer an = Done" "apply_change out an i now doc t s = (r, s')" "waiting s' \<noteq> None"
  shows "\<exists>d. normalize doc = Inr d \<and> timer s' = Some i
    \<and> waiting s' = Some \<lparr>ch_id = i, ch_deadline = now + of_int t, ch_document = d, ch_before = current_script out s\<rparr>"
proof -
  obtain d where d: "normalize doc = Inr d" "load_change out an (ruleset d s) i (now + of_int t)
      (s\<lparr>waiting := Some \<lparr>ch_id = i, ch_deadline = now + of_int t, ch_document = d, ch_before = current_script out s\<rparr>,
         timer := Some i\<rparr>) = (r, s')"
    using assms by (auto simp: apply_change_def start_timer_def Let_def split: if_splits sum.splits)
  then show ?thesis using load_change_waiting [OF _ d(2) assms(4)] by simp
qed


section \<open>What is applied is what is marked\<close>

definition marked :: "'t outside \<Rightarrow> 't fw_node \<Rightarrow> bool" where
  "marked out s \<longleftrightarrow> (case applied s of None \<Rightarrow> table s = no_table out
     | Some d \<Rightarrow> table s \<in> nft_table out ` {script. sha256 out script = d})"

text \<open>Steps in which every call of nft ended, without a reboot.\<close>

definition answered :: "answer \<Rightarrow> bool" where
  "answered a \<longleftrightarrow> a = Done \<or> a = Refused"

fun steady :: "fw_step \<Rightarrow> bool" where
  "steady (Apply an _ _ _ _) = (answered (an_load an) \<and> answered (an_undo an))"
| "steady (Roll_back a _) = answered a"
| "steady (Timer a) = answered a"
| "steady (Follow_end a _) = answered a"
| "steady (Daemon_start a _) = answered a"
| "steady Reboot = False"
| "steady _ = True"

lemma marked_cong: "table s' = table s \<Longrightarrow> applied s' = applied s \<Longrightarrow> marked out s' = marked out s"
  by (auto simp: marked_def split: option.split)

lemma marked_updates [simp]:
  "marked out (s\<lparr>timer := v\<rparr>) = marked out s" "marked out (s\<lparr>waiting := w\<rparr>) = marked out s"
  "marked out (s\<lparr>setting := k\<rparr>) = marked out s" "marked out (s\<lparr>members := ms, vm_bridges := bs\<rparr>) = marked out s"
  by (simp_all add: marked_def split: option.split)

lemma nft_load_marked:
  assumes "answered a" "nft_load out a script s = (r, s')"
  shows "(r = Inr () \<and> s' = s\<lparr>table := nft_table out script\<rparr>) \<or> (r = Inl Nft_refused \<and> s' = s)"
  using assms by (auto simp: nft_load_def answered_def)

lemma marked_loaded: "marked out (mark_applied out script (s\<lparr>table := nft_table out script\<rparr>))"
  by (auto simp: marked_def mark_applied_def)

lemma rollback_marked:
  assumes "marked out s" "answered a"
  shows "marked out (snd (rollback out a i s))"
  using assms by (auto simp: fw_defs answered_def marked_loaded [unfolded mark_applied_def] split: fw_splits)

lemma load_change_marked:
  assumes "marked out s" "answered (an_load an)" "answered (an_undo an)"
  shows "marked out (snd (load_change out an script i d s))"
  using assms rollback_marked [OF assms(1,3), of "Some i"] marked_loaded [of out script s]
  by (auto simp: load_change_def nft_load_def answered_def mark_applied_def split: sum.splits prod.splits)

lemma apply_marked:
  assumes "marked out s" "answered (an_load an)" "answered (an_undo an)"
  shows "marked out (snd (apply_change out an i now doc t s))"
proof -
  have load: "marked out (snd (load_change out an script i dl (s\<lparr>waiting := w, timer := v\<rparr>)))" for script dl w v
    using assms by (intro load_change_marked) simp_all
  show ?thesis
    using assms(1) load
    by (auto simp: apply_change_def start_timer_def stop_timer_def Let_def split: sum.splits answer.splits if_splits)
qed

lemma render_disabled: "\<not> fd_enabled d \<Longrightarrow> render d n ms bs = preamble"
  by (simp add: render_def render_lines_def preamble_def)

lemma follow_read_marked:
  assumes "marked out s" "nft_table out preamble = no_table out"
  shows "marked out (snd (follow_read out lv s))"
  using follow_read_keeps [of out lv s "fst (follow_read out lv s)" "snd (follow_read out lv s)"] assms
  by (auto simp: marked_def ruleset_def render_disabled intro!: image_eqI [of _ _ preamble] split: option.splits)

lemma timer_fires_marked: "marked out s \<Longrightarrow> answered a \<Longrightarrow> marked out (timer_fires out a s)"
  using rollback_marked [of out "s\<lparr>timer := None\<rparr>" a "timer s"] by (auto simp: timer_fires_def split: option.splits)

lemma follow_load_marked: "marked out s \<Longrightarrow> answered a \<Longrightarrow> marked out (snd (follow_load out a script s))"
  using marked_loaded [of out script s]
  by (auto simp: follow_load_def nft_load_def answered_def mark_applied_def split: sum.splits)

lemma fw_do_marked:
  assumes "marked out s" "steady x" "nft_table out preamble = no_table out"
  shows "marked out (fw_do out x s)"
  using assms
proof (cases x)
  case (Confirm i)
  then show ?thesis using assms by (auto simp: fw_defs split: fw_splits)
next
  case (Daemon_start a now)
  then show ?thesis using assms rollback_marked [of out s a] by (auto simp: finish_interrupted_def split: option.splits)
qed (use assms in \<open>auto simp: apply_marked rollback_marked timer_fires_marked follow_read_marked follow_load_marked\<close>)

lemma fw_run_marked:
  "marked out s \<Longrightarrow> list_all steady xs \<Longrightarrow> nft_table out preamble = no_table out \<Longrightarrow> marked out (fw_run out xs s)"
  by (induction xs arbitrary: s) (auto simp: fw_do_marked)

section \<open>Following the saved document\<close>

lemma define_filters_accepted: "(\<And>n. accepts n) \<Longrightarrow> fst (define_filters accepts doc gs fs)"
  by (induction gs arbitrary: fs) auto

lemma follow_groups_accepted:
  assumes "\<And>n. lv_accepts lv n"
  shows "fst (follow_groups out lv d s)"
proof -
  obtain fs where "define_filters (lv_accepts lv) d (fd_groups d) (filters s) = (True, fs)"
    using define_filters_accepted [of "lv_accepts lv" d "fd_groups d" "filters s"] assms by (metis prod.collapse)
  then show ?thesis by (simp add: follow_groups_def sync_groups_def Let_def)
qed

lemma follow_once_table:
  assumes m: "marked out s" and sha: "inj (sha256 out)" and empty: "nft_table out preamble = no_table out"
    and free: "waiting s = None" and saved: "saved s = Some d" and lv: "\<And>n. lv_accepts lv n"
  shows "fst (follow_once out lv Done s) \<in> range Inr \<and> table (snd (follow_once out lv Done s)) = nft_table out (ruleset d s)"
proof -
  obtain s1 where g: "follow_groups out lv d s = (True, s1)"
    using follow_groups_accepted [of lv out d s] lv by (metis prod.collapse)
  note keep = follow_groups_keeps [OF g]
  note read = follow_read_eq [OF free saved g]
  show ?thesis
  proof (cases "applied s")
    case None
    then have "table s = no_table out" using m by (simp add: marked_def)
    then show ?thesis using None read keep free empty
      by (auto simp: follow_once_def follow_load_def nft_load_def mark_applied_def ruleset_def render_disabled)
  next
    case (Some e)
    then have "e = sha256 out (ruleset d s) \<Longrightarrow> table s = nft_table out (ruleset d s)"
      using m sha by (auto simp: marked_def inj_def)
    then show ?thesis using Some read keep free
      by (auto simp: follow_once_def follow_load_def nft_load_def mark_applied_def)
  qed
qed


text \<open>What an administrator confirms is what every node follows: after \<open>apply\<close> left a change of the document \<open>doc\<close> waiting,
  its confirmation gives back the checked document, stops the timer, forgets the change, leaves the table alone and saves
  a setting that reads back as exactly that document. Any other identifier is refused and changes nothing.\<close>

theorem confirmed_change_is_saved:
  assumes "waiting s = None" "an_timer an = Done" "apply_change out an i now doc t s = (r, s1)" "waiting s1 \<noteq> None"
  shows "\<exists>d. normalize doc = Inr d \<and> fst (firewall_confirm i s1) = Inr d \<and> timer (snd (firewall_confirm i s1)) = None
    \<and> waiting (snd (firewall_confirm i s1)) = None \<and> table (snd (firewall_confirm i s1)) = table s1
    \<and> saved (snd (firewall_confirm i s1)) = Some d
    \<and> (\<forall>j. j \<noteq> i \<longrightarrow> firewall_confirm j s1 = (Inl No_such_change, s1))"
proof -
  obtain d where d: "normalize doc = Inr d" and w: "timer s1 = Some i"
    "waiting s1 = Some \<lparr>ch_id = i, ch_deadline = now + of_int t, ch_document = d, ch_before = current_script out s\<rparr>"
    using apply_waiting [OF assms] by auto
  have "normalize (Some (raw_of d)) = Inr d" by (rule raw_of_reads_back [OF normalize_ok [OF d]])
  then show ?thesis using d w by (auto simp: fw_defs saved_def)
qed

section \<open>Where a reboot breaks it\<close>

text \<open>After a reboot the saved rules do not come back. On a node that runs the saved document (nothing waits, the file of
  what is applied and the one of the groups are up to date), a reboot empties the table and keeps the files; the daemon's
  start then changes nothing and every pass of the follow loop answers that there is nothing to do: the node stays without
  its firewall as long as the document, the members and the bridges are the same.\<close>

theorem rules_lost_at_reboot:
  assumes "waiting s = None" "saved s = Some d" "applied s = Some (sha256 out (ruleset d s))"
    and "groups_mark s = Some (groups_digest out (fd_groups d) (fd_ipsets d))"
  shows "let s' = reboot out s in table s' = no_table out \<and> finish_interrupted out a now s' = s'
    \<and> follow_once out lv a s' = (Inr False, s')"
  using assms by (simp add: Let_def reboot_def finish_interrupted_def follow_once_def follow_read_def follow_groups_def saved_def
    ruleset_def split: option.splits)

text \<open>A change the node rebooted on before its deadline stays. Its timer is gone with the reboot, the daemon's start leaves
  it as its deadline is still ahead, nothing fires later, the follow loop does nothing while it waits and every new change is
  refused, until somebody confirms it or rolls it back by hand.\<close>

theorem change_stuck_after_reboot:
  assumes "waiting s = Some c" "now \<le> ch_deadline c"
  shows "let s' = reboot out s in finish_interrupted out a now s' = s' \<and> timer_fires out a s' = s'
    \<and> follow_once out lv a s' = (Inr False, s')
    \<and> snd (apply_change out an i later doc t s') = s' \<and> fst (apply_change out an i later doc t s') \<notin> range Inr"
  using assms by (auto simp: Let_def reboot_def finish_interrupted_def timer_fires_def follow_once_def follow_read_def apply_change_def
    split: sum.splits)

section \<open>Instances\<close>

text \<open>A kernel whose table is the text of the rules, and digests that are the text itself.\<close>

definition text_kernel :: "string outside" where
  "text_kernel = \<lparr>nft_table = drop (length preamble), nft_list = (\<lambda>t. t), no_table = [], sha256 = (\<lambda>x. x),
     groups_digest = (\<lambda>gs ips. concat (map fg_name gs))\<rparr>"

definition new_node :: "string fw_node" where
  "new_node = \<lparr>table = [], waiting = None, timer = None, applied = None, groups_mark = None, setting = Unset, node_name = ''n1'',
     members = [''10.0.0.1''], vm_bridges = [''virbr0''], filters = [], referenced = [], chains = None\<rparr>"

definition all_done :: answers where
  "all_done = \<lparr>an_check = Done, an_timer = Done, an_load = Done, an_undo = Done\<rparr>"

definition any_filter :: libvirt_answers where
  "any_filter = \<lparr>lv_accepts = (\<lambda>_. True), lv_held = (\<lambda>_. False)\<rparr>"

definition changed :: "string fw_node" where
  "changed = snd (apply_change text_kernel all_done ''c1'' 1000 (Some sample_raw) 60 new_node)"

lemma apply_sample:
  "apply_change text_kernel all_done ''c1'' 1000 (Some sample_raw) 60 new_node = (Inr (''c1'', 1060), changed)"
  "waiting changed \<noteq> None" "timer changed = Some ''c1''"
  by (simp_all add: changed_def apply_change_def sample_normalized TIMEOUT_MIN_S_def TIMEOUT_MAX_S_def all_done_def nft_check_def
      start_timer_def load_change_def nft_load_def mark_applied_def new_node_def Let_def)



theorem confirmed_change_is_saved_witness:
  "waiting changed \<noteq> None \<and> saved (snd (firewall_confirm ''c1'' changed)) = Some sample_doc"
  using confirmed_change_is_saved [of new_node all_done text_kernel "''c1''" 1000 "Some sample_raw" 60 _ changed, OF _ _ apply_sample(1,2)]
    apply_sample(2) sample_normalized
  by (auto simp: all_done_def new_node_def)

definition following :: "string fw_node" where
  "following = new_node\<lparr>setting := Saved (Some sample_raw), applied := Some (ruleset sample_doc new_node),
     groups_mark := Some (groups_digest text_kernel (fd_groups sample_doc) (fd_ipsets sample_doc)),
     table := nft_table text_kernel (ruleset sample_doc new_node)\<rparr>"

theorem rules_lost_at_reboot_witness:
  "saved following = Some sample_doc \<and> follow_once text_kernel any_filter Done (reboot text_kernel following) = (Inr False, reboot text_kernel following)"
proof -
  have "saved following = Some sample_doc" by (simp add: following_def saved_def sample_normalized)
  then show ?thesis
    using rules_lost_at_reboot [of following sample_doc text_kernel Done 0 any_filter]
    by (simp add: following_def new_node_def text_kernel_def Let_def ruleset_def)
qed

theorem change_stuck_after_reboot_witness:
  "waiting changed \<noteq> None \<and> finish_interrupted text_kernel Done 1030 (reboot text_kernel changed) = reboot text_kernel changed"
proof -
  obtain c where c: "waiting changed = Some c" "ch_deadline c = 1060"
    using apply_waiting [of new_node all_done text_kernel "''c1''" 1000 "Some sample_raw" 60 _ changed, OF _ _ apply_sample(1,2)]
    by (auto simp: all_done_def new_node_def)
  then show ?thesis
    using change_stuck_after_reboot [of changed c 1030 text_kernel Done any_filter all_done "''c2''" 1030 None 60] by (simp add: Let_def)
qed

end
