(* ===== verification/Calendar.thy ===== *)
theory Calendar
  imports Prelude
begin

text \<open>
  The part of Python's \<open>datetime\<close> that the schedules and the retention use: a moment in UTC as year, month, day and the
  seconds of the day, compared field by field; the proleptic Gregorian ordinal of a date, its weekday (Monday is 0), its
  ISO week, the next day and the first day of a month.
\<close>

type_synonym date = "int \<times> int \<times> int"
type_synonym moment = "date \<times> seconds"

definition is_leap :: "int \<Rightarrow> bool" where
  "is_leap y \<longleftrightarrow> y mod 4 = 0 \<and> (y mod 100 \<noteq> 0 \<or> y mod 400 = 0)"

definition days_in_month :: "int \<Rightarrow> int \<Rightarrow> int" where
  "days_in_month y m = (if m = 2 then (if is_leap y then 29 else 28) else if m \<in> {4, 6, 9, 11} then 30 else 31)"

definition days_before_year :: "int \<Rightarrow> int" where
  "days_before_year y = (y - 1) * 365 + (y - 1) div 4 - (y - 1) div 100 + (y - 1) div 400"

definition days_before_month :: "int \<Rightarrow> int \<Rightarrow> int" where
  "days_before_month y m = (if m = 1 then 0 else if m = 2 then 31 else
     [59, 90, 120, 151, 181, 212, 243, 273, 304, 334] ! nat (m - 3) + (if is_leap y then 1 else 0))"

fun ordinal :: "date \<Rightarrow> int" where
  "ordinal (y, m, d) = days_before_year y + days_before_month y m + d"

definition weekday :: "date \<Rightarrow> int" where
  "weekday x = (ordinal x + 6) mod 7"

fun valid_date :: "date \<Rightarrow> bool" where
  "valid_date (y, m, d) \<longleftrightarrow> 1 \<le> m \<and> m \<le> 12 \<and> 1 \<le> d \<and> d \<le> days_in_month y m"

fun next_day :: "date \<Rightarrow> date" where
  "next_day (y, m, d) = (if d < days_in_month y m then (y, m, d + 1) else if m < 12 then (y, m + 1, 1) else (y + 1, 1, 1))"

text \<open>The Monday the first ISO week of a year starts on, and \<open>isocalendar()[:2]\<close>.\<close>

definition iso_week1_monday :: "int \<Rightarrow> int" where
  "iso_week1_monday y =
     (let first = ordinal (y, 1, 1); wd = (first + 6) mod 7; monday = first - wd in if wd > 3 then monday + 7 else monday)"

definition iso_week :: "date \<Rightarrow> int \<times> int" where
  "iso_week x = (let y = fst x; today = ordinal x; week = (today - iso_week1_monday y) div 7 in
     if week < 0 then (y - 1, (today - iso_week1_monday (y - 1)) div 7 + 1)
     else if week \<ge> 52 \<and> today \<ge> iso_week1_monday (y + 1) then (y + 1, 1)
     else (y, week + 1))"

section \<open>Dates and their ordinals\<close>

lemma days_before_month_Suc:
  assumes "1 \<le> m" "m < 12"
  shows "days_before_month y (m + 1) = days_before_month y m + days_in_month y m"
proof -
  have "m = 1 \<or> m = 2 \<or> m = 3 \<or> m = 4 \<or> m = 5 \<or> m = 6 \<or> m = 7 \<or> m = 8 \<or> m = 9 \<or> m = 10 \<or> m = 11" using assms by presburger
  then show ?thesis by (elim disjE) (simp_all add: days_before_month_def days_in_month_def)
qed

lemma days_before_year_Suc: "days_before_year (y + 1) = days_before_year y + (if is_leap y then 366 else 365)"
proof -
  have step: "y div k = (y - 1) div k + (if y mod k = 0 then 1 else 0)" if "k > 0" for k :: int
  proof -
    have "y - 1 = y div k * k + (y mod k - 1)" by (simp add: algebra_simps)
    then have "(y - 1) div k = y div k + (y mod k - 1) div k" using that by (metis add.commute div_mult_self1 less_irrefl)
    moreover have "(y mod k - 1) div k = (if y mod k = 0 then - 1 else 0)"
      using that pos_mod_bound [OF that, of y] pos_mod_sign [OF that, of y]
      by (auto simp: div_eq_minus1 intro: div_pos_pos_trivial)
    ultimately show ?thesis by simp
  qed
  have gen: "y * 365 + p - q + r = (y - 1) * 365 + p' - q' + r' + (if a \<and> (\<not> b \<or> c) then 366 else 365)"
    if "p = p' + (if a then 1 else 0)" "q = q' + (if b then 1 else 0)" "r = r' + (if c then 1 else 0)" "c \<longrightarrow> b" "b \<longrightarrow> a"
    for a b c and p q r p' q' r' :: int
    using that by (cases a; cases b; cases c) (simp_all add: algebra_simps)
  have "(100::int) dvd 400" "(4::int) dvd 100" by simp_all
  then have "400 dvd y \<longrightarrow> 100 dvd y" "100 dvd y \<longrightarrow> 4 dvd y" by (blast intro: dvd_trans)+
  then have m: "y mod 400 = 0 \<longrightarrow> y mod 100 = 0" "y mod 100 = 0 \<longrightarrow> y mod 4 = 0" unfolding dvd_eq_mod_eq_0 .
  show ?thesis
    unfolding days_before_year_def is_leap_def add_diff_cancel_right' by (rule gen [OF step [of 4] step [of 100] step [of 400] m]) simp_all
qed

lemma ordinal_next_day: "valid_date x \<Longrightarrow> ordinal (next_day x) = ordinal x + 1 \<and> valid_date (next_day x)"
proof (cases x)
  case (fields y m d)
  moreover assume "valid_date x"
  ultimately have v: "1 \<le> m" "m \<le> 12" "1 \<le> d" "d \<le> days_in_month y m" by auto
  have "d < days_in_month y m \<or> d = days_in_month y m \<and> m < 12 \<or> d = days_in_month y m \<and> m = 12" using v by linarith
  then consider "d < days_in_month y m" | "d = days_in_month y m" "m < 12" | "d = days_in_month y m" "m = 12" by blast
  then show ?thesis
  proof cases
    case 1
    then show ?thesis using v fields by simp
  next
    case 2
    then show ?thesis using v fields days_before_month_Suc [of m y] by (auto simp: days_in_month_def)
  next
    case 3
    then show ?thesis using fields days_before_year_Suc [of y] by (simp add: days_before_month_def days_in_month_def)
  qed
qed

lemma weekday_next_day: "valid_date x \<Longrightarrow> weekday (next_day x) = (weekday x + 1) mod 7"
  using ordinal_next_day [of x] by (simp add: weekday_def) presburger

lemma next_day_greater: "valid_date x \<Longrightarrow> x < next_day x"
  by (cases x) (auto simp: less_prod_def)

lemma next_day_least:
  assumes "valid_date x" "valid_date z" "x < z"
  shows "next_day x \<le> z"
proof (cases x; cases z)
  fix y m d y' m' d' assume "x = (y, m, d)" "z = (y', m', d')"
  moreover have "m' = m \<Longrightarrow> y' = y \<Longrightarrow> d' \<le> days_in_month y m" using calculation assms(2) by simp
  ultimately show ?thesis using assms by (cases "y' = y"; cases "m' = m") (auto simp: less_prod_def less_eq_prod_def)
qed

end
