(* ===== verification/Backups.thy ===== *)
theory Backups
  imports Calendar
begin

text \<open>
  Which backups are kept and when the next one is made: the retention policy (\<open>app/core/backup_retention.py\<close>), its
  application to a VM's finished backups and the schedules' next runs (\<open>app/core/backups.py\<close>,
  \<open>app/repositories/sqlite/backups.py\<close>), and the copy of a backup store into another one under its own policy
  (\<open>app/core/backup_store_sync.py\<close>).

  The times of the records are moments in UTC, as the code writes them; their ISO text is not modelled, and its order as
  text is the order of the moments. Deleting a backup's files and copying one are answered by the environment.
\<close>

section \<open>The policy\<close>

record policy =
  po_last :: "int option"
  po_daily :: "int option"
  po_weekly :: "int option"
  po_monthly :: "int option"

text \<open>\<open>sorted(..., key, reverse=True)\<close>: newest first, equal ones in their order.\<close>

definition newest_first :: "('k \<times> moment) list \<Rightarrow> ('k \<times> moment) list" where
  "newest_first backups = rev (sort_key snd (rev backups))"

text \<open>The loop over the backups for one period.\<close>

fun newest_of_periods :: "(moment \<Rightarrow> 'p) \<Rightarrow> int \<Rightarrow> 'p list \<Rightarrow> ('k \<times> moment) list \<Rightarrow> 'k list" where
  "newest_of_periods period count seen [] = []"
| "newest_of_periods period count seen ((i, ts) # rest) =
     (if period ts \<in> set seen then newest_of_periods period count seen rest
      else i # (if int (length seen + 1) \<ge> count then [] else newest_of_periods period count (seen @ [period ts]) rest))"

definition kept_by :: "(moment \<Rightarrow> 'p) \<Rightarrow> int option \<Rightarrow> ('k \<times> moment) list \<Rightarrow> 'k list" where
  "kept_by period count ordered = (if num_true count then newest_of_periods period (the count) [] ordered else [])"

definition day_of :: "moment \<Rightarrow> date" where
  "day_of ts = fst ts"

definition week_of :: "moment \<Rightarrow> int \<times> int" where
  "week_of ts = iso_week (fst ts)"

definition month_of :: "moment \<Rightarrow> int \<times> int" where
  "month_of ts = (fst (fst ts), fst (snd (fst ts)))"

definition kept :: "('k \<times> moment) list \<Rightarrow> policy \<Rightarrow> 'k set" where
  "kept backups pol = (let ordered = newest_first backups in
     set (map fst (take (nat (max (num_or (po_last pol) 0) 0)) ordered))
     \<union> set (kept_by day_of (po_daily pol) ordered)
     \<union> set (kept_by week_of (po_weekly pol) ordered)
     \<union> set (kept_by month_of (po_monthly pol) ordered))"

section \<open>Applying it to a VM's backups\<close>

record backup =
  bk_id :: nat
  bk_vm :: string
  bk_status :: string
  bk_created :: moment
  bk_verification :: "string option"
  bk_imported_from :: "string option"

definition finished_of :: "string \<Rightarrow> backup list \<Rightarrow> backup list" where
  "finished_of vm table = filter (\<lambda>r. bk_vm r = vm \<and> bk_status r = ''succeeded'' \<and> bk_imported_from r = None) table"

datatype removal = Removed | Not_only_a_backup | Broke

text \<open>The loop over the rows the policy does not keep; \<open>False\<close>: an exception ended it.\<close>

fun remove_rows :: "(nat \<Rightarrow> bool) \<Rightarrow> (nat \<Rightarrow> removal) \<Rightarrow> nat set \<Rightarrow> backup list \<Rightarrow> backup list \<Rightarrow> bool \<times> backup list" where
  "remove_rows in_use files keep [] table = (True, table)"
| "remove_rows in_use files keep (r # rows) table =
     (if bk_id r \<in> keep \<or> in_use (bk_id r) then remove_rows in_use files keep rows table
      else case files (bk_id r) of
          Removed \<Rightarrow> remove_rows in_use files keep rows (filter (\<lambda>b. bk_id b \<noteq> bk_id r) table)
        | Not_only_a_backup \<Rightarrow> remove_rows in_use files keep rows table
        | Broke \<Rightarrow> (False, table))"

definition corrupted :: "backup \<Rightarrow> bool" where
  "corrupted r \<longleftrightarrow> bk_verification r = Some ''corrupted''"

definition stamps :: "backup list \<Rightarrow> (nat \<times> moment) list" where
  "stamps rows = map (\<lambda>r. (bk_id r, bk_created r)) rows"

definition retained :: "policy \<Rightarrow> backup list \<Rightarrow> nat set" where
  "retained pol rows = (let bad = bk_id ` set (filter corrupted rows) in
     kept (stamps (filter (\<lambda>r. bk_id r \<notin> bad) rows)) pol \<union> (kept (stamps rows) pol \<inter> bad))"

definition apply_retention :: "(nat \<Rightarrow> bool) \<Rightarrow> (nat \<Rightarrow> removal) \<Rightarrow> string \<Rightarrow> policy \<Rightarrow> backup list \<Rightarrow> bool \<times> backup list" where
  "apply_retention in_use files vm pol table =
     (let rows = finished_of vm table in remove_rows in_use files (retained pol rows) rows table)"

section \<open>Schedules\<close>

record schedule =
  sc_id :: nat
  sc_vm :: string
  sc_frequency :: string
  sc_time :: string
  sc_policy :: policy
  sc_active :: bool
  sc_next_run :: moment
  sc_last_run :: "moment option"

text \<open>\<open>_retention_after\<close>: the VM's own schedule decides; an exception ends there.\<close>

definition retention_after :: "(nat \<Rightarrow> bool) \<Rightarrow> (nat \<Rightarrow> removal) \<Rightarrow> schedule list \<Rightarrow> string \<Rightarrow> backup list \<Rightarrow> backup list" where
  "retention_after in_use files schedules vm table = (case find (\<lambda>s. sc_vm s = vm) schedules of
       None \<Rightarrow> table
     | Some s \<Rightarrow> snd (apply_retention in_use files vm (sc_policy s) table))"

text \<open>\<open>hh, mm = (int(x) for x in time.split(":"))\<close> and \<open>replace(hour=hh, minute=mm)\<close>: \<open>None\<close> where Python raises.\<close>

definition clock_of :: "string \<Rightarrow> seconds option" where
  "clock_of time = (case map int_of_text (split_on (CHR '':'') time) of
       [Some hh, Some mm] \<Rightarrow> if 0 \<le> hh \<and> hh < 24 \<and> 0 \<le> mm \<and> mm < 60 then Some (of_int (hh * 3600 + mm * 60)) else None
     | _ \<Rightarrow> None)"

text \<open>The loop to the next Monday: at most six days, so seven turns are enough (\<open>to_monday_is_monday\<close>).\<close>

fun to_monday :: "nat \<Rightarrow> date \<Rightarrow> date" where
  "to_monday 0 d = d"
| "to_monday (Suc n) d = (if weekday d \<noteq> 0 then to_monday n (next_day d) else d)"

fun first_of_month :: "date \<Rightarrow> date" where
  "first_of_month (y, m, d) = (y, m, 1)"

fun first_of_next_month :: "date \<Rightarrow> date" where
  "first_of_next_month (y, m, d) = (y + (if m = 12 then 1 else 0), m mod 12 + 1, d)"

definition next_run :: "string \<Rightarrow> string \<Rightarrow> moment \<Rightarrow> moment option" where
  "next_run frequency time base = (case clock_of time of
       None \<Rightarrow> None
     | Some t \<Rightarrow>
         let candidate = if (fst base, t) \<le> base then next_day (fst base) else fst base in
         Some (if frequency = ''weekly'' then (to_monday 7 candidate, t)
           else if frequency = ''monthly'' then
             (let first = first_of_month candidate in
              if (first, t) \<le> base then (first_of_next_month first, t) else (first, t))
           else (candidate, t)))"

definition due_schedules :: "moment \<Rightarrow> schedule list \<Rightarrow> schedule list" where
  "due_schedules now jobs = filter (\<lambda>j. sc_active j \<and> sc_next_run j \<le> now) jobs"

definition record_schedule_run :: "nat \<Rightarrow> moment \<Rightarrow> moment \<Rightarrow> schedule list \<Rightarrow> schedule list" where
  "record_schedule_run i now nxt jobs = map (\<lambda>j. if sc_id j = i then j\<lparr>sc_last_run := Some now, sc_next_run := nxt\<rparr> else j) jobs"

datatype backup_end = Vm_busy | Failed | Made

text \<open>\<open>run_due_schedules\<close>: what each backup ended with is given; \<open>None\<close> where a stored time does not read (an exception).\<close>

fun run_due_loop :: "(string \<Rightarrow> bool) \<Rightarrow> (string \<Rightarrow> backup_end) \<Rightarrow> moment \<Rightarrow> schedule list \<Rightarrow> schedule list \<Rightarrow> schedule list option" where
  "run_due_loop hosted run now [] jobs = Some jobs"
| "run_due_loop hosted run now (j # due) jobs =
     (if \<not> hosted (sc_vm j) \<or> run (sc_vm j) = Vm_busy then run_due_loop hosted run now due jobs
      else case next_run (sc_frequency j) (sc_time j) now of
          None \<Rightarrow> None
        | Some nxt \<Rightarrow> run_due_loop hosted run now due (record_schedule_run (sc_id j) now nxt jobs))"

definition run_due_schedules :: "(string \<Rightarrow> bool) \<Rightarrow> (string \<Rightarrow> backup_end) \<Rightarrow> moment \<Rightarrow> schedule list \<Rightarrow> schedule list option" where
  "run_due_schedules hosted run now jobs = run_due_loop hosted run now (due_schedules now jobs) jobs"

section \<open>Copying a store\<close>

text \<open>A backup of a store is its VM and its stamp, with the time its manifest gives.\<close>

type_synonym copy_key = "string \<times> string"

definition candidates :: "(copy_key, moment) dict \<Rightarrow> (copy_key, moment) dict \<Rightarrow> string \<Rightarrow> (copy_key, moment) dict" where
  "candidates here there vm = filter (\<lambda>(k, _). fst k = vm) (dict_of (there @ here))"

fun copy_each :: "(copy_key \<Rightarrow> bool) \<Rightarrow> (copy_key, moment) dict \<Rightarrow> copy_key list \<Rightarrow> (copy_key, moment) dict
    \<Rightarrow> bool \<times> (copy_key, moment) dict" where
  "copy_each works there [] target = (True, target)"
| "copy_each works there (k # ks) target = (case map_of there k of
       Some m \<Rightarrow> if works k then copy_each works there ks (dict_set k m target) else (False, target)
     | None \<Rightarrow> (False, target))"

text \<open>Deleting a backup that is not there raises (\<open>rmdir\<close> of a missing directory).\<close>

fun delete_each :: "(copy_key \<Rightarrow> bool) \<Rightarrow> copy_key list \<Rightarrow> (copy_key, moment) dict \<Rightarrow> bool \<times> (copy_key, moment) dict" where
  "delete_each works [] target = (True, target)"
| "delete_each works (k # ks) target =
     (if works k \<and> k \<in> set (keys target) then delete_each works ks (dict_del k target) else (False, target))"

text \<open>One VM of \<open>run_job\<close>, then all of them; \<open>False\<close>: an exception ended it.\<close>

definition sync_vm :: "(copy_key \<Rightarrow> bool) \<Rightarrow> policy \<Rightarrow> (copy_key, moment) dict \<Rightarrow> (copy_key, moment) dict \<Rightarrow> string
    \<Rightarrow> (copy_key, moment) dict \<Rightarrow> bool \<times> (copy_key, moment) dict" where
  "sync_vm works pol here there vm target =
     (let keep = kept (candidates here there vm) pol;
          missing = sort (filter (\<lambda>k. k \<notin> set (keys here)) (filter (\<lambda>k. k \<in> keep) (keys (candidates here there vm))));
          extra = sort (filter (\<lambda>k. k \<notin> keep) (keys here))
      in case copy_each works there missing target of
          (False, t) \<Rightarrow> (False, t)
        | (True, t) \<Rightarrow> delete_each works extra t)"

fun sync_vms :: "(copy_key \<Rightarrow> bool) \<Rightarrow> policy \<Rightarrow> (copy_key, moment) dict \<Rightarrow> (copy_key, moment) dict \<Rightarrow> string list
    \<Rightarrow> (copy_key, moment) dict \<Rightarrow> bool \<times> (copy_key, moment) dict" where
  "sync_vms works pol here there [] target = (True, target)"
| "sync_vms works pol here there (vm # vms) target = (case sync_vm works pol here there vm target of
       (False, t) \<Rightarrow> (False, t)
     | (True, t) \<Rightarrow> sync_vms works pol here there vms t)"

definition run_sync :: "(copy_key \<Rightarrow> bool) \<Rightarrow> policy \<Rightarrow> (copy_key, moment) dict \<Rightarrow> (copy_key, moment) dict
    \<Rightarrow> bool \<times> (copy_key, moment) dict" where
  "run_sync works pol here there = sync_vms works pol here there (sort (dedup (map fst (keys here @ keys there)))) here"

end
