(* ===== verification/Backup_Props.thy ===== *)
theory Backup_Props
  imports Backups
begin

text \<open>
  What the retention keeps, against a definition of the policy that does not walk through a list; that the newest good
  backup always stays; that a schedule's next run is the first moment of its kind; and what a copy job does to the
  target store, with one VM and with several.
\<close>

section \<open>The policy as a definition\<close>

definition newer :: "('k \<times> moment) set \<Rightarrow> 'k \<times> moment \<Rightarrow> ('k \<times> moment) set" where
  "newer B b = {c \<in> B. snd b < snd c}"

definition among_last :: "int option \<Rightarrow> ('k \<times> moment) set \<Rightarrow> 'k \<times> moment \<Rightarrow> bool" where
  "among_last n B b \<longleftrightarrow> (case n of None \<Rightarrow> False | Some k \<Rightarrow> int (card (newer B b)) < k)"

text \<open>The newest of its period, and fewer than \<open>n\<close> periods have a newer one.\<close>

definition newest_of_recent :: "(moment \<Rightarrow> 'p) \<Rightarrow> int option \<Rightarrow> ('k \<times> moment) set \<Rightarrow> 'k \<times> moment \<Rightarrow> bool" where
  "newest_of_recent period n B b \<longleftrightarrow> (case n of None \<Rightarrow> False
     | Some k \<Rightarrow> period (snd b) \<notin> (\<lambda>c. period (snd c)) ` newer B b \<and> int (card ((\<lambda>c. period (snd c)) ` newer B b)) < k)"

definition policy_ok :: "policy \<Rightarrow> bool" where
  "policy_ok pol \<longleftrightarrow> list_all (\<lambda>n. case n of None \<Rightarrow> True | Some k \<Rightarrow> 1 \<le> k) [po_last pol, po_daily pol, po_weekly pol, po_monthly pol]"

abbreviation newest_sorted :: "('k \<times> moment) list \<Rightarrow> bool" where
  "newest_sorted \<equiv> sorted_wrt (\<lambda>a b. snd b < snd a)"

lemma newer_split:
  assumes "newest_sorted (pre @ b # post)"
  shows "newer (set (pre @ b # post)) b = set pre"
  using assms by (force simp: newer_def sorted_wrt_append)

lemma newest_first_sorted:
  assumes "distinct (map snd xs)"
  shows "newest_sorted (newest_first xs)" "set (newest_first xs) = set xs"
proof -
  have "sorted (map snd (sort_key snd (rev xs)))" by simp
  moreover have "distinct (map snd (sort_key snd (rev xs)))"
    using assms by (simp add: distinct_map)
  ultimately have "sorted_wrt (<) (map snd (sort_key snd (rev xs)))" by (simp add: strict_sorted_iff)
  then show "newest_sorted (newest_first xs)" by (simp add: newest_first_def sorted_wrt_rev sorted_wrt_map)
qed (simp add: newest_first_def)

lemma newest_sorted_distinct: "newest_sorted xs \<Longrightarrow> distinct xs"
  by (induction xs) auto

lemma take_newest:
  assumes "newest_sorted (pre @ xs)"
  shows "set (take n xs) = {b \<in> set xs. card (newer (set (pre @ xs)) b) < length pre + n}"
  using assms
proof (induction xs arbitrary: pre n)
  case (Cons b xs)
  have d: "distinct (pre @ b # xs)" by (rule newest_sorted_distinct [OF Cons.prems])
  have IH: "set (take n xs) = {c \<in> set xs. card (newer (set (pre @ b # xs)) c) < length pre + 1 + n}" for n
    using Cons.IH [of "pre @ [b]" n] Cons.prems by simp
  have card_b: "card (newer (set (pre @ b # xs)) b) = length pre"
    using newer_split [OF Cons.prems] d by (simp add: distinct_card)
  have more: "length pre < card (newer (set (pre @ b # xs)) c)" if c: "c \<in> set xs" for c
  proof -
    have "insert b (set pre) \<subseteq> newer (set (pre @ b # xs)) c"
      using Cons.prems c by (auto simp: newer_def sorted_wrt_append)
    then have "card (insert b (set pre)) \<le> card (newer (set (pre @ b # xs)) c)" by (intro card_mono) (auto simp: newer_def)
    then show ?thesis using d by (simp add: distinct_card)
  qed
  show ?case
  proof (cases n)
    case 0
    then show ?thesis using more card_b by (auto simp del: set_append dest: less_imp_not_less)
  next
    case (Suc k)
    then have "{c \<in> set (b # xs). card (newer (set (pre @ b # xs)) c) < length pre + n}
        = insert b {c \<in> set xs. card (newer (set (pre @ b # xs)) c) < length pre + 1 + k}" using card_b by auto
    then show ?thesis using IH [of k] Suc by simp
  qed
qed simp

lemma newest_of_periods_set:
  assumes "newest_sorted (pre @ xs)" "set seen = (\<lambda>c. period (snd c)) ` set pre" "distinct seen" "int (length seen) < n"
  shows "set (newest_of_periods period n seen xs) = fst ` {b \<in> set xs. newest_of_recent period (Some n) (set (pre @ xs)) b}"
  using assms
proof (induction xs arbitrary: pre seen)
  case (Cons b xs)
  let ?B = "set (pre @ b # xs)" and ?p = "\<lambda>c. period (snd c)"
  have newer_b: "newer ?B b = set pre" by (rule newer_split [OF Cons.prems(1)])
  have sorted: "newest_sorted ((pre @ [b]) @ xs)" using Cons.prems(1) by simp
  have card_seen: "card (?p ` set pre) = length seen" using Cons.prems(2,3) by (metis distinct_card)
  obtain i ts where b: "b = (i, ts)" by (cases b)
  show ?case
  proof (cases "period ts \<in> set seen")
    case True
    then have "set seen = ?p ` set (pre @ [b])" using Cons.prems(2) b by auto
    then have "set (newest_of_periods period n seen xs) = fst ` {c \<in> set xs. newest_of_recent period (Some n) (set ((pre @ [b]) @ xs)) c}"
      by (rule Cons.IH [OF sorted _ Cons.prems(3,4)])
    moreover have "\<not> newest_of_recent period (Some n) ?B b" using True newer_b b Cons.prems(2) by (simp add: newest_of_recent_def)
    ultimately show ?thesis using True b by auto
  next
    case False
    then have kept_b: "newest_of_recent period (Some n) ?B b"
      using newer_b b Cons.prems(2,4) card_seen by (simp add: newest_of_recent_def)
    have seen': "set (seen @ [period ts]) = ?p ` set (pre @ [b])" "distinct (seen @ [period ts])"
      using Cons.prems(2,3) False b by auto
    show ?thesis
    proof (cases "int (length seen + 1) \<ge> n")
      case True
      have "\<not> newest_of_recent period (Some n) ?B c" if c: "c \<in> set xs" for c
      proof -
        have "?p ` set (pre @ [b]) \<subseteq> ?p ` newer ?B c"
          using Cons.prems(1) c by (intro image_mono) (auto simp: newer_def sorted_wrt_append)
        then have "card (set (seen @ [period ts])) \<le> card (?p ` newer ?B c)"
          unfolding seen'(1) by (intro card_mono) (auto simp: newer_def)
        then show ?thesis using True seen'(2) distinct_card by (fastforce simp: newest_of_recent_def)
      qed
      then have "{c \<in> set (b # xs). newest_of_recent period (Some n) ?B c} = {b}" using kept_b by auto
      then show ?thesis using True False b by simp
    next
      case less: False
      have "set (newest_of_periods period n (seen @ [period ts]) xs)
          = fst ` {c \<in> set xs. newest_of_recent period (Some n) (set ((pre @ [b]) @ xs)) c}"
        using less by (intro Cons.IH [OF sorted seen']) simp
      moreover have "{c \<in> set (b # xs). newest_of_recent period (Some n) ?B c}
          = insert b {c \<in> set xs. newest_of_recent period (Some n) ?B c}" using kept_b by auto
      ultimately show ?thesis using less False b by simp
    qed
  qed
qed simp

lemma kept_by_set:
  assumes "newest_sorted xs" "case n of None \<Rightarrow> True | Some k \<Rightarrow> 1 \<le> k"
  shows "set (kept_by period n xs) = fst ` {b \<in> set xs. newest_of_recent period n (set xs) b}"
  using assms newest_of_periods_set [of "[]" xs "[]" period "the n"]
  by (cases n) (auto simp: kept_by_def num_true_def newest_of_recent_def)

text \<open>The retention keeps exactly what its policy says, and in any order the records come: a backup is kept when fewer than
  \<open>last\<close> backups are newer, or when it is the newest of its day and fewer than \<open>daily\<close> days have a newer backup, and the
  same for its ISO week and its month; the routine's walk through the sorted list is this definition.\<close>

theorem kept_is_the_policy:
  assumes "distinct (map snd backups)" "policy_ok pol"
  shows "kept backups pol = fst ` {b \<in> set backups.
      among_last (po_last pol) (set backups) b \<or> newest_of_recent day_of (po_daily pol) (set backups) b
      \<or> newest_of_recent week_of (po_weekly pol) (set backups) b \<or> newest_of_recent month_of (po_monthly pol) (set backups) b}"
proof -
  note s = newest_first_sorted [OF assms(1)]
  have last: "set (take (nat (max (num_or (po_last pol) 0) 0)) (newest_first backups))
      = {b \<in> set backups. among_last (po_last pol) (set backups) b}"
    using take_newest [of "[]" "newest_first backups"] s assms(2)
    by (cases "po_last pol") (auto simp: among_last_def num_or_def policy_ok_def)
  have week: "set (kept_by week_of (po_weekly pol) (newest_first backups))
      = fst ` {b \<in> set backups. newest_of_recent week_of (po_weekly pol) (set backups) b}"
    using kept_by_set [OF s(1), of "po_weekly pol" week_of] s(2) assms(2) by (simp add: policy_ok_def)
  have day: "set (kept_by day_of (po_daily pol) (newest_first backups))
      = fst ` {b \<in> set backups. newest_of_recent day_of (po_daily pol) (set backups) b}"
    using kept_by_set [OF s(1), of "po_daily pol" day_of] s(2) assms(2) by (simp add: policy_ok_def)
  have month: "set (kept_by month_of (po_monthly pol) (newest_first backups))
      = fst ` {b \<in> set backups. newest_of_recent month_of (po_monthly pol) (set backups) b}"
    using kept_by_set [OF s(1), of "po_monthly pol" month_of] s(2) assms(2) by (simp add: policy_ok_def)
  show ?thesis unfolding kept_def Let_def set_map last day week month by blast
qed

section \<open>What the retention removes\<close>

lemma remove_rows_removed:
  assumes "q \<in> set table" "q \<notin> set (snd (remove_rows in_use files keep rows table))"
  shows "\<exists>r \<in> set rows. bk_id r = bk_id q \<and> bk_id r \<notin> keep \<and> \<not> in_use (bk_id r) \<and> files (bk_id r) = Removed"
  using assms
proof (induction rows arbitrary: table)
  case (Cons r rows)
  then show ?case
    using Cons.IH [of table] Cons.IH [of "filter (\<lambda>b. bk_id b \<noteq> bk_id r) table"]
    by (cases "bk_id r \<in> keep \<or> in_use (bk_id r)"; cases "files (bk_id r)"; cases "bk_id q = bk_id r") auto
qed simp

lemma newest_first_hd:
  assumes "b \<in> set xs" "\<And>c. c \<in> set xs \<Longrightarrow> c \<noteq> b \<Longrightarrow> snd c < snd b"
  shows "\<exists>rest. newest_first xs = b # rest"
proof -
  let ?s = "sort_key snd (rev xs)"
  have ne: "?s \<noteq> []" using assms(1) by (metis empty_iff empty_set set_rev set_sort)
  then have "last ?s \<in> set xs" using last_in_set [OF ne] by simp
  moreover obtain pre where pre: "?s = pre @ [last ?s]" using ne by (metis append_butlast_last_id)
  have "sorted (map snd (pre @ [last ?s]))" using pre sorted_sort_key [of snd "rev xs"] by metis
  then have "\<forall>c \<in> set (pre @ [last ?s]). snd c \<le> snd (last ?s)" by (auto simp: sorted_append)
  then have "\<forall>c \<in> set xs. snd c \<le> snd (last ?s)" using pre by (metis set_rev set_sort)
  ultimately have "last ?s = b" using assms by (metis leD)
  then show ?thesis using pre by (metis newest_first_def rev.simps(2) rev_append rev_rev_ident append_Cons append_Nil)
qed

text \<open>C35: the retention never leaves a VM without its newest good backup, however many corrupted copies are newer: with a
  policy that keeps at least one, the newest finished backup of this installation that was not found corrupted stays in the
  catalogue. And every row that went is a finished backup of that VM made here, not one imported from another site, not
  being read, and only once its files were removed.\<close>

theorem newest_good_backup_survives:
  assumes ids: "distinct (map bk_id table)" and last: "po_last pol = Some n" "1 \<le> n"
    and r: "r \<in> set (finished_of vm table)" "\<not> corrupted r"
    and newest: "\<forall>q \<in> set (finished_of vm table). \<not> corrupted q \<and> q \<noteq> r \<longrightarrow> bk_created q < bk_created r"
  shows "r \<in> set (snd (apply_retention in_use files vm pol table))
    \<and> (\<forall>q \<in> set table - set (snd (apply_retention in_use files vm pol table)).
         q \<in> set (finished_of vm table) \<and> \<not> in_use (bk_id q) \<and> files (bk_id q) = Removed)"
proof -
  let ?rows = "finished_of vm table" and ?after = "snd (apply_retention in_use files vm pol table)"
  have same: "q = q'" if "q \<in> set table" "q' \<in> set table" "bk_id q = bk_id q'" for q q'
    using ids that by (metis distinct_map inj_onD)
  have sub: "set ?rows \<subseteq> set table" by (auto simp: finished_of_def)
  have removed: "q \<in> set ?rows \<and> bk_id q \<notin> retained pol ?rows \<and> \<not> in_use (bk_id q) \<and> files (bk_id q) = Removed"
    if q: "q \<in> set table" "q \<notin> set ?after" for q
  proof -
    obtain row where "row \<in> set ?rows" "bk_id row = bk_id q" "bk_id row \<notin> retained pol ?rows" "\<not> in_use (bk_id row)"
      "files (bk_id row) = Removed"
      using remove_rows_removed [of q table in_use files "retained pol ?rows" ?rows] q by (auto simp: apply_retention_def Let_def)
    moreover then have "row = q" using same q(1) sub by blast
    ultimately show ?thesis by simp
  qed
  let ?good = "filter (\<lambda>q. bk_id q \<notin> bk_id ` set (filter corrupted ?rows)) ?rows"
  have good: "set ?good = {q \<in> set ?rows. \<not> corrupted q}" using same sub by fastforce
  have "\<exists>rest. newest_first (stamps ?good) = (bk_id r, bk_created r) # rest"
  proof (rule newest_first_hd)
    have "r \<in> set ?good" using good r by blast
    then show "(bk_id r, bk_created r) \<in> set (stamps ?good)" by (auto simp: stamps_def simp del: set_filter)
  next
    fix c assume "c \<in> set (stamps ?good)" "c \<noteq> (bk_id r, bk_created r)"
    then obtain q where "q \<in> set ?good" "c = (bk_id q, bk_created q)" "q \<noteq> r" by (auto simp: stamps_def simp del: set_filter)
    then show "snd c < snd (bk_id r, bk_created r)" using newest good by auto
  qed
  then have "bk_id r \<in> kept (stamps ?good) pol" using last by (auto simp: kept_def Let_def num_or_def take_Cons' max_def)
  then have "bk_id r \<in> retained pol ?rows" by (simp add: retained_def Let_def)
  then have "r \<in> set ?after" using removed r sub by blast
  then show ?thesis using removed by blast
qed

section \<open>The next run\<close>

definition runs_on :: "string \<Rightarrow> date \<Rightarrow> bool" where
  "runs_on frequency d \<longleftrightarrow> (frequency = ''weekly'' \<longrightarrow> weekday d = 0) \<and> (frequency = ''monthly'' \<longrightarrow> snd (snd d) = 1)"

lemma to_monday_facts:
  assumes "valid_date d"
  shows "valid_date (to_monday n d) \<and> d \<le> to_monday n d \<and> (\<forall>z. valid_date z \<and> weekday z = 0 \<and> d \<le> z \<longrightarrow> to_monday n d \<le> z)"
  using assms
proof (induction n arbitrary: d)
  case (Suc n)
  show ?case
  proof (cases "weekday d = 0")
    case False
    have v: "valid_date (next_day d)" using ordinal_next_day Suc.prems by blast
    have "next_day d \<le> z" if "valid_date z" "weekday z = 0" "d \<le> z" for z
      using next_day_least [OF Suc.prems that(1)] that False by (metis order_le_less)
    then show ?thesis using Suc.IH [OF v] False next_day_greater [OF Suc.prems] by (auto dest: order.strict_trans2)
  qed (use Suc.prems in simp)
qed simp

lemma to_monday_is_monday:
  assumes "valid_date d" "weekday d = 0 \<or> 7 - weekday d < int n"
  shows "weekday (to_monday n d) = 0"
  using assms
proof (induction n arbitrary: d)
  case 0
  moreover have "weekday d < 7" by (simp add: weekday_def)
  ultimately show ?case by simp
next
  case (Suc n)
  have range: "0 \<le> weekday d" "weekday d < 7" by (simp_all add: weekday_def)
  show ?case
  proof (cases "weekday d = 0")
    case False
    have "weekday (next_day d) = (if weekday d = 6 then 0 else weekday d + 1)"
      using weekday_next_day [OF Suc.prems(1)] range by (auto simp: mod_pos_pos_trivial)
    then show ?thesis using Suc False ordinal_next_day by (auto split: if_splits)
  qed simp
qed

lemma first_of_month_facts:
  assumes "valid_date c"
  shows "valid_date (first_of_month c)" "snd (snd (first_of_month c)) = 1" "first_of_month c \<le> c"
    "valid_date (first_of_next_month (first_of_month c))" "snd (snd (first_of_next_month (first_of_month c))) = 1"
    "c < first_of_next_month (first_of_month c)"
    "\<And>z. valid_date z \<Longrightarrow> snd (snd z) = 1 \<Longrightarrow> first_of_month c < z \<Longrightarrow> first_of_next_month (first_of_month c) \<le> z"
  using assms by (cases c; force simp: days_in_month_def less_prod_def less_eq_prod_def split: if_splits)+

lemma lex_less: "((a, b) < (c, d)) = (a < c \<or> (a = c \<and> b < d))" for a c :: "'a::linorder" and b d :: "'b::linorder"
  by (auto simp: less_prod_def)

lemma moment_less: "(d, t) < (d', t) \<longleftrightarrow> d < (d' :: date)" for t :: seconds
  by (simp only: lex_less less_irrefl simp_thms)

text \<open>The first day on which the time of day is still ahead.\<close>

lemma candidate_facts:
  fixes base :: moment
  assumes v: "valid_date (fst base)" and c: "c = (if (fst base, t) \<le> base then next_day (fst base) else fst base)"
  shows "valid_date c \<and> base < (c, t) \<and> (\<forall>z. valid_date z \<and> base < (z, t) \<longrightarrow> c \<le> z)"
proof (cases base)
  case (Pair d u)
  then have d: "valid_date d" using v by simp
  have less: "base < (z, t) \<longleftrightarrow> d < z \<or> (d = z \<and> u < t)" for z using lex_less [of d u z t] Pair by blast
  show ?thesis
  proof (cases "(fst base, t) \<le> base")
    case True
    then have "\<not> u < t" unfolding Pair by simp
    moreover have "c = next_day d" using True c Pair by simp
    ultimately show ?thesis using less ordinal_next_day [OF d] next_day_greater [OF d] next_day_least [OF d] by blast
  next
    case False
    then have "u < t" unfolding Pair by simp
    moreover have "c = d" using False c Pair by simp
    ultimately show ?thesis using less d order.strict_implies_order by blast
  qed
qed

lemma next_run_facts:
  assumes time: "clock_of time = Some t" and now: "valid_date (fst now)"
  shows "\<exists>d. next_run frequency time now = Some (d, t) \<and> valid_date d \<and> runs_on frequency d \<and> now < (d, t)
    \<and> (\<forall>z. valid_date z \<and> runs_on frequency z \<and> now < (z, t) \<longrightarrow> d \<le> z)"
proof -
  define c where "c = (if (fst now, t) \<le> now then next_day (fst now) else fst now)"
  have c: "valid_date c" "now < (c, t)" "\<And>z. valid_date z \<Longrightarrow> now < (z, t) \<Longrightarrow> c \<le> z"
    using candidate_facts [OF now c_def] by blast+
  have later: "now < (z, t)" if "c \<le> z" for z
    using c(2) that moment_less by (metis order.strict_trans order_le_less)
  note run = next_run_def [of frequency time now, unfolded time option.case Let_def c_def [symmetric]]
  consider (w) "frequency = ''weekly''" | (m) "frequency = ''monthly''" | (d) "frequency \<noteq> ''weekly''" "frequency \<noteq> ''monthly''" by blast
  then show ?thesis
  proof cases
    case w
    have "weekday c < 7" by (simp add: weekday_def)
    then have "weekday (to_monday 7 c) = 0" using pos_mod_sign [of 7 "ordinal c + 6"]
      by (intro to_monday_is_monday [OF c(1)]) (auto simp: weekday_def)
    moreover have "runs_on frequency z = (weekday z = 0)" for z using w by (simp add: runs_on_def)
    moreover have "next_run frequency time now = Some (to_monday 7 c, t)" using w run by simp
    ultimately show ?thesis using to_monday_facts [OF c(1), of 7] c(3) later by blast
  next
    case m
    note f = first_of_month_facts [OF c(1)]
    have on: "runs_on frequency z = (snd (snd z) = 1)" for z using m by (simp add: runs_on_def)
    show ?thesis
    proof (cases "(first_of_month c, t) \<le> now")
      case True
      then have "next_run frequency time now = Some (first_of_next_month (first_of_month c), t)" using m run by simp
      moreover have "first_of_month c < z" if "now < (z, t)" for z using True that by (metis order.strict_trans1 moment_less)
      ultimately show ?thesis using f(4-7) later [OF order.strict_implies_order [OF f(6)]] on by blast
    next
      case False
      then have "next_run frequency time now = Some (first_of_month c, t)" "now < (first_of_month c, t)" using m run by auto
      then show ?thesis using f(1-3) c(3) on order_trans by blast
    qed
  next
    case d
    then have "next_run frequency time now = Some (c, t)" "\<And>z. runs_on frequency z" using run by (simp_all add: runs_on_def)
    then show ?thesis using c by blast
  qed
qed

text \<open>The next run of a schedule is the first moment after now that fits it: at its time of day, on a Monday when it is
  weekly, on the first of a month when it is monthly, strictly after now, and no fitting moment lies between; over the ends
  of months and years and in leap years too.\<close>

theorem next_run_is_the_next:
  assumes "clock_of time = Some t" "valid_date (fst now)"
  shows "\<exists>d. next_run frequency time now = Some (d, t) \<and> valid_date d \<and> runs_on frequency d \<and> now < (d, t)
    \<and> (\<forall>z. valid_date z \<and> runs_on frequency z \<and> now < (z, t) \<longrightarrow> d \<le> z)"
  using next_run_facts [OF assms] .

lemma next_run_later: "next_run f time now = Some m \<Longrightarrow> valid_date (fst now) \<Longrightarrow> now < m"
  using next_run_facts [of time _ now f] by (cases "clock_of time") (auto simp: next_run_def)

section \<open>A round of the schedules\<close>

lemma due_record:
  assumes "now < nxt"
  shows "due_schedules now (record_schedule_run i now nxt jobs) = filter (\<lambda>j. sc_id j \<noteq> i) (due_schedules now jobs)"
  using assms by (induction jobs) (auto simp: due_schedules_def record_schedule_run_def)

lemma run_due_loop_due:
  assumes "run_due_loop hosted run now due jobs = Some jobs'" "valid_date (fst now)"
  shows "due_schedules now jobs' = filter (\<lambda>j. sc_id j \<notin> sc_id ` {d \<in> set due. hosted (sc_vm d) \<and> run (sc_vm d) \<noteq> Vm_busy})
    (due_schedules now jobs)"
  using assms(1)
proof (induction due arbitrary: jobs)
  case (Cons d due)
  show ?case
  proof (cases "\<not> hosted (sc_vm d) \<or> run (sc_vm d) = Vm_busy")
    case True
    then have "{e \<in> set (d # due). hosted (sc_vm e) \<and> run (sc_vm e) \<noteq> Vm_busy} = {e \<in> set due. hosted (sc_vm e) \<and> run (sc_vm e) \<noteq> Vm_busy}"
      by auto
    then show ?thesis using Cons True by simp
  next
    case False
    then obtain nxt where n: "next_run (sc_frequency d) (sc_time d) now = Some nxt"
      "run_due_loop hosted run now due (record_schedule_run (sc_id d) now nxt jobs) = Some jobs'"
      using Cons.prems by (auto split: option.splits)
    then have "now < nxt" using next_run_later assms(2) by blast
    then show ?thesis using Cons.IH [OF n(2)] False
      by (auto simp: due_record intro!: filter_cong)
  qed
qed simp

text \<open>After a round of the scheduler no backup schedule is due any more except those that wait for a reason: the ones of
  VMs another member hosts and the ones whose VM was busy, which stay due as they were and are tried again at the next
  tick; a backup that failed has its next run set like one that was made.\<close>

theorem only_busy_schedules_stay_due:
  assumes "run_due_schedules hosted run now jobs = Some jobs'" "valid_date (fst now)" "distinct (map sc_id jobs)"
  shows "due_schedules now jobs' = filter (\<lambda>j. \<not> hosted (sc_vm j) \<or> run (sc_vm j) = Vm_busy) (due_schedules now jobs)"
proof -
  have "sc_id j \<in> sc_id ` {d \<in> set (due_schedules now jobs). hosted (sc_vm d) \<and> run (sc_vm d) \<noteq> Vm_busy}
      \<longleftrightarrow> hosted (sc_vm j) \<and> run (sc_vm j) \<noteq> Vm_busy" if "j \<in> set (due_schedules now jobs)" for j
  proof -
    have "d = j" if "d \<in> set (due_schedules now jobs)" "sc_id d = sc_id j" for d
      using assms(3) that \<open>j \<in> set (due_schedules now jobs)\<close> by (auto simp: due_schedules_def distinct_map inj_on_def)
    then show ?thesis using that by auto
  qed
  then show ?thesis
    using run_due_loop_due [OF assms(1) [unfolded run_due_schedules_def] assms(2)] by (simp cong: filter_cong)
qed

section \<open>Copy jobs\<close>

lemma newest_of_periods_subset: "set (newest_of_periods p n seen xs) \<subseteq> fst ` set xs"
proof (induction xs arbitrary: seen)
  case (Cons b xs)
  then show ?case by (cases b) (auto simp: subset_iff)
qed simp

lemma kept_by_subset: "set (kept_by p n (newest_first xs)) \<subseteq> fst ` set xs"
  using newest_of_periods_subset [of p "the n" "[]" "newest_first xs"] by (auto simp: kept_by_def newest_first_def)

lemma kept_subset: "kept xs pol \<subseteq> fst ` set xs"
proof -
  have "set (map fst (take n (newest_first xs))) \<subseteq> fst ` set xs" for n
    using set_take_subset [of n "newest_first xs"] by (auto simp: newest_first_def)
  then show ?thesis by (simp add: kept_def Let_def kept_by_subset)
qed

lemma kept_candidates:
  assumes "k \<in> kept (candidates here there vm) pol"
  shows "fst k = vm \<and> k \<in> set (keys (candidates here there vm)) \<and> k \<in> set (keys (there @ here))"
proof -
  obtain m where m: "(k, m) \<in> set (candidates here there vm)" using kept_subset assms by fastforce
  then have "(k, m) \<in> set (dict_of (there @ here))" by (simp add: candidates_def)
  then have "(k, m) \<in> set (there @ here)" by (rule dict_of_mem)
  then have "k \<in> fst ` set (there @ here)" by (metis image_eqI fst_conv)
  moreover have "k \<in> fst ` set (candidates here there vm)" using m by (metis image_eqI fst_conv)
  moreover have "fst k = vm" using m by (simp add: candidates_def)
  ultimately show ?thesis unfolding set_map by blast
qed

lemma keys_del: "set (keys (dict_del k d)) = set (keys d) - {k}"
  by (auto simp: AList.delete_eq)

lemma copy_each_True: "copy_each works there ks target = (True, t) \<Longrightarrow> set (keys t) = set (keys target) \<union> set ks"
proof (induction ks arbitrary: target)
  case (Cons k ks)
  then obtain m where "copy_each works there ks (dict_set k m target) = (True, t)" by (auto split: option.splits if_splits)
  then show ?case using Cons.IH by (simp add: dom_update)
qed simp

lemma delete_each_True: "delete_each works ks target = (True, t) \<Longrightarrow> set (keys t) = set (keys target) - set ks"
proof (induction ks arbitrary: target)
  case (Cons k ks)
  then have "delete_each works ks (dict_del k target) = (True, t)" by (simp split: if_splits)
  from Cons.IH [OF this] show ?case unfolding keys_del by auto
qed simp

lemma copy_each_works:
  "(\<And>k. works k) \<Longrightarrow> set ks \<subseteq> set (keys there) \<Longrightarrow> fst (copy_each works there ks target)"
  by (induction ks arbitrary: target) (auto split: option.splits simp: map_of_eq_None_iff)

lemma delete_each_works:
  assumes "\<And>k. works k" "distinct ks" "set ks \<subseteq> set (keys target)"
  shows "fst (delete_each works ks target)"
  using assms(2,3)
proof (induction ks arbitrary: target)
  case (Cons k ks)
  then have "set ks \<subseteq> set (keys (dict_del k target))" unfolding keys_del by auto
  then show ?case using Cons assms(1) by simp
qed simp

lemma dedup_single: "set (dedup xs) = {v} \<Longrightarrow> dedup xs = [v]"
proof -
  assume *: "set (dedup xs) = {v}"
  then have "length (dedup xs) = 1" using distinct_card [OF distinct_dedup, of xs] by simp
  then obtain y where "dedup xs = [y]" by (auto simp: length_Suc_conv)
  then show ?thesis using * by (metis list.set_intros(1) singletonD)
qed

lemma sync_vm_True:
  assumes "sync_vm works pol here there vm target = (True, t)"
  shows "set (keys t) = (set (keys target) \<union> (kept (candidates here there vm) pol - set (keys here)))
    - (set (keys here) - kept (candidates here there vm) pol)"
proof -
  let ?keep = "kept (candidates here there vm) pol"
  have missing: "set (sort (filter (\<lambda>k. k \<notin> set (keys here)) (filter (\<lambda>k. k \<in> ?keep) (keys (candidates here there vm)))))
      = ?keep - set (keys here)"
    unfolding set_sort set_filter using kept_candidates by blast
  have extra: "set (sort (filter (\<lambda>k. k \<notin> ?keep) (keys here))) = set (keys here) - ?keep" by (simp only: set_sort set_filter set_diff_eq)
  obtain u where u: "copy_each works there (sort (filter (\<lambda>k. k \<notin> set (keys here))
      (filter (\<lambda>k. k \<in> ?keep) (keys (candidates here there vm))))) target = (True, u)"
    "delete_each works (sort (filter (\<lambda>k. k \<notin> ?keep) (keys here))) u = (True, t)"
    using assms by (auto simp: sync_vm_def Let_def split: prod.splits bool.splits)
  show ?thesis unfolding delete_each_True [OF u(2)] copy_each_True [OF u(1)] missing extra ..
qed

lemma sync_vms_True:
  assumes "sync_vms works pol here there vms target = (True, t)" "k \<in> set (keys here)" "k \<in> set (keys t)"
  shows "k \<in> set (keys target) \<and> (\<forall>vm \<in> set vms. k \<in> kept (candidates here there vm) pol)"
  using assms(1)
proof (induction vms arbitrary: target)
  case Nil
  then show ?case using assms(3) by simp
next
  case (Cons vm vms)
  then obtain u where u: "sync_vm works pol here there vm target = (True, u)" "sync_vms works pol here there vms u = (True, t)"
    by (auto split: prod.splits bool.splits)
  then show ?case using Cons.IH [OF u(2)] sync_vm_True [OF u(1)] assms(2) by auto
qed

text \<open>A copy job between stores that hold backups of two VMs or more removes every backup the target had, whatever its
  policy keeps: what it removes while it looks at one VM is all the target's backups outside this VM's own selection, so
  each VM's turn removes the other VMs' backups, and none of those is copied again in the same run. Backups the source
  no longer has are lost.\<close>

theorem copy_job_removes_other_vms_backups:
  assumes run: "run_sync works pol here there = (True, target)"
    and vms: "v \<in> fst ` set (keys here @ keys there)" "w \<in> fst ` set (keys here @ keys there)" "v \<noteq> w"
    and k: "k \<in> set (keys here)"
  shows "k \<notin> set (keys target)"
proof
  assume "k \<in> set (keys target)"
  then have "\<forall>vm \<in> set (sort (dedup (map fst (keys here @ keys there)))). k \<in> kept (candidates here there vm) pol"
    using sync_vms_True [OF run [unfolded run_sync_def] k] by blast
  then have "\<forall>vm \<in> fst ` set (keys here @ keys there). k \<in> kept (candidates here there vm) pol"
    unfolding set_sort set_dedup set_map .
  then have "\<forall>vm \<in> fst ` set (keys here @ keys there). fst k = vm" using kept_candidates by blast
  then show False using vms by metis
qed

text \<open>With the backups of a single VM on both sides, a copy job that meets no failure does what it is for: it ends well, and
  the target then holds exactly the backups its own policy keeps among those of the two stores together, so a backup
  deleted at the source stays in the target as long as the policy keeps it.\<close>

theorem copy_job_of_one_vm:
  assumes works: "\<And>k. works k" and here: "dict_ok here" and vm: "\<forall>k \<in> set (keys here @ keys there). fst k = v"
    and some: "here @ there \<noteq> []"
  shows "fst (run_sync works pol here there) \<and> set (keys (snd (run_sync works pol here there))) = kept (candidates here there v) pol"
proof -
  let ?keep = "kept (candidates here there v) pol"
  let ?missing = "sort (filter (\<lambda>k. k \<notin> set (keys here)) (filter (\<lambda>k. k \<in> ?keep) (keys (candidates here there v))))"
  let ?extra = "sort (filter (\<lambda>k. k \<notin> ?keep) (keys here))"
  have "set (dedup (map fst (keys here @ keys there))) = {v}"
    using vm some by (cases here; cases there) (auto simp: set_dedup)
  then have one: "sort (dedup (map fst (keys here @ keys there))) = [v]" by (simp add: dedup_single)
  have "set ?missing \<subseteq> set (keys there)"
    unfolding set_sort set_filter using kept_candidates [of _ here there v pol] by auto
  then have "fst (copy_each works there ?missing here)" by (rule copy_each_works [OF works])
  then obtain u where u: "copy_each works there ?missing here = (True, u)"
    by (cases "copy_each works there ?missing here") auto
  have "set ?extra \<subseteq> set (keys u)" using copy_each_True [OF u] by auto
  then have "fst (delete_each works ?extra u)" using delete_each_works [of works ?extra u] works here by simp
  then have ok: "fst (sync_vm works pol here there v here)" using u by (simp add: sync_vm_def Let_def)
  then obtain t where t: "sync_vm works pol here there v here = (True, t)"
    by (cases "sync_vm works pol here there v here") auto
  have "set (keys t) = ?keep" unfolding sync_vm_True [OF t] by blast
  then show ?thesis using t unfolding run_sync_def one by simp
qed

section \<open>Instances\<close>

definition gfs :: policy where
  "gfs = \<lparr>po_last = Some 1, po_daily = Some 2, po_weekly = None, po_monthly = Some 1\<rparr>"

definition sample_backups :: "(nat \<times> moment) list" where
  "sample_backups = [(1, (2024, 2, 28), 100), (2, (2024, 2, 29), 100), (3, (2024, 2, 29), 200), (4, (2024, 3, 1), 50)]"

theorem kept_is_the_policy_witness:
  "kept sample_backups gfs = {3, 4} \<and> {3, 4} = fst ` {b \<in> set sample_backups.
      among_last (Some 1) (set sample_backups) b \<or> newest_of_recent day_of (Some 2) (set sample_backups) b
      \<or> newest_of_recent week_of None (set sample_backups) b \<or> newest_of_recent month_of (Some 1) (set sample_backups) b}"
proof -
  have "kept sample_backups gfs = {3, 4}" by code_simp
  moreover have "distinct (map snd sample_backups)" "policy_ok gfs" by code_simp+
  ultimately show ?thesis using kept_is_the_policy [of sample_backups gfs] by (simp add: gfs_def)
qed

definition good_and_bad :: "backup list" where
  "good_and_bad = [\<lparr>bk_id = 1, bk_vm = ''web'', bk_status = ''succeeded'', bk_created = ((2024, 2, 28), 100), bk_verification = None,
      bk_imported_from = None\<rparr>,
    \<lparr>bk_id = 2, bk_vm = ''web'', bk_status = ''succeeded'', bk_created = ((2024, 2, 29), 100), bk_verification = Some ''corrupted'',
      bk_imported_from = None\<rparr>]"

theorem newest_good_backup_survives_witness:
  "hd good_and_bad \<in> set (snd (apply_retention (\<lambda>_. False) (\<lambda>_. Removed) ''web'' (gfs\<lparr>po_daily := None, po_monthly := None\<rparr>) good_and_bad))"
  using newest_good_backup_survives [of good_and_bad "gfs\<lparr>po_daily := None, po_monthly := None\<rparr>" 1 "hd good_and_bad" "''web''"]
  by (simp add: good_and_bad_def gfs_def finished_of_def corrupted_def)

theorem next_run_is_the_next_witness:
  "clock_of ''02:30'' = Some 9000 \<and> next_run ''monthly'' ''02:30'' ((2024, 2, 29), 10000) = Some ((2024, 3, 1), 9000)
   \<and> (\<exists>d. next_run ''weekly'' ''02:30'' ((2024, 2, 29), 10000) = Some (d, 9000) \<and> weekday d = 0)"
proof -
  have t: "clock_of ''02:30'' = Some 9000" by code_simp
  have v: "valid_date (fst ((2024, 2, 29), 10000 :: rat))" by code_simp
  have "next_run ''monthly'' ''02:30'' ((2024, 2, 29), 10000) = Some ((2024, 3, 1), 9000)" by code_simp
  then show ?thesis using t next_run_is_the_next [OF t v, of "''weekly''"] by (auto simp: runs_on_def)
qed

definition nightly :: "nat \<Rightarrow> string \<Rightarrow> schedule" where
  "nightly i vm = \<lparr>sc_id = i, sc_vm = vm, sc_frequency = ''daily'', sc_time = ''02:30'', sc_policy = gfs, sc_active = True,
     sc_next_run = ((2024, 2, 29), 9000), sc_last_run = None\<rparr>"

theorem only_busy_schedules_stay_due_witness:
  "run_due_schedules (\<lambda>_. True) (\<lambda>vm. if vm = ''db'' then Vm_busy else Made) ((2024, 2, 29), 9010) [nightly 1 ''web'', nightly 2 ''db''] \<noteq> None
   \<and> due_schedules ((2024, 2, 29), 9010) (the (run_due_schedules (\<lambda>_. True) (\<lambda>vm. if vm = ''db'' then Vm_busy else Made)
       ((2024, 2, 29), 9010) [nightly 1 ''web'', nightly 2 ''db''])) = [nightly 2 ''db'']"
proof -
  let ?run = "run_due_schedules (\<lambda>_. True) (\<lambda>vm. if vm = ''db'' then Vm_busy else Made) ((2024, 2, 29), 9010) [nightly 1 ''web'', nightly 2 ''db'']"
  have "next_run ''daily'' ''02:30'' ((2024, 2, 29), 9010) = Some ((2024, 3, 1), 9000)" by code_simp
  then have "?run \<noteq> None" by (simp add: run_due_schedules_def due_schedules_def nightly_def)
  then obtain jobs where "?run = Some jobs" by blast
  then show ?thesis using only_busy_schedules_stay_due [of "\<lambda>_. True" _ _ _ jobs]
    by (simp add: nightly_def due_schedules_def days_in_month_def is_leap_def)
qed

definition two_vms :: "(copy_key, moment) dict" where
  "two_vms = [((''a'', ''1''), (2024, 2, 28), 0), ((''b'', ''1''), (2024, 2, 28), 0)]"

theorem copy_job_removes_other_vms_backups_witness:
  "run_sync (\<lambda>_. True) gfs two_vms two_vms = (True, []) \<and> (''a'', ''1'') \<notin> set (keys (snd (run_sync (\<lambda>_. True) gfs two_vms two_vms)))"
proof -
  have run: "run_sync (\<lambda>_. True) gfs two_vms two_vms = (True, [])" by code_simp
  show ?thesis
    using copy_job_removes_other_vms_backups [OF run, of "''a''" "''b''" "(''a'', ''1'')"] run by (simp add: two_vms_def)
qed

theorem copy_job_of_one_vm_witness:
  "fst (run_sync (\<lambda>_. True) gfs [hd two_vms] [hd two_vms])
   \<and> set (keys (snd (run_sync (\<lambda>_. True) gfs [hd two_vms] [hd two_vms]))) = kept (candidates [hd two_vms] [hd two_vms] ''a'') gfs"
  using copy_job_of_one_vm [of "\<lambda>_. True" "[hd two_vms]" "[hd two_vms]" "''a''" gfs] by (simp add: two_vms_def)

end
