(* ===== verification/Shared_Claims.thy ===== *)
theory Shared_Claims
  imports Prelude
begin

text \<open>
  Claims on a guest shared by every process that works on it (\<open>app/core/shared_claims.py\<close>, \<open>app/core/vm_locks.py\<close>): an
  exclusive flock on a file named after the guest, with what holds it written in the file, and this process's claims in
  memory too.

  A process is a number. flock(2) is modelled as it is documented: one exclusive holder per file, let go when its
  descriptor is closed, which a process that dies does for all of its own; two descriptors of one process exclude each
  other too. \<open>take\<close> stands for its last attempt: the earlier ones of its 0.2 s change nothing. A release empties the file,
  then closes its descriptor; other processes may act in between. The files survive a process, not a reboot. SHA-256 of
  long names is the argument \<open>sha\<close>.
\<close>

section \<open>The file of a claim\<close>

type_synonym claim_key = "string \<times> string \<times> string"

text \<open>\<open>urllib.parse.quote(s, safe="")\<close> on bytes.\<close>

definition hex_digit :: "nat \<Rightarrow> char" where
  "hex_digit n = ''0123456789ABCDEF'' ! n"

definition unreserved :: "char \<Rightarrow> bool" where
  "unreserved c \<longleftrightarrow> is_alnum c \<or> c \<in> {CHR ''_'', CHR ''.'', CHR ''-'', CHR ''~''}"

definition quote_char :: "char \<Rightarrow> string" where
  "quote_char c = (if unreserved c then [c]
     else let n = of_char c :: nat in [CHR ''%'', hex_digit (n div 16), hex_digit (n mod 16)])"

definition url_quote :: "string \<Rightarrow> string" where
  "url_quote s = concat (map quote_char s)"

definition NAME_LIMIT :: nat where "NAME_LIMIT = 200"

fun claim_file :: "(string \<Rightarrow> string) \<Rightarrow> claim_key \<Rightarrow> string" where
  "claim_file sha (kind, node, name) =
     (let readable = kind @ ''@'' @ url_quote node @ ''@'' @ url_quote name @ ''.lock'' in
      if length readable > NAME_LIMIT then kind @ ''@sha256-'' @ sha (node @ [CHR 0x00] @ name) @ ''.lock'' else readable)"

section \<open>State\<close>

record content =
  ct_node :: string
  ct_name :: string
  ct_what :: string

text \<open>\<open>flocks\<close>: who holds the lock of a file, and for which key; \<open>said\<close>: what is in the files (\<open>None\<close>: empty); \<open>held\<close>: each
  process's own claims; \<open>leaving\<close>: claims forgotten and emptied whose descriptor is still open.\<close>

record claims =
  flocks :: "(string, nat \<times> claim_key) dict"
  said :: "(string, content option) dict"
  held :: "nat \<Rightarrow> (claim_key, string) dict"
  leaving :: "(nat \<times> claim_key) list"

definition no_claims :: claims where
  "no_claims = \<lparr>flocks = [], said = [], held = (\<lambda>_. []), leaving = []\<rparr>"

section \<open>Operations\<close>

fun take_claim :: "(string \<Rightarrow> string) \<Rightarrow> nat \<Rightarrow> claim_key \<Rightarrow> string \<Rightarrow> claims \<Rightarrow> (string + claim_key) \<times> claims" where
  "take_claim sha p (kind, node, name) what s =
     (let key = (kind, node, name); file = claim_file sha key in
      case map_of (held s p) key of
        Some running \<Rightarrow> (Inl running, s)
      | None \<Rightarrow>
          (case map_of (flocks s) file of
             Some _ \<Rightarrow> (Inl (case map_of (said s) file of Some (Some c) \<Rightarrow> if ct_what c = [] then ''another operation'' else ct_what c
                 | _ \<Rightarrow> ''another operation''), s\<lparr>said := (if map_of (said s) file = None then dict_set file None (said s) else said s)\<rparr>)
           | None \<Rightarrow> (Inr key, s\<lparr>flocks := dict_set file (p, key) (flocks s),
               said := dict_set file (Some \<lparr>ct_node = node, ct_name = name, ct_what = what\<rparr>) (said s),
               held := (held s)(p := dict_set key what (held s p))\<rparr>)))"

definition release_begin :: "(string \<Rightarrow> string) \<Rightarrow> nat \<Rightarrow> claim_key \<Rightarrow> claims \<Rightarrow> claims" where
  "release_begin sha p key s = (case map_of (held s p) key of
       None \<Rightarrow> s
     | Some _ \<Rightarrow> s\<lparr>held := (held s)(p := dict_del key (held s p)), said := dict_set (claim_file sha key) None (said s),
         leaving := (p, key) # leaving s\<rparr>)"

definition release_end :: "(string \<Rightarrow> string) \<Rightarrow> nat \<Rightarrow> claim_key \<Rightarrow> claims \<Rightarrow> claims" where
  "release_end sha p key s = (if (p, key) \<in> set (leaving s)
     then s\<lparr>flocks := dict_del (claim_file sha key) (flocks s), leaving := removeAll (p, key) (leaving s)\<rparr> else s)"

text \<open>A process that dies: the kernel closes its descriptors, the files keep what they say.\<close>

definition dies :: "nat \<Rightarrow> claims \<Rightarrow> claims" where
  "dies p s = s\<lparr>flocks := filter (\<lambda>(_, q, _). q \<noteq> p) (flocks s), held := (held s)(p := []),
     leaving := filter (\<lambda>(q, _). q \<noteq> p) (leaving s)\<rparr>"

text \<open>\<open>_holder\<close>: what the file says, when somebody holds its lock.\<close>

definition file_holder :: "string \<Rightarrow> claims \<Rightarrow> content option" where
  "file_holder file s = (case map_of (said s) file of
       Some (Some c) \<Rightarrow> if map_of (flocks s) file = None then None else Some c
     | _ \<Rightarrow> None)"

definition holder :: "(string \<Rightarrow> string) \<Rightarrow> nat \<Rightarrow> claim_key \<Rightarrow> claims \<Rightarrow> string option" where
  "holder sha p key s = (case map_of (held s p) key of
       Some what \<Rightarrow> Some what
     | None \<Rightarrow> map_option ct_what (file_holder (claim_file sha key) s))"

text \<open>\<open>held_on\<close>: this process's own, then those the other files name.\<close>

definition held_on :: "nat \<Rightarrow> string \<Rightarrow> string \<Rightarrow> claims \<Rightarrow> string list" where
  "held_on p kind node s =
     map snd (filter (\<lambda>((k, n, _), _). k = kind \<and> n = node) (held s p))
     @ concat (map (\<lambda>file. case file_holder file s of
           Some c \<Rightarrow> if ct_node c = node \<and> (kind, node, ct_name c) \<notin> set (keys (held s p)) then [ct_what c] else []
         | None \<Rightarrow> [])
       (filter (\<lambda>file. prefix (kind @ ''@'') file) (keys (said s))))"

text \<open>\<open>vm_locks\<close>: the kind of a VM's claim, the local node's name, and a claim released once.\<close>

definition vm_key :: "string \<Rightarrow> string option \<Rightarrow> claim_key" where
  "vm_key name node = (''vm'', (case node of Some (c # cs) \<Rightarrow> c # cs | _ \<Rightarrow> ''local''), name)"

definition vm_claim :: "(string \<Rightarrow> string) \<Rightarrow> nat \<Rightarrow> string \<Rightarrow> string option \<Rightarrow> string \<Rightarrow> claims \<Rightarrow> (string + claim_key) \<times> claims" where
  "vm_claim sha p name node what s = take_claim sha p (vm_key name node) what s"

section \<open>Steps\<close>

datatype claim_step = Take nat claim_key string | Begin_release nat claim_key | End_release nat claim_key | Dies nat

fun claims_do :: "(string \<Rightarrow> string) \<Rightarrow> claim_step \<Rightarrow> claims \<Rightarrow> claims" where
  "claims_do sha (Take p key what) s = snd (take_claim sha p key what s)"
| "claims_do sha (Begin_release p key) s = release_begin sha p key s"
| "claims_do sha (End_release p key) s = release_end sha p key s"
| "claims_do sha (Dies p) s = dies p s"

inductive claims_reachable :: "(string \<Rightarrow> string) \<Rightarrow> claims \<Rightarrow> bool" for sha where
  start: "claims_reachable sha no_claims"
| step: "claims_reachable sha s \<Longrightarrow> claims_reachable sha (claims_do sha x s)"

declare claim_file.simps [simp del]

section \<open>The invariant\<close>

text \<open>A claim in memory, or being let go, has the lock of its file for its key; a claim in memory is what its file says; the files
  of the locks are those of their keys; no claim is both in memory and being let go.\<close>

definition claims_ok :: "(string \<Rightarrow> string) \<Rightarrow> claims \<Rightarrow> bool" where
  "claims_ok sha s \<longleftrightarrow> dict_ok (flocks s) \<and>
     (\<forall>p key what. map_of (held s p) key = Some what \<longrightarrow> map_of (flocks s) (claim_file sha key) = Some (p, key)
        \<and> map_of (said s) (claim_file sha key) = Some (Some \<lparr>ct_node = fst (snd key), ct_name = snd (snd key), ct_what = what\<rparr>))
     \<and> (\<forall>p key. (p, key) \<in> set (leaving s) \<longrightarrow> map_of (flocks s) (claim_file sha key) = Some (p, key)
        \<and> map_of (held s p) key = None \<and> map_of (said s) (claim_file sha key) = Some None)
     \<and> (\<forall>path p key. map_of (flocks s) path = Some (p, key) \<longrightarrow> path = claim_file sha key
        \<and> (map_of (held s p) key \<noteq> None \<or> (p, key) \<in> set (leaving s)))"

lemma claims_okD:
  assumes "claims_ok sha s"
  shows "\<And>p key what. map_of (held s p) key = Some what \<Longrightarrow> map_of (flocks s) (claim_file sha key) = Some (p, key)"
    "\<And>p key what. map_of (held s p) key = Some what \<Longrightarrow>
       map_of (said s) (claim_file sha key) = Some (Some \<lparr>ct_node = fst (snd key), ct_name = snd (snd key), ct_what = what\<rparr>)"
    "\<And>p key. (p, key) \<in> set (leaving s) \<Longrightarrow> map_of (flocks s) (claim_file sha key) = Some (p, key)"
    "\<And>p key. (p, key) \<in> set (leaving s) \<Longrightarrow> map_of (said s) (claim_file sha key) = Some None"
    "\<And>p key. (p, key) \<in> set (leaving s) \<Longrightarrow> map_of (held s p) key = None"
    "\<And>path p key. map_of (flocks s) path = Some (p, key) \<Longrightarrow> path = claim_file sha key"
    "\<And>path p key. map_of (flocks s) path = Some (p, key) \<Longrightarrow> map_of (held s p) key \<noteq> None \<or> (p, key) \<in> set (leaving s)"
  using assms unfolding claims_ok_def by blast+

lemma claims_okI:
  assumes "dict_ok (flocks s)"
    and "\<And>p key what. map_of (held s p) key = Some what \<Longrightarrow> map_of (flocks s) (claim_file sha key) = Some (p, key)
        \<and> map_of (said s) (claim_file sha key) = Some (Some \<lparr>ct_node = fst (snd key), ct_name = snd (snd key), ct_what = what\<rparr>)"
    and "\<And>p key. (p, key) \<in> set (leaving s) \<Longrightarrow> map_of (flocks s) (claim_file sha key) = Some (p, key)
        \<and> map_of (held s p) key = None \<and> map_of (said s) (claim_file sha key) = Some None"
    and "\<And>path p key. map_of (flocks s) path = Some (p, key) \<Longrightarrow> path = claim_file sha key
        \<and> (map_of (held s p) key \<noteq> None \<or> (p, key) \<in> set (leaving s))"
  shows "claims_ok sha s"
  using assms unfolding claims_ok_def by blast

lemma take_claim_ok:
  assumes ok: "claims_ok sha s"
  shows "claims_ok sha (snd (take_claim sha p key what s))"
proof -
  obtain kind node name where key: "key = (kind, node, name)" by (cases key)
  note inv = claims_okD [OF ok]
  consider (busy) "map_of (held s p) key \<noteq> None" | (locked) "map_of (held s p) key = None" "map_of (flocks s) (claim_file sha key) \<noteq> None"
    | (free) "map_of (held s p) key = None" "map_of (flocks s) (claim_file sha key) = None" by blast
  then show ?thesis
  proof cases
    case busy
    then show ?thesis using ok key by (auto simp: Let_def)
  next
    case locked
    then obtain q k where f: "map_of (flocks s) (claim_file sha key) = Some (q, k)" by auto
    have same: "claim_file sha key = claim_file sha k" by (rule inv(6) [OF f])
    have "map_of (said s) (claim_file sha k) \<noteq> None" using inv(7) [OF f] inv(2) [of q k] inv(4) [of q k] by auto
    then have "map_of (said s) (claim_file sha key) \<noteq> None" using same by simp
    then have "snd (take_claim sha p key what s) = s" using key locked by (auto simp: Let_def)
    then show ?thesis using ok by simp
  next
    case free
    let ?s = "snd (take_claim sha p key what s)"
    have s': "flocks ?s = dict_set (claim_file sha key) (p, key) (flocks s)"
      "said ?s = dict_set (claim_file sha key) (Some \<lparr>ct_node = node, ct_name = name, ct_what = what\<rparr>) (said s)"
      "held ?s = (held s)(p := dict_set key what (held s p))" "leaving ?s = leaving s"
      using free key by (simp_all add: Let_def)
    have other: "claim_file sha k \<noteq> claim_file sha key" if "map_of (held s q) k = Some w \<or> (q, k) \<in> set (leaving s)" for q k w
      using that inv(1,3) free(2) by fastforce
    show ?thesis
    proof (rule claims_okI)
      show "dict_ok (flocks ?s)" unfolding s'(1) using ok by (simp add: claims_ok_def)
    next
      fix q k w assume "map_of (held ?s q) k = Some w"
      then show "map_of (flocks ?s) (claim_file sha k) = Some (q, k)
        \<and> map_of (said ?s) (claim_file sha k) = Some (Some \<lparr>ct_node = fst (snd k), ct_name = snd (snd k), ct_what = w\<rparr>)"
        unfolding s' using inv(1,2) other [of q k w] key
        by (cases "q = p \<and> k = key") (auto split: if_splits)
    next
      fix q k assume q: "(q, k) \<in> set (leaving ?s)"
      then have l: "(q, k) \<in> set (leaving s)" unfolding s' .
      have "\<not> (q = p \<and> k = key)" using inv(3) [OF l] free(2) by auto
      then show "map_of (flocks ?s) (claim_file sha k) = Some (q, k) \<and> map_of (held ?s q) k = None \<and> map_of (said ?s) (claim_file sha k) = Some None"
        unfolding s' using inv(3-5) [OF l] other [of q k] l by auto
    next
      fix path q k assume "map_of (flocks ?s) path = Some (q, k)"
      then show "path = claim_file sha k \<and> (map_of (held ?s q) k \<noteq> None \<or> (q, k) \<in> set (leaving ?s))"
        unfolding s' using inv(6) [of path q k] inv(7) [of path q k] by (auto split: if_splits)
    qed
  qed
qed

lemma release_begin_ok:
  assumes ok: "claims_ok sha s"
  shows "claims_ok sha (release_begin sha p key s)"
proof (cases "map_of (held s p) key")
  case None
  then show ?thesis using ok by (simp add: release_begin_def)
next
  case (Some what)
  note inv = claims_okD [OF ok]
  let ?s = "release_begin sha p key s"
  have s': "flocks ?s = flocks s" "said ?s = dict_set (claim_file sha key) None (said s)"
    "held ?s = (held s)(p := dict_del key (held s p))" "leaving ?s = (p, key) # leaving s"
    using Some by (simp_all add: release_begin_def)
  have other: "claim_file sha k \<noteq> claim_file sha key" if "map_of (flocks s) (claim_file sha k) = Some (q, k)" "(q, k) \<noteq> (p, key)" for q k
    using that inv(1) [OF Some] by auto
  show ?thesis
  proof (rule claims_okI)
    show "dict_ok (flocks ?s)" unfolding s' using ok by (simp add: claims_ok_def)
  next
    fix q k w assume "map_of (held ?s q) k = Some w"
    then have h: "map_of (held s q) k = Some w" "(q, k) \<noteq> (p, key)" unfolding s' by (auto split: if_splits)
    then show "map_of (flocks ?s) (claim_file sha k) = Some (q, k)
        \<and> map_of (said ?s) (claim_file sha k) = Some (Some \<lparr>ct_node = fst (snd k), ct_name = snd (snd k), ct_what = w\<rparr>)"
      unfolding s' using inv(1,2) other by simp
  next
    fix q k assume q: "(q, k) \<in> set (leaving ?s)"
    show "map_of (flocks ?s) (claim_file sha k) = Some (q, k) \<and> map_of (held ?s q) k = None \<and> map_of (said ?s) (claim_file sha k) = Some None"
    proof (cases "(q, k) = (p, key)")
      case True
      then show ?thesis unfolding s' using inv(1) [OF Some] by simp
    next
      case False
      then have l: "(q, k) \<in> set (leaving s)" using q unfolding s' by auto
      show ?thesis unfolding s' using inv(3-5) [OF l] other [OF inv(3) [OF l] False] by (auto split: if_splits)
    qed
  next
    fix path q k assume "map_of (flocks ?s) path = Some (q, k)"
    then have f: "map_of (flocks s) path = Some (q, k)" unfolding s' .
    show "path = claim_file sha k \<and> (map_of (held ?s q) k \<noteq> None \<or> (q, k) \<in> set (leaving ?s))"
      unfolding s' using inv(6,7) [OF f] by auto
  qed
qed

lemma release_end_ok:
  assumes ok: "claims_ok sha s"
  shows "claims_ok sha (release_end sha p key s)"
proof (cases "(p, key) \<in> set (leaving s)")
  case False
  then show ?thesis using ok by (simp add: release_end_def)
next
  case True
  note inv = claims_okD [OF ok]
  let ?s = "release_end sha p key s"
  have s': "flocks ?s = dict_del (claim_file sha key) (flocks s)" "said ?s = said s" "held ?s = held s"
    "leaving ?s = removeAll (p, key) (leaving s)"
    using True by (simp_all add: release_end_def)
  have mine: "map_of (flocks s) (claim_file sha key) = Some (p, key)" by (rule inv(3) [OF True])
  show ?thesis
  proof (rule claims_okI)
    show "dict_ok (flocks ?s)" unfolding s' using ok by (simp add: claims_ok_def)
  next
    fix q k w assume h: "map_of (held ?s q) k = Some w"
    then have "(q, k) \<noteq> (p, key)" unfolding s' using inv(5) [OF True] by auto
    moreover have f: "map_of (flocks s) (claim_file sha k) = Some (q, k)" using h inv(1) unfolding s' by blast
    ultimately have "claim_file sha k \<noteq> claim_file sha key" using mine by auto
    then show "map_of (flocks ?s) (claim_file sha k) = Some (q, k)
        \<and> map_of (said ?s) (claim_file sha k) = Some (Some \<lparr>ct_node = fst (snd k), ct_name = snd (snd k), ct_what = w\<rparr>)"
      using f h inv(2) unfolding s' by simp
  next
    fix q k assume "(q, k) \<in> set (leaving ?s)"
    then have l: "(q, k) \<in> set (leaving s)" "(q, k) \<noteq> (p, key)" unfolding s' by auto
    then have "claim_file sha k \<noteq> claim_file sha key" using inv(3) [OF l(1)] mine by auto
    then show "map_of (flocks ?s) (claim_file sha k) = Some (q, k) \<and> map_of (held ?s q) k = None \<and> map_of (said ?s) (claim_file sha k) = Some None"
      unfolding s' using inv(3-5) [OF l(1)] by simp
  next
    fix path q k assume "map_of (flocks ?s) path = Some (q, k)"
    then have f: "map_of (flocks s) path = Some (q, k)" "path \<noteq> claim_file sha key" unfolding s' by (auto split: if_splits)
    then have "(q, k) \<noteq> (p, key)" using inv(6) [OF f(1)] by auto
    then show "path = claim_file sha k \<and> (map_of (held ?s q) k \<noteq> None \<or> (q, k) \<in> set (leaving ?s))"
      unfolding s' using inv(6,7) [OF f(1)] by auto
  qed
qed

lemma map_of_filter_snd:
  "dict_ok d \<Longrightarrow> map_of (filter (\<lambda>(_, v). P v) d) k = (case map_of d k of Some v \<Rightarrow> if P v then Some v else None | None \<Rightarrow> None)"
proof (induction d)
  case (Cons a d)
  then show ?case by (cases a) (auto simp: map_of_eq_None_iff [symmetric] split: option.splits)
qed simp

lemma dies_ok:
  assumes ok: "claims_ok sha s"
  shows "claims_ok sha (dies p s)"
proof -
  note inv = claims_okD [OF ok]
  have d: "dict_ok (flocks s)" using ok by (simp add: claims_ok_def)
  have f: "map_of (flocks (dies p s)) path = Some (q, k) \<longleftrightarrow> map_of (flocks s) path = Some (q, k) \<and> q \<noteq> p" for path q k
    using map_of_filter_snd [OF d, of "\<lambda>(q, _). q \<noteq> p" path] by (auto simp: dies_def case_prod_unfold split: option.splits)
  show ?thesis
  proof (rule claims_okI)
    show "dict_ok (flocks (dies p s))" using d by (simp add: dies_def)
  next
    fix q k w assume "map_of (held (dies p s) q) k = Some w"
    then have "map_of (held s q) k = Some w" "q \<noteq> p" by (auto simp: dies_def split: if_splits)
    then show "map_of (flocks (dies p s)) (claim_file sha k) = Some (q, k)
        \<and> map_of (said (dies p s)) (claim_file sha k) = Some (Some \<lparr>ct_node = fst (snd k), ct_name = snd (snd k), ct_what = w\<rparr>)"
      unfolding f using inv(1,2) by (simp add: dies_def)
  next
    fix q k assume "(q, k) \<in> set (leaving (dies p s))"
    then have "(q, k) \<in> set (leaving s)" "q \<noteq> p" by (auto simp: dies_def)
    then show "map_of (flocks (dies p s)) (claim_file sha k) = Some (q, k) \<and> map_of (held (dies p s) q) k = None
        \<and> map_of (said (dies p s)) (claim_file sha k) = Some None"
      unfolding f using inv(3-5) by (simp add: dies_def)
  next
    fix path q k assume "map_of (flocks (dies p s)) path = Some (q, k)"
    then have g: "map_of (flocks s) path = Some (q, k)" "q \<noteq> p" unfolding f by auto
    then show "path = claim_file sha k \<and> (map_of (held (dies p s) q) k \<noteq> None \<or> (q, k) \<in> set (leaving (dies p s)))"
      using inv(6,7) [OF g(1)] by (auto simp: dies_def)
  qed
qed

lemma claims_do_ok: "claims_ok sha s \<Longrightarrow> claims_ok sha (claims_do sha x s)"
  by (cases x) (simp_all add: take_claim_ok release_begin_ok release_end_ok dies_ok)

lemma claims_reachable_ok: "claims_reachable sha s \<Longrightarrow> claims_ok sha s"
  by (induction rule: claims_reachable.induct) (simp_all add: claims_do_ok, simp add: claims_ok_def no_claims_def)

section \<open>What the claims promise\<close>

text \<open>C17: one operation at a time on a guest, over all the processes of the node: in every reachable state at most one process
  holds the claim of a guest; while one does, every other attempt, in that process or another, is refused with the name of
  the operation that runs and changes nobody's claims; and a process that dies leaves no claim behind, its guests are free
  at once although the file still names the dead operation.\<close>

theorem one_operation_per_guest:
  assumes reach: "claims_reachable sha s" and p: "map_of (held s p) key = Some what" and what: "what \<noteq> []"
  shows "(\<forall>q w. map_of (held s q) key = Some w \<longrightarrow> q = p)
    \<and> (\<forall>q w. fst (take_claim sha q key w s) = Inl what \<and> held (snd (take_claim sha q key w s)) = held s)
    \<and> (\<forall>q w. fst (take_claim sha q key w (dies p s)) = Inr key)"
proof -
  note inv = claims_okD [OF claims_reachable_ok [OF reach]]
  note inv' = claims_okD [OF dies_ok [OF claims_reachable_ok [OF reach]], of p]
  obtain kind node name where key: "key = (kind, node, name)" by (cases key)
  have one: "q = p" if "map_of (held s q) key = Some w" for q w using inv(1) [OF p] inv(1) [OF that] by simp
  have busy: "fst (take_claim sha q key w s) = Inl what \<and> held (snd (take_claim sha q key w s)) = held s" for q w
    using inv(1,2) [OF p] key what p one [of q] by (cases "map_of (held s q) key") (auto simp: Let_def)
  have free: "map_of (flocks (dies p s)) (claim_file sha key) = None"
  proof (rule ccontr)
    assume "map_of (flocks (dies p s)) (claim_file sha key) \<noteq> None"
    then obtain q k where f: "map_of (flocks (dies p s)) (claim_file sha key) = Some (q, k)" by auto
    have "dict_ok (flocks s)" using claims_reachable_ok [OF reach] by (simp add: claims_ok_def)
    then have "map_of (flocks s) (claim_file sha key) = Some (q, k) \<and> q \<noteq> p"
      using f map_of_filter_snd [of "flocks s" "\<lambda>(q, _). q \<noteq> p" "claim_file sha key"]
      by (auto simp: dies_def case_prod_unfold split: option.splits if_splits)
    then show False using inv(1) [OF p] by auto
  qed
  moreover have "map_of (held (dies p s) q) key = None" for q
    using one [of q] by (cases "map_of (held s q) key") (auto simp: dies_def)
  ultimately have "fst (take_claim sha q key w (dies p s)) = Inr key" for q w using key by (simp add: Let_def)
  then show ?thesis using one busy by blast
qed

section \<open>Files and guests\<close>

lemma hex_digit_inject: "m < 16 \<Longrightarrow> n < 16 \<Longrightarrow> hex_digit m = hex_digit n \<Longrightarrow> m = n"
  by (simp add: hex_digit_def nth_eq_iff_index_eq)

lemma hex_digit_no_at: "n < 16 \<Longrightarrow> hex_digit n \<noteq> CHR ''@''"
proof -
  assume "n < 16"
  then have "hex_digit n \<in> set ''0123456789ABCDEF''" unfolding hex_digit_def by (intro nth_mem) simp
  then show ?thesis by auto
qed

lemma char_split: "(of_char c :: nat) div 16 < 16" "(of_char c :: nat) mod 16 < 16"
  using of_char_mod_256 [of c] by (auto simp: less_mult_imp_div_less)

lemma quote_char_inject:
  assumes "quote_char c @ xs = quote_char d @ ys"
  shows "c = d \<and> xs = ys"
proof -
  have percent: "\<not> unreserved (CHR ''%'')" by (simp add: unreserved_def is_alnum_def is_digit_def is_lower_def is_upper_def less_eq_char_def)
  show ?thesis
  proof (cases "unreserved c \<or> unreserved d")
    case True
    then show ?thesis using assms percent by (auto simp: quote_char_def Let_def split: if_splits)
  next
    case False
    then have "hex_digit (of_char c div 16) = hex_digit (of_char d div 16)" "hex_digit (of_char c mod 16) = hex_digit (of_char d mod 16)" "xs = ys"
      using assms by (auto simp: quote_char_def Let_def)
    then have "(of_char c :: nat) div 16 = of_char d div 16" "(of_char c :: nat) mod 16 = of_char d mod 16" "xs = ys"
      using hex_digit_inject char_split by blast+
    then have "(of_char c :: nat) = of_char d" by (metis div_mult_mod_eq)
    then show ?thesis using \<open>xs = ys\<close> by simp
  qed
qed

lemma quote_char_not_Nil: "quote_char c \<noteq> []"
  by (simp add: quote_char_def Let_def)

lemma url_quote_inject: "url_quote s = url_quote t \<Longrightarrow> s = t"
proof (induction s arbitrary: t)
  case Nil
  then show ?case using quote_char_not_Nil by (cases t) (auto simp: url_quote_def)
next
  case (Cons c s)
  then obtain d u where t: "t = d # u" using quote_char_not_Nil by (cases t) (auto simp: url_quote_def)
  then have "quote_char c @ url_quote s = quote_char d @ url_quote u" using Cons.prems by (simp add: url_quote_def)
  then show ?case using quote_char_inject Cons.IH t by blast
qed

lemma url_quote_no_at: "CHR ''@'' \<notin> set (url_quote s)"
proof -
  have "CHR ''@'' \<notin> set (quote_char c)" for c
  proof (cases "unreserved c")
    case True
    moreover have "\<not> unreserved (CHR ''@'')" by (simp add: unreserved_def is_alnum_def is_digit_def is_lower_def is_upper_def less_eq_char_def)
    ultimately show ?thesis by (auto simp: quote_char_def)
  next
    case False
    then show ?thesis
      using hex_digit_no_at [OF char_split(1), of c] hex_digit_no_at [OF char_split(2), of c] by (simp add: quote_char_def Let_def)
  qed
  then show ?thesis by (auto simp: url_quote_def)
qed

text \<open>A key as the callers make it, and what is relied on of SHA-256's hexadecimal text.\<close>

definition good_key :: "claim_key \<Rightarrow> bool" where
  "good_key k \<longleftrightarrow> CHR ''@'' \<notin> set (fst k) \<and> CHR 0x00 \<notin> set (fst (snd k))"

definition sha_ok :: "(string \<Rightarrow> string) \<Rightarrow> bool" where
  "sha_ok sha \<longleftrightarrow> inj sha \<and> (\<forall>x. CHR ''@'' \<notin> set (sha x))"

lemma readable_parts:
  "CHR ''@'' \<notin> set kind \<Longrightarrow> split_on (CHR ''@'') (kind @ ''@'' @ url_quote node @ ''@'' @ url_quote name @ ''.lock'')
     = [kind, url_quote node, url_quote name @ ''.lock'']"
  using url_quote_no_at by (simp add: split_on_sep split_on_no_sep)

lemma hashed_parts:
  "CHR ''@'' \<notin> set kind \<Longrightarrow> CHR ''@'' \<notin> set h \<Longrightarrow> split_on (CHR ''@'') (kind @ ''@sha256-'' @ h @ ''.lock'') = [kind, ''sha256-'' @ h @ ''.lock'']"
  by (simp add: split_on_sep split_on_no_sep)

lemma split_first: "x \<notin> set a \<Longrightarrow> x \<notin> set b \<Longrightarrow> a @ x # c = b @ x # d \<Longrightarrow> a = b \<and> c = d"
proof (induction a arbitrary: b)
  case Nil
  then show ?case by (cases b) auto
next
  case (Cons y a)
  then show ?case by (cases b) auto
qed

lemma claim_file_inject:
  assumes "sha_ok sha" "good_key k" "good_key k'" "claim_file sha k = claim_file sha k'"
  shows "k = k'"
proof -
  obtain kind node name where k: "k = (kind, node, name)" by (cases k)
  obtain kind' node' name' where k': "k' = (kind', node', name')" by (cases k')
  let ?r = "kind @ ''@'' @ url_quote node @ ''@'' @ url_quote name @ ''.lock''"
  let ?r' = "kind' @ ''@'' @ url_quote node' @ ''@'' @ url_quote name' @ ''.lock''"
  let ?h = "kind @ ''@sha256-'' @ sha (node @ [CHR 0x00] @ name) @ ''.lock''"
  let ?h' = "kind' @ ''@sha256-'' @ sha (node' @ [CHR 0x00] @ name') @ ''.lock''"
  have at: "CHR ''@'' \<notin> set kind" "CHR ''@'' \<notin> set kind'" "\<And>x. CHR ''@'' \<notin> set (sha x)" "CHR 0x00 \<notin> set node" "CHR 0x00 \<notin> set node'"
    using assms(1-3) k k' by (simp_all add: good_key_def sha_ok_def)
  note parts = readable_parts [OF at(1)] readable_parts [OF at(2)] hashed_parts [OF at(1,3)] hashed_parts [OF at(2,3)]
  consider (rr) "?r = ?r'" | (rh) "?r = ?h'" | (hr) "?h = ?r'" | (hh) "?h = ?h'"
    using assms(4) unfolding k k' claim_file.simps Let_def by (metis (full_types))
  then show ?thesis
  proof cases
    case rr
    then have "[kind, url_quote node, url_quote name @ ''.lock''] = [kind', url_quote node', url_quote name' @ ''.lock'']"
      using parts(1,2) by metis
    then show ?thesis using url_quote_inject k k' by auto
  next
    case rh
    then have "length [kind, url_quote node, url_quote name @ ''.lock''] = length [kind', ''sha256-'' @ sha (node' @ [CHR 0x00] @ name') @ ''.lock'']"
      using parts(1,4) by metis
    then show ?thesis by simp
  next
    case hr
    then have "length [kind', url_quote node', url_quote name' @ ''.lock''] = length [kind, ''sha256-'' @ sha (node @ [CHR 0x00] @ name) @ ''.lock'']"
      using parts(2,3) by metis
    then show ?thesis by simp
  next
    case hh
    then have "[kind, ''sha256-'' @ sha (node @ [CHR 0x00] @ name) @ ''.lock''] = [kind', ''sha256-'' @ sha (node' @ [CHR 0x00] @ name') @ ''.lock'']"
      using parts(3,4) by metis
    then have "kind = kind'" "node @ CHR 0x00 # name = node' @ CHR 0x00 # name'"
      using assms(1) by (auto simp: sha_ok_def dest: injD)
    then show ?thesis using split_first [OF at(4,5)] k k' by blast
  qed
qed

text \<open>Every process sees every claim: in a reachable state where no release is half done, asking what holds a guest gives the
  operation when some process holds its claim and nothing when none does, whichever process asks; a name a killed process
  left in the file is not taken for a holder, and the claims of two guests never share a file.\<close>

theorem holder_is_the_holder:
  assumes reach: "claims_reachable sha s" and settled: "leaving s = []"
    and sha: "sha_ok sha" and good: "good_key key" "\<forall>q k. map_of (held s q) k \<noteq> None \<longrightarrow> good_key k"
  shows "holder sha p key s = Some what \<longleftrightarrow> (\<exists>q. map_of (held s q) key = Some what)"
proof -
  note inv = claims_okD [OF claims_reachable_ok [OF reach]]
  have same: "q = q' \<and> w = w'" if "map_of (held s q) key = Some w" "map_of (held s q') key = Some w'" for q q' w w'
    using inv(1) [OF that(1)] inv(1) [OF that(2)] that by simp
  show ?thesis
  proof (cases "map_of (flocks s) (claim_file sha key)")
    case None
    then have "map_of (held s q) key = None" for q using inv(1) [of q key] by (cases "map_of (held s q) key") auto
    then show ?thesis using None by (auto simp: holder_def file_holder_def split: option.splits)
  next
    case (Some v)
    then obtain q k where f: "map_of (flocks s) (claim_file sha key) = Some (q, k)" by (cases v) auto
    have h: "map_of (held s q) k \<noteq> None" using inv(7) [OF f] settled by simp
    then have "k = key" using inv(6) [OF f] claim_file_inject [OF sha] good by metis
    then obtain w where h: "map_of (held s q) key = Some w" using h by auto
    have "holder sha p key s = Some w"
    proof (cases "map_of (held s p) key")
      case None
      then show ?thesis using inv(2) [OF h] f by (simp add: holder_def file_holder_def)
    next
      case (Some w')
      then show ?thesis using same [OF h Some] by (simp add: holder_def)
    qed
    then show ?thesis using h same [OF h] by (metis option.inject)
  qed
qed

section \<open>Instances\<close>

definition backing_up :: claims where
  "backing_up = claims_do url_quote (Take 1 (vm_key ''web'' None) ''Backup'') no_claims"

lemma backing_up_reachable: "claims_reachable url_quote backing_up"
  unfolding backing_up_def by (rule claims_reachable.step [OF claims_reachable.start])

lemma backing_up_facts:
  "map_of (held backing_up 1) (vm_key ''web'' None) = Some ''Backup''"
  "map_of (held backing_up q) k \<noteq> None \<Longrightarrow> k = vm_key ''web'' None" "leaving backing_up = []"
  unfolding backing_up_def by (auto simp: no_claims_def vm_key_def Let_def split: if_splits)

theorem one_operation_per_guest_witness:
  "fst (take_claim url_quote 2 (vm_key ''web'' None) ''Restore'' backing_up) = Inl ''Backup''
   \<and> fst (take_claim url_quote 2 (vm_key ''web'' None) ''Restore'' (dies 1 backing_up)) = Inr (vm_key ''web'' None)"
  using one_operation_per_guest [OF backing_up_reachable backing_up_facts(1)] by simp

theorem holder_is_the_holder_witness:
  "holder url_quote 2 (vm_key ''web'' None) backing_up = Some ''Backup''"
proof -
  have "sha_ok url_quote" using url_quote_inject url_quote_no_at by (auto simp: sha_ok_def inj_def)
  moreover have "good_key (vm_key ''web'' None)" by (simp add: good_key_def vm_key_def)
  moreover then have "\<forall>q k. map_of (held backing_up q) k \<noteq> None \<longrightarrow> good_key k" using backing_up_facts(2) by blast
  ultimately show ?thesis
    using holder_is_the_holder [OF backing_up_reachable backing_up_facts(3), of "vm_key ''web'' None" 2 "''Backup''"] backing_up_facts(1) by blast
qed

end
