(* ===== verification/Tickets.thy ===== *)
theory Tickets
  imports Prelude
begin

text \<open>
  The session tickets' keys (\<open>app/core/tickets.py\<close>): a new key pair every day, made when a token is signed, the public keys
  kept eight days after their successor appeared, and the check of a token.

  A key pair is a number; its \<open>kid\<close>, a hash of the public key, is \<open>kid_of key\<close>. A token says which pair really signed it;
  PyJWT's \<open>decode\<close> is modelled as it is documented: the signature must be the given key's and \<open>exp\<close> in the future. The
  files' cache is left out. The two files are written one after the other, the public keys first.
\<close>

definition ROTATE_S :: int where "ROTATE_S = 24 * 3600"
definition KEEP_S :: int where "KEEP_S = 8 * 24 * 3600"

record public_key =
  pk_kid :: string
  pk_public :: nat
  pk_created :: int

record key_files =
  published :: "public_key list"
  private_key :: "nat option"

record token =
  tk_alg :: string
  tk_kid :: string
  tk_signer :: nat
  tk_exp :: int
  tk_claims :: string

text \<open>\<open>keys[:1] + [k for prev, k in pairwise(keys) if now - prev["created"] < KEEP_S]\<close>.\<close>

fun still_kept :: "int \<Rightarrow> public_key list \<Rightarrow> public_key list" where
  "still_kept now (prev # k # ks) = (if now - pk_created prev < KEEP_S then [k] else []) @ still_kept now (k # ks)"
| "still_kept now _ = []"

definition new_list :: "(nat \<Rightarrow> string) \<Rightarrow> nat \<Rightarrow> int \<Rightarrow> key_files \<Rightarrow> public_key list" where
  "new_list kid_of fresh now s =
     (let all_keys = \<lparr>pk_kid = kid_of fresh, pk_public = fresh, pk_created = now\<rparr> # published s in
      take 1 all_keys @ still_kept now all_keys)"

definition up_to_date :: "int \<Rightarrow> key_files \<Rightarrow> bool" where
  "up_to_date now s \<longleftrightarrow> published s \<noteq> [] \<and> now - pk_created (hd (published s)) < ROTATE_S \<and> private_key s \<noteq> None"

text \<open>\<open>ensure_keys\<close>, and what is on disk when it stops between its two writes.\<close>

definition ensure_keys :: "(nat \<Rightarrow> string) \<Rightarrow> nat \<Rightarrow> int \<Rightarrow> key_files \<Rightarrow> key_files" where
  "ensure_keys kid_of fresh now s =
     (if up_to_date now s then s else \<lparr>published = new_list kid_of fresh now s, private_key = Some fresh\<rparr>)"

definition ensure_keys_cut :: "(nat \<Rightarrow> string) \<Rightarrow> nat \<Rightarrow> int \<Rightarrow> key_files \<Rightarrow> key_files" where
  "ensure_keys_cut kid_of fresh now s = (if up_to_date now s then s else s\<lparr>published := new_list kid_of fresh now s\<rparr>)"

definition sign_local :: "(nat \<Rightarrow> string) \<Rightarrow> nat \<Rightarrow> int \<Rightarrow> string \<Rightarrow> int \<Rightarrow> key_files \<Rightarrow> token \<times> key_files" where
  "sign_local kid_of fresh now claims until s =
     (let s' = ensure_keys kid_of fresh now s; key = the (private_key s') in
      (\<lparr>tk_alg = ''EdDSA'', tk_kid = kid_of key, tk_signer = key, tk_exp = until, tk_claims = claims\<rparr>, s'))"

definition verification_key :: "string \<Rightarrow> key_files \<Rightarrow> nat option" where
  "verification_key kid s = map_option pk_public (find (\<lambda>e. pk_kid e = kid) (published s))"

definition decode :: "int \<Rightarrow> token \<Rightarrow> key_files \<Rightarrow> string option" where
  "decode now tok s =
     (if tk_alg tok \<noteq> ''EdDSA'' then None
      else case verification_key (tk_kid tok) s of
          None \<Rightarrow> None
        | Some key \<Rightarrow> if tk_signer tok = key \<and> now < tk_exp tok then Some (tk_claims tok) else None)"

section \<open>Runs\<close>

text \<open>Each time a token is signed: its time, the pair it would make, and whether it was cut between its two writes.\<close>

fun key_run :: "(nat \<Rightarrow> string) \<Rightarrow> (int \<times> nat \<times> bool) list \<Rightarrow> key_files \<Rightarrow> key_files" where
  "key_run kid_of [] s = s"
| "key_run kid_of ((now, fresh, cut_off) # xs) s =
     key_run kid_of xs ((if cut_off then ensure_keys_cut else ensure_keys) kid_of fresh now s)"

text \<open>Every entry's \<open>kid\<close> is its key's.\<close>

definition keys_ok :: "(nat \<Rightarrow> string) \<Rightarrow> key_files \<Rightarrow> bool" where
  "keys_ok kid_of s \<longleftrightarrow> list_all (\<lambda>e. pk_kid e = kid_of (pk_public e)) (published s)"

text \<open>\<open>key\<close> is published, and nothing newer than it is older than \<open>t\<close>.\<close>

fun fresh_above :: "int \<Rightarrow> nat \<Rightarrow> public_key list \<Rightarrow> bool" where
  "fresh_above t key [] = False"
| "fresh_above t key (e # es) = (pk_public e = key \<or> (t \<le> pk_created e \<and> fresh_above t key es))"

lemma still_kept_subset: "set (still_kept now ks) \<subseteq> set ks"
  by (induction now ks rule: still_kept.induct) auto

lemma new_list_keys_ok: "keys_ok kid_of s \<Longrightarrow> list_all (\<lambda>e. pk_kid e = kid_of (pk_public e)) (new_list kid_of fresh now s)"
  using still_kept_subset by (fastforce simp: keys_ok_def new_list_def Let_def list_all_iff)

lemma ensure_keys_ok:
  assumes "keys_ok kid_of s"
  shows "keys_ok kid_of (ensure_keys kid_of fresh now s)" "keys_ok kid_of (ensure_keys_cut kid_of fresh now s)"
  using assms new_list_keys_ok [OF assms] by (simp_all add: ensure_keys_def ensure_keys_cut_def keys_ok_def)

lemma still_kept_fresh:
  "fresh_above t key (k # ks) \<Longrightarrow> t \<le> pk_created prev \<Longrightarrow> now < t + KEEP_S \<Longrightarrow> fresh_above t key (still_kept now (prev # k # ks))"
proof (induction ks arbitrary: prev k)
  case Nil
  then show ?case by simp
next
  case (Cons k' ks)
  then show ?case by (cases "pk_public k = key") auto
qed

lemma fresh_above_new_list:
  assumes "fresh_above t key (published s)" "t \<le> now" "now < t + KEEP_S"
  shows "fresh_above t key (new_list kid_of fresh now s)"
proof -
  obtain k ks where p: "published s = k # ks" using assms(1) by (cases "published s") auto
  show ?thesis
    using still_kept_fresh [of t key k ks "\<lparr>pk_kid = kid_of fresh, pk_public = fresh, pk_created = now\<rparr>" now] assms p
    by (simp add: new_list_def Let_def)
qed

lemma key_run_fresh:
  assumes "fresh_above t key (published s)" "keys_ok kid_of s" "list_all (\<lambda>(now, _, _). t \<le> now \<and> now < t + KEEP_S) xs"
  shows "fresh_above t key (published (key_run kid_of xs s)) \<and> keys_ok kid_of (key_run kid_of xs s)"
  using assms
proof (induction xs arbitrary: s)
  case (Cons x xs)
  obtain now fresh cut_off where x: "x = (now, fresh, cut_off)" by (cases x)
  let ?s = "(if cut_off then ensure_keys_cut else ensure_keys) kid_of fresh now s"
  have "fresh_above t key (published ?s)"
    using Cons.prems fresh_above_new_list [of t key s now kid_of fresh] x by (simp add: ensure_keys_def ensure_keys_cut_def)
  moreover have "keys_ok kid_of ?s" using ensure_keys_ok Cons.prems(2) by simp
  ultimately show ?case using Cons x by simp
qed simp

lemma fresh_above_mem: "fresh_above t key es \<Longrightarrow> \<exists>e \<in> set es. pk_public e = key"
  by (induction es) auto

lemma verification_key_found:
  assumes "inj kid_of" "keys_ok kid_of s" "\<exists>e \<in> set (published s). pk_public e = key"
  shows "verification_key (kid_of key) s = Some key"
proof -
  obtain e where e: "find (\<lambda>e. pk_kid e = kid_of key) (published s) = Some e"
    using assms(2,3) by (cases "find (\<lambda>e. pk_kid e = kid_of key) (published s)") (auto simp: find_None_iff keys_ok_def list_all_iff)
  then have "pk_kid e = kid_of key" "e \<in> set (published s)" by (auto simp: find_Some_iff)
  then have "pk_public e = key" using assms(1,2) by (auto simp: keys_ok_def list_all_iff dest: injD)
  then show ?thesis using e by (simp add: verification_key_def)
qed


definition two_keys :: key_files where
  "two_keys = \<lparr>published = [\<lparr>pk_kid = str_of_nat 2, pk_public = 2, pk_created = 1000\<rparr>], private_key = Some 2\<rparr>"

lemma str_of_nat_inj: "inj str_of_nat"
  by (metis injI int_of_text_str_of_nat of_nat_eq_iff option.inject)


text \<open>A key cut off before it was used: the token signed next is signed with the older key, which is still published.\<close>

lemma cut_rotation_still_signs:
  assumes "private_key s = Some key" "published s = e # es" "pk_public e = key" "\<not> up_to_date now s"
  shows "private_key (ensure_keys_cut kid_of fresh now s) = Some key
    \<and> (\<exists>e \<in> set (published (ensure_keys_cut kid_of fresh now s)). pk_public e = key)"
  using assms by (simp add: ensure_keys_cut_def new_list_def Let_def KEEP_S_def)

end
