(* ===== verification/Tasks.thy ===== *)
theory Tasks
  imports Prelude
begin

text \<open>
  Tasks, their cancellation and their end over several processes (\<open>app/core/tasks.py\<close>,
  \<open>app/repositories/sqlite/tasks.py\<close>): the API, the scheduler and HA's services share the tables and keep in memory
  which tasks they run, which can be cancelled and which were asked to stop.

  A process is a number, for its service, pid and start time: it is never reused. The functions a task registers to abort
  its work are left out, as the code ignores what they do; so are dates, the tickets bound to a task and the columns shown
  only. A task's log is the list of its messages, at most 500.
\<close>

datatype status = Running | Succeeded | Failed

record task_row =
  tr_status :: status
  tr_progress :: int
  tr_error :: "string option"
  tr_cancelled_by :: "string option"

text \<open>One process's memory; \<open>held\<close>: the tasks of \<open>answer_later\<close> with the end their work asked for.\<close>

record worker =
  cancellers :: "string list"
  requested :: "(string, string) dict"
  live :: "string list"
  held :: "(string, (status \<times> string option) option) dict"

record world =
  tasks :: "(string, task_row) dict"
  runners :: "(string, nat) dict"
  cancel_requests :: "(string, string) dict"
  task_logs :: "(string, string list) dict"
  worker_of :: "nat \<Rightarrow> worker"
  alive :: "nat list"

definition new_worker :: worker where
  "new_worker = \<lparr>cancellers = [], requested = [], live = [], held = []\<rparr>"

definition MAX_LOG_LINES :: nat where "MAX_LOG_LINES = 500"

section \<open>The store\<close>

definition task_log :: "string \<Rightarrow> string \<Rightarrow> world \<Rightarrow> world" where
  "task_log tid message w = (let lines = (case map_of (task_logs w) tid of None \<Rightarrow> [] | Some ls \<Rightarrow> ls) in
     if length lines \<ge> MAX_LOG_LINES then w else w\<lparr>task_logs := dict_set tid (lines @ [take 2000 message]) (task_logs w)\<rparr>)"

definition store_create :: "string \<Rightarrow> string option \<Rightarrow> nat \<Rightarrow> world \<Rightarrow> world" where
  "store_create tid username p w = task_log tid (''Started by '' @ (case username of Some (c # cs) \<Rightarrow> c # cs | _ \<Rightarrow> ''the system''))
     (w\<lparr>tasks := dict_set tid \<lparr>tr_status = Running, tr_progress = 0, tr_error = None, tr_cancelled_by = None\<rparr> (tasks w),
        runners := dict_set tid p (runners w)\<rparr>)"

definition update_progress :: "string \<Rightarrow> int \<Rightarrow> world \<Rightarrow> world" where
  "update_progress tid n w = w\<lparr>tasks := dict_alter tid (\<lambda>r. r\<lparr>tr_progress := n\<rparr>) (tasks w)\<rparr>"

definition failed_message :: "string option \<Rightarrow> string" where
  "failed_message error = (case error of Some (c # cs) \<Rightarrow> ''Failed: '' @ c # cs | _ \<Rightarrow> ''Failed'')"

definition store_finish :: "string \<Rightarrow> status \<Rightarrow> string option \<Rightarrow> string option \<Rightarrow> world \<Rightarrow> world" where
  "store_finish tid st error cancelled_by w = task_log tid (if st = Failed then failed_message error else ''Finished'')
     (w\<lparr>tasks := dict_alter tid (\<lambda>r. r\<lparr>tr_status := st, tr_progress := 100, tr_error := error, tr_cancelled_by := cancelled_by\<rparr>) (tasks w)\<rparr>)"

definition store_close :: "string \<Rightarrow> string \<Rightarrow> string \<Rightarrow> world \<Rightarrow> world" where
  "store_close tid username reason w =
     (let message = ''Closed by '' @ username @ '': '' @ reason; w' = task_log tid message w in
      w'\<lparr>tasks := dict_alter tid (\<lambda>r. r\<lparr>tr_status := Failed, tr_progress := 100, tr_error := Some message,
           tr_cancelled_by := Some username\<rparr>) (tasks w')\<rparr>)"

definition forget_runner :: "string \<Rightarrow> world \<Rightarrow> world" where
  "forget_runner tid w = w\<lparr>runners := dict_del tid (runners w), cancel_requests := dict_del tid (cancel_requests w)\<rparr>"

definition interrupted :: string where
  "interrupted = ''Interrupted: the Hyperlite service restarted while it ran''"

definition close_one_interrupted :: "string \<Rightarrow> world \<Rightarrow> world" where
  "close_one_interrupted tid w = forget_runner tid ((task_log tid interrupted w)\<lparr>tasks := dict_alter tid
     (\<lambda>r. if tr_status r = Running then r\<lparr>tr_status := Failed, tr_progress := 100, tr_error := Some interrupted\<rparr> else r) (tasks w)\<rparr>)"

definition store_close_interrupted :: "string list \<Rightarrow> world \<Rightarrow> world" where
  "store_close_interrupted tids w = fold close_one_interrupted tids w"

definition ask_cancel :: "string \<Rightarrow> string \<Rightarrow> world \<Rightarrow> world" where
  "ask_cancel tid username w = w\<lparr>cancel_requests := dict_set tid username (cancel_requests w)\<rparr>"

definition take_cancel_requests :: "string list \<Rightarrow> world \<Rightarrow> (string, string) dict \<times> world" where
  "take_cancel_requests tids w =
     (filter (\<lambda>(t, _). t \<in> set tids) (cancel_requests w), w\<lparr>cancel_requests := filter (\<lambda>(t, _). t \<notin> set tids) (cancel_requests w)\<rparr>)"

section \<open>One process\<close>

definition at_worker :: "nat \<Rightarrow> (worker \<Rightarrow> worker) \<Rightarrow> world \<Rightarrow> world" where
  "at_worker p f w = w\<lparr>worker_of := (worker_of w)(p := f (worker_of w p))\<rparr>"

definition create_task :: "nat \<Rightarrow> string \<Rightarrow> string option \<Rightarrow> world \<Rightarrow> world" where
  "create_task p tid username w = at_worker p (\<lambda>k. k\<lparr>live := List.insert tid (live k)\<rparr>) (store_create tid username p w)"

definition register_cancel :: "nat \<Rightarrow> string \<Rightarrow> world \<Rightarrow> world" where
  "register_cancel p tid w = at_worker p (\<lambda>k. k\<lparr>cancellers := List.insert tid (cancellers k)\<rparr>) w"

definition unregister_cancel :: "nat \<Rightarrow> string \<Rightarrow> world \<Rightarrow> world" where
  "unregister_cancel p tid w =
     at_worker p (\<lambda>k. k\<lparr>cancellers := removeAll tid (cancellers k), requested := dict_del tid (requested k)\<rparr>) w"

definition cancel_requested :: "nat \<Rightarrow> string \<Rightarrow> world \<Rightarrow> bool" where
  "cancel_requested p tid w \<longleftrightarrow> map_of (requested (worker_of w p)) tid \<noteq> None"

definition request_noted :: "nat \<Rightarrow> string \<Rightarrow> string \<Rightarrow> world \<Rightarrow> world" where
  "request_noted p tid username w = at_worker p (\<lambda>k. k\<lparr>requested := dict_set tid username (requested k)\<rparr>) w"

definition close_by :: "nat \<Rightarrow> string \<Rightarrow> string \<Rightarrow> string \<Rightarrow> world \<Rightarrow> world" where
  "close_by p tid username reason w = at_worker p (\<lambda>k. k\<lparr>live := removeAll tid (live k)\<rparr>) (store_close tid username reason w)"

datatype cancel_answer = Requested | Abandoned | Unknown | Already_over | Not_stoppable

definition asked_message :: "string \<Rightarrow> string" where
  "asked_message username = ''Cancellation requested by '' @ username"

definition request_cancel :: "nat \<Rightarrow> string \<Rightarrow> string \<Rightarrow> bool \<Rightarrow> world \<Rightarrow> cancel_answer \<times> world" where
  "request_cancel p tid username force w = (case map_of (tasks w) tid of
       None \<Rightarrow> (Unknown, w)
     | Some row \<Rightarrow>
         if tr_status row \<noteq> Running then (Already_over, w)
         else if tid \<in> set (cancellers (worker_of w p)) then (Requested, task_log tid (asked_message username) (request_noted p tid username w))
         else if tid \<notin> set (live (worker_of w p)) then
           (case map_of (runners w) tid of
              Some q \<Rightarrow>
                if q \<noteq> p \<and> q \<in> set (alive w) \<and> \<not> force
                then (Requested, task_log tid (asked_message username) (ask_cancel tid username w))
                else (Abandoned, close_by p tid username ''no process was running it any more'' w)
            | None \<Rightarrow> (Abandoned, close_by p tid username ''no process was running it any more'' w))
         else if \<not> force then (Not_stoppable, w)
         else (Abandoned, close_by p tid username ''closed by hand while it may still be running'' w))"

definition abort_here :: "nat \<Rightarrow> string \<Rightarrow> string \<Rightarrow> world \<Rightarrow> bool \<times> world" where
  "abort_here p tid username w = (if tid \<in> set (cancellers (worker_of w p)) then (True, request_noted p tid username w) else (False, w))"

text \<open>One turn of \<open>_watch_loop\<close>.\<close>

definition watch :: "nat \<Rightarrow> world \<Rightarrow> world" where
  "watch p w =
     (if cancellers (worker_of w p) = [] then w
      else let (asked, w') = take_cancel_requests (cancellers (worker_of w p)) w in
        fold (\<lambda>(tid, username) v. snd (abort_here p tid username (task_log tid (asked_message username) v))) asked w')"

text \<open>\<open>finish_task\<close>: kept for later when \<open>answer_later\<close> holds the task; a task somebody asked to stop fails as cancelled by them.\<close>

definition finish_task :: "nat \<Rightarrow> string \<Rightarrow> status \<Rightarrow> string option \<Rightarrow> world \<Rightarrow> world" where
  "finish_task p tid st error w =
     (if map_of (held (worker_of w p)) tid \<noteq> None then at_worker p (\<lambda>k. k\<lparr>held := dict_set tid (Some (st, error)) (held k)\<rparr>) w
      else let who = (if st = Failed then map_of (requested (worker_of w p)) tid else None);
               error' = (case who of
                   Some (c # cs) \<Rightarrow> Some (''Cancelled by '' @ (c # cs) @ (case error of Some (e # es) \<Rightarrow> '': '' @ e # es | _ \<Rightarrow> []))
                 | _ \<Rightarrow> error)
           in unregister_cancel p tid (forget_runner tid (store_finish tid st error' who
                (at_worker p (\<lambda>k. k\<lparr>live := removeAll tid (live k)\<rparr>) w))))"

text \<open>\<open>answer_later\<close>: holding the task's end, then the end of its thread; \<open>error\<close> is what \<open>work\<close> raised.\<close>

definition answer_later :: "nat \<Rightarrow> string \<Rightarrow> world \<Rightarrow> world" where
  "answer_later p tid w = at_worker p (\<lambda>k. k\<lparr>held := dict_set tid None (held k)\<rparr>) w"

definition answer_ends :: "nat \<Rightarrow> string \<Rightarrow> string option \<Rightarrow> world \<Rightarrow> world" where
  "answer_ends p tid error w =
     (let asked = map_of (held (worker_of w p)) tid; w' = at_worker p (\<lambda>k. k\<lparr>held := dict_del tid (held k)\<rparr>) w in
      case asked of
        Some (Some (st, e)) \<Rightarrow> finish_task p tid st e w'
      | _ \<Rightarrow> (case map_of (tasks w') tid of
            Some row \<Rightarrow> if tr_status row = Running
              then finish_task p tid (if error = None \<or> error = Some [] then Succeeded else Failed) error w' else w'
          | None \<Rightarrow> w'))"

text \<open>At a service's start.\<close>

definition gone_tasks :: "world \<Rightarrow> string list" where
  "gone_tasks w = map fst (filter (\<lambda>(tid, row). tr_status row = Running
     \<and> (case map_of (runners w) tid of None \<Rightarrow> True | Some q \<Rightarrow> q \<notin> set (alive w))) (tasks w))"

definition close_interrupted_tasks :: "world \<Rightarrow> world" where
  "close_interrupted_tasks w = store_close_interrupted (gone_tasks w) w"

text \<open>A service's process starts, or stops with all it had in memory.\<close>

definition starts :: "nat \<Rightarrow> world \<Rightarrow> world" where
  "starts p w = w\<lparr>alive := p # alive w, worker_of := (worker_of w)(p := new_worker)\<rparr>"

definition stops :: "nat \<Rightarrow> world \<Rightarrow> world" where
  "stops p w = w\<lparr>alive := removeAll p (alive w), worker_of := (worker_of w)(p := new_worker)\<rparr>"

end
