(* ===== verification/Task_Props.thy ===== *)
theory Task_Props
  imports Tasks
begin

text \<open>
  What the tasks' processes promise each other over any interleaving of their steps: a task that runs is never closed as
  abandoned, a task whose process is gone is closed at the next start, and a cancellation asked in one process reaches the
  process that runs the task.
\<close>

named_theorems task_defs \<open>the operations on tasks\<close>

declare task_log_def [task_defs] store_create_def [task_defs] update_progress_def [task_defs] store_finish_def [task_defs]
  store_close_def [task_defs] forget_runner_def [task_defs] ask_cancel_def [task_defs] at_worker_def [task_defs]
  create_task_def [task_defs] register_cancel_def [task_defs] unregister_cancel_def [task_defs] request_noted_def [task_defs]
  close_by_def [task_defs] request_cancel_def [task_defs] abort_here_def [task_defs] finish_task_def [task_defs]
  answer_later_def [task_defs] starts_def [task_defs] stops_def [task_defs] Let_def [task_defs]

section \<open>Steps\<close>

datatype task_step =
    Create nat string "string option"
  | Register nat string
  | Ask nat string string bool
  | Abort nat string string
  | Watch nat
  | Progress string int
  | Finish nat string status "string option"
  | Later nat string
  | Later_ends nat string "string option"
  | Close_gone
  | Starts nat
  | Stops nat

fun tasks_do :: "task_step \<Rightarrow> world \<Rightarrow> world" where
  "tasks_do (Create p tid user) w = create_task p tid user w"
| "tasks_do (Register p tid) w = register_cancel p tid w"
| "tasks_do (Ask p tid user force) w = snd (request_cancel p tid user force w)"
| "tasks_do (Abort p tid user) w = snd (abort_here p tid user w)"
| "tasks_do (Watch p) w = watch p w"
| "tasks_do (Progress tid n) w = update_progress tid n w"
| "tasks_do (Finish p tid st e) w = finish_task p tid st e w"
| "tasks_do (Later p tid) w = answer_later p tid w"
| "tasks_do (Later_ends p tid e) w = answer_ends p tid e w"
| "tasks_do Close_gone w = close_interrupted_tasks w"
| "tasks_do (Starts p) w = starts p w"
| "tasks_do (Stops p) w = stops p w"

text \<open>Identifiers of tasks and processes are new, and a task is ended by the process that runs it.\<close>

fun may_do :: "task_step \<Rightarrow> world \<Rightarrow> bool" where
  "may_do (Create p tid _) w \<longleftrightarrow> p \<in> set (alive w) \<and> map_of (tasks w) tid = None"
| "may_do (Finish p tid _ _) w \<longleftrightarrow> map_of (runners w) tid \<in> {None, Some p}"
| "may_do (Later_ends p tid _) w \<longleftrightarrow> map_of (runners w) tid \<in> {None, Some p}"
| "may_do (Starts p) w \<longleftrightarrow> p \<notin> set (alive w) \<and> (\<forall>tid. map_of (runners w) tid \<noteq> Some p)"
| "may_do _ w \<longleftrightarrow> True"

definition no_tasks :: world where
  "no_tasks = \<lparr>tasks = [], runners = [], cancel_requests = [], task_logs = [], worker_of = (\<lambda>_. new_worker), alive = []\<rparr>"

inductive tasks_reachable :: "world \<Rightarrow> bool" where
  start: "tasks_reachable no_tasks"
| step: "tasks_reachable w \<Longrightarrow> may_do x w \<Longrightarrow> tasks_reachable (tasks_do x w)"

section \<open>The invariant\<close>

definition tasks_ok :: "world \<Rightarrow> bool" where
  "tasks_ok w \<longleftrightarrow> dict_ok (tasks w) \<and> dict_ok (cancel_requests w)
     \<and> (\<forall>q \<in> set (alive w). \<forall>tid \<in> set (live (worker_of w q)). map_of (runners w) tid = Some q \<and> tid \<in> fst ` set (tasks w))"

text \<open>What a step may change: nothing of these, except for the task it is about.\<close>

lemma task_log_fields [simp]:
  "tasks (task_log tid m w) = tasks w" "runners (task_log tid m w) = runners w" "cancel_requests (task_log tid m w) = cancel_requests w"
  "worker_of (task_log tid m w) = worker_of w" "alive (task_log tid m w) = alive w"
  by (simp_all add: task_log_def Let_def)

lemma keys_fst: "keys d = keys d' \<Longrightarrow> fst ` set d = fst ` set d'"
  by (metis list.set_map)

lemma fst_dict_alter [simp]: "fst ` set (dict_alter k f d) = fst ` set d"
  by (rule keys_fst) simp

lemma dict_ok_alter [simp]: "dict_ok d \<Longrightarrow> dict_ok (dict_alter k f d)"
  by (simp add: keys_dict_alter)

lemma watch_fold_fields:
  "tasks (fold (\<lambda>(t, u) v. snd (abort_here p t u (task_log t (asked_message u) v))) xs w) = tasks w"
  "runners (fold (\<lambda>(t, u) v. snd (abort_here p t u (task_log t (asked_message u) v))) xs w) = runners w"
  "cancel_requests (fold (\<lambda>(t, u) v. snd (abort_here p t u (task_log t (asked_message u) v))) xs w) = cancel_requests w"
  "alive (fold (\<lambda>(t, u) v. snd (abort_here p t u (task_log t (asked_message u) v))) xs w) = alive w"
  "live (worker_of (fold (\<lambda>(t, u) v. snd (abort_here p t u (task_log t (asked_message u) v))) xs w) q) = live (worker_of w q)"
  "cancellers (worker_of (fold (\<lambda>(t, u) v. snd (abort_here p t u (task_log t (asked_message u) v))) xs w) q) = cancellers (worker_of w q)"
  "held (worker_of (fold (\<lambda>(t, u) v. snd (abort_here p t u (task_log t (asked_message u) v))) xs w) q) = held (worker_of w q)"
  by (induction xs arbitrary: w) (auto simp: abort_here_def request_noted_def at_worker_def)

lemma watch_fields:
  "tasks (watch p w) = tasks w" "runners (watch p w) = runners w" "alive (watch p w) = alive w"
  "live (worker_of (watch p w) q) = live (worker_of w q)" "cancellers (worker_of (watch p w) q) = cancellers (worker_of w q)"
  "held (worker_of (watch p w) q) = held (worker_of w q)"
  "cancel_requests (watch p w) = filter (\<lambda>(t, _). t \<notin> set (cancellers (worker_of w p))) (cancel_requests w)"
  by (simp_all add: watch_def take_cancel_requests_def watch_fold_fields Let_def)

lemma close_one_fields:
  "alive (close_one_interrupted t w) = alive w" "worker_of (close_one_interrupted t w) = worker_of w"
  "keys (tasks (close_one_interrupted t w)) = keys (tasks w)"
  "map_of (runners (close_one_interrupted t w)) tid = (if tid = t then None else map_of (runners w) tid)"
  "map_of (cancel_requests (close_one_interrupted t w)) tid = (if tid = t then None else map_of (cancel_requests w) tid)"
  "map_of (tasks (close_one_interrupted t w)) tid = (if tid = t then map_option
     (\<lambda>r. if tr_status r = Running then r\<lparr>tr_status := Failed, tr_progress := 100, tr_error := Some interrupted\<rparr> else r) (map_of (tasks w) tid)
     else map_of (tasks w) tid)"
  "dict_ok (cancel_requests w) \<Longrightarrow> dict_ok (cancel_requests (close_one_interrupted t w))"
  by (simp_all add: close_one_interrupted_def forget_runner_def keys_dict_alter map_of_dict_alter)

definition as_interrupted :: "task_row \<Rightarrow> task_row" where
  "as_interrupted r = (if tr_status r = Running then r\<lparr>tr_status := Failed, tr_progress := 100, tr_error := Some interrupted\<rparr> else r)"

lemma as_interrupted_twice: "as_interrupted (as_interrupted r) = as_interrupted r"
  by (simp add: as_interrupted_def)

text \<open>What closing several does.\<close>

lemma close_one_row: "map_of (tasks (close_one_interrupted t w)) tid = (if tid = t then map_option as_interrupted (map_of (tasks w) tid) else map_of (tasks w) tid)"
  unfolding close_one_fields(6) as_interrupted_def ..

lemma close_interrupted_row:
  "map_of (tasks (store_close_interrupted ts w)) tid = (if tid \<in> set ts then map_option as_interrupted (map_of (tasks w) tid) else map_of (tasks w) tid)"
  unfolding store_close_interrupted_def
proof (induction ts arbitrary: w)
  case (Cons t ts)
  then show ?case by (cases "map_of (tasks w) tid") (auto simp: close_one_row as_interrupted_twice)
qed simp

lemma close_interrupted_fields:
  "alive (store_close_interrupted ts w) = alive w" "worker_of (store_close_interrupted ts w) = worker_of w"
  "keys (tasks (store_close_interrupted ts w)) = keys (tasks w)"
  "map_of (runners (store_close_interrupted ts w)) tid = (if tid \<in> set ts then None else map_of (runners w) tid)"
  "map_of (cancel_requests (store_close_interrupted ts w)) tid = (if tid \<in> set ts then None else map_of (cancel_requests w) tid)"
  "dict_ok (cancel_requests w) \<Longrightarrow> dict_ok (cancel_requests (store_close_interrupted ts w))"
  unfolding store_close_interrupted_def by (induction ts arbitrary: w) (simp_all add: close_one_fields)

lemma tasks_ok_frame:
  assumes "tasks_ok w" "keys (tasks w') = keys (tasks w)" "runners w' = runners w" "dict_ok (cancel_requests w')" "alive w' = alive w"
    and "\<And>q. set (live (worker_of w' q)) \<subseteq> set (live (worker_of w q))"
  shows "tasks_ok w'"
proof -
  have "fst ` set (tasks w') = fst ` set (tasks w)" by (rule keys_fst [OF assms(2)])
  then show ?thesis using assms unfolding tasks_ok_def by (metis subsetD)
qed

lemma gone_tasks_iff:
  "dict_ok (tasks w) \<Longrightarrow> tid \<in> set (gone_tasks w) \<longleftrightarrow> (\<exists>row. map_of (tasks w) tid = Some row \<and> tr_status row = Running
     \<and> (case map_of (runners w) tid of None \<Rightarrow> True | Some q \<Rightarrow> q \<notin> set (alive w)))"
  by (force simp: gone_tasks_def)

lemma live_not_gone:
  "tasks_ok w \<Longrightarrow> q \<in> set (alive w) \<Longrightarrow> tid \<in> set (live (worker_of w q)) \<Longrightarrow> tid \<notin> set (gone_tasks w)"
  by (auto simp: tasks_ok_def gone_tasks_iff)

lemma finish_fields:
  assumes "map_of (held (worker_of w p)) tid = None"
  shows "alive (finish_task p tid st e w) = alive w" "keys (tasks (finish_task p tid st e w)) = keys (tasks w)"
    "map_of (runners (finish_task p tid st e w)) t = (if t = tid then None else map_of (runners w) t)"
    "cancel_requests (finish_task p tid st e w) = dict_del tid (cancel_requests w)"
    "worker_of (finish_task p tid st e w) = (worker_of w)(p := (worker_of w p)\<lparr>live := removeAll tid (live (worker_of w p)),
       cancellers := removeAll tid (cancellers (worker_of w p)), requested := dict_del tid (requested (worker_of w p))\<rparr>)"
    "map_of (tasks (finish_task p tid st e w)) t = (if t = tid then map_option (\<lambda>r. r\<lparr>tr_status := st, tr_progress := 100,
       tr_error := (case (if st = Failed then map_of (requested (worker_of w p)) tid else None) of
           Some (c # cs) \<Rightarrow> Some (''Cancelled by '' @ (c # cs) @ (case e of Some (x # xs) \<Rightarrow> '': '' @ x # xs | _ \<Rightarrow> []))
         | _ \<Rightarrow> e),
       tr_cancelled_by := (if st = Failed then map_of (requested (worker_of w p)) tid else None)\<rparr>) (map_of (tasks w) t)
       else map_of (tasks w) t)"
  using assms by (simp_all add: finish_task_def Let_def unregister_cancel_def forget_runner_def store_finish_def at_worker_def)

lemma finish_held:
  assumes "map_of (held (worker_of w p)) tid \<noteq> None"
  shows "finish_task p tid st e w = at_worker p (\<lambda>k. k\<lparr>held := dict_set tid (Some (st, e)) (held k)\<rparr>) w"
  using assms by (simp add: finish_task_def)

lemma finish_ok:
  assumes ok: "tasks_ok w" and own: "map_of (runners w) tid \<in> {None, Some p}"
  shows "tasks_ok (finish_task p tid st e w)"
proof (cases "map_of (held (worker_of w p)) tid")
  case None
  note f = finish_fields [OF None, of st e]
  have "t \<noteq> tid" if "q \<in> set (alive w)" "t \<in> set (live (worker_of w q))" "q \<noteq> p" for q t
    using ok own that by (auto simp: tasks_ok_def)
  then have other: "\<forall>q \<in> set (alive w). \<forall>t \<in> set (live ((worker_of (finish_task p tid st e w)) q)). t \<noteq> tid \<and> t \<in> set (live (worker_of w q))"
    unfolding f(5) by auto
  have "fst ` set (tasks (finish_task p tid st e w)) = fst ` set (tasks w)" by (rule keys_fst [OF f(2)])
  then show ?thesis using ok other unfolding tasks_ok_def f(1,2,4) by (simp add: f(3))
next
  case (Some x)
  show ?thesis
    by (rule tasks_ok_frame [OF ok]) (use ok Some in \<open>simp_all add: finish_held at_worker_def tasks_ok_def\<close>)
qed

lemma answer_ends_ok:
  assumes ok: "tasks_ok w" and own: "map_of (runners w) tid \<in> {None, Some p}"
  shows "tasks_ok (answer_ends p tid e w)"
proof -
  let ?w = "at_worker p (\<lambda>k. k\<lparr>held := dict_del tid (held k)\<rparr>) w"
  have "tasks_ok ?w" by (rule tasks_ok_frame [OF ok]) (use ok in \<open>simp_all add: tasks_ok_def at_worker_def\<close>)
  moreover have "map_of (runners ?w) tid \<in> {None, Some p}" using own by (simp add: at_worker_def)
  ultimately show ?thesis using finish_ok [of ?w tid p]
    by (auto simp: answer_ends_def Let_def split: option.splits prod.splits)
qed

lemma store_close_fields [simp]:
  "keys (tasks (store_close tid u reason w)) = keys (tasks w)" "runners (store_close tid u reason w) = runners w"
  "cancel_requests (store_close tid u reason w) = cancel_requests w" "alive (store_close tid u reason w) = alive w"
  "worker_of (store_close tid u reason w) = worker_of w"
  by (simp_all add: store_close_def Let_def)

lemma request_cancel_ok:
  assumes "tasks_ok w"
  shows "tasks_ok (snd (request_cancel p tid u force w))"
proof (rule tasks_ok_frame [OF assms])
  show "dict_ok (cancel_requests (snd (request_cancel p tid u force w)))"
    using assms by (auto simp: tasks_ok_def request_cancel_def request_noted_def at_worker_def ask_cancel_def close_by_def split: option.splits)
qed (auto simp: request_cancel_def request_noted_def at_worker_def ask_cancel_def close_by_def split: option.splits if_splits)

lemma create_ok:
  assumes ok: "tasks_ok w" and "map_of (tasks w) tid = None"
  shows "tasks_ok (create_task p tid user w)"
proof -
  have "t \<noteq> tid" if "q \<in> set (alive w)" "t \<in> set (live (worker_of w q))" for q t
    using ok assms(2) that unfolding tasks_ok_def map_of_eq_None_iff by metis
  then show ?thesis
    using ok unfolding tasks_ok_def create_task_def store_create_def at_worker_def by (simp add: dom_update)
qed

lemma close_gone_ok:
  assumes ok: "tasks_ok w"
  shows "tasks_ok (close_interrupted_tasks w)"
proof -
  have "fst ` set (tasks (close_interrupted_tasks w)) = fst ` set (tasks w)"
    unfolding close_interrupted_tasks_def by (rule keys_fst [OF close_interrupted_fields(3)])
  then show ?thesis
    using ok live_not_gone [OF ok] unfolding tasks_ok_def close_interrupted_tasks_def by (simp add: close_interrupted_fields)
qed

lemma tasks_do_ok:
  assumes ok: "tasks_ok w" and may: "may_do x w"
  shows "tasks_ok (tasks_do x w)"
proof (cases x)
  case (Create p tid user)
  then show ?thesis using ok may by (simp add: create_ok)
next
  case Close_gone
  then show ?thesis using ok by (simp add: close_gone_ok)
next
  case (Watch p)
  then show ?thesis using ok by (simp add: tasks_ok_def watch_fields)
next
  case (Starts p)
  then show ?thesis using ok by (simp add: tasks_ok_def starts_def new_worker_def)
next
  case (Stops p)
  then show ?thesis using ok by (auto simp: tasks_ok_def stops_def)
next
  case (Finish p tid st e)
  then show ?thesis using finish_ok [OF ok] may by simp
next
  case (Later_ends p tid e)
  then show ?thesis using answer_ends_ok [OF ok] may by simp
next
  case (Ask p tid u force)
  then show ?thesis using request_cancel_ok [OF ok] by simp
qed (rule tasks_ok_frame [OF ok]; use ok in \<open>simp add: tasks_ok_def register_cancel_def at_worker_def abort_here_def request_noted_def
  update_progress_def answer_later_def\<close>)+

lemma tasks_reachable_ok: "tasks_reachable w \<Longrightarrow> tasks_ok w"
proof (induction rule: tasks_reachable.induct)
  case start
  then show ?case by (simp add: tasks_ok_def no_tasks_def)
next
  case (step w x)
  then show ?case by (simp add: tasks_do_ok)
qed

section \<open>Running tasks and tasks nobody runs\<close>

text \<open>A task that runs is never given up. In every reachable state, a task some live process works on is not closed by anybody's
  cancellation without force, in that process or another: it is asked to stop, or the request is refused; nor is it closed
  when a service starts and closes what was interrupted.\<close>

theorem running_task_is_not_abandoned:
  assumes "tasks_reachable w" "q \<in> set (alive w)" "tid \<in> set (live (worker_of w q))"
  shows "fst (request_cancel p tid user False w) \<noteq> Abandoned
    \<and> tasks (snd (request_cancel p tid user False w)) = tasks w
    \<and> map_of (tasks (close_interrupted_tasks w)) tid = map_of (tasks w) tid"
proof -
  have ok: "tasks_ok w" by (rule tasks_reachable_ok [OF assms(1)])
  then have r: "map_of (runners w) tid = Some q" using assms by (auto simp: tasks_ok_def)
  have "fst (request_cancel p tid user False w) \<noteq> Abandoned \<and> tasks (snd (request_cancel p tid user False w)) = tasks w"
    using r assms(2,3) by (cases "map_of (tasks w) tid") (auto simp: request_cancel_def request_noted_def at_worker_def ask_cancel_def)
  then show ?thesis
    using live_not_gone [OF ok assms(2,3)] by (simp add: close_interrupted_tasks_def close_interrupted_row)
qed

text \<open>After a service's start no task is left running with nobody behind it, and nothing else changed: the tasks recorded as
  running whose process is gone end as failed, each of the others keeps its record.\<close>

theorem start_up_closes_the_interrupted:
  assumes "tasks_reachable w"
  shows "gone_tasks (close_interrupted_tasks w) = []
    \<and> (\<forall>tid row. map_of (tasks w) tid = Some row \<longrightarrow> map_of (tasks (close_interrupted_tasks w)) tid
         = Some (if tid \<in> set (gone_tasks w) then row\<lparr>tr_status := Failed, tr_progress := 100, tr_error := Some interrupted\<rparr> else row))"
proof -
  have ok: "dict_ok (tasks w)" using tasks_reachable_ok [OF assms] by (simp add: tasks_ok_def)
  then have ok': "dict_ok (tasks (close_interrupted_tasks w))" by (simp add: close_interrupted_tasks_def close_interrupted_fields)
  have "tid \<notin> set (gone_tasks (close_interrupted_tasks w))" for tid
    unfolding gone_tasks_iff [OF ok']
    using gone_tasks_iff [OF ok, of tid] by (auto simp: close_interrupted_tasks_def close_interrupted_fields close_interrupted_row as_interrupted_def split: if_splits option.splits)
  then have "gone_tasks (close_interrupted_tasks w) = []" by (metis list.set_intros(1) neq_Nil_conv)
  then show ?thesis
    using gone_tasks_iff [OF ok] by (auto simp: close_interrupted_tasks_def close_interrupted_row as_interrupted_def)
qed

section \<open>A cancellation reaches the process that runs the task\<close>

text \<open>The request is recorded, the process that runs the task can be told, and no other process answers for it.\<close>

definition cancel_waits :: "nat \<Rightarrow> string \<Rightarrow> string \<Rightarrow> world \<Rightarrow> bool" where
  "cancel_waits q tid user w \<longleftrightarrow> dict_ok (tasks w) \<and> dict_ok (cancel_requests w) \<and> map_of (cancel_requests w) tid = Some user
     \<and> tid \<in> set (cancellers (worker_of w q)) \<and> map_of (held (worker_of w q)) tid = None \<and> map_of (runners w) tid = Some q
     \<and> q \<in> set (alive w) \<and> tid \<in> fst ` set (tasks w) \<and> (\<forall>p. p \<noteq> q \<longrightarrow> tid \<notin> set (cancellers (worker_of w p)))"

text \<open>Steps about other tasks, while the process that runs the task goes on; its own watch comes later.\<close>

fun elsewhere :: "nat \<Rightarrow> string \<Rightarrow> task_step \<Rightarrow> bool" where
  "elsewhere q tid (Create _ t _) = (t \<noteq> tid)"
| "elsewhere q tid (Register _ t) = (t \<noteq> tid)"
| "elsewhere q tid (Ask _ t _ _) = (t \<noteq> tid)"
| "elsewhere q tid (Abort _ t _) = (t \<noteq> tid)"
| "elsewhere q tid (Watch p) = (p \<noteq> q)"
| "elsewhere q tid (Progress _ _) = True"
| "elsewhere q tid (Finish _ t _ _) = (t \<noteq> tid)"
| "elsewhere q tid (Later _ t) = (t \<noteq> tid)"
| "elsewhere q tid (Later_ends _ t _) = (t \<noteq> tid)"
| "elsewhere q tid Close_gone = True"
| "elsewhere q tid (Starts p) = (p \<noteq> q)"
| "elsewhere q tid (Stops p) = (p \<noteq> q)"

lemma map_of_filter_keys_not: "map_of (filter (\<lambda>(t, _). t \<notin> T) d) k = (if k \<in> T then None else map_of d k)"
  by (induction d) auto

lemma finish_waits:
  assumes "cancel_waits q tid user w" "t \<noteq> tid"
  shows "cancel_waits q tid user (finish_task p t st e w)"
proof (cases "map_of (held (worker_of w p)) t")
  case None
  have "fst ` set (tasks (finish_task p t st e w)) = fst ` set (tasks w)" by (rule keys_fst [OF finish_fields(2) [OF None]])
  then show ?thesis using assms None unfolding cancel_waits_def by (auto simp: finish_fields)
next
  case (Some x)
  then show ?thesis using assms by (auto simp: finish_held at_worker_def cancel_waits_def)
qed

lemma answer_ends_waits:
  assumes "cancel_waits q tid user w" "t \<noteq> tid"
  shows "cancel_waits q tid user (answer_ends p t e w)"
proof -
  let ?w = "at_worker p (\<lambda>k. k\<lparr>held := dict_del t (held k)\<rparr>) w"
  have "cancel_waits q tid user ?w" using assms by (auto simp: cancel_waits_def at_worker_def)
  then show ?thesis using finish_waits [of q tid user ?w t p] assms(2)
    by (auto simp: answer_ends_def Let_def split: option.splits prod.splits)
qed

lemma ask_waits:
  assumes "cancel_waits q tid user w" "t \<noteq> tid"
  shows "cancel_waits q tid user (snd (request_cancel p t u force w))"
proof -
  have "snd (request_cancel p t u force w) \<in> {w, task_log t (asked_message u) (request_noted p t u w),
      task_log t (asked_message u) (ask_cancel t u w)} \<union> range (\<lambda>reason. close_by p t u reason w)"
    by (simp add: request_cancel_def split: option.split)
  moreover have "cancel_waits q tid user (close_by p t u reason w)" for reason
    using assms by (auto simp: cancel_waits_def close_by_def at_worker_def keys_fst [OF store_close_fields(1)])
  moreover have "cancel_waits q tid user (task_log t (asked_message u) (request_noted p t u w))"
    using assms by (auto simp: cancel_waits_def request_noted_def at_worker_def)
  moreover have "cancel_waits q tid user (task_log t (asked_message u) (ask_cancel t u w))"
    using assms by (auto simp: cancel_waits_def ask_cancel_def)
  ultimately show ?thesis using assms(1) by auto
qed

lemma elsewhere_waits:
  assumes w: "cancel_waits q tid user w" and x: "elsewhere q tid x"
  shows "cancel_waits q tid user (tasks_do x w)"
proof (cases x)
  case (Watch p)
  then have "tid \<notin> set (cancellers (worker_of w p))" using w x by (simp add: cancel_waits_def)
  then show ?thesis using w Watch unfolding cancel_waits_def by (simp add: watch_fields map_of_filter_keys_not)
next
  case Close_gone
  have "tid \<notin> set (gone_tasks w)" using w by (simp add: cancel_waits_def gone_tasks_iff)
  moreover have "fst ` set (tasks (store_close_interrupted (gone_tasks w) w)) = fst ` set (tasks w)"
    by (rule keys_fst [OF close_interrupted_fields(3)])
  ultimately show ?thesis using w Close_gone
    unfolding cancel_waits_def by (simp add: close_interrupted_tasks_def close_interrupted_fields)
next
  case (Ask p t u force)
  then show ?thesis using ask_waits [OF w] x by simp
next
  case (Finish p t st e)
  then show ?thesis using finish_waits [OF w] x by simp
next
  case (Later_ends p t e)
  then show ?thesis using answer_ends_waits [OF w] x by simp
next
  case (Create p t u)
  then show ?thesis using w x by (auto simp: cancel_waits_def create_task_def store_create_def at_worker_def dom_update)
qed (use w x in \<open>auto simp: cancel_waits_def register_cancel_def at_worker_def abort_here_def request_noted_def
  update_progress_def answer_later_def starts_def stops_def new_worker_def\<close>)+

fun tasks_run :: "task_step list \<Rightarrow> world \<Rightarrow> world" where
  "tasks_run [] w = w"
| "tasks_run (x # xs) w = tasks_run xs (tasks_do x w)"

lemma elsewhere_run: "cancel_waits q tid user w \<Longrightarrow> list_all (elsewhere q tid) xs \<Longrightarrow> cancel_waits q tid user (tasks_run xs w)"
  by (induction xs arbitrary: w) (auto simp: elsewhere_waits)

lemma watch_fold_requested:
  assumes "distinct (map fst xs)" "\<forall>(t, u) \<in> set xs. t \<in> set (cancellers (worker_of w p))"
  shows "map_of (requested (worker_of (fold (\<lambda>(t, u) v. snd (abort_here p t u (task_log t (asked_message u) v))) xs w) p)) tid
    = (case map_of xs tid of Some u \<Rightarrow> Some u | None \<Rightarrow> map_of (requested (worker_of w p)) tid)"
  using assms
proof (induction xs arbitrary: w)
  case (Cons x xs)
  obtain t u where x: "x = (t, u)" by (cases x)
  have "map_of xs t = None" using Cons.prems(1) x by (simp add: map_of_eq_None_iff)
  then show ?case using Cons x by (auto simp: abort_here_def request_noted_def at_worker_def split: option.splits)
qed simp

lemma watch_requested:
  assumes "cancel_waits q tid user w"
  shows "map_of (requested (worker_of (watch q w) q)) tid = Some user"
proof -
  let ?asked = "filter (\<lambda>(t, _). t \<in> set (cancellers (worker_of w q))) (cancel_requests w)"
  have "map_of ?asked tid = Some user"
    using assms map_of_filter_keys_not [of "- set (cancellers (worker_of w q))" "cancel_requests w" tid]
    by (simp add: cancel_waits_def del: map_of_eq_Some_iff)
  moreover have "distinct (map fst ?asked)" using assms by (simp add: cancel_waits_def distinct_map_filter)
  moreover have "cancellers (worker_of w q) \<noteq> []" using assms by (auto simp: cancel_waits_def)
  ultimately show ?thesis
    using watch_fold_requested [of ?asked "w\<lparr>cancel_requests := filter (\<lambda>(t, _). t \<notin> set (cancellers (worker_of w q))) (cancel_requests w)\<rparr>" q tid]
    by (auto simp: watch_def take_cancel_requests_def Let_def)
qed


section \<open>Instances\<close>

definition two_services :: world where
  "two_services = tasks_do (Register 2 ''t1'') (tasks_do (Create 2 ''t1'' (Some ''bob'')) (tasks_do (Starts 2) (tasks_do (Starts 1) no_tasks)))"

lemma two_services_reachable: "tasks_reachable two_services"
  unfolding two_services_def
  by (intro tasks_reachable.intros) (simp_all add: no_tasks_def starts_def create_task_def store_create_def at_worker_def)

lemma two_services_state:
  "map_of (tasks two_services) ''t1'' = Some \<lparr>tr_status = Running, tr_progress = 0, tr_error = None, tr_cancelled_by = None\<rparr>"
  "map_of (runners two_services) ''t1'' = Some 2" "alive two_services = [2, 1]"
  "live (worker_of two_services 2) = [''t1'']" "cancellers (worker_of two_services 2) = [''t1'']" "held (worker_of two_services 2) = []"
  "p \<noteq> 2 \<Longrightarrow> worker_of two_services p = new_worker"
  by (simp_all add: two_services_def no_tasks_def starts_def create_task_def store_create_def register_cancel_def at_worker_def new_worker_def)

theorem running_task_is_not_abandoned_witness:
  "fst (request_cancel 1 ''t1'' ''alice'' False two_services) \<noteq> Abandoned"
  using running_task_is_not_abandoned [OF two_services_reachable, of 2 "''t1''" 1 "''alice''"] by (simp add: two_services_state)

theorem start_up_closes_the_interrupted_witness:
  "tasks_reachable (tasks_do (Stops 2) two_services) \<and> gone_tasks (tasks_do (Stops 2) two_services) = [''t1'']
   \<and> gone_tasks (close_interrupted_tasks (tasks_do (Stops 2) two_services)) = []"
proof -
  have r: "tasks_reachable (tasks_do (Stops 2) two_services)" by (rule tasks_reachable.step [OF two_services_reachable]) simp
  moreover have "gone_tasks (tasks_do (Stops 2) two_services) = [''t1'']"
    by (simp add: gone_tasks_def two_services_def no_tasks_def starts_def create_task_def store_create_def register_cancel_def at_worker_def stops_def)
  ultimately show ?thesis using start_up_closes_the_interrupted [OF r] by blast
qed


end
