(* ===== verification/Row_Codec.thy ===== *)
theory Row_Codec
  imports Py_Text
begin

text \<open>
  How a row of the node's database is written in the replicated tree (\<^verbatim>\<open>app/repositories/cfs/shadow.py\<close>):
  its place, one path component per value of its primary key (\<open>component\<close>), and its content, the JSON of
  its configuration columns (\<open>encode\<close>, read back by \<open>loads\<close>). A value of a row is a \<open>cell\<close>: SQLite's
  NULL, an integer, a text, or bytes, which JSON lacks and which are kept as base64 under a marker key.
  \<open>loads\<close> is \<^verbatim>\<open>json.loads\<close> on what \<open>encode\<close> writes: an object of such values, with no blank between
  the tokens; every other text, among them those with a fraction, is the value \<open>None\<close>.

  Shown: two different names never share a component and two different keys never share a path, and
  reading back a written row gives the row.
\<close>

section \<open>The place of a row\<close>

definition plain_char :: "char \<Rightarrow> bool" where
  "plain_char c \<longleftrightarrow> is_alnum c \<or> c \<in> {CHR ''.'', CHR ''_'', CHR ''-''}"

definition plain_start :: "char \<Rightarrow> bool" where
  "plain_start c \<longleftrightarrow> is_alnum c \<or> c = CHR ''-''"

definition PLAIN :: "string \<Rightarrow> bool" where
  "PLAIN = re_dollar (\<lambda>s. case s of [] \<Rightarrow> False | c # cs \<Rightarrow> plain_start c \<and> list_all plain_char cs)"

definition hex_char :: "nat \<Rightarrow> char" where
  "hex_char n = ''0123456789abcdef'' ! n"

fun to_hex :: "string \<Rightarrow> string" where
  "to_hex [] = []"
| "to_hex (c # cs) = (let n = of_char c :: nat in hex_char (n div 16) # hex_char (n mod 16) # to_hex cs)"

definition component :: "string \<Rightarrow> string" where
  "component name = (if PLAIN name then name else CHR ''_'' # to_hex name)"

datatype cell = Null | Num int | Text string | Bytes string

definition str_of_int :: "int \<Rightarrow> string" where
  "str_of_int i = (if i < 0 then CHR ''-'' # str_of_nat (nat (- i)) else str_of_nat (nat i))"

text \<open>Python's \<open>str\<close> of a value; key columns hold integers and texts.\<close>

definition str_cell :: "cell \<Rightarrow> string" where
  "str_cell c = (case c of Null \<Rightarrow> ''None'' | Num i \<Rightarrow> str_of_int i | Text s \<Rightarrow> s | Bytes s \<Rightarrow> s)"

definition path :: "string \<Rightarrow> cell list \<Rightarrow> string" where
  "path pre key = join_with (CHR ''/'') (pre # map (\<lambda>k. component (str_cell k)) key)"

section \<open>The content of a row\<close>

type_synonym row = "(string, cell) dict"

definition b64_char :: "nat \<Rightarrow> char" where
  "b64_char n = ''ABCDEFGHIJKLMNOPQRSTUVWXYZabcdefghijklmnopqrstuvwxyz0123456789+/'' ! n"

fun b64encode :: "string \<Rightarrow> string" where
  "b64encode [] = []"
| "b64encode [x] = (let a = of_char x :: nat in
     [b64_char (a div 4), b64_char (a mod 4 * 16), CHR ''='', CHR ''=''])"
| "b64encode [x, y] = (let a = of_char x :: nat; b = of_char y in
     [b64_char (a div 4), b64_char (a mod 4 * 16 + b div 16), b64_char (b mod 16 * 4), CHR ''=''])"
| "b64encode (x # y # z # rest) = (let a = of_char x :: nat; b = of_char y; c = of_char z in
     b64_char (a div 4) # b64_char (a mod 4 * 16 + b div 16) # b64_char (b mod 16 * 4 + c div 64) # b64_char (c mod 64)
     # b64encode rest)"

fun index_from :: "nat \<Rightarrow> 'a \<Rightarrow> 'a list \<Rightarrow> nat option" where
  "index_from n x [] = None"
| "index_from n x (y # ys) = (if x = y then Some n else index_from (Suc n) x ys)"

definition b64_value :: "char \<Rightarrow> nat" where
  "b64_value c = (case index_from 0 c ''ABCDEFGHIJKLMNOPQRSTUVWXYZabcdefghijklmnopqrstuvwxyz0123456789+/'' of
     Some n \<Rightarrow> n | None \<Rightarrow> 0)"

fun b64decode :: "string \<Rightarrow> string" where
  "b64decode (p # q # r # s # rest) = (let a = b64_value p; b = b64_value q; c = b64_value r; d = b64_value s in
     if r = CHR ''='' then [char_of (a * 4 + b div 16)]
     else if s = CHR ''='' then [char_of (a * 4 + b div 16), char_of (b mod 16 * 16 + c div 4)]
     else char_of (a * 4 + b div 16) # char_of (b mod 16 * 16 + c div 4) # char_of (c mod 4 * 64 + d) # b64decode rest)"
| "b64decode _ = []"

text \<open>The text of a JSON string, after its opening quote: what \<^verbatim>\<open>json.dumps\<close> escapes with
  \<open>ensure_ascii=False\<close>, and its reading.\<close>

definition QUOTE :: char where "QUOTE = CHR 0x22"
definition BACKSLASH :: char where "BACKSLASH = CHR 0x5C"

definition escape_char :: "char \<Rightarrow> string" where
  "escape_char c =
     (if c = QUOTE \<or> c = BACKSLASH then [BACKSLASH, c]
      else if c = CHR 0x0A then [BACKSLASH, CHR ''n'']
      else if c = CHR 0x0D then [BACKSLASH, CHR ''r'']
      else if c = CHR 0x09 then [BACKSLASH, CHR ''t'']
      else if c = CHR 0x0C then [BACKSLASH, CHR ''f'']
      else if c = CHR 0x08 then [BACKSLASH, CHR ''b'']
      else let n = of_char c :: nat in
        if n < 32 then [BACKSLASH, CHR ''u'', CHR ''0'', CHR ''0'', hex_char (n div 16), hex_char (n mod 16)] else [c])"

definition dumps_text :: "string \<Rightarrow> string" where
  "dumps_text s = QUOTE # concat (map escape_char s) @ [QUOTE]"

definition hex_value :: "char \<Rightarrow> nat option" where
  "hex_value c = index_from 0 (lower_char c) ''0123456789abcdef''"

fun unescape :: "char \<Rightarrow> char option" where
  "unescape c =
     (if c = QUOTE \<or> c = BACKSLASH \<or> c = CHR ''/'' then Some c
      else if c = CHR ''n'' then Some (CHR 0x0A)
      else if c = CHR ''r'' then Some (CHR 0x0D)
      else if c = CHR ''t'' then Some (CHR 0x09)
      else if c = CHR ''f'' then Some (CHR 0x0C)
      else if c = CHR ''b'' then Some (CHR 0x08)
      else None)"

definition put_char :: "char \<Rightarrow> (string \<times> string) option \<Rightarrow> (string \<times> string) option" where
  "put_char c = map_option (\<lambda>(t, rest). (c # t, rest))"

fun loads_text :: "string \<Rightarrow> (string \<times> string) option" where
  "loads_text [] = None"
| "loads_text (c # s) =
     (if c = QUOTE then Some ([], s)
      else if c = BACKSLASH then
        (case s of
           [] \<Rightarrow> None
         | e # s1 \<Rightarrow>
             if e = CHR ''u'' then
               (case s1 of
                  z1 # z2 # h # l # s2 \<Rightarrow>
                    (case (hex_value z1, hex_value z2, hex_value h, hex_value l) of
                       (Some 0, Some 0, Some a, Some b) \<Rightarrow> put_char (char_of (16 * a + b)) (loads_text s2)
                     | _ \<Rightarrow> None)
                | _ \<Rightarrow> None)
             else (case unescape e of None \<Rightarrow> None | Some d \<Rightarrow> put_char d (loads_text s1)))
      else if of_char c < (32 :: nat) then None
      else put_char c (loads_text s))"

text \<open>A value of a row, \<open>_value\<close> and \<open>_decode\<close>.\<close>

definition MARK :: string where "MARK = dumps_text ''$b64''"

definition dumps_cell :: "cell \<Rightarrow> string" where
  "dumps_cell c = (case c of
     Null \<Rightarrow> ''null''
   | Num i \<Rightarrow> str_of_int i
   | Text s \<Rightarrow> dumps_text s
   | Bytes b \<Rightarrow> CHR ''{'' # MARK @ CHR '':'' # dumps_text (b64encode b) @ ''}'')"

definition starts :: "string \<Rightarrow> string \<Rightarrow> string option" where
  "starts p s = (if take (length p) s = p then Some (drop (length p) s) else None)"

definition loads_int :: "string \<Rightarrow> (int \<times> string) option" where
  "loads_int s =
     (let (negative, s1) = (case s of c # s' \<Rightarrow> if c = CHR ''-'' then (True, s') else (False, s) | [] \<Rightarrow> (False, s));
          ds = takeWhile is_digit s1; n = int (nat_of_digits ds)
      in if ds = [] \<or> (hd ds = CHR ''0'' \<and> ds \<noteq> ''0'') then None
         else Some (if negative then - n else n, dropWhile is_digit s1))"

definition loads_cell :: "string \<Rightarrow> (cell \<times> string) option" where
  "loads_cell s = (case s of
     [] \<Rightarrow> None
   | c # s1 \<Rightarrow>
      if c = CHR ''n'' then map_option (\<lambda>rest. (Null, rest)) (starts ''null'' s)
      else if c = QUOTE then map_option (\<lambda>(t, rest). (Text t, rest)) (loads_text s1)
      else if c = CHR ''{'' then
        (case starts (MARK @ [CHR '':'', QUOTE]) s1 of
           None \<Rightarrow> None
         | Some s2 \<Rightarrow>
             (case loads_text s2 of
                None \<Rightarrow> None
              | Some (b, s3) \<Rightarrow> map_option (\<lambda>rest. (Bytes (b64decode b), rest)) (starts ''}'' s3)))
      else map_option (\<lambda>(i, rest). (Num i, rest)) (loads_int s))"

text \<open>\<open>_encode\<close> of a row: its columns sorted by name.\<close>

definition dumps_pair :: "string \<times> cell \<Rightarrow> string" where
  "dumps_pair p = dumps_text (fst p) @ CHR '':'' # dumps_cell (snd p)"

fun dumps_pairs :: "(string \<times> cell) list \<Rightarrow> string" where
  "dumps_pairs [] = ''}''"
| "dumps_pairs [p] = dumps_pair p @ ''}''"
| "dumps_pairs (p # q # ps) = dumps_pair p @ CHR '','' # dumps_pairs (q # ps)"

definition encode :: "row \<Rightarrow> string" where
  "encode r = CHR ''{'' # dumps_pairs (sort_key fst r)"

definition loads_pair :: "string \<Rightarrow> ((string \<times> cell) \<times> string) option" where
  "loads_pair s = (case s of
     [] \<Rightarrow> None
   | c # s1 \<Rightarrow>
      if c \<noteq> QUOTE then None
      else (case loads_text s1 of
        None \<Rightarrow> None
      | Some (k, s2) \<Rightarrow>
         (case starts '':'' s2 of
            None \<Rightarrow> None
          | Some s3 \<Rightarrow> map_option (\<lambda>(v, rest). ((k, v), rest)) (loads_cell s3))))"

fun loads_pairs :: "nat \<Rightarrow> string \<Rightarrow> (string \<times> cell) list option" where
  "loads_pairs 0 s = None"
| "loads_pairs (Suc n) s = (case loads_pair s of
     None \<Rightarrow> None
   | Some (p, rest) \<Rightarrow>
       if rest = ''}'' then Some [p]
       else (case starts '','' rest of None \<Rightarrow> None | Some s1 \<Rightarrow> map_option (\<lambda>ps. p # ps) (loads_pairs n s1)))"

text \<open>Every pair takes at least one character, so the length of the text is fuel enough.\<close>

definition loads :: "string \<Rightarrow> row option" where
  "loads s = (if s = ''{}'' then Some []
     else case starts ''{'' s of None \<Rightarrow> None | Some s1 \<Rightarrow> map_option dict_of (loads_pairs (length s1) s1))"

section \<open>Two names never share a place\<close>

lemma hex_char_mem: "n < 16 \<Longrightarrow> hex_char n \<in> set ''0123456789abcdef''"
  unfolding hex_char_def by (intro nth_mem) simp

lemma hex_char_inject: "m < 16 \<Longrightarrow> n < 16 \<Longrightarrow> hex_char m = hex_char n \<Longrightarrow> m = n"
  by (simp add: hex_char_def nth_eq_iff_index_eq)

lemma byte_halves: "(of_char c :: nat) div 16 < 16" "(of_char c :: nat) mod 16 < 16"
  using of_char_mod_256 [of c] by (auto simp: less_mult_imp_div_less)

lemma to_hex_inject: "to_hex s = to_hex t \<Longrightarrow> s = t"
proof (induction s arbitrary: t)
  case Nil
  then show ?case by (cases t) (auto simp: Let_def)
next
  case (Cons c s)
  then obtain d u where t: "t = d # u" by (cases t) (auto simp: Let_def)
  with Cons.prems have "hex_char (of_char c div 16) = hex_char (of_char d div 16)"
      "hex_char (of_char c mod 16) = hex_char (of_char d mod 16)" "to_hex s = to_hex u" by (simp_all add: Let_def)
  then have "(of_char c :: nat) div 16 = of_char d div 16" "(of_char c :: nat) mod 16 = of_char d mod 16" "s = u"
    using hex_char_inject byte_halves Cons.IH by blast+
  then have "(of_char c :: nat) = of_char d" by (metis div_mult_mod_eq)
  then show ?case using t \<open>s = u\<close> by simp
qed

lemma PLAIN_start: "PLAIN s \<Longrightarrow> \<exists>c cs. s = c # cs \<and> (plain_start c \<or> c = newline)"
  by (cases s) (auto simp: PLAIN_def re_dollar_def split: if_splits)

lemma PLAIN_no_underscore: "\<not> PLAIN (CHR ''_'' # s)"
proof
  assume "PLAIN (CHR ''_'' # s)"
  then have "plain_start (CHR ''_'') \<or> CHR ''_'' = newline" using PLAIN_start by blast
  then show False
    by (simp add: plain_start_def is_alnum_def is_digit_def is_lower_def is_upper_def less_eq_char_def)
qed

lemma component_inject: "component a = component b \<longleftrightarrow> a = b"
proof
  assume eq: "component a = component b"
  consider "PLAIN a" "PLAIN b" | "PLAIN a" "\<not> PLAIN b" | "\<not> PLAIN a" "PLAIN b" | "\<not> PLAIN a" "\<not> PLAIN b" by blast
  then show "a = b"
  proof cases
    case 4
    then have "to_hex a = to_hex b" using eq by (simp add: component_def)
    then show ?thesis by (rule to_hex_inject)
  qed (use eq PLAIN_no_underscore in \<open>auto simp: component_def\<close>)
qed simp

lemma PLAIN_no_slash: "PLAIN s \<Longrightarrow> CHR ''/'' \<notin> set s"
proof
  assume "PLAIN s" and slash: "CHR ''/'' \<in> set s"
  have bad: "\<not> plain_char (CHR ''/'')" "\<not> plain_start (CHR ''/'')"
    by (simp_all add: plain_char_def plain_start_def is_alnum_def is_digit_def is_lower_def is_upper_def less_eq_char_def)
  have no: "(case t of [] \<Rightarrow> False | c # cs \<Rightarrow> plain_start c \<and> list_all plain_char cs) \<Longrightarrow> CHR ''/'' \<notin> set t" for t
    using bad by (cases t) (auto simp: list_all_iff)
  from \<open>PLAIN s\<close> show False
  proof (unfold PLAIN_def re_dollar_def, elim disjE conjE)
    assume "s \<noteq> []" "last s = newline" and p: "case butlast s of [] \<Rightarrow> False | c # cs \<Rightarrow> plain_start c \<and> list_all plain_char cs"
    then have "s = butlast s @ [newline]" by (metis append_butlast_last_id)
    then have "CHR ''/'' \<in> set (butlast s @ [newline])" using slash by metis
    then have "CHR ''/'' \<in> set (butlast s)" by simp
    then show False using no [OF p] by blast
  qed (use no slash in blast)
qed

lemma to_hex_no_slash: "CHR ''/'' \<notin> set (to_hex s)"
proof (induction s)
  case (Cons c s)
  have "hex_char (of_char c div 16) \<in> set ''0123456789abcdef''" "hex_char (of_char c mod 16) \<in> set ''0123456789abcdef''"
    using byte_halves hex_char_mem by blast+
  then show ?case using Cons.IH by (auto simp: Let_def)
qed simp

lemma component_no_slash: "CHR ''/'' \<notin> set (component s)"
  using PLAIN_no_slash to_hex_no_slash by (auto simp: component_def)

lemma join_no_slash:
  assumes "list_all (\<lambda>c. CHR ''/'' \<notin> set c) cs" and "list_all (\<lambda>c. CHR ''/'' \<notin> set c) ds"
    and "join_with (CHR ''/'') (pre # cs) = join_with (CHR ''/'') (pre # ds)"
  shows "cs = ds"
proof -
  have cancel: "join_with (CHR ''/'') (pre # es) = pre @ (if es = [] then [] else CHR ''/'' # join_with (CHR ''/'') es)" for es
    by (cases es) auto
  show ?thesis
  proof (cases "cs = [] \<or> ds = []")
    case True
    then show ?thesis using assms(3) unfolding cancel by (auto split: if_splits)
  next
    case False
    then have "join_with (CHR ''/'') cs = join_with (CHR ''/'') ds" using assms(3) unfolding cancel by simp
    then show ?thesis using False assms(1,2) split_on_join by metis
  qed
qed

lemma path_inject: "path pre k = path pre j \<longleftrightarrow> map str_cell k = map str_cell j"
proof
  assume "path pre k = path pre j"
  then have "map (\<lambda>x. component (str_cell x)) k = map (\<lambda>x. component (str_cell x)) j"
    unfolding path_def by (rule join_no_slash [rotated 2]) (simp_all add: list_all_iff component_no_slash)
  then show "map str_cell k = map str_cell j"
    using component_inject by (auto simp: list_eq_iff_nth_eq)
next
  assume "map str_cell k = map str_cell j"
  then have "map component (map str_cell k) = map component (map str_cell j)" by simp
  then show "path pre k = path pre j" by (simp add: path_def o_def)
qed

section \<open>A written row reads back\<close>

lemma starts_append [simp]: "starts p (p @ s) = Some s"
  by (simp add: starts_def)

lemma starts_Cons [simp]: "starts [c] (c # s) = Some s"
  by (simp add: starts_def)

lemma index_from_nth: "distinct xs \<Longrightarrow> i < length xs \<Longrightarrow> index_from n (xs ! i) xs = Some (n + i)"
proof (induction xs arbitrary: i n)
  case (Cons x xs)
  then show ?case by (cases i) auto
qed simp

lemma b64_value_char [simp]: "n < 64 \<Longrightarrow> b64_value (b64_char n) = n"
  by (simp add: b64_value_def b64_char_def index_from_nth del: index_from.simps)

lemma b64_char_mem: "n < 64 \<Longrightarrow> b64_char n \<in> set ''ABCDEFGHIJKLMNOPQRSTUVWXYZabcdefghijklmnopqrstuvwxyz0123456789+/''"
  unfolding b64_char_def by (intro nth_mem) simp

lemma b64_char_not_pad [simp]: "n < 64 \<Longrightarrow> b64_char n \<noteq> CHR ''=''"
  using b64_char_mem [of n] by auto

lemma of_char_less: "(of_char c :: nat) < 256"
  using of_char_mod_256 [of c] by (metis mod_less_divisor zero_less_numeral)

lemma six_bits:
  fixes a b c :: nat
  assumes "a < 256" "b < 256" "c < 256"
  shows "a div 4 < 64" "a mod 4 * 16 < 64" "a mod 4 * 16 + b div 16 < 64" "b mod 16 * 4 < 64" "b mod 16 * 4 + c div 64 < 64" "c mod 64 < 64"
    "a div 4 * 4 + (a mod 4 * 16) div 16 = a" "a div 4 * 4 + (a mod 4 * 16 + b div 16) div 16 = a"
    "(a mod 4 * 16 + b div 16) mod 16 * 16 + (b mod 16 * 4) div 4 = b"
    "(a mod 4 * 16 + b div 16) mod 16 * 16 + (b mod 16 * 4 + c div 64) div 4 = b"
    "(b mod 16 * 4 + c div 64) mod 4 * 64 + c mod 64 = c"
proof -
  have le: "a mod 4 \<le> 3" "b mod 16 \<le> 15" "b div 16 \<le> 15" "c div 64 \<le> 3" "a div 4 \<le> 63" "c mod 64 < 64"
    using assms by simp_all
  show "a div 4 < 64" "a mod 4 * 16 < 64" "a mod 4 * 16 + b div 16 < 64" "b mod 16 * 4 < 64" "b mod 16 * 4 + c div 64 < 64" "c mod 64 < 64"
    using le by linarith+
  show "a div 4 * 4 + (a mod 4 * 16) div 16 = a" by simp
  have "(a mod 4 * 16 + b div 16) div 16 = a mod 4" "(a mod 4 * 16 + b div 16) mod 16 = b div 16"
      "(b mod 16 * 4 + c div 64) div 4 = b mod 16" "(b mod 16 * 4 + c div 64) mod 4 = c div 64"
    using le by simp_all
  then show "a div 4 * 4 + (a mod 4 * 16 + b div 16) div 16 = a"
      "(a mod 4 * 16 + b div 16) mod 16 * 16 + (b mod 16 * 4) div 4 = b"
      "(a mod 4 * 16 + b div 16) mod 16 * 16 + (b mod 16 * 4 + c div 64) div 4 = b"
      "(b mod 16 * 4 + c div 64) mod 4 * 64 + c mod 64 = c"
    by simp_all
qed

lemma b64decode_encode [simp]: "b64decode (b64encode s) = s"
proof (induction s rule: b64encode.induct)
  case (2 x)
  show ?case using six_bits [OF of_char_less [of x] of_char_less [of x] of_char_less [of x]] by (simp add: Let_def)
next
  case (3 x y)
  show ?case using six_bits [OF of_char_less [of x] of_char_less [of y] of_char_less [of x]] by (simp add: Let_def)
next
  case (4 x y z rest)
  then show ?case using six_bits [OF of_char_less [of x] of_char_less [of y] of_char_less [of z]] by (simp add: Let_def)
qed simp

text \<open>Texts.\<close>

lemma hex_value_char [simp]: "n < 16 \<Longrightarrow> hex_value (hex_char n) = Some n"
proof -
  assume n: "n < 16"
  have "lower_char (hex_char n) = hex_char n"
    using hex_char_mem [OF n] by (auto simp: lower_char_def is_upper_def less_eq_char_def)
  then show ?thesis
    using index_from_nth [of "''0123456789abcdef''" n 0] n by (simp add: hex_value_def hex_char_def del: index_from.simps)
qed

lemma hex_value_zero [simp]: "hex_value (CHR ''0'') = Some 0"
  by (simp add: hex_value_def lower_char_def is_upper_def less_eq_char_def)

lemma char_halves: "char_of (16 * ((of_char c :: nat) div 16) + of_char c mod 16) = c"
  by (simp add: mult.commute)

lemma loads_escape: "loads_text (escape_char c @ s) = put_char c (loads_text s)"
proof -
  consider "c = QUOTE \<or> c = BACKSLASH" | "c \<in> {CHR 0x0A, CHR 0x0D, CHR 0x09, CHR 0x0C, CHR 0x08}"
    | "c \<notin> {QUOTE, BACKSLASH, CHR 0x0A, CHR 0x0D, CHR 0x09, CHR 0x0C, CHR 0x08}" "of_char c < (32 :: nat)"
    | "c \<notin> {QUOTE, BACKSLASH, CHR 0x0A, CHR 0x0D, CHR 0x09, CHR 0x0C, CHR 0x08}" "\<not> of_char c < (32 :: nat)"
    by blast
  then show ?thesis
  proof cases
    case 3
    then show ?thesis using byte_halves [of c] char_halves [of c] by (simp add: escape_char_def Let_def QUOTE_def BACKSLASH_def)
  next
    case 4
    then show ?thesis by (simp add: escape_char_def Let_def)
  qed (auto simp: escape_char_def QUOTE_def BACKSLASH_def)
qed

lemma loads_dumps_text: "loads_text (concat (map escape_char s) @ QUOTE # rest) = Some (s, rest)"
  by (induction s) (simp_all add: loads_escape put_char_def del: loads_text.simps, simp)

text \<open>Numbers.\<close>

lemma str_of_nat_hd: "hd (str_of_nat n) = CHR ''0'' \<Longrightarrow> n = 0"
proof (induction n rule: str_of_nat.induct)
  case (1 n)
  show ?case
  proof (cases "n < 10")
    case True
    then have "digit_value (hd (str_of_nat n)) = n" by (subst str_of_nat.simps) simp
    then show ?thesis using 1(2) by (simp add: digit_value_def)
  next
    case False
    then have "hd (str_of_nat n) = hd (str_of_nat (n div 10))" by (subst str_of_nat.simps) simp
    then show ?thesis using 1 False by auto
  qed
qed

lemma takeWhile_digits:
  "list_all P ds \<Longrightarrow> rest = [] \<or> \<not> P (hd rest) \<Longrightarrow> takeWhile P (ds @ rest) = ds \<and> dropWhile P (ds @ rest) = rest"
  by (induction ds; cases rest) auto

lemma loads_int_nat:
  assumes "rest = [] \<or> \<not> is_digit (hd rest)"
  shows "loads_int (str_of_nat n @ rest) = Some (int n, rest)" "loads_int (CHR ''-'' # str_of_nat n @ rest) = Some (- int n, rest)"
proof -
  note ds = takeWhile_digits [OF digits_str_of_nat [of n] assms]
  have "str_of_nat 0 = ''0''" by code_simp
  then have zero: "hd (str_of_nat n) = CHR ''0'' \<Longrightarrow> str_of_nat n = ''0''"
    using str_of_nat_hd [of n] by metis
  obtain c cs where c: "str_of_nat n = c # cs" "is_digit c"
    using digits_str_of_nat [of n] str_of_nat_not_Nil [of n] by (cases "str_of_nat n") (auto simp del: str_of_nat.simps)
  then have "c \<noteq> CHR ''-''" by (auto simp: is_digit_def less_eq_char_def)
  then have "(case str_of_nat n @ rest of c # s' \<Rightarrow> if c = CHR ''-'' then (True, s') else (False, str_of_nat n @ rest) | [] \<Rightarrow> (False, str_of_nat n @ rest))
     = (False, str_of_nat n @ rest)" using c by simp
  then show "loads_int (str_of_nat n @ rest) = Some (int n, rest)"
    unfolding loads_int_def Let_def using ds zero by (simp del: str_of_nat.simps)
  show "loads_int (CHR ''-'' # str_of_nat n @ rest) = Some (- int n, rest)"
    unfolding loads_int_def Let_def using ds zero by (simp del: str_of_nat.simps)
qed

lemma loads_dumps_int: "rest = [] \<or> \<not> is_digit (hd rest) \<Longrightarrow> loads_int (str_of_int i @ rest) = Some (i, rest)"
  by (auto simp: str_of_int_def loads_int_nat simp del: str_of_nat.simps)

text \<open>Values, pairs, rows.\<close>

lemma str_of_int_start: "\<exists>c cs. str_of_int i = c # cs \<and> (is_digit c \<or> c = CHR ''-'')"
proof (cases "i < 0")
  case False
  obtain c cs where "str_of_nat (nat i) = c # cs" "is_digit c"
    using digits_str_of_nat [of "nat i"] str_of_nat_not_Nil [of "nat i"] by (cases "str_of_nat (nat i)") (auto simp del: str_of_nat.simps)
  then show ?thesis using False by (simp add: str_of_int_def del: str_of_nat.simps)
qed (simp add: str_of_int_def del: str_of_nat.simps)

lemma loads_dumps_cell:
  assumes "rest = [] \<or> \<not> is_digit (hd rest)"
  shows "loads_cell (dumps_cell c @ rest) = Some (c, rest)"
proof (cases c)
  case Null
  then show ?thesis by (simp add: dumps_cell_def loads_cell_def starts_def)
next
  case (Num i)
  obtain d ds where d: "str_of_int i = d # ds" "is_digit d \<or> d = CHR ''-''" using str_of_int_start by blast
  then have "d \<noteq> CHR ''n''" "d \<noteq> QUOTE" "d \<noteq> CHR ''{''" by (auto simp: is_digit_def QUOTE_def less_eq_char_def)
  then show ?thesis using Num d loads_dumps_int [OF assms, of i] by (simp add: dumps_cell_def loads_cell_def)
next
  case (Text s)
  then show ?thesis using loads_dumps_text [of s rest] by (simp add: dumps_cell_def dumps_text_def loads_cell_def QUOTE_def)
next
  case (Bytes b)
  have "CHR ''{'' \<noteq> QUOTE" by (simp add: QUOTE_def)
  moreover have "dumps_cell c @ rest
      = CHR ''{'' # (MARK @ [CHR '':'', QUOTE]) @ (concat (map escape_char (b64encode b)) @ QUOTE # ''}'' @ rest)"
    using Bytes by (simp add: dumps_cell_def dumps_text_def)
  ultimately have "loads_cell (dumps_cell c @ rest) =
      (case loads_text (concat (map escape_char (b64encode b)) @ QUOTE # ''}'' @ rest) of
         None \<Rightarrow> None | Some (b, s3) \<Rightarrow> map_option (\<lambda>rest. (Bytes (b64decode b), rest)) (starts ''}'' s3))"
    unfolding loads_cell_def by (simp only: list.case starts_append option.case) simp
  then show ?thesis using Bytes by (simp only: loads_dumps_text) (simp add: starts_def)
qed

lemma loads_dumps_pair:
  "rest = [] \<or> \<not> is_digit (hd rest) \<Longrightarrow> loads_pair (dumps_pair p @ rest) = Some (p, rest)"
  using loads_dumps_text [of "fst p" "CHR '':'' # dumps_cell (snd p) @ rest"] loads_dumps_cell [of rest "snd p"]
  by (simp add: loads_pair_def dumps_pair_def dumps_text_def)

lemma dumps_pair_not_Nil: "dumps_pair p \<noteq> []"
  by (simp add: dumps_pair_def dumps_text_def)

lemma loads_dumps_pairs: "ps \<noteq> [] \<Longrightarrow> length ps \<le> n \<Longrightarrow> loads_pairs n (dumps_pairs ps) = Some ps"
proof (induction ps arbitrary: n rule: dumps_pairs.induct)
  case (2 p)
  then obtain m where "n = Suc m" by (cases n) auto
  then show ?case using loads_dumps_pair [of "''}''" p] by (simp add: is_digit_def less_eq_char_def)
next
  case (3 p q ps)
  then obtain m where n: "n = Suc m" "length (q # ps) \<le> m" by (cases n) auto
  have "loads_pair (dumps_pairs (p # q # ps)) = Some (p, CHR '','' # dumps_pairs (q # ps))"
    using loads_dumps_pair [of "CHR '','' # dumps_pairs (q # ps)" p] by (simp add: is_digit_def less_eq_char_def)
  then show ?case using n 3 by (simp del: dumps_pairs.simps)
qed simp

lemma dumps_pairs_long: "length ps \<le> length (dumps_pairs ps)"
proof (induction ps rule: dumps_pairs.induct)
  case (3 p q ps)
  then show ?case using dumps_pair_not_Nil [of p] by (cases "dumps_pair p") auto
qed simp_all

lemma dict_of_id: "dict_ok d \<Longrightarrow> dict_of d = d"
proof (induction d rule: rev_induct)
  case (snoc x d)
  then show ?case by (cases x) (auto simp: dict_of_snoc dict_set_new)
qed simp

lemma dict_ok_sort: "dict_ok r \<Longrightarrow> dict_ok (sort_key fst r)"
  by (metis distinct_sort distinct_map set_sort)

lemma loads_encode: "dict_ok r \<Longrightarrow> loads (encode r) = Some (sort_key fst r)"
proof (cases "r = []")
  case False
  assume ok: "dict_ok r"
  let ?ps = "sort_key fst r"
  have ne: "?ps \<noteq> []" using False by simp
  then obtain p ps where ps: "?ps = p # ps" by (cases ?ps) auto
  have "dumps_pairs ?ps \<noteq> ''}''"
    unfolding ps by (cases ps) (auto simp: dumps_pair_def dumps_text_def QUOTE_def)
  then have "encode r \<noteq> ''{}''" by (simp add: encode_def)
  then show ?thesis
    using loads_dumps_pairs [OF ne dumps_pairs_long] dict_of_id [OF dict_ok_sort [OF ok]] by (simp add: loads_def encode_def)
qed (simp add: encode_def loads_def)

text \<open>C40: A row written into the tree reads back as the row: the JSON text of its columns, whatever their texts hold (quotes,
  backslashes, control characters) and with its bytes as base64, gives the same columns and values, sorted by name.\<close>

theorem row_reads_back: "dict_ok r \<Longrightarrow> loads (encode r) = Some (sort_key fst r) \<and> map_of (sort_key fst r) = map_of r"
proof -
  assume ok: "dict_ok r"
  then have "map_of (sort_key fst r) = map_of r" using dict_ok_sort [OF ok] by (simp add: map_of_inject_set)
  then show ?thesis using loads_encode [OF ok] by blast
qed

theorem row_reads_back_witness:
  "loads (encode [(''name'', Text [QUOTE, CHR ''a'', newline]), (''id'', Num (-7)), (''key'', Bytes [CHR 0x00, CHR 0xFF])])
     = Some [(''id'', Num (-7)), (''key'', Bytes [CHR 0x00, CHR 0xFF]), (''name'', Text [QUOTE, CHR ''a'', newline])]"
proof -
  let ?r = "[(''name'', Text [QUOTE, CHR ''a'', newline]), (''id'', Num (-7)), (''key'', Bytes [CHR 0x00, CHR 0xFF])]"
  have "sort_key fst ?r = [(''id'', Num (-7)), (''key'', Bytes [CHR 0x00, CHR 0xFF]), (''name'', Text [QUOTE, CHR ''a'', newline])]" by code_simp
  moreover have "dict_ok ?r" by simp
  ultimately show ?thesis using row_reads_back [of ?r] by simp
qed

text \<open>A name ending in a newline is kept as it is, though the daemon accepts no newline in a path: \<open>$\<close> in the pattern also
  matches before a final newline.\<close>

lemma newline_kept: "component (''ops'' @ [newline]) = ''ops'' @ [newline]"
  by code_simp

end
