(* ===== verification/Shadow.thy ===== *)
theory Shadow
  imports Row_Codec Cfs
begin

text \<open>
  A node's configuration copied into the replicated tree (\<^verbatim>\<open>app/repositories/cfs/shadow.py\<close>). A \<open>node\<close> is
  what one member keeps: the rows of the listed tables of its SQLite (\<open>n_rows\<close>), the outbox the
  triggers fill in the transaction of every change (\<open>n_outbox\<close>, numbered by \<open>n_seq\<close>), the version of
  each entry as the node last saw it (\<open>n_base\<close>), the tree's version it last applied, and the copy loop's
  own memory (the ids requests wait for and what became of them, the counters of the report, the flag that
  asks for the tree to be applied again, the audit of dropped changes).

  \<open>drain\<close> copies the outbox out: oldest change first, each row read again from SQLite, in a cluster only
  over the version last seen (\<open>write_checked\<close>). What can happen around it is a parameter: \<open>call_env\<close> says
  which calls the daemon refuses or takes without its answer arriving, what the other members do to the
  tree between two calls, and what this node's other threads write meanwhile. \<open>confirm_here\<close> is the wait
  of a request for its changes, one round per turn of its loop; \<open>seed\<close> the first copy.

  Left out: the schema read from SQLite (a \<open>table_spec\<close> is given), the SQL text of the triggers (their
  effect is \<open>record_change\<close>), the systemd service, the sentences of the errors.
\<close>

section \<open>Tables and rows\<close>

record table_spec =
  t_name :: string
  t_priv :: bool
  t_pk :: "string list"
  t_pk_int :: "bool list"
  t_columns :: "string list"
  t_local_rows :: "(string \<times> string list) list"
  t_fill :: "(string \<times> cell option) list"

definition t_prefix :: "table_spec \<Rightarrow> string" where
  "t_prefix t = (if t_priv t then ''/priv/db/'' else ''/db/'') @ t_name t"

definition col :: "row \<Rightarrow> string \<Rightarrow> cell" where
  "col r c = (case map_of r c of Some v \<Rightarrow> v | None \<Rightarrow> Null)"

definition t_key :: "table_spec \<Rightarrow> row \<Rightarrow> cell list" where
  "t_key t r = map (col r) (t_pk t)"

definition t_path :: "table_spec \<Rightarrow> cell list \<Rightarrow> string" where
  "t_path t key = path (t_prefix t) key"

definition t_local :: "table_spec \<Rightarrow> row \<Rightarrow> bool" where
  "t_local t r \<longleftrightarrow> list_ex (\<lambda>(c, vs). case col r c of Text s \<Rightarrow> s \<in> set vs | _ \<Rightarrow> False) (t_local_rows t)"

definition t_data :: "table_spec \<Rightarrow> row \<Rightarrow> string" where
  "t_data t r = encode (map (\<lambda>c. (c, col r c)) (t_columns t))"

section \<open>A node\<close>

type_synonym outbox_row = "nat \<times> string \<times> cell list"

datatype problem = Older int int | Empty_tree | Refused string

record node =
  n_enabled :: bool
  n_rows :: "string \<Rightarrow> row list"
  n_outbox :: "outbox_row list"
  n_seq :: nat
  n_base :: "(string, int) dict"
  n_applied :: int
  n_again :: bool
  n_problem :: "problem option"
  n_awaited :: "nat list"
  n_outcomes :: "(nat, string option) dict"
  n_copies :: nat
  n_failures :: nat
  n_conflicts :: nat
  n_audit :: "(string \<times> bool) list"

definition t_entry :: "table_spec \<Rightarrow> cell list \<Rightarrow> node \<Rightarrow> string \<times> string option" where
  "t_entry t key n = (t_path t key, case find (\<lambda>r. t_key t r = key) (n_rows n (t_name t)) of
     Some r \<Rightarrow> if t_local t r then None else Some (t_data t r)
   | None \<Rightarrow> None)"

definition t_all :: "table_spec \<Rightarrow> node \<Rightarrow> (string, string) dict" where
  "t_all t n = dict_of (map (\<lambda>r. (t_path t (t_key t r), t_data t r))
     (filter (\<lambda>r. \<not> t_local t r) (n_rows n (t_name t))))"

text \<open>The triggers: one outbox row per changed row, in the same transaction; rows that stay on the node
  leave none. An update is recorded when it assigns a configuration column, the row as it was and as it
  is.\<close>

definition record_change :: "table_spec \<Rightarrow> row \<Rightarrow> node \<Rightarrow> node" where
  "record_change t r n = (if t_local t r then n
     else n\<lparr>n_outbox := n_outbox n @ [(Suc (n_seq n), t_name t, t_key t r)], n_seq := Suc (n_seq n)\<rparr>)"

definition set_rows :: "table_spec \<Rightarrow> row list \<Rightarrow> node \<Rightarrow> node" where
  "set_rows t rs n = n\<lparr>n_rows := (n_rows n)(t_name t := rs)\<rparr>"

definition assign_columns :: "row \<Rightarrow> row \<Rightarrow> row" where
  "assign_columns sets r = foldl (\<lambda>r (c, v). dict_set c v r) r sets"

datatype sql_op =
    Insert table_spec row
  | Update table_spec "cell list" row
  | Delete table_spec "cell list"

text \<open>A statement on one row; one on several is a sequence of these. A key that is taken is an integrity
  error: the statement changes nothing.\<close>

fun run_op :: "sql_op \<Rightarrow> node \<Rightarrow> node" where
  "run_op (Insert t r) n =
     (if t_key t r \<in> t_key t ` set (n_rows n (t_name t)) then n
      else record_change t r (set_rows t (n_rows n (t_name t) @ [r]) n))"
| "run_op (Update t key sets) n =
     (case find (\<lambda>r. t_key t r = key) (n_rows n (t_name t)) of
        None \<Rightarrow> n
      | Some r \<Rightarrow>
         (let r' = assign_columns sets r in
          if t_key t r' \<noteq> key \<and> t_key t r' \<in> t_key t ` set (n_rows n (t_name t)) then n
          else let n' = set_rows t (map (\<lambda>x. if t_key t x = key then r' else x) (n_rows n (t_name t))) n
               in if list_ex (\<lambda>(c, _). c \<in> set (t_columns t)) sets then record_change t r' (record_change t r n') else n'))"
| "run_op (Delete t key) n =
     (case find (\<lambda>r. t_key t r = key) (n_rows n (t_name t)) of
        None \<Rightarrow> n
      | Some r \<Rightarrow> record_change t r (set_rows t (filter (\<lambda>x. t_key t x \<noteq> key) (n_rows n (t_name t))) n))"

definition run_ops :: "sql_op list \<Rightarrow> node \<Rightarrow> node" where
  "run_ops ops n = foldl (\<lambda>n op. run_op op n) n ops"

section \<open>Writing one entry\<close>

text \<open>\<open>e_get\<close>, \<open>e_put\<close> and \<open>e_reread\<close> are the daemon's refusals of the three calls; with \<open>e_lost\<close> it takes the
  change but its answer does not arrive (\<^verbatim>\<open>Uncertain\<close>, a timeout). \<open>e_others\<close> is what the other members do
  before the entry's turn, \<open>e_between\<close> what they do between two calls, \<open>e_local\<close> what this node's other
  threads write before the row is read.\<close>

record call_env =
  e_local :: "sql_op list"
  e_others :: "cfs \<Rightarrow> cfs"
  e_get :: "cfs_error option"
  e_put :: "cfs_error option"
  e_lost :: bool
  e_between :: "cfs \<Rightarrow> cfs"
  e_reread :: "cfs_error option"

definition quiet :: call_env where
  "quiet = \<lparr>e_local = [], e_others = (\<lambda>s. s), e_get = None, e_put = None, e_lost = False, e_between = (\<lambda>s. s), e_reread = None\<rparr>"

datatype write_error = Dropped | Failed cfs_error

definition UNCERTAIN :: cfs_error where "UNCERTAIN = Trouble ''uncertain''"

text \<open>A call that changed the store, with its answer lost or not.\<close>

definition answered :: "call_env \<Rightarrow> 'a \<Rightarrow> write_error + 'a" where
  "answered env v = (if e_lost env then Inl (Failed UNCERTAIN) else Inr v)"

definition write_plain :: "call_env \<Rightarrow> string \<Rightarrow> string option \<Rightarrow> cfs \<Rightarrow> (write_error + int option) \<times> cfs" where
  "write_plain env p data s = (case data of
     None \<Rightarrow> (case cfs_delete (e_put env) p Any_version s of
                Inr s1 \<Rightarrow> (answered env None, s1)
              | Inl e \<Rightarrow> if e = Not_found then (Inr None, s) else (Inl (Failed e), s))
   | Some d \<Rightarrow> (case cfs_put (e_put env) p d Any_version s of
                Inr (v, s1) \<Rightarrow> (answered env (Some v), s1)
              | Inl e \<Rightarrow> (Inl (Failed e), s)))"

definition read_again :: "call_env \<Rightarrow> string \<Rightarrow> string option \<Rightarrow> cfs \<Rightarrow> (write_error + int option) \<times> cfs" where
  "read_again env p data s = (case e_reread env of
     Some e \<Rightarrow> (Inl (Failed e), s)
   | None \<Rightarrow> (case cfs_tree s p of
                None \<Rightarrow> (if data = None then Inr None else Inl Dropped, s)
              | Some (d, v) \<Rightarrow> (if data = Some d then Inr (Some v) else Inl Dropped, s)))"

text \<open>A refused write: a conflict or an absent entry is read again, any other refusal is the caller's.\<close>

definition refused :: "call_env \<Rightarrow> string \<Rightarrow> string option \<Rightarrow> cfs_error \<Rightarrow> cfs \<Rightarrow> (write_error + int option) \<times> cfs" where
  "refused env p data e s =
     (if e = Conflict \<or> e = Not_found then read_again env p data (e_between env s) else (Inl (Failed e), s))"

definition write_checked ::
    "call_env \<Rightarrow> string \<Rightarrow> string option \<Rightarrow> int option \<Rightarrow> cfs \<Rightarrow> (write_error + int option) \<times> cfs" where
  "write_checked env p data base s = (case base of
     None \<Rightarrow>
       (case e_get env of
          Some e \<Rightarrow> (Inl (Failed e), s)
        | None \<Rightarrow>
          (case cfs_tree s p of
             Some (d, v) \<Rightarrow> (if data = Some d then Inr (Some v) else Inl Dropped, s)
           | None \<Rightarrow>
             (case data of
                None \<Rightarrow> (Inr None, s)
              | Some d \<Rightarrow>
                 (let s1 = e_between env s in
                  case cfs_put (e_put env) p d Must_not_exist s1 of
                    Inr (v, s2) \<Rightarrow> (answered env (Some v), s2)
                  | Inl e \<Rightarrow> refused env p data e s1))))
   | Some b \<Rightarrow>
       (case data of
          None \<Rightarrow>
            (case cfs_delete (e_put env) p (Version b) s of
               Inr s1 \<Rightarrow> (answered env None, s1)
             | Inl e \<Rightarrow> if e = Not_found then (Inr None, s) else refused env p data e s)
        | Some d \<Rightarrow>
            (case cfs_put (e_put env) p d (Version b) s of
               Inr (v, s1) \<Rightarrow> (answered env (Some v), s1)
             | Inl e \<Rightarrow> refused env p data e s)))"

section \<open>Copying the outbox\<close>

definition LIMIT :: nat where "LIMIT = 500"

text \<open>A row changed several times is copied once, in the place of its last change.\<close>

fun last_changes :: "(string \<times> cell list) list \<Rightarrow> (string \<times> cell list) list" where
  "last_changes [] = []"
| "last_changes (k # ks) = (if k \<in> set ks then last_changes ks else k # last_changes ks)"

definition ids_of :: "outbox_row list \<Rightarrow> string \<times> cell list \<Rightarrow> nat list" where
  "ids_of rows k = map fst (filter (\<lambda>r. snd r = k) rows)"

definition find_table :: "table_spec list \<Rightarrow> string \<Rightarrow> table_spec option" where
  "find_table known name = find (\<lambda>t. t_name t = name) known"

text \<open>What a drain gathers: the ids it is done with, the version of each entry it wrote (\<open>None\<close>: absent), the
  paths whose change it dropped and which of them a request waits for, and the error that stopped it.
  \<open>a_taken\<close>, which the code does not keep, lists what the store took: the ids, the path, the data, and the store right
  after it.\<close>

record drain_acc =
  a_done :: "nat list"
  a_copied :: nat
  a_seen :: "(string, int option) dict"
  a_dropped :: "string list"
  a_answered :: "string list"
  a_error :: "cfs_error option"
  a_taken :: "(nat list \<times> string \<times> string option \<times> cfs) list"

definition acc_start :: drain_acc where
  "acc_start = \<lparr>a_done = [], a_copied = 0, a_seen = [], a_dropped = [], a_answered = [], a_error = None, a_taken = []\<rparr>"

definition settle_ids :: "nat list \<Rightarrow> string option \<Rightarrow> node \<Rightarrow> node" where
  "settle_ids ids outcome n =
     n\<lparr>n_outcomes := foldl (\<lambda>d i. if i \<in> set (n_awaited n) then dict_set i outcome d else d) (n_outcomes n) ids\<rparr>"

text \<open>\<open>add_done\<close>: the ids of an entry that is handled; a dropped one that a request waits for is its to
  answer.\<close>

definition add_done :: "nat list \<Rightarrow> string option \<Rightarrow> node \<Rightarrow> drain_acc \<Rightarrow> drain_acc" where
  "add_done ids outcome n acc = acc\<lparr>a_done := a_done acc @ ids,
     a_answered := (case outcome of
        Some p \<Rightarrow> if list_ex (\<lambda>i. i \<in> set (n_awaited n)) ids then a_answered acc @ [p] else a_answered acc
      | None \<Rightarrow> a_answered acc)\<rparr>"

fun drain_loop :: "table_spec list \<Rightarrow> outbox_row list \<Rightarrow> (string, int) dict \<Rightarrow> bool \<Rightarrow> (nat \<Rightarrow> call_env)
    \<Rightarrow> nat \<Rightarrow> (string \<times> cell list) list \<Rightarrow> node \<Rightarrow> cfs \<Rightarrow> drain_acc \<Rightarrow> node \<times> cfs \<times> drain_acc" where
  "drain_loop known rows bases cluster env i [] n s acc = (n, s, acc)"
| "drain_loop known rows bases cluster env i ((tbl, key) # rest) n s acc =
     (let n1 = run_ops (e_local (env i)) n; s1 = e_others (env i) s; ids = ids_of rows (tbl, key) in
      case find_table known tbl of
        None \<Rightarrow> drain_loop known rows bases cluster env (Suc i) rest (settle_ids ids None n1) s1 (add_done ids None n1 acc)
      | Some t \<Rightarrow>
         (let (p, data) = t_entry t key n1;
              (res, s2) = (if cluster then write_checked (env i) p data (map_of bases p) s1
                           else write_plain (env i) p data s1)
          in case res of
               Inl (Failed e) \<Rightarrow> (n1\<lparr>n_failures := Suc (n_failures n1)\<rparr>, s2, acc\<lparr>a_error := Some e\<rparr>)
             | Inl Dropped \<Rightarrow>
                 drain_loop known rows bases cluster env (Suc i) rest (settle_ids ids (Some p) n1) s2
                   (add_done ids (Some p) n1 (acc\<lparr>a_dropped := a_dropped acc @ [p]\<rparr>))
             | Inr v \<Rightarrow>
                 drain_loop known rows bases cluster env (Suc i) rest (settle_ids ids None n1) s2
                   (add_done ids None n1 (acc\<lparr>a_copied := Suc (a_copied acc),
                      a_seen := (if cluster then dict_set p v (a_seen acc) else a_seen acc),
                      a_taken := a_taken acc @ [(ids, p, data, s2)]\<rparr>))))"

definition set_bases :: "(string, int option) dict \<Rightarrow> (string, int) dict \<Rightarrow> (string, int) dict" where
  "set_bases seen base = foldl (\<lambda>b (p, v). case v of Some w \<Rightarrow> dict_set p w b | None \<Rightarrow> dict_del p b) base seen"

text \<open>\<open>_dropped\<close>: the conflicts counted and audited (notified unless a request answers for them), and the
  tree to be applied again.\<close>

definition drop_changes :: "string list \<Rightarrow> string list \<Rightarrow> node \<Rightarrow> node" where
  "drop_changes ps answered_ps n = n\<lparr>n_conflicts := n_conflicts n + length ps,
     n_audit := n_audit n @ map (\<lambda>p. (p, p \<notin> set answered_ps)) ps, n_again := True\<rparr>"

definition finish_drain :: "drain_acc \<Rightarrow> node \<Rightarrow> node" where
  "finish_drain acc n =
     (let n1 = n\<lparr>n_outbox := filter (\<lambda>r. fst r \<notin> set (a_done acc)) (n_outbox n), n_base := set_bases (a_seen acc) (n_base n),
                 n_copies := n_copies n + a_copied acc\<rparr>
      in if a_dropped acc = [] then n1 else drop_changes (a_dropped acc) (a_answered acc) n1)"

text \<open>\<open>d_status\<close>: the daemon's mode (true: in a cluster), or its refusal; \<open>d_behind\<close>: some member runs a
  version before 1.0, so this node's changes wait.\<close>

record drain_env =
  d_status :: "cfs_error + bool"
  d_behind :: bool
  d_calls :: "nat \<Rightarrow> call_env"

definition drain :: "table_spec list \<Rightarrow> drain_env \<Rightarrow> node \<Rightarrow> cfs \<Rightarrow> node \<times> cfs \<times> drain_acc" where
  "drain known env n s =
     (if \<not> n_enabled n then (n\<lparr>n_outbox := []\<rparr>, s, acc_start)
      else let rows = take LIMIT (n_outbox n) in
      if rows = [] then (n, s, acc_start)
      else case d_status env of
        Inl e \<Rightarrow> (n\<lparr>n_failures := Suc (n_failures n)\<rparr>, s, acc_start\<lparr>a_error := Some e\<rparr>)
      | Inr cluster \<Rightarrow>
          if cluster \<and> d_behind env then (n, s, acc_start)
          else let (n1, s1, acc) = drain_loop known rows (n_base n) cluster (d_calls env) 0 (last_changes (map snd rows)) n s acc_start
               in (finish_drain acc n1, s1, acc))"

section \<open>A request's changes confirmed\<close>

definition READ_ONLY :: cfs_error where "READ_ONLY = Trouble ''read only''"

datatype unconfirmed = No_quorum | Too_late "cfs_error option"

datatype confirm_answer = Confirmed | Changed "string list" | Not_confirmed unconfirmed

text \<open>One turn of the loop: the drains the copy loop and other requests make before it, the request's own (none
  when the lock did not come in time), and whether the deadline is past after it.\<close>

record confirm_round =
  r_drains :: "drain_env list"
  r_mine :: "drain_env option"
  r_late :: bool

type_synonym replica = "node \<times> cfs \<times> drain_acc list"

definition drain_once :: "table_spec list \<Rightarrow> replica \<Rightarrow> drain_env \<Rightarrow> replica" where
  "drain_once known x env = (case x of (n, s, trace) \<Rightarrow>
     case drain known env n s of (n', s', acc) \<Rightarrow> (n', s', trace @ [acc]))"

fun confirm_loop :: "table_spec list \<Rightarrow> (node \<Rightarrow> cfs \<Rightarrow> node) \<Rightarrow> nat list \<Rightarrow> confirm_round list \<Rightarrow> replica
    \<Rightarrow> (confirm_answer \<times> replica) option" where
  "confirm_loop known app wanted [] x = None"
| "confirm_loop known app wanted (r # rs) x =
     (let y = foldl (drain_once known) x (r_drains r);
          (z, error) = (case r_mine r of
             None \<Rightarrow> (y, None)
           | Some env \<Rightarrow> (let z = drain_once known y env in (z, a_error (last (snd (snd z))))));
          (n, s, trace) = z
      in if list_all (\<lambda>i. i \<notin> fst ` set (n_outbox n)) wanted then
           (let changed = sort (dedup (List.map_filter (\<lambda>i. case map_of (n_outcomes n) i of Some o' \<Rightarrow> o' | None \<Rightarrow> None) wanted))
            in if changed = [] then Some (Confirmed, z) else Some (Changed changed, (app n s, s, trace)))
         else if error = Some READ_ONLY then Some (Not_confirmed No_quorum, z)
         else if r_late r then Some (Not_confirmed (Too_late error), z)
         else confirm_loop known app wanted rs z)"

definition forget_wanted :: "nat list \<Rightarrow> node \<Rightarrow> node" where
  "forget_wanted wanted n = n\<lparr>n_awaited := filter (\<lambda>i. i \<notin> set wanted) (n_awaited n),
     n_outcomes := filter (\<lambda>p. fst p \<notin> set wanted) (n_outcomes n)\<rparr>"

definition confirm_here :: "table_spec list \<Rightarrow> (node \<Rightarrow> cfs \<Rightarrow> node) \<Rightarrow> nat list \<Rightarrow> confirm_round list \<Rightarrow> node \<Rightarrow> cfs
    \<Rightarrow> (confirm_answer \<times> replica) option" where
  "confirm_here known app wanted rounds n s =
     (if wanted = [] then Some (Confirmed, (n, s, []))
      else map_option (\<lambda>(answer, n', s', trace). (answer, forget_wanted wanted n', s', trace))
             (confirm_loop known app wanted rounds (n\<lparr>n_awaited := n_awaited n @ wanted\<rparr>, s, [])))"

section \<open>The first copy, and the report\<close>

text \<open>\<open>ls t s\<close> is \<open>_read_tree_versions\<close> of the table's prefix: every entry under it, with its data and version.\<close>

type_synonym lister = "table_spec \<Rightarrow> cfs \<Rightarrow> (string, string \<times> int) dict"

definition under :: "table_spec \<Rightarrow> string \<Rightarrow> bool" where
  "under t p \<longleftrightarrow> starts (t_prefix t @ ''/'') p \<noteq> None"

definition lists :: "lister \<Rightarrow> table_spec \<Rightarrow> cfs \<Rightarrow> bool" where
  "lists ls t s \<longleftrightarrow> dict_ok (ls t s) \<and> map_of (ls t s) = (\<lambda>p. if under t p then cfs_tree s p else None)"

fun sync_jobs :: "(nat \<Rightarrow> call_env) \<Rightarrow> nat \<Rightarrow> (string \<times> string option) list \<Rightarrow> cfs \<Rightarrow> (write_error + unit) \<times> cfs" where
  "sync_jobs env i [] s = (Inr (), s)"
| "sync_jobs env i ((p, data) # jobs) s =
     (case write_plain (env i) p data s of
        (Inl e, s1) \<Rightarrow> (Inl e, s1)
      | (Inr v, s1) \<Rightarrow> sync_jobs env (Suc i) jobs s1)"

definition sync_plan :: "(string, string) dict \<Rightarrow> (string, string) dict \<Rightarrow> (string \<times> string option) list" where
  "sync_plan expected actual =
     map (\<lambda>(p, d). (p, Some d)) (filter (\<lambda>(p, d). map_of actual p \<noteq> Some d) expected)
     @ map (\<lambda>p. (p, None)) (filter (\<lambda>p. p \<notin> set (keys expected)) (keys actual))"

definition sync :: "lister \<Rightarrow> (nat \<Rightarrow> call_env) \<Rightarrow> table_spec \<Rightarrow> node \<Rightarrow> cfs \<Rightarrow> (write_error + unit) \<times> cfs" where
  "sync ls env t n s = sync_jobs env 0 (sync_plan (t_all t n) (map (\<lambda>(p, (d, _)). (p, d)) (ls t s))) s"

fun seed_tables :: "lister \<Rightarrow> (nat \<Rightarrow> nat \<Rightarrow> call_env) \<Rightarrow> nat \<Rightarrow> table_spec list \<Rightarrow> node \<Rightarrow> cfs \<Rightarrow> (write_error + unit) \<times> cfs" where
  "seed_tables ls env i [] n s = (Inr (), s)"
| "seed_tables ls env i (t # ts) n s =
     (case sync ls (env i) t n s of
        (Inl e, s1) \<Rightarrow> (Inl e, s1)
      | (Inr _, s1) \<Rightarrow> seed_tables ls env (Suc i) ts n s1)"

definition compare_missing :: "(string, string) dict \<Rightarrow> (string, string) dict \<Rightarrow> string list" where
  "compare_missing expected actual = sort (filter (\<lambda>p. p \<notin> set (keys actual)) (keys expected))"

definition compare_different :: "(string, string) dict \<Rightarrow> (string, string) dict \<Rightarrow> string list" where
  "compare_different expected actual =
     sort (filter (\<lambda>p. p \<in> set (keys actual) \<and> map_of expected p \<noteq> map_of actual p) (keys expected))"

definition EXAMPLES :: nat where "EXAMPLES = 20"

record comparison =
  c_entries :: nat
  c_missing :: nat
  c_extra :: nat
  c_different :: nat
  c_examples :: "string list \<times> string list \<times> string list"

definition compare :: "(string, string) dict \<Rightarrow> (string, string) dict \<Rightarrow> comparison" where
  "compare expected actual =
     (let missing = compare_missing expected actual; extra = compare_missing actual expected;
          different = compare_different expected actual
      in \<lparr>c_entries = length expected, c_missing = length missing, c_extra = length extra, c_different = length different,
          c_examples = (take EXAMPLES missing, take EXAMPLES extra, take EXAMPLES different)\<rparr>)"

end
