(* ===== verification/Inbound.thy ===== *)
theory Inbound
  imports Shadow
begin

text \<open>
  The tree's changes brought into a node's SQLite (\<^verbatim>\<open>app/repositories/cfs/inbound.py\<close>). \<open>inbound_apply\<close> is
  given what the daemon answered: its mode and version at the first status, the entries it listed for each
  table, and its version at the second status; \<open>refuses\<close> is SQLite's answer to a statement that breaks a
  rule of the schema (a unique name, a foreign key), which rolls everything back.

  Left out: rows still written with the names of before API v1 (\<^verbatim>\<open>schema_v1.row\<close> leaves every other row as
  it is), the loop's sleeps. The version last applied is a field of the node rather than a row of
  \<^verbatim>\<open>app_settings\<close>, which stays local. Python takes the deletions of a table in the order of a set: the
  model takes them in the order of the rows.
\<close>

section \<open>Rows written from the tree\<close>

definition fill_row :: "string \<Rightarrow> table_spec \<Rightarrow> row \<Rightarrow> row" where
  "fill_row now t r = foldl (\<lambda>r (c, v). if c \<in> set (keys r) then r
     else dict_set c (case v of Some w \<Rightarrow> w | None \<Rightarrow> Text now) r) r (t_fill t)"

definition upsert :: "table_spec \<Rightarrow> row \<Rightarrow> node \<Rightarrow> node" where
  "upsert t r n =
     (let rs = n_rows n (t_name t); key = t_key t r in
      case find (\<lambda>x. t_key t x = key) rs of
        None \<Rightarrow> record_change t r (set_rows t (rs @ [r]) n)
      | Some x \<Rightarrow>
         (let x' = assign_columns (filter (\<lambda>p. fst p \<notin> set (t_pk t)) r) x;
              n' = set_rows t (map (\<lambda>y. if t_key t y = key then x' else y) rs) n
          in if list_ex (\<lambda>p. fst p \<notin> set (t_pk t) \<and> fst p \<in> set (t_columns t)) r then record_change t x' (record_change t x n') else n'))"

definition delete_row :: "table_spec \<Rightarrow> row \<Rightarrow> node \<Rightarrow> node" where
  "delete_row t r n = run_op (Delete t (t_key t r)) n"

section \<open>Applying the tree\<close>

datatype change_kind = Remove | Alter | Add

definition kind_order :: "change_kind \<Rightarrow> nat" where
  "kind_order k = (case k of Remove \<Rightarrow> 0 | Alter \<Rightarrow> 1 | Add \<Rightarrow> 2)"

type_synonym change = "change_kind \<times> table_spec \<times> row option"

type_synonym reads = "(table_spec \<times> (string, string \<times> int) dict) list"

text \<open>The changes of one table. A text that is not a row is \<open>None\<close>: \<^verbatim>\<open>json.loads\<close> raises.\<close>

definition table_changes :: "node \<Rightarrow> table_spec \<times> (string, string \<times> int) dict \<Rightarrow> change list" where
  "table_changes n x = (case x of (t, remote) \<Rightarrow>
     let here = t_all t n in
     map (\<lambda>(p, d). (Remove, t, loads d)) (filter (\<lambda>(p, d). p \<notin> set (keys remote)) here)
     @ map (\<lambda>(p, (d, _)). (if p \<in> set (keys here) then Alter else Add, t, loads d))
         (filter (\<lambda>(p, (d, _)). map_of here p \<noteq> Some d) remote))"

definition all_changes :: "reads \<Rightarrow> node \<Rightarrow> change list" where
  "all_changes reads n = sort_key (\<lambda>(k, _). kind_order k) (concat (map (table_changes n) reads))"

datatype apply_error = Bad_row | Integrity string

definition run_change :: "(change \<Rightarrow> node \<Rightarrow> bool) \<Rightarrow> string \<Rightarrow> change \<Rightarrow> node \<Rightarrow> apply_error + node" where
  "run_change refuses now ch n = (case ch of (k, t, body) \<Rightarrow>
     (case body of
        None \<Rightarrow> Inl Bad_row
      | Some r \<Rightarrow>
         if refuses ch n then Inl (Integrity (t_name t))
         else Inr (if k = Remove then delete_row t r n else upsert t (fill_row now t r) n)))"

fun run_changes :: "(change \<Rightarrow> node \<Rightarrow> bool) \<Rightarrow> string \<Rightarrow> change list \<Rightarrow> node \<Rightarrow> apply_error + node" where
  "run_changes refuses now [] n = Inr n"
| "run_changes refuses now (ch # chs) n = rbind (run_change refuses now ch n) (run_changes refuses now chs)"

definition record_bases :: "reads \<Rightarrow> (string, int) dict" where
  "record_bases reads = concat (map (\<lambda>(t, remote). map (\<lambda>(p, (_, v)). (p, v)) remote) reads)"

datatype apply_answer = Idle | Applied nat | Raised

definition inbound_apply :: "(change \<Rightarrow> node \<Rightarrow> bool) \<Rightarrow> string \<Rightarrow> bool \<Rightarrow> int \<Rightarrow> reads \<Rightarrow> int \<Rightarrow> node \<Rightarrow> apply_answer \<times> node" where
  "inbound_apply refuses now cluster version reads version' n =
     (if \<not> n_enabled n then (Idle, n)
      else if \<not> cluster then (Idle, n\<lparr>n_problem := None\<rparr>)
      else if version = n_applied n \<and> \<not> n_again n then (Idle, n)
      else if version < n_applied n then (Idle, n\<lparr>n_problem := Some (Older version (n_applied n))\<rparr>)
      else if version' \<noteq> version then (Idle, n)
      else if list_all (\<lambda>(t, remote). remote = []) reads \<and> list_ex (\<lambda>(t, _). t_all t n \<noteq> []) reads
        then (Idle, n\<lparr>n_problem := Some Empty_tree\<rparr>)
      else if n_outbox n \<noteq> [] then (Idle, n)
      else let chs = all_changes reads n in
        case run_changes refuses now chs n of
          Inl Bad_row \<Rightarrow> (Raised, n)
        | Inl (Integrity name) \<Rightarrow> (Idle, n\<lparr>n_problem := Some (Refused name)\<rparr>)
        | Inr n1 \<Rightarrow> (Applied (length chs), n1\<lparr>n_applied := version, n_outbox := [], n_base := record_bases reads,
            n_again := False, n_problem := None\<rparr>))"

section \<open>Bases without an apply\<close>

definition refresh_bases :: "reads \<Rightarrow> node \<Rightarrow> node" where
  "refresh_bases reads n = n\<lparr>n_base := concat (map (\<lambda>(t, remote).
     let here = t_all t n in
     map (\<lambda>(p, (_, v)). (p, v)) (filter (\<lambda>(p, (d, v)). map_of here p = Some d \<or> map_of (n_base n) p = Some v) remote)) reads)\<rparr>"

text \<open>After a seed: the version recorded, the outbox of the settings emptied, the bases read again.\<close>

definition mark_applied :: "int \<Rightarrow> reads \<Rightarrow> node \<Rightarrow> node" where
  "mark_applied version reads n =
     (refresh_bases reads (n\<lparr>n_applied := version, n_outbox := filter (\<lambda>(i, tbl, k). tbl \<noteq> ''app_settings'') (n_outbox n)\<rparr>))
       \<lparr>n_problem := None\<rparr>"

text \<open>Before a request: this node's changes out, the cluster's in.\<close>

definition catch_up_here :: "table_spec list \<Rightarrow> drain_env \<Rightarrow> (cfs \<Rightarrow> node \<Rightarrow> node) \<Rightarrow> node \<Rightarrow> cfs \<Rightarrow> node \<times> cfs" where
  "catch_up_here known env app n s = (case drain known env n s of (n1, s1, acc) \<Rightarrow> (app s1 n1, s1))"

end
