(* ===== verification/Shadow_Props.thy ===== *)
theory Shadow_Props
  imports Inbound
begin

text \<open>
  The proofs about the copy of a node's changes into the tree. \<open>moves\<close> is the rely and the guarantee of a member;
  \<open>write_checked\<close> ends in one of five ways (\<open>write_checked_end\<close>), changes at most its own entry and only over the
  version it was given (\<open>write_checked_overwrites\<close>); the triggers record every change of a row (\<open>run_op_grows\<close>); and
  \<open>replica_ok\<close>, by which a row that differs from the tree at the version the node last saw waits in the outbox, holds
  after every drain (\<open>drain_keeps_replica\<close>).
\<close>

section \<open>What the other members may do to the tree\<close>

text \<open>The rely of a node: the tree's version never goes back, and an entry that changed carries a version
  that was not handed out before. Every write of a node keeps it (\<open>write_checked_moves\<close>), so it is also what
  each node guarantees to the others.\<close>

definition moves :: "cfs \<Rightarrow> cfs \<Rightarrow> bool" where
  "moves s s' \<longleftrightarrow> cfs_version s \<le> cfs_version s' \<and>
     (\<forall>p. cfs_tree s' p = cfs_tree s p \<or> (\<forall>d v. cfs_tree s' p = Some (d, v) \<longrightarrow> cfs_version s < v \<and> v \<le> cfs_version s'))"

lemma moves_refl [simp, intro]: "moves s s"
  by (simp add: moves_def)

lemma moves_trans: "moves s s1 \<Longrightarrow> moves s1 s2 \<Longrightarrow> moves s s2"
  unfolding moves_def by (smt (verit, best))

lemma moves_ok: "moves s s' \<Longrightarrow> cfs_ok s \<Longrightarrow> cfs_ok s'"
  unfolding moves_def cfs_ok_def by (metis order_trans)

lemma moves_stale:
  "moves s s' \<Longrightarrow> b \<le> cfs_version s \<Longrightarrow> map_option snd (cfs_tree s p) \<noteq> Some b \<Longrightarrow> map_option snd (cfs_tree s' p) \<noteq> Some b"
proof
  assume a: "moves s s'" "b \<le> cfs_version s" "map_option snd (cfs_tree s p) \<noteq> Some b" and "map_option snd (cfs_tree s' p) = Some b"
  then obtain d where "cfs_tree s' p = Some (d, b)" by (cases "cfs_tree s' p") auto
  then have "cfs_tree s' p = cfs_tree s p" using a(1,2) unfolding moves_def by fastforce
  then show False using a(3) \<open>cfs_tree s' p = Some (d, b)\<close> by (metis option.map(2) snd_conv)
qed

lemma cfs_delete_Inr_iff:
  "cfs_delete tr p ex s = Inr s' \<longleftrightarrow> (\<exists>d v. cfs_tree s p = Some (d, v) \<and> (ex = Any_version \<or> ex = Version v) \<and> tr = None
     \<and> s' = s\<lparr>cfs_tree := (cfs_tree s)(p := None), cfs_version := cfs_version s + 1\<rparr>)"
  by (auto simp: cfs_delete_def split: option.splits if_splits)

lemma moves_put: "cfs_put tr p d ex s = Inr (v, s') \<Longrightarrow> moves s s'"
  by (auto simp: cfs_put_Inr_iff moves_def)

lemma moves_delete: "cfs_delete tr p ex s = Inr s' \<Longrightarrow> moves s s'"
  by (auto simp: cfs_delete_Inr_iff moves_def split: if_splits)

lemma put_refused:
  "cfs_put tr p d (Version b) s = Inl e \<Longrightarrow> e = Conflict \<or> e = Not_found \<Longrightarrow> tr \<noteq> Some e \<Longrightarrow> map_option snd (cfs_tree s p) \<noteq> Some b"
  by (auto simp: cfs_put_def check_expected_def Let_def split: option.splits if_splits)

text \<open>The refusals a caller passes on are none of the two that say what the entry is.\<close>

definition env_ok :: "call_env \<Rightarrow> bool" where
  "env_ok env \<longleftrightarrow> e_put env \<noteq> Some Conflict \<and> e_put env \<noteq> Some Not_found
     \<and> (\<forall>s. moves s (e_others env s)) \<and> (\<forall>s. moves s (e_between env s))"

lemma env_okD [simp]: "env_ok env \<Longrightarrow> moves s (e_others env s)" "env_ok env \<Longrightarrow> moves s (e_between env s)"
  "env_ok env \<Longrightarrow> e_put env \<noteq> Some Not_found" "env_ok env \<Longrightarrow> e_put env \<noteq> Some Conflict"
  by (simp_all add: env_ok_def)

lemma env_ok_quiet [simp]: "env_ok quiet"
  by (simp add: env_ok_def quiet_def)

text \<open>What an entry holds, and at which version.\<close>

abbreviation data_at :: "cfs \<Rightarrow> string \<Rightarrow> string option" where
  "data_at s p \<equiv> map_option fst (cfs_tree s p)"

abbreviation version_at :: "cfs \<Rightarrow> string \<Rightarrow> int option" where
  "version_at s p \<equiv> map_option snd (cfs_tree s p)"

section \<open>Writing one entry\<close>

lemmas write_defs = write_checked_def refused_def read_again_def answered_def Let_def

lemma read_again_same [simp]: "snd (read_again env p data s) = s"
  by (simp add: read_again_def split: option.splits prod.splits)

lemma refused_moves: "env_ok env \<Longrightarrow> moves s (snd (refused env p data e s))"
  by (simp add: refused_def)

lemma write_checked_moves: "env_ok env \<Longrightarrow> moves s (snd (write_checked env p data base s))"
  unfolding write_checked_def Let_def
  by (auto split: option.splits sum.splits intro: moves_put moves_delete moves_trans [OF env_okD(2)] refused_moves
        dest: moves_put moves_delete)

text \<open>The answer of a checked write, and what it left.\<close>

lemma read_again_cases:
  assumes "read_again env p data s = (res, s')"
  shows "s' = s" "res = Inr v \<Longrightarrow> data_at s p = data \<and> version_at s p = v" "res = Inl Dropped \<Longrightarrow> data_at s p \<noteq> data"
  using assms by (auto simp: read_again_def split: option.splits if_splits)

lemma put_touches_one:
  assumes "cfs_put tr p d ex s = Inr (v, s')"
  shows "cfs_tree s' p = Some (d, v)" "q \<noteq> p \<Longrightarrow> cfs_tree s' q = cfs_tree s q"
  using assms by (auto simp: cfs_put_Inr_iff)

lemma put_over:
  "cfs_put tr p d Must_not_exist s = Inr (v, s') \<Longrightarrow> version_at s p = None"
  "cfs_put tr p d (Version b) s = Inr (v, s') \<Longrightarrow> version_at s p = Some b"
  by (auto simp: cfs_put_Inr_iff check_expected_def split: option.splits if_splits)

lemma delete_touches_one:
  assumes "cfs_delete tr p (Version b) s = Inr s'"
  shows "cfs_tree s' p = None" "q \<noteq> p \<Longrightarrow> cfs_tree s' q = cfs_tree s q" "version_at s p = Some b"
  using assms by (auto simp: cfs_delete_Inr_iff)

text \<open>\<open>overwrites\<close>: from \<open>s\<close> to \<open>s'\<close> only the entry at \<open>p\<close> may change, only to \<open>data\<close>, and only over the version
  \<open>base\<close>.\<close>

definition overwrites :: "string \<Rightarrow> string option \<Rightarrow> int option \<Rightarrow> cfs \<Rightarrow> cfs \<Rightarrow> bool" where
  "overwrites p data base s s' \<longleftrightarrow> (\<forall>q. q \<noteq> p \<longrightarrow> cfs_tree s' q = cfs_tree s q) \<and>
     (cfs_tree s' p = cfs_tree s p \<or> (version_at s p = base \<and> data_at s' p = data))"

lemma overwrites_refl [simp, intro]: "overwrites p data base s s"
  by (simp add: overwrites_def)

lemma refused_overwrites: "\<exists>s1 \<in> {s, e_between env s}. overwrites p data base s1 (snd (refused env p data e s))"
  by (auto simp: refused_def)

lemma put_overwrites:
  "cfs_put tr p d Must_not_exist s = Inr (v, s') \<Longrightarrow> overwrites p (Some d) None s s'"
  "cfs_put tr p d (Version b) s = Inr (v, s') \<Longrightarrow> overwrites p (Some d) (Some b) s s'"
  using put_over [of tr p d] put_touches_one [of tr p d] by (force simp: overwrites_def)+

lemma delete_overwrites: "cfs_delete tr p (Version b) s = Inr s' \<Longrightarrow> overwrites p None (Some b) s s'"
  using delete_touches_one [of tr p b s s'] by (auto simp: overwrites_def)

lemma write_checked_overwrites:
  "\<exists>s1 \<in> {s, e_between env s, e_between env (e_between env s)}. overwrites p data base s1 (snd (write_checked env p data base s))"
proof (cases base)
  case None
  show ?thesis
    using refused_overwrites [of "e_between env s" env p data base]
    by (auto simp: None write_checked_def Let_def dest: put_overwrites(1) split: option.splits sum.splits) 
next
  case (Some b)
  show ?thesis
    using refused_overwrites [of s env p data base]
    by (auto simp: Some write_checked_def dest: put_overwrites(2) delete_overwrites split: option.splits sum.splits) 
qed

lemma refused_cases:
  assumes "refused env p data e s = (res, s')"
  shows "res = Inr v \<Longrightarrow> data_at s' p = data \<and> version_at s' p = v"
    and "res = Inl Dropped \<Longrightarrow> (e = Conflict \<or> e = Not_found) \<and> s' = e_between env s \<and> data_at s' p \<noteq> data"
  using assms read_again_cases [of env p data "e_between env s"] by (auto simp: refused_def split: if_splits)

text \<open>The ways a checked write ends: it read the entry and stopped there, it changed it, or it was refused.\<close>

lemma write_checked_end:
  assumes ok: "e_put env \<noteq> Some Not_found"
  obtains (read) "base = None" "snd (write_checked env p data base s) = s"
      "fst (write_checked env p data base s) = Inr v \<Longrightarrow> data_at s p = data \<and> version_at s p = v"
      "fst (write_checked env p data base s) = Inl Dropped \<Longrightarrow> data_at s p \<noteq> data"
    | (gone) "data = None" "cfs_tree s p = None" "write_checked env p data base s = (Inr None, s)"
    | (put) d ex s1 w s2 where "data = Some d" "cfs_put (e_put env) p d ex s1 = Inr (w, s2)"
        "write_checked env p data base s = (answered env (Some w), s2)"
    | (delete) b s2 where "data = None" "cfs_delete (e_put env) p (Version b) s = Inr s2"
        "write_checked env p data base s = (answered env None, s2)"
    | (refuse) e s1 where "s1 \<in> {s, e_between env s}" "write_checked env p data base s = refused env p data e s1"
        "base \<noteq> None \<Longrightarrow> s1 = s \<and> (data = None \<longrightarrow> e \<noteq> Not_found \<and> cfs_delete (e_put env) p (Version (the base)) s = Inl e)
           \<and> (\<forall>d. data = Some d \<longrightarrow> cfs_put (e_put env) p d (Version (the base)) s = Inl e)"
proof (cases base)
  case None
  note base = None
  show thesis
  proof (cases "e_get env = None \<and> cfs_tree s p = None \<and> data \<noteq> None")
    case True
    then obtain d where d: "data = Some d" by auto
    show thesis
    proof (cases "cfs_put (e_put env) p d Must_not_exist (e_between env s)")
      case (Inl e)
      then show thesis using refuse [of "e_between env s" e] True d base by (simp add: write_checked_def Let_def)
    next
      case (Inr x)
      then show thesis using put [of d Must_not_exist "e_between env s" "fst x" "snd x"] True d base
        by (cases x) (simp add: write_checked_def Let_def)
    qed
  next
    case False
    then show thesis
      by (intro read) (auto simp: base write_checked_def split: if_splits option.splits)
  qed
next
  case (Some b)
  show thesis
  proof (cases data)
    case None
    show thesis
    proof (cases "cfs_delete (e_put env) p (Version b) s")
      case (Inl e)
      show thesis
      proof (cases "e = Not_found")
        case True
        then have "cfs_tree s p = None" using Inl ok by (auto simp: cfs_delete_def split: option.splits if_splits)
        then show thesis using gone None Some Inl True by (simp add: write_checked_def)
      next
        case False
        then show thesis using refuse [of s e] None Some Inl by (simp add: write_checked_def)
      qed
    next
      case (Inr s2)
      then show thesis using delete [of b s2] None Some by (simp add: write_checked_def)
    qed
  next
    case d: (Some d)
    show thesis
    proof (cases "cfs_put (e_put env) p d (Version b) s")
      case (Inl e)
      then show thesis using refuse [of s e] Some d by (simp add: write_checked_def)
    next
      case (Inr x)
      then show thesis using put [of d "Version b" s "fst x" "snd x"] Some d by (cases x) (simp add: write_checked_def)
    qed
  qed
qed

lemma write_checked_taken:
  assumes ok: "env_ok env" and "write_checked env p data base s = (Inr v, s')"
  shows "data_at s' p = data \<and> version_at s' p = v"
using env_okD(3) [OF ok]
  proof (cases rule: write_checked_end [where env = env and p = p and data = data and base = base and s = s])
  case (put d ex s1 w s2)
  then show ?thesis using put_touches_one(1) [OF put(2)] assms by (auto simp: answered_def split: if_splits)
next
  case (delete b s2)
  then show ?thesis using delete_touches_one(1) [OF delete(2)] assms by (auto simp: answered_def split: if_splits)
next
  case (refuse e s1)
  then show ?thesis using refused_cases(1) assms by metis
qed (use assms in auto)

lemma write_checked_dropped:
  assumes ok: "env_ok env" and drop: "write_checked env p data base s = (Inl Dropped, s')"
  shows "data_at s' p \<noteq> data" "base = Some b \<Longrightarrow> b \<le> cfs_version s \<Longrightarrow> version_at s' p \<noteq> Some b"
proof -
  show "data_at s' p \<noteq> data"
  using env_okD(3) [OF ok]
  proof (cases rule: write_checked_end [where env = env and p = p and data = data and base = base and s = s])
    case (refuse e s1)
    then show ?thesis using refused_cases(2) assms by metis
  qed (use assms in \<open>auto simp: answered_def split: if_splits\<close>)
  assume b: "base = Some b" "b \<le> cfs_version s"
  have "version_at s p \<noteq> Some b \<and> s' = e_between env s"
  proof (cases data)
    case (Some d)
    then obtain e where e: "cfs_put (e_put env) p d (Version b) s = Inl e" "refused env p data e s = (Inl Dropped, s')"
      using assms by (auto simp: b write_checked_def answered_def split: sum.splits if_splits)
    have "e = Conflict \<or> e = Not_found" "s' = e_between env s" using refused_cases(2) [OF e(2) refl] by blast+
    moreover from this ok have "e_put env \<noteq> Some e" unfolding env_ok_def by metis
    ultimately show ?thesis using put_refused [OF e(1)] by blast
  next
    case None
    then obtain e where e: "cfs_delete (e_put env) p (Version b) s = Inl e" "e \<noteq> Not_found" "refused env p data e s = (Inl Dropped, s')"
      using assms by (auto simp: b write_checked_def answered_def split: sum.splits if_splits)
    then have "e = Conflict" "s' = e_between env s" using refused_cases(2) [OF e(3) refl] e(2) by blast+
    moreover have "version_at s p \<noteq> Some b"
      using e(1) \<open>e = Conflict\<close> env_okD(4) [OF ok] by (cases "cfs_tree s p"; cases "e_put env") (auto simp: cfs_delete_def split: if_splits)
    ultimately show ?thesis by blast
  qed
  then show "version_at s' p \<noteq> Some b" using moves_stale [OF _ b(2)] ok by auto
qed

section \<open>The rows of a node\<close>

text \<open>A key column has one declared type, so two keys written alike are the same key.\<close>

definition key_typed :: "table_spec \<Rightarrow> cell list \<Rightarrow> bool" where
  "key_typed t k \<longleftrightarrow> list_all2 (\<lambda>is_int c. case c of Num _ \<Rightarrow> is_int | Text _ \<Rightarrow> \<not> is_int | _ \<Rightarrow> False) (t_pk_int t) k"

definition spec_ok :: "table_spec \<Rightarrow> bool" where
  "spec_ok t \<longleftrightarrow> t_name t \<noteq> [] \<and> CHR ''/'' \<notin> set (t_name t) \<and> t_pk t \<noteq> []
     \<and> length (t_pk_int t) = length (t_pk t) \<and> set (t_pk t) \<subseteq> set (t_columns t)
     \<and> distinct (t_columns t) \<and> fst ` set (t_local_rows t) \<subseteq> set (t_pk t) \<and> fst ` set (t_fill t) \<inter> set (t_columns t) = {}"

definition specs_ok :: "table_spec list \<Rightarrow> bool" where
  "specs_ok known \<longleftrightarrow> list_all spec_ok known \<and> distinct (map t_name known)"

definition rows_ok :: "table_spec \<Rightarrow> node \<Rightarrow> bool" where
  "rows_ok t n \<longleftrightarrow> list_all (\<lambda>r. key_typed t (t_key t r)) (n_rows n (t_name t)) \<and> distinct (map (t_key t) (n_rows n (t_name t)))"

lemma str_of_int_inject: "str_of_int i = str_of_int j \<Longrightarrow> i = j"
  using loads_dumps_int [of "[]" i] loads_dumps_int [of "[]" j] by simp

lemma key_typed_inject:
  assumes "key_typed t k" "key_typed t j" "map str_cell k = map str_cell j"
  shows "k = j"
proof (rule nth_equalityI)
  show len: "length k = length j" using assms(3) by (metis length_map)
  fix i assume i: "i < length k"
  then have "str_cell (k ! i) = str_cell (j ! i)" using assms(3) len by (metis nth_map)
  moreover have "(case k ! i of Num _ \<Rightarrow> t_pk_int t ! i | Text _ \<Rightarrow> \<not> t_pk_int t ! i | _ \<Rightarrow> False)"
      "(case j ! i of Num _ \<Rightarrow> t_pk_int t ! i | Text _ \<Rightarrow> \<not> t_pk_int t ! i | _ \<Rightarrow> False)"
    using assms(1,2) i len unfolding key_typed_def list_all2_conv_all_nth by auto
  ultimately show "k ! i = j ! i" using str_of_int_inject by (auto simp: str_cell_def split: cell.splits)
qed

lemma t_path_inject: "key_typed t k \<Longrightarrow> key_typed t j \<Longrightarrow> t_path t k = t_path t j \<longleftrightarrow> k = j"
  using key_typed_inject by (auto simp: t_path_def path_inject)

text \<open>\<open>here n t p\<close>: what the node's table holds for the path \<open>p\<close>.\<close>

definition here :: "node \<Rightarrow> table_spec \<Rightarrow> string \<Rightarrow> string option" where
  "here n t p = map_of (t_all t n) p"

lemma map_of_dict_of_distinct: "distinct (map fst ps) \<Longrightarrow> map_of (dict_of ps) = map_of ps"
  by (simp add: dict_of_id)

lemma here_eq:
  assumes "rows_ok t n"
  shows "here n t p = Some d \<longleftrightarrow> (\<exists>r \<in> set (n_rows n (t_name t)). \<not> t_local t r \<and> t_path t (t_key t r) = p \<and> t_data t r = d)"
proof -
  let ?rs = "filter (\<lambda>r. \<not> t_local t r) (n_rows n (t_name t))"
  let ?ps = "map (\<lambda>r. (t_path t (t_key t r), t_data t r)) ?rs"
  have "inj_on (t_path t) (set (map (t_key t) ?rs))"
    using assms t_path_inject by (auto simp: inj_on_def rows_ok_def list_all_iff)
  moreover have "distinct (map (t_key t) ?rs)" using assms by (simp add: rows_ok_def distinct_map_filter)
  ultimately have "distinct (map (t_path t) (map (t_key t) ?rs))" by (simp only: distinct_map)
  then have dist: "distinct (map fst ?ps)" by (simp add: o_def)
  then have "here n t p = Some d \<longleftrightarrow> (p, d) \<in> set ?ps"
    by (simp add: here_def t_all_def map_of_dict_of_distinct)
  then show ?thesis by auto
qed

lemma t_entry_here:
  assumes "rows_ok t n" "key_typed t key"
  shows "t_entry t key n = (t_path t key, here n t (t_path t key))"
proof -
  let ?find = "find (\<lambda>r. t_key t r = key) (n_rows n (t_name t))"
  have only: "r \<in> set (n_rows n (t_name t)) \<Longrightarrow> t_path t (t_key t r) = t_path t key \<longleftrightarrow> t_key t r = key" for r
    using assms t_path_inject by (auto simp: rows_ok_def list_all_iff)
  show ?thesis
  proof (cases ?find)
    case None
    then have "here n t (t_path t key) = None"
      using only here_eq [OF assms(1), of "t_path t key"] by (auto simp: find_None_iff)
    then show ?thesis by (simp add: t_entry_def None)
  next
    case (Some r)
    then have r: "r \<in> set (n_rows n (t_name t))" "t_key t r = key" by (auto simp: find_Some_iff)
    have same: "x \<in> set (n_rows n (t_name t)) \<Longrightarrow> t_key t x = key \<Longrightarrow> x = r" for x
      using assms(1) r unfolding rows_ok_def distinct_map inj_on_def by metis
    show ?thesis
    proof (cases "t_local t r")
      case True
      then have "here n t (t_path t key) = None"
        using only same here_eq [OF assms(1), of "t_path t key"] by (metis not_None_eq)
      then show ?thesis by (simp add: t_entry_def Some True)
    next
      case False
      then have "here n t (t_path t key) = Some (t_data t r)" using r here_eq [OF assms(1)] by blast
      then show ?thesis by (simp add: t_entry_def Some False)
    qed
  qed
qed

section \<open>The triggers record every change\<close>

fun op_ok :: "table_spec list \<Rightarrow> sql_op \<Rightarrow> bool" where
  "op_ok known (Insert t r) \<longleftrightarrow> t \<in> set known \<and> key_typed t (t_key t r)"
| "op_ok known (Update t key sets) \<longleftrightarrow> t \<in> set known
     \<and> (\<forall>r. key_typed t (t_key t r) \<longrightarrow> key_typed t (t_key t (assign_columns sets r)))"
| "op_ok known (Delete t key) \<longleftrightarrow> t \<in> set known"

definition outbox_ok :: "table_spec list \<Rightarrow> node \<Rightarrow> bool" where
  "outbox_ok known n \<longleftrightarrow> distinct (map fst (n_outbox n)) \<and> list_all (\<lambda>x. fst x \<le> n_seq n) (n_outbox n)
     \<and> list_all (\<lambda>(i, tbl, k). \<forall>t \<in> set known. t_name t = tbl \<longrightarrow> key_typed t k) (n_outbox n)"

definition node_ok :: "table_spec list \<Rightarrow> node \<Rightarrow> bool" where
  "node_ok known n \<longleftrightarrow> list_all (\<lambda>t. rows_ok t n) known \<and> outbox_ok known n"

lemma node_ok_rows: "node_ok known n \<Longrightarrow> t \<in> set known \<Longrightarrow> rows_ok t n"
  by (simp add: node_ok_def list_all_iff)

lemma specs_same: "specs_ok known \<Longrightarrow> t \<in> set known \<Longrightarrow> u \<in> set known \<Longrightarrow> t_name t = t_name u \<Longrightarrow> t = u"
  unfolding specs_ok_def distinct_map inj_on_def by blast

text \<open>\<open>waits n mark t p\<close>: a change of the row at \<open>p\<close> recorded after \<open>mark\<close> is in the outbox.\<close>

definition waits :: "node \<Rightarrow> nat \<Rightarrow> table_spec \<Rightarrow> string \<Rightarrow> bool" where
  "waits n mark t p \<longleftrightarrow> (\<exists>i k. (i, t_name t, k) \<in> set (n_outbox n) \<and> t_path t k = p \<and> mark < i)"

lemma record_change_fields [simp]:
  "n_rows (record_change t r n) = n_rows n" "n_base (record_change t r n) = n_base n"
  "n_enabled (record_change t r n) = n_enabled n" "n_awaited (record_change t r n) = n_awaited n"
  "n_outcomes (record_change t r n) = n_outcomes n" "n_applied (record_change t r n) = n_applied n"
  "n_again (record_change t r n) = n_again n"
  by (simp_all add: record_change_def)

lemma set_rows_fields [simp]:
  "n_rows (set_rows t rs n) = (n_rows n)(t_name t := rs)" "n_base (set_rows t rs n) = n_base n"
  "n_enabled (set_rows t rs n) = n_enabled n" "n_awaited (set_rows t rs n) = n_awaited n"
  "n_outcomes (set_rows t rs n) = n_outcomes n" "n_outbox (set_rows t rs n) = n_outbox n" "n_seq (set_rows t rs n) = n_seq n"
  "n_applied (set_rows t rs n) = n_applied n" "n_again (set_rows t rs n) = n_again n"
  by (simp_all add: set_rows_def)

lemma here_cong: "n_rows n (t_name t) = n_rows n' (t_name t) \<Longrightarrow> here n t p = here n' t p"
  by (simp add: here_def t_all_def)

lemma rows_ok_cong: "n_rows n (t_name t) = n_rows n' (t_name t) \<Longrightarrow> rows_ok t n = rows_ok t n'"
  by (simp add: rows_ok_def)

lemma here_changed:
  assumes "rows_ok t n" "rows_ok t n'" "here n' t p \<noteq> here n t p"
  obtains r where "\<not> t_local t r" "t_path t (t_key t r) = p"
    "r \<in> set (n_rows n (t_name t)) - set (n_rows n' (t_name t)) \<or> r \<in> set (n_rows n' (t_name t)) - set (n_rows n (t_name t))"
proof (cases "here n t p")
  case None
  then obtain d where "here n' t p = Some d" "here n t p \<noteq> Some d" using assms(3) by auto
  then show thesis using that here_eq [OF assms(1), of p d] here_eq [OF assms(2), of p d] by blast
next
  case (Some d)
  then have "here n' t p \<noteq> Some d" using assms(3) by auto
  then show thesis using that Some here_eq [OF assms(1), of p d] here_eq [OF assms(2), of p d] by blast
qed

text \<open>A step of the node's own code: it grows the outbox at its end, and a table's content at a path changes only
  together with an outbox row for it.\<close>

definition grows :: "table_spec list \<Rightarrow> node \<Rightarrow> node \<Rightarrow> bool" where
  "grows known n n' \<longleftrightarrow> (\<exists>new. n_outbox n' = n_outbox n @ new \<and> list_all (\<lambda>x. n_seq n < fst x) new) \<and> n_seq n \<le> n_seq n'
     \<and> n_base n' = n_base n \<and> n_enabled n' = n_enabled n
     \<and> (\<forall>t \<in> set known. \<forall>p. here n' t p = here n t p \<or> waits n' (n_seq n) t p)"

lemma outbox_grows_refl [simp]: "grows known n n"
  by (simp add: grows_def)

lemma waits_mono: "waits n mark t p \<Longrightarrow> set (n_outbox n) \<subseteq> set (n_outbox n') \<Longrightarrow> mark' \<le> mark \<Longrightarrow> waits n' mark' t p"
  unfolding waits_def by (metis le_less_trans subsetD)

lemma outbox_grows_trans:
  assumes "grows known n n1" "grows known n1 n2"
  shows "grows known n n2"
proof -
  obtain a b where o: "n_outbox n1 = n_outbox n @ a" "n_outbox n2 = n_outbox n1 @ b"
      "list_all (\<lambda>x. n_seq n < fst x) a" "list_all (\<lambda>x. n_seq n1 < fst x) b" "n_seq n \<le> n_seq n1" "n_seq n1 \<le> n_seq n2"
    using assms unfolding grows_def by blast
  have "here n2 t p = here n t p \<or> waits n2 (n_seq n) t p" if "t \<in> set known" for t p
  proof -
    have "here n1 t p = here n t p \<or> waits n1 (n_seq n) t p" "here n2 t p = here n1 t p \<or> waits n2 (n_seq n1) t p"
      using assms that unfolding grows_def by auto
    then consider "here n1 t p = here n t p" "here n2 t p = here n1 t p" | "waits n1 (n_seq n) t p" | "waits n2 (n_seq n1) t p"
      by blast
    then show ?thesis
    proof cases
      case 2
      then show ?thesis using waits_mono [of n1 "n_seq n" t p n2 "n_seq n"] o(2) by simp
    next
      case 3
      then show ?thesis using waits_mono [of n2 "n_seq n1" t p n2 "n_seq n"] o(5) by simp
    qed simp
  qed
  moreover have "n_outbox n2 = n_outbox n @ (a @ b)" "list_all (\<lambda>x. n_seq n < fst x) (a @ b)"
    using o by (auto simp: list_all_iff intro: le_less_trans)
  moreover have "n_base n2 = n_base n" "n_enabled n2 = n_enabled n" using assms unfolding grows_def by simp_all
  moreover have "n_seq n \<le> n_seq n2" using o(5,6) by simp
  ultimately show ?thesis unfolding grows_def by metis
qed

lemma record_change_grows:
  assumes "n_rows n' = n_rows n" and "n_outbox n' = n_outbox n" "n_seq n' = n_seq n" "n_base n' = n_base n" "n_enabled n' = n_enabled n"
  shows "grows known n (record_change t r n')"
  using assms here_cong [of n] by (auto simp: grows_def record_change_def here_def t_all_def)

lemma waits_record: "\<not> t_local t r \<Longrightarrow> t_path t (t_key t r) = p \<Longrightarrow> mark \<le> n_seq n \<Longrightarrow> waits (record_change t r n) mark t p"
  unfolding waits_def record_change_def by (intro exI [of _ "Suc (n_seq n)"] exI [of _ "t_key t r"]) simp

lemma waits_record_more: "waits n mark t p \<Longrightarrow> waits (record_change u r n) mark t p"
  by (rule waits_mono) (auto simp: record_change_def)

lemma record_change_outbox_ok:
  assumes "specs_ok known" "t \<in> set known" "outbox_ok known n" "key_typed t (t_key t r)"
  shows "outbox_ok known (record_change t r n)"
proof (cases "t_local t r")
  case False
  have "\<forall>u \<in> set known. t_name u = t_name t \<longrightarrow> key_typed u (t_key t r)" using assms specs_same by metis
  then show ?thesis using assms(3) False by (force simp: outbox_ok_def record_change_def list_all_iff)
qed (use assms in \<open>simp add: record_change_def\<close>)

lemma outbox_ok_cong: "n_outbox n' = n_outbox n \<Longrightarrow> n_seq n' = n_seq n \<Longrightarrow> outbox_ok known n' = outbox_ok known n"
  by (simp add: outbox_ok_def)

lemma find_key: "find (\<lambda>r. t_key t r = key) rs = Some r \<Longrightarrow> r \<in> set rs \<and> t_key t r = key"
  by (auto simp: find_Some_iff)

text \<open>What an update does to the rows.\<close>

lemma replaced_rows:
  assumes "distinct (map (t_key t) rs)" "r \<in> set rs" "t_key t r = key" "t_key t r' = key \<or> t_key t r' \<notin> t_key t ` set rs"
  shows "set (map (\<lambda>x. if t_key t x = key then r' else x) rs) = insert r' (set rs - {r})"
    and "distinct (map (t_key t) (map (\<lambda>x. if t_key t x = key then r' else x) rs))"
proof -
  have same: "x \<in> set rs \<Longrightarrow> t_key t x = key \<Longrightarrow> x = r" for x using assms(1-3) unfolding distinct_map inj_on_def by metis
  show "set (map (\<lambda>x. if t_key t x = key then r' else x) rs) = insert r' (set rs - {r})" 
  proof -
    have "insert r' (set rs - {r}) \<subseteq> (\<lambda>x. if t_key t x = key then r' else x) ` set rs"
    proof
      fix x assume "x \<in> insert r' (set rs - {r})"
      then consider "x = r'" | "x \<in> set rs" "t_key t x \<noteq> key" using same by blast
      then show "x \<in> (\<lambda>x. if t_key t x = key then r' else x) ` set rs"
        by cases (use assms(2,3) in \<open>force intro: rev_image_eqI\<close>)+
    qed
    moreover have "(\<lambda>x. if t_key t x = key then r' else x) ` set rs \<subseteq> insert r' (set rs - {r})" using assms(3) by auto
    ultimately show ?thesis by (simp only: set_map)
  qed
  have "map (t_key t) (map (\<lambda>x. if t_key t x = key then r' else x) rs) = map (\<lambda>k. if k = key then t_key t r' else k) (map (t_key t) rs)"
    by simp
  moreover have "inj_on (\<lambda>k. if k = key then t_key t r' else k) (set (map (t_key t) rs))"
    using assms(4) unfolding inj_on_def set_map by metis
  ultimately show "distinct (map (t_key t) (map (\<lambda>x. if t_key t x = key then r' else x) rs))"
    using assms(1) by (simp only: distinct_map)
qed

lemma set_rows_ok:
  assumes "specs_ok known" "node_ok known n" "t \<in> set known"
    and "list_all (\<lambda>r. key_typed t (t_key t r)) rs" "distinct (map (t_key t) rs)"
  shows "node_ok known (set_rows t rs n)"
proof -
  have "rows_ok u (set_rows t rs n)" if "u \<in> set known" for u
    using assms specs_same [OF assms(1,3) that] that by (cases "t_name u = t_name t") (auto simp: rows_ok_def node_ok_def list_all_iff)
  then show ?thesis using assms(2) by (simp add: node_ok_def list_all_iff outbox_ok_def)
qed

lemma record_change_node_ok:
  "specs_ok known \<Longrightarrow> node_ok known n \<Longrightarrow> t \<in> set known \<Longrightarrow> key_typed t (t_key t r) \<Longrightarrow> node_ok known (record_change t r n)"
  using record_change_outbox_ok by (auto simp: node_ok_def list_all_iff rows_ok_def)

lemma assign_columns_untouched: "list_all (\<lambda>p. fst p \<noteq> c) sets \<Longrightarrow> col (assign_columns sets r) c = col r c"
  by (induction sets arbitrary: r) (auto simp: assign_columns_def col_def)

lemma same_columns:
  assumes "spec_ok t" "\<And>c. c \<in> set (t_columns t) \<Longrightarrow> col r' c = col r c"
  shows "t_key t r' = t_key t r" "t_data t r' = t_data t r" "t_local t r' = t_local t r"
proof -
  show "t_key t r' = t_key t r" using assms by (auto simp: t_key_def spec_ok_def)
  have "map (\<lambda>c. (c, col r' c)) (t_columns t) = map (\<lambda>c. (c, col r c)) (t_columns t)" using assms(2) by simp
  then show "t_data t r' = t_data t r" unfolding t_data_def by (rule arg_cong)
  have "(\<lambda>(c, vs). case col r' c of Text s \<Rightarrow> s \<in> set vs | _ \<Rightarrow> False) x = (\<lambda>(c, vs). case col r c of Text s \<Rightarrow> s \<in> set vs | _ \<Rightarrow> False) x"
    if "x \<in> set (t_local_rows t)" for x
  proof -
    have "fst x \<in> set (t_columns t)" using that assms(1) unfolding spec_ok_def by blast
    then show ?thesis using assms(2) by (cases x) simp
  qed
  then show "t_local t r' = t_local t r" unfolding t_local_def list_ex_iff by blast
qed

lemma same_rows_here:
  assumes "spec_ok t" "rows_ok t n" "rows_ok t n'" and "r \<in> set (n_rows n (t_name t))"
    and "set (n_rows n' (t_name t)) = insert r' (set (n_rows n (t_name t)) - {r})"
    and "\<And>c. c \<in> set (t_columns t) \<Longrightarrow> col r' c = col r c"
  shows "here n' t p = here n t p"
proof -
  note same = same_columns [OF assms(1,6)]
  have "here n' t p = Some d \<longleftrightarrow> here n t p = Some d" for d
  proof -
    let ?P = "\<lambda>x. \<not> t_local t x \<and> t_path t (t_key t x) = p \<and> t_data t x = d"
    have P: "?P r' = ?P r" using same by simp
    have split: "set (n_rows n (t_name t)) = insert r (set (n_rows n (t_name t)) - {r})" using assms(4) by blast
    have "(\<exists>x \<in> insert r' (set (n_rows n (t_name t)) - {r}). ?P x) = (\<exists>x \<in> insert r (set (n_rows n (t_name t)) - {r}). ?P x)"
      using P by (simp only: bex_simps)
    then show ?thesis unfolding here_eq [OF assms(2)] here_eq [OF assms(3)] assms(5) by (simp only: split [symmetric])
  qed
  then show ?thesis by (metis not_None_eq)
qed

lemma grows_set_rows:
  assumes "specs_ok known" "t \<in> set known" "node_ok known n" "node_ok known n'"
    and "\<And>u :: table_spec. t_name u \<noteq> t_name t \<Longrightarrow> n_rows n' (t_name u) = n_rows n (t_name u)"
    and "n_outbox n' = n_outbox n @ new" "list_all (\<lambda>x. n_seq n < fst x) new" "n_seq n \<le> n_seq n'"
    and "n_base n' = n_base n" "n_enabled n' = n_enabled n"
    and "\<And>p. here n' t p = here n t p \<or> waits n' (n_seq n) t p"
  shows "grows known n n'"
proof -
  have "here n' u p = here n u p \<or> waits n' (n_seq n) u p" if "u \<in> set known" for u p
  proof (cases "t_name u = t_name t")
    case True
    then show ?thesis using assms(11) specs_same [OF assms(1) that assms(2)] by blast
  next
    case False
    then have "n_rows n' (t_name u) = n_rows n (t_name u)" by (rule assms(5))
    then show ?thesis using here_cong [of n' u n p] by simp
  qed
  moreover have "\<exists>new. n_outbox n' = n_outbox n @ new \<and> list_all (\<lambda>x. n_seq n < fst x) new" using assms(6,7) by blast
  ultimately show ?thesis using assms(8-10) unfolding grows_def by simp
qed

lemma record_change_outbox:
  "\<exists>new. n_outbox (record_change t r n) = n_outbox n @ new \<and> list_all (\<lambda>x. n_seq n < fst x) new"
  "n_seq n \<le> n_seq (record_change t r n)"
  by (auto simp: record_change_def)

lemma recorded_grows:
  assumes "specs_ok known" "t \<in> set known" "node_ok known n" "node_ok known (set_rows t rs n)"
    and "n' \<in> {record_change t r' (record_change t r (set_rows t rs n)), record_change t r (set_rows t rs n)}"
    and "\<And>x. x \<in> set (n_rows n (t_name t)) - set rs \<or> x \<in> set rs - set (n_rows n (t_name t)) \<Longrightarrow>
           x = r \<or> x = r' \<and> n' = record_change t r' (record_change t r (set_rows t rs n))"
    and "key_typed t (t_key t r)" "key_typed t (t_key t r')"
  shows "node_ok known n' \<and> grows known n n'"
proof
  show ok: "node_ok known n'" using assms record_change_node_ok by blast
  have rows: "n_rows n' = (n_rows n)(t_name t := rs)" using assms(5) by auto
  let ?n1 = "record_change t r (set_rows t rs n)"
  obtain a b where "n_outbox ?n1 = n_outbox n @ a" "list_all (\<lambda>x. n_seq n < fst x) a" "n_seq n \<le> n_seq ?n1"
      "n_outbox (record_change t r' ?n1) = n_outbox ?n1 @ b" "list_all (\<lambda>x. n_seq ?n1 < fst x) b" "n_seq ?n1 \<le> n_seq (record_change t r' ?n1)"
    using record_change_outbox [where t = t and r = r and n = "set_rows t rs n"] record_change_outbox [where t = t and r = r' and n = ?n1] by auto
  then obtain new where new: "n_outbox n' = n_outbox n @ new" "list_all (\<lambda>x. n_seq n < fst x) new" "n_seq n \<le> n_seq n'"
    using assms(5) that [of a] that [of "a @ b"] by (force simp: list_all_iff)
  have "here n' t p = here n t p \<or> waits n' (n_seq n) t p" for p
  proof (cases "here n' t p = here n t p")
    case False
    then obtain x where x: "\<not> t_local t x" "t_path t (t_key t x) = p"
        "x \<in> set (n_rows n (t_name t)) - set rs \<or> x \<in> set rs - set (n_rows n (t_name t))"
      using here_changed [OF node_ok_rows [OF assms(3,2)] node_ok_rows [OF ok assms(2)]] rows by (metis fun_upd_same)
    then consider "x = r" | "x = r'" "n' = record_change t r' (record_change t r (set_rows t rs n))" using assms(6) by blast
    then show ?thesis
    proof cases
      case 1
      then show ?thesis using x assms(5) waits_record [of t r p "n_seq n" "set_rows t rs n"] waits_record_more by auto
    next
      case 2
      then show ?thesis using x waits_record [of t r' p "n_seq n" "record_change t r (set_rows t rs n)"] by (simp add: record_change_def)
    qed
  qed simp
  then show "grows known n n'"
    using new rows assms(5) by (intro grows_set_rows [OF assms(1,2,3) ok]) auto
qed

lemma run_op_grows:
  assumes "specs_ok known" "node_ok known n" "op_ok known op"
  shows "node_ok known (run_op op n) \<and> grows known n (run_op op n)"
proof (cases op)
  case (Insert t r)
  then have t: "t \<in> set known" "key_typed t (t_key t r)" using assms(3) by auto
  note rows = node_ok_rows [OF assms(2) t(1)]
  show ?thesis
  proof (cases "t_key t r \<in> t_key t ` set (n_rows n (t_name t))")
    case False
    then have "node_ok known (set_rows t (n_rows n (t_name t) @ [r]) n)"
      using rows t by (intro set_rows_ok [OF assms(1,2)]) (auto simp: rows_ok_def)
    from recorded_grows [OF assms(1) t(1) assms(2) this, of "record_change t r (set_rows t (n_rows n (t_name t) @ [r]) n)" r r]
    show ?thesis using False t Insert by auto
  qed (simp add: Insert assms(2))
next
  case (Delete t key)
  then have t: "t \<in> set known" using assms(3) by simp
  note rows = node_ok_rows [OF assms(2) t]
  show ?thesis
  proof (cases "find (\<lambda>r. t_key t r = key) (n_rows n (t_name t))")
    case (Some r)
    note r = find_key [OF Some]
    let ?rs = "filter (\<lambda>x. t_key t x \<noteq> key) (n_rows n (t_name t))"
    have "node_ok known (set_rows t ?rs n)"
      using rows by (intro set_rows_ok [OF assms(1,2) t]) (auto simp: rows_ok_def list_all_iff distinct_map_filter)
    moreover have "x = r" if "x \<in> set (n_rows n (t_name t))" "t_key t x = key" for x
      using that r rows unfolding rows_ok_def distinct_map inj_on_def by metis
    moreover have "key_typed t (t_key t r)" using r rows by (auto simp: rows_ok_def list_all_iff)
    ultimately show ?thesis
      using recorded_grows [OF assms(1) t assms(2), of ?rs "record_change t r (set_rows t ?rs n)" r r] Some Delete by auto
  qed (simp add: Delete assms(2))
next
  case (Update t key sets)
  then have t: "t \<in> set known" and typed: "\<And>r. key_typed t (t_key t r) \<Longrightarrow> key_typed t (t_key t (assign_columns sets r))"
    using assms(3) by auto
  note rows = node_ok_rows [OF assms(2) t]
  show ?thesis
  proof (cases "find (\<lambda>r. t_key t r = key) (n_rows n (t_name t))")
    case (Some r)
    note r = find_key [OF Some]
    let ?r = "assign_columns sets r" and ?rs = "n_rows n (t_name t)"
    let ?new = "map (\<lambda>x. if t_key t x = key then ?r else x) ?rs"
    have key: "key_typed t (t_key t r)" "key_typed t (t_key t ?r)" using r rows typed by (auto simp: rows_ok_def list_all_iff)
    show ?thesis
    proof (cases "t_key t ?r \<noteq> key \<and> t_key t ?r \<in> t_key t ` set ?rs")
      case False
      have dist: "distinct (map (t_key t) ?rs)" using rows by (simp add: rows_ok_def)
      note new = replaced_rows [OF dist conjunct1 [OF r] conjunct2 [OF r], of ?r]
      have ok: "node_ok known (set_rows t ?new n)"
        using rows key new(2) False by (intro set_rows_ok [OF assms(1,2) t]) (auto simp: rows_ok_def list_all_iff)
      show ?thesis
      proof (cases "list_ex (\<lambda>(c, _). c \<in> set (t_columns t)) sets")
        case True
        then have "run_op op n = record_change t ?r (record_change t r (set_rows t ?new n))"
          using False by (auto simp: Update Some Let_def)
        then show ?thesis using recorded_grows [OF assms(1) t assms(2) ok, of "record_change t ?r (record_change t r (set_rows t ?new n))" ?r r] key new(1) False
          by auto
      next
        case no: False
        then have eq: "run_op op n = set_rows t ?new n" using False by (auto simp: Update Some Let_def)
        have "col ?r c = col r c" if "c \<in> set (t_columns t)" for c
          using no that by (intro assign_columns_untouched) (auto simp: list_all_iff list_ex_iff)
        moreover have "spec_ok t" using assms(1) t by (simp add: specs_ok_def list_all_iff)
        ultimately have "here (set_rows t ?new n) t p = here n t p" for p
          using same_rows_here [OF _ rows node_ok_rows [OF ok t] conjunct1 [OF r]] new(1) False by simp
        then show ?thesis unfolding eq
          using ok by (auto intro!: grows_set_rows [OF assms(1) t assms(2) ok, of "[]"])
      qed
    qed (simp add: Update Some assms(2))
  qed (simp add: Update assms(2))
qed

lemma run_ops_grows:
  "specs_ok known \<Longrightarrow> node_ok known n \<Longrightarrow> list_all (op_ok known) ops \<Longrightarrow> node_ok known (run_ops ops n) \<and> grows known n (run_ops ops n)"
proof (induction ops arbitrary: n)
  case (Cons op ops)
  then have "node_ok known (run_op op n)" "grows known n (run_op op n)" using run_op_grows by auto
  then show ?case using Cons outbox_grows_trans by (fastforce simp: run_ops_def)
qed (simp add: run_ops_def)

section \<open>The tables do not share paths\<close>

lemma under_iff: "under t p \<longleftrightarrow> (\<exists>x. p = t_prefix t @ CHR ''/'' # x)"
  unfolding under_def starts_def by (auto simp: append_eq_conv_conj) (metis append_take_drop_id append.assoc append_Cons append_Nil)

lemma under_path: "spec_ok t \<Longrightarrow> key_typed t k \<Longrightarrow> under t (t_path t k)"
proof -
  assume "spec_ok t" "key_typed t k"
  then have "length k = length (t_pk t)" "t_pk t \<noteq> []" by (auto simp: spec_ok_def key_typed_def dest: list_all2_lengthD)
  then obtain c ks where "k = c # ks" by (cases k) auto
  then show ?thesis unfolding under_iff t_path_def path_def by simp
qed

lemma under_same:
  assumes "specs_ok known" "t \<in> set known" "u \<in> set known" "under t p" "under u p"
  shows "t = u"
proof -
  have name: "CHR ''/'' \<notin> set (t_name t)" "CHR ''/'' \<notin> set (t_name u)" using assms(1-3) by (auto simp: specs_ok_def spec_ok_def list_all_iff)
  obtain x y where "t_prefix t @ CHR ''/'' # x = t_prefix u @ CHR ''/'' # y" using assms(4,5) unfolding under_iff by metis
  then have "t_name t @ CHR ''/'' # x = t_name u @ CHR ''/'' # y" by (auto simp: t_prefix_def split: if_splits)
  then have "t_name t = t_name u" using partition_on_sep name by (metis prod.inject)
  then show ?thesis using specs_same assms by blast
qed

section \<open>The copy keeps a node in step with the tree\<close>

text \<open>A row the node holds otherwise than the tree, at the version it last saw, waits in the outbox: what is
  not waiting is what the tree held when the node last looked.\<close>

definition pending_at :: "outbox_row list \<Rightarrow> table_spec \<Rightarrow> string \<Rightarrow> bool" where
  "pending_at rows t p \<longleftrightarrow> list_ex (\<lambda>(i, tbl, k). tbl = t_name t \<and> t_path t k = p) rows"

definition synced :: "table_spec list \<Rightarrow> node \<Rightarrow> cfs \<Rightarrow> bool" where
  "synced known n s \<longleftrightarrow> (\<forall>t \<in> set known. \<forall>p d v. under t p \<longrightarrow> cfs_tree s p = Some (d, v) \<longrightarrow> map_of (n_base n) p = Some v
     \<longrightarrow> here n t p = Some d \<or> pending_at (n_outbox n) t p)"

definition bases_ok :: "node \<Rightarrow> cfs \<Rightarrow> bool" where
  "bases_ok n s \<longleftrightarrow> (\<forall>p v. map_of (n_base n) p = Some v \<longrightarrow> v \<le> cfs_version s)"

definition replica_ok :: "table_spec list \<Rightarrow> node \<Rightarrow> cfs \<Rightarrow> bool" where
  "replica_ok known n s \<longleftrightarrow> node_ok known n \<and> cfs_ok s \<and> bases_ok n s \<and> synced known n s"

text \<open>The base an entry will have once the drain is over.\<close>

definition base_after :: "(string, int) dict \<Rightarrow> drain_acc \<Rightarrow> string \<Rightarrow> int option" where
  "base_after bases acc p = (case map_of (a_seen acc) p of Some w \<Rightarrow> w | None \<Rightarrow> map_of bases p)"

definition excused :: "outbox_row list \<Rightarrow> nat \<Rightarrow> (string \<times> cell list) list \<Rightarrow> node \<Rightarrow> table_spec \<Rightarrow> string \<Rightarrow> bool" where
  "excused later mark rest n t p \<longleftrightarrow> waits n mark t p \<or> pending_at later t p \<or> (\<exists>k. (t_name t, k) \<in> set rest \<and> t_path t k = p)"

definition loop_inv :: "table_spec list \<Rightarrow> (string, int) dict \<Rightarrow> outbox_row list \<Rightarrow> nat \<Rightarrow> (string \<times> cell list) list \<Rightarrow> node \<Rightarrow> cfs \<Rightarrow> drain_acc \<Rightarrow> bool" where
  "loop_inv known bases later mark rest n s acc \<longleftrightarrow> node_ok known n \<and> cfs_ok s \<and> mark \<le> n_seq n
     \<and> (\<forall>p v. base_after bases acc p = Some v \<longrightarrow> v \<le> cfs_version s)
     \<and> (\<forall>t \<in> set known. \<forall>p d v. under t p \<longrightarrow> cfs_tree s p = Some (d, v) \<longrightarrow> base_after bases acc p = Some v
          \<longrightarrow> here n t p = Some d \<or> excused later mark rest n t p)
     \<and> (\<forall>t \<in> set known. \<forall>k. (t_name t, k) \<in> set rest \<longrightarrow> key_typed t k \<and> map_of (a_seen acc) (t_path t k) = None)"

lemma loop_inv_moves:
  assumes "loop_inv known bases later mark rest n s acc" "moves s s'"
  shows "loop_inv known bases later mark rest n s' acc"
proof -
  note inv = assms(1) [unfolded loop_inv_def]
  have "here n t p = Some d \<or> excused later mark rest n t p"
    if "t \<in> set known" "under t p" "cfs_tree s' p = Some (d, v)" "base_after bases acc p = Some v" for t p d v
  proof -
    have "v \<le> cfs_version s" using inv that(4) by blast
    then have "cfs_tree s' p = cfs_tree s p" using assms(2) that(3) unfolding moves_def by fastforce
    then have "cfs_tree s p = Some (d, v)" using that(3) by simp
    then show ?thesis using inv that by blast
  qed
  moreover have "v \<le> cfs_version s'" if "base_after bases acc p = Some v" for p v
    using inv that assms(2) unfolding moves_def by (meson order_trans)
  moreover have "cfs_ok s'" using inv assms(2) moves_ok by blast
  ultimately show ?thesis using inv unfolding loop_inv_def by simp
qed

lemma loop_inv_grows:
  assumes "loop_inv known bases later mark rest n s acc" "grows known n n'" "node_ok known n'"
  shows "loop_inv known bases later mark rest n' s acc"
proof -
  note inv = assms(1) [unfolded loop_inv_def]
  have sub: "set (n_outbox n) \<subseteq> set (n_outbox n')" and seq: "n_seq n \<le> n_seq n'" using assms(2) by (auto simp: grows_def)
  have "here n' t p = Some d \<or> excused later mark rest n' t p"
    if "t \<in> set known" "here n t p = Some d \<or> excused later mark rest n t p" for t p d
  proof -
    have "here n' t p = here n t p \<or> waits n' (n_seq n) t p" using assms(2) that(1) by (simp add: grows_def)
    moreover have "waits n' (n_seq n) t p \<Longrightarrow> waits n' mark t p" using waits_mono [of n' "n_seq n" t p n' mark] inv by simp
    moreover have "waits n mark t p \<Longrightarrow> waits n' mark t p" using waits_mono [OF _ sub] by blast
    ultimately show ?thesis using that(2) unfolding excused_def by metis
  qed
  then show ?thesis using inv seq assms(3) unfolding loop_inv_def by (meson order_trans)
qed

lemma find_table_known: "find_table known tbl = Some t \<Longrightarrow> t \<in> set known \<and> t_name t = tbl"
  by (auto simp: find_table_def find_Some_iff)

lemma find_table_none: "find_table known tbl = None \<Longrightarrow> t \<in> set known \<Longrightarrow> t_name t \<noteq> tbl"
  by (auto simp: find_table_def find_None_iff)

text \<open>Leaving an entry behind: the invariant holds for the rest once it holds for the entry itself.\<close>

lemma loop_inv_leave:
  assumes specs: "specs_ok known" and inv: "loop_inv known bases later mark ((tbl, key) # rest) n s acc"
    and rest: "(tbl, key) \<notin> set rest"
    and same: "\<And>p. base_after bases acc' p = base_after bases acc p \<or> (\<exists>t. find_table known tbl = Some t \<and> p = t_path t key)"
    and seen: "\<And>p. map_of (a_seen acc') p = map_of (a_seen acc) p \<or> (\<exists>t. find_table known tbl = Some t \<and> p = t_path t key)"
    and own: "\<And>t d v. find_table known tbl = Some t \<Longrightarrow> cfs_tree s (t_path t key) = Some (d, v)
        \<Longrightarrow> base_after bases acc' (t_path t key) = Some v \<Longrightarrow> here n t (t_path t key) = Some d"
    and bound: "\<And>t v. find_table known tbl = Some t \<Longrightarrow> base_after bases acc' (t_path t key) = Some v \<Longrightarrow> v \<le> cfs_version s"
  shows "loop_inv known bases later mark rest n s acc'"
proof -
  note inv' = inv [unfolded loop_inv_def]
  have typed: "key_typed t k" if "t \<in> set known" "(t_name t, k) \<in> set ((tbl, key) # rest)" for t k using inv' that by blast
  have here: "here n t p = Some d \<or> excused later mark rest n t p"
    if t: "t \<in> set known" and p: "under t p" "cfs_tree s p = Some (d, v)" "base_after bases acc' p = Some v" for t p d v
  proof (cases "\<exists>u. find_table known tbl = Some u \<and> p = t_path u key")
    case True
    then obtain u where u: "find_table known tbl = Some u" "p = t_path u key" by blast
    note k = find_table_known [OF u(1)]
    have "spec_ok u" using specs k by (auto simp: specs_ok_def list_all_iff)
    then have "under u p" using u k typed [of u key] by (auto intro: under_path)
    then have "t = u" using under_same [OF specs t] k p(1) by blast
    then show ?thesis using own [OF u(1)] p u(2) by blast
  next
    case False
    then have "base_after bases acc p = Some v" using same p(3) by metis
    then have "here n t p = Some d \<or> excused later mark ((tbl, key) # rest) n t p" using inv' t p by blast
    moreover have "\<not> (t_name t = tbl \<and> t_path t key = p)"
    proof
      assume a: "t_name t = tbl \<and> t_path t key = p"
      then obtain u where "find_table known tbl = Some u" using find_table_none [of known tbl t] t by (cases "find_table known tbl") auto
      then show False using False a find_table_known specs_same [OF specs t] by metis
    qed
    ultimately show ?thesis unfolding excused_def by auto
  qed
  moreover have "v \<le> cfs_version s" if "base_after bases acc' p = Some v" for p v
    using inv' that same bound by metis
  moreover have "key_typed t k \<and> map_of (a_seen acc') (t_path t k) = None" if t: "t \<in> set known" and m: "(t_name t, k) \<in> set rest" for t k
  proof -
    have k: "key_typed t k" "map_of (a_seen acc) (t_path t k) = None" using inv' t m by auto
    have "t_path t k \<noteq> t_path u key" if u: "find_table known tbl = Some u" for u
    proof
      assume eq: "t_path t k = t_path u key"
      note uk = find_table_known [OF u]
      have key: "key_typed u key" using typed uk by auto
      have "spec_ok u" "spec_ok t" using specs uk t by (auto simp: specs_ok_def list_all_iff)
      then have "t = u" using under_same [OF specs t] uk eq k(1) key under_path by metis
      then show False using eq t_path_inject k(1) key rest m uk by blast
    qed
    then show ?thesis using seen k by metis
  qed
  ultimately show ?thesis using inv' unfolding loop_inv_def by simp
qed

lemma loop_inv_fields:
  assumes "n_rows n' = n_rows n" "n_outbox n' = n_outbox n" "n_seq n' = n_seq n" "a_seen acc' = a_seen acc"
  shows "loop_inv known bases later mark rest n' s acc' = loop_inv known bases later mark rest n s acc"
proof -
  have "here n' t p = here n t p" for t p using assms here_cong by metis
  moreover have "node_ok known n' = node_ok known n" using assms by (simp add: node_ok_def outbox_ok_def rows_ok_def)
  ultimately show ?thesis using assms by (simp add: loop_inv_def excused_def waits_def base_after_def)
qed

lemma settle_ids_fields [simp]:
  "n_rows (settle_ids ids x n) = n_rows n" "n_outbox (settle_ids ids x n) = n_outbox n" "n_seq (settle_ids ids x n) = n_seq n"
  "n_base (settle_ids ids x n) = n_base n" "n_enabled (settle_ids ids x n) = n_enabled n" "n_awaited (settle_ids ids x n) = n_awaited n"
  by (simp_all add: settle_ids_def)

lemma add_done_fields [simp]:
  "a_seen (add_done ids x n acc) = a_seen acc" "a_done (add_done ids x n acc) = a_done acc @ ids"
  "a_dropped (add_done ids x n acc) = a_dropped acc" "a_error (add_done ids x n acc) = a_error acc"
  "a_taken (add_done ids x n acc) = a_taken acc"
  by (simp_all add: add_done_def split: option.splits)

lemma ops_loop:
  assumes "specs_ok known" "env_ok env" "list_all (op_ok known) (e_local env)" "loop_inv known bases later mark rest n s acc"
  shows "loop_inv known bases later mark rest (run_ops (e_local env) n) (e_others env s) acc" "grows known n (run_ops (e_local env) n)"
proof -
  have n: "node_ok known n" using assms(4) by (simp add: loop_inv_def)
  note run_ops_grows [OF assms(1) n assms(3)]
  then show "loop_inv known bases later mark rest (run_ops (e_local env) n) (e_others env s) acc" "grows known n (run_ops (e_local env) n)"
    using loop_inv_grows [OF assms(4)] loop_inv_moves env_okD(1) [OF assms(2)] by blast+
qed

lemma taken_leave:
  assumes specs: "specs_ok known" and inv: "loop_inv known bases later mark ((tbl, key) # rest) n s acc" and rest: "(tbl, key) \<notin> set rest"
    and env: "env_ok env" and t: "find_table known tbl = Some t" "t_entry t key n = (p, data)"
    and w: "write_checked env p data (map_of bases p) s = (Inr w, s')" and acc': "a_seen acc' = dict_set p w (a_seen acc)"
  shows "loop_inv known bases later mark rest n s' acc'"
proof -
  have m: "moves s s'" using write_checked_moves [OF env, of s p data "map_of bases p"] w by simp
  note inv2 = loop_inv_moves [OF inv m]
  have typed: "key_typed t key" using inv find_table_known [OF t(1)] by (auto simp: loop_inv_def)
  have "rows_ok t n" using inv find_table_known [OF t(1)] by (auto simp: loop_inv_def node_ok_rows)
  then have p: "p = t_path t key" "data = here n t p" using t_entry_here typed t(2) by auto
  have at: "data_at s' p = data" "version_at s' p = w" using write_checked_taken [OF env w] by auto
  have after: "base_after bases acc' p = w" using acc' by (simp add: base_after_def)
  show ?thesis
  proof (rule loop_inv_leave [OF specs inv2 rest])
    show "here n u (t_path u key) = Some d" if "find_table known tbl = Some u" "cfs_tree s' (t_path u key) = Some (d, v)"
      "base_after bases acc' (t_path u key) = Some v" for u d v using that at p t(1) by auto
    show "v \<le> cfs_version s'" if "find_table known tbl = Some u" "base_after bases acc' (t_path u key) = Some v" for u v
    proof -
      have "version_at s' p = Some v" using that after at p t(1) by auto
      then show ?thesis using inv2 unfolding loop_inv_def cfs_ok_def by auto
    qed
  qed (use acc' t(1) p in \<open>auto simp: base_after_def\<close>)
qed

lemma dropped_leave:
  assumes specs: "specs_ok known" and inv: "loop_inv known bases later mark ((tbl, key) # rest) n s acc" and rest: "(tbl, key) \<notin> set rest"
    and env: "env_ok env" and t: "find_table known tbl = Some t" "t_entry t key n = (p, data)"
    and w: "write_checked env p data (map_of bases p) s = (Inl Dropped, s')"
  shows "loop_inv known bases later mark rest n s' acc"
proof -
  have m: "moves s s'" using write_checked_moves [OF env, of s p data "map_of bases p"] w by simp
  note inv2 = loop_inv_moves [OF inv m]
  have p: "p = t_path t key" using t(2) by (simp add: t_entry_def)
  have none: "map_of (a_seen acc) p = None" using inv find_table_known [OF t(1)] p by (auto simp: loop_inv_def)
  then have after: "base_after bases acc p = map_of bases p" by (simp add: base_after_def)
  have bound: "\<And>v. map_of bases p = Some v \<Longrightarrow> v \<le> cfs_version s" using inv after unfolding loop_inv_def by metis
  show ?thesis
  proof (rule loop_inv_leave [OF specs inv2 rest])
    show "here n u (t_path u key) = Some d" if "find_table known tbl = Some u" "cfs_tree s' (t_path u key) = Some (d, v)"
      "base_after bases acc (t_path u key) = Some v" for u d v
    proof -
      have "map_of bases p = Some v" "version_at s' p = Some v" using that after p t(1) by auto
      then show ?thesis using bound write_checked_dropped(2) [OF env w] by blast
    qed
  qed (use inv2 in \<open>auto simp: loop_inv_def\<close>)
qed

lemma unknown_leave:
  assumes "specs_ok known" "loop_inv known bases later mark ((tbl, key) # rest) n s acc" "(tbl, key) \<notin> set rest" "find_table known tbl = None"
  shows "loop_inv known bases later mark rest n s acc"
  by (rule loop_inv_leave [OF assms(1-3)]) (use assms(4) in auto)

text \<open>\<open>keeps known env Q\<close>: what the others do before an entry, and writing a row of this node, keep \<open>Q\<close> of the store.\<close>

definition keeps :: "table_spec list \<Rightarrow> (nat \<Rightarrow> call_env) \<Rightarrow> (cfs \<Rightarrow> bool) \<Rightarrow> bool" where
  "keeps known env Q \<longleftrightarrow> (\<forall>i s. Q s \<longrightarrow> Q (e_others (env i) s)) \<and>
     (\<forall>i s t key n p data base. t \<in> set known \<and> rows_ok t n \<and> key_typed t key \<and> t_entry t key n = (p, data) \<and> Q s
        \<longrightarrow> Q (snd (write_checked (env i) p data base s)))"

lemma keepsD:
  "keeps known env Q \<Longrightarrow> Q s \<Longrightarrow> Q (e_others (env i) s)"
  "keeps known env Q \<Longrightarrow> t \<in> set known \<Longrightarrow> rows_ok t n \<Longrightarrow> key_typed t key \<Longrightarrow> t_entry t key n = (p, data) \<Longrightarrow> Q s
     \<Longrightarrow> Q (snd (write_checked (env i) p data base s))"
  unfolding keeps_def by blast+

text \<open>What a drain of the outbox leaves: it went through the first entries, the invariant holds for those it did
  not reach, and it is done with the ids of those it did.\<close>

lemma drain_loop_inv:
  assumes specs: "specs_ok known" and env: "\<And>i. env_ok (env i)" "\<And>i. list_all (op_ok known) (e_local (env i))"
    and keep: "keeps known env Q"
  shows "loop_inv known bases later mark rest n s acc \<Longrightarrow> distinct rest \<Longrightarrow> drain_loop known rows bases True env i rest n s acc = (n', s', acc')
    \<Longrightarrow> \<exists>processed rest'. rest = processed @ rest' \<and> loop_inv known bases later mark rest' n' s' acc'
        \<and> (\<exists>new. n_outbox n' = n_outbox n @ new \<and> list_all (\<lambda>x. n_seq n < fst x) new) \<and> n_seq n \<le> n_seq n' \<and> n_base n' = n_base n
        \<and> n_enabled n' = n_enabled n
        \<and> a_done acc' = a_done acc @ concat (map (ids_of rows) processed) \<and> moves s s' \<and> (Q s \<longrightarrow> Q s')"
proof (induction rest arbitrary: i n s acc)
  case Nil
  then show ?case by auto
next
  case (Cons x rest)
  obtain tbl key where x: "x = (tbl, key)" by (cases x)
  let ?n = "run_ops (e_local (env i)) n" and ?s = "e_others (env i) s"
  have rest: "(tbl, key) \<notin> set rest" "distinct rest" using Cons.prems(2) x by auto
  note inv = ops_loop(1) [OF specs env(1) env(2) Cons.prems(1) [unfolded x]]
  note grow = ops_loop(2) [OF specs env(1) env(2) Cons.prems(1)]
  obtain new0 where new0: "n_outbox ?n = n_outbox n @ new0" "list_all (\<lambda>x. n_seq n < fst x) new0" "n_seq n \<le> n_seq ?n" "n_base ?n = n_base n"
      "n_enabled ?n = n_enabled n"
    using grow unfolding grows_def by blast
  have others: "moves s ?s" using env(1) by simp
  have go: ?case if inv': "loop_inv known bases later mark rest (settle_ids ids o' ?n) s2 acc2"
      and next': "drain_loop known rows bases True env (Suc i) rest (settle_ids ids o' ?n) s2 acc2 = (n', s', acc')"
      and ids': "a_done acc2 = a_done acc @ ids_of rows x" and m: "moves ?s s2" "Q ?s \<longrightarrow> Q s2" for ids o' s2 acc2
  proof -
    obtain processed rest' new where r: "rest = processed @ rest'" "loop_inv known bases later mark rest' n' s' acc'"
        "n_outbox n' = n_outbox ?n @ new" "list_all (\<lambda>x. n_seq ?n < fst x) new" "n_seq ?n \<le> n_seq n'" "n_base n' = n_base ?n" "n_enabled n' = n_enabled ?n"
        "a_done acc' = a_done acc2 @ concat (map (ids_of rows) processed)" "moves s2 s'" "Q s2 \<longrightarrow> Q s'"
      using Cons.IH [OF inv' rest(2) next'] by auto
    have "x # rest = (x # processed) @ rest'" using r by simp
    moreover have "n_outbox n' = n_outbox n @ (new0 @ new)" "list_all (\<lambda>x. n_seq n < fst x) (new0 @ new)" "n_seq n \<le> n_seq n'"
      using r new0 by (auto simp: list_all_iff intro: le_less_trans)
    moreover have "a_done acc' = a_done acc @ concat (map (ids_of rows) (x # processed))" using r ids' by simp
    moreover have "moves s s'" using moves_trans [OF others moves_trans [OF m(1) r(9)]] .
    moreover have "Q s \<longrightarrow> Q s'" using keepsD(1) [OF keep] m(2) r(10) by blast
    moreover have "n_base n' = n_base n" "n_enabled n' = n_enabled n" using r new0 by simp_all
    ultimately show ?thesis using r(2) by (intro exI [of _ "x # processed"] exI [of _ rest'] conjI exI [of _ "new0 @ new"])
  qed
  show ?case
  proof (cases "find_table known tbl")
    case None
    have "loop_inv known bases later mark rest ?n ?s acc" using unknown_leave [OF specs inv rest(1) None] .
    then have "loop_inv known bases later mark rest (settle_ids (ids_of rows x) None ?n) ?s (add_done (ids_of rows x) None ?n acc)"
      by (subst loop_inv_fields [where n = ?n and acc = acc]) simp_all
    then show ?thesis by (rule go) (use Cons.prems(3) x None in \<open>auto simp: Let_def\<close>)
  next
    case (Some t)
    obtain p data where e: "t_entry t key ?n = (p, data)" by (cases "t_entry t key ?n")
    obtain res s2 where w: "write_checked (env i) p data (map_of bases p) ?s = (res, s2)" by (cases "write_checked (env i) p data (map_of bases p) ?s")
    have t: "t \<in> set known" "key_typed t key" "rows_ok t ?n"
      using find_table_known [OF Some] inv [of i] node_ok_rows [of known ?n t] by (auto simp: loop_inv_def)
    have m: "moves ?s s2" "Q ?s \<longrightarrow> Q s2"
      using write_checked_moves [OF env(1), of ?s] keepsD(2) [OF keep t(1,3,2) e, of ?s i "map_of bases p"] w by (metis snd_conv)+
    show ?thesis
    proof (cases res)
      case (Inr v)
      let ?acc = "acc\<lparr>a_copied := Suc (a_copied acc), a_seen := dict_set p v (a_seen acc), a_taken := a_taken acc @ [(ids_of rows x, p, data, s2)]\<rparr>"
      have "loop_inv known bases later mark rest ?n s2 ?acc"
        using taken_leave [OF specs inv rest(1) env(1) Some e w [unfolded Inr]] by simp
      then have "loop_inv known bases later mark rest (settle_ids (ids_of rows x) None ?n) s2 (add_done (ids_of rows x) None ?n ?acc)"
        by (subst loop_inv_fields [where n = ?n and acc = ?acc]) simp_all
      then show ?thesis by (rule go) (use Cons.prems(3) x Some e w Inr m in \<open>auto simp: Let_def\<close>)
    next
      case (Inl err)
      show ?thesis
      proof (cases err)
        case Dropped
        let ?acc = "acc\<lparr>a_dropped := a_dropped acc @ [p]\<rparr>"
        have "loop_inv known bases later mark rest ?n s2 acc"
          using dropped_leave [OF specs inv rest(1) env(1) Some e] w Inl Dropped by simp
        then have "loop_inv known bases later mark rest (settle_ids (ids_of rows x) (Some p) ?n) s2 (add_done (ids_of rows x) (Some p) ?n ?acc)"
          by (subst loop_inv_fields [where n = ?n and acc = acc]) simp_all
        then show ?thesis by (rule go) (use Cons.prems(3) x Some e w Inl Dropped m in \<open>auto simp: Let_def\<close>)
      next
        case (Failed er)
        then have fin: "n' = ?n\<lparr>n_failures := Suc (n_failures ?n)\<rparr>" "s' = s2" "acc' = acc\<lparr>a_error := Some er\<rparr>"
          using Cons.prems(3) x Some e w Inl by (auto simp: Let_def)
        have "loop_inv known bases later mark (x # rest) n' s' acc'"
          using loop_inv_moves [OF inv m(1)] fin x by (subst loop_inv_fields [where n = ?n and acc = acc]) simp_all
        moreover have "moves s s'" "Q s \<longrightarrow> Q s'" using moves_trans [OF others m(1)] keepsD(1) [OF keep] m(2) fin by simp_all
        ultimately show ?thesis using new0 fin by (intro exI [of _ "[]"] exI [of _ "x # rest"]) auto
      qed
    qed
  qed
qed

lemma set_last_changes [simp]: "set (last_changes ks) = set ks"
  by (induction ks) auto

lemma distinct_last_changes [simp]: "distinct (last_changes ks)"
  by (induction ks) auto

lemma set_bases_map:
  "dict_ok seen \<Longrightarrow> map_of (set_bases seen base) p = (case map_of seen p of Some w \<Rightarrow> w | None \<Rightarrow> map_of base p)"
proof (induction seen arbitrary: base)
  case (Cons x seen)
  obtain q v where x: "x = (q, v)" by (cases x)
  then have "set_bases (x # seen) base = set_bases seen (case v of Some w \<Rightarrow> dict_set q w base | None \<Rightarrow> dict_del q base)"
    by (simp add: set_bases_def)
  moreover have "q \<notin> set (keys seen)" using Cons.prems x by simp
  then have "map_of seen q = None" by (simp add: map_of_eq_None_iff)
  ultimately show ?case using Cons x by (auto split: option.splits)
qed (simp add: set_bases_def)

lemma drain_loop_seen_ok:
  "drain_loop known rows bases True env i rest n s acc = (n', s', acc') \<Longrightarrow> dict_ok (a_seen acc) \<Longrightarrow> dict_ok (a_seen acc')"
proof (induction rest arbitrary: i n s acc)
  case (Cons x rest)
  obtain tbl key where x: "x = (tbl, key)" by (cases x)
  show ?case
    using Cons.prems unfolding x
    by (auto simp: Let_def split: option.splits prod.splits sum.splits write_error.splits intro: Cons.IH)
qed simp

lemma ids_of_mem: "i \<in> set (ids_of rows k) \<longleftrightarrow> (i, k) \<in> set rows"
  by (force simp: ids_of_def)

lemma finish_drain_fields [simp]:
  "n_rows (finish_drain acc n) = n_rows n" "n_outbox (finish_drain acc n) = filter (\<lambda>r. fst r \<notin> set (a_done acc)) (n_outbox n)"
  "n_base (finish_drain acc n) = set_bases (a_seen acc) (n_base n)" "n_seq (finish_drain acc n) = n_seq n"
  "n_enabled (finish_drain acc n) = n_enabled n" "n_awaited (finish_drain acc n) = n_awaited n"
  "n_outcomes (finish_drain acc n) = n_outcomes n"
  by (simp_all add: finish_drain_def drop_changes_def Let_def)

lemma finish_loop:
  assumes loop: "loop_inv known (n_base n) later (n_seq n) rest' n1 s1 acc" and ids: "distinct (map fst (n_outbox n))" "list_all (\<lambda>x. fst x \<le> n_seq n) (n_outbox n)"
    and split: "n_outbox n = rows @ later" "n_outbox n1 = n_outbox n @ new" "list_all (\<lambda>x. n_seq n < fst x) new" "n_base n1 = n_base n"
    and rest: "last_changes (map snd rows) = processed @ rest'" "a_done acc = concat (map (ids_of rows) processed)" "dict_ok (a_seen acc)"
  shows "replica_ok known (finish_drain acc n1) s1"
proof -
  note inv = loop [unfolded loop_inv_def]
  let ?n = "finish_drain acc n1"
  have base: "map_of (n_base ?n) p = base_after (n_base n) acc p" for p using set_bases_map [OF rest(3)] split(4) by (simp add: base_after_def)
  have dist: "set processed \<inter> set rest' = {}" using rest(1) distinct_last_changes [of "map snd rows"] by auto
  have done_rows: "i \<in> set (a_done acc) \<Longrightarrow> \<exists>k \<in> set processed. (i, k) \<in> set rows" for i using rest(2) by (auto simp: ids_of_mem)
  have small: "i \<in> set (a_done acc) \<Longrightarrow> i \<le> n_seq n" for i using done_rows ids(2) split(1) by (force simp: list_all_iff)
  have uniq: "(i, k) \<in> set rows \<Longrightarrow> (i, k') \<in> set (n_outbox n) \<Longrightarrow> k = k'" for i k k'
    using ids(1) split(1) by (metis Un_iff eq_key_imp_eq_value set_append)
  have notlater: "(i, k) \<in> set later \<Longrightarrow> i \<notin> set (a_done acc)" for i k
  proof
    assume a: "(i, k) \<in> set later" "i \<in> set (a_done acc)"
    then obtain k' where "(i, k') \<in> set rows" using done_rows by blast
    then have "i \<in> fst ` set rows \<inter> fst ` set later" using a(1) by force
    then show False using ids(1) split(1) by auto
  qed
  have "pending_at (n_outbox ?n) t p" if ex: "excused later (n_seq n) rest' n1 t p" for t p
  proof -
    consider i k where "(i, t_name t, k) \<in> set (n_outbox n1)" "t_path t k = p" "n_seq n < i"
      | i k where "(i, t_name t, k) \<in> set later" "t_path t k = p" | k where "(t_name t, k) \<in> set rest'" "t_path t k = p"
      using ex unfolding excused_def waits_def pending_at_def list_ex_iff by auto
    then obtain i k where "(i, t_name t, k) \<in> set (n_outbox n1)" "t_path t k = p" "i \<notin> set (a_done acc)"
    proof cases
      case (1 i k)
      then show thesis using that small by fastforce
    next
      case (2 i k)
      then show thesis using that [of i k] notlater [of i] split by auto
    next
      case (3 k)
      then have "(t_name t, k) \<in> set (map snd rows)" using rest(1) set_last_changes by (metis Un_iff set_append)
      then obtain i where i: "(i, t_name t, k) \<in> set rows" by auto
      then have "i \<notin> set (a_done acc)" using done_rows uniq [of i] dist 3(1) split(1) by fastforce
      then show thesis using that [of i k] i 3(2) split by auto
    qed
    then show ?thesis by (force simp: pending_at_def list_ex_iff)
  qed
  then have "synced known ?n s1" using inv base here_cong [of ?n _ n1] unfolding synced_def by fastforce
  moreover have "node_ok known ?n" using inv by (auto simp: node_ok_def outbox_ok_def rows_ok_def list_all_iff distinct_map_filter)
  moreover have "bases_ok ?n s1" using inv base by (simp add: bases_ok_def)
  ultimately show ?thesis using inv by (simp add: replica_ok_def)
qed

definition drain_env_ok :: "table_spec list \<Rightarrow> drain_env \<Rightarrow> bool" where
  "drain_env_ok known env \<longleftrightarrow> d_status env \<noteq> Inr False \<and> (\<forall>i. env_ok (d_calls env i) \<and> list_all (op_ok known) (e_local (d_calls env i)))"

lemma drain_keeps_replica:
  assumes specs: "specs_ok known" and ok: "replica_ok known n s" and on: "n_enabled n" and env: "drain_env_ok known env"
    and keep: "keeps known (d_calls env) Q"
    and drain: "drain known env n s = (n', s', acc)"
  shows "replica_ok known n' s' \<and> moves s s' \<and> (Q s \<longrightarrow> Q s') \<and> n_enabled n'"
proof (cases "take LIMIT (n_outbox n) = [] \<or> d_status env \<noteq> Inr True \<or> d_behind env")
  case True
  have "d_status env = Inr True \<or> (\<exists>e. d_status env = Inl e)"
    using env by (cases "d_status env") (auto simp: drain_env_ok_def)
  then have "(n', s') = (n, s) \<or> (n', s') = (n\<lparr>n_failures := Suc (n_failures n)\<rparr>, s)"
    using drain on True by (elim disjE exE) (auto simp: drain_def Let_def split: if_splits)
  then consider "n' = n" "s' = s" | "n' = n\<lparr>n_failures := Suc (n_failures n)\<rparr>" "s' = s" by blast
  then show ?thesis
  proof cases
    case 2
    have "here n' t p = here n t p" for t p using 2 here_cong [of n' t n] by simp
    then have "replica_ok known n' s = replica_ok known n s"
      using 2 by (simp add: replica_ok_def node_ok_def rows_ok_def outbox_ok_def bases_ok_def synced_def)
    then show ?thesis using ok on 2 by simp
  qed (use ok on in simp)
next
  case False
  let ?rows = "take LIMIT (n_outbox n)" and ?later = "drop LIMIT (n_outbox n)"
  obtain n1 s1 where loop: "drain_loop known ?rows (n_base n) True (d_calls env) 0 (last_changes (map snd ?rows)) n s acc_start = (n1, s1, acc)"
      "n' = finish_drain acc n1" "s' = s1"
    using drain on False by (auto simp: drain_def Let_def split: prod.splits)
  have "excused ?later (n_seq n) (last_changes (map snd ?rows)) n t p" if "pending_at (n_outbox n) t p" for t p
  proof -
    have "pending_at (?rows @ ?later) t p" using that by simp
    then show ?thesis unfolding excused_def pending_at_def list_ex_append by (force simp: list_ex_iff)
  qed
  moreover have "key_typed t k" if t: "t \<in> set known" and m: "(t_name t, k) \<in> set (last_changes (map snd ?rows))" for t k
  proof -
    obtain i where "(i, t_name t, k) \<in> set (n_outbox n)" using m by (auto dest: in_set_takeD)
    then show ?thesis using ok t by (auto simp: replica_ok_def node_ok_def outbox_ok_def list_all_iff)
  qed
  moreover have "base_after (n_base n) acc_start = map_of (n_base n)" by (simp add: fun_eq_iff base_after_def acc_start_def)
  moreover have "map_of (a_seen acc_start) p = None" for p by (simp add: acc_start_def)
  ultimately have start: "loop_inv known (n_base n) ?later (n_seq n) (last_changes (map snd ?rows)) n s acc_start"
    using ok unfolding loop_inv_def replica_ok_def synced_def bases_ok_def by (metis order_refl)
  have e: "\<And>i. env_ok (d_calls env i)" "\<And>i. list_all (op_ok known) (e_local (d_calls env i))" using env by (auto simp: drain_env_ok_def)
  obtain processed rest' new where r: "last_changes (map snd ?rows) = processed @ rest'"
      "loop_inv known (n_base n) ?later (n_seq n) rest' n1 s1 acc" "n_outbox n1 = n_outbox n @ new" "list_all (\<lambda>x. n_seq n < fst x) new"
      "n_base n1 = n_base n" "a_done acc = concat (map (ids_of ?rows) processed)" "moves s s1" "Q s \<longrightarrow> Q s1" "n_enabled n1"
    using drain_loop_inv [of known "d_calls env" Q, OF specs e keep start distinct_last_changes loop(1)] on
    by (auto simp: acc_start_def)
  have "dict_ok (a_seen acc)" using drain_loop_seen_ok [OF loop(1)] by (simp add: acc_start_def)
  then show ?thesis
    using finish_loop [OF r(2) _ _ _ r(3,4,5,1,6)] ok r(7-9) loop by (simp add: replica_ok_def node_ok_def outbox_ok_def)
qed

section \<open>What becomes of an id a request waits for\<close>

lemma write_plain_taken:
  "env_ok env \<Longrightarrow> write_plain env p data s = (Inr v, s') \<Longrightarrow> data_at s' p = data"
  by (cases data) (auto simp: write_plain_def answered_def cfs_put_Inr_iff cfs_delete_Inr_iff cfs_delete_def split: sum.splits if_splits option.splits)

definition was_taken :: "drain_acc \<Rightarrow> nat \<Rightarrow> bool" where
  "was_taken acc i \<longleftrightarrow> (\<exists>ids p d st. (ids, p, d, st) \<in> set (a_taken acc) \<and> i \<in> set ids \<and> data_at st p = d)"

definition was_dropped :: "node \<Rightarrow> nat \<Rightarrow> bool" where
  "was_dropped n i \<longleftrightarrow> (\<exists>p. map_of (n_outcomes n) i = Some (Some p))"

lemma run_op_memory [simp]: "n_awaited (run_op op n) = n_awaited n" "n_outcomes (run_op op n) = n_outcomes n"
  by (cases op; auto simp: Let_def split: option.splits)+

lemma run_ops_memory [simp]: "n_awaited (run_ops ops n) = n_awaited n" "n_outcomes (run_ops ops n) = n_outcomes n"
  by (induction ops arbitrary: n) (simp_all add: run_ops_def)

lemma settle_ids_outcome:
  "map_of (n_outcomes (settle_ids ids x n)) i = (if i \<in> set ids \<and> i \<in> set (n_awaited n) then Some x else map_of (n_outcomes n) i)"
proof -
  have "map_of (foldl (\<lambda>d i. if i \<in> set aw then dict_set i x d else d) d ids) i = (if i \<in> set ids \<and> i \<in> set aw then Some x else map_of d i)" for d aw
    by (induction ids arbitrary: d) auto
  then show ?thesis by (simp add: settle_ids_def)
qed

lemma drain_loop_settles:
  assumes env: "\<And>i. env_ok (env i)" and known: "\<And>x. i \<in> set (ids_of rows x) \<Longrightarrow> find_table known (fst x) \<noteq> None"
  shows "drain_loop known rows bases cluster env j rest n s acc = (n', s', acc') \<Longrightarrow> i \<in> set (n_awaited n)
    \<Longrightarrow> (i \<in> set (a_done acc) \<Longrightarrow> was_taken acc i \<or> was_dropped n i)
    \<Longrightarrow> n_awaited n' = n_awaited n \<and> (i \<in> set (a_done acc') \<longrightarrow> was_taken acc' i \<or> was_dropped n' i)"
proof (induction rest arbitrary: j n s acc)
  case (Cons x rest)
  obtain tbl key where x: "x = (tbl, key)" by (cases x)
  let ?n = "run_ops (e_local (env j)) n" and ?s = "e_others (env j) s" and ?ids = "ids_of rows x"
  have go: ?case if "drain_loop known rows bases cluster env (Suc j) rest (settle_ids ?ids o' ?n) s2 acc2 = (n', s', acc')"
      and "i \<in> set (a_done acc2) \<Longrightarrow> was_taken acc2 i \<or> was_dropped (settle_ids ?ids o' ?n) i" for o' s2 acc2
    using Cons.IH [OF that(1)] that(2) Cons.prems(2) by simp
  show ?case
  proof (cases "find_table known tbl")
    case None
    then have out: "i \<notin> set ?ids" using known [of x] x by auto
    show ?thesis
      by (rule go [of None ?s "add_done ?ids None ?n acc"])
        (use Cons.prems x None out in \<open>auto simp: Let_def was_dropped_def settle_ids_outcome was_taken_def\<close>)
  next
    case (Some t)
    obtain p data where e: "t_entry t key ?n = (p, data)" by (cases "t_entry t key ?n")
    obtain res s2 where w: "(if cluster then write_checked (env j) p data (map_of bases p) ?s else write_plain (env j) p data ?s) = (res, s2)"
      by (cases "if cluster then write_checked (env j) p data (map_of bases p) ?s else write_plain (env j) p data ?s")
    show ?thesis
    proof (cases res)
      case (Inr v)
      have at: "data_at s2 p = data"
        using w Inr write_checked_taken [OF env] write_plain_taken [OF env] by (cases cluster) auto
      let ?acc = "acc\<lparr>a_copied := Suc (a_copied acc), a_seen := (if cluster then dict_set p v (a_seen acc) else a_seen acc),
          a_taken := a_taken acc @ [(?ids, p, data, s2)]\<rparr>"
      show ?thesis
      proof (rule go [of None s2 "add_done ?ids None ?n ?acc"])
        show "drain_loop known rows bases cluster env (Suc j) rest (settle_ids ?ids None ?n) s2 (add_done ?ids None ?n ?acc) = (n', s', acc')"
          using Cons.prems(1) x Some e w Inr by (simp add: Let_def)
        assume "i \<in> set (a_done (add_done ?ids None ?n ?acc))"
        then consider "i \<in> set ?ids" | "i \<notin> set ?ids" "i \<in> set (a_done acc)" by auto
        then show "was_taken (add_done ?ids None ?n ?acc) i \<or> was_dropped (settle_ids ?ids None ?n) i"
        proof cases
          case 1
          then show ?thesis using at by (auto simp: was_taken_def)
        next
          case 2
          then have "was_taken acc i \<or> was_dropped n i" using Cons.prems(3) by blast
          then show ?thesis using 2(1) by (auto simp: was_taken_def was_dropped_def settle_ids_outcome)
        qed
      qed
    next
      case (Inl err)
      show ?thesis
      proof (cases err)
        case Dropped
        show ?thesis
          by (rule go [of "Some p" s2 "add_done ?ids (Some p) ?n (acc\<lparr>a_dropped := a_dropped acc @ [p]\<rparr>)"])
            (use Cons.prems x Some e w Inl Dropped in \<open>auto simp: Let_def was_dropped_def settle_ids_outcome was_taken_def\<close>)
      next
        case (Failed er)
        then show ?thesis using Cons.prems x Some e w Inl by (auto simp: Let_def was_dropped_def was_taken_def)
      qed
    qed
  qed
qed simp

text \<open>The outbox grows at its end only, whatever the statements.\<close>

definition appends :: "node \<Rightarrow> node \<Rightarrow> bool" where
  "appends n n' \<longleftrightarrow> (\<exists>new. n_outbox n' = n_outbox n @ new \<and> list_all (\<lambda>x. n_seq n < fst x) new) \<and> n_seq n \<le> n_seq n'
     \<and> n_enabled n' = n_enabled n \<and> n_awaited n' = n_awaited n"

lemma appends_refl [simp]: "appends n n"
  by (simp add: appends_def)

lemma appends_trans:
  assumes "appends n n1" "appends n1 n2"
  shows "appends n n2"
proof -
  obtain a b where "n_outbox n1 = n_outbox n @ a" "n_outbox n2 = n_outbox n1 @ b" "list_all (\<lambda>x. n_seq n < fst x) a"
      "list_all (\<lambda>x. n_seq n1 < fst x) b" "n_seq n \<le> n_seq n1" "n_seq n1 \<le> n_seq n2"
    using assms unfolding appends_def by blast
  then have "n_outbox n2 = n_outbox n @ (a @ b)" "list_all (\<lambda>x. n_seq n < fst x) (a @ b)" "n_seq n \<le> n_seq n2"
    by (auto simp: list_all_iff intro: le_less_trans)
  then show ?thesis using assms unfolding appends_def by metis
qed

lemma appends_record: "appends (set_rows t rs n) n' \<Longrightarrow> appends n n'"
  by (simp add: appends_def)

lemma record_change_appends: "appends n (record_change t r n)"
  by (auto simp: appends_def record_change_def)

lemma run_op_appends: "appends n (run_op op n)"
proof -
  have "appends n (record_change t r (set_rows t rs n))" "appends n (record_change t r' (record_change t r (set_rows t rs n)))" "appends n (set_rows t rs n)"
    for t r r' rs using record_change_appends appends_trans appends_record by (blast, blast, simp add: appends_def)
  then show ?thesis by (cases op) (auto simp: Let_def split: option.splits)
qed

lemma run_ops_appends: "appends n (run_ops ops n)"
proof (induction ops arbitrary: n)
  case (Cons op ops)
  have "run_ops (op # ops) n = run_ops ops (run_op op n)" by (simp add: run_ops_def)
  then show ?case using Cons run_op_appends appends_trans by metis
qed (simp add: run_ops_def)

lemma settle_ids_appends: "appends n n1 \<Longrightarrow> appends n (settle_ids ids x n1)"
  by (simp add: appends_def)

lemma drain_loop_appends:
  "drain_loop known rows bases cluster env j rest n s acc = (n', s', acc') \<Longrightarrow>
     appends n n' \<and> (i \<notin> fst ` set rows \<longrightarrow> map_of (n_outcomes n') i = map_of (n_outcomes n) i)
     \<and> set (a_done acc') \<subseteq> set (a_done acc) \<union> fst ` set rows"
proof (induction rest arbitrary: j n s acc)
  case (Cons x rest)
  obtain tbl key where x: "x = (tbl, key)" by (cases x)
  have ids: "set (ids_of rows y) \<subseteq> fst ` set rows" for y by (force simp: ids_of_mem)
  let ?n = "run_ops (e_local (env j)) n"
  have go: ?case if "drain_loop known rows bases cluster env (Suc j) rest (settle_ids (ids_of rows x) o' ?n) s2 acc2 = (n', s', acc')"
      "a_done acc2 = a_done acc @ ids_of rows x" for o' s2 acc2
  proof -
    note step = Cons.IH [OF that(1)]
    have "appends n (settle_ids (ids_of rows x) o' ?n)" using settle_ids_appends run_ops_appends by blast
    then have "appends n n'" using step appends_trans by blast
    moreover have "i \<notin> fst ` set rows \<longrightarrow> map_of (n_outcomes n') i = map_of (n_outcomes n) i"
      using step ids [of x] by (auto simp: settle_ids_outcome)
    ultimately show ?thesis using step that(2) ids [of x] by auto
  qed
  show ?case
    using Cons.prems go unfolding x
    by (auto simp: Let_def appends_def run_ops_appends [unfolded appends_def] split: option.splits prod.splits sum.splits write_error.splits)
qed simp

text \<open>Where an id a request waits for can be.\<close>

definition id_state :: "table_spec list \<Rightarrow> nat \<Rightarrow> node \<Rightarrow> drain_acc list \<Rightarrow> bool" where
  "id_state known i n trace \<longleftrightarrow> i \<in> set (n_awaited n) \<and> i \<le> n_seq n \<and> (\<forall>tbl k. (i, tbl, k) \<in> set (n_outbox n) \<longrightarrow> find_table known tbl \<noteq> None)
     \<and> (i \<in> fst ` set (n_outbox n) \<or> (\<exists>acc \<in> set trace. was_taken acc i) \<or> was_dropped n i)"

lemma drain_id_state:
  assumes env: "\<And>j. env_ok (d_calls env j)" and on: "n_enabled n" and st: "id_state known i n trace" and drain: "drain known env n s = (n', s', acc)"
  shows "id_state known i n' (trace @ [acc]) \<and> n_enabled n'"
proof -
  let ?rows = "take LIMIT (n_outbox n)"
  have quiet: ?thesis if "n' = n \<or> n' = n\<lparr>n_failures := Suc (n_failures n)\<rparr>"
  proof -
    have "n_outbox n' = n_outbox n" "n_awaited n' = n_awaited n" "n_seq n' = n_seq n" "n_outcomes n' = n_outcomes n" "n_enabled n' = n_enabled n"
      using that by auto
    then show ?thesis using st on unfolding id_state_def was_dropped_def by (simp only:) auto
  qed
  show ?thesis
  proof (cases "?rows = []")
    case True
    then have "n' = n" using drain on by (simp add: drain_def)
    then show ?thesis using quiet by blast
  next
    case False
    show ?thesis
    proof (cases "d_status env")
      case (Inl e)
      then have "n' = n\<lparr>n_failures := Suc (n_failures n)\<rparr>" using drain on False by (simp add: drain_def)
      then show ?thesis using quiet by blast
    next
      case (Inr cluster)
      show ?thesis
      proof (cases "cluster \<and> d_behind env")
        case True
        then have "n' = n" using drain on False Inr by (simp add: drain_def)
        then show ?thesis using quiet by blast
      next
        case go: False
        obtain n1 where loop: "drain_loop known ?rows (n_base n) cluster (d_calls env) 0 (last_changes (map snd ?rows)) n s acc_start = (n1, s', acc)"
            "n' = finish_drain acc n1"
          using drain on False Inr go by (auto simp: drain_def Let_def split: prod.splits)
        have known: "find_table known (fst x) \<noteq> None" if "i \<in> set (ids_of ?rows x)" for x
          using that st by (cases x) (auto simp: ids_of_mem id_state_def dest: in_set_takeD)
        have aw: "i \<in> set (n_awaited n)" using st by (simp add: id_state_def)
        have settled: "i \<in> set (a_done acc) \<longrightarrow> was_taken acc i \<or> was_dropped n1 i"
          using drain_loop_settles [OF env known loop(1) aw] by (simp add: acc_start_def)
        note app = drain_loop_appends [OF loop(1), of i]
        obtain new where new: "n_outbox n1 = n_outbox n @ new" "list_all (\<lambda>x. n_seq n < fst x) new" "n_seq n \<le> n_seq n1" "n_enabled n1 = n_enabled n"
            "n_awaited n1 = n_awaited n" using app unfolding appends_def by blast
        have notnew: "(i, y) \<notin> set new" for y using new(2) st by (auto simp: list_all_iff id_state_def)
        have "i \<in> fst ` set (n_outbox n') \<or> was_taken acc i \<or> (\<exists>acc \<in> set trace. was_taken acc i) \<or> was_dropped n1 i"
        proof (cases "i \<in> fst ` set (n_outbox n)")
          case True
          then obtain y where "i = fst y" "y \<in> set (n_outbox n)" by (rule imageE)
          then have "y \<in> set (n_outbox n1)" "fst y = i" using new(1) by simp_all
          then show ?thesis using settled loop(2) by force
        next
          case False
          then have "i \<notin> fst ` set ?rows" using image_mono [OF set_take_subset, of fst LIMIT "n_outbox n"] by blast
          then have "was_dropped n1 i = was_dropped n i" using app by (simp add: was_dropped_def)
          then show ?thesis using st False by (auto simp: id_state_def)
        qed
        moreover have "was_dropped n' i = was_dropped n1 i" using loop(2) by (simp add: was_dropped_def)
        ultimately show ?thesis using st on new notnew loop(2) unfolding id_state_def by auto
      qed
    qed
  qed
qed

definition rounds_ok :: "confirm_round list \<Rightarrow> bool" where
  "rounds_ok rounds \<longleftrightarrow> list_all (\<lambda>r. list_all (\<lambda>env. \<forall>j. env_ok (d_calls env j)) (r_drains r)
     \<and> (case r_mine r of None \<Rightarrow> True | Some env \<Rightarrow> \<forall>j. env_ok (d_calls env j))) rounds"

definition waiting_ok :: "table_spec list \<Rightarrow> nat list \<Rightarrow> replica \<Rightarrow> bool" where
  "waiting_ok known wanted x \<longleftrightarrow> (case x of (n, s, trace) \<Rightarrow> n_enabled n \<and> list_all (\<lambda>i. id_state known i n trace) wanted)"

lemma drain_once_waiting:
  "waiting_ok known wanted x \<Longrightarrow> \<forall>j. env_ok (d_calls env j) \<Longrightarrow> waiting_ok known wanted (drain_once known x env)"
proof -
  assume ok: "waiting_ok known wanted x" and env: "\<forall>j. env_ok (d_calls env j)"
  obtain n s trace where x: "x = (n, s, trace)" by (cases x)
  obtain n' s' acc where d: "drain known env n s = (n', s', acc)" by (cases "drain known env n s")
  have "n_enabled n" using ok x by (simp add: waiting_ok_def)
  have "id_state known i n' (trace @ [acc]) \<and> n_enabled n'" if "id_state known i n trace" for i
    using drain_id_state [OF _ \<open>n_enabled n\<close> that d] env by blast
  moreover have "n_enabled n'"
  proof -
    have "drain known env n s = (n', s', acc) \<Longrightarrow> n_enabled n' = n_enabled n"
      using drain_loop_appends [of known _ "n_base n" _ "d_calls env" 0 _ n s acc_start]
      by (auto simp: drain_def Let_def appends_def split: if_splits sum.splits prod.splits)
    then show ?thesis using d \<open>n_enabled n\<close> by blast
  qed
  ultimately show ?thesis using ok x d by (auto simp: waiting_ok_def drain_once_def list_all_iff)
qed

lemma drains_waiting:
  "waiting_ok known wanted x \<Longrightarrow> list_all (\<lambda>env. \<forall>j. env_ok (d_calls env j)) envs \<Longrightarrow> waiting_ok known wanted (foldl (drain_once known) x envs)"
  by (induction envs arbitrary: x) (auto simp: drain_once_waiting)

lemma confirm_loop_sound:
  "confirm_loop known app wanted rounds x = Some (Confirmed, n', s', trace) \<Longrightarrow> waiting_ok known wanted x \<Longrightarrow> rounds_ok rounds
    \<Longrightarrow> \<forall>i \<in> set wanted. \<exists>acc \<in> set trace. was_taken acc i"
proof (induction rounds arbitrary: x)
  case (Cons r rs)
  let ?y = "foldl (drain_once known) x (r_drains r)"
  let ?z = "case r_mine r of None \<Rightarrow> ?y | Some env \<Rightarrow> drain_once known ?y env"
  have ok: "waiting_ok known wanted ?y" using Cons.prems(2,3) drains_waiting by (simp add: rounds_ok_def)
  then have okz: "waiting_ok known wanted ?z" using Cons.prems(3) drain_once_waiting by (auto simp: rounds_ok_def split: option.splits)
  obtain n s tr where z: "?z = (n, s, tr)" by (cases ?z)
  have rest: "rounds_ok rs" using Cons.prems(3) by (simp add: rounds_ok_def)
  show ?case
  proof (cases "list_all (\<lambda>i. i \<notin> fst ` set (n_outbox n)) wanted")
    case True
    let ?f = "\<lambda>i. case map_of (n_outcomes n) i of Some o' \<Rightarrow> o' | None \<Rightarrow> None"
    have "List.map_filter ?f wanted = [] \<and> trace = tr"
      using Cons.prems(1) True z by (auto simp: Let_def split: option.splits if_splits)
    then have none: "?f i = None" if "i \<in> set wanted" for i using that by (auto simp: List.map_filter_def filter_empty_conv)
    show ?thesis
    proof
      fix i assume i: "i \<in> set wanted"
      have "\<not> was_dropped n i" using none [OF i] by (auto simp: was_dropped_def)
      moreover have "i \<notin> fst ` set (n_outbox n)" using True i by (simp add: list_all_iff)
      moreover have "id_state known i n tr" using okz z i by (simp add: waiting_ok_def list_all_iff)
      ultimately show "\<exists>acc \<in> set trace. was_taken acc i"
        using \<open>List.map_filter ?f wanted = [] \<and> trace = tr\<close> by (auto simp: id_state_def)
    qed
  next
    case False
    then have "confirm_loop known app wanted rs (n, s, tr) = Some (Confirmed, n', s', trace)"
      using Cons.prems(1) z by (auto simp: Let_def split: option.splits if_splits)
    then show ?thesis using Cons.IH [OF _ _ rest] okz z by simp
  qed
qed simp

end
