(* ===== verification/Inbound_Props.thy ===== *)
theory Inbound_Props
  imports Shadow_Props "HOL-Library.Multiset"
begin

text \<open>
  What an apply does to a node: the rows of the tree read back as the rows some node wrote (\<open>entry_of_row\<close>), each
  change touches the one path it is about (\<open>run_change_here\<close>), so a round of them leaves every table as the tree has
  it (\<open>all_changes_apply\<close>, \<open>apply_facts\<close>). Then the steps that keep \<open>replica_ok\<close>: a local write, the others' writes, a
  refresh of the bases.
\<close>

section \<open>An entry as a node writes it\<close>

text \<open>The row of an entry of the tree: it lists exactly the configuration columns, belongs at its path, and does not stay
  on one node.\<close>

definition row_ok :: "table_spec \<Rightarrow> row \<Rightarrow> bool" where
  "row_ok t r \<longleftrightarrow> set (keys r) = set (t_columns t) \<and> key_typed t (t_key t r) \<and> \<not> t_local t r"

definition entry_ok :: "table_spec \<Rightarrow> string \<Rightarrow> string \<Rightarrow> bool" where
  "entry_ok t p d \<longleftrightarrow> (case loads d of None \<Rightarrow> False
     | Some r \<Rightarrow> row_ok t r \<and> t_data t r = d \<and> t_path t (t_key t r) = p)"

lemma entry_of_row:
  assumes spec: "spec_ok t" and rows: "rows_ok t n" and p: "here n t p = Some d"
  shows "entry_ok t p d"
proof -
  obtain r where r: "r \<in> set (n_rows n (t_name t))" "\<not> t_local t r" "t_path t (t_key t r) = p" "t_data t r = d"
    using p here_eq [OF rows] by blast
  let ?cells = "map (\<lambda>c. (c, col r c)) (t_columns t)" and ?r = "sort_key fst (map (\<lambda>c. (c, col r c)) (t_columns t))"
  have dist: "dict_ok ?cells" using spec by (simp add: spec_ok_def o_def)
  have "loads d = Some ?r" using loads_encode [OF dist] r(4) by (simp add: t_data_def)
  moreover have "map_of ?r = map_of ?cells" using dist dict_ok_sort [OF dist] by (simp add: map_of_inject_set)
  then have "c \<in> set (t_columns t) \<Longrightarrow> col ?r c = col r c" for c
    by (simp add: col_def map_of_map_restrict [where f = "col r", unfolded col_def, simplified])
  note same = same_columns [OF spec this]
  have "key_typed t (t_key t r)" using r(1) rows by (simp add: rows_ok_def list_all_iff)
  then show ?thesis using calculation same r by (auto simp: entry_ok_def row_ok_def image_image)
qed

section \<open>What a change does to the rows\<close>

lemma delete_row_here:
  assumes "rows_ok t n" "key_typed t (t_key t r)"
  shows "rows_ok t (delete_row t r n)" "here (delete_row t r n) t q = (if q = t_path t (t_key t r) then None else here n t q)"
proof -
  let ?n = "delete_row t r n"
  have rows: "n_rows ?n (t_name t) = filter (\<lambda>x. t_key t x \<noteq> t_key t r) (n_rows n (t_name t))"
    by (auto simp: delete_row_def find_None_iff filter_id_conv split: option.splits)
  then show ok: "rows_ok t ?n" using assms(1) by (simp add: rows_ok_def list_all_iff distinct_map_filter)
  have "here ?n t q = Some d \<longleftrightarrow> q \<noteq> t_path t (t_key t r) \<and> here n t q = Some d" for d
    unfolding here_eq [OF ok] here_eq [OF assms(1)] rows using assms t_path_inject by (auto simp: rows_ok_def list_all_iff)
  then show "here ?n t q = (if q = t_path t (t_key t r) then None else here n t q)" by (metis not_None_eq)
qed

lemma fill_row_col: "c \<in> set (keys r) \<Longrightarrow> col (fill_row now t r) c = col r c"
proof -
  have "c \<in> set (keys r) \<Longrightarrow> col (foldl (\<lambda>r (c, v). if c \<in> set (keys r) then r else dict_set c (w v) r) r fs) c = col r c" for w fs
  proof (induction fs arbitrary: r)
    case (Cons x fs)
    obtain a v where x: "x = (a, v)" by (cases x)
    let ?r = "if a \<in> set (keys r) then r else dict_set a (w v) r"
    have "set (keys r) \<subseteq> set (keys ?r)" by (auto simp: dict_set_new)
    moreover have "col ?r c = col r c" using Cons.prems by (auto simp: col_def)
    ultimately show ?case using Cons x by (simp add: subset_iff)
  qed simp
  then show "c \<in> set (keys r) \<Longrightarrow> col (fill_row now t r) c = col r c" by (simp add: fill_row_def)
qed

lemma assign_columns_set:
  "dict_ok sets \<Longrightarrow> col (assign_columns sets r) c = (case map_of sets c of Some v \<Rightarrow> v | None \<Rightarrow> col r c)"
proof (induction sets arbitrary: r)
  case (Cons x sets)
  obtain a v where x: "x = (a, v)" by (cases x)
  then have "map_of sets a = None" using Cons.prems by (simp add: map_of_eq_None_iff)
  then show ?case using Cons x by (auto simp: assign_columns_def col_def split: option.splits)
qed (simp add: assign_columns_def)

text \<open>A row written over another of the same key takes its configuration columns from the tree and keeps the rest.\<close>

lemma upserted_columns:
  assumes "spec_ok t" "t_key t x = t_key t r" "dict_ok r" "c \<in> set (t_columns t)" "set (t_columns t) \<subseteq> set (keys r)"
  shows "col (assign_columns (filter (\<lambda>p. fst p \<notin> set (t_pk t)) r) x) c = col r c"
proof (cases "c \<in> set (t_pk t)")
  case True
  then have "col x c = col r c" using assms(2) by (auto simp: t_key_def)
  then show ?thesis using True by (subst assign_columns_untouched) (auto simp: list_all_iff)
next
  case False
  have "map_of (filter (\<lambda>p. fst p \<notin> set (t_pk t)) r) c = map_of r c" using False map_of_filter_keys [of "\<lambda>k. k \<notin> set (t_pk t)" r c] by simp
  moreover obtain v where "map_of r c = Some v" using assms(4,5) keys_map_of by (metis subsetD)
  moreover have "dict_ok (filter (\<lambda>p. fst p \<notin> set (t_pk t)) r)" using assms(3) by simp
  ultimately show ?thesis using assign_columns_set [of "filter (\<lambda>p. fst p \<notin> set (t_pk t)) r" x c] by (metis col_def option.case(2))
qed

lemma upsert_here:
  assumes spec: "spec_ok t" and rows: "rows_ok t n" and r: "dict_ok r" "set (t_columns t) \<subseteq> set (keys r)" "key_typed t (t_key t r)" "\<not> t_local t r"
  shows "rows_ok t (upsert t r n)" "here (upsert t r n) t q = (if q = t_path t (t_key t r) then Some (t_data t r) else here n t q)"
proof -
  let ?rs = "n_rows n (t_name t)"
  obtain x' old where x': "t_key t x' = t_key t r" "t_data t x' = t_data t r" "\<not> t_local t x'"
      and new: "set (n_rows (upsert t r n) (t_name t)) = insert x' {y \<in> set ?rs. t_key t y \<noteq> t_key t r}"
      and dist: "distinct (map (t_key t) (n_rows (upsert t r n) (t_name t)))"
  proof (cases "find (\<lambda>x. t_key t x = t_key t r) ?rs")
    case None
    then have absent: "t_key t r \<notin> t_key t ` set ?rs" by (auto simp: find_None_iff)
    then have "{y \<in> set ?rs. t_key t y \<noteq> t_key t r} = set ?rs" by (auto simp: image_iff)
    then show thesis using that [of r] absent None r rows by (auto simp: upsert_def Let_def rows_ok_def)
  next
    case (Some x)
    note xk = find_key [OF Some]
    let ?x = "assign_columns (filter (\<lambda>p. fst p \<notin> set (t_pk t)) r) x"
    have "c \<in> set (t_columns t) \<Longrightarrow> col ?x c = col r c" for c using upserted_columns [OF spec _ r(1) _ r(2)] xk by blast
    note same = same_columns [OF spec this]
    have d: "distinct (map (t_key t) ?rs)" using rows by (simp add: rows_ok_def)
    note rep = replaced_rows [OF d conjunct1 [OF xk] conjunct2 [OF xk], of ?x]
    have "n_rows (upsert t r n) (t_name t) = map (\<lambda>y. if t_key t y = t_key t r then ?x else y) ?rs"
      using Some by (simp add: upsert_def Let_def)
    moreover have "set ?rs - {x} = {y \<in> set ?rs. t_key t y \<noteq> t_key t r}"
    proof -
      have "y = x" if "y \<in> set ?rs" "t_key t y = t_key t r" for y using that d xk unfolding distinct_map inj_on_def by metis
      then show ?thesis using xk by auto
    qed
    ultimately show thesis using that [of ?x] same rep r by simp
  qed
  show ok: "rows_ok t (upsert t r n)" using rows new dist x' r by (auto simp: rows_ok_def list_all_iff)
  have "here (upsert t r n) t q = Some d \<longleftrightarrow> (if q = t_path t (t_key t r) then d = t_data t r else here n t q = Some d)" for d
    unfolding here_eq [OF ok] here_eq [OF rows] new using x' r rows t_path_inject by (auto simp: rows_ok_def list_all_iff)
  then show "here (upsert t r n) t q = (if q = t_path t (t_key t r) then Some (t_data t r) else here n t q)" by (metis not_None_eq)
qed

section \<open>A whole round of changes\<close>

definition change_ok :: "table_spec list \<Rightarrow> change \<Rightarrow> bool" where
  "change_ok known ch \<longleftrightarrow> (case ch of (k, t, body) \<Rightarrow> t \<in> set known \<and>
     (case body of None \<Rightarrow> False | Some r \<Rightarrow> dict_ok r \<and> row_ok t r))"

text \<open>Which path a change is about, and what the table holds there after it.\<close>

definition effect :: "change \<Rightarrow> (table_spec \<times> string) \<times> string option" where
  "effect ch = (case ch of (k, t, body) \<Rightarrow>
     case body of
       Some r \<Rightarrow> ((t, t_path t (t_key t r)), if k = Remove then None else Some (t_data t r))
     | None \<Rightarrow> ((t, []), None))"

abbreviation all_rows_ok :: "table_spec list \<Rightarrow> node \<Rightarrow> bool" where
  "all_rows_ok known n \<equiv> \<forall>t \<in> set known. rows_ok t n"

lemma other_table:
  fixes u :: table_spec
  shows "t_name u \<noteq> t_name t \<Longrightarrow> n_rows (delete_row t r n) (t_name u) = n_rows n (t_name u)"
  "t_name u \<noteq> t_name t \<Longrightarrow> n_rows (upsert t r n) (t_name u) = n_rows n (t_name u)"
  by (auto simp: delete_row_def upsert_def Let_def split: option.splits)

lemma dict_ok_fill: "dict_ok r \<Longrightarrow> dict_ok (fill_row now t r)"
proof -
  have "dict_ok r \<Longrightarrow> dict_ok (foldl (\<lambda>r (c, v). if c \<in> set (keys r) then r else dict_set c (w v) r) r fs)" for w fs
    by (induction fs arbitrary: r) (auto split: prod.splits)
  then show "dict_ok r \<Longrightarrow> dict_ok (fill_row now t r)" by (simp add: fill_row_def)
qed

lemma fill_row_keys: "set (keys r) \<subseteq> set (keys (fill_row now t r))"
proof -
  have "set (keys r) \<subseteq> set (keys (foldl (\<lambda>r (c, v). if c \<in> set (keys r) then r else dict_set c (w v) r) r fs))" for w fs
  proof (induction fs arbitrary: r)
    case (Cons x fs)
    obtain a v where x: "x = (a, v)" by (cases x)
    have "set (keys r) \<subseteq> set (keys (if a \<in> set (keys r) then r else dict_set a (w v) r))" by (auto simp: dict_set_new)
    then show ?case unfolding x foldl_Cons prod.case using Cons.IH by (rule order_trans)
  qed simp
  then show ?thesis by (simp only: fill_row_def)
qed

lemma run_change_here:
  assumes specs: "specs_ok known" and rows: "all_rows_ok known n" and ch: "change_ok known ch" and run: "run_change refuses now ch n = Inr n'"
  shows "all_rows_ok known n'" "u \<in> set known \<Longrightarrow> here n' u q = (if (u, q) = fst (effect ch) then snd (effect ch) else here n u q)"
proof -
  obtain k t r where c: "ch = (k, t, Some r)" "t \<in> set known" "dict_ok r" "row_ok t r"
    using ch by (cases ch) (auto simp: change_ok_def split: option.splits)
  have spec: "spec_ok t" using specs c(2) by (simp add: specs_ok_def list_all_iff)
  let ?r = "fill_row now t r"
  have "col ?r c = col r c" if "c \<in> set (t_columns t)" for c using that c(4) fill_row_col by (simp add: row_ok_def)
  note same = same_columns [OF spec this]
  have "set (t_columns t) \<subseteq> set (keys ?r)"
    using fill_row_keys [of r now t] c(4) by (simp add: row_ok_def)
  note up = upsert_here [OF spec _ dict_ok_fill [OF c(3)] this]
  have t_ok: "rows_ok t n" using rows c(2) by blast
  have n': "n' = (if k = Remove then delete_row t r n else upsert t ?r n)"
    using run c(1) by (auto simp: run_change_def split: if_splits)
  have own: "rows_ok t n' \<and> here n' t q = (if q = t_path t (t_key t r) then snd (effect ch) else here n t q)" for q
  proof (cases "k = Remove")
    case True
    then show ?thesis using delete_row_here [OF t_ok, of r] c unfolding n' row_ok_def by (simp add: effect_def)
  next
    case False
    have "key_typed t (t_key t ?r)" "\<not> t_local t ?r" using c(4) same by (simp_all add: row_ok_def)
    then show ?thesis using False up [OF t_ok] c(1) same unfolding n' by (simp add: effect_def)
  qed
  have others: "n_rows n' (t_name u) = n_rows n (t_name u)" if "u \<in> set known" "u \<noteq> t" for u
    using other_table [of u t] specs_same [OF specs that(1) c(2)] that(2) unfolding n' by auto
  show "all_rows_ok known n'" using own others rows rows_ok_cong by metis
  show "u \<in> set known \<Longrightarrow> here n' u q = (if (u, q) = fst (effect ch) then snd (effect ch) else here n u q)"
    using own [of q] others [of u] here_cong [of n' u n q] c(1) by (cases "u = t") (auto simp: effect_def)
qed

lemma run_changes_here:
  assumes specs: "specs_ok known"
  shows "all_rows_ok known n \<Longrightarrow> list_all (change_ok known) chs \<Longrightarrow> distinct (map (fst \<circ> effect) chs) \<Longrightarrow> run_changes refuses now chs n = Inr n'
    \<Longrightarrow> all_rows_ok known n' \<and> (\<forall>u \<in> set known. \<forall>q. here n' u q = (case map_of (map effect chs) (u, q) of Some x \<Rightarrow> x | None \<Rightarrow> here n u q))"
proof (induction chs arbitrary: n)
  case (Cons ch chs)
  obtain n1 where n1: "run_change refuses now ch n = Inr n1" "run_changes refuses now chs n1 = Inr n'"
    using Cons.prems(4) by (auto simp: py_simps)
  have ok: "change_ok known ch" using Cons.prems(2) by simp
  note one = run_change_here [OF specs Cons.prems(1) ok n1(1)]
  have IH: "all_rows_ok known n'" "u \<in> set known \<Longrightarrow> here n' u q = (case map_of (map effect chs) (u, q) of Some x \<Rightarrow> x | None \<Rightarrow> here n1 u q)" for u q
    using Cons.IH [OF one(1) _ _ n1(2)] Cons.prems by auto
  have "fst (effect ch) \<notin> fst ` set (map effect chs)" using Cons.prems(3) by (auto simp: image_image)
  then have "map_of (map effect chs) (fst (effect ch)) = None" by (simp only: map_of_eq_None_iff not_False_eq_True)
  then show ?case using IH one(2) by (auto simp: prod_eq_iff split: option.splits)
qed simp

section \<open>The changes that bring the tree\<close>

definition reads_ok :: "table_spec list \<Rightarrow> reads \<Rightarrow> bool" where
  "reads_ok known reads \<longleftrightarrow> map fst reads = known \<and>
     list_all (\<lambda>(t, remote). dict_ok remote \<and> list_all (\<lambda>(p, (d, v)). under t p \<and> entry_ok t p d) remote) reads"

lemma loads_dict_ok: "loads d = Some r \<Longrightarrow> dict_ok r"
  by (auto simp: loads_def split: if_splits option.splits)

lemma entry_effect:
  assumes "entry_ok t p d" "t \<in> set known"
  shows "change_ok known (k, t, loads d)" "effect (k, t, loads d) = ((t, p), if k = Remove then None else Some d)"
  using assms by (auto simp: entry_ok_def change_ok_def effect_def loads_dict_ok split: option.splits)

lemma t_all_facts: "dict_ok (t_all t n)" "(p, d) \<in> set (t_all t n) \<longleftrightarrow> here n t p = Some d"
  by (simp_all add: t_all_def here_def)

text \<open>The changes of one table, by their effect.\<close>

definition table_effects :: "node \<Rightarrow> table_spec \<times> (string, string \<times> int) dict \<Rightarrow> ((table_spec \<times> string) \<times> string option) list" where
  "table_effects n x = (case x of (t, remote) \<Rightarrow>
     map (\<lambda>(p, d). ((t, p), None)) (filter (\<lambda>(p, d). p \<notin> set (keys remote)) (t_all t n))
     @ map (\<lambda>(p, (d, _)). ((t, p), Some d)) (filter (\<lambda>(p, (d, _)). map_of (t_all t n) p \<noteq> Some d) remote))"

lemma table_changes_effects:
  assumes "specs_ok known" "t \<in> set known" "rows_ok t n" and remote: "list_all (\<lambda>(p, (d, v)). under t p \<and> entry_ok t p d) remote"
  shows "map effect (table_changes n (t, remote)) = table_effects n (t, remote)" "list_all (change_ok known) (table_changes n (t, remote))"
proof -
  have spec: "spec_ok t" using assms(1,2) by (simp add: specs_ok_def list_all_iff)
  have local: "entry_ok t p d" if "(p, d) \<in> set (t_all t n)" for p d using that entry_of_row [OF spec assms(3)] t_all_facts(2) by blast
  have rem: "entry_ok t p d" if "(p, (d, v)) \<in> set remote" for p d v using that remote by (auto simp: list_all_iff)
  show "map effect (table_changes n (t, remote)) = table_effects n (t, remote)"
    unfolding table_changes_def table_effects_def Let_def prod.case map_append map_map
    by (intro arg_cong2 [where f = append] map_cong refl) (auto simp: entry_effect(2) [OF _ assms(2)] dest!: local rem)
  show "list_all (change_ok known) (table_changes n (t, remote))"
    unfolding table_changes_def Let_def using entry_effect(1) [OF _ assms(2)] local rem by (fastforce simp: list_all_iff)
qed

lemma table_effects_map:
  assumes "dict_ok remote"
  shows "distinct (map fst (table_effects n (t, remote)))" "set (map fst (table_effects n (t, remote))) \<subseteq> {t} \<times> UNIV"
    "(case map_of (table_effects n (t, remote)) (t, q) of Some x \<Rightarrow> x | None \<Rightarrow> here n t q) = map_option fst (map_of remote q)"
proof -
  let ?gone = "filter (\<lambda>(p, d). p \<notin> set (keys remote)) (t_all t n)" and ?new = "filter (\<lambda>(p, (d, _)). map_of (t_all t n) p \<noteq> Some d) remote"
  have fsts: "map fst (table_effects n (t, remote)) = map (Pair t) (map fst ?gone @ map fst ?new)"
    by (auto simp: table_effects_def o_def case_prod_unfold)
  have "distinct (map fst ?gone @ map fst ?new)"
  proof -
    have "p \<notin> set (keys remote)" if "p \<in> set (map fst ?gone)" for p
    proof -
      obtain d where "(p, d) \<in> set ?gone" using \<open>p \<in> set (map fst ?gone)\<close> by auto
      then show ?thesis by simp
    qed
    then have "set (map fst ?gone) \<inter> set (keys remote) = {}" by blast
    moreover have "set (map fst ?new) \<subseteq> set (keys remote)" by auto
    ultimately have "set (map fst ?gone) \<inter> set (map fst ?new) = {}" by blast
    moreover have "distinct (map fst ?gone)" "distinct (map fst ?new)"
      using t_all_facts(1) [of t n] assms by (simp_all add: distinct_map_filter)
    ultimately show ?thesis by (simp only: distinct_append)
  qed
  then show d: "distinct (map fst (table_effects n (t, remote)))" unfolding fsts by (rule distinct_map [THEN iffD2, OF conjI]) (simp add: inj_on_def)
  show "set (map fst (table_effects n (t, remote))) \<subseteq> {t} \<times> UNIV" unfolding fsts by auto
  show "(case map_of (table_effects n (t, remote)) (t, q) of Some x \<Rightarrow> x | None \<Rightarrow> here n t q) = map_option fst (map_of remote q)"
  proof (cases "map_of (table_effects n (t, remote)) (t, q)")
    case None
    then have "(t, q) \<notin> set (map fst (table_effects n (t, remote)))" by (simp add: map_of_eq_None_iff)
    then have no: "q \<notin> set (map fst ?gone)" "q \<notin> set (map fst ?new)" unfolding fsts by auto
    show ?thesis
    proof (cases "map_of remote q")
      case None
      then have "q \<notin> set (keys remote)" by (simp add: map_of_eq_None_iff)
      then have "(q, d) \<in> set (t_all t n) \<Longrightarrow> (q, d) \<in> set ?gone" for d by simp
      then have "(q, d) \<notin> set (t_all t n)" for d using no(1) by (metis fst_conv image_eqI set_map)
      then have "q \<notin> set (keys (t_all t n))" by auto
      then have "here n t q = None" by (simp add: here_def map_of_eq_None_iff)
      then show ?thesis using \<open>map_of (table_effects n (t, remote)) (t, q) = None\<close> None by (simp only: option.case option.map)
    next
      case (Some x)
      then have "(q, x) \<in> set remote" by (rule map_of_SomeD)
      then have "map_of (t_all t n) q = Some (fst x)" using no(2) by (cases x) force
      then have "here n t q = Some (fst x)" by (simp add: here_def)
      then show ?thesis using \<open>map_of (table_effects n (t, remote)) (t, q) = None\<close> Some by (simp only: option.case option.map)
    qed
  next
    case (Some x)
    then have "((t, q), x) \<in> set (table_effects n (t, remote))" by (rule map_of_SomeD)
    then consider d where "(q, d) \<in> set ?gone" "x = None" | d v where "(q, (d, v)) \<in> set remote" "x = Some d"
      by (auto simp: table_effects_def)
    then show ?thesis
    proof cases
      case 1
      then have "map_of remote q = None" by (auto simp: map_of_eq_None_iff)
      then show ?thesis using Some 1 by simp
    next
      case 2
      then show ?thesis using Some assms by simp
    qed
  qed
qed

lemma concat_effects:
  assumes "distinct ts" "\<And>t. t \<in> set ts \<Longrightarrow> distinct (map fst (f t)) \<and> set (map fst (f t)) \<subseteq> {t} \<times> UNIV"
  shows "distinct (map fst (concat (map f ts)))" "t \<in> set ts \<Longrightarrow> map_of (concat (map f ts)) (t, q) = map_of (f t) (t, q)"
  using assms
proof (induction ts)
  case (Cons u ts)
  {
    case 1
    then have "distinct (map fst (concat (map f ts)))" using Cons.IH(1) by simp
    moreover have "set (map fst (f u)) \<inter> set (map fst (concat (map f ts))) = {}"
    proof -
      have "u \<notin> set ts" "set (map fst (f u)) \<subseteq> {u} \<times> UNIV" using 1(1) 1(2) [of u] by auto
      moreover have "set (map fst (concat (map f ts))) \<subseteq> set ts \<times> UNIV" using 1(2) by fastforce
      ultimately show ?thesis by blast
    qed
    moreover have "distinct (map fst (f u))" using 1 by simp
    ultimately show ?case by simp
  next
    case 2
    have out: "map_of (f u) (t, q) = None" if "t \<noteq> u" using that 2(3) [of u] by (force simp: map_of_eq_None_iff)
    have rest: "map_of (concat (map f ts)) (u, q) = None" using 2(2,3) by (force simp: map_of_eq_None_iff)
    show ?case using Cons.IH(2) 2 out rest by (cases "t = u") (auto simp: map_add_def split: option.splits)
  }
qed simp_all

lemma all_changes_apply:
  assumes specs: "specs_ok known" and rows: "all_rows_ok known n" and reads: "reads_ok known reads"
    and run: "run_changes refuses now (all_changes reads n) n = Inr n'"
  shows "all_rows_ok known n'" "(t, remote) \<in> set reads \<Longrightarrow> here n' t q = map_option fst (map_of remote q)"
proof -
  have known: "map fst reads = known" using reads by (simp add: reads_ok_def)
  have one: "dict_ok remote" "list_all (\<lambda>(p, (d, v)). under t p \<and> entry_ok t p d) remote" "t \<in> set known" "rows_ok t n"
    if "(t, remote) \<in> set reads" for t remote
  proof -
    show t: "t \<in> set known" using that known by force
    then show "rows_ok t n" using rows by blast
    show "dict_ok remote" "list_all (\<lambda>(p, (d, v)). under t p \<and> entry_ok t p d) remote" using that reads by (auto simp: reads_ok_def list_all_iff)
  qed
  let ?chs = "concat (map (table_changes n) reads)" and ?eff = "concat (map (table_effects n) reads)"
  have eff: "map effect ?chs = ?eff"
    unfolding map_concat map_map
    by (intro arg_cong [where f = concat] map_cong refl) (use table_changes_effects(1) [OF specs] one in auto)
  have good: "list_all (change_ok known) ?chs"
    using table_changes_effects(2) [OF specs] one by (fastforce simp: list_all_iff)
  have "distinct known" using specs unfolding specs_ok_def by (simp add: distinct_map)
  then have dist: "distinct (map fst reads)" using known by simp
  define f where "f t = table_effects n (t, the (map_of reads t))" for t
  have f: "map (table_effects n) reads = map f known"
    unfolding known [symmetric] map_map using dist by (auto simp: f_def)
  have facts: "distinct (map fst (f t)) \<and> set (map fst (f t)) \<subseteq> {t} \<times> UNIV" if t: "t \<in> set known" for t
  proof -
    obtain remote where "(t, remote) \<in> set reads" using t known by auto
    then show ?thesis using table_effects_map(1,2) one(1) dist unfolding f_def by (metis map_of_is_SomeI option.sel)
  qed
  note all = concat_effects [OF \<open>distinct known\<close> facts]
  have perm: "mset (all_changes reads n) = mset ?chs" by (simp add: all_changes_def)
  have deff: "distinct (map fst (map effect ?chs))" using all(1) eff f by simp
  then have dch: "distinct (map (fst \<circ> effect) (all_changes reads n))"
    using mset_eq_imp_distinct_iff [of "map (fst \<circ> effect) (all_changes reads n)" "map (fst \<circ> effect) ?chs"] perm by (simp only: mset_map map_map)
  moreover have "list_all (change_ok known) (all_changes reads n)" using good mset_eq_setD [OF perm] by (simp only: list_all_iff)
  ultimately have res: "all_rows_ok known n'"
      "u \<in> set known \<Longrightarrow> here n' u q = (case map_of (map effect (all_changes reads n)) (u, q) of Some x \<Rightarrow> x | None \<Rightarrow> here n u q)" for u q
    using run_changes_here [OF specs rows _ _ run] by auto
  show "all_rows_ok known n'" by (rule res(1))
  have "set (map effect (all_changes reads n)) = set ?eff" using mset_eq_setD [OF perm] eff by (metis set_map)
  moreover have "distinct (map fst (map effect (all_changes reads n)))" using dch by simp
  ultimately have same: "map_of (map effect (all_changes reads n)) = map_of ?eff"
    using deff eff by (metis map_of_inject_set)
  show "here n' t q = map_option fst (map_of remote q)" if t: "(t, remote) \<in> set reads"
  proof -
    have "f t = table_effects n (t, remote)" using t dist by (simp add: f_def)
    then have "map_of ?eff (t, q) = map_of (table_effects n (t, remote)) (t, q)" using all(2) one(3) [OF t] f by metis
    then show ?thesis using res(2) [OF one(3) [OF t]] same table_effects_map(3) [OF one(1) [OF t]] by simp
  qed
qed

section \<open>After an apply\<close>

text \<open>The listings of the tables read from one state of the store.\<close>

definition reads_of :: "lister \<Rightarrow> table_spec list \<Rightarrow> cfs \<Rightarrow> reads" where
  "reads_of ls known s = map (\<lambda>t. (t, ls t s)) known"

text \<open>Every entry under a table's prefix is a row a node wrote.\<close>

definition tree_ok :: "table_spec list \<Rightarrow> cfs \<Rightarrow> bool" where
  "tree_ok known s \<longleftrightarrow> (\<forall>t \<in> set known. \<forall>p d v. under t p \<longrightarrow> cfs_tree s p = Some (d, v) \<longrightarrow> entry_ok t p d)"

lemma reads_of_ok:
  assumes "\<forall>t \<in> set known. lists ls t s" "tree_ok known s"
  shows "reads_ok known (reads_of ls known s)"
proof -
  have "dict_ok (ls t s) \<and> (under t p \<and> entry_ok t p d)" if "t \<in> set known" "(p, d, v) \<in> set (ls t s)" for t p d v
  proof -
    have l: "dict_ok (ls t s)" "map_of (ls t s) = (\<lambda>p. if under t p then cfs_tree s p else None)" using assms(1) that(1) by (auto simp: lists_def)
    have "map_of (ls t s) p = Some (d, v)" using map_of_is_SomeI [OF l(1) that(2)] .
    then have "under t p" "cfs_tree s p = Some (d, v)" using l(2) by (auto split: if_splits)
    then show ?thesis using assms(2) that(1) l(1) unfolding tree_ok_def by blast
  qed
  moreover have "dict_ok (ls t s)" if "t \<in> set known" for t using assms(1) that by (simp add: lists_def)
  ultimately show ?thesis by (auto simp: reads_ok_def reads_of_def list_all_iff o_def)
qed

lemma inbound_applied:
  assumes "inbound_apply refuses now cluster version reads version' n = (Applied k, n')"
  obtains n1 where "run_changes refuses now (all_changes reads n) n = Inr n1" "n_enabled n" "cluster" "n_outbox n = []" "version' = version"
    "n_applied n \<le> version"
    "n' = n1\<lparr>n_applied := version, n_outbox := [], n_base := record_bases reads, n_again := False, n_problem := None\<rparr>"
  using assms by (auto simp: inbound_apply_def Let_def not_less split: if_splits sum.splits apply_error.splits)

lemma record_bases_map:
  assumes "distinct known" "\<forall>t \<in> set known. lists ls t s"
    and "\<And>t u p. t \<in> set known \<Longrightarrow> u \<in> set known \<Longrightarrow> under t p \<Longrightarrow> under u p \<Longrightarrow> t = u"
  shows "t \<in> set known \<Longrightarrow> under t p \<Longrightarrow> map_of (record_bases (reads_of ls known s)) p = version_at s p"
    and "map_of (record_bases (reads_of ls known s)) p = Some v \<Longrightarrow> version_at s p = Some v"
proof -
  let ?f = "\<lambda>t. map (\<lambda>(p, (_, v)). (p, v)) (ls t s)"
  have rec: "record_bases (reads_of ls known s) = concat (map ?f known)" by (simp add: record_bases_def reads_of_def o_def)
  have "map_of (map (\<lambda>(p, (_, v)). (p, v)) xs) p = map_option snd (map_of xs p)" for xs :: "(string, string \<times> int) dict" and p
    by (induction xs) auto
  then have f: "map_of (?f t) p = (if under t p then version_at s p else None)" if "t \<in> set known" for t p
    using assms(2) that unfolding lists_def by (metis (mono_tags, lifting) option.map(1))
  have all: "map_of (concat (map ?f ts)) p = (if \<exists>t \<in> set ts. under t p then version_at s p else None)" if "set ts \<subseteq> set known" for ts p
    using that
  proof (induction ts)
    case (Cons t ts)
    then have "map_of (?f t) p = (if under t p then version_at s p else None)"
        "map_of (concat (map ?f ts)) p = (if \<exists>t \<in> set ts. under t p then version_at s p else None)" using f [of t p] by simp_all
    then show ?case by (cases "version_at s p") (auto simp: map_add_def simp del: map_of_map split: option.splits)
  qed simp
  have "map_of (record_bases (reads_of ls known s)) p = (if \<exists>t \<in> set known. under t p then version_at s p else None)" for p
    unfolding rec by (rule all) (rule subset_refl)
  then show "t \<in> set known \<Longrightarrow> under t p \<Longrightarrow> map_of (record_bases (reads_of ls known s)) p = version_at s p"
    "map_of (record_bases (reads_of ls known s)) p = Some v \<Longrightarrow> version_at s p = Some v"
    by (auto split: if_splits)
qed

lemma apply_facts:
  assumes specs: "specs_ok known" and rows: "all_rows_ok known n" and ls: "\<forall>t \<in> set known. lists ls t s" and tree: "tree_ok known s"
    and app: "inbound_apply refuses now cluster version (reads_of ls known s) version' n = (Applied k, n')"
  shows "t \<in> set known \<Longrightarrow> under t p \<Longrightarrow> here n' t p = data_at s p" "t \<in> set known \<Longrightarrow> under t p \<Longrightarrow> map_of (n_base n') p = version_at s p"
    "cfs_ok s \<Longrightarrow> replica_ok known n' s" "n_outbox n' = []" "n_applied n' = version" "\<not> n_again n'" "n_problem n' = None"
proof -
  obtain n1 where n1: "run_changes refuses now (all_changes (reads_of ls known s) n) n = Inr n1"
      "n' = n1\<lparr>n_applied := version, n_outbox := [], n_base := record_bases (reads_of ls known s), n_again := False, n_problem := None\<rparr>"
    using inbound_applied [OF app] by metis
  note run = all_changes_apply [OF specs rows reads_of_ok [OF ls tree] n1(1)]
  have dist: "distinct known" using specs by (simp add: specs_ok_def distinct_map)
  have sep: "\<And>t u p. t \<in> set known \<Longrightarrow> u \<in> set known \<Longrightarrow> under t p \<Longrightarrow> under u p \<Longrightarrow> t = u" using under_same [OF specs] by blast
  note bases = record_bases_map [OF dist ls sep]
  have "here n' t p = here n1 t p" for t p using n1(2) here_cong [of n' t n1 p] by simp
  moreover have "map_of (ls t s) p = (if under t p then cfs_tree s p else None)" if "t \<in> set known" for t p using ls that by (simp add: lists_def)
  ultimately have here: "t \<in> set known \<Longrightarrow> under t p \<Longrightarrow> here n' t p = data_at s p" for t p
    using run(2) [of t "ls t s" p] by (simp add: reads_of_def)
  then show "t \<in> set known \<Longrightarrow> under t p \<Longrightarrow> here n' t p = data_at s p" .
  show base: "t \<in> set known \<Longrightarrow> under t p \<Longrightarrow> map_of (n_base n') p = version_at s p" using bases(1) n1(2) by simp
  show "n_outbox n' = []" "n_applied n' = version" "\<not> n_again n'" "n_problem n' = None" using n1(2) by simp_all
  show "replica_ok known n' s" if "cfs_ok s"
  proof -
    have "bases_ok n' s" using bases(2) n1(2) that unfolding bases_ok_def cfs_ok_def by fastforce
    moreover have "node_ok known n'" using run(1) n1(2) by (simp add: node_ok_def outbox_ok_def rows_ok_def list_all_iff)
    moreover have "synced known n' s" using here unfolding synced_def by (metis (no_types, lifting) fst_conv option.map(2))
    ultimately show ?thesis using that by (simp add: replica_ok_def)
  qed
qed

section \<open>Every step keeps a node in step\<close>

lemma replica_moves:
  assumes "replica_ok known n s" "moves s s'"
  shows "replica_ok known n s'"
proof -
  have b: "bases_ok n s" "cfs_ok s" using assms(1) by (simp_all add: replica_ok_def)
  have "cfs_tree s p = Some (d, v)" if "cfs_tree s' p = Some (d, v)" "map_of (n_base n) p = Some v" for p d v
  proof -
    have "v \<le> cfs_version s" using b(1) that(2) by (simp add: bases_ok_def)
    then have "\<not> cfs_version s < v" by simp
    then have "cfs_tree s' p = cfs_tree s p" using assms(2) that(1) unfolding moves_def by blast
    then show ?thesis using that(1) by simp
  qed
  then have "synced known n s'" using assms(1) unfolding replica_ok_def synced_def by blast
  moreover have "bases_ok n s'" using b(1) assms(2) unfolding bases_ok_def moves_def by (meson order_trans)
  ultimately show ?thesis using assms moves_ok b(2) by (simp add: replica_ok_def)
qed

lemma replica_grows:
  assumes "replica_ok known n s" "grows known n n'" "node_ok known n'"
  shows "replica_ok known n' s"
proof -
  have out: "set (n_outbox n) \<subseteq> set (n_outbox n')" "n_base n' = n_base n" using assms(2) by (auto simp: grows_def)
  have "here n' t p = Some d \<or> pending_at (n_outbox n') t p"
    if t: "t \<in> set known" and old: "here n t p = Some d \<or> pending_at (n_outbox n) t p" for t p d
  proof -
    have "waits n' (n_seq n) t p \<Longrightarrow> pending_at (n_outbox n') t p" by (force simp: waits_def pending_at_def list_ex_iff)
    moreover have "pending_at (n_outbox n) t p \<Longrightarrow> pending_at (n_outbox n') t p" using out(1) unfolding pending_at_def list_ex_iff by blast
    moreover have "here n' t p = here n t p \<or> waits n' (n_seq n) t p" using assms(2) t by (simp add: grows_def)
    ultimately show ?thesis using old by metis
  qed
  then show ?thesis using assms(1,3) out(2) unfolding replica_ok_def synced_def bases_ok_def by metis
qed

lemma write_checked_tree:
  assumes spec: "spec_ok t" and rows: "rows_ok t n" and key: "key_typed t key" and e: "t_entry t key n = (p, data)"
    and specs: "specs_ok known" "t \<in> set known" and tree: "tree_ok known s" "\<And>s. tree_ok known s \<Longrightarrow> tree_ok known (e_between env s)"
  shows "tree_ok known (snd (write_checked env p data base s))"
proof -
  let ?s = "snd (write_checked env p data base s)"
  obtain s1 where s1: "tree_ok known s1" "overwrites p data base s1 ?s"
    using write_checked_overwrites [of s env p data base] tree by blast
  have p: "p = t_path t key" "data = here n t p" using t_entry_here [OF rows key] e by auto
  have "entry_ok u q d" if q: "u \<in> set known" "under u q" "cfs_tree ?s q = Some (d, v)" for u q d v
  proof (cases "cfs_tree ?s q = cfs_tree s1 q")
    case True
    then show ?thesis using s1(1) q unfolding tree_ok_def by metis
  next
    case False
    then have qp: "q = p" "data_at ?s p = data" using s1(2) unfolding overwrites_def by metis+
    then have "here n t p = Some d" using q(3) p by simp
    then have "entry_ok t p d" using entry_of_row [OF spec rows] by blast
    moreover have "u = t" using under_same [OF specs(1) q(1) specs(2) q(2)] under_path [OF spec key] qp p by simp
    ultimately show ?thesis using qp by simp
  qed
  then show ?thesis unfolding tree_ok_def by blast
qed

lemma keeps_tree:
  assumes "specs_ok known" "\<And>i s. tree_ok known s \<Longrightarrow> tree_ok known (e_others (env i) s)" "\<And>i s. tree_ok known s \<Longrightarrow> tree_ok known (e_between (env i) s)"
  shows "keeps known env (tree_ok known)"
proof -
  have "spec_ok t" if "t \<in> set known" for t using assms(1) that by (simp add: specs_ok_def list_all_iff)
  then have "tree_ok known (snd (write_checked (env i) p data base s))"
    if "t \<in> set known" "rows_ok t n" "key_typed t key" "t_entry t key n = (p, data)" "tree_ok known s" for i s t key n p data base
    using write_checked_tree [of t n key p data known s "env i"] that assms(1,3) by simp
  then show ?thesis unfolding keeps_def by (intro conjI allI impI) (use assms(2) in blast)+
qed

lemma refresh_keeps:
  assumes specs: "specs_ok known" and ok: "replica_ok known n s" and ls: "\<forall>t \<in> set known. lists ls t s"
  shows "replica_ok known (refresh_bases (reads_of ls known s) n) s"
proof -
  let ?n = "refresh_bases (reads_of ls known s) n"
  have fields: "n_rows ?n = n_rows n" "n_outbox ?n = n_outbox n" "n_seq ?n = n_seq n" by (simp_all add: refresh_bases_def)
  have mem: "\<exists>t \<in> set known. \<exists>d. under t p \<and> cfs_tree s p = Some (d, v) \<and> (here n t p = Some d \<or> map_of (n_base n) p = Some v)"
    if base: "map_of (n_base ?n) p = Some v" for p v
  proof -
    obtain t d where t: "t \<in> set known" "(p, d, v) \<in> set (ls t s)" "map_of (t_all t n) p = Some d \<or> map_of (n_base n) p = Some v"
      using map_of_SomeD [OF base] by (auto simp: refresh_bases_def reads_of_def Let_def)
    have l: "dict_ok (ls t s)" "map_of (ls t s) = (\<lambda>p. if under t p then cfs_tree s p else None)" using ls t(1) by (auto simp: lists_def)
    have "map_of (ls t s) p = Some (d, v)" using map_of_is_SomeI [OF l(1) t(2)] .
    then have "under t p" "cfs_tree s p = Some (d, v)" using l(2) by (auto split: if_splits)
    then show ?thesis using t unfolding here_def by blast
  qed
  have here: "here ?n t p = here n t p" for t p using here_cong [of ?n t n p] fields by simp
  have "here n t p = Some d \<or> pending_at (n_outbox n) t p"
    if t: "t \<in> set known" "under t p" "cfs_tree s p = Some (d, v)" "map_of (n_base ?n) p = Some v" for t p d v
  proof -
    obtain u d' where u: "u \<in> set known" "under u p" "cfs_tree s p = Some (d', v)" "here n u p = Some d' \<or> map_of (n_base n) p = Some v"
      using mem [OF t(4)] by blast
    then have "u = t" "d' = d" using under_same [OF specs u(1) t(1)] t by auto
    then show ?thesis using u ok t unfolding replica_ok_def synced_def by blast
  qed
  then have "synced known ?n s" unfolding synced_def here fields by blast
  moreover have "bases_ok ?n s" using mem ok unfolding bases_ok_def replica_ok_def cfs_ok_def by blast
  ultimately show ?thesis using ok fields by (simp add: replica_ok_def node_ok_def outbox_ok_def rows_ok_def)
qed

end
