(* ===== verification/Replica.thy ===== *)
theory Replica
  imports Inbound_Props
begin

text \<open>
  The replicated configuration as a whole: the members of a cluster, each with its SQLite, its outbox and its bases, over
  one store. \<open>cluster_step\<close> is what a member can do next; the properties are those of the two directions together
  (\<^verbatim>\<open>app/repositories/cfs/shadow.py\<close>, \<^verbatim>\<open>inbound.py\<close>).
\<close>

section \<open>The members of a cluster\<close>

record cluster =
  c_nodes :: "string \<Rightarrow> node"
  c_store :: cfs

definition set_node :: "string \<Rightarrow> node \<Rightarrow> cfs \<Rightarrow> cluster \<Rightarrow> cluster" where
  "set_node a n s c = c\<lparr>c_nodes := (c_nodes c)(a := n), c_store := s\<rparr>"

definition calls_ok :: "table_spec list \<Rightarrow> drain_env \<Rightarrow> bool" where
  "calls_ok known env \<longleftrightarrow> drain_env_ok known env \<and>
     (\<forall>i s. tree_ok known s \<longrightarrow> tree_ok known (e_others (d_calls env i) s) \<and> tree_ok known (e_between (d_calls env i) s))"

text \<open>One member writes a row, copies its outbox out, applies the tree as it was when it read it, or reads its bases
  again; or something else changes the store.\<close>

inductive cluster_step :: "table_spec list \<Rightarrow> cluster \<Rightarrow> cluster \<Rightarrow> bool" for known where
  writes: "op_ok known op \<Longrightarrow> cluster_step known c (set_node a (run_op op (c_nodes c a)) (c_store c) c)"
| copies_out: "n_enabled (c_nodes c a) \<Longrightarrow> calls_ok known env \<Longrightarrow> drain known env (c_nodes c a) (c_store c) = (n', s', acc)
    \<Longrightarrow> cluster_step known c (set_node a n' s' c)"
| applies: "\<forall>t \<in> set known. lists ls t s \<Longrightarrow> cfs_ok s \<Longrightarrow> tree_ok known s \<Longrightarrow> moves s (c_store c)
    \<Longrightarrow> inbound_apply refuses now cluster (cfs_version s) (reads_of ls known s) version' (c_nodes c a) = (answer, n')
    \<Longrightarrow> cluster_step known c (set_node a n' (c_store c) c)"
| refreshes: "\<forall>t \<in> set known. lists ls t (c_store c)
    \<Longrightarrow> cluster_step known c (set_node a (refresh_bases (reads_of ls known (c_store c)) (c_nodes c a)) (c_store c) c)"
| elsewhere: "moves (c_store c) s' \<Longrightarrow> tree_ok known s' \<Longrightarrow> cluster_step known c (c\<lparr>c_store := s'\<rparr>)"

definition cluster_ok :: "table_spec list \<Rightarrow> cluster \<Rightarrow> bool" where
  "cluster_ok known c \<longleftrightarrow> tree_ok known (c_store c) \<and> (\<forall>a. replica_ok known (c_nodes c a) (c_store c))"

lemma cluster_ok_set_node:
  assumes "cluster_ok known c" "replica_ok known n s" "moves (c_store c) s" "tree_ok known s"
  shows "cluster_ok known (set_node a n s c)"
  using assms(2,4) replica_moves [OF _ assms(3)] assms(1) by (simp add: cluster_ok_def set_node_def)

lemma idle_apply:
  assumes "inbound_apply refuses now cluster version reads version' n = (answer, n')" "\<And>k. answer \<noteq> Applied k"
  shows "\<exists>x. n' = n\<lparr>n_problem := x\<rparr>"
  using assms by (auto simp: inbound_apply_def Let_def split: if_splits sum.splits apply_error.splits intro: exI [of _ "n_problem n"])

lemma replica_problem: "replica_ok known (n\<lparr>n_problem := x\<rparr>) s = replica_ok known n s"
proof -
  have "here (n\<lparr>n_problem := x\<rparr>) t p = here n t p" for t p by (rule here_cong) simp
  then show ?thesis by (simp add: replica_ok_def node_ok_def outbox_ok_def rows_ok_def synced_def bases_ok_def)
qed

lemma cluster_step_ok:
  assumes specs: "specs_ok known"
  shows "cluster_step known c c' \<Longrightarrow> cluster_ok known c \<Longrightarrow> cluster_ok known c'"
proof (induction rule: cluster_step.induct)
  case (writes op c a)
  then have r: "replica_ok known (c_nodes c a) (c_store c)" "tree_ok known (c_store c)" by (simp_all add: cluster_ok_def)
  then have "node_ok known (c_nodes c a)" by (simp add: replica_ok_def)
  then show ?case using writes r run_op_grows [OF specs] replica_grows cluster_ok_set_node moves_refl by metis
next
  case (copies_out c a env n' s' acc)
  then have r: "replica_ok known (c_nodes c a) (c_store c)" "tree_ok known (c_store c)" by (simp_all add: cluster_ok_def)
  have keep: "keeps known (d_calls env) (tree_ok known)" using copies_out(2) by (intro keeps_tree [OF specs]) (auto simp: calls_ok_def)
  have "drain_env_ok known env" using copies_out(2) by (simp add: calls_ok_def)
  then have "replica_ok known n' s' \<and> moves (c_store c) s' \<and> (tree_ok known (c_store c) \<longrightarrow> tree_ok known s') \<and> n_enabled n'"
    using drain_keeps_replica [OF specs r(1) copies_out(1) _ keep copies_out(3)] by blast
  then show ?case using cluster_ok_set_node [OF copies_out(4)] r(2) by blast
next
  case (applies ls s c refuses now cluster version' a answer n')
  then have r: "replica_ok known (c_nodes c a) (c_store c)" "tree_ok known (c_store c)" by (simp_all add: cluster_ok_def)
  have rows: "all_rows_ok known (c_nodes c a)" using r(1) by (simp add: replica_ok_def node_ok_def list_all_iff)
  have "replica_ok known n' (c_store c)"
  proof (cases answer)
    case (Applied k)
    then have "replica_ok known n' s" using apply_facts(3) [OF specs rows applies(1,3)] applies(5,2) by simp
    then show ?thesis using replica_moves applies(4) by blast
  qed (use idle_apply [OF applies(5)] r(1) replica_problem in fastforce)+
  then show ?case using cluster_ok_set_node applies(6) r(2) moves_refl by metis
next
  case (refreshes ls c a)
  then have r: "replica_ok known (c_nodes c a) (c_store c)" "tree_ok known (c_store c)" by (simp_all add: cluster_ok_def)
  then show ?case using refresh_keeps [OF specs r(1) refreshes(1)] cluster_ok_set_node [OF refreshes(2)] by simp
next
  case (elsewhere c s')
  then show ?case using replica_moves [OF _ elsewhere(1)] by (simp add: cluster_ok_def)
qed

section \<open>An example\<close>

definition groups_table :: table_spec where
  "groups_table = \<lparr>t_name = ''groups'', t_priv = False, t_pk = [''id''], t_pk_int = [True], t_columns = [''id'', ''name''],
     t_local_rows = [], t_fill = []\<rparr>"

definition settings_table :: table_spec where
  "settings_table = \<lparr>t_name = ''app_settings'', t_priv = False, t_pk = [''key''], t_pk_int = [False], t_columns = [''key'', ''value''],
     t_local_rows = [(''key'', [''cfs_shadow'', ''node_name''])], t_fill = []\<rparr>"

definition new_node :: node where
  "new_node = \<lparr>n_enabled = True, n_rows = (\<lambda>_. []), n_outbox = [], n_seq = 0, n_base = [], n_applied = 0, n_again = False, n_problem = None,
     n_awaited = [], n_outcomes = [], n_copies = 0, n_failures = 0, n_conflicts = 0, n_audit = []\<rparr>"

definition new_store :: cfs where
  "new_store = \<lparr>cfs_tree = (\<lambda>_. None), cfs_version = 0, cfs_locks = (\<lambda>_. None)\<rparr>"

definition group_row :: "int \<Rightarrow> string \<Rightarrow> row" where
  "group_row i name = [(''id'', Num i), (''name'', Text name)]"

lemma example_specs: "specs_ok [groups_table, settings_table]"
  by (simp add: specs_ok_def spec_ok_def groups_table_def settings_table_def)

lemma example_cluster: "cluster_ok [groups_table, settings_table] \<lparr>c_nodes = (\<lambda>_. new_node), c_store = new_store\<rparr>"
  by (simp add: cluster_ok_def tree_ok_def new_store_def replica_ok_def node_ok_def outbox_ok_def rows_ok_def cfs_ok_def bases_ok_def
      synced_def new_node_def)

definition calm :: drain_env where
  "calm = \<lparr>d_status = Inr True, d_behind = False, d_calls = (\<lambda>_. quiet)\<rparr>"

definition G7 :: string where "G7 = ''/db/groups/7''"

definition store_of :: "string \<Rightarrow> int \<Rightarrow> cfs" where
  "store_of name v = \<lparr>cfs_tree = [G7 \<mapsto> (t_data groups_table (group_row 7 name), v)], cfs_version = v, cfs_locks = (\<lambda>_. None)\<rparr>"

definition node_of :: "string \<Rightarrow> int \<Rightarrow> node" where
  "node_of name v = new_node\<lparr>n_rows := (\<lambda>_. [])(''groups'' := [group_row 7 name]), n_base := [(G7, v)], n_applied := v\<rparr>"

definition list_groups :: lister where
  "list_groups t s = (if t_name t = ''groups'' then (case cfs_tree s G7 of Some x \<Rightarrow> [(G7, x)] | None \<Rightarrow> []) else [])"

definition renamed_here :: node where
  "renamed_here = run_op (Update groups_table [Num 7] [(''name'', Text ''net'')]) (node_of ''ops'' 1)"

lemma groups_specs: "specs_ok [groups_table]"
  by (simp add: specs_ok_def spec_ok_def groups_table_def)

lemma node_of_rows: "rows_ok groups_table (node_of name v)"
  by (simp add: rows_ok_def node_of_def groups_table_def group_row_def key_typed_def t_key_def col_def)

lemma G7_path: "t_path groups_table (t_key groups_table (group_row 7 name)) = G7"
  by (simp add: t_path_def path_def t_key_def col_def group_row_def groups_table_def t_prefix_def str_cell_def str_of_int_def G7_def) code_simp

lemma G7_under: "under groups_table G7"
  by code_simp

lemma node_of_here: "here (node_of name v) groups_table G7 = Some (t_data groups_table (group_row 7 name))"
  unfolding here_eq [OF node_of_rows] using G7_path by (simp add: node_of_def groups_table_def t_local_def)

lemma store_of_tree: "tree_ok [groups_table] (store_of name v)"
proof -
  have "entry_ok groups_table G7 (t_data groups_table (group_row 7 name))"
    using entry_of_row [OF _ node_of_rows node_of_here] groups_specs by (simp add: specs_ok_def)
  then show ?thesis by (simp add: tree_ok_def store_of_def)
qed

lemma list_groups_lists: "lists list_groups groups_table (store_of name v)"
  using G7_under by (auto simp: lists_def list_groups_def store_of_def groups_table_def fun_eq_iff)

definition my_round :: confirm_round where
  "my_round = \<lparr>r_drains = [], r_mine = Some calm, r_late = False\<rparr>"

definition answers_lost :: drain_env where
  "answers_lost = \<lparr>d_status = Inr True, d_behind = False, d_calls = (\<lambda>_. quiet\<lparr>e_lost := True\<rparr>)\<rparr>"

definition THEME :: string where "THEME = ''/db/app_settings/theme''"

definition setting_row :: "string \<Rightarrow> row" where
  "setting_row v = [(''key'', Text ''theme''), (''value'', Text v)]"

definition theme_store :: cfs where
  "theme_store = \<lparr>cfs_tree = [THEME \<mapsto> (t_data settings_table (setting_row ''light''), 1)], cfs_version = 1, cfs_locks = (\<lambda>_. None)\<rparr>"

definition theme_reads :: reads where
  "theme_reads = [(settings_table, [(THEME, (t_data settings_table (setting_row ''light''), 1))])]"

definition theme_changed :: node where
  "theme_changed = run_op (Update settings_table [Text ''theme''] [(''value'', Text ''dark'')])
     (new_node\<lparr>n_rows := (\<lambda>_. [])(''app_settings'' := [setting_row ''light'']), n_base := [(THEME, 1)], n_applied := 1\<rparr>)"

section \<open>The first copy\<close>

lemma write_plain_touches:
  "env_ok env \<Longrightarrow> write_plain env p data s = (Inr v, s') \<Longrightarrow> data_at s' p = data \<and> (\<forall>q. q \<noteq> p \<longrightarrow> cfs_tree s' q = cfs_tree s q)"
  using write_plain_taken [of env p data s v s']
  by (cases data) (auto simp: write_plain_def answered_def cfs_put_Inr_iff cfs_delete_Inr_iff split: sum.splits if_splits)

lemma sync_jobs_effect:
  assumes env: "\<And>i. env_ok (env i)"
  shows "sync_jobs env i jobs s = (Inr u, s') \<Longrightarrow> distinct (map fst jobs)
    \<Longrightarrow> data_at s' q = (case map_of jobs q of Some x \<Rightarrow> x | None \<Rightarrow> data_at s q)"
proof (induction jobs arbitrary: i s)
  case (Cons j jobs)
  obtain p data where j: "j = (p, data)" by (cases j)
  obtain v s1 where w: "write_plain (env i) p data s = (Inr v, s1)" "sync_jobs env (Suc i) jobs s1 = (Inr u, s')"
    using Cons.prems(1) j by (auto split: prod.splits sum.splits)
  note t = write_plain_touches [OF env w(1)]
  have IH: "data_at s' q = (case map_of jobs q of Some x \<Rightarrow> x | None \<Rightarrow> data_at s1 q)" using Cons.IH [OF w(2)] Cons.prems(2) by simp
  have "map_of jobs p = None" using Cons.prems(2) j by (simp add: map_of_eq_None_iff)
  then show ?case using IH t j by (cases "q = p") (auto split: option.splits)
qed simp

lemma sync_plan_map:
  assumes "dict_ok expected" "dict_ok actual"
  shows "distinct (map fst (sync_plan expected actual))"
    "(case map_of (sync_plan expected actual) q of Some x \<Rightarrow> x | None \<Rightarrow> map_of actual q) = map_of expected q"
proof -
  let ?new = "filter (\<lambda>(p, d). map_of actual p \<noteq> Some d) expected" and ?gone = "filter (\<lambda>p. p \<notin> set (keys expected)) (keys actual)"
  have fsts: "map fst (sync_plan expected actual) = map fst ?new @ ?gone" by (auto simp: sync_plan_def o_def case_prod_unfold)
  have "set (map fst ?new) \<subseteq> set (keys expected)" by auto
  then have "set (map fst ?new) \<inter> set ?gone = {}" by auto
  then show d: "distinct (map fst (sync_plan expected actual))" unfolding fsts using assms by (simp add: distinct_map_filter)
  have in_new: "(q, Some e) \<in> set (sync_plan expected actual) \<longleftrightarrow> (q, e) \<in> set expected \<and> map_of actual q \<noteq> Some e" for e
    by (auto simp: sync_plan_def)
  have in_gone: "(q, None) \<in> set (sync_plan expected actual) \<longleftrightarrow> q \<in> set (keys actual) \<and> q \<notin> set (keys expected)"
    by (auto simp: sync_plan_def)
  show "(case map_of (sync_plan expected actual) q of Some x \<Rightarrow> x | None \<Rightarrow> map_of actual q) = map_of expected q"
  proof (cases "map_of (sync_plan expected actual) q")
    case (Some x)
    then have m: "(q, x) \<in> set (sync_plan expected actual)" by (rule map_of_SomeD)
    then show ?thesis
    proof (cases x)
      case None
      then have "map_of expected q = None" using m in_gone by (simp only: map_of_eq_None_iff set_map) simp
      then show ?thesis using Some None by simp
    next
      case (Some e)
      then have "map_of expected q = Some e" using m in_new assms(1) map_of_is_SomeI by metis
      then show ?thesis using \<open>map_of (sync_plan expected actual) q = Some x\<close> Some by simp
    qed
  next
    case None
    then have no: "(q, x) \<notin> set (sync_plan expected actual)" for x using d map_of_is_SomeI by fastforce
    show ?thesis
    proof (cases "map_of expected q")
      case (Some e)
      then have "map_of actual q = Some e" using no in_new map_of_SomeD by metis
      then show ?thesis using None Some by simp
    next
      case e: None
      then have "q \<notin> set (keys expected)" by (simp add: map_of_eq_None_iff)
      then have "q \<notin> set (keys actual)" using no in_gone by blast
      then have "map_of actual q = None" by (simp add: map_of_eq_None_iff)
      then show ?thesis using None e by simp
    qed
  qed
qed

lemma here_under: "rows_ok t n \<Longrightarrow> spec_ok t \<Longrightarrow> here n t p = Some d \<Longrightarrow> under t p"
  using here_eq under_path by (fastforce simp: rows_ok_def list_all_iff)

lemma sync_effect:
  assumes env: "\<And>i. env_ok (env i)" and ls: "lists ls t s" and t: "spec_ok t" "rows_ok t n" and run: "sync ls env t n s = (Inr u, s')"
  shows "under t p \<Longrightarrow> data_at s' p = here n t p" "\<not> under t p \<Longrightarrow> data_at s' p = data_at s p"
proof -
  let ?actual = "map (\<lambda>(p, (d, _)). (p, d)) (ls t s)" and ?plan = "sync_plan (t_all t n) (map (\<lambda>(p, (d, _)). (p, d)) (ls t s))"
  have "map_of (map (\<lambda>(p, (d, _)). (p, d)) xs) q = map_option fst (map_of xs q)" for q and xs :: "(string, string \<times> int) dict"
    by (induction xs) auto
  then have actual: "map_of ?actual q = (if under t q then data_at s q else None)" for q
    using ls unfolding lists_def by (metis (mono_tags, lifting) option.map(1))
  have ok: "dict_ok ?actual" "dict_ok (t_all t n)" using ls t_all_facts(1) by (auto simp: lists_def o_def case_prod_unfold)
  note plan = sync_plan_map [OF ok(2,1)]
  have eff: "data_at s' p = (case map_of ?plan p of Some x \<Rightarrow> x | None \<Rightarrow> data_at s p)"
    using sync_jobs_effect [OF env _ plan(1)] run by (simp add: sync_def)
  show "data_at s' p = here n t p" if "under t p"
    using eff plan(2) [of p] actual [of p] that by (simp add: here_def split: option.splits)
  show "data_at s' p = data_at s p" if "\<not> under t p"
  proof -
    have "here n t p = None" using that here_under [OF t(2,1)] by (metis not_None_eq)
    then have "p \<notin> set (keys (t_all t n))" by (simp add: here_def map_of_eq_None_iff)
    moreover have "p \<notin> set (keys ?actual)" using actual [of p] that by (simp add: map_of_eq_None_iff image_image)
    ultimately have "map_of ?plan p = None" by (force simp: map_of_eq_None_iff sync_plan_def)
    then show ?thesis using eff by simp
  qed
qed

text \<open>Each table is listed as it is when its turn comes.\<close>

fun seed_lists :: "lister \<Rightarrow> (nat \<Rightarrow> nat \<Rightarrow> call_env) \<Rightarrow> nat \<Rightarrow> table_spec list \<Rightarrow> node \<Rightarrow> cfs \<Rightarrow> bool" where
  "seed_lists ls env i [] n s \<longleftrightarrow> True"
| "seed_lists ls env i (t # ts) n s \<longleftrightarrow> lists ls t s \<and> (case sync ls (env i) t n s of
     (Inl e, s1) \<Rightarrow> True | (Inr _, s1) \<Rightarrow> seed_lists ls env (Suc i) ts n s1)"

lemma seed_effect:
  assumes env: "\<And>i j. env_ok (env i j)" and specs: "specs_ok known" and rows: "all_rows_ok known n"
  shows "set ts \<subseteq> set known \<Longrightarrow> distinct ts \<Longrightarrow> seed_lists ls env i ts n s \<Longrightarrow> seed_tables ls env i ts n s = (Inr u, s')
    \<Longrightarrow> (\<forall>t \<in> set ts. \<forall>p. under t p \<longrightarrow> data_at s' p = here n t p) \<and> (\<forall>p. (\<forall>t \<in> set ts. \<not> under t p) \<longrightarrow> data_at s' p = data_at s p)"
proof (induction ts arbitrary: i s)
  case (Cons t ts)
  have ok: "spec_ok t" "rows_ok t n" "t \<in> set known" using Cons.prems(1) specs rows by (auto simp: specs_ok_def list_all_iff)
  obtain s1 v where s1: "sync ls (env i) t n s = (Inr v, s1)" "seed_tables ls env (Suc i) ts n s1 = (Inr u, s')"
    using Cons.prems(4) by (auto split: prod.splits sum.splits)
  have l: "lists ls t s" "seed_lists ls env (Suc i) ts n s1" using Cons.prems(3) s1(1) by auto
  note one = sync_effect [OF env l(1) ok(1,2) s1(1)]
  have IH: "\<forall>t \<in> set ts. \<forall>p. under t p \<longrightarrow> data_at s' p = here n t p" "\<forall>p. (\<forall>t \<in> set ts. \<not> under t p) \<longrightarrow> data_at s' p = data_at s1 p"
    using Cons.IH [OF _ _ l(2) s1(2)] Cons.prems(1,2) by auto
  have apart: "\<not> under u p" if "under t p" "u \<in> set ts" for u p
    using under_same [OF specs ok(3), of u p] that Cons.prems(1,2) by auto
  have "data_at s' p = here n t p" if "under t p" for p using IH(2) apart [OF that] one(1) [OF that] by simp
  then show ?case using IH one(2) by auto
qed simp

section \<open>Properties\<close>



text \<open>C5: A change of a node goes out only over what the node last saw: a checked write changes at most its own entry, only to
  the row as the node now holds it, and only while the entry is at the version the node recorded (or absent, when it
  recorded none). What it calls taken is what the entry then holds, and the version it records is that entry's; what it
  drops is not in the tree, which holds another member's value that the node has not seen.\<close>

theorem change_replaces_only_what_was_seen:
  assumes "env_ok env" and "write_checked env p data base s = (res, s')"
  shows "(\<exists>s1 \<in> {s, e_between env s, e_between env (e_between env s)}. overwrites p data base s1 s')
    \<and> (\<forall>v. res = Inr v \<longrightarrow> data_at s' p = data \<and> version_at s' p = v)
    \<and> (res = Inl Dropped \<longrightarrow> data_at s' p \<noteq> data \<and> (\<forall>b. base = Some b \<and> b \<le> cfs_version s \<longrightarrow> version_at s' p \<noteq> Some b))"
proof (intro conjI allI impI)
  show "\<exists>s1 \<in> {s, e_between env s, e_between env (e_between env s)}. overwrites p data base s1 s'"
    using write_checked_overwrites [of s env p data base] assms(2) by simp
  show "data_at s' p = data" "version_at s' p = v" if "res = Inr v" for v using write_checked_taken [OF assms(1)] assms(2) that by blast+
  show "data_at s' p \<noteq> data" if "res = Inl Dropped" using write_checked_dropped(1) [OF assms(1)] assms(2) that by blast
  show "version_at s' p \<noteq> Some b" if "res = Inl Dropped" "base = Some b \<and> b \<le> cfs_version s" for b
    using write_checked_dropped(2) [OF assms(1)] assms(2) that by blast
qed

theorem change_replaces_only_what_was_seen_witness:
  "write_checked quiet G7 (Some ''net'') (Some 1) (store_of ''dev'' 2) = (Inl Dropped, store_of ''dev'' 2)
    \<and> data_at (store_of ''dev'' 2) G7 \<noteq> Some ''net'' \<and> version_at (store_of ''dev'' 2) G7 \<noteq> Some 1"
proof -
  have "t_data groups_table (group_row 7 ''dev'') \<noteq> ''net''" by code_simp
  then have w: "write_checked quiet G7 (Some ''net'') (Some 1) (store_of ''dev'' 2) = (Inl Dropped, store_of ''dev'' 2)"
    by (simp add: write_checked_def quiet_def store_of_def cfs_put_def check_expected_def refused_def read_again_def)
  show ?thesis using change_replaces_only_what_was_seen [OF env_ok_quiet w] w by (simp add: store_of_def)
qed

text \<open>C7: An apply that goes through leaves the node with exactly the tree: under every table's prefix, the rows it holds are the
  tree's entries, no more and no fewer, each at the version the tree has. So two nodes that applied the same tree hold the
  same configuration, whatever each held before.\<close>

theorem applied_nodes_agree:
  assumes "specs_ok known" and "\<forall>t \<in> set known. lists ls t s" and "tree_ok known s"
    and "all_rows_ok known n" and "inbound_apply ref now cluster version (reads_of ls known s) version' n = (Applied k, n')"
    and "all_rows_ok known m" and "inbound_apply ref2 now2 cluster2 version2 (reads_of ls known s) version2' m = (Applied j, m')"
    and "t \<in> set known" and "under t p"
  shows "here n' t p = data_at s p \<and> here m' t p = here n' t p \<and> map_of (n_base n') p = version_at s p \<and> map_of (n_base m') p = version_at s p"
  using apply_facts(1,2) [OF assms(1,4,2,3,5) assms(8,9)] apply_facts(1,2) [OF assms(1,6,2,3,7) assms(8,9)] by simp

theorem applied_nodes_agree_witness:
  "\<exists>n' m'. inbound_apply (\<lambda>_ _. False) ''now'' True 2 (reads_of list_groups [groups_table] (store_of ''dev'' 2)) 2 (node_of ''ops'' 1) = (Applied 1, n')
    \<and> inbound_apply (\<lambda>_ _. False) ''now'' True 2 (reads_of list_groups [groups_table] (store_of ''dev'' 2)) 2 new_node = (Applied 1, m')
    \<and> here n' groups_table G7 = Some (t_data groups_table (group_row 7 ''dev'')) \<and> here m' groups_table G7 = here n' groups_table G7"
proof -
  let ?apply = "inbound_apply (\<lambda>_ _. False) ''now'' True 2 (reads_of list_groups [groups_table] (store_of ''dev'' 2)) 2"
  have "fst (?apply (node_of ''ops'' 1)) = Applied 1" "fst (?apply new_node) = Applied 1" by code_simp+
  then have a: "?apply (node_of ''ops'' 1) = (Applied 1, snd (?apply (node_of ''ops'' 1)))" "?apply new_node = (Applied 1, snd (?apply new_node))"
    by (metis prod.collapse)+
  have rows: "all_rows_ok [groups_table] (node_of ''ops'' 1)" "all_rows_ok [groups_table] new_node"
    using node_of_rows by (simp_all add: rows_ok_def new_node_def)
  have ls: "\<forall>t \<in> set [groups_table]. lists list_groups t (store_of ''dev'' 2)" using list_groups_lists by simp
  show ?thesis
    using applied_nodes_agree [OF groups_specs ls store_of_tree rows(1) a(1) rows(2) a(2), of groups_table G7] G7_under a by (auto simp: store_of_def)
qed

text \<open>An apply never touches this node's rows, outbox or bases unless replication is on, the daemon is in a cluster, its
  version is no older than the one last applied here and did not move while it was read, the tree is not empty while this
  node has rows, this node's own changes are all out, and SQLite takes every change; otherwise it leaves them as they
  were. A version that is older or an empty tree is the problem the report names.\<close>

theorem apply_holds_back:
  assumes "inbound_apply ref now cluster version reads version' n = (answer, n')"
  shows "((\<exists>k. answer = Applied k) \<and> n_enabled n \<and> cluster \<and> n_applied n \<le> version \<and> version' = version \<and> n_outbox n = []
        \<and> (list_ex (\<lambda>(t, remote). remote \<noteq> []) reads \<or> list_all (\<lambda>(t, _). t_all t n = []) reads)
        \<and> (\<exists>n1. run_changes ref now (all_changes reads n) n = Inr n1))
     \<or> (n_rows n' = n_rows n \<and> n_outbox n' = n_outbox n \<and> n_base n' = n_base n \<and> n_applied n' = n_applied n)"
proof (cases "\<exists>k. answer = Applied k")
  case True
  then show ?thesis
    using assms by (auto simp: inbound_apply_def Let_def not_less list_ex_iff list_all_iff split: if_splits sum.splits apply_error.splits)
next
  case False
  then obtain x where "n' = n\<lparr>n_problem := x\<rparr>" using idle_apply [OF assms] by blast
  then show ?thesis by simp
qed

theorem apply_holds_back_witness:
  "inbound_apply (\<lambda>_ _. False) ''now'' True 1 [] 1 (node_of ''ops'' 2) = (Idle, (node_of ''ops'' 2)\<lparr>n_problem := Some (Older 1 2)\<rparr>)
    \<and> n_rows ((node_of ''ops'' 2)\<lparr>n_problem := Some (Older 1 2)\<rparr>) = n_rows (node_of ''ops'' 2)"
proof -
  have a: "inbound_apply (\<lambda>_ _. False) ''now'' True 1 [] 1 (node_of ''ops'' 2) = (Idle, (node_of ''ops'' 2)\<lparr>n_problem := Some (Older 1 2)\<rparr>)"
    by (simp add: inbound_apply_def node_of_def new_node_def)
  show ?thesis using apply_holds_back [OF a] a by simp
qed



text \<open>The first copy (seed) makes the tree this node's configuration: after it, under the prefix of every table, the tree holds
  exactly the rows this node has, and what is outside the tables (the cluster's own files, the locks) is as it was.\<close>

theorem seed_makes_the_tree_its_own:
  assumes "\<And>i j. env_ok (env i j)" and "specs_ok known" and "all_rows_ok known n" and "seed_lists ls env 0 known n s"
    and "seed_tables ls env 0 known n s = (Inr (), s')"
  shows "(\<forall>t \<in> set known. \<forall>p. under t p \<longrightarrow> data_at s' p = here n t p) \<and> (\<forall>p. (\<forall>t \<in> set known. \<not> under t p) \<longrightarrow> data_at s' p = data_at s p)"
proof -
  have "distinct known" using assms(2) by (simp add: specs_ok_def distinct_map)
  then show ?thesis using seed_effect [OF assms(1,2,3) _ _ assms(4,5)] by blast
qed

theorem seed_makes_the_tree_its_own_witness:
  "\<exists>s'. seed_tables list_groups (\<lambda>_ _. quiet) 0 [groups_table] (node_of ''ops'' 1) (store_of ''dev'' 2) = (Inr (), s')
    \<and> data_at s' G7 = Some (t_data groups_table (group_row 7 ''ops''))"
proof -
  let ?r = "seed_tables list_groups (\<lambda>_ _. quiet) 0 [groups_table] (node_of ''ops'' 1) (store_of ''dev'' 2)"
  have "fst ?r = Inr ()" by code_simp
  then have r: "?r = (Inr (), snd ?r)" by (metis prod.collapse)
  have "seed_lists list_groups (\<lambda>_ _. quiet) 0 [groups_table] (node_of ''ops'' 1) (store_of ''dev'' 2)"
    using list_groups_lists by (simp split: prod.splits sum.splits)
  then have "data_at (snd ?r) G7 = here (node_of ''ops'' 1) groups_table G7"
    using seed_makes_the_tree_its_own [OF env_ok_quiet groups_specs _ _ r] node_of_rows G7_under by simp
  then show ?thesis using r node_of_here by metis
qed

text \<open>A change the copy loop dropped before the request began to wait is confirmed all the same: the ids a request waits for are
  known to the drains only from then on, so what became of an entry handled earlier is not kept. Here a group renamed on
  this node, while another member had renamed it, is dropped by the copy loop; the request then finds its entries gone and
  none recorded as dropped, and answers success, with the other member's name in the tree.\<close>

theorem drop_before_the_wait_is_confirmed:
  "n_audit (fst (drain [groups_table] calm renamed_here (store_of ''dev'' 2))) = [(G7, True)]
    \<and> map_option fst (confirm_here [groups_table] (\<lambda>n s. n) [1, 2] [my_round]
         (fst (drain [groups_table] calm renamed_here (store_of ''dev'' 2))) (store_of ''dev'' 2)) = Some Confirmed
    \<and> data_at (fst (snd (drain [groups_table] calm renamed_here (store_of ''dev'' 2)))) G7 = Some (t_data groups_table (group_row 7 ''dev''))"
  by (intro conjI) code_simp+

text \<open>A node drops its own later change when the answer to the first was lost: the tree took the first (a member left, or the
  daemon was slow, so no answer came), the node's base stays behind, the row is changed again before the copy is retried,
  and the retry then finds in the tree a value that is neither the base nor the row: the node's own, taken for another
  member's. Nobody else wrote.\<close>

theorem own_change_taken_for_anothers:
  "let (n1, s1, _) = drain [groups_table] answers_lost renamed_here (store_of ''ops'' 1);
       n2 = run_op (Update groups_table [Num 7] [(''name'', Text ''sec'')]) n1;
       (n3, s3, acc) = drain [groups_table] calm n2 s1
   in data_at s1 G7 = Some (t_data groups_table (group_row 7 ''net'')) \<and> a_dropped acc = [G7] \<and> n_outbox n3 = [] \<and> n_again n3
      \<and> data_at s3 G7 = Some (t_data groups_table (group_row 7 ''net''))"
  by code_simp

text \<open>A setting changed while a seed runs is lost: the end of the seed empties the outbox of the settings table, though the
  version it records there leaves no trace in the outbox (that row stays local). The change is then neither waiting nor in
  the tree, and the next apply puts the old value back.\<close>

theorem setting_changed_during_a_seed_is_lost:
  "let n1 = mark_applied 1 theme_reads theme_changed;
       (answer, n2) = inbound_apply (\<lambda>_ _. False) ''now'' True 2 theme_reads 2 n1
   in n_outbox theme_changed \<noteq> [] \<and> n_outbox n1 = [] \<and> map_of (n_base n1) THEME = Some 1
      \<and> map_of (t_all settings_table n1) THEME = Some (t_data settings_table (setting_row ''dark'')) \<and> answer = Applied 1
      \<and> map_of (t_all settings_table n2) THEME = Some (t_data settings_table (setting_row ''light''))"
  by code_simp

text \<open>Two rows of the replicated tables never share a path, whatever their names hold: from a path, the table and the key are
  determined.\<close>

theorem rows_never_share_a_path:
  assumes "specs_ok known" and "t \<in> set known" and "u \<in> set known" and "key_typed t k" and "key_typed u j" and "t_path t k = t_path u j"
  shows "t = u \<and> k = j"
proof -
  have "spec_ok t" "spec_ok u" using assms(1-3) by (auto simp: specs_ok_def list_all_iff)
  then have "under t (t_path t k)" "under u (t_path t k)" using under_path assms(4-6) by metis+
  then have "t = u" using under_same assms(1-3) by blast
  then show ?thesis using t_path_inject assms(4-6) by blast
qed

theorem rows_never_share_a_path_witness:
  "t_path settings_table [Text ''a/b''] \<noteq> t_path settings_table [Text ''a_b'']"
proof
  assume eq: "t_path settings_table [Text ''a/b''] = t_path settings_table [Text ''a_b'']"
  have "key_typed settings_table [Text ''a/b'']" "key_typed settings_table [Text ''a_b'']" by (simp_all add: key_typed_def settings_table_def)
  then show False using rows_never_share_a_path [OF example_specs _ _ _ _ eq] by simp
qed

end
