(* ===== verification/Row_Ids.thy ===== *)
theory Row_Ids
  imports Cfs
begin

text \<open>
  The numbers of new rows in a cluster (\<^verbatim>\<open>app/repositories/cfs/ids.py\<close>): a replicated table is numbered by SQLite's
  AUTOINCREMENT, one more than the largest of its counter (\<open>sqlite_sequence\<close>) and the ids in the table, and a row's id is
  part of its path, so each insert first lifts that counter to one less than a fresh id of the daemon's cluster-wide counter
  plus the offset the cluster's first node wrote. \<open>id_sys\<close> is one numbered table on every node: the daemon's counter and
  tree, each process's cached offset, each node's AUTOINCREMENT counter and ids, and the ids handed out so far.

  Shown: once the offset is written and no process holds another, every new row gets exactly the id reserved for it, larger
  than every id any node ever had.
\<close>

section \<open>Reserving an id\<close>

definition OFFSET_PATH :: string where "OFFSET_PATH = ''/cluster/id-offset''"
definition ROUND :: int where "ROUND = 1000"
definition FIRST_ID :: int where "FIRST_ID = 100"

datatype id_error = No_answer | Bad_offset

text \<open>\<open>offset\<close>: the cached value, or the tree's, cached from then on; none there is zero. \<open>answers\<close>: the daemon
  answers.\<close>

definition offset :: "bool \<Rightarrow> cfs \<Rightarrow> int option \<Rightarrow> id_error + int" where
  "offset answers s cache = (case cache of
     Some v \<Rightarrow> Inr v
   | None \<Rightarrow> if \<not> answers then Inl No_answer
       else case cfs_get OFFSET_PATH s of
         Inl _ \<Rightarrow> Inr 0
       | Inr (d, _) \<Rightarrow> some_or Bad_offset (int_of_text d))"

text \<open>\<open>reserve\<close>: an id of the daemon's counter plus the offset; zero outside a cluster. The counter moves on even when the
  offset cannot be read. Returned: the id, the cache, the counter.\<close>

definition reserve :: "bool \<Rightarrow> bool \<Rightarrow> bool \<Rightarrow> cfs \<Rightarrow> int option \<Rightarrow> int \<Rightarrow> (id_error + int) \<times> int option \<times> int" where
  "reserve in_cluster counts answers s cache next_id =
     (if \<not> in_cluster then (Inr 0, cache, next_id)
      else if \<not> counts then (Inl No_answer, cache, next_id)
      else case offset answers s cache of
        Inl e \<Rightarrow> (Inl e, cache, next_id + 1)
      | Inr v \<Rightarrow> (Inr (next_id + v), Some v, next_id + 1))"

text \<open>\<open>set_offset\<close>: \<open>tops\<close> are the largest ids of the numbered tables of the node that seeds the cluster. An offset already
  there holds.\<close>

definition offset_for :: "int list \<Rightarrow> int" where
  "offset_for tops = (foldl max 0 tops div ROUND + 1) * ROUND"

definition set_offset :: "cfs_error option \<Rightarrow> int list \<Rightarrow> cfs \<Rightarrow> cfs_error + cfs" where
  "set_offset trouble tops s =
     (case cfs_put trouble OFFSET_PATH (str_of_nat (nat (offset_for tops))) Must_not_exist s of
        Inr (v, s') \<Rightarrow> Inr s'
      | Inl Conflict \<Rightarrow> Inr s
      | Inl e \<Rightarrow> Inl e)"

section \<open>Numbering a row\<close>

text \<open>\<open>Connection._before\<close> lifts the table's counter; a row without an id then gets one more than the largest of the counter
  and the ids there, and the counter follows. A row that carries its id (from another node) lifts the counter to it.\<close>

definition lift_sequence :: "int \<Rightarrow> int \<Rightarrow> int" where
  "lift_sequence fresh sq = max sq (fresh - 1)"

definition autoincrement :: "int \<Rightarrow> int list \<Rightarrow> int" where
  "autoincrement sq row_ids = foldl max sq row_ids + 1"

record id_sys =
  i_next :: int
  i_store :: cfs
  i_cache :: "node_name \<Rightarrow> int option"
  i_seq :: "node_name \<Rightarrow> int"
  i_ids :: "node_name \<Rightarrow> int list"
  i_given :: "int list"

definition insert_row :: "node_name \<Rightarrow> bool \<Rightarrow> bool \<Rightarrow> id_sys \<Rightarrow> (id_error + int) \<times> id_sys" where
  "insert_row a counts answers w =
     (case reserve True counts answers (i_store w) (i_cache w a) (i_next w) of
        (Inl e, cache, next_id) \<Rightarrow> (Inl e, w\<lparr>i_cache := (i_cache w)(a := cache), i_next := next_id\<rparr>)
      | (Inr fresh, cache, next_id) \<Rightarrow>
         (let sq = lift_sequence fresh (i_seq w a); new = autoincrement sq (i_ids w a)
          in (Inr new, w\<lparr>i_cache := (i_cache w)(a := cache), i_next := next_id, i_seq := (i_seq w)(a := new),
               i_ids := (i_ids w)(a := i_ids w a @ [new]), i_given := i_given w @ [new]\<rparr>)))"

definition take_row :: "node_name \<Rightarrow> int \<Rightarrow> id_sys \<Rightarrow> id_sys" where
  "take_row a i w = w\<lparr>i_seq := (i_seq w)(a := max (i_seq w a) i), i_ids := (i_ids w)(a := i_ids w a @ [i])\<rparr>"

definition drop_row :: "node_name \<Rightarrow> int \<Rightarrow> id_sys \<Rightarrow> id_sys" where
  "drop_row a i w = w\<lparr>i_ids := (i_ids w)(a := filter (\<lambda>j. j \<noteq> i) (i_ids w a))\<rparr>"

text \<open>A process that starts again has no cached offset.\<close>

definition forget_offset :: "node_name \<Rightarrow> id_sys \<Rightarrow> id_sys" where
  "forget_offset a w = w\<lparr>i_cache := (i_cache w)(a := None)\<rparr>"

inductive id_step :: "id_sys \<Rightarrow> id_sys \<Rightarrow> bool" where
  inserts: "insert_row a counts answers w = (r, w') \<Longrightarrow> id_step w w'"
| receives: "i \<in> set (i_ids w b) \<Longrightarrow> id_step w (take_row a i w)"
| deletes: "id_step w (drop_row a i w)"
| restarts: "id_step w (forget_offset a w)"
| others_number: "0 \<le> k \<Longrightarrow> id_step w (w\<lparr>i_next := i_next w + k\<rparr>)"

section \<open>No number is given twice\<close>

definition below :: "int \<Rightarrow> id_sys \<Rightarrow> bool" where
  "below b w \<longleftrightarrow> (\<forall>a. i_seq w a < b \<and> (\<forall>i \<in> set (i_ids w a). i < b)) \<and> (\<forall>i \<in> set (i_given w). i < b)"

definition ids_ok :: "int \<Rightarrow> id_sys \<Rightarrow> bool" where
  "ids_ok off w \<longleftrightarrow> (\<exists>d v. cfs_tree (i_store w) OFFSET_PATH = Some (d, v) \<and> int_of_text d = Some off)
     \<and> (\<forall>a. i_cache w a = None \<or> i_cache w a = Some off)
     \<and> below (i_next w + off) w"

lemma below_mono: "below b w \<Longrightarrow> b \<le> b' \<Longrightarrow> below b' w"
  unfolding below_def by (meson order_less_le_trans)

lemma below_given:
  "below b w \<Longrightarrow> below (b + 1) (w\<lparr>i_cache := c, i_next := x, i_seq := (i_seq w)(a := b), i_ids := (i_ids w)(a := i_ids w a @ [b]), i_given := i_given w @ [b]\<rparr>)"
  using below_mono [of b w "b + 1"] by (auto simp: below_def)

lemma foldl_max: "foldl max m xs = Max (insert m (set xs))" for m :: int
proof (induction xs arbitrary: m)
  case (Cons x xs)
  have "Max (insert (max m x) (set xs)) = Max (insert m (insert x (set xs)))"
    by (cases "xs = []") (auto simp: max.assoc)
  then show ?case using Cons by simp
qed simp

lemma foldl_max_less: "foldl max m xs < b \<longleftrightarrow> m < b \<and> (\<forall>x \<in> set xs. x < b)" for m :: int
  by (induction xs arbitrary: m) auto

lemma foldl_max_ge: "m \<le> foldl max m xs" "x \<in> set xs \<Longrightarrow> x \<le> foldl max m xs" for m :: int
  by (simp_all add: foldl_max)

lemma autoincrement_lifted:
  assumes "sq < fresh" "\<forall>i \<in> set row_ids. i < fresh"
  shows "autoincrement (lift_sequence fresh sq) row_ids = fresh"
proof -
  have "lift_sequence fresh sq = fresh - 1" using assms(1) by (simp add: lift_sequence_def)
  moreover have "foldl max (fresh - 1) row_ids < fresh" using assms(2) by (simp add: foldl_max_less)
  moreover have "fresh - 1 \<le> foldl max (fresh - 1) row_ids" by (rule foldl_max_ge(1))
  ultimately show ?thesis by (simp add: autoincrement_def)
qed

lemma reserve_ok:
  assumes "ids_ok off w"
  obtains "reserve True counts answers (i_store w) (i_cache w a) (i_next w) = (Inl No_answer, i_cache w a, i_next w)"
    | "reserve True counts answers (i_store w) (i_cache w a) (i_next w) = (Inl No_answer, i_cache w a, i_next w + 1)"
    | "reserve True counts answers (i_store w) (i_cache w a) (i_next w) = (Inr (i_next w + off), Some off, i_next w + 1)"
proof -
  obtain d v where o: "cfs_tree (i_store w) OFFSET_PATH = Some (d, v)" "int_of_text d = Some off" "i_cache w a = None \<or> i_cache w a = Some off"
    using assms unfolding ids_ok_def by blast
  show thesis
  proof (cases "counts \<and> (answers \<or> i_cache w a \<noteq> None)")
    case True
    then have "offset answers (i_store w) (i_cache w a) = Inr off" using o by (auto simp: offset_def cfs_get_def)
    then show thesis using that(3) True by (simp add: reserve_def)
  next
    case False
    then show thesis using that(1,2) o by (cases counts) (auto simp: reserve_def offset_def)
  qed
qed

lemma insert_row_ok:
  assumes ok: "ids_ok off w" and run: "insert_row a counts answers w = (r, w')"
  shows "ids_ok off w'" "r = Inr new \<Longrightarrow> new = i_next w + off"
proof -
  have lt: "i_seq w a < i_next w + off" "\<forall>i \<in> set (i_ids w a). i < i_next w + off" using ok by (auto simp: ids_ok_def below_def)
  note auto_id = autoincrement_lifted [OF lt]
  have b: "below (i_next w + off) w" "below (i_next w + 1 + off) w" using ok below_mono [of "i_next w + off" w] by (auto simp: ids_ok_def)
  have same: "below x (w\<lparr>i_next := y\<rparr>) = below x w" for x y by (simp add: below_def)
  have given: "below (i_next w + 1 + off) (w\<lparr>i_cache := c, i_next := y, i_seq := (i_seq w)(a := i_next w + off),
      i_ids := (i_ids w)(a := i_ids w a @ [i_next w + off]), i_given := i_given w @ [i_next w + off]\<rparr>)" for c y
    using below_given [OF b(1), where c = c and x = y and a = a] by (simp add: algebra_simps)
  show "ids_ok off w'"
  proof (rule reserve_ok [OF ok, of counts answers a])
    assume "reserve True counts answers (i_store w) (i_cache w a) (i_next w) = (Inl No_answer, i_cache w a, i_next w)"
    then have "w' = w\<lparr>i_cache := (i_cache w)(a := i_cache w a), i_next := i_next w\<rparr>" using run by (simp add: insert_row_def)
    then show ?thesis using ok by simp
  next
    assume "reserve True counts answers (i_store w) (i_cache w a) (i_next w) = (Inl No_answer, i_cache w a, i_next w + 1)"
    then have "w' = w\<lparr>i_cache := (i_cache w)(a := i_cache w a), i_next := i_next w + 1\<rparr>" using run by (simp add: insert_row_def)
    then show ?thesis using ok b(2) same by (simp add: ids_ok_def)
  next
    assume "reserve True counts answers (i_store w) (i_cache w a) (i_next w) = (Inr (i_next w + off), Some off, i_next w + 1)"
    then have "w' = w\<lparr>i_cache := (i_cache w)(a := Some off), i_next := i_next w + 1, i_seq := (i_seq w)(a := i_next w + off),
        i_ids := (i_ids w)(a := i_ids w a @ [i_next w + off]), i_given := i_given w @ [i_next w + off]\<rparr>"
      using run auto_id by (simp add: insert_row_def Let_def)
    then show ?thesis using ok given by (simp add: ids_ok_def)
  qed
  show "r = Inr new \<Longrightarrow> new = i_next w + off"
    using reserve_ok [OF ok, of counts answers a] run auto_id by cases (auto simp: insert_row_def Let_def)
qed

lemma id_step_ok: "id_step w w' \<Longrightarrow> ids_ok off w \<Longrightarrow> ids_ok off w'"
proof (induction rule: id_step.induct)
  case (inserts a counts answers w r w')
  then show ?case using insert_row_ok(1) by blast
next
  case (receives i w b a)
  then have "i < i_next w + off" by (auto simp: ids_ok_def below_def)
  then show ?case using receives by (auto simp: ids_ok_def below_def take_row_def)
next
  case (others_number k w)
  then have "below (i_next w + k + off) w" using below_mono [of "i_next w + off" w] by (simp add: ids_ok_def)
  then show ?case using others_number by (simp add: ids_ok_def below_def)
qed (auto simp: ids_ok_def below_def drop_row_def forget_offset_def)

lemma offset_for_above: "t \<in> set tops \<Longrightarrow> t < offset_for tops" "0 < offset_for tops"
proof -
  have "foldl max 0 tops < offset_for tops" "0 < offset_for tops"
    using foldl_max_ge(1) [of 0 tops] div_mult_mod_eq [of "foldl max 0 tops" 1000] by (auto simp: offset_for_def ROUND_def)
  then show "t \<in> set tops \<Longrightarrow> t < offset_for tops" "0 < offset_for tops" using foldl_max_ge(2) [of t tops 0] by simp_all
qed

section \<open>Properties\<close>

text \<open>The state right after the cluster's first node seeded it: the offset it wrote is above every id it had, the other members
  have no rows yet, and no process has read an offset.\<close>

definition seeded :: "int list \<Rightarrow> id_sys \<Rightarrow> bool" where
  "seeded tops w \<longleftrightarrow> (\<exists>s. cfs_tree s OFFSET_PATH = None \<and> set_offset None tops s = Inr (i_store w)) \<and> (\<forall>a. i_cache w a = None)
     \<and> i_given w = [] \<and> FIRST_ID \<le> i_next w \<and> (\<forall>a. \<forall>i \<in> set (i_seq w a # i_ids w a). i \<le> foldl max 0 tops)"

lemma set_offset_writes:
  assumes "cfs_tree s OFFSET_PATH = None" "set_offset None tops s = Inr s'"
  shows "s' = s\<lparr>cfs_tree := (cfs_tree s)(OFFSET_PATH \<mapsto> (str_of_nat (nat (offset_for tops)), cfs_version s + 1)), cfs_version := cfs_version s + 1\<rparr>"
  using assms by (auto simp: set_offset_def cfs_put_def check_expected_def Let_def simp del: str_of_nat.simps)

lemma seeded_ok: "seeded tops w \<Longrightarrow> ids_ok (offset_for tops) w"
proof -
  assume a: "seeded tops w"
  obtain s where s: "cfs_tree s OFFSET_PATH = None" "set_offset None tops s = Inr (i_store w)" using a by (auto simp: seeded_def)
  have "cfs_tree (i_store w) OFFSET_PATH = Some (str_of_nat (nat (offset_for tops)), cfs_version s + 1)"
    using set_offset_writes [OF s] by simp
  moreover have "int_of_text (str_of_nat (nat (offset_for tops))) = Some (offset_for tops)" using offset_for_above(2) [of tops] by simp
  moreover have "below (i_next w + offset_for tops) w"
  proof -
    have top: "foldl max 0 tops < offset_for tops"
      using foldl_max_ge(1) [of 0 tops] div_mult_mod_eq [of "foldl max 0 tops" 1000] by (auto simp: offset_for_def ROUND_def)
    have "i < i_next w + offset_for tops" if "i \<le> foldl max 0 tops" for i using that a top by (simp add: seeded_def FIRST_ID_def)
    then show ?thesis using a by (simp add: below_def seeded_def)
  qed
  ultimately show ?thesis using a by (auto simp: ids_ok_def seeded_def)
qed


definition first_store :: cfs where
  "first_store = \<lparr>cfs_tree = [OFFSET_PATH \<mapsto> (''1000'', 1)], cfs_version = 1, cfs_locks = (\<lambda>_. None)\<rparr>"

definition first_ids :: id_sys where
  "first_ids = \<lparr>i_next = 100, i_store = first_store, i_cache = (\<lambda>_. None), i_seq = (\<lambda>_. 0)(''a'' := 7), i_ids = (\<lambda>_. [])(''a'' := [3, 7]), i_given = []\<rparr>"

lemma first_seeded: "seeded [7] first_ids"
proof -
  have "offset_for [7] = 1000" by (simp add: offset_for_def ROUND_def)
  moreover have "str_of_nat 1000 = ''1000''" by code_simp
  ultimately have "set_offset None [7] \<lparr>cfs_tree = (\<lambda>_. None), cfs_version = 0, cfs_locks = (\<lambda>_. None)\<rparr> = Inr first_store"
    by (simp add: set_offset_def cfs_put_def check_expected_def first_store_def)
  then show ?thesis unfolding seeded_def first_ids_def by (auto simp: FIRST_ID_def intro!: exI [of _ "\<lparr>cfs_tree = (\<lambda>_. None), cfs_version = 0, cfs_locks = (\<lambda>_. None)\<rparr>"])
qed


text \<open>A process that read the offset before it was written keeps zero for as long as it runs, and then reserves ids the others
  already gave: what it reserves when the counter is at \<open>c + off\<close> is what a process with the offset reserved at \<open>c\<close>.\<close>

theorem stale_offset_repeats_ids:
  assumes "cfs_tree s OFFSET_PATH = None" and "set_offset None tops s = Inr s'"
  shows "fst (snd (reserve True True True s None c0)) = Some 0
    \<and> fst (reserve True True True s' (Some 0) (c + offset_for tops)) = fst (reserve True True True s' None c)"
proof -
  have "cfs_tree s' OFFSET_PATH = Some (str_of_nat (nat (offset_for tops)), cfs_version s + 1)"
    using set_offset_writes [OF assms] by simp
  then show ?thesis using assms(1) offset_for_above(2) [of tops] by (simp add: reserve_def offset_def cfs_get_def)
qed

end
