(* ===== verification/Chunk_Codec.thy ===== *)
theory Chunk_Codec
  imports Prelude Py_Bytes
begin

text \<open>
  The bytes of a backup store (\<^verbatim>\<open>app/core/backup_store.py\<close>): a disk's index (\<open>Index\<close>) and a chunk's blob (\<open>encode\<close>,
  \<open>decode\<close>). A size is a \<open>nat\<close>, packed in its 4 or 8 bytes; \<open>struct.pack\<close> refuses what does not fit.

  SHA-256, the keyed digest, zstd, AES-GCM and CRC-32 are the fields of a \<open>codec\<close>, what a store was opened with; what the
  code relies on is \<open>codec_ok\<close>: a digest has 32 bytes, what was compressed or encrypted reads back. That two contents of a
  store never have the same digest is \<open>no_clash\<close>, of the contents at hand only.

  Shown: an index and a chunk read back as written; whatever bytes a chunk's file holds, \<open>decode\<close> gives a content of that
  very digest or raises.
\<close>

unbundle bit_operations_syntax

section \<open>What a store is opened with\<close>

datatype store_error =
    Damaged_chunk bytes string
  | Missing_chunk bytes
  | Store_error string
  | Value_error string
  | Os_error string
  | Struct_error
  | Key_error string
  | Backup_failed string

record codec =
  cx_encrypted :: bool
  cx_sha256 :: "bytes \<Rightarrow> bytes"
  cx_hmac :: "bytes \<Rightarrow> bytes"
  cx_compress :: "bytes \<Rightarrow> bytes"
  cx_decompress :: "nat \<Rightarrow> bytes \<Rightarrow> bytes option"
  cx_seal :: "bytes \<Rightarrow> bytes \<Rightarrow> bytes \<Rightarrow> bytes"
  cx_open :: "bytes \<Rightarrow> bytes \<Rightarrow> bytes \<Rightarrow> bytes option"
  cx_crc32 :: "bytes \<Rightarrow> 32 word"

text \<open>What the libraries document of them. \<open>cx_seal nonce plain bound\<close> is AES-GCM with \<open>bound\<close> as its associated data.\<close>

definition codec_ok :: "codec \<Rightarrow> bool" where
  "codec_ok cx \<longleftrightarrow> (\<forall>c. length (cx_sha256 cx c) = 32) \<and> (\<forall>c. length (cx_hmac cx c) = 32)
     \<and> (\<forall>c. cx_decompress cx (length c) (cx_compress cx c) = Some c)
     \<and> (\<forall>n p a. cx_open cx n (cx_seal cx n p a) a = Some p)"

definition FORMAT :: "8 word" where "FORMAT = 1"
definition ZERO :: bytes where "ZERO = replicate 32 0"
definition MAGIC :: bytes where "MAGIC = [0x48, 0x4C, 0x42, 0x4B]"
definition INDEX_MAGIC :: bytes where "INDEX_MAGIC = [0x48, 0x4C, 0x46, 0x49, 0x44, 0x58, 0x30, 0x31]"
definition FILE_MAGIC :: bytes where "FILE_MAGIC = [0x48, 0x4C, 0x42, 0x46, 0x31]"
definition COMPRESSED :: "8 word" where "COMPRESSED = 1"
definition ENCRYPTED :: "8 word" where "ENCRYPTED = 2"
definition NONCE :: nat where "NONCE = 12"
definition HEADER_SIZE :: nat where "HEADER_SIZE = 16"
definition INDEX_HEADER_SIZE :: nat where "INDEX_HEADER_SIZE = 24"

text \<open>\<open>struct.pack\<close> of \<open>>I\<close> and \<open>>Q\<close>, and a slice of a buffer.\<close>

definition pack_I :: "nat \<Rightarrow> store_error + bytes" where
  "pack_I n = (if int n < 2 ^ 32 then Inr (be_bytes 4 (of_nat n :: 32 word)) else Inl Struct_error)"

definition pack_Q :: "nat \<Rightarrow> store_error + bytes" where
  "pack_Q n = (if int n < 2 ^ 64 then Inr (be_bytes 8 (of_nat n :: 64 word)) else Inl Struct_error)"

definition slice :: "nat \<Rightarrow> nat \<Rightarrow> bytes \<Rightarrow> bytes" where
  "slice a n bs = take n (drop a bs)"

definition unpack_I :: "bytes \<Rightarrow> nat" where
  "unpack_I bs = unat (be_word bs :: 32 word)"

definition unpack_Q :: "bytes \<Rightarrow> nat" where
  "unpack_Q bs = unat (be_word bs :: 64 word)"

lemma pack_I_reads_back: "pack_I n = Inr bs \<Longrightarrow> length bs = 4 \<and> unpack_I bs = n"
  by (auto simp: pack_I_def unpack_I_def be_word_be_bytes unat_of_nat split: if_splits)

lemma pack_Q_reads_back: "pack_Q n = Inr bs \<Longrightarrow> length bs = 8 \<and> unpack_Q bs = n"
  by (auto simp: pack_Q_def unpack_Q_def be_word_be_bytes unat_of_nat split: if_splits)

section \<open>The index of a disk\<close>

record disk_index =
  ix_size :: nat
  ix_chunk_size :: nat
  ix_digests :: "bytes list"

text \<open>\<open>-(-size // chunk_size)\<close>: how many chunks a disk has.\<close>

definition chunk_count :: "nat \<Rightarrow> nat \<Rightarrow> nat" where
  "chunk_count sz cs = (sz + cs - 1) div cs"

definition index_encode :: "codec \<Rightarrow> disk_index \<Rightarrow> store_error + bytes" where
  "index_encode cx ix =
     rbind (pack_Q (ix_size ix)) (\<lambda>sz.
     rbind (pack_I (ix_chunk_size ix)) (\<lambda>cs.
     rbind (pack_I (length (ix_digests ix))) (\<lambda>n.
       let body = INDEX_MAGIC @ sz @ cs @ n @ concat (ix_digests ix) in Inr (body @ cx_sha256 cx body))))"

definition index_decode :: "codec \<Rightarrow> bytes \<Rightarrow> store_error + disk_index" where
  "index_decode cx raw =
     (if length raw < INDEX_HEADER_SIZE + 32 then Inl (Value_error ''index too short'')
      else let body = take (length raw - 32) raw; checksum = drop (length raw - 32) raw in
        if cx_sha256 cx body \<noteq> checksum then Inl (Value_error ''index checksum does not match'')
        else let magic = slice 0 8 body; sz = unpack_Q (slice 8 8 body);
                 cs = unpack_I (slice 16 4 body); count = unpack_I (slice 20 4 body) in
          if magic \<noteq> INDEX_MAGIC then Inl (Value_error ''not an index'')
          else if cs = 0 \<or> length body \<noteq> INDEX_HEADER_SIZE + 32 * count \<or> count \<noteq> chunk_count sz cs
               then Inl (Value_error ''index sizes do not match'')
          else Inr \<lparr>ix_size = sz, ix_chunk_size = cs,
                    ix_digests = map (\<lambda>i. slice (INDEX_HEADER_SIZE + 32 * i) 32 body) [0..<count]\<rparr>)"

text \<open>What the writers make: as many digests of 32 bytes as the disk has chunks.\<close>

definition index_ok :: "disk_index \<Rightarrow> bool" where
  "index_ok ix \<longleftrightarrow> 0 < ix_chunk_size ix \<and> length (ix_digests ix) = chunk_count (ix_size ix) (ix_chunk_size ix)
     \<and> (\<forall>d \<in> set (ix_digests ix). length d = 32)"

lemma slice_concat:
  assumes "\<forall>d \<in> set ds. length d = n" and "i < length ds"
  shows "slice (n * i) n (concat ds) = ds ! i"
  using assms
proof (induction ds arbitrary: i)
  case (Cons d ds)
  then show ?case by (cases i) (simp_all add: slice_def)
qed simp

lemma slice_append: "slice (length a + k) n (a @ b) = slice k n b"
  by (simp add: slice_def)

lemma length_concat_same: "\<forall>d \<in> set ds. length d = n \<Longrightarrow> length (concat ds) = n * length ds"
  by (induction ds) auto

lemma index_decode_encode:
  assumes "codec_ok cx" and ok: "index_ok ix" and raw: "index_encode cx ix = Inr raw"
  shows "index_decode cx raw = Inr ix"
proof -
  obtain sz cs n where p: "pack_Q (ix_size ix) = Inr sz" "pack_I (ix_chunk_size ix) = Inr cs"
      "pack_I (length (ix_digests ix)) = Inr n"
    using raw by (auto simp: index_encode_def py_simps)
  let ?h = "INDEX_MAGIC @ sz @ cs @ n"
  let ?body = "?h @ concat (ix_digests ix)"
  have r: "raw = ?body @ cx_sha256 cx ?body" using raw p by (simp add: index_encode_def Let_def)
  have l: "length sz = 8" "length cs = 4" "length n = 4"
    and u: "unpack_Q sz = ix_size ix" "unpack_I cs = ix_chunk_size ix" "unpack_I n = length (ix_digests ix)"
    using p by (auto dest: pack_I_reads_back pack_Q_reads_back)
  have lh: "length ?h = 24" using l by (simp add: INDEX_MAGIC_def)
  have lc: "length (concat (ix_digests ix)) = 32 * length (ix_digests ix)"
    using ok by (intro length_concat_same) (simp add: index_ok_def)
  have sha: "length (cx_sha256 cx ?body) = 32" using assms(1) by (simp add: codec_ok_def)
  have parts: "slice 0 8 ?body = INDEX_MAGIC" "slice 8 8 ?body = sz" "slice 16 4 ?body = cs" "slice 20 4 ?body = n"
    using l by (simp_all add: slice_def INDEX_MAGIC_def)
  have ds: "map (\<lambda>i. slice (24 + 32 * i) 32 ?body) [0..<length (ix_digests ix)] = ix_digests ix"
  proof (rule nth_equalityI)
    fix i assume "i < length (map (\<lambda>i. slice (24 + 32 * i) 32 ?body) [0..<length (ix_digests ix)])"
    then show "map (\<lambda>i. slice (24 + 32 * i) 32 ?body) [0..<length (ix_digests ix)] ! i = ix_digests ix ! i"
      using ok slice_append [of ?h "32 * i" 32 "concat (ix_digests ix)"] lh
      by (simp add: slice_concat index_ok_def)
  qed simp
  have lr: "length raw = length ?body + 32" using r sha by simp
  have "take (length raw - 32) raw = ?body" "drop (length raw - 32) raw = cx_sha256 cx ?body"
    using lr by (simp_all add: r)
  moreover have "length ?body = 24 + 32 * length (ix_digests ix)" using lh lc by simp
  ultimately show ?thesis
    using lr ok parts u ds by (simp add: index_decode_def INDEX_HEADER_SIZE_def Let_def index_ok_def)
qed

section \<open>The blob of a chunk\<close>

definition digest :: "codec \<Rightarrow> bytes \<Rightarrow> bytes" where
  "digest cx content = (if cx_encrypted cx then cx_hmac cx content else cx_sha256 cx content)"

text \<open>\<open>_HEADER.pack\<close> and the payload.\<close>

definition blob_of :: "codec \<Rightarrow> 8 word \<Rightarrow> nat \<Rightarrow> bytes \<Rightarrow> store_error + bytes" where
  "blob_of cx flags n payload = rbind (pack_I n) (\<lambda>len.
     Inr (MAGIC @ [FORMAT, flags, 0, 0] @ len @ be_bytes 4 (cx_crc32 cx payload) @ payload))"

text \<open>\<open>nonce\<close> is what \<open>os.urandom\<close> gives.\<close>

definition chunk_encode :: "codec \<Rightarrow> bytes \<Rightarrow> bytes \<Rightarrow> bytes \<Rightarrow> store_error + bytes" where
  "chunk_encode cx nonce dig content =
     (let packed = cx_compress cx content;
          (flags, payload) = (if length packed < length content then (COMPRESSED, packed) else (0, content));
          (flags, payload) = (if cx_encrypted cx then (flags OR ENCRYPTED, nonce @ cx_seal cx nonce payload dig)
                              else (flags, payload))
      in blob_of cx flags (length content) payload)"

definition chunk_decode :: "codec \<Rightarrow> bytes \<Rightarrow> bytes \<Rightarrow> store_error + bytes" where
  "chunk_decode cx dig blob =
     (if length blob < HEADER_SIZE then Inl (Damaged_chunk dig ''too short'')
      else let magic = slice 0 4 blob; fmt = blob ! 4; flags = blob ! 5;
               len = unpack_I (slice 8 4 blob); crc = be_word (slice 12 4 blob);
               payload = drop HEADER_SIZE blob in
        if magic \<noteq> MAGIC \<or> fmt \<noteq> FORMAT then Inl (Damaged_chunk dig ''not a chunk of this format'')
        else if cx_crc32 cx payload \<noteq> crc then Inl (Damaged_chunk dig ''CRC does not match'')
        else if (flags AND ENCRYPTED \<noteq> 0) \<noteq> cx_encrypted cx
        then Inl (Damaged_chunk dig ''encrypted in an unencrypted store, or the other way'')
        else rbind (if cx_encrypted cx
                    then some_or (Damaged_chunk dig ''authentication failed'')
                           (cx_open cx (take NONCE payload) (drop NONCE payload) dig)
                    else Inr payload) (\<lambda>plain.
             rbind (if flags AND COMPRESSED \<noteq> 0
                    then some_or (Damaged_chunk dig ''cannot be decompressed'') (cx_decompress cx len plain)
                    else Inr plain) (\<lambda>content.
             if length content \<noteq> len \<or> digest cx content \<noteq> dig
             then Inl (Damaged_chunk dig ''content does not match its digest'')
             else Inr content)))"

text \<open>\<open>check_blob_bytes\<close>: what a store without its key can check.\<close>

definition check_blob_bytes :: "codec \<Rightarrow> bytes \<Rightarrow> bytes \<Rightarrow> store_error + unit" where
  "check_blob_bytes cx dig blob =
     (if length blob < HEADER_SIZE then Inl (Damaged_chunk dig ''too short'')
      else require (slice 0 4 blob = MAGIC \<and> blob ! 4 = FORMAT
                    \<and> cx_crc32 cx (drop HEADER_SIZE blob) = be_word (slice 12 4 blob))
                   (Damaged_chunk dig ''CRC does not match''))"

lemma length_digest: "codec_ok cx \<Longrightarrow> length (digest cx c) = 32"
  by (simp add: codec_ok_def digest_def)

text \<open>Whatever the file holds, only a content of that digest comes out of it.\<close>

lemma chunk_decode_digest: "chunk_decode cx dig blob = Inr content \<Longrightarrow> digest cx content = dig"
  by (auto simp: chunk_decode_def Let_def py_simps split: if_splits)

lemma flag_bits [simp]:
  "COMPRESSED AND ENCRYPTED = 0" "(0 :: 8 word) AND ENCRYPTED = 0" "(COMPRESSED OR ENCRYPTED) AND ENCRYPTED \<noteq> 0"
  "ENCRYPTED AND ENCRYPTED \<noteq> 0" "COMPRESSED AND COMPRESSED \<noteq> 0" "ENCRYPTED AND COMPRESSED = 0"
  "(COMPRESSED OR ENCRYPTED) AND COMPRESSED \<noteq> 0" "(0 :: 8 word) OR ENCRYPTED = ENCRYPTED"
  "(0 :: 8 word) AND COMPRESSED = 0" "COMPRESSED \<noteq> 0" "ENCRYPTED \<noteq> 0"
  by (simp_all add: COMPRESSED_def ENCRYPTED_def)

lemma blob_parts:
  assumes "blob_of cx flags n payload = Inr blob"
  shows "\<not> length blob < HEADER_SIZE" "slice 0 4 blob = MAGIC" "blob ! 4 = FORMAT" "blob ! 5 = flags"
    "unpack_I (slice 8 4 blob) = n" "be_word (slice 12 4 blob) = cx_crc32 cx payload" "drop HEADER_SIZE blob = payload"
proof -
  obtain len where len: "pack_I n = Inr len"
      and blob: "blob = MAGIC @ [FORMAT, flags, 0, 0] @ len @ be_bytes 4 (cx_crc32 cx payload) @ payload"
    using assms by (auto simp: blob_of_def py_simps)
  have l: "length len = 4" "unpack_I len = n" using pack_I_reads_back [OF len] by simp_all
  show "\<not> length blob < HEADER_SIZE" "slice 0 4 blob = MAGIC" "blob ! 4 = FORMAT" "blob ! 5 = flags"
      "unpack_I (slice 8 4 blob) = n" "drop HEADER_SIZE blob = payload"
    using l by (simp_all add: blob MAGIC_def HEADER_SIZE_def slice_def)
  have "slice 12 4 blob = be_bytes 4 (cx_crc32 cx payload)" using l by (simp add: blob MAGIC_def slice_def)
  then show "be_word (slice 12 4 blob) = cx_crc32 cx payload" by (simp add: be_word_be_bytes)
qed

text \<open>Which payload \<open>chunk_encode\<close> gives \<open>blob_of\<close>, case by case.\<close>

lemma chunk_encode_cases:
  assumes "chunk_encode cx nonce d content = Inr blob"
  obtains flags plain payload where "blob_of cx flags (length content) payload = Inr blob"
    "flags AND COMPRESSED \<noteq> 0 \<and> plain = cx_compress cx content \<or> flags AND COMPRESSED = 0 \<and> plain = content"
    "if cx_encrypted cx then flags AND ENCRYPTED \<noteq> 0 \<and> payload = nonce @ cx_seal cx nonce plain d
     else flags AND ENCRYPTED = 0 \<and> payload = plain"
proof -
  define small where "small \<longleftrightarrow> length (cx_compress cx content) < length content"
  define plain where "plain = (if small then cx_compress cx content else content)"
  define flags where "flags = (if small then COMPRESSED else 0) OR (if cx_encrypted cx then ENCRYPTED else 0)"
  define payload where "payload = (if cx_encrypted cx then nonce @ cx_seal cx nonce plain d else plain)"
  have "blob_of cx flags (length content) payload = Inr blob"
    using assms by (cases "cx_encrypted cx"; cases small)
      (simp_all add: chunk_encode_def Let_def flags_def payload_def plain_def small_def)
  moreover have "flags AND COMPRESSED \<noteq> 0 \<and> plain = cx_compress cx content \<or> flags AND COMPRESSED = 0 \<and> plain = content"
    by (simp add: flags_def plain_def)
  moreover have "if cx_encrypted cx then flags AND ENCRYPTED \<noteq> 0 \<and> payload = nonce @ cx_seal cx nonce plain d
     else flags AND ENCRYPTED = 0 \<and> payload = plain"
    by (simp add: flags_def payload_def)
  ultimately show ?thesis by (rule that)
qed

lemma chunk_decode_encode:
  assumes "codec_ok cx" and n: "length nonce = NONCE" and blob: "chunk_encode cx nonce (digest cx content) content = Inr blob"
  shows "chunk_decode cx (digest cx content) blob = Inr content"
proof -
  have laws: "cx_decompress cx (length content) (cx_compress cx content) = Some content"
      "\<And>p. cx_open cx nonce (cx_seal cx nonce p (digest cx content)) (digest cx content) = Some p"
    using assms(1) by (simp_all add: codec_ok_def)
  obtain flags plain payload where f: "blob_of cx flags (length content) payload = Inr blob"
    "flags AND COMPRESSED \<noteq> 0 \<and> plain = cx_compress cx content \<or> flags AND COMPRESSED = 0 \<and> plain = content"
    "if cx_encrypted cx then flags AND ENCRYPTED \<noteq> 0 \<and> payload = nonce @ cx_seal cx nonce plain (digest cx content)
     else flags AND ENCRYPTED = 0 \<and> payload = plain"
    using chunk_encode_cases [OF blob] by blast
  show ?thesis
    using f(2,3) n laws by (auto simp: chunk_decode_def Let_def blob_parts [OF f(1)] split: if_splits)
qed

lemma encoded_blob_checks:
  assumes "chunk_encode cx nonce d content = Inr blob" shows "check_blob_bytes cx d' blob = Inr ()"
proof -
  obtain flags payload where "blob_of cx flags (length content) payload = Inr blob" using chunk_encode_cases [OF assms] by blast
  then show ?thesis by (simp add: check_blob_bytes_def blob_parts)
qed

end
