(* ===== verification/Chunk_Store.thy ===== *)
theory Chunk_Store
  imports Chunk_Codec
begin

text \<open>
  A backup store's files and operations (\<^verbatim>\<open>app/core/backup_store.py\<close>) and the reading of a VM's disks into it
  (\<^verbatim>\<open>app/core/backup_store_vm.py\<close>). A \<open>bstore\<close> is what the store's directory holds: the files of \<^verbatim>\<open>.chunks\<close>, each with
  its access time, and one directory per backup. A chunk's file is named by its digest, with \<^verbatim>\<open>.sweep\<close> or \<^verbatim>\<open>.bad\<close>
  behind it while it is being removed or once it was found damaged (\<open>cfile\<close>). Files are written under a temporary name
  and renamed, so a file is there whole or not at all: writing one is one step. A manifest is the value \<^verbatim>\<open>json.dumps\<close>
  writes, a record. A VM's UUID is its canonical text. \<open>now\<close> is the clock of a call, read once; the pool of threads that
  stores a few chunks at once is the sequence of its calls, whose results are taken in order.

  Left out: opening a store (its configuration, the key's fingerprint), the master recovery key, the temporary files, and
  what QEMU, libvirt and \<^verbatim>\<open>nbdcopy\<close> do; what they stream is an argument.
\<close>

section \<open>The files of a store\<close>

datatype cfile = Chunk bytes | Sweep cfile | Bad cfile

record cblob =
  cb_bytes :: bytes
  cb_atime :: seconds

record manifest =
  mf_store :: string
  mf_vm_uuid :: string
  mf_time :: string
  mf_disks :: "(string, nat \<times> bytes) dict"
  mf_files :: "(string, bool) dict"
  mf_copied_from :: "string option"
  mf_more :: "(string, string) dict"

record bdir =
  bd_files :: "(string, bytes) dict"
  bd_manifest :: "manifest option"

type_synonym backup_key = "string \<times> string"

record bstore =
  st_id :: string
  st_chunk_size :: nat
  st_encrypted :: bool
  st_fingerprint :: "string option"
  st_files :: "(cfile, cblob) dict"
  st_dirs :: "(backup_key, bdir) dict"

text \<open>\<open>Path.exists\<close>, \<open>os.utime\<close> (whether the file is there), \<open>os.replace\<close>, \<open>unlink\<close> and the writing of a whole file.\<close>

definition file_exists :: "cfile \<Rightarrow> bstore \<Rightarrow> bool" where
  "file_exists f s \<longleftrightarrow> map_of (st_files s) f \<noteq> None"

definition os_utime :: "seconds \<Rightarrow> cfile \<Rightarrow> bstore \<Rightarrow> bool \<times> bstore" where
  "os_utime now f s = (case map_of (st_files s) f of
       None \<Rightarrow> (False, s)
     | Some b \<Rightarrow> (True, s\<lparr>st_files := dict_set f (b\<lparr>cb_atime := now\<rparr>) (st_files s)\<rparr>))"

definition os_replace :: "cfile \<Rightarrow> cfile \<Rightarrow> bstore \<Rightarrow> bool \<times> bstore" where
  "os_replace f g s = (case map_of (st_files s) f of
       None \<Rightarrow> (False, s)
     | Some b \<Rightarrow> (True, s\<lparr>st_files := dict_set g b (dict_del f (st_files s))\<rparr>))"

definition os_unlink :: "cfile \<Rightarrow> bstore \<Rightarrow> bstore" where
  "os_unlink f s = s\<lparr>st_files := dict_del f (st_files s)\<rparr>"

definition write_atomic :: "seconds \<Rightarrow> cfile \<Rightarrow> bytes \<Rightarrow> bstore \<Rightarrow> bstore" where
  "write_atomic now f data s = s\<lparr>st_files := dict_set f \<lparr>cb_bytes = data, cb_atime = now\<rparr> (st_files s)\<rparr>"

section \<open>Chunks\<close>

definition put :: "codec \<Rightarrow> bytes \<Rightarrow> seconds \<Rightarrow> bytes \<Rightarrow> bstore \<Rightarrow> (store_error + bytes) \<times> bstore" where
  "put cx nonce now content s =
     (if \<forall>b \<in> set content. b = 0 then (Inr ZERO, s)
      else let d = digest cx content in
        case os_utime now (Chunk d) s of
          (True, s') \<Rightarrow> (Inr d, s')
        | (False, _) \<Rightarrow>
            (case chunk_encode cx nonce d content of
               Inl e \<Rightarrow> (Inl e, s)
             | Inr blob \<Rightarrow> (Inr d, write_atomic now (Chunk d) blob s)))"

definition touch :: "seconds \<Rightarrow> bytes \<Rightarrow> bstore \<Rightarrow> (store_error + unit) \<times> bstore" where
  "touch now d s =
     (if d = ZERO then (Inr (), s)
      else case os_utime now (Chunk d) s of
          (True, s') \<Rightarrow> (Inr (), s')
        | (False, _) \<Rightarrow> (Inl (Missing_chunk d), s))"

text \<open>\<open>n\<close> is the length of a chunk of zeros.\<close>

definition get :: "codec \<Rightarrow> bytes \<Rightarrow> nat \<Rightarrow> bstore \<Rightarrow> store_error + bytes" where
  "get cx d n s =
     (if d = ZERO then Inr (replicate n 0)
      else case map_of (st_files s) (Chunk d) of
          None \<Rightarrow> Inl (Missing_chunk d)
        | Some b \<Rightarrow> chunk_decode cx d (cb_bytes b))"

section \<open>Disks\<close>

text \<open>\<open>range(0, size, chunk_size)\<close>, as the chunks' numbers, and a chunk's length.\<close>

definition chunk_length :: "nat \<Rightarrow> nat \<Rightarrow> nat \<Rightarrow> nat" where
  "chunk_length cs sz i = min cs (sz - i * cs)"

fun write_loop :: "codec \<Rightarrow> (nat \<Rightarrow> bytes) \<Rightarrow> seconds \<Rightarrow> (nat \<Rightarrow> nat \<Rightarrow> bytes) \<Rightarrow> nat \<Rightarrow> nat list \<Rightarrow> bytes list \<Rightarrow> bstore
    \<Rightarrow> (store_error + bytes list) \<times> bstore" where
  "write_loop cx nonce now read sz [] ds s = (Inr ds, s)"
| "write_loop cx nonce now read sz (i # is) ds s =
     (let n = chunk_length (st_chunk_size s) sz i; content = read (i * st_chunk_size s) n in
      if length content \<noteq> n then (Inl (Os_error ''short read''), s)
      else case put cx (nonce i) now content s of
          (Inl e, s') \<Rightarrow> (Inl e, s')
        | (Inr d, s') \<Rightarrow> write_loop cx nonce now read sz is (ds @ [d]) s')"

definition write_disk :: "codec \<Rightarrow> (nat \<Rightarrow> bytes) \<Rightarrow> seconds \<Rightarrow> (nat \<Rightarrow> nat \<Rightarrow> bytes) \<Rightarrow> nat \<Rightarrow> bstore
    \<Rightarrow> (store_error + disk_index) \<times> bstore" where
  "write_disk cx nonce now read sz s =
     (if st_chunk_size s = 0 then (Inl (Value_error ''range() arg 3 must not be zero''), s)
      else case write_loop cx nonce now read sz [0..<chunk_count sz (st_chunk_size s)] [] s of
          (Inl e, s') \<Rightarrow> (Inl e, s')
        | (Inr ds, s') \<Rightarrow> (Inr \<lparr>ix_size = sz, ix_chunk_size = st_chunk_size s, ix_digests = ds\<rparr>, s'))"

text \<open>What \<open>read_disk\<close> writes, in the order of the chunks; the restore streams the same bytes to \<^verbatim>\<open>nbdcopy\<close>.\<close>

fun read_chunks :: "codec \<Rightarrow> disk_index \<Rightarrow> nat \<Rightarrow> bytes list \<Rightarrow> bstore \<Rightarrow> store_error + bytes" where
  "read_chunks cx ix i [] s = Inr []"
| "read_chunks cx ix i (d # ds) s =
     rbind (get cx d (chunk_length (ix_chunk_size ix) (ix_size ix) i) s) (\<lambda>c.
     rbind (read_chunks cx ix (Suc i) ds s) (\<lambda>rest. Inr (c @ rest)))"

definition read_disk :: "codec \<Rightarrow> disk_index \<Rightarrow> bstore \<Rightarrow> store_error + bytes" where
  "read_disk cx ix s = read_chunks cx ix 0 (ix_digests ix) s"

section \<open>Reading a VM's disks into the store\<close>

text \<open>\<open>_read_full\<close>: the next bytes of a stream, whole.\<close>

definition read_full :: "nat \<Rightarrow> bytes \<Rightarrow> store_error + (bytes \<times> bytes)" where
  "read_full n stream =
     (if length stream < n then Inl (Backup_failed ''the disk ended early'') else Inr (take n stream, drop n stream))"

fun stream_loop :: "codec \<Rightarrow> (nat \<Rightarrow> bytes) \<Rightarrow> seconds \<Rightarrow> nat \<Rightarrow> nat list \<Rightarrow> bytes \<Rightarrow> bytes list \<Rightarrow> bstore
    \<Rightarrow> (store_error + (bytes list \<times> bytes)) \<times> bstore" where
  "stream_loop cx nonce now sz [] stream ds s = (Inr (ds, stream), s)"
| "stream_loop cx nonce now sz (i # is) stream ds s =
     (case read_full (chunk_length (st_chunk_size s) sz i) stream of
        Inl e \<Rightarrow> (Inl e, s)
      | Inr (content, stream') \<Rightarrow>
          (case put cx (nonce i) now content s of
             (Inl e, s') \<Rightarrow> (Inl e, s')
           | (Inr d, s') \<Rightarrow> stream_loop cx nonce now sz is stream' (ds @ [d]) s'))"

text \<open>\<open>exit_ok\<close>: whether \<^verbatim>\<open>nbdcopy\<close> ended with 0.\<close>

definition read_into_store :: "codec \<Rightarrow> (nat \<Rightarrow> bytes) \<Rightarrow> seconds \<Rightarrow> bool \<Rightarrow> bytes \<Rightarrow> nat \<Rightarrow> bstore
    \<Rightarrow> (store_error + disk_index) \<times> bstore" where
  "read_into_store cx nonce now exit_ok stream sz s =
     (if st_chunk_size s = 0 then (Inl (Value_error ''range() arg 3 must not be zero''), s)
      else case stream_loop cx nonce now sz [0..<chunk_count sz (st_chunk_size s)] stream [] s of
          (Inl e, s') \<Rightarrow> (Inl e, s')
        | (Inr (ds, rest), s') \<Rightarrow>
            if rest \<noteq> [] then (Inl (Backup_failed ''the disk is larger than its export said''), s')
            else if \<not> exit_ok then (Inl (Backup_failed ''reading the disk failed''), s')
            else (Inr \<lparr>ix_size = sz, ix_chunk_size = st_chunk_size s, ix_digests = ds\<rparr>, s'))"

text \<open>An extent of the dirty bitmap: its offset, its length and its type.\<close>

definition changed_chunks :: "(nat \<times> nat \<times> nat) list \<Rightarrow> nat \<Rightarrow> nat \<Rightarrow> nat list" where
  "changed_chunks extents sz cs =
     concat (map (\<lambda>(off, len, ty).
        if odd ty then [off div cs ..< nat ((int (min (off + len) sz) - 1) div int cs + 1)] else []) extents)"

text \<open>The base's chunks that are not read again are touched; one the store lost is read after all.\<close>

fun touch_loop :: "seconds \<Rightarrow> bytes list \<Rightarrow> nat list \<Rightarrow> nat list \<Rightarrow> bstore \<Rightarrow> (store_error + nat list) \<times> bstore" where
  "touch_loop now ds [] to_read s = (Inr to_read, s)"
| "touch_loop now ds (i # is) to_read s =
     (if i \<in> set to_read then touch_loop now ds is to_read s
      else if length ds \<le> i then (Inl (Key_error ''list index out of range''), s)
      else case touch now (ds ! i) s of
          (Inr _, s') \<Rightarrow> touch_loop now ds is to_read s'
        | (Inl _, s') \<Rightarrow> touch_loop now ds is (i # to_read) s')"

fun patch_loop :: "codec \<Rightarrow> (nat \<Rightarrow> bytes) \<Rightarrow> seconds \<Rightarrow> nat \<Rightarrow> nat list \<Rightarrow> bytes \<Rightarrow> bytes list \<Rightarrow> bstore
    \<Rightarrow> (store_error + bytes list) \<times> bstore" where
  "patch_loop cx nonce now sz [] stream ds s = (Inr ds, s)"
| "patch_loop cx nonce now sz (i # is) stream ds s =
     (if sz < i * st_chunk_size s then (Inl (Value_error ''negative count''), s)
      else case read_full (chunk_length (st_chunk_size s) sz i) stream of
        Inl e \<Rightarrow> (Inl e, s)
      | Inr (content, stream') \<Rightarrow>
          (case put cx (nonce i) now content s of
             (Inl e, s') \<Rightarrow> (Inl e, s')
           | (Inr d, s') \<Rightarrow>
               if length ds \<le> i then (Inl (Key_error ''list assignment index out of range''), s')
               else patch_loop cx nonce now sz is stream' (ds[i := d]) s'))"

text \<open>\<open>read_ranges\<close> is what the process that reads ranges streams for them.\<close>

definition read_changed_into_store :: "codec \<Rightarrow> (nat \<Rightarrow> bytes) \<Rightarrow> seconds \<Rightarrow> bool \<Rightarrow> ((nat \<times> nat) list \<Rightarrow> bytes) \<Rightarrow> nat
    \<Rightarrow> disk_index \<Rightarrow> nat list \<Rightarrow> bstore \<Rightarrow> (store_error + (disk_index \<times> nat)) \<times> bstore" where
  "read_changed_into_store cx nonce now exit_ok read_ranges sz base changed s =
     (let cs = st_chunk_size s in
      if cs = 0 then (Inl (Value_error ''integer division or modulo by zero''), s)
      else case touch_loop now (ix_digests base) [0..<chunk_count sz cs] changed s of
          (Inl e, s') \<Rightarrow> (Inl e, s')
        | (Inr to_read, s1) \<Rightarrow>
            let order = sort (remdups to_read) in
            case patch_loop cx nonce now sz order (read_ranges (map (\<lambda>i. (i * cs, chunk_length cs sz i)) order))
                   (ix_digests base) s1 of
              (Inl e, s') \<Rightarrow> (Inl e, s')
            | (Inr ds, s') \<Rightarrow>
                if \<not> exit_ok then (Inl (Backup_failed ''reading the changed blocks failed''), s')
                else (Inr (\<lparr>ix_size = sz, ix_chunk_size = cs, ix_digests = ds\<rparr>, length order), s'))"

section \<open>Backups\<close>

text \<open>\<open>_safe\<close>, and the text that binds a file to its backup.\<close>

definition safe_name :: "string \<Rightarrow> store_error + string" where
  "safe_name name =
     (if name = [] \<or> name \<in> {''.'', ''..''} \<or> CHR ''/'' \<in> set name \<or> CHR 0x00 \<in> set name \<or> name = ''manifest.json''
      then Inl (Value_error ''invalid name in a backup'') else Inr name)"

definition text_bytes :: "string \<Rightarrow> bytes" where
  "text_bytes t = map (\<lambda>c. of_nat (of_char c)) t"

definition file_aad :: "backup_key \<Rightarrow> string \<Rightarrow> bytes" where
  "file_aad k name = text_bytes (fst k @ ''/'' @ snd k @ ''/'' @ name)"

definition seal_file :: "codec \<Rightarrow> bytes \<Rightarrow> backup_key \<Rightarrow> string \<Rightarrow> bytes \<Rightarrow> bytes" where
  "seal_file cx nonce k name data =
     (if \<not> cx_encrypted cx then data
      else FILE_MAGIC @ nonce @ cx_seal cx nonce data (file_aad k name))"

definition dir_of :: "backup_key \<Rightarrow> bstore \<Rightarrow> bdir option" where
  "dir_of k s = map_of (st_dirs s) k"

definition read_file :: "codec \<Rightarrow> backup_key \<Rightarrow> string \<Rightarrow> bstore \<Rightarrow> store_error + bytes" where
  "read_file cx k name s =
     rbind (safe_name name) (\<lambda>name.
     rbind (some_or (Os_error ''no such file'') (Option.bind (dir_of k s) (\<lambda>d. map_of (bd_files d) name))) (\<lambda>raw.
     if \<not> cx_encrypted cx then Inr raw
     else if take (length FILE_MAGIC) raw \<noteq> FILE_MAGIC
     then Inl (Damaged_chunk [] ''not encrypted in an encrypted store'')
     else let body = drop (length FILE_MAGIC) raw in
       some_or (Damaged_chunk [] ''authentication failed'')
         (cx_open cx (take NONCE body) (drop NONCE body) (file_aad k name))))"

definition fidx :: "string \<Rightarrow> string" where
  "fidx name = name @ ''.fidx''"

text \<open>One after the other, the indexes and the files; each in its place before the manifest.\<close>

fun write_indexes :: "codec \<Rightarrow> (string, disk_index) dict \<Rightarrow> bdir \<Rightarrow> (string, nat \<times> bytes) dict
    \<Rightarrow> (store_error + (string, nat \<times> bytes) dict) \<times> bdir" where
  "write_indexes cx [] dir listed = (Inr listed, dir)"
| "write_indexes cx ((name, ix) # rest) dir listed =
     (case index_encode cx ix of
        Inl e \<Rightarrow> (Inl e, dir)
      | Inr raw \<Rightarrow>
          (case safe_name name of
             Inl e \<Rightarrow> (Inl e, dir)
           | Inr n \<Rightarrow> write_indexes cx rest (dir\<lparr>bd_files := dict_set (fidx n) raw (bd_files dir)\<rparr>)
                        (dict_set name (ix_size ix, cx_sha256 cx raw) listed)))"

fun write_files :: "codec \<Rightarrow> (string \<Rightarrow> bytes) \<Rightarrow> backup_key \<Rightarrow> (string, bytes) dict \<Rightarrow> bdir \<Rightarrow> (string, bool) dict
    \<Rightarrow> (store_error + (string, bool) dict) \<times> bdir" where
  "write_files cx nonce k [] dir kept = (Inr kept, dir)"
| "write_files cx nonce k ((name, data) # rest) dir kept =
     (case safe_name name of
        Inl e \<Rightarrow> (Inl e, dir)
      | Inr n \<Rightarrow> write_files cx nonce k rest
                   (dir\<lparr>bd_files := dict_set n (seal_file cx (nonce name) k name data) (bd_files dir)\<rparr>)
                   (dict_set name (cx_encrypted cx) kept))"

definition used_digests :: "disk_index \<Rightarrow> bytes list" where
  "used_digests ix = dedup (filter (\<lambda>d. d \<noteq> ZERO) (ix_digests ix))"

definition missing_chunk :: "(string, disk_index) dict \<Rightarrow> bstore \<Rightarrow> bytes option" where
  "missing_chunk indexes s =
     find (\<lambda>d. \<not> file_exists (Chunk d) s) (concat (map (used_digests \<circ> snd) indexes))"

definition record_backup :: "codec \<Rightarrow> (string \<Rightarrow> bytes) \<Rightarrow> backup_key \<Rightarrow> (string, disk_index) dict \<Rightarrow> (string, string) dict
    \<Rightarrow> (string, bytes) dict \<Rightarrow> bstore \<Rightarrow> (store_error + unit) \<times> bstore" where
  "record_backup cx nonce k indexes extra files s =
     (if dir_of k s \<noteq> None then (Inl (Os_error ''file exists''), s)
      else
        let keep = (\<lambda>dir. s\<lparr>st_dirs := dict_set k dir (st_dirs s)\<rparr>) in
        case write_indexes cx indexes \<lparr>bd_files = [], bd_manifest = None\<rparr> [] of
          (Inl e, dir) \<Rightarrow> (Inl e, keep dir)
        | (Inr listed, dir) \<Rightarrow>
            (case write_files cx nonce k files dir [] of
               (Inl e, dir') \<Rightarrow> (Inl e, keep dir')
             | (Inr kept, dir') \<Rightarrow>
                 (Inr (), keep (dir'\<lparr>bd_manifest := Some \<lparr>mf_store = st_id s, mf_vm_uuid = fst k, mf_time = snd k,
                    mf_disks = listed, mf_files = kept, mf_copied_from = None, mf_more = extra\<rparr>\<rparr>))))"

text \<open>The chunks are looked for first: one may have been swept by a collection that raced the backup.\<close>

definition write_backup :: "codec \<Rightarrow> (string \<Rightarrow> bytes) \<Rightarrow> backup_key \<Rightarrow> (string, disk_index) dict \<Rightarrow> (string, string) dict
    \<Rightarrow> (string, bytes) dict \<Rightarrow> bstore \<Rightarrow> (store_error + unit) \<times> bstore" where
  "write_backup cx nonce k indexes extra files s =
     (case missing_chunk indexes s of
        Some d \<Rightarrow> (Inl (Missing_chunk d), s)
      | None \<Rightarrow> record_backup cx nonce k indexes extra files s)"

text \<open>The complete backups, oldest first within each VM.\<close>

definition backups :: "bstore \<Rightarrow> (backup_key \<times> manifest) list" where
  "backups s =
     List.map_filter (\<lambda>(k, dir). map_option (Pair k) (bd_manifest dir)) (sort_key fst (st_dirs s))"

definition index_of :: "codec \<Rightarrow> backup_key \<Rightarrow> string \<Rightarrow> bstore \<Rightarrow> store_error + disk_index" where
  "index_of cx k disk s =
     rbind (some_or (Os_error ''no such file'') (Option.bind (dir_of k s) bd_manifest)) (\<lambda>m.
     rbind (safe_name disk) (\<lambda>name.
     rbind (some_or (Os_error ''no such file'') (Option.bind (dir_of k s) (\<lambda>d. map_of (bd_files d) (fidx name)))) (\<lambda>raw.
     rbind (some_or (Key_error disk) (map_of (mf_disks m) disk)) (\<lambda>(_, sha).
     if cx_sha256 cx raw \<noteq> sha then Inl (Value_error ''index does not match the manifest'')
     else index_decode cx raw))))"

definition delete_backup :: "backup_key \<Rightarrow> bstore \<Rightarrow> (store_error + unit) \<times> bstore" where
  "delete_backup k s =
     (if dir_of k s = None then (Inl (Os_error ''no such file''), s)
      else (Inr (), s\<lparr>st_dirs := dict_del k (st_dirs s)\<rparr>))"

section \<open>Verification\<close>

text \<open>\<open>verify\<close>'s loop over a disk's chunks: the digests found bad and those already looked at. A damaged chunk is put aside, so
  the next backup of its content writes it again.\<close>

type_synonym checked = "bytes list \<times> bytes list"

fun verify_chunks :: "codec \<Rightarrow> disk_index \<Rightarrow> nat \<Rightarrow> bytes list \<Rightarrow> checked \<Rightarrow> bstore \<Rightarrow> checked \<times> bstore" where
  "verify_chunks cx ix i [] c s = (c, s)"
| "verify_chunks cx ix i (d # ds) (bad, checked) s =
     (if d \<in> set checked then verify_chunks cx ix (Suc i) ds (bad, checked) s
      else case get cx d (chunk_length (ix_chunk_size ix) (ix_size ix) i) s of
          Inr _ \<Rightarrow> verify_chunks cx ix (Suc i) ds (bad, d # checked) s
        | Inl (Damaged_chunk _ _) \<Rightarrow>
            verify_chunks cx ix (Suc i) ds (bad @ [d], d # checked) (snd (os_replace (Chunk d) (Bad (Chunk d)) s))
        | Inl _ \<Rightarrow> verify_chunks cx ix (Suc i) ds (bad @ [d], d # checked) s)"

fun verify_disks :: "codec \<Rightarrow> backup_key \<Rightarrow> string list \<Rightarrow> checked \<Rightarrow> bstore \<Rightarrow> (store_error + checked) \<times> bstore" where
  "verify_disks cx k [] c s = (Inr c, s)"
| "verify_disks cx k (disk # disks) c s =
     (case index_of cx k disk s of
        Inl e \<Rightarrow> (Inl e, s)
      | Inr ix \<Rightarrow> (let (c', s') = verify_chunks cx ix 0 (ix_digests ix) c s in verify_disks cx k disks c' s'))"

definition verify :: "codec \<Rightarrow> backup_key \<Rightarrow> bstore \<Rightarrow> (store_error + bytes list) \<times> bstore" where
  "verify cx k s =
     (case Option.bind (dir_of k s) bd_manifest of
        None \<Rightarrow> (Inl (Os_error ''no such file''), s)
      | Some m \<Rightarrow>
          (case verify_disks cx k (keys (mf_disks m)) ([], []) s of
             (Inl e, s') \<Rightarrow> (Inl e, s')
           | (Inr (bad, _), s') \<Rightarrow> (Inr bad, s')))"

text \<open>\<open>check_blob\<close>: a chunk's file as it is, its CRC checked.\<close>

definition check_blob :: "codec \<Rightarrow> bytes \<Rightarrow> bstore \<Rightarrow> store_error + bytes" where
  "check_blob cx d s =
     rbind (some_or (Os_error ''no such file'') (map_of (st_files s) (Chunk d))) (\<lambda>b.
     rbind (check_blob_bytes cx d (cb_bytes b)) (\<lambda>_. Inr (cb_bytes b)))"

section \<open>The copy of a backup\<close>

definition same_chunks_as :: "bstore \<Rightarrow> bstore \<Rightarrow> bool" where
  "same_chunks_as s other \<longleftrightarrow> st_chunk_size s = st_chunk_size other \<and> st_encrypted s = st_encrypted other
     \<and> st_fingerprint s = st_fingerprint other"

fun copy_chunks :: "codec \<Rightarrow> seconds \<Rightarrow> bstore \<Rightarrow> bytes list \<Rightarrow> nat \<Rightarrow> bstore \<Rightarrow> (store_error + nat) \<times> bstore" where
  "copy_chunks cx now source [] copied s = (Inr copied, s)"
| "copy_chunks cx now source (d # ds) copied s =
     (case os_utime now (Chunk d) s of
        (True, s') \<Rightarrow> copy_chunks cx now source ds copied s'
      | (False, _) \<Rightarrow>
          (case check_blob cx d source of
             Inl e \<Rightarrow> (Inl e, s)
           | Inr blob \<Rightarrow> copy_chunks cx now source ds (Suc copied) (write_atomic now (Chunk d) blob s)))"

fun copy_disks :: "codec \<Rightarrow> seconds \<Rightarrow> bstore \<Rightarrow> backup_key \<Rightarrow> string list \<Rightarrow> nat \<Rightarrow> bstore \<Rightarrow> (store_error + nat) \<times> bstore" where
  "copy_disks cx now source k [] copied s = (Inr copied, s)"
| "copy_disks cx now source k (disk # disks) copied s =
     (case index_of cx k disk source of
        Inl e \<Rightarrow> (Inl e, s)
      | Inr ix \<Rightarrow>
          (case copy_chunks cx now source (used_digests ix) copied s of
             (Inl e, s') \<Rightarrow> (Inl e, s')
           | (Inr n, s') \<Rightarrow> copy_disks cx now source k disks n s'))"

fun copy_files :: "(string, bytes) dict \<Rightarrow> bdir \<Rightarrow> (store_error + unit) \<times> bdir" where
  "copy_files [] dir = (Inr (), dir)"
| "copy_files ((name, data) # rest) dir =
     (case safe_name name of
        Inl e \<Rightarrow> (Inl e, dir)
      | Inr n \<Rightarrow> copy_files rest (dir\<lparr>bd_files := dict_set n data (bd_files dir)\<rparr>))"

definition has_manifest :: "backup_key \<Rightarrow> bstore \<Rightarrow> bool" where
  "has_manifest k s \<longleftrightarrow> Option.bind (dir_of k s) bd_manifest \<noteq> None"

definition copy_backup_from :: "codec \<Rightarrow> seconds \<Rightarrow> bstore \<Rightarrow> backup_key \<Rightarrow> bstore \<Rightarrow> (store_error + nat) \<times> bstore" where
  "copy_backup_from cx now source k s =
     (if \<not> same_chunks_as s source
      then (Inl (Store_error ''The two stores do not share their chunk size and key''), s)
      else if has_manifest k s then (Inr 0, s)
      else case dir_of k source of
        None \<Rightarrow> (Inl (Os_error ''no such file''), s)
      | Some from \<Rightarrow>
        (case bd_manifest from of
           None \<Rightarrow> (Inl (Os_error ''no such file''), s)
         | Some m \<Rightarrow>
           (case copy_disks cx now source k (keys (mf_disks m)) 0 s of
              (Inl e, s') \<Rightarrow> (Inl e, s')
            | (Inr copied, s') \<Rightarrow>
                let there = (case dir_of k s' of None \<Rightarrow> \<lparr>bd_files = [], bd_manifest = None\<rparr> | Some d \<Rightarrow> d) in
                case copy_files (sort_key fst (bd_files from)) there of
                  (Inl e, dir) \<Rightarrow> (Inl e, s'\<lparr>st_dirs := dict_set k dir (st_dirs s')\<rparr>)
                | (Inr _, dir) \<Rightarrow>
                    (Inr copied, s'\<lparr>st_dirs := dict_set k
                       (dir\<lparr>bd_manifest := Some (m\<lparr>mf_store := st_id s, mf_copied_from := Some (st_id source)\<rparr>)\<rparr>)
                       (st_dirs s')\<rparr>))))"

section \<open>Garbage collection\<close>

definition GC_GRACE_S :: seconds where "GC_GRACE_S = 24 * 3600 + 300"

text \<open>\<open>_sweep\<close> in the three moves another process may come between: the first look, the renaming, and the second look with
  what it decides.\<close>

definition sweep_look :: "seconds \<Rightarrow> cfile \<Rightarrow> bstore \<Rightarrow> bool" where
  "sweep_look cutoff f s = (case map_of (st_files s) f of None \<Rightarrow> False | Some b \<Rightarrow> \<not> cb_atime b \<ge> cutoff)"

definition sweep_rename :: "cfile \<Rightarrow> bstore \<Rightarrow> bool \<times> bstore" where
  "sweep_rename f s = os_replace f (Sweep f) s"

definition sweep_end :: "seconds \<Rightarrow> cfile \<Rightarrow> bstore \<Rightarrow> nat option \<times> bstore" where
  "sweep_end cutoff f s =
     (case map_of (st_files s) (Sweep f) of
        None \<Rightarrow> (None, s)
      | Some b \<Rightarrow>
          if cb_atime b \<ge> cutoff then (None, snd (os_replace (Sweep f) f s))
          else (Some (length (cb_bytes b)), os_unlink (Sweep f) s))"

definition sweep :: "seconds \<Rightarrow> cfile \<Rightarrow> bstore \<Rightarrow> nat option \<times> bstore" where
  "sweep cutoff f s =
     (if \<not> sweep_look cutoff f s then (None, s)
      else let (there, s') = sweep_rename f s in if there then sweep_end cutoff f s' else (None, s'))"

text \<open>A file left by a collection that stopped between its rename and its check goes back first.\<close>

definition put_back :: "cfile \<Rightarrow> bstore \<Rightarrow> bstore" where
  "put_back f s = (case f of
       Sweep g \<Rightarrow> if file_exists g s then os_unlink f s else snd (os_replace f g s)
     | _ \<Rightarrow> s)"

definition swept_name :: "cfile \<Rightarrow> cfile" where
  "swept_name f = (case f of Sweep g \<Rightarrow> g | _ \<Rightarrow> f)"

record gc_result =
  gc_marked :: nat
  gc_removed :: nat
  gc_freed :: nat
  gc_kept :: nat

definition collect_file :: "seconds \<Rightarrow> cfile \<Rightarrow> gc_result \<times> bstore \<Rightarrow> gc_result \<times> bstore" where
  "collect_file cutoff f rs =
     (let (r, s) = rs; s' = put_back f s; g = swept_name f in
      if g \<noteq> f \<and> \<not> file_exists g s' then (r, s')
      else case sweep cutoff g s' of
          (None, s'') \<Rightarrow> (r\<lparr>gc_kept := gc_kept r + 1\<rparr>, s'')
        | (Some n, s'') \<Rightarrow> (r\<lparr>gc_removed := gc_removed r + 1, gc_freed := gc_freed r + n\<rparr>, s''))"

definition mark_chunk :: "seconds \<Rightarrow> bytes \<Rightarrow> gc_result \<times> bstore \<Rightarrow> gc_result \<times> bstore" where
  "mark_chunk now d rs = (case os_utime now (Chunk d) (snd rs) of
       (True, s') \<Rightarrow> ((fst rs)\<lparr>gc_marked := gc_marked (fst rs) + 1\<rparr>, s')
     | (False, _) \<Rightarrow> rs)"

fun mark_disks :: "codec \<Rightarrow> seconds \<Rightarrow> (backup_key \<times> string) list \<Rightarrow> gc_result \<times> bstore
    \<Rightarrow> (store_error + gc_result) \<times> bstore" where
  "mark_disks cx now [] rs = (Inr (fst rs), snd rs)"
| "mark_disks cx now ((k, disk) # todo) rs =
     (case index_of cx k disk (snd rs) of
        Inl _ \<Rightarrow> (Inl (Store_error ''garbage collection stopped, backup unreadable''), snd rs)
      | Inr ix \<Rightarrow> mark_disks cx now todo (foldl (\<lambda>rs d. mark_chunk now d rs) rs (used_digests ix)))"

definition listed_disks :: "bstore \<Rightarrow> (backup_key \<times> string) list" where
  "listed_disks s = concat (map (\<lambda>(k, m). map (Pair k) (keys (mf_disks m))) (backups s))"

text \<open>\<open>free\<close>: whether no other collection on this node holds the store's lock.\<close>

definition collect_garbage :: "codec \<Rightarrow> seconds \<Rightarrow> bool \<Rightarrow> bstore \<Rightarrow> (store_error + gc_result) \<times> bstore" where
  "collect_garbage cx now free s =
     (if \<not> free then (Inl (Os_error ''resource temporarily unavailable''), s)
      else case mark_disks cx now (listed_disks s) (\<lparr>gc_marked = 0, gc_removed = 0, gc_freed = 0, gc_kept = 0\<rparr>, s) of
          (Inl e, s') \<Rightarrow> (Inl e, s')
        | (Inr r, s') \<Rightarrow>
            let (r', s'') = foldl (\<lambda>rs f. collect_file (now - GC_GRACE_S) f rs) (r, s') (keys (st_files s'))
            in (Inr r', s''))"

end
