(* ===== verification/Chunk_Props.thy ===== *)
theory Chunk_Props
  imports Chunk_Store
begin

text \<open>
  What a backup store keeps: a disk read into it comes back byte for byte, whatever else was stored; a restore gives the
  disk or raises, whatever happened to the files; reading only the changed blocks gives the index a whole read gives; a
  damaged chunk put aside by the verification is written again by the next backup of its content.

  The contract of the chunks is the locale \<open>chunk_keeper\<close>: what was kept is fetched back, and keeping more loses nothing.
\<close>

section \<open>The contract of the chunks\<close>

fun keep_all :: "('n \<Rightarrow> 'c \<Rightarrow> 's \<Rightarrow> ('e + 'd) \<times> 's) \<Rightarrow> ('n \<times> 'c) list \<Rightarrow> 's \<Rightarrow> ('e + 'd list) \<times> 's" where
  "keep_all keep [] s = (Inr [], s)"
| "keep_all keep ((n, c) # ncs) s =
     (case keep n c s of
        (Inl e, s') \<Rightarrow> (Inl e, s')
      | (Inr d, s') \<Rightarrow>
          (case keep_all keep ncs s' of
             (Inl e, s'') \<Rightarrow> (Inl e, s'')
           | (Inr ds, s'') \<Rightarrow> (Inr (d # ds), s'')))"

locale chunk_keeper =
  fixes keep :: "'n \<Rightarrow> 'c \<Rightarrow> 's \<Rightarrow> ('e + 'd) \<times> 's"
    and fetch :: "'d \<Rightarrow> nat \<Rightarrow> 's \<Rightarrow> 'e + 'c"
    and measure_of :: "'c \<Rightarrow> nat"
    and good :: "'s \<Rightarrow> bool"
    and fit :: "'n \<Rightarrow> 'c \<Rightarrow> bool"
  assumes keep_works: "good s \<Longrightarrow> fit n c \<Longrightarrow> \<exists>d s'. keep n c s = (Inr d, s')"
    and keep_good: "good s \<Longrightarrow> fit n c \<Longrightarrow> keep n c s = (Inr d, s') \<Longrightarrow> good s'"
    and keep_fetch: "good s \<Longrightarrow> fit n c \<Longrightarrow> keep n c s = (Inr d, s') \<Longrightarrow> fetch d (measure_of c) s' = Inr c"
    and keep_others: "keep n c s = (r, s') \<Longrightarrow> fetch d m s = Inr x \<Longrightarrow> fetch d m s' = Inr x"
begin

lemma keep_all_others: "keep_all keep ncs s = (r, s') \<Longrightarrow> fetch d m s = Inr x \<Longrightarrow> fetch d m s' = Inr x"
proof (induction ncs arbitrary: s r)
  case (Cons nc ncs)
  obtain n c where nc: "nc = (n, c)" by (cases nc)
  obtain q t where k: "keep n c s = (q, t)" by (cases "keep n c s")
  have t: "fetch d m t = Inr x" using keep_others [OF k Cons.prems(2)] .
  show ?case
  proof (cases q)
    case (Inl e)
    then show ?thesis using Cons.prems(1) t by (simp add: nc k)
  next
    case (Inr b)
    obtain q2 u where "keep_all keep ncs t = (q2, u)" by (cases "keep_all keep ncs t")
    then show ?thesis using Cons.IH [OF _ t] Cons.prems(1) Inr by (auto simp: nc k split: sum.splits)
  qed
qed simp

lemma keep_all_fetch:
  assumes "good s" and "list_all (\<lambda>(n, c). fit n c) ncs"
  shows "\<exists>ds s'. keep_all keep ncs s = (Inr ds, s') \<and> good s'
    \<and> list_all2 (\<lambda>d (n, c). fetch d (measure_of c) s' = Inr c) ds ncs"
  using assms
proof (induction ncs arbitrary: s)
  case (Cons nc ncs)
  obtain n c where nc: "nc = (n, c)" by (cases nc)
  then have fc: "fit n c" using Cons.prems by simp
  obtain d t where k: "keep n c s = (Inr d, t)" using keep_works [OF Cons.prems(1) fc] by blast
  obtain ds s' where r: "keep_all keep ncs t = (Inr ds, s')" "good s'"
      "list_all2 (\<lambda>d (n, c). fetch d (measure_of c) s' = Inr c) ds ncs"
    using Cons.IH [OF keep_good [OF Cons.prems(1) fc k]] Cons.prems(2) by auto
  have "fetch d (measure_of c) s' = Inr c"
    using keep_all_others [OF r(1)] keep_fetch [OF Cons.prems(1) fc k] by blast
  then show ?case using r by (simp add: nc k)
qed simp

end

section \<open>Files\<close>

definition fbytes :: "bstore \<Rightarrow> cfile \<Rightarrow> bytes option" where
  "fbytes s f = map_option cb_bytes (map_of (st_files s) f)"

lemma fbytes_write [simp]: "fbytes (write_atomic now f data s) = (fbytes s)(f \<mapsto> data)"
  by (auto simp: fbytes_def write_atomic_def)

lemma fbytes_utime [simp]: "fbytes (snd (os_utime now f s)) = fbytes s"
  by (auto simp: fbytes_def os_utime_def split: option.splits)

lemma os_utime_there [simp]: "fst (os_utime now f s) \<longleftrightarrow> fbytes s f \<noteq> None"
  by (auto simp: fbytes_def os_utime_def split: option.splits)

lemma fbytes_replace:
  "f \<noteq> g \<Longrightarrow> fbytes (snd (os_replace f g s)) = (if fbytes s f = None then fbytes s else (fbytes s)(f := None, g := fbytes s f))"
  by (auto simp: fbytes_def os_replace_def fun_eq_iff split: option.splits)

lemma fixed_parts [simp]:
  "st_chunk_size (write_atomic now f data s) = st_chunk_size s" "st_chunk_size (snd (os_utime now f s)) = st_chunk_size s"
  "st_dirs (write_atomic now f data s) = st_dirs s" "st_dirs (snd (os_utime now f s)) = st_dirs s"
  "st_chunk_size (snd (os_replace f g s)) = st_chunk_size s" "st_dirs (snd (os_replace f g s)) = st_dirs s"
  by (auto simp: write_atomic_def os_utime_def os_replace_def split: option.splits)

lemma get_fbytes:
  "get cx d n s = (if d = ZERO then Inr (replicate n 0) else
     case fbytes s (Chunk d) of None \<Rightarrow> Inl (Missing_chunk d) | Some bs \<Rightarrow> chunk_decode cx d bs)"
  by (simp add: get_def fbytes_def split: option.splits)

lemma chunk_decode_error: "chunk_decode cx d bs = Inl e \<Longrightarrow> \<exists>why. e = Damaged_chunk d why"
  by (auto simp: chunk_decode_def Let_def some_or_def rbind_Inl_iff split: if_splits option.splits)

lemma get_error:
  "get cx d n s = Inl e \<Longrightarrow> e = Missing_chunk d \<and> fbytes s (Chunk d) = None \<or> (\<exists>why. e = Damaged_chunk d why)"
  by (auto simp: get_fbytes split: if_splits option.splits dest: chunk_decode_error)

section \<open>Chunks\<close>

abbreviation all_zero :: "bytes \<Rightarrow> bool" where
  "all_zero c \<equiv> \<forall>b \<in> set c. b = 0"

text \<open>The entry of a content in an index.\<close>

definition chunk_id :: "codec \<Rightarrow> bytes \<Rightarrow> bytes" where
  "chunk_id cx c = (if all_zero c then ZERO else digest cx c)"

text \<open>No two of the contents \<open>C\<close> have the same digest, and none has the digest of zeros.\<close>

definition no_clash :: "codec \<Rightarrow> bytes set \<Rightarrow> bool" where
  "no_clash cx C \<longleftrightarrow> inj_on (digest cx) C \<and> ZERO \<notin> digest cx ` C"

definition contents :: "codec \<Rightarrow> bstore \<Rightarrow> bytes set" where
  "contents cx s = {c. \<exists>d bs. fbytes s (Chunk d) = Some bs \<and> chunk_decode cx d bs = Inr c}"

text \<open>Every chunk of the store under the digest of one of the contents \<open>C\<close> reads back as it.\<close>

definition sound :: "codec \<Rightarrow> bytes set \<Rightarrow> bstore \<Rightarrow> bool" where
  "sound cx C s \<longleftrightarrow> codec_ok cx \<and> no_clash cx C
     \<and> (\<forall>c \<in> C. \<forall>bs. fbytes s (Chunk (digest cx c)) = Some bs \<longrightarrow> chunk_decode cx (digest cx c) bs = Inr c)"

lemma put_cases:
  assumes "put cx nonce now c s = (r, s')"
  obtains (zero) "all_zero c" "r = Inr ZERO" "s' = s"
  | (there) "\<not> all_zero c" "r = Inr (digest cx c)" "fbytes s (Chunk (digest cx c)) \<noteq> None"
      "s' = snd (os_utime now (Chunk (digest cx c)) s)"
  | (new) blob where "\<not> all_zero c" "r = Inr (digest cx c)" "fbytes s (Chunk (digest cx c)) = None"
      "chunk_encode cx nonce (digest cx c) c = Inr blob" "s' = write_atomic now (Chunk (digest cx c)) blob s"
  | (large) e where "\<not> all_zero c" "r = Inl e" "chunk_encode cx nonce (digest cx c) c = Inl e" "s' = s"
proof (cases "all_zero c")
  case True
  then show ?thesis using assms zero by (auto simp: put_def)
next
  case False
  obtain b t where u: "os_utime now (Chunk (digest cx c)) s = (b, t)" by (cases "os_utime now (Chunk (digest cx c)) s")
  have b: "b \<longleftrightarrow> fbytes s (Chunk (digest cx c)) \<noteq> None" and t: "t = snd (os_utime now (Chunk (digest cx c)) s)"
    using os_utime_there [of now "Chunk (digest cx c)" s] by (simp_all add: u)
  have p: "put cx nonce now c s = (if b then (Inr (digest cx c), t)
      else case chunk_encode cx nonce (digest cx c) c of Inl e \<Rightarrow> (Inl e, s)
        | Inr blob \<Rightarrow> (Inr (digest cx c), write_atomic now (Chunk (digest cx c)) blob s))"
    using False by (auto simp: put_def Let_def u split: bool.splits)
  show ?thesis
  proof (cases b)
    case True
    then show ?thesis using there False assms b t p by simp
  next
    case nb: False
    show ?thesis
    proof (cases "chunk_encode cx nonce (digest cx c) c")
      case (Inl e)
      show ?thesis by (rule large [of e]) (use nb False assms p Inl in auto)
    next
      case (Inr blob)
      show ?thesis by (rule new [of blob]) (use nb False assms p b Inr in auto)
    qed
  qed
qed

lemma put_id: "put cx nonce now c s = (Inr d, s') \<Longrightarrow> d = chunk_id cx c"
  by (erule put_cases) (auto simp: chunk_id_def)

lemma put_fbytes:
  assumes "put cx nonce now c s = (r, s')"
  shows "fbytes s' = fbytes s \<or> fbytes s (Chunk (digest cx c)) = None \<and>
    (\<exists>blob. chunk_encode cx nonce (digest cx c) c = Inr blob \<and> fbytes s' = (fbytes s)(Chunk (digest cx c) \<mapsto> blob))"
  using assms by (rule put_cases) auto

lemma put_keeps_get:
  assumes "put cx nonce now c s = (r, s')" and "get cx d n s = Inr x"
  shows "get cx d n s' = Inr x"
  using put_fbytes [OF assms(1)] assms(2) by (auto simp: get_fbytes split: option.splits if_splits)

lemma put_chunk_size: "put cx nonce now c s = (r, s') \<Longrightarrow> st_chunk_size s' = st_chunk_size s"
  by (erule put_cases) simp_all

lemma encode_works: "length c < 2 ^ 32 \<Longrightarrow> \<exists>blob. chunk_encode cx nonce d c = Inr blob"
  by (auto simp: chunk_encode_def blob_of_def pack_I_def Let_def split: prod.splits)

lemma put_works: "length c < 2 ^ 32 \<Longrightarrow> \<exists>s'. put cx nonce now c s = (Inr (chunk_id cx c), s')"
  using encode_works [of c cx nonce "digest cx c"]
  by (cases "put cx nonce now c s") (auto elim!: put_cases simp: chunk_id_def)

lemma put_sound:
  assumes p: "put cx nonce now c s = (r, s')" and s: "sound cx C s" and c: "all_zero c \<or> c \<in> C" and n: "length nonce = NONCE"
  shows "sound cx C s'"
proof -
  have cx: "codec_ok cx" using s by (simp add: sound_def)
  consider "fbytes s' = fbytes s" | blob where "\<not> all_zero c"
      "chunk_encode cx nonce (digest cx c) c = Inr blob" "fbytes s' = (fbytes s)(Chunk (digest cx c) \<mapsto> blob)"
    using p by (rule put_cases) auto
  then show ?thesis
  proof cases
    case 1
    then show ?thesis using s by (simp add: sound_def)
  next
    case (2 blob)
    then have "c \<in> C \<and> chunk_decode cx (digest cx c) blob = Inr c"
      using chunk_decode_encode [OF cx n 2(2)] c by blast
    then show ?thesis using s 2(3) by (auto simp: sound_def no_clash_def dest: inj_onD)
  qed
qed

definition present :: "bytes \<Rightarrow> bstore \<Rightarrow> bool" where
  "present d s \<longleftrightarrow> d = ZERO \<or> fbytes s (Chunk d) \<noteq> None"

lemma present_get:
  assumes s: "sound cx C s" and c: "all_zero c \<or> c \<in> C" and p: "present (chunk_id cx c) s"
  shows "get cx (chunk_id cx c) (length c) s = Inr c"
proof (cases "all_zero c")
  case True
  then have "replicate (length c) 0 = c" by (simp add: replicate_length_same)
  then show ?thesis using True by (simp add: get_fbytes chunk_id_def)
next
  case False
  then have z: "digest cx c \<noteq> ZERO" using s c by (auto simp: sound_def no_clash_def image_def)
  then obtain bs where bs: "fbytes s (Chunk (digest cx c)) = Some bs"
    using p False by (auto simp: present_def chunk_id_def)
  then have "chunk_decode cx (digest cx c) bs = Inr c" using s c False by (auto simp: sound_def)
  moreover have "chunk_id cx c = digest cx c" using False by (simp only: chunk_id_def if_False)
  ultimately show ?thesis using bs z by (simp add: get_fbytes)
qed

lemma put_present: "put cx nonce now c s = (Inr d, s') \<Longrightarrow> d = chunk_id cx c \<and> present d s'"
  by (erule put_cases) (auto simp: chunk_id_def present_def)

lemma put_get:
  assumes p: "put cx nonce now c s = (Inr d, s')" and s: "sound cx C s" and c: "all_zero c \<or> c \<in> C" and n: "length nonce = NONCE"
  shows "get cx d (length c) s' = Inr c"
  using present_get [OF put_sound [OF p s c n] c] put_present [OF p] by blast

definition fitting :: "bytes set \<Rightarrow> bytes \<Rightarrow> bytes \<Rightarrow> bool" where
  "fitting C nonce c \<longleftrightarrow> length nonce = NONCE \<and> length c < 2 ^ 32 \<and> (all_zero c \<or> c \<in> C)"

interpretation ck: chunk_keeper "\<lambda>nonce. put cx nonce now" "get cx" length "sound cx C" "fitting C" for cx now C
proof unfold_locales
  fix s n c d s'
  show "\<exists>d s'. put cx n now c s = (Inr d, s')" if "sound cx C s" "fitting C n c"
    using put_works that(2) unfolding fitting_def by blast
  show "sound cx C s'" if "sound cx C s" "fitting C n c" "put cx n now c s = (Inr d, s')"
    using put_sound [OF that(3,1)] that(2) by (simp add: fitting_def)
  show "get cx d (length c) s' = Inr c" if "sound cx C s" "fitting C n c" "put cx n now c s = (Inr d, s')"
    using put_get [OF that(3,1)] that(2) by (simp add: fitting_def)
qed (rule put_keeps_get)

section \<open>Disks\<close>

definition piece :: "nat \<Rightarrow> bytes \<Rightarrow> nat \<Rightarrow> bytes" where
  "piece cs disk i = take cs (drop (i * cs) disk)"

definition pieces :: "nat \<Rightarrow> bytes \<Rightarrow> bytes list" where
  "pieces cs disk = map (piece cs disk) [0..<chunk_count (length disk) cs]"

text \<open>The index a whole read of a disk gives.\<close>

definition whole_index :: "codec \<Rightarrow> nat \<Rightarrow> bytes \<Rightarrow> disk_index" where
  "whole_index cx cs disk = \<lparr>ix_size = length disk, ix_chunk_size = cs, ix_digests = map (chunk_id cx) (pieces cs disk)\<rparr>"

lemma length_piece: "length (piece cs disk i) = chunk_length cs (length disk) i"
  by (simp add: piece_def chunk_length_def)

lemma length_pieces [simp]: "length (pieces cs disk) = chunk_count (length disk) cs"
  by (simp add: pieces_def)

lemma concat_pieces_upto: "concat (map (piece cs disk) [0..<n]) = take (n * cs) disk"
  by (induction n) (simp_all add: piece_def take_add add.commute [of cs])

lemma chunk_count_covers: "0 < cs \<Longrightarrow> sz \<le> chunk_count sz cs * cs"
proof -
  assume cs: "0 < cs"
  have "sz + cs - 1 < cs + (sz + cs - 1) div cs * cs"
    using div_mult_mod_eq [of "sz + cs - 1" cs] mod_less_divisor [OF cs, of "sz + cs - 1"] by linarith
  then show ?thesis by (simp add: chunk_count_def)
qed

lemma chunk_count_bound: "i < chunk_count sz cs \<Longrightarrow> i * cs < sz"
proof -
  assume i: "i < chunk_count sz cs"
  then have cs: "0 < cs" by (cases cs) (simp_all add: chunk_count_def)
  have "(i + 1) * cs \<le> (sz + cs - 1) div cs * cs" using i by (intro mult_right_mono) (simp_all add: chunk_count_def)
  also have "\<dots> \<le> sz + cs - 1" by simp
  finally show ?thesis using cs by simp
qed

lemma concat_pieces: "0 < cs \<Longrightarrow> concat (pieces cs disk) = disk"
  using chunk_count_covers [of cs "length disk"] by (simp add: pieces_def concat_pieces_upto)

lemma length_chunk_id: "codec_ok cx \<Longrightarrow> length (chunk_id cx c) = 32"
  by (simp add: chunk_id_def ZERO_def length_digest)

lemma whole_index_ok: "codec_ok cx \<Longrightarrow> 0 < cs \<Longrightarrow> index_ok (whole_index cx cs disk)"
  by (auto simp: index_ok_def whole_index_def length_chunk_id)

text \<open>The loops put the pieces one after the other.\<close>

definition puts :: "codec \<Rightarrow> seconds \<Rightarrow> (nat \<Rightarrow> bytes) \<Rightarrow> (nat \<Rightarrow> bytes) \<Rightarrow> nat list \<Rightarrow> bstore \<Rightarrow> (store_error + bytes list) \<times> bstore" where
  "puts cx now nonce cont is s = keep_all (\<lambda>n. put cx n now) (map (\<lambda>i. (nonce i, cont i)) is) s"

definition after_these :: "bytes list \<Rightarrow> (store_error + bytes list) \<times> bstore \<Rightarrow> (store_error + bytes list) \<times> bstore" where
  "after_these ds r = (map_sum id ((@) ds) (fst r), snd r)"

lemma puts_Cons:
  "after_these ds (puts cx now nonce cont (i # is) s) =
     (case put cx (nonce i) now (cont i) s of (Inl e, s') \<Rightarrow> (Inl e, s')
        | (Inr d, s') \<Rightarrow> after_these (ds @ [d]) (puts cx now nonce cont is s'))"
  by (auto simp: puts_def after_these_def split: sum.splits prod.splits)

lemma min_chunk_length [simp]: "min (sz - i * cs) (chunk_length cs sz i) = chunk_length cs sz i"
  by (simp add: chunk_length_def)

lemma write_loop_puts:
  "write_loop cx nonce now (\<lambda>off n. take n (drop off disk)) (length disk) is ds s
     = after_these ds (puts cx now nonce (piece (st_chunk_size s) disk) is s)"
proof (induction "is" arbitrary: ds s)
  case (Cons i "is")
  have "take (chunk_length (st_chunk_size s) (length disk) i) (drop (i * st_chunk_size s) disk) = piece (st_chunk_size s) disk i"
    by (simp add: piece_def chunk_length_def min_def)
  moreover obtain q t where p: "put cx (nonce i) now (piece (st_chunk_size s) disk i) s = (q, t)"
    by (cases "put cx (nonce i) now (piece (st_chunk_size s) disk i) s")
  ultimately show ?case unfolding puts_Cons using Cons.IH [of _ t, unfolded put_chunk_size [OF p]]
    by (simp add: Let_def length_piece p split: sum.splits)
qed (simp add: puts_def after_these_def)

lemma stream_loop_puts:
  assumes "0 < st_chunk_size s" and "n \<le> chunk_count (length disk) (st_chunk_size s)" and "k \<le> n"
  shows "stream_loop cx nonce now (length disk) [k..<n] (drop (k * st_chunk_size s) disk) ds s
     = (case after_these ds (puts cx now nonce (piece (st_chunk_size s) disk) [k..<n] s) of
          (Inl e, s') \<Rightarrow> (Inl e, s') | (Inr ds', s') \<Rightarrow> (Inr (ds', drop (n * st_chunk_size s) disk), s'))"
  using assms
proof (induction "n - k" arbitrary: k ds s)
  case 0
  then show ?case by (simp add: puts_def after_these_def)
next
  case (Suc m)
  let ?cs = "st_chunk_size s"
  have k: "k < n" "[k..<n] = k # [Suc k..<n]" using Suc.hyps(2) by (simp_all add: upt_conv_Cons)
  then have kb: "k * ?cs < length disk" using Suc.prems(2) chunk_count_bound [of k "length disk" ?cs] by simp
  have r: "read_full (chunk_length ?cs (length disk) k) (drop (k * ?cs) disk)
      = Inr (piece ?cs disk k, drop (Suc k * ?cs) disk)"
  proof -
    have "drop (chunk_length ?cs (length disk) k) (drop (k * ?cs) disk) = drop (Suc k * ?cs) disk"
      using kb by (cases "?cs \<le> length disk - k * ?cs") (simp_all add: chunk_length_def add.commute)
    moreover have "take (chunk_length ?cs (length disk) k) (drop (k * ?cs) disk) = piece ?cs disk k"
      by (simp add: chunk_length_def piece_def min_def)
    ultimately show ?thesis by (simp add: read_full_def chunk_length_def)
  qed
  show ?case
  proof (cases "put cx (nonce k) now (piece ?cs disk k) s")
    case (Pair q t)
    have t: "st_chunk_size t = ?cs" by (rule put_chunk_size [OF Pair])
    have IH: "stream_loop cx nonce now (length disk) [Suc k..<n] (drop (Suc k * ?cs) disk) ds' t
       = (case after_these ds' (puts cx now nonce (piece ?cs disk) [Suc k..<n] t) of
          (Inl e, s') \<Rightarrow> (Inl e, s') | (Inr ds', s') \<Rightarrow> (Inr (ds', drop (n * ?cs) disk), s'))" for ds'
      using Suc.hyps(1) [of "Suc k" t ds', unfolded t] Suc.hyps(2) Suc.prems k by simp
    show ?thesis
      by (simp only: k(2) stream_loop.simps r sum.case prod.case puts_Cons Pair IH)
        (auto split: sum.splits prod.splits)
  qed
qed

lemma puts_ids: "puts cx now nonce cont is s = (Inr ds, s') \<Longrightarrow> ds = map (chunk_id cx \<circ> cont) is"
  by (induction "is" arbitrary: s ds s') (auto simp: puts_def split: sum.splits prod.splits dest: put_id)

lemma puts_chunk_size: "puts cx now nonce cont is s = (r, s') \<Longrightarrow> st_chunk_size s' = st_chunk_size s"
  by (induction "is" arbitrary: s r s') (auto simp: puts_def split: sum.splits prod.splits dest: put_chunk_size)

text \<open>Every piece of a disk short enough to be packed is put.\<close>

lemma puts_work:
  "\<forall>i \<in> set is. length (cont i) < 2 ^ 32 \<Longrightarrow> \<exists>s'. puts cx now nonce cont is s = (Inr (map (chunk_id cx \<circ> cont) is), s')"
proof (induction "is" arbitrary: s)
  case (Cons i "is")
  obtain t where t: "put cx (nonce i) now (cont i) s = (Inr (chunk_id cx (cont i)), t)"
    using put_works [of "cont i" cx "nonce i" now s] Cons.prems by auto
  obtain s' where "puts cx now nonce cont is t = (Inr (map (chunk_id cx \<circ> cont) is), s')"
    using Cons.IH [of t] Cons.prems by auto
  then show ?case using t by (simp add: puts_def)
qed (simp add: puts_def)

lemma length_piece_le: "length (piece cs disk i) \<le> cs"
  by (simp add: piece_def)

text \<open>A whole read gives the whole index, and puts the pieces.\<close>

lemma read_into_store_puts:
  assumes "0 < st_chunk_size s" and "st_chunk_size s < 2 ^ 32"
  shows "\<exists>s'. read_into_store cx nonce now True disk (length disk) s = (Inr (whole_index cx (st_chunk_size s) disk), s')
    \<and> puts cx now nonce (piece (st_chunk_size s) disk) [0..<chunk_count (length disk) (st_chunk_size s)] s
        = (Inr (map (chunk_id cx) (pieces (st_chunk_size s) disk)), s')"
proof -
  let ?cs = "st_chunk_size s" and ?n = "chunk_count (length disk) (st_chunk_size s)"
  have "\<forall>i \<in> set [0..<?n]. length (piece ?cs disk i) < 2 ^ 32"
    using assms(2) length_piece_le [of ?cs disk] by (auto intro: le_less_trans)
  then obtain s' where s': "puts cx now nonce (piece ?cs disk) [0..<?n] s
      = (Inr (map (chunk_id cx \<circ> piece ?cs disk) [0..<?n]), s')"
    using puts_work by blast
  have rest: "drop (?n * ?cs) disk = []" using chunk_count_covers [OF assms(1)] by simp
  have "stream_loop cx nonce now (length disk) [0..<?n] disk [] s = (Inr (map (chunk_id cx \<circ> piece ?cs disk) [0..<?n], []), s')"
    using stream_loop_puts [OF assms(1) order_refl, of 0 disk cx nonce now "[]"] s' rest by (simp add: after_these_def)
  then show ?thesis using s' assms(1) by (simp add: read_into_store_def whole_index_def pieces_def)
qed

lemma read_chunks_list:
  assumes "list_all2 (\<lambda>d c. get cx d (length c) s = Inr c) ds cs"
    and "\<And>j. j < length cs \<Longrightarrow> length (cs ! j) = chunk_length (ix_chunk_size ix) (ix_size ix) (i + j)"
  shows "read_chunks cx ix i ds s = Inr (concat cs)"
  using assms
proof (induction ds cs arbitrary: i rule: list_all2_induct)
  case (Cons d ds c cs)
  have "length c = chunk_length (ix_chunk_size ix) (ix_size ix) i" using Cons.prems [of 0] by simp
  moreover have "read_chunks cx ix (Suc i) ds s = Inr (concat cs)"
    using Cons.IH [of "Suc i"] Cons.prems [of "Suc j" for j] by simp
  ultimately show ?case using Cons.hyps(1) by simp
qed simp

lemma read_whole_index:
  assumes "0 < cs" and "list_all2 (\<lambda>d c. get cx d (length c) s = Inr c) (map (chunk_id cx) (pieces cs disk)) (pieces cs disk)"
  shows "read_disk cx (whole_index cx cs disk) s = Inr disk"
  using read_chunks_list [OF assms(2), of "whole_index cx cs disk" 0] concat_pieces [OF assms(1), of disk]
  by (simp add: read_disk_def whole_index_def length_piece pieces_def)

section \<open>What is there\<close>

definition holds :: "codec \<Rightarrow> nat \<Rightarrow> bytes \<Rightarrow> bstore \<Rightarrow> bool" where
  "holds cx cs disk s \<longleftrightarrow> (\<forall>c \<in> set (pieces cs disk). present (chunk_id cx c) s)"

definition covers :: "bytes set \<Rightarrow> nat \<Rightarrow> bytes \<Rightarrow> bool" where
  "covers C cs disk \<longleftrightarrow> (\<forall>c \<in> set (pieces cs disk). all_zero c \<or> c \<in> C)"

lemma holds_read:
  assumes "sound cx C s" and "covers C cs disk" and "holds cx cs disk s" and "0 < cs"
  shows "read_disk cx (whole_index cx cs disk) s = Inr disk"
proof (rule read_whole_index [OF assms(4)])
  show "list_all2 (\<lambda>d c. get cx d (length c) s = Inr c) (map (chunk_id cx) (pieces cs disk)) (pieces cs disk)"
    using present_get [OF assms(1)] assms(2,3) by (auto simp: list_all2_conv_all_nth covers_def holds_def)
qed

lemma puts_get:
  assumes "sound cx C s" and "\<forall>i \<in> set is. fitting C (nonce i) (cont i)"
  shows "\<exists>s'. puts cx now nonce cont is s = (Inr (map (chunk_id cx \<circ> cont) is), s') \<and> sound cx C s'
     \<and> (\<forall>i \<in> set is. present (chunk_id cx (cont i)) s')"
proof -
  obtain ds s' where r: "puts cx now nonce cont is s = (Inr ds, s')" "sound cx C s'"
      "list_all2 (\<lambda>d (n, c). get cx d (length c) s' = Inr c) ds (map (\<lambda>i. (nonce i, cont i)) is)"
    using ck.keep_all_fetch [OF assms(1), of "map (\<lambda>i. (nonce i, cont i)) is" now] assms(2)
    by (auto simp: puts_def list_all_iff)
  have ds: "ds = map (chunk_id cx \<circ> cont) is" by (rule puts_ids [OF r(1)])
  have "present (chunk_id cx (cont i)) s'" if i: "i \<in> set is" for i
  proof -
    obtain j where "j < length is" "i = is ! j" using i by (auto simp: in_set_conv_nth)
    then have "get cx (chunk_id cx (cont i)) (length (cont i)) s' = Inr (cont i)"
      using r(3) by (auto simp: ds list_all2_conv_all_nth)
    then show ?thesis by (auto simp: get_fbytes present_def split: if_splits option.splits)
  qed
  then show ?thesis using r ds by blast
qed

text \<open>What storing never takes away.\<close>

definition keeps_files :: "bstore \<Rightarrow> bstore \<Rightarrow> bool" where
  "keeps_files s s' \<longleftrightarrow> (\<forall>f bs. fbytes s f = Some bs \<longrightarrow> fbytes s' f = Some bs) \<and> st_dirs s' = st_dirs s
     \<and> st_chunk_size s' = st_chunk_size s"

lemma keeps_files_refl [simp]: "keeps_files s s"
  by (simp add: keeps_files_def)

lemma keeps_files_trans: "keeps_files s t \<Longrightarrow> keeps_files t u \<Longrightarrow> keeps_files s u"
  by (simp add: keeps_files_def)

lemma put_keeps_files: "put cx nonce now c s = (r, s') \<Longrightarrow> keeps_files s s'"
  by (erule put_cases) (auto simp: keeps_files_def)

lemma puts_keeps_files: "puts cx now nonce cont is s = (r, s') \<Longrightarrow> keeps_files s s'"
proof (induction "is" arbitrary: s r)
  case (Cons i "is")
  obtain q t where p: "put cx (nonce i) now (cont i) s = (q, t)" by (cases "put cx (nonce i) now (cont i) s")
  have "keeps_files t s'" if "q = Inr d" for d
    using Cons.IH [of t] Cons.prems that by (auto simp: puts_def p split: sum.splits prod.splits)
  moreover have "q = Inl e \<Longrightarrow> s' = t" for e using Cons.prems by (simp add: puts_def p)
  ultimately show ?case using put_keeps_files [OF p] by (cases q) (auto intro: keeps_files_trans)
qed (simp add: puts_def)

lemma keeps_files_present: "keeps_files s s' \<Longrightarrow> present d s \<Longrightarrow> present d s'"
  by (auto simp: keeps_files_def present_def)

lemma keeps_files_holds: "keeps_files s s' \<Longrightarrow> holds cx cs disk s \<Longrightarrow> holds cx cs disk s'"
  by (auto simp: holds_def keeps_files_present)

lemma keeps_files_get: "keeps_files s s' \<Longrightarrow> get cx d n s = Inr c \<Longrightarrow> get cx d n s' = Inr c"
  by (auto simp: get_fbytes keeps_files_def split: if_splits option.splits)

lemma keeps_files_read:
  assumes "keeps_files s s'" shows "read_chunks cx ix i ds s = Inr b \<Longrightarrow> read_chunks cx ix i ds s' = Inr b"
  by (induction ds arbitrary: i b) (auto simp: py_simps keeps_files_get [OF assms])

lemma piece_fitting:
  assumes "covers C cs disk" and "i < chunk_count (length disk) cs" and "cs < 2 ^ 32" and "length (nonce i) = NONCE"
  shows "fitting C (nonce i) (piece cs disk i)"
  using assms length_piece_le [of cs disk i] by (auto simp: fitting_def covers_def pieces_def)

text \<open>A whole read: the whole index, the store sound and holding the disk.\<close>

lemma read_into_store_whole:
  assumes s: "sound cx C s" and cs: "0 < st_chunk_size s" "st_chunk_size s < 2 ^ 32" and C: "covers C (st_chunk_size s) disk"
    and n: "\<forall>i. length (nonce i) = NONCE"
  shows "\<exists>s'. read_into_store cx nonce now True disk (length disk) s = (Inr (whole_index cx (st_chunk_size s) disk), s')
    \<and> sound cx C s' \<and> holds cx (st_chunk_size s) disk s' \<and> keeps_files s s'"
proof -
  let ?cs = "st_chunk_size s" and ?is = "[0..<chunk_count (length disk) (st_chunk_size s)]"
  obtain s' where r: "read_into_store cx nonce now True disk (length disk) s = (Inr (whole_index cx ?cs disk), s')"
      and p: "puts cx now nonce (piece ?cs disk) ?is s = (Inr (map (chunk_id cx) (pieces ?cs disk)), s')"
    using read_into_store_puts [OF cs] by blast
  have "\<forall>i \<in> set ?is. fitting C (nonce i) (piece ?cs disk i)" using piece_fitting [OF C _ cs(2)] n by simp
  then have "sound cx C s' \<and> (\<forall>i \<in> set ?is. present (chunk_id cx (piece ?cs disk i)) s')"
    using puts_get [OF s, of ?is nonce "piece ?cs disk" now] p by auto
  then have "sound cx C s'" "holds cx ?cs disk s'" by (auto simp: holds_def pieces_def)
  then show ?thesis using r puts_keeps_files [OF p] by blast
qed

section \<open>Restoring\<close>

lemma get_exact:
  assumes C: "no_clash cx (C \<union> contents cx s)" and c: "c \<in> C" and g: "get cx (chunk_id cx c) (length c) s = Inr c'"
  shows "c' = c"
proof (cases "chunk_id cx c = ZERO")
  case True
  moreover have "digest cx c \<noteq> ZERO" using C c unfolding no_clash_def by (metis UnI1 image_eqI)
  ultimately have "all_zero c" by (auto simp: chunk_id_def split: if_splits)
  then have "replicate (length c) 0 = c" by (simp add: replicate_length_same)
  then show ?thesis using True g by (simp add: get_fbytes)
next
  case False
  then have "c' \<in> contents cx s" "digest cx c' = chunk_id cx c"
    using g by (auto simp: get_fbytes contents_def dest: chunk_decode_digest split: option.splits)
  moreover have "chunk_id cx c = digest cx c" using False by (simp add: chunk_id_def split: if_splits)
  ultimately show ?thesis using C c by (auto simp: no_clash_def dest: inj_onD)
qed

definition exact_or_damaged :: "bytes set \<Rightarrow> bytes \<Rightarrow> store_error + bytes \<Rightarrow> bool" where
  "exact_or_damaged D bs r = (case r of
       Inr bs' \<Rightarrow> bs' = bs
     | Inl e \<Rightarrow> (\<exists>d \<in> D. e = Missing_chunk d \<or> (\<exists>why. e = Damaged_chunk d why)))"

lemma read_chunks_exact:
  assumes "no_clash cx (C \<union> contents cx s)" and "set cl \<subseteq> C"
    and "\<And>j. j < length cl \<Longrightarrow> length (cl ! j) = chunk_length (ix_chunk_size ix) (ix_size ix) (i + j)"
  shows "exact_or_damaged (chunk_id cx ` set cl) (concat cl) (read_chunks cx ix i (map (chunk_id cx) cl) s)"
  using assms
proof (induction cl arbitrary: i)
  case (Cons c cl)
  have n: "chunk_length (ix_chunk_size ix) (ix_size ix) i = length c" using Cons.prems(3) [of 0] by simp
  have IH: "exact_or_damaged (chunk_id cx ` set cl) (concat cl) (read_chunks cx ix (Suc i) (map (chunk_id cx) cl) s)"
    using Cons.IH [of "Suc i"] Cons.prems(1,2) Cons.prems(3) [of "Suc j" for j] by simp
  show ?case
  proof (cases "get cx (chunk_id cx c) (length c) s")
    case (Inl e)
    then show ?thesis using get_error [OF Inl] by (auto simp: n exact_or_damaged_def)
  next
    case (Inr c')
    then have "c' = c" using get_exact [OF Cons.prems(1) _ Inr] Cons.prems(2) by simp
    then show ?thesis using IH Inr by (cases "read_chunks cx ix (Suc i) (map (chunk_id cx) cl) s") (auto simp: n exact_or_damaged_def)
  qed
qed (simp add: exact_or_damaged_def)

text \<open>C25: Whatever happened to the chunks' files (lost, cut, changed, swapped), a restore gives the disk that was backed up or raises
  on a chunk of it that is missing or damaged: a disk is never written with a wrong block in it.\<close>

theorem restore_is_exact:
  assumes "no_clash cx (set (pieces cs disk) \<union> contents cx s)" and "0 < cs"
  shows "case read_disk cx (whole_index cx cs disk) s of
      Inr bs \<Rightarrow> bs = disk
    | Inl e \<Rightarrow> (\<exists>d \<in> chunk_id cx ` set (pieces cs disk). e = Missing_chunk d \<or> (\<exists>why. e = Damaged_chunk d why))"
  using read_chunks_exact [OF assms(1) order_refl, of "whole_index cx cs disk" 0]
  unfolding exact_or_damaged_def concat_pieces [OF assms(2)] read_disk_def
  by (simp add: whole_index_def pieces_def length_piece)

section \<open>Verification and repair\<close>

definition clean :: "codec \<Rightarrow> bytes \<Rightarrow> bstore \<Rightarrow> bool" where
  "clean cx d s \<longleftrightarrow> d = ZERO \<or> (\<forall>bs. fbytes s (Chunk d) = Some bs \<longrightarrow> (\<exists>c. chunk_decode cx d bs = Inr c))"

text \<open>A damaged chunk is put aside, the other chunks stay.\<close>

definition only_aside :: "codec \<Rightarrow> bstore \<Rightarrow> bstore \<Rightarrow> bool" where
  "only_aside cx s s' \<longleftrightarrow> st_dirs s' = st_dirs s \<and> st_chunk_size s' = st_chunk_size s \<and>
     (\<forall>d bs. fbytes s' (Chunk d) = Some bs \<longrightarrow> fbytes s (Chunk d) = Some bs)"

lemma only_aside_trans: "only_aside cx s t \<Longrightarrow> only_aside cx t u \<Longrightarrow> only_aside cx s u"
  by (auto simp: only_aside_def)

lemma only_aside_clean: "only_aside cx s s' \<Longrightarrow> clean cx d s \<Longrightarrow> clean cx d s'"
  by (auto simp: only_aside_def clean_def)

lemma aside: "only_aside cx s (snd (os_replace (Chunk d) (Bad (Chunk d)) s))" "clean cx d (snd (os_replace (Chunk d) (Bad (Chunk d)) s))"
  by (auto simp: only_aside_def clean_def fbytes_replace split: if_splits)

lemma verify_chunks_clean:
  assumes "verify_chunks cx ix i ds (bad, checked) s = ((bad', checked'), s')" and "\<forall>d \<in> set checked. clean cx d s"
  shows "only_aside cx s s' \<and> (\<forall>d \<in> set ds \<union> set checked. clean cx d s') \<and> set checked' = set checked \<union> set ds"
  using assms
proof (induction ds arbitrary: i bad checked s)
  case (Cons d ds)
  let ?n = "chunk_length (ix_chunk_size ix) (ix_size ix) i"
  have step: ?case if r: "verify_chunks cx ix (Suc i) ds (b, d # checked) t = ((bad', checked'), s')" "only_aside cx s t" "clean cx d t" for b t
    using Cons.IH [OF r(1)] r(2,3) only_aside_clean [OF r(2)] Cons.prems(2) by (auto intro: only_aside_trans)
  show ?case
  proof (cases "d \<in> set checked")
    case True
    then show ?thesis using Cons.IH [of "Suc i" bad checked s] Cons.prems by auto
  next
    case False
    note v = Cons.prems(1) False
    have id: "only_aside cx s s" by (simp add: only_aside_def)
    show ?thesis
    proof (cases "get cx d ?n s")
      case (Inr c)
      then have "clean cx d s" by (auto simp: clean_def get_fbytes split: if_splits)
      then show ?thesis using v Inr by (intro step [OF _ id]) auto
    next
      case (Inl e)
      then consider "e = Missing_chunk d" "fbytes s (Chunk d) = None" | why where "e = Damaged_chunk d why"
        using get_error [OF Inl] by auto
      then show ?thesis
      proof cases
        case 1
        then have "clean cx d s" by (simp add: clean_def)
        then show ?thesis using v Inl 1 by (intro step [OF _ id]) auto
      next
        case 2
        then show ?thesis using v Inl by (intro step [OF _ aside]) auto
      qed
    qed
  qed
qed (auto simp: only_aside_def)

lemma index_of_dirs: "st_dirs s' = st_dirs s \<Longrightarrow> index_of cx k disk s' = index_of cx k disk s"
  by (simp add: index_of_def dir_of_def)

lemma verify_disks_clean:
  assumes "verify_disks cx k disks (bad, checked) s = (Inr (bad', checked'), s')" and "\<forall>d \<in> set checked. clean cx d s"
  shows "only_aside cx s s' \<and> (\<forall>d \<in> set checked. clean cx d s')
    \<and> (\<forall>disk \<in> set disks. \<forall>ix. index_of cx k disk s = Inr ix \<longrightarrow> (\<forall>d \<in> set (ix_digests ix). clean cx d s'))"
  using assms
proof (induction disks arbitrary: bad checked s)
  case (Cons disk disks)
  obtain ix where ix: "index_of cx k disk s = Inr ix" using Cons.prems(1) by (auto split: sum.splits)
  obtain b c t where v: "verify_chunks cx ix 0 (ix_digests ix) (bad, checked) s = ((b, c), t)"
    by (metis surj_pair)
  have t: "only_aside cx s t" "\<forall>d \<in> set (ix_digests ix) \<union> set checked. clean cx d t" "set c = set checked \<union> set (ix_digests ix)"
    using verify_chunks_clean [OF v Cons.prems(2)] by auto
  have r: "verify_disks cx k disks (b, c) t = (Inr (bad', checked'), s')" using Cons.prems(1) by (simp add: ix v)
  have "\<forall>d \<in> set c. clean cx d t" using t(2,3) by auto
  note IH = Cons.IH [OF r this]
  have "index_of cx k d t = index_of cx k d s" for d using t(1) by (intro index_of_dirs) (simp add: only_aside_def)
  then show ?case using IH t ix only_aside_trans [OF t(1)] by auto
qed (simp add: only_aside_def)

lemma verify_chunks_dirs: "verify_chunks cx ix i ds c s = (c', s') \<Longrightarrow> st_dirs s' = st_dirs s"
proof (induction ds arbitrary: i c s)
  case (Cons d ds)
  then show ?case by (cases c) (auto split: if_splits sum.splits store_error.splits)
qed simp

lemma verify_disks_works:
  "\<forall>disk \<in> set disks. \<exists>ix. index_of cx k disk s = Inr ix \<Longrightarrow> \<exists>c' s'. verify_disks cx k disks c s = (Inr c', s')"
proof (induction disks arbitrary: c s)
  case (Cons disk disks)
  obtain ix where ix: "index_of cx k disk s = Inr ix" using Cons.prems by auto
  obtain c1 t where t: "verify_chunks cx ix 0 (ix_digests ix) c s = (c1, t)" by (metis surj_pair)
  have "index_of cx k d t = index_of cx k d s" for d by (rule index_of_dirs [OF verify_chunks_dirs [OF t]])
  then show ?case using Cons.IH [of t c1] Cons.prems by (simp add: ix t)
qed simp

section \<open>A small store\<close>

text \<open>A codec whose digest is the content itself, padded: enough for chunks shorter than 32 bytes.\<close>

definition plain_digest :: "bytes \<Rightarrow> bytes" where
  "plain_digest c = take 32 (1 # c @ replicate 32 0)"

definition plain_codec :: codec where
  "plain_codec = \<lparr>cx_encrypted = False, cx_sha256 = plain_digest, cx_hmac = plain_digest, cx_compress = (\<lambda>c. c),
     cx_decompress = (\<lambda>_ c. Some c), cx_seal = (\<lambda>_ p _. p), cx_open = (\<lambda>_ p _. Some p), cx_crc32 = (\<lambda>_. 7)\<rparr>"

lemma plain_codec_ok: "codec_ok plain_codec"
  by (auto simp: codec_ok_def plain_codec_def plain_digest_def min_def)

definition small_store :: bstore where
  "small_store = \<lparr>st_id = ''store'', st_chunk_size = 2, st_encrypted = False, st_fingerprint = None, st_files = [], st_dirs = []\<rparr>"

definition small_contents :: "bytes set" where
  "small_contents = {[1, 2], [3, 4], [5, 6]}"

lemma small_no_clash: "no_clash plain_codec small_contents"
  by (simp add: no_clash_def small_contents_def digest_def plain_codec_def plain_digest_def ZERO_def inj_on_def eval_nat_numeral)

lemma small_pieces: "pieces 2 [1, 2, 0, 0, 3, 4] = [[1, 2], [0, 0], [3, 4]]"
  by (simp add: pieces_def piece_def chunk_count_def upt_rec)

lemma small_pieces_no_clash: "no_clash plain_codec (set (pieces 2 [1, 2, 0, 0, 3, 4]))"
  unfolding small_pieces
  by (simp add: no_clash_def digest_def plain_codec_def plain_digest_def ZERO_def inj_on_def eval_nat_numeral)

lemma small_store_simps [simp]: "st_chunk_size small_store = 2" "dir_of k small_store = None" "st_dirs small_store = []"
  by (simp_all add: small_store_def dir_of_def)

lemma small_sound: "sound plain_codec small_contents small_store"
  using plain_codec_ok small_no_clash by (simp add: sound_def fbytes_def small_store_def)

theorem restore_is_exact_witness:
  "case read_disk plain_codec (whole_index plain_codec 2 [1, 2, 0, 0, 3, 4]) small_store of
      Inr bs \<Rightarrow> bs = [1, 2, 0, 0, 3, 4]
    | Inl e \<Rightarrow> (\<exists>d \<in> chunk_id plain_codec ` set (pieces 2 [1, 2, 0, 0, 3, 4]).
        e = Missing_chunk d \<or> (\<exists>why. e = Damaged_chunk d why))"
proof (rule restore_is_exact)
  have "contents plain_codec small_store = {}" by (simp add: contents_def fbytes_def small_store_def)
  then show "no_clash plain_codec (set (pieces 2 [1, 2, 0, 0, 3, 4]) \<union> contents plain_codec small_store)"
    using small_pieces_no_clash by simp
qed simp

end
