(* ===== verification/Backup_Vm.thy ===== *)
theory Backup_Vm
  imports Chunk_Props
begin

text \<open>
  A VM backed up into a store (\<open>backup_vm\<close> of \<^verbatim>\<open>app/core/backup_store_vm.py\<close>): for each disk, only the blocks changed
  since the last backup's checkpoint when there is one to start from, the whole disk otherwise. What the exports stream,
  the dirty bitmaps and the VM's checkpoints are arguments (\<open>vm_disk\<close>, \<open>vm_env\<close>).

  Left out: the guest's freezing, the export's processes, the firmware files' reading, the cleaning of the checkpoints, the
  waiting for a free second of \<open>_free_stamp\<close>, and the keys of the manifest nothing of the backup reads again.

  Shown: reading the changed blocks gives the very index a whole read gives, and every disk of a backup that was made reads
  back from it byte for byte.
\<close>

section \<open>The backup of a VM\<close>

record vm_disk =
  vd_dev :: string
  vd_block :: bool
  vd_format :: string
  vd_size :: nat
  vd_stream :: bytes
  vd_exit_ok :: bool
  vd_extents :: "(nat \<times> nat \<times> nat) list option"
  vd_ranges :: "(nat \<times> nat) list \<Rightarrow> bytes"

record vm_env =
  ve_uuid :: string
  ve_running :: bool
  ve_checkpoints :: "string list"
  ve_stamp :: string
  ve_checkpoint :: string
  ve_now_iso :: string
  ve_limit :: string

definition get_or_empty :: "string \<Rightarrow> (string, string) dict \<Rightarrow> string" where
  "get_or_empty key d = (case map_of d key of None \<Rightarrow> [] | Some v \<Rightarrow> v)"

text \<open>\<open>_incremental_base\<close>: the last backup of this VM that left a checkpoint, if the VM still has it and its last whole read
  is recent enough.\<close>

definition incremental_base :: "vm_env \<Rightarrow> bstore \<Rightarrow> (string \<times> manifest) option" where
  "incremental_base e s =
     (if \<not> ve_running e then None
      else case rev (filter (\<lambda>(k, m). fst k = ve_uuid e \<and> get_or_empty ''checkpoint'' (mf_more m) \<noteq> []) (backups s)) of
          [] \<Rightarrow> None
        | (k, m) # _ \<Rightarrow>
            if get_or_empty ''checkpoint'' (mf_more m) \<notin> set (ve_checkpoints e) then None
            else if get_or_empty ''full_at'' (mf_more m) < ve_limit e then None
            else Some (snd k, m))"

definition tracked :: "vm_disk list \<Rightarrow> string list" where
  "tracked disks = map vd_dev (filter (\<lambda>d. \<not> vd_block d \<and> vd_format d = ''qcow2'') disks)"

text \<open>The previous index of a disk, when it can be built on: tracked, in the base, of the same size.\<close>

definition previous_index :: "codec \<Rightarrow> vm_env \<Rightarrow> vm_disk list \<Rightarrow> (string \<times> manifest) option \<Rightarrow> vm_disk \<Rightarrow> bstore
    \<Rightarrow> store_error + disk_index option" where
  "previous_index cx e disks base d s =
     (case base of
        None \<Rightarrow> Inr None
      | Some (stamp, m) \<Rightarrow>
          if vd_dev d \<in> set (tracked disks) \<and> map_option fst (map_of (mf_disks m) (vd_dev d)) = Some (vd_size d)
          then rbind (index_of cx (ve_uuid e, stamp) (vd_dev d) s) (\<lambda>ix. Inr (Some ix))
          else Inr None)"

datatype read_kind = Full | Incremental

definition backup_disk :: "codec \<Rightarrow> (nat \<Rightarrow> bytes) \<Rightarrow> seconds \<Rightarrow> vm_env \<Rightarrow> vm_disk list \<Rightarrow> (string \<times> manifest) option \<Rightarrow> vm_disk
    \<Rightarrow> bstore \<Rightarrow> (store_error + (disk_index \<times> read_kind)) \<times> bstore" where
  "backup_disk cx nonce now e disks base d s =
     (case previous_index cx e disks base d s of
        Inl err \<Rightarrow> (Inl err, s)
      | Inr None \<Rightarrow>
          (case read_into_store cx nonce now (vd_exit_ok d) (vd_stream d) (vd_size d) s of
             (Inl err, s') \<Rightarrow> (Inl err, s')
           | (Inr ix, s') \<Rightarrow> (Inr (ix, Full), s'))
      | Inr (Some ix0) \<Rightarrow>
          (case vd_extents d of
             None \<Rightarrow> (Inl (Backup_failed ''the changed blocks cannot be read''), s)
           | Some extents \<Rightarrow>
               (case read_changed_into_store cx nonce now (vd_exit_ok d) (vd_ranges d) (vd_size d) ix0
                       (changed_chunks extents (vd_size d) (st_chunk_size s)) s of
                  (Inl err, s') \<Rightarrow> (Inl err, s')
                | (Inr (ix, _), s') \<Rightarrow> (Inr (ix, Incremental), s'))))"

fun backup_loop :: "codec \<Rightarrow> (nat \<Rightarrow> bytes) \<Rightarrow> seconds \<Rightarrow> vm_env \<Rightarrow> vm_disk list \<Rightarrow> (string \<times> manifest) option \<Rightarrow> vm_disk list
    \<Rightarrow> (string, disk_index \<times> read_kind) dict \<Rightarrow> bstore \<Rightarrow> (store_error + (string, disk_index \<times> read_kind) dict) \<times> bstore" where
  "backup_loop cx nonce now e disks base [] acc s = (Inr acc, s)"
| "backup_loop cx nonce now e disks base (d # ds) acc s =
     (case backup_disk cx nonce now e disks base d s of
        (Inl err, s') \<Rightarrow> (Inl err, s')
      | (Inr r, s') \<Rightarrow> backup_loop cx nonce now e disks base ds (dict_set (vd_dev d) r acc) s')"

definition backup_manifest :: "vm_env \<Rightarrow> vm_disk list \<Rightarrow> (string \<times> manifest) option \<Rightarrow> (string, disk_index \<times> read_kind) dict
    \<Rightarrow> (string, string) dict \<Rightarrow> (string, string) dict" where
  "backup_manifest e disks base done_disks extra =
     (let whole = base = None \<or> (\<forall>dev \<in> set (tracked disks). map_option snd (map_of done_disks dev) = Some Full);
          full_at = (case base of Some (_, m) \<Rightarrow> if whole then Some (ve_now_iso e) else map_of (mf_more m) ''full_at''
                     | None \<Rightarrow> Some (ve_now_iso e));
          with_full = (case full_at of None \<Rightarrow> extra | Some t \<Rightarrow> dict_set ''full_at'' t extra)
      in if ve_running e \<and> tracked disks \<noteq> [] then dict_set ''checkpoint'' (ve_checkpoint e) with_full else with_full)"

definition backup_vm :: "codec \<Rightarrow> (nat \<Rightarrow> bytes) \<Rightarrow> (string \<Rightarrow> bytes) \<Rightarrow> seconds \<Rightarrow> vm_env \<Rightarrow> vm_disk list \<Rightarrow> (string, bytes) dict
    \<Rightarrow> (string, string) dict \<Rightarrow> bstore \<Rightarrow> (store_error + unit) \<times> bstore" where
  "backup_vm cx nonce fnonce now e disks files extra s =
     (if disks = [] then (Inl (Backup_failed ''This VM has no disk to back up''), s)
      else let base = (if tracked disks \<noteq> [] then incremental_base e s else None) in
        case backup_loop cx nonce now e disks base disks [] s of
          (Inl err, s') \<Rightarrow> (Inl err, s')
        | (Inr done_disks, s') \<Rightarrow>
            write_backup cx fnonce (ve_uuid e, ve_stamp e) (map (\<lambda>(n, ix, _). (n, ix)) done_disks)
              (backup_manifest e disks base done_disks extra) files s')"

section \<open>Reading the changed blocks\<close>

lemma touch_facts:
  assumes "touch now d s = (r, s')"
  shows "fbytes s' = fbytes s \<and> keeps_files s s' \<and> (r = Inr () \<longleftrightarrow> present d s)"
proof -
  obtain b t where u: "os_utime now (Chunk d) s = (b, t)" by (cases "os_utime now (Chunk d) s")
  have "b \<longleftrightarrow> fbytes s (Chunk d) \<noteq> None" using os_utime_there [of now "Chunk d" s] by (simp add: u)
  moreover have "fbytes t = fbytes s" "keeps_files s t"
    using fbytes_utime [of now "Chunk d" s] u by (auto simp: keeps_files_def os_utime_def split: option.splits)
  ultimately show ?thesis using assms by (auto simp: touch_def u present_def split: if_splits bool.splits)
qed

lemma touch_loop_facts:
  assumes "\<forall>i \<in> set is. i < length ds"
  shows "\<exists>tr' s'. touch_loop now ds is tr s = (Inr tr', s') \<and> set tr \<subseteq> set tr' \<and> set tr' \<subseteq> set tr \<union> set is
    \<and> fbytes s' = fbytes s \<and> keeps_files s s' \<and> (\<forall>i \<in> set is - set tr'. present (ds ! i) s)"
  using assms
proof (induction "is" arbitrary: tr s)
  case (Cons i "is")
  show ?case
  proof (cases "i \<in> set tr")
    case True
    then show ?thesis using Cons.IH [of tr s] Cons.prems by auto
  next
    case False
    obtain r t where t: "touch now (ds ! i) s = (r, t)" by (cases "touch now (ds ! i) s")
    note f = touch_facts [OF t]
    let ?tr = "if r = Inr () then tr else i # tr"
    obtain tr' s' where r: "touch_loop now ds is ?tr t = (Inr tr', s')" "set ?tr \<subseteq> set tr'"
        "set tr' \<subseteq> set ?tr \<union> set is" "fbytes s' = fbytes t" "keeps_files t s'" "\<forall>j \<in> set is - set tr'. present (ds ! j) t"
      using Cons.IH [of ?tr t] Cons.prems by auto
    have "touch_loop now ds (i # is) tr s = (Inr tr', s')"
      using False Cons.prems r(1) t by (cases r) (auto simp: not_le [symmetric])
    moreover have "\<forall>j \<in> set (i # is) - set tr'. present (ds ! j) s"
      using r(2,6) f by (auto simp: present_def split: if_splits)
    ultimately show ?thesis using r f by (auto intro: keeps_files_trans split: if_splits)
  qed
qed simp

lemma read_full_append: "read_full (length c) (c @ rest) = Inr (c, rest)"
  by (simp add: read_full_def)

lemma patch_loop_puts:
  assumes "puts cx now nonce cont is s = (Inr ids, s')" and "distinct is"
    and "\<forall>i \<in> set is. i < length ds \<and> i * st_chunk_size s \<le> sz \<and> length (cont i) = chunk_length (st_chunk_size s) sz i"
  shows "patch_loop cx nonce now sz is (concat (map cont is)) ds s
     = (Inr (map (\<lambda>j. if j \<in> set is then chunk_id cx (cont j) else ds ! j) [0..<length ds]), s')"
  using assms
proof (induction "is" arbitrary: s ds ids)
  case Nil
  then show ?case by (simp add: puts_def map_nth)
next
  case (Cons i "is")
  obtain d t where p: "put cx (nonce i) now (cont i) s = (Inr d, t)"
    using Cons.prems(1) by (auto simp: puts_def split: sum.splits prod.splits)
  then have r: "\<exists>ids. puts cx now nonce cont is t = (Inr ids, s')"
    using Cons.prems(1) by (auto simp: puts_def split: sum.splits prod.splits)
  have t: "st_chunk_size t = st_chunk_size s" by (rule put_chunk_size [OF p])
  have i: "i < length ds" "\<not> sz < i * st_chunk_size s" "chunk_length (st_chunk_size s) sz i = length (cont i)"
    using Cons.prems(3) by auto
  have IH: "patch_loop cx nonce now sz is (concat (map cont is)) (ds[i := d]) t
      = (Inr (map (\<lambda>j. if j \<in> set is then chunk_id cx (cont j) else ds[i := d] ! j) [0..<length ds]), s')"
    using Cons.IH [of t _ "ds[i := d]"] r Cons.prems(2,3) by (auto simp: t)
  have "map (\<lambda>j. if j \<in> set is then chunk_id cx (cont j) else ds[i := d] ! j) [0..<length ds]
      = map (\<lambda>j. if j \<in> set (i # is) then chunk_id cx (cont j) else ds ! j) [0..<length ds]"
    using put_id [OF p] Cons.prems(2) i by (auto simp: nth_list_update)
  then show ?case using i IH by (simp add: read_full_append p)
qed

lemma chunk_count_iff: "0 < cs \<Longrightarrow> i < chunk_count sz cs \<longleftrightarrow> i * cs < sz"
  using chunk_count_bound [of i sz cs] chunk_count_covers [of cs sz]
  by (metis mult_less_cancel2 not_less order_trans leD le_less_linear mult_le_mono1)

text \<open>What a dirty bitmap promises: every byte that changed lies in a dirty extent.\<close>

definition changes_marked :: "(nat \<times> nat \<times> nat) list \<Rightarrow> bytes \<Rightarrow> bytes \<Rightarrow> bool" where
  "changes_marked extents old new \<longleftrightarrow> length old = length new \<and>
     (\<forall>p < length new. old ! p \<noteq> new ! p \<longrightarrow> (\<exists>(off, len, ty) \<in> set extents. odd ty \<and> off \<le> p \<and> p < off + len))"

lemma last_chunk:
  assumes "0 < m" shows "nat ((int m - 1) div int cs + 1) = (m - 1) div cs + 1"
proof -
  have "(int m - 1) div int cs = int ((m - 1) div cs)" using assms by (simp add: zdiv_int of_nat_diff)
  then show ?thesis by simp
qed

lemma changed_chunks_covers:
  assumes "(off, len, ty) \<in> set extents" and "odd ty" and "off \<le> p" and "p < off + len" and "p < sz" and "0 < cs"
  shows "p div cs \<in> set (changed_chunks extents sz cs)"
proof -
  let ?m = "min (off + len) sz"
  have m: "p \<le> ?m - 1" "0 < ?m" using assms by auto
  have "off div cs \<le> p div cs" "p div cs \<le> (?m - 1) div cs" using assms(3) m(1) by (auto intro: div_le_mono)
  then have "p div cs \<in> set [off div cs ..< nat ((int ?m - 1) div int cs + 1)]" 
    by (simp add: last_chunk [OF m(2)] less_Suc_eq_le del: upt_Suc)
  then show ?thesis using assms(1,2) unfolding changed_chunks_def by force
qed

lemma changed_chunks_range:
  assumes "0 < cs" shows "set (changed_chunks extents sz cs) \<subseteq> {i. i < chunk_count sz cs}"
proof
  fix i assume "i \<in> set (changed_chunks extents sz cs)"
  then obtain off len where i: "i < nat ((int (min (off + len) sz) - 1) div int cs + 1)"
    by (auto simp: changed_chunks_def split: if_splits)
  have m: "0 < min (off + len) sz"
  proof (rule ccontr)
    assume "\<not> 0 < min (off + len) sz"
    then have "min (off + len) sz = 0" by (simp only: not_gr_zero)
    then have "int (min (off + len) sz) - 1 < 0" by simp
    then have "(int (min (off + len) sz) - 1) div int cs < 0" using assms by (intro div_neg_pos_less0) simp_all
    then show False using i by simp
  qed
  then have "i \<le> (min (off + len) sz - 1) div cs" using i last_chunk by simp
  then have "i * cs \<le> min (off + len) sz - 1" using assms by (simp add: less_eq_div_iff_mult_less_eq)
  also have "\<dots> < sz" using m by (auto simp: min_def)
  finally show "i \<in> {i. i < chunk_count sz cs}" using chunk_count_iff [OF assms] by simp
qed

lemma unchanged_piece:
  assumes "changes_marked extents old new" and "0 < cs" and "i \<notin> set (changed_chunks extents (length new) cs)"
  shows "piece cs old i = piece cs new i"
proof (rule nth_equalityI)
  have l: "length old = length new" using assms(1) by (simp add: changes_marked_def)
  then show "length (piece cs old i) = length (piece cs new i)" by (simp add: length_piece)
  fix j assume "j < length (piece cs old i)"
  then have j: "j < cs" "i * cs + j < length new" using l by (auto simp: piece_def)
  have "old ! (i * cs + j) = new ! (i * cs + j)"
  proof (rule ccontr)
    assume "old ! (i * cs + j) \<noteq> new ! (i * cs + j)"
    then obtain off len ty where "(off, len, ty) \<in> set extents" "odd ty" "off \<le> i * cs + j" "i * cs + j < off + len"
      using assms(1) j(2) by (auto simp: changes_marked_def)
    then have "(i * cs + j) div cs \<in> set (changed_chunks extents (length new) cs)"
      using changed_chunks_covers j(2) assms(2) by blast
    then show False using assms(3) j(1) by simp
  qed
  then show "piece cs old i ! j = piece cs new i ! j" using j l by (simp add: piece_def)
qed

text \<open>What the process that reads ranges of an export streams.\<close>

definition ranges_of :: "bytes \<Rightarrow> (nat \<times> nat) list \<Rightarrow> bytes" where
  "ranges_of disk ranges = concat (map (\<lambda>(off, n). take n (drop off disk)) ranges)"

lemma ranges_of_pieces:
  "ranges_of disk (map (\<lambda>i. (i * cs, chunk_length cs (length disk) i)) is) = concat (map (piece cs disk) is)"
  by (induction "is") (simp_all add: ranges_of_def piece_def chunk_length_def min_def)

lemma read_changed_whole:
  assumes s: "sound cx C s" and cs: "0 < st_chunk_size s" "st_chunk_size s < 2 ^ 32"
    and C: "covers C (st_chunk_size s) new" and n: "\<forall>i. length (nonce i) = NONCE" and m: "changes_marked extents old new"
  shows "\<exists>k s'. read_changed_into_store cx nonce now True (ranges_of new) (length new) (whole_index cx (st_chunk_size s) old)
      (changed_chunks extents (length new) (st_chunk_size s)) s = (Inr (whole_index cx (st_chunk_size s) new, k), s')
    \<and> sound cx C s' \<and> holds cx (st_chunk_size s) new s' \<and> keeps_files s s'"
proof -
  let ?cs = "st_chunk_size s" and ?ch = "changed_chunks extents (length new) (st_chunk_size s)"
  let ?cnt = "chunk_count (length new) (st_chunk_size s)" and ?ds = "map (chunk_id cx) (pieces (st_chunk_size s) old)"
  have len: "length old = length new" using m by (simp add: changes_marked_def)
  have ld: "length ?ds = ?cnt" by (simp add: len)
  obtain tr t where tr: "touch_loop now ?ds [0..<?cnt] ?ch s = (Inr tr, t)" "set ?ch \<subseteq> set tr"
      "set tr \<subseteq> set ?ch \<union> set [0..<?cnt]" "fbytes t = fbytes s" "keeps_files s t" "\<forall>i \<in> set [0..<?cnt] - set tr. present (?ds ! i) s"
    using touch_loop_facts [of "[0..<?cnt]" ?ds now ?ch s] ld by auto
  have range: "\<forall>i \<in> set tr. i < ?cnt" using tr(3) changed_chunks_range [OF cs(1), of extents "length new"] by fastforce
  let ?ord = "sort (remdups tr)"
  have t: "st_chunk_size t = ?cs" "sound cx C t" using tr(4,5) s by (simp_all add: keeps_files_def sound_def)
  obtain s' where p: "puts cx now nonce (piece ?cs new) ?ord t = (Inr (map (chunk_id cx \<circ> piece ?cs new) ?ord), s')"
      and s': "sound cx C s'" "\<forall>i \<in> set ?ord. present (chunk_id cx (piece ?cs new i)) s'"
    using puts_get [OF t(2), of ?ord nonce "piece ?cs new" now] piece_fitting [OF C _ cs(2)] n range by auto
  let ?new = "map (\<lambda>j. if j \<in> set ?ord then chunk_id cx (piece ?cs new j) else ?ds ! j) [0..<?cnt]"
  have "patch_loop cx nonce now (length new) ?ord (concat (map (piece ?cs new) ?ord)) ?ds t = (Inr ?new, s')"
    using patch_loop_puts [OF p, of ?ds "length new"] range ld
      chunk_count_bound [of _ "length new" ?cs] by (auto simp: t length_piece less_imp_le)
  moreover have same: "?ds ! j = chunk_id cx (piece ?cs new j)" if j: "j < ?cnt" "j \<notin> set tr" for j
  proof -
    have "j \<notin> set ?ch" using tr(2) j(2) by blast
    then show ?thesis using unchanged_piece [OF m cs(1)] j(1) len by (simp add: pieces_def)
  qed
  then have "?new = map (chunk_id cx) (pieces ?cs new)" by (auto simp: pieces_def)
  ultimately have "read_changed_into_store cx nonce now True (ranges_of new) (length new) (whole_index cx ?cs old) ?ch s
      = (Inr (whole_index cx ?cs new, length ?ord), s')"
    using cs(1) tr(1) by (simp add: read_changed_into_store_def Let_def whole_index_def ranges_of_pieces len)
  moreover have ks: "keeps_files s s'" using tr(5) puts_keeps_files [OF p] keeps_files_trans by blast
  moreover have "present (chunk_id cx (piece ?cs new i)) s'" if i: "i < ?cnt" for i
  proof (cases "i \<in> set tr")
    case False
    then have "present (?ds ! i) s" using tr(6) i by simp
    then show ?thesis using keeps_files_present [OF ks] same [OF i False] by simp
  qed (use s'(2) in simp)
  then have "holds cx ?cs new s'" by (auto simp: holds_def pieces_def)
  ultimately show ?thesis using s'(1) by blast
qed

section \<open>Recording a backup\<close>

text \<open>The disks' names and the files' are names of files, all different.\<close>

definition names_ok :: "string list \<Rightarrow> string list \<Rightarrow> bool" where
  "names_ok devs files \<longleftrightarrow> distinct devs \<and> (\<forall>n \<in> set devs \<union> set files. safe_name n = Inr n)
     \<and> set files \<inter> fidx ` set devs = {}"

definition sizes_fit :: "disk_index \<Rightarrow> bool" where
  "sizes_fit ix \<longleftrightarrow> ix_size ix < 2 ^ 64 \<and> ix_chunk_size ix < 2 ^ 32 \<and> length (ix_digests ix) < 2 ^ 32"

lemma fidx_inject [simp]: "fidx a = fidx b \<longleftrightarrow> a = b"
  by (simp add: fidx_def)

lemma index_encode_works: "sizes_fit ix \<Longrightarrow> \<exists>raw. index_encode cx ix = Inr raw"
  by (simp add: sizes_fit_def index_encode_def pack_Q_def pack_I_def Let_def)

lemma write_indexes_facts:
  assumes "\<forall>(n, ix) \<in> set ixs. safe_name n = Inr n \<and> sizes_fit ix" and "dict_ok ixs"
  shows "\<exists>listed' dir'. write_indexes cx ixs dir listed = (Inr listed', dir')
    \<and> (\<forall>(n, ix) \<in> set ixs. \<exists>raw. index_encode cx ix = Inr raw \<and> map_of (bd_files dir') (fidx n) = Some raw
         \<and> map_of listed' n = Some (ix_size ix, cx_sha256 cx raw))
    \<and> (\<forall>n. n \<notin> set (keys ixs) \<longrightarrow> map_of listed' n = map_of listed n) \<and> set (keys listed') = set (keys listed) \<union> set (keys ixs)
    \<and> (\<forall>f. f \<notin> fidx ` set (keys ixs) \<longrightarrow> map_of (bd_files dir') f = map_of (bd_files dir) f)"
  using assms
proof (induction ixs arbitrary: dir listed)
  case (Cons p ixs)
  obtain n ix where p: "p = (n, ix)" by (cases p)
  obtain raw where raw: "index_encode cx ix = Inr raw" using index_encode_works Cons.prems p by force
  have n: "safe_name n = Inr n" "n \<notin> set (keys ixs)" using Cons.prems p by auto
  let ?dir = "dir\<lparr>bd_files := dict_set (fidx n) raw (bd_files dir)\<rparr>"
  let ?l = "dict_set n (ix_size ix, cx_sha256 cx raw) listed"
  obtain listed' dir' where r: "write_indexes cx ixs ?dir ?l = (Inr listed', dir')"
    "\<forall>(n, ix) \<in> set ixs. \<exists>raw. index_encode cx ix = Inr raw \<and> map_of (bd_files dir') (fidx n) = Some raw
         \<and> map_of listed' n = Some (ix_size ix, cx_sha256 cx raw)"
    "\<forall>n. n \<notin> set (keys ixs) \<longrightarrow> map_of listed' n = map_of ?l n" "set (keys listed') = set (keys ?l) \<union> set (keys ixs)"
    "\<forall>f. f \<notin> fidx ` set (keys ixs) \<longrightarrow> map_of (bd_files dir') f = map_of (bd_files ?dir) f"
    using Cons.IH [of ?dir ?l] Cons.prems by auto
  have "map_of (bd_files dir') (fidx n) = Some raw" using r(5) n(2) by (simp add: image_iff)
  moreover have "map_of listed' n = Some (ix_size ix, cx_sha256 cx raw)" using r(3) n(2) by simp
  moreover have "write_indexes cx (p # ixs) dir listed = (Inr listed', dir')" using r(1) n raw p by simp
  ultimately show ?case using r(2-5) raw p by (auto simp: dom_update)
qed simp

lemma write_files_facts:
  assumes "\<forall>n \<in> set (keys files). safe_name n = Inr n"
  shows "\<exists>kept' dir'. write_files cx nonce k files dir kept = (Inr kept', dir')
    \<and> (\<forall>f. f \<notin> set (keys files) \<longrightarrow> map_of (bd_files dir') f = map_of (bd_files dir) f)"
  using assms
proof (induction files arbitrary: dir kept)
  case (Cons p files)
  obtain n data where p: "p = (n, data)" by (cases p)
  let ?dir = "dir\<lparr>bd_files := dict_set n (seal_file cx (nonce n) k n data) (bd_files dir)\<rparr>"
  show ?case using Cons.IH [of ?dir "dict_set n (cx_encrypted cx) kept"] Cons.prems p by fastforce
qed simp

lemma no_missing_chunk:
  "(\<forall>ix \<in> snd ` set ixs. \<forall>d \<in> set (ix_digests ix). present d s) \<Longrightarrow> missing_chunk ixs s = None"
  by (auto simp: missing_chunk_def find_None_iff used_digests_def present_def file_exists_def fbytes_def)

lemma write_backup_reads:
  assumes "codec_ok cx" and ix: "\<forall>(n, ix) \<in> set ixs. index_ok ix \<and> sizes_fit ix"
    and p: "\<forall>ix \<in> snd ` set ixs. \<forall>d \<in> set (ix_digests ix). present d s"
    and names: "names_ok (keys ixs) (keys files)" and new: "dir_of k s = None"
  shows "\<exists>s'. write_backup cx nonce k ixs extra files s = (Inr (), s') \<and> st_files s' = st_files s
    \<and> (\<forall>k'. k' \<noteq> k \<longrightarrow> dir_of k' s' = dir_of k' s) \<and> (\<forall>(n, ix) \<in> set ixs. index_of cx k n s' = Inr ix)
    \<and> (\<exists>m. Option.bind (dir_of k s') bd_manifest = Some m \<and> set (keys (mf_disks m)) = set (keys ixs))"
proof -
  let ?d0 = "\<lparr>bd_files = [], bd_manifest = None\<rparr>"
  have safe: "safe_name n = Inr n" if nx: "(n, x) \<in> set ixs" for n x
  proof -
    have "n \<in> set (keys ixs)" using nx by (metis fst_conv image_eqI set_map)
    then show ?thesis using names by (simp add: names_ok_def)
  qed
  have nm: "\<forall>(n, ix) \<in> set ixs. safe_name n = Inr n \<and> sizes_fit ix" "dict_ok ixs" "\<forall>n \<in> set (keys files). safe_name n = Inr n"
    using safe ix names by (blast, simp_all add: names_ok_def)
  obtain listed dir where w: "write_indexes cx ixs ?d0 [] = (Inr listed, dir)"
      "\<forall>(n, ix) \<in> set ixs. \<exists>raw. index_encode cx ix = Inr raw \<and> map_of (bd_files dir) (fidx n) = Some raw
         \<and> map_of listed n = Some (ix_size ix, cx_sha256 cx raw)" "set (keys listed) = set (keys ixs)"
    using write_indexes_facts [OF nm(1,2), of cx ?d0 "[]"] by auto
  obtain kept dir' where f: "write_files cx nonce k files dir [] = (Inr kept, dir')"
      "\<forall>f. f \<notin> set (keys files) \<longrightarrow> map_of (bd_files dir') f = map_of (bd_files dir) f"
    using write_files_facts [OF nm(3), of cx nonce k dir "[]"] by blast
  let ?m = "\<lparr>mf_store = st_id s, mf_vm_uuid = fst k, mf_time = snd k, mf_disks = listed, mf_files = kept,
     mf_copied_from = None, mf_more = extra\<rparr>"
  let ?s = "s\<lparr>st_dirs := dict_set k (dir'\<lparr>bd_manifest := Some ?m\<rparr>) (st_dirs s)\<rparr>"
  have wb: "write_backup cx nonce k ixs extra files s = (Inr (), ?s)"
    using no_missing_chunk [OF p] new w(1) f(1) by (simp add: write_backup_def record_backup_def)
  have "index_of cx k n ?s = Inr x" if nx: "(n, x) \<in> set ixs" for n x
  proof -
    obtain raw where raw: "index_encode cx x = Inr raw" "map_of (bd_files dir) (fidx n) = Some raw"
        "map_of listed n = Some (ix_size x, cx_sha256 cx raw)"
      using w(2) nx by blast
    have "fidx n \<notin> set (keys files)" using names nx by (force simp: names_ok_def)
    then have "map_of (bd_files dir') (fidx n) = Some raw" using f(2) raw(2) by simp
    moreover have "index_decode cx raw = Inr x" using index_decode_encode [OF assms(1) _ raw(1)] ix nx by blast
    ultimately show ?thesis using safe [OF nx] raw(3) by (simp add: index_of_def dir_of_def)
  qed
  then show ?thesis using wb w(3) by (auto simp: dir_of_def)
qed

lemma write_backup_chunk_size: "st_chunk_size (snd (write_backup cx nonce k ixs extra files s)) = st_chunk_size s"
  by (auto simp: write_backup_def record_backup_def Let_def split: option.splits sum.splits prod.splits)

section \<open>The whole backup\<close>

text \<open>What the exports give: the stream is the frozen disk, whole, ranges of it are its bytes, and a disk that is built on an
  earlier backup has a bitmap that marks every byte changed since.\<close>

definition export_ok :: "codec \<Rightarrow> vm_env \<Rightarrow> vm_disk list \<Rightarrow> (string \<times> manifest) option \<Rightarrow> bstore \<Rightarrow> vm_disk \<Rightarrow> bool" where
  "export_ok cx e disks base s d \<longleftrightarrow> vd_exit_ok d \<and> vd_size d = length (vd_stream d) \<and> vd_ranges d = ranges_of (vd_stream d)
     \<and> (case previous_index cx e disks base d s of
          Inl _ \<Rightarrow> False
        | Inr None \<Rightarrow> True
        | Inr (Some ix) \<Rightarrow> \<exists>extents old. vd_extents d = Some extents \<and> ix = whole_index cx (st_chunk_size s) old
            \<and> changes_marked extents old (vd_stream d))"

lemma previous_index_dirs: "st_dirs s' = st_dirs s \<Longrightarrow> previous_index cx e disks base d s' = previous_index cx e disks base d s"
  by (auto simp: previous_index_def index_of_def dir_of_def split: option.splits)

lemma export_ok_keeps:
  assumes "keeps_files s s'" and "export_ok cx e disks base s d"
  shows "export_ok cx e disks base s' d"
proof -
  have "st_dirs s' = st_dirs s" and cs: "st_chunk_size s' = st_chunk_size s" using assms(1) by (simp_all add: keeps_files_def)
  then have "previous_index cx e disks base d s' = previous_index cx e disks base d s" using previous_index_dirs by blast
  then show ?thesis using assms(2) by (simp only: export_ok_def cs)
qed

lemma backup_disk_whole:
  assumes s: "sound cx C s" and cs: "0 < st_chunk_size s" "st_chunk_size s < 2 ^ 32"
    and C: "covers C (st_chunk_size s) (vd_stream d)" and n: "\<forall>i. length (nonce i) = NONCE" and d: "export_ok cx e disks base s d"
  shows "\<exists>kind s'. backup_disk cx nonce now e disks base d s = (Inr (whole_index cx (st_chunk_size s) (vd_stream d), kind), s')
    \<and> sound cx C s' \<and> holds cx (st_chunk_size s) (vd_stream d) s' \<and> keeps_files s s'"
proof -
  obtain pix where pix: "previous_index cx e disks base d s = Inr pix" using d by (auto simp: export_ok_def split: sum.splits)
  have v: "vd_exit_ok d" "vd_size d = length (vd_stream d)" "vd_ranges d = ranges_of (vd_stream d)"
    using d by (simp_all add: export_ok_def)
  show ?thesis
  proof (cases pix)
    case None
    then show ?thesis using read_into_store_whole [OF s cs C n, of now] pix v by (auto simp: backup_disk_def)
  next
    case (Some ix)
    then obtain extents old where o: "vd_extents d = Some extents" "ix = whole_index cx (st_chunk_size s) old"
        "changes_marked extents old (vd_stream d)"
      using d pix by (auto simp: export_ok_def)
    then show ?thesis using read_changed_whole [OF s cs C n o(3), of now] pix v Some by (auto simp: backup_disk_def)
  qed
qed

lemma backup_loop_whole:
  assumes "sound cx C s" and "0 < st_chunk_size s" "st_chunk_size s < 2 ^ 32" and "\<forall>i. length (nonce i) = NONCE"
    and "\<forall>d \<in> set ds. covers C (st_chunk_size s) (vd_stream d) \<and> export_ok cx e disks base s d"
  shows "\<exists>kinds s'. backup_loop cx nonce now e disks base ds acc s
      = (Inr (foldl (\<lambda>acc (d, kind). dict_set (vd_dev d) (whole_index cx (st_chunk_size s) (vd_stream d), kind) acc) acc
           (zip ds kinds)), s')
    \<and> length kinds = length ds \<and> sound cx C s' \<and> keeps_files s s' \<and> (\<forall>d \<in> set ds. holds cx (st_chunk_size s) (vd_stream d) s')"
  using assms
proof (induction ds arbitrary: acc s)
  case Nil
  then show ?case by (intro exI [of _ "[]"]) simp
next
  case (Cons d ds)
  let ?cs = "st_chunk_size s"
  obtain kind t where t: "backup_disk cx nonce now e disks base d s = (Inr (whole_index cx ?cs (vd_stream d), kind), t)"
      "sound cx C t" "holds cx ?cs (vd_stream d) t" "keeps_files s t"
    using backup_disk_whole [OF Cons.prems(1-3) _ Cons.prems(4)] Cons.prems(5) by (meson list.set_intros(1))
  have cs: "st_chunk_size t = ?cs" using t(4) by (simp add: keeps_files_def)
  obtain kinds s' where r: "backup_loop cx nonce now e disks base ds (dict_set (vd_dev d) (whole_index cx ?cs (vd_stream d), kind) acc) t
      = (Inr (foldl (\<lambda>acc (d, kind). dict_set (vd_dev d) (whole_index cx ?cs (vd_stream d), kind) acc)
           (dict_set (vd_dev d) (whole_index cx ?cs (vd_stream d), kind) acc) (zip ds kinds)), s')"
      "length kinds = length ds" "sound cx C s'" "keeps_files t s'" "\<forall>d \<in> set ds. holds cx ?cs (vd_stream d) s'"
    using Cons.IH [OF t(2), of "dict_set (vd_dev d) (whole_index cx ?cs (vd_stream d), kind) acc"] Cons.prems(2-5)
      export_ok_keeps [OF t(4)] by (auto simp: cs)
  then show ?case using t by (intro exI [of _ "kind # kinds"])
      (auto intro: keeps_files_trans dest: keeps_files_holds)
qed

lemma foldl_dict_set_new:
  assumes "distinct (map vd_dev ds @ keys acc)" and "length kinds = length ds"
  shows "foldl (\<lambda>acc (d, kind). dict_set (vd_dev d) (f d, kind) acc) acc (zip ds kinds)
    = acc @ map (\<lambda>(d, kind). (vd_dev d, f d, kind)) (zip ds kinds)"
  using assms
proof (induction ds arbitrary: acc kinds)
  case (Cons d ds)
  obtain kind ks where k: "kinds = kind # ks" "length ks = length ds" using Cons.prems(2) by (cases kinds) auto
  have "dict_set (vd_dev d) (f d, kind) acc = acc @ [(vd_dev d, f d, kind)]"
    using Cons.prems(1) by (intro dict_set_new) auto
  then show ?case using Cons.IH [of "acc @ [(vd_dev d, f d, kind)]" ks] Cons.prems(1) k by auto
qed simp

text \<open>C24: Reading only the blocks changed since the last backup gives the same index as reading the whole disk: a store of chunks of
  at most 4 GiB, whose dirty bitmap marks every byte that changed, ends with the index a whole read ends with.\<close>

theorem incremental_equals_whole:
  assumes "sound cx C s" and "0 < st_chunk_size s" and "st_chunk_size s < 2 ^ 32" and "covers C (st_chunk_size s) new"
    and "\<forall>i. length (nonce i) = NONCE" and "changes_marked extents old new"
    and "fst (read_into_store cx nonce now True old (length old) s0) = Inr base" and "st_chunk_size s0 = st_chunk_size s"
  shows "map_sum id fst (fst (read_changed_into_store cx nonce now True (ranges_of new) (length new) base
        (changed_chunks extents (length new) (st_chunk_size s)) s))
    = fst (read_into_store cx nonce now True new (length new) s)"
proof -
  have "base = whole_index cx (st_chunk_size s) old"
    using read_into_store_puts [of s0 cx nonce now old] assms(2,3,7,8) by auto
  then show ?thesis
    using read_changed_whole [OF assms(1-6), of now] read_into_store_whole [OF assms(1-5), of now] by auto
qed

text \<open>C10: A backup of a VM that goes through holds every disk: what its indexes name reads back as the bytes the VM's disks had,
  whether they were read whole or from an earlier backup and the changed blocks, and what could be read before still can.\<close>

theorem backup_reads_back:
  assumes s: "sound cx C s" and cs: "0 < st_chunk_size s" "st_chunk_size s < 2 ^ 32"
    and nonces: "\<forall>i. length (nonce i) = NONCE" and disks: "disks \<noteq> []"
    and exports: "\<forall>d \<in> set disks. covers C (st_chunk_size s) (vd_stream d) \<and> sizes_fit (whole_index cx (st_chunk_size s) (vd_stream d))
        \<and> export_ok cx e disks (if tracked disks \<noteq> [] then incremental_base e s else None) s d"
    and names: "names_ok (map vd_dev disks) (keys files)" and new: "dir_of (ve_uuid e, ve_stamp e) s = None"
  shows "\<exists>s'. backup_vm cx nonce fnonce now e disks files extra s = (Inr (), s')
    \<and> (\<forall>d \<in> set disks. rbind (index_of cx (ve_uuid e, ve_stamp e) (vd_dev d) s') (\<lambda>ix. read_disk cx ix s') = Inr (vd_stream d))
    \<and> (\<forall>ix bs. read_disk cx ix s = Inr bs \<longrightarrow> read_disk cx ix s' = Inr bs)"
proof -
  let ?cs = "st_chunk_size s" and ?base = "if tracked disks \<noteq> [] then incremental_base e s else None"
  let ?ix = "\<lambda>d. whole_index cx (st_chunk_size s) (vd_stream d)"
  have cx: "codec_ok cx" using s by (simp add: sound_def)
  obtain kinds t where t: "backup_loop cx nonce now e disks ?base disks [] s
      = (Inr (foldl (\<lambda>acc (d, kind). dict_set (vd_dev d) (?ix d, kind) acc) [] (zip disks kinds)), t)"
      "length kinds = length disks" "sound cx C t" "keeps_files s t" "\<forall>d \<in> set disks. holds cx ?cs (vd_stream d) t"
    using backup_loop_whole [OF s cs nonces, of disks e disks ?base now "[]"] exports by auto
  let ?done = "map (\<lambda>(d, kind). (vd_dev d, ?ix d, kind)) (zip disks kinds)"
  have fold: "foldl (\<lambda>acc (d, kind). dict_set (vd_dev d) (?ix d, kind) acc) [] (zip disks kinds) = ?done"
    using foldl_dict_set_new [of disks "[]" kinds ?ix] t(2) names by (simp add: names_ok_def)
  let ?ixs = "map (\<lambda>d. (vd_dev d, ?ix d)) disks"
  have ixs: "map (\<lambda>(n, ix, _). (n, ix)) ?done = ?ixs"
    using t(2) by (intro nth_equalityI) auto
  have "present d' t" if "d \<in> set disks" "d' \<in> set (ix_digests (?ix d))" for d d'
    using t(5) that by (auto simp: holds_def whole_index_def)
  then obtain s' where w: "write_backup cx fnonce (ve_uuid e, ve_stamp e) ?ixs (backup_manifest e disks ?base ?done extra) files t = (Inr (), s')"
      "st_files s' = st_files t" "\<forall>(n, ix) \<in> set ?ixs. index_of cx (ve_uuid e, ve_stamp e) n s' = Inr ix"
    using write_backup_reads [OF cx, of ?ixs t files "(ve_uuid e, ve_stamp e)" fnonce
        "backup_manifest e disks ?base ?done extra"] exports names new t(4) whole_index_ok [OF cx cs(1)]
    by (auto simp: keeps_files_def dir_of_def comp_def)
  have b: "backup_vm cx nonce fnonce now e disks files extra s = (Inr (), s')"
    using disks t(1) w(1) fold ixs by (simp add: backup_vm_def Let_def)
  have same: "read_disk cx ix s' = read_disk cx ix t" for ix
  proof -
    have "get cx d n s' = get cx d n t" for d n using w(2) by (simp add: get_def)
    then have "read_chunks cx ix i ds s' = read_chunks cx ix i ds t" for i ds by (induction ds arbitrary: i) simp_all
    then show ?thesis by (simp add: read_disk_def)
  qed
  have "read_disk cx (?ix d) t = Inr (vd_stream d)" if "d \<in> set disks" for d
    using holds_read [OF t(3) _ _ cs(1)] exports t(5) that by blast
  moreover have "read_disk cx ix s = Inr bs \<Longrightarrow> read_disk cx ix t = Inr bs" for ix bs
    using keeps_files_read [OF t(4)] by (simp add: read_disk_def)
  ultimately show ?thesis using b w(3) same by auto
qed

section \<open>Repair\<close>

text \<open>A backup found damaged is repaired by the next backup of the same content: once the verification put the damaged chunks
  aside, a whole read of a disk with that content writes them again, and the verified backup restores.\<close>

theorem verified_backup_is_repaired:
  assumes cx: "codec_ok cx" and C: "no_clash cx (set (pieces (st_chunk_size s) disk) \<union> contents cx s)"
    and cs: "0 < st_chunk_size s" "st_chunk_size s < 2 ^ 32" and nonces: "\<forall>i. length (nonce i) = NONCE"
    and backup: "Option.bind (dir_of k s) bd_manifest = Some m" "dev \<in> set (keys (mf_disks m))"
      "index_of cx k dev s = Inr (whole_index cx (st_chunk_size s) disk)"
    and verified: "verify cx k s = (Inr bad, s1)"
    and again: "read_into_store cx nonce now True disk (length disk) s1 = (r, s2)"
  shows "rbind (index_of cx k dev s2) (\<lambda>ix. read_disk cx ix s2) = Inr disk"
proof -
  let ?cs = "st_chunk_size s" and ?C = "set (pieces (st_chunk_size s) disk)"
  obtain ck where "verify_disks cx k (keys (mf_disks m)) ([], []) s = (Inr (bad, ck), s1)"
    using verified backup(1) by (auto simp: verify_def split: sum.splits prod.splits)
  then have aside: "only_aside cx s s1"
      and all_clean: "\<forall>d \<in> set (ix_digests (whole_index cx ?cs disk)). clean cx d s1"
    using verify_disks_clean [of cx k "keys (mf_disks m)" "[]" "[]" s] backup(2,3) by auto
  have "chunk_decode cx (digest cx c) bs = Inr c"
    if c: "c \<in> {c \<in> ?C. \<not> all_zero c}" and bs: "fbytes s1 (Chunk (digest cx c)) = Some bs" for c bs
  proof -
    have cC: "c \<in> ?C" and nz: "\<not> all_zero c" using c by simp_all
    have z: "digest cx c \<noteq> ZERO" using C cC unfolding no_clash_def by (metis UnI1 image_eqI)
    have id: "chunk_id cx c = digest cx c" using nz by (simp only: chunk_id_def if_False)
    have "chunk_id cx c \<in> set (ix_digests (whole_index cx ?cs disk))" using cC by (simp add: whole_index_def)
    then have "clean cx (digest cx c) s1" using all_clean id by simp
    then obtain c' where c': "chunk_decode cx (digest cx c) bs = Inr c'" using bs z by (auto simp: clean_def)
    moreover have "c' \<in> contents cx s" using aside bs c' unfolding only_aside_def contents_def by blast
    ultimately show ?thesis using C c chunk_decode_digest [OF c'] by (auto simp: no_clash_def dest: inj_onD)
  qed
  moreover have "no_clash cx {c \<in> ?C. \<not> all_zero c}" using C by (auto simp: no_clash_def inj_on_def)
  ultimately have snd1: "sound cx {c \<in> ?C. \<not> all_zero c} s1" using cx by (simp add: sound_def)
  have cs1: "st_chunk_size s1 = ?cs" using aside by (simp add: only_aside_def)
  have cov: "covers {c \<in> ?C. \<not> all_zero c} ?cs disk" unfolding covers_def by blast
  have s2: "sound cx {c \<in> ?C. \<not> all_zero c} s2" "holds cx ?cs disk s2" "keeps_files s1 s2"
    using read_into_store_whole [OF snd1, of disk nonce now] cs cs1 cov nonces again by auto
  have "st_dirs s2 = st_dirs s" using s2(3) aside by (simp add: keeps_files_def only_aside_def)
  then have "index_of cx k dev s2 = Inr (whole_index cx ?cs disk)" using index_of_dirs backup(3) by metis
  then show ?thesis using holds_read [OF s2(1) cov s2(2) cs(1)] by simp
qed

text \<open>A VM of one disk, backed up into the small store.\<close>

definition small_disk :: "bytes \<Rightarrow> (nat \<times> nat \<times> nat) list option \<Rightarrow> vm_disk" where
  "small_disk bs extents = \<lparr>vd_dev = ''vda'', vd_block = False, vd_format = ''qcow2'', vd_size = length bs, vd_stream = bs,
     vd_exit_ok = True, vd_extents = extents, vd_ranges = ranges_of bs\<rparr>"

definition small_env :: "string \<Rightarrow> string list \<Rightarrow> string \<Rightarrow> vm_env" where
  "small_env stamp checkpoints cp = \<lparr>ve_uuid = ''u'', ve_running = True, ve_checkpoints = checkpoints, ve_stamp = stamp,
     ve_checkpoint = cp, ve_now_iso = ''2026-11-05'', ve_limit = ''2026-11-01''\<rparr>"

lemma small_vm_simps [simp]:
  "vd_dev (small_disk bs x) = ''vda''" "vd_stream (small_disk bs x) = bs" "ve_uuid (small_env t cps cp) = ''u''"
  "ve_stamp (small_env t cps cp) = t"
  by (simp_all add: small_disk_def small_env_def)

lemma small_covers: "covers small_contents 2 [1, 2, 0, 0, 3, 4]" "covers small_contents 2 [1, 2, 5, 6, 3, 4]"
  by (simp_all add: covers_def pieces_def piece_def chunk_count_def small_contents_def upt_rec numeral_2_eq_2 [symmetric])

theorem backup_reads_back_witness:
  "\<exists>s'. backup_vm plain_codec (\<lambda>_. replicate 12 0) (\<lambda>_. []) 0 (small_env ''t1'' [] ''c1'') [small_disk [1, 2, 0, 0, 3, 4] None]
       [(''nvram'', [9])] [] small_store = (Inr (), s')
     \<and> rbind (index_of plain_codec (''u'', ''t1'') ''vda'' s') (\<lambda>ix. read_disk plain_codec ix s') = Inr [1, 2, 0, 0, 3, 4]"
proof -
  let ?e = "small_env ''t1'' [] ''c1''" and ?d = "small_disk [1, 2, 0, 0, 3, 4] None"
  have "incremental_base ?e small_store = None"
    by (simp add: incremental_base_def backups_def small_env_def map_filter_def)
  then have "export_ok plain_codec ?e [?d] (if tracked [?d] \<noteq> [] then incremental_base ?e small_store else None) small_store ?d"
    by (simp add: export_ok_def previous_index_def small_disk_def)
  moreover have "sizes_fit (whole_index plain_codec 2 [1, 2, 0, 0, 3, 4])"
    by (simp add: sizes_fit_def whole_index_def chunk_count_def)
  ultimately show ?thesis
    using backup_reads_back [OF small_sound, of "\<lambda>_. replicate 12 0" "[?d]" ?e "[(''nvram'', [9])]" "\<lambda>_. []" 0 "[]"] small_covers(1)
    by (auto simp: NONCE_def names_ok_def safe_name_def fidx_def)
qed

theorem incremental_equals_whole_witness:
  "map_sum id fst (fst (read_changed_into_store plain_codec (\<lambda>_. replicate 12 0) 0 True (ranges_of [1, 2, 5, 6, 3, 4]) 6
        (whole_index plain_codec 2 [1, 2, 0, 0, 3, 4]) (changed_chunks [(0, 3, 0), (2, 2, 1)] 6 2) small_store))
    = fst (read_into_store plain_codec (\<lambda>_. replicate 12 0) 0 True [1, 2, 5, 6, 3, 4] 6 small_store)"
proof -
  have six: "length [1, 2, 0, 0, 3, 4 :: byte] = 6" "length [1, 2, 5, 6, 3, 4 :: byte] = 6" by simp_all
  have "changes_marked [(0, 3, 0), (2, 2, 1)] [1, 2, 0, 0, 3, 4] [1, 2, 5, 6, 3, 4]"
    by (auto simp: changes_marked_def less_Suc_eq eval_nat_numeral)
  moreover have "fst (read_into_store plain_codec (\<lambda>_. replicate 12 0) 0 True [1, 2, 0, 0, 3, 4] 6 small_store)
      = Inr (whole_index plain_codec 2 [1, 2, 0, 0, 3, 4])"
    using read_into_store_puts [of small_store plain_codec "\<lambda>_. replicate 12 0" 0 "[1, 2, 0, 0, 3, 4]"] unfolding six by auto
  ultimately show ?thesis
    using incremental_equals_whole [OF small_sound, of "[1, 2, 5, 6, 3, 4]" "\<lambda>_. replicate 12 0" "[(0, 3, 0), (2, 2, 1)]"
        "[1, 2, 0, 0, 3, 4]" 0 small_store "whole_index plain_codec 2 [1, 2, 0, 0, 3, 4]"] small_covers(2)
    unfolding six by (simp add: NONCE_def)
qed

text \<open>A backup whose chunks are gone but one, cut to nothing.\<close>

theorem verified_backup_is_repaired_witness:
  "\<exists>s bad s1 r s2. rbind (index_of plain_codec (''u'', ''t1'') ''vda'' s) (\<lambda>ix. read_disk plain_codec ix s) \<noteq> Inr [1, 2, 0, 0, 3, 4]
     \<and> verify plain_codec (''u'', ''t1'') s = (Inr bad, s1)
     \<and> read_into_store plain_codec (\<lambda>_. replicate 12 0) 5 True [1, 2, 0, 0, 3, 4] 6 s1 = (r, s2)
     \<and> rbind (index_of plain_codec (''u'', ''t1'') ''vda'' s2) (\<lambda>ix. read_disk plain_codec ix s2) = Inr [1, 2, 0, 0, 3, 4]"
proof -
  let ?disk = "[1, 2, 0, 0, 3, 4 :: byte]" and ?k = "(''u'', ''t1'')"
  let ?ix = "whole_index plain_codec 2 ?disk"
  have six: "length ?disk = 6" by simp
  obtain t where t: "holds plain_codec 2 ?disk t" "keeps_files small_store t"
    using read_into_store_whole [OF small_sound, of ?disk "\<lambda>_. replicate 12 0" 0] small_covers(1) by (auto simp: NONCE_def)
  have "\<forall>d \<in> set (ix_digests ?ix). present d t" using t(1) by (simp add: holds_def whole_index_def)
  moreover have "index_ok ?ix" "sizes_fit ?ix" using whole_index_ok [OF plain_codec_ok, of 2 ?disk]
    by (simp_all add: sizes_fit_def whole_index_def small_pieces)
  ultimately obtain u m where u: "index_of plain_codec ?k ''vda'' u = Inr ?ix"
      "Option.bind (dir_of ?k u) bd_manifest = Some m" "set (keys (mf_disks m)) = {''vda''}" "st_chunk_size u = 2"
    using write_backup_reads [OF plain_codec_ok, of "[(''vda'', ?ix)]" t "[]" ?k "\<lambda>_. []" "[]"] t(2)
      write_backup_chunk_size [of plain_codec "\<lambda>_. []" ?k "[(''vda'', ?ix)]" "[]" "[]" t]
    by (auto simp: names_ok_def safe_name_def keeps_files_def dir_of_def)
  define s where "s = u\<lparr>st_files := [(Chunk (chunk_id plain_codec [1, 2]), \<lparr>cb_bytes = [], cb_atime = 0\<rparr>)]\<rparr>"
  have s: "index_of plain_codec ?k ''vda'' s = Inr ?ix" "Option.bind (dir_of ?k s) bd_manifest = Some m" "st_chunk_size s = 2"
    using u index_of_dirs [of s u] by (simp_all add: s_def dir_of_def)
  have nz: "chunk_id plain_codec [1, 2] \<noteq> ZERO"
    by (simp add: chunk_id_def digest_def plain_codec_def plain_digest_def ZERO_def eval_nat_numeral)
  then have "\<exists>e. read_disk plain_codec ?ix s = Inl e"
    by (simp add: read_disk_def whole_index_def small_pieces get_def s_def chunk_decode_def HEADER_SIZE_def)
  then have lost: "rbind (index_of plain_codec ?k ''vda'' s) (\<lambda>ix. read_disk plain_codec ix s) \<noteq> Inr ?disk"
    using s(1) by auto
  have "contents plain_codec s = {}"
    by (auto simp: contents_def fbytes_def s_def chunk_decode_def HEADER_SIZE_def split: if_splits)
  then have C: "no_clash plain_codec (set (pieces (st_chunk_size s) ?disk) \<union> contents plain_codec s)"
    using small_pieces_no_clash by (simp add: s(3))
  obtain c s1 where "verify_disks plain_codec ?k (keys (mf_disks m)) ([], []) s = (Inr c, s1)"
  proof -
    have "\<forall>disk \<in> set (keys (mf_disks m)). \<exists>ix. index_of plain_codec ?k disk s = Inr ix" using s(1) by (simp only: u(3)) blast
    from verify_disks_works [OF this] show thesis using that by blast
  qed
  then have v: "verify plain_codec ?k s = (Inr (fst c), s1)" using s(2) by (auto simp: verify_def split: prod.splits)
  obtain r s2 where a: "read_into_store plain_codec (\<lambda>_. replicate 12 0) 5 True ?disk 6 s1 = (r, s2)" by (metis surj_pair)
  have "rbind (index_of plain_codec ?k ''vda'' s2) (\<lambda>ix. read_disk plain_codec ix s2) = Inr ?disk"
    using verified_backup_is_repaired [OF plain_codec_ok C _ _ _ s(2) _ _ v, of "\<lambda>_. replicate 12 0" "''vda''" 5 r s2]
      s a u(3) unfolding six by (simp add: NONCE_def)
  then show ?thesis using lost v a by blast
qed

end
