(* ===== verification/Chunk_Gc.thy ===== *)
theory Chunk_Gc
  imports Backup_Vm
begin

text \<open>
  Garbage collection beside running backups (\<open>collect_garbage\<close>, \<open>_sweep\<close>, \<open>put\<close>, \<open>touch\<close>, \<open>write_backup\<close> of
  \<^verbatim>\<open>app/core/backup_store.py\<close>), in the moves that may come between each other: every access to a file is one step of one
  process. The collector goes through its own states (\<open>collector\<close>); a running backup (\<open>writer\<close>) remembers which chunks it
  counts on and since when. One collection at a time: the store's lock, and the cluster's.

  A file of a chunk is made under a temporary name and renamed: its access time is that of its making, not of its renaming.
  The look of \<open>write_backup\<close> for its chunks before it records the backup is not needed here, so it is not a step: more runs
  are possible without it. So is the order in which the collector takes the files: it may look at any file at any time.

  Shown: a collection never takes a chunk from a recorded backup, provided a backup is recorded within the grace of
  24 h 5 min after it touched its chunks, less twice the time one chunk's file or one chunk's sweep may take, and no collection
  is killed between its rename of a chunk and its second look at it; and that a collection killed right there can cost a chunk.
\<close>

section \<open>The machine\<close>

record writer =
  w_key :: backup_key
  w_used :: "(bytes \<times> seconds) list"
  w_making :: "(bytes \<times> bytes \<times> seconds) option"

datatype collector =
    Idle
  | Marking seconds "(backup_key \<times> string) list" "bytes list"
  | Sweeping seconds
  | Looked seconds cfile seconds
  | Renamed seconds cfile seconds

record gc_sys =
  gs_store :: bstore
  gs_now :: seconds
  gs_writers :: "(nat, writer) dict"
  gs_gc :: collector

datatype gc_event =
    Tick seconds
  | Begin nat backup_key
  | Touch nat bytes
  | Make nat bytes bytes
  | Rename_made nat
  | Record nat "(string, disk_index) dict"
  | Give_up nat
  | Delete backup_key
  | Gc_start
  | Gc_next
  | Gc_put_back cfile
  | Gc_look cfile
  | Gc_killed

abbreviation with_writer :: "nat \<Rightarrow> (writer \<Rightarrow> gc_sys option) \<Rightarrow> gc_sys \<Rightarrow> gc_sys option" where
  "with_writer w f S \<equiv> Option.bind (map_of (gs_writers S) w) f"

definition uses :: "bytes \<Rightarrow> seconds \<Rightarrow> writer \<Rightarrow> writer" where
  "uses d t wr = wr\<lparr>w_used := (d, t) # w_used wr, w_making := None\<rparr>"

text \<open>What a recorded backup's indexes name, among the chunks its writer counts on.\<close>

definition indexes_used :: "codec \<Rightarrow> backup_key \<Rightarrow> (bytes \<times> seconds) list \<Rightarrow> bstore \<Rightarrow> bool" where
  "indexes_used cx k used s = (case Option.bind (dir_of k s) bd_manifest of
       None \<Rightarrow> True
     | Some m \<Rightarrow> list_all (\<lambda>disk. case index_of cx k disk s of
           Inl _ \<Rightarrow> True
         | Inr ix \<Rightarrow> list_all (\<lambda>d. d \<in> fst ` set used) (used_digests ix)) (keys (mf_disks m)))"

lemma index_of_listed:
  "index_of cx k disk s = Inr ix \<Longrightarrow> \<exists>m. Option.bind (dir_of k s) bd_manifest = Some m \<and> disk \<in> set (keys (mf_disks m))"
  by (auto simp: index_of_def py_simps bind_eq_Some_conv split: prod.splits dest: map_of_in_keys)

lemma indexes_usedD:
  "indexes_used cx k used s \<Longrightarrow> index_of cx k disk s = Inr ix \<Longrightarrow> d \<in> set (used_digests ix) \<Longrightarrow> \<exists>t. (d, t) \<in> set used"
  using index_of_listed [of cx k disk s ix] by (fastforce simp: indexes_used_def list_all_iff)

text \<open>The collector's own next step: the next index read, the next chunk marked, the mark's end, the renaming, the second look.\<close>

definition gc_next :: "codec \<Rightarrow> gc_sys \<Rightarrow> gc_sys option" where
  "gc_next cx S =
     (case gs_gc S of
        Idle \<Rightarrow> None
      | Marking st todo (d # ds) \<Rightarrow>
          Some (S\<lparr>gs_store := snd (os_utime (gs_now S) (Chunk d) (gs_store S)), gs_gc := Marking st todo ds\<rparr>)
      | Marking st ((k, disk) # todo) [] \<Rightarrow>
          (case index_of cx k disk (gs_store S) of
             Inl _ \<Rightarrow> Some (S\<lparr>gs_gc := Idle\<rparr>)
           | Inr ix \<Rightarrow> Some (S\<lparr>gs_gc := Marking st todo (used_digests ix)\<rparr>))
      | Marking st [] [] \<Rightarrow> Some (S\<lparr>gs_gc := Sweeping (st - GC_GRACE_S)\<rparr>)
      | Sweeping c \<Rightarrow> Some (S\<lparr>gs_gc := Idle\<rparr>)
      | Looked c f t \<Rightarrow>
          (case sweep_rename f (gs_store S) of
             (True, s) \<Rightarrow> Some (S\<lparr>gs_store := s, gs_gc := Renamed c f t\<rparr>)
           | (False, s) \<Rightarrow> Some (S\<lparr>gs_gc := Sweeping c\<rparr>))
      | Renamed c f t \<Rightarrow> Some (S\<lparr>gs_store := snd (sweep_end c f (gs_store S)), gs_gc := Sweeping c\<rparr>))"

fun gc_do :: "codec \<Rightarrow> gc_event \<Rightarrow> gc_sys \<Rightarrow> gc_sys option" where
  "gc_do cx (Tick dt) S = (if 0 \<le> dt then Some (S\<lparr>gs_now := gs_now S + dt\<rparr>) else None)"
| "gc_do cx (Begin w k) S =
     (if map_of (gs_writers S) w = None
      then Some (S\<lparr>gs_writers := dict_set w \<lparr>w_key = k, w_used = [], w_making = None\<rparr> (gs_writers S)\<rparr>) else None)"
| "gc_do cx (Touch w d) S = with_writer w (\<lambda>wr.
     (if file_exists (Chunk d) (gs_store S)
      then Some (S\<lparr>gs_store := snd (os_utime (gs_now S) (Chunk d) (gs_store S)),
                   gs_writers := dict_set w (uses d (gs_now S) wr) (gs_writers S)\<rparr>)
      else None)) S"
| "gc_do cx (Make w d blob) S = with_writer w (\<lambda>wr.
     (if \<not> file_exists (Chunk d) (gs_store S)
      then Some (S\<lparr>gs_writers := dict_set w (wr\<lparr>w_making := Some (d, blob, gs_now S)\<rparr>) (gs_writers S)\<rparr>)
      else None)) S"
| "gc_do cx (Rename_made w) S = with_writer w (\<lambda>wr.
     (case w_making wr of
        None \<Rightarrow> None
      | Some (d, blob, t) \<Rightarrow>
          Some (S\<lparr>gs_store := write_atomic t (Chunk d) blob (gs_store S),
                  gs_writers := dict_set w (uses d t wr) (gs_writers S)\<rparr>))) S"
| "gc_do cx (Record w ixs) S = with_writer w (\<lambda>wr.
     (let s' = snd (record_backup cx (\<lambda>_. []) (w_key wr) ixs [] [] (gs_store S)) in
      if dir_of (w_key wr) (gs_store S) = None \<and> indexes_used cx (w_key wr) (w_used wr) s'
      then Some (S\<lparr>gs_store := s', gs_writers := dict_del w (gs_writers S)\<rparr>) else None)) S"
| "gc_do cx (Give_up w) S = Some (S\<lparr>gs_writers := dict_del w (gs_writers S)\<rparr>)"
| "gc_do cx (Delete k) S = Some (S\<lparr>gs_store := snd (delete_backup k (gs_store S))\<rparr>)"
| "gc_do cx Gc_start S =
     (if gs_gc S = Idle then Some (S\<lparr>gs_gc := Marking (gs_now S) (listed_disks (gs_store S)) []\<rparr>) else None)"
| "gc_do cx Gc_next S = gc_next cx S"
| "gc_do cx (Gc_put_back f) S = (case gs_gc S of
       Sweeping c \<Rightarrow> if file_exists f (gs_store S) then Some (S\<lparr>gs_store := put_back f (gs_store S)\<rparr>) else None
     | _ \<Rightarrow> None)"
| "gc_do cx (Gc_look f) S = (case gs_gc S of
       Sweeping c \<Rightarrow> Some (if sweep_look c f (gs_store S) then S\<lparr>gs_gc := Looked c f (gs_now S)\<rparr> else S)
     | _ \<Rightarrow> None)"
| "gc_do cx Gc_killed S = Some (S\<lparr>gs_gc := Idle\<rparr>)"

text \<open>How long things take: \<open>D\<close> bounds the making of one chunk's file and the sweep of one chunk; a backup is recorded within the
  grace less \<open>2 * D\<close> after each of its chunks was touched or made; a collection is not killed between a rename and its check.\<close>

definition timely :: "seconds \<Rightarrow> gc_event \<Rightarrow> gc_sys \<Rightarrow> bool" where
  "timely D ev S = (case ev of
       Tick dt \<Rightarrow> (case gs_gc S of Looked c f t \<Rightarrow> gs_now S + dt \<le> t + D | Renamed c f t \<Rightarrow> gs_now S + dt \<le> t + D | _ \<Rightarrow> True)
         \<and> list_all (\<lambda>(_, wr). case w_making wr of None \<Rightarrow> True | Some (d, blob, t) \<Rightarrow> gs_now S + dt \<le> t + D) (gs_writers S)
     | Record w ixs \<Rightarrow> (case map_of (gs_writers S) w of None \<Rightarrow> True
         | Some wr \<Rightarrow> list_all (\<lambda>(d, t). gs_now S \<le> t + (GC_GRACE_S - 2 * D)) (w_used wr))
     | Gc_killed \<Rightarrow> (case gs_gc S of Renamed c f t \<Rightarrow> False | _ \<Rightarrow> True)
     | _ \<Rightarrow> True)"

inductive gc_reachable :: "codec \<Rightarrow> seconds \<Rightarrow> gc_sys \<Rightarrow> gc_sys \<Rightarrow> bool" for cx D S0 where
  start: "gc_reachable cx D S0 S0"
| step: "gc_reachable cx D S0 S \<Longrightarrow> timely D ev S \<Longrightarrow> gc_do cx ev S = Some S' \<Longrightarrow> gc_reachable cx D S0 S'"

section \<open>The invariant\<close>

definition atime_of :: "bstore \<Rightarrow> cfile \<Rightarrow> seconds option" where
  "atime_of s f = map_option cb_atime (map_of (st_files s) f)"

text \<open>A chunk that stays, touched at \<open>a\<close> or later: at its own name, or under the name of a sweep that will put it back.\<close>

definition kept_since :: "gc_sys \<Rightarrow> bytes \<Rightarrow> seconds \<Rightarrow> bool" where
  "kept_since S d a \<longleftrightarrow> (\<exists>t. atime_of (gs_store S) (Chunk d) = Some t \<and> a \<le> t)
     \<or> (\<exists>c tk t. gs_gc S = Renamed c (Chunk d) tk \<and> atime_of (gs_store S) (Sweep (Chunk d)) = Some t \<and> a \<le> t \<and> c \<le> t)"

definition entry_ok :: "gc_sys \<Rightarrow> backup_key \<Rightarrow> string \<Rightarrow> bytes \<Rightarrow> bool" where
  "entry_ok S k disk d = (case gs_gc S of
       Idle \<Rightarrow> atime_of (gs_store S) (Chunk d) \<noteq> None
     | Marking st todo ds \<Rightarrow> atime_of (gs_store S) (Chunk d) \<noteq> None
         \<and> ((k, disk) \<in> set todo \<or> d \<in> set ds \<or> kept_since S d (st - GC_GRACE_S))
     | Sweeping c \<Rightarrow> kept_since S d c
     | Looked c f t \<Rightarrow> kept_since S d c
     | Renamed c f t \<Rightarrow> kept_since S d c)"

definition entries_ok :: "codec \<Rightarrow> gc_sys \<Rightarrow> bool" where
  "entries_ok cx S \<longleftrightarrow> (\<forall>k disk ix d. index_of cx k disk (gs_store S) = Inr ix \<longrightarrow> d \<in> set (used_digests ix) \<longrightarrow> entry_ok S k disk d)"

definition counted :: "seconds \<Rightarrow> gc_sys \<Rightarrow> bytes \<Rightarrow> seconds \<Rightarrow> bool" where
  "counted D S d t \<longleftrightarrow> t \<le> gs_now S \<and> (gs_now S \<le> t + (GC_GRACE_S - 2 * D) \<longrightarrow> kept_since S d (t - 2 * D))"

definition making_ok :: "seconds \<Rightarrow> seconds \<Rightarrow> writer \<Rightarrow> bool" where
  "making_ok D now wr = (case w_making wr of None \<Rightarrow> True | Some (d, b, t) \<Rightarrow> t \<le> now \<and> now \<le> t + D)"

definition writers_ok :: "seconds \<Rightarrow> gc_sys \<Rightarrow> bool" where
  "writers_ok D S \<longleftrightarrow> (\<forall>w wr. map_of (gs_writers S) w = Some wr \<longrightarrow>
     (\<forall>d t. (d, t) \<in> set (w_used wr) \<longrightarrow> counted D S d t) \<and> making_ok D (gs_now S) wr)"

definition sweeps_ok :: "gc_sys \<Rightarrow> bool" where
  "sweeps_ok S \<longleftrightarrow> (\<forall>g. atime_of (gs_store S) (Sweep g) \<noteq> None \<longrightarrow> (\<exists>c t. gs_gc S = Renamed c g t))"

definition collector_ok :: "seconds \<Rightarrow> gc_sys \<Rightarrow> bool" where
  "collector_ok D S = (case gs_gc S of
       Idle \<Rightarrow> True
     | Marking st todo ds \<Rightarrow> st \<le> gs_now S
     | Sweeping c \<Rightarrow> c + GC_GRACE_S \<le> gs_now S
     | Looked c f tk \<Rightarrow> c + GC_GRACE_S \<le> tk \<and> tk \<le> gs_now S \<and> gs_now S \<le> tk + D
         \<and> (\<forall>a. atime_of (gs_store S) f = Some a \<longrightarrow> a < c \<or> tk - D \<le> a) \<and> (\<forall>g. f \<noteq> Sweep g)
     | Renamed c f tk \<Rightarrow> c + GC_GRACE_S \<le> tk \<and> tk \<le> gs_now S \<and> gs_now S \<le> tk + D
         \<and> (\<forall>a. atime_of (gs_store S) (Sweep f) = Some a \<longrightarrow> a < c \<or> tk - D \<le> a) \<and> (\<forall>g. f \<noteq> Sweep g))"

definition gc_inv :: "codec \<Rightarrow> seconds \<Rightarrow> gc_sys \<Rightarrow> bool" where
  "gc_inv cx D S \<longleftrightarrow> entries_ok cx S \<and> writers_ok D S \<and> sweeps_ok S \<and> collector_ok D S"

definition slack_ok :: "seconds \<Rightarrow> bool" where
  "slack_ok D \<longleftrightarrow> 0 \<le> D \<and> 2 * D \<le> GC_GRACE_S"

lemma gc_invD:
  assumes "gc_inv cx D S"
  shows "entries_ok cx S" "writers_ok D S" "sweeps_ok S" "collector_ok D S"
  using assms by (simp_all add: gc_inv_def)

lemma kept_cong:
  "atime_of (gs_store S') = atime_of (gs_store S) \<Longrightarrow> gs_gc S' = gs_gc S \<Longrightarrow> kept_since S' d a = kept_since S d a"
  by (simp add: kept_since_def)

lemma entry_cong:
  assumes "atime_of (gs_store S') = atime_of (gs_store S)" and "gs_gc S' = gs_gc S"
  shows "entry_ok S' k disk d = entry_ok S k disk d"
  using assms by (simp add: entry_ok_def kept_cong [OF assms] split: collector.split)

lemma counted_cong:
  assumes "atime_of (gs_store S') = atime_of (gs_store S)" and "gs_gc S' = gs_gc S" and "gs_now S' = gs_now S"
  shows "counted D S' d t = counted D S d t"
  using assms by (simp add: counted_def kept_cong [OF assms(1,2)])

lemma collector_cong:
  assumes "atime_of (gs_store S') = atime_of (gs_store S)" and "gs_gc S' = gs_gc S" and "gs_now S' = gs_now S"
  shows "collector_ok D S' = collector_ok D S"
  using assms by (simp add: collector_ok_def split: collector.split)

lemma kept_weaken: "kept_since S d a \<Longrightarrow> b \<le> a \<Longrightarrow> kept_since S d b"
  by (auto simp: kept_since_def)

lemma entry_present: "entry_ok S k disk d \<Longrightarrow> \<forall>c f t. gs_gc S \<noteq> Renamed c f t \<Longrightarrow> atime_of (gs_store S) (Chunk d) \<noteq> None"
  by (auto simp: entry_ok_def kept_since_def split: collector.splits)

text \<open>A chunk's file touched, or replaced by one made shortly before.\<close>

lemma inv_set_time:
  assumes inv: "gc_inv cx D S" and D: "slack_ok D"
    and t: "atime_of s' = (atime_of (gs_store S))(Chunk d0 \<mapsto> t0)" "gs_now S - D \<le> t0" "t0 \<le> gs_now S"
    and dirs: "st_dirs s' = st_dirs (gs_store S)"
  shows "gc_inv cx D (S\<lparr>gs_store := s'\<rparr>)"
proof -
  let ?S = "S\<lparr>gs_store := s'\<rparr>"
  note i = gc_invD [OF inv]
  have D0: "0 \<le> D" "2 * D \<le> GC_GRACE_S" using D by (simp_all add: slack_ok_def)
  have kept: "kept_since ?S d a" if k: "kept_since S d a" and a: "a \<le> t0" for d a
    using k a by (auto simp: kept_since_def t(1))
  have "entry_ok ?S k disk d" if e: "entry_ok S k disk d" for k disk d
    using e kept [of d] i(4) t D0 by (auto simp: entry_ok_def collector_ok_def split: collector.splits)
  then have "entries_ok cx ?S" using i(1) index_of_dirs [OF dirs] by (auto simp: entries_ok_def)
  moreover have "counted D ?S d u" if c: "counted D S d u" for d u
    using c kept [of d "u - 2 * D"] t(2,3) D0 by (simp add: counted_def)
  then have "writers_ok D ?S" using i(2) unfolding writers_ok_def by simp
  moreover have "sweeps_ok ?S" using i(3) by (auto simp: sweeps_ok_def t(1))
  moreover have "collector_ok D ?S" using i(4) t(2,3) D0 by (auto simp: collector_ok_def t(1) split: collector.splits)
  ultimately show ?thesis by (simp add: gc_inv_def)
qed

lemma atime_utime:
  "atime_of (snd (os_utime now f s)) = (if atime_of s f = None then atime_of s else (atime_of s)(f \<mapsto> now))"
  by (auto simp: atime_of_def os_utime_def fun_eq_iff split: option.splits)

lemma atime_write: "atime_of (write_atomic t f b s) = (atime_of s)(f \<mapsto> t)"
  by (auto simp: atime_of_def write_atomic_def)

lemma atime_replace:
  "f \<noteq> g \<Longrightarrow> atime_of (snd (os_replace f g s)) = (if atime_of s f = None then atime_of s else (atime_of s)(f := None, g := atime_of s f))"
  by (auto simp: atime_of_def os_replace_def fun_eq_iff split: option.splits)

lemma inv_utime:
  assumes inv: "gc_inv cx D S" and D: "slack_ok D"
  shows "gc_inv cx D (S\<lparr>gs_store := snd (os_utime (gs_now S) (Chunk d) (gs_store S))\<rparr>)"
proof (cases "atime_of (gs_store S) (Chunk d) = None")
  case True
  then have "snd (os_utime (gs_now S) (Chunk d) (gs_store S)) = gs_store S"
    by (simp add: os_utime_def atime_of_def)
  then show ?thesis using inv by simp
next
  case False
  show ?thesis by (rule inv_set_time [OF inv D, of _ d "gs_now S"])
      (use D False in \<open>auto simp: atime_utime slack_ok_def\<close>)
qed

section \<open>The steps keep it\<close>

lemma inv_writers:
  assumes inv: "gc_inv cx D S"
    and ws: "\<And>w wr. map_of ws w = Some wr \<Longrightarrow> (\<forall>d t. (d, t) \<in> set (w_used wr) \<longrightarrow> counted D S d t) \<and> making_ok D (gs_now S) wr"
  shows "gc_inv cx D (S\<lparr>gs_writers := ws\<rparr>)"
proof -
  let ?S = "S\<lparr>gs_writers := ws\<rparr>"
  note i = gc_invD [OF inv]
  have e: "entry_ok ?S k' disk d = entry_ok S k' disk d" for k' disk d by (rule entry_cong) simp_all
  have c: "counted D ?S d t = counted D S d t" for d t by (rule counted_cong) simp_all
  have "collector_ok D ?S = collector_ok D S" by (rule collector_cong) simp_all
  then show ?thesis using i ws by (simp add: gc_inv_def entries_ok_def e writers_ok_def c sweeps_ok_def)
qed

lemma writersD:
  assumes "gc_inv cx D S" and "map_of (gs_writers S) w = Some wr"
  shows "(d, t) \<in> set (w_used wr) \<Longrightarrow> counted D S d t" "making_ok D (gs_now S) wr"
  using gc_invD(2) [OF assms(1)] assms(2) by (auto simp: writers_ok_def)

lemma inv_drop_writer: "gc_inv cx D S \<Longrightarrow> gc_inv cx D (S\<lparr>gs_writers := dict_del w (gs_writers S)\<rparr>)"
  using writersD by (intro inv_writers) (auto split: if_splits)

text \<open>A writer that counts on one more chunk, its file at its name since \<open>t\<close>.\<close>

lemma inv_uses:
  assumes inv: "gc_inv cx D S" and D: "slack_ok D" and w: "map_of (gs_writers S) w = Some wr"
    and t: "atime_of (gs_store S) (Chunk d) = Some t" "t \<le> gs_now S"
  shows "gc_inv cx D (S\<lparr>gs_writers := dict_set w (uses d t wr) (gs_writers S)\<rparr>)"
proof (rule inv_writers [OF inv])
  fix v vr assume v: "map_of (dict_set w (uses d t wr) (gs_writers S)) v = Some vr"
  have "counted D S d t" using t D by (auto simp: counted_def kept_since_def slack_ok_def)
  then show "(\<forall>d t. (d, t) \<in> set (w_used vr) \<longrightarrow> counted D S d t) \<and> making_ok D (gs_now S) vr"
    using v writersD [OF inv w] writersD [OF inv, of v vr] by (auto simp: uses_def making_ok_def split: if_splits)
qed

lemma inv_tick:
  assumes inv: "gc_inv cx D S" and time: "timely D (Tick dt) S" and dt: "0 \<le> dt"
  shows "gc_inv cx D (S\<lparr>gs_now := gs_now S + dt\<rparr>)"
proof -
  let ?S = "S\<lparr>gs_now := gs_now S + dt\<rparr>"
  note i = gc_invD [OF inv]
  have k: "kept_since ?S d a = kept_since S d a" for d a by (rule kept_cong) simp_all
  have e: "entry_ok ?S k' disk d = entry_ok S k' disk d" for k' disk d by (rule entry_cong) simp_all
  have c: "counted D S d t \<Longrightarrow> counted D ?S d t" for d t using dt by (simp add: counted_def k)
  have m: "making_ok D (gs_now ?S) wr" if w: "map_of (gs_writers S) w = Some wr" for w wr
    using map_of_SomeD [OF w] time writersD(2) [OF inv w] dt
    by (fastforce simp: timely_def making_ok_def list_all_iff split: option.splits prod.splits)
  have "writers_ok D ?S" using i(2) c m by (simp add: writers_ok_def)
  moreover have "collector_ok D ?S" using i(4) time dt by (auto simp: collector_ok_def timely_def split: collector.splits)
  ultimately show ?thesis using i by (simp add: gc_inv_def entries_ok_def e sweeps_ok_def)
qed

text \<open>A change of the backups' directories: every index that is new names chunks that stay.\<close>

lemma inv_dirs:
  assumes inv: "gc_inv cx D S" and files: "st_files s' = st_files (gs_store S)"
    and new: "\<And>k disk ix d. index_of cx k disk s' = Inr ix \<Longrightarrow> d \<in> set (used_digests ix) \<Longrightarrow> entry_ok S k disk d"
  shows "gc_inv cx D (S\<lparr>gs_store := s'\<rparr>)"
proof -
  let ?S = "S\<lparr>gs_store := s'\<rparr>"
  note i = gc_invD [OF inv]
  have a: "atime_of s' = atime_of (gs_store S)" by (simp add: atime_of_def files fun_eq_iff)
  have e: "entry_ok ?S k' disk d = entry_ok S k' disk d" for k' disk d by (rule entry_cong) (simp_all add: a)
  have c: "counted D ?S d t = counted D S d t" for d t by (rule counted_cong) (simp_all add: a)
  have "collector_ok D ?S = collector_ok D S" by (rule collector_cong) (simp_all add: a)
  then show ?thesis using i new by (simp add: gc_inv_def entries_ok_def e writers_ok_def c sweeps_ok_def a)
qed

lemma entriesD:
  assumes "gc_inv cx D S" and "index_of cx k disk (gs_store S) = Inr ix" and "d \<in> set (used_digests ix)"
  shows "entry_ok S k disk d"
  using gc_invD(1) [OF assms(1)] assms(2,3) unfolding entries_ok_def by blast

lemma young_entry:
  assumes c: "counted D S d t" and young: "gs_now S \<le> t + (GC_GRACE_S - 2 * D)" and col: "collector_ok D S"
  shows "entry_ok S k disk d"
proof -
  have kp: "kept_since S d (gs_now S - GC_GRACE_S)"
    using c young kept_weaken [of S d "t - 2 * D"] by (simp add: counted_def)
  have *: "kept_since S d a" if "a \<le> gs_now S - GC_GRACE_S" for a using kept_weaken [OF kp that] .
  show ?thesis
  proof (cases "gs_gc S")
    case Idle
    then show ?thesis using kp by (auto simp: entry_ok_def kept_since_def)
  next
    case (Marking st todo ds)
    then have "atime_of (gs_store S) (Chunk d) \<noteq> None" using kp by (auto simp: kept_since_def)
    then show ?thesis using Marking * [of "st - GC_GRACE_S"] col by (simp add: entry_ok_def collector_ok_def)
  next
    case (Sweeping c)
    then show ?thesis using * [of c] col by (simp add: entry_ok_def collector_ok_def)
  next
    case (Looked c f tk)
    then show ?thesis using * [of c] col by (simp add: entry_ok_def collector_ok_def)
  next
    case (Renamed c f tk)
    then show ?thesis using * [of c] col by (simp add: entry_ok_def collector_ok_def)
  qed
qed

lemma record_backup_other:
  "st_files (snd (record_backup cx nonce k ixs extra files s)) = st_files s"
  "k' \<noteq> k \<Longrightarrow> index_of cx k' disk (snd (record_backup cx nonce k ixs extra files s)) = index_of cx k' disk s"
  by (auto simp: record_backup_def Let_def index_of_def dir_of_def split: sum.splits prod.splits)

lemma inv_record:
  assumes inv: "gc_inv cx D S" and w: "map_of (gs_writers S) w = Some wr"
    and young: "timely D (Record w ixs) S"
    and used: "indexes_used cx (w_key wr) (w_used wr) (snd (record_backup cx nonce (w_key wr) ixs extra files (gs_store S)))"
  shows "gc_inv cx D (S\<lparr>gs_store := snd (record_backup cx nonce (w_key wr) ixs extra files (gs_store S))\<rparr>)"
proof (rule inv_dirs [OF inv record_backup_other(1)])
  fix k disk ix d
  let ?s = "snd (record_backup cx nonce (w_key wr) ixs extra files (gs_store S))"
  assume ix: "index_of cx k disk ?s = Inr ix" and d: "d \<in> set (used_digests ix)"
  show "entry_ok S k disk d"
  proof (cases "k = w_key wr")
    case True
    then obtain t where t: "(d, t) \<in> set (w_used wr)" using indexes_usedD [OF used] ix d by blast
    then have "gs_now S \<le> t + (GC_GRACE_S - 2 * D)" using young w by (auto simp: timely_def list_all_iff)
    then show ?thesis using young_entry [OF writersD(1) [OF inv w t] _ gc_invD(4) [OF inv]] by blast
  next
    case False
    then have "index_of cx k disk (gs_store S) = Inr ix" using ix record_backup_other(2) by metis
    then show ?thesis by (rule entriesD [OF inv _ d])
  qed
qed

lemma inv_delete: "gc_inv cx D S \<Longrightarrow> gc_inv cx D (S\<lparr>gs_store := snd (delete_backup k (gs_store S))\<rparr>)"
proof (rule inv_dirs)
  fix k' disk ix d
  assume "gc_inv cx D S" "index_of cx k' disk (snd (delete_backup k (gs_store S))) = Inr ix" "d \<in> set (used_digests ix)"
  moreover from this have "index_of cx k' disk (gs_store S) = Inr ix"
    by (auto simp: delete_backup_def index_of_def dir_of_def py_simps split: if_splits)
  ultimately show "entry_ok S k' disk d" by (intro entriesD)
qed (simp_all add: delete_backup_def)

definition between :: "collector \<Rightarrow> bool" where
  "between pc \<longleftrightarrow> (\<forall>c f t. pc \<noteq> Renamed c f t)"

lemma between_simps [simp]:
  "between Idle" "between (Marking st todo ds)" "between (Sweeping c)" "between (Looked c f t)" "\<not> between (Renamed c f t)"
  by (simp_all add: between_def)

lemma kept_between: "between (gs_gc S) \<Longrightarrow> kept_since S d a \<longleftrightarrow> (\<exists>t. atime_of (gs_store S) (Chunk d) = Some t \<and> a \<le> t)"
  by (auto simp: kept_since_def between_def)

lemma entry_between: "entry_ok S k disk d \<Longrightarrow> between (gs_gc S) \<Longrightarrow> atime_of (gs_store S) (Chunk d) \<noteq> None"
  by (auto simp: entry_ok_def kept_between split: collector.splits)

text \<open>The collector moves on without touching a file, no chunk renamed before or after.\<close>

lemma inv_pc:
  assumes inv: "gc_inv cx D S" and bt: "between (gs_gc S)" "between pc" and col: "collector_ok D (S\<lparr>gs_gc := pc\<rparr>)"
    and entries: "\<And>k disk ix d. index_of cx k disk (gs_store S) = Inr ix \<Longrightarrow> d \<in> set (used_digests ix) \<Longrightarrow>
      entry_ok S k disk d \<Longrightarrow> entry_ok (S\<lparr>gs_gc := pc\<rparr>) k disk d"
  shows "gc_inv cx D (S\<lparr>gs_gc := pc\<rparr>)"
proof -
  let ?S = "S\<lparr>gs_gc := pc\<rparr>"
  note i = gc_invD [OF inv]
  have k: "kept_since ?S d a = kept_since S d a" for d a using bt by (simp add: kept_between)
  have "counted D ?S d t = counted D S d t" for d t by (simp add: counted_def k)
  then have "writers_ok D ?S" using i(2) by (simp add: writers_ok_def)
  moreover have "entries_ok cx ?S" using entries entriesD [OF inv] unfolding entries_ok_def by simp
  moreover have "sweeps_ok ?S" using i(3) bt by (auto simp: sweeps_ok_def between_def)
  ultimately show ?thesis using col by (simp add: gc_inv_def)
qed

lemma inv_idle: "gc_inv cx D S \<Longrightarrow> between (gs_gc S) \<Longrightarrow> gc_inv cx D (S\<lparr>gs_gc := Idle\<rparr>)"
  by (erule inv_pc) (simp_all add: collector_ok_def entry_ok_def [of "S\<lparr>gs_gc := Idle\<rparr>"] entry_between)

lemma listed_index: "index_of cx k disk s = Inr ix \<Longrightarrow> (k, disk) \<in> set (listed_disks s)"
proof -
  assume "index_of cx k disk s = Inr ix"
  then obtain dir m v where d: "map_of (st_dirs s) k = Some dir" "bd_manifest dir = Some m" "map_of (mf_disks m) disk = Some v"
    by (auto simp: index_of_def dir_of_def py_simps bind_eq_Some_conv split: prod.splits)
  then have "(k, dir) \<in> set (st_dirs s)" "disk \<in> set (keys (mf_disks m))" by (auto dest: map_of_SomeD map_of_in_keys)
  then have km: "(k, m) \<in> set (backups s)" and kd: "disk \<in> set (keys (mf_disks m))"
    using d(2) by (force simp: backups_def map_filter_def, simp)
  have "(k, disk) \<in> set ((\<lambda>(k, m). map (Pair k) (keys (mf_disks m))) (k, m))" using kd by auto
  then show ?thesis using km unfolding listed_disks_def set_concat set_map by blast
qed

lemma inv_gc_start: "gc_inv cx D S \<Longrightarrow> gs_gc S = Idle \<Longrightarrow> gc_inv cx D (S\<lparr>gs_gc := Marking (gs_now S) (listed_disks (gs_store S)) []\<rparr>)"
  by (erule inv_pc) (auto simp: collector_ok_def entry_ok_def listed_index)

lemma inv_mark:
  assumes inv: "gc_inv cx D S" and D: "slack_ok D" and pc: "gs_gc S = Marking st todo (d # ds)"
  shows "gc_inv cx D (S\<lparr>gs_store := snd (os_utime (gs_now S) (Chunk d) (gs_store S)), gs_gc := Marking st todo ds\<rparr>)"
proof -
  let ?s = "snd (os_utime (gs_now S) (Chunk d) (gs_store S))"
  let ?S = "S\<lparr>gs_store := ?s\<rparr>"
  have "gc_inv cx D (?S\<lparr>gs_gc := Marking st todo ds\<rparr>)"
  proof (rule inv_pc [OF inv_utime [OF inv D]])
    have st: "st \<le> gs_now S" using gc_invD(4) [OF inv] pc by (simp add: collector_ok_def)
    then show "collector_ok D (?S\<lparr>gs_gc := Marking st todo ds\<rparr>)" by (simp add: collector_ok_def)
    fix k disk ix d'
    assume e: "entry_ok ?S k disk d'"
    have "kept_since ?S d (st - GC_GRACE_S)" if "atime_of ?s (Chunk d) \<noteq> None"
      using that st pc by (auto simp: kept_between atime_utime GC_GRACE_S_def split: if_splits)
    then show "entry_ok (?S\<lparr>gs_gc := Marking st todo ds\<rparr>) k disk d'"
      using e pc by (auto simp: entry_ok_def kept_between)
  qed (simp_all add: pc)
  then show ?thesis by simp
qed

lemma sweep_ne: "f \<noteq> Sweep f" "Sweep f \<noteq> f"
  by (metis cfile.size(5) n_not_Suc_n add.right_neutral add_Suc_right)+

lemma inv_rename:
  assumes inv: "gc_inv cx D S" and pc: "gs_gc S = Looked c f tk" and f: "atime_of (gs_store S) f \<noteq> None"
  shows "gc_inv cx D (S\<lparr>gs_store := snd (os_replace f (Sweep f) (gs_store S)), gs_gc := Renamed c f tk\<rparr>)"
proof -
  let ?s = "snd (os_replace f (Sweep f) (gs_store S))"
  let ?S = "S\<lparr>gs_store := ?s, gs_gc := Renamed c f tk\<rparr>"
  note i = gc_invD [OF inv]
  have col: "c + GC_GRACE_S \<le> tk" "tk \<le> gs_now S" "gs_now S \<le> tk + D" "\<forall>a. atime_of (gs_store S) f = Some a \<longrightarrow> a < c \<or> tk - D \<le> a"
      "\<forall>g. f \<noteq> Sweep g"
    using i(4) pc by (simp_all add: collector_ok_def)
  have a: "atime_of ?s = (atime_of (gs_store S))(f := None, Sweep f := atime_of (gs_store S) f)"
    using f atime_replace [of f "Sweep f"] by (auto simp: sweep_ne)
  have kept: "kept_since ?S d a'" if k: "kept_since S d a'" "kept_since S d c" for d a'
  proof -
    obtain t where t: "atime_of (gs_store S) (Chunk d) = Some t" "a' \<le> t" "c \<le> t" using k pc by (auto simp: kept_between)
    show ?thesis unfolding kept_since_def using t a by (cases "f = Chunk d") auto
  qed
  have "entries_ok cx ?S" using i(1) pc kept index_of_dirs [of ?s "gs_store S"]
    by (auto simp: entries_ok_def entry_ok_def)
  moreover have "counted D ?S d t" if ct: "counted D S d t" for d t
    using ct kept [of d "t - 2 * D"] kept_weaken [of S d "t - 2 * D" c] col by (auto simp: counted_def)
  then have "writers_ok D ?S" using i(2) by (simp add: writers_ok_def)
  moreover have "sweeps_ok ?S" using i(3) pc by (auto simp: sweeps_ok_def a)
  moreover have "collector_ok D ?S" using col by (auto simp: collector_ok_def a)
  ultimately show ?thesis by (simp add: gc_inv_def)
qed

lemma inv_sweep_end:
  assumes inv: "gc_inv cx D S" and pc: "gs_gc S = Renamed c f tk"
  shows "gc_inv cx D (S\<lparr>gs_store := snd (sweep_end c f (gs_store S)), gs_gc := Sweeping c\<rparr>)"
proof -
  let ?s = "snd (sweep_end c f (gs_store S))"
  let ?S = "S\<lparr>gs_store := ?s, gs_gc := Sweeping c\<rparr>"
  note i = gc_invD [OF inv]
  have col: "c + GC_GRACE_S \<le> tk" "tk \<le> gs_now S" "gs_now S \<le> tk + D"
      "\<forall>a. atime_of (gs_store S) (Sweep f) = Some a \<longrightarrow> a < c \<or> tk - D \<le> a" "\<forall>g. f \<noteq> Sweep g"
    using i(4) pc by (simp_all add: collector_ok_def)
  have dirs: "st_dirs ?s = st_dirs (gs_store S)" by (auto simp: sweep_end_def os_unlink_def split: option.splits)
  have a: "atime_of ?s = (case atime_of (gs_store S) (Sweep f) of None \<Rightarrow> atime_of (gs_store S)
      | Some t \<Rightarrow> if c \<le> t then (atime_of (gs_store S))(Sweep f := None, f \<mapsto> t) else (atime_of (gs_store S))(Sweep f := None))"
    by (auto simp: sweep_end_def atime_of_def os_unlink_def os_replace_def sweep_ne fun_eq_iff split: option.splits)
  have kept: "kept_since ?S d a'" if k: "kept_since S d a'" and old: "a' \<le> c \<or> a' \<le> tk - D" for d a'
    using k old col(4) pc by (auto simp: kept_between kept_since_def [of S] a split: option.splits)
  have "entries_ok cx ?S" using i(1) pc kept index_of_dirs [OF dirs] by (auto simp: entries_ok_def entry_ok_def)
  moreover have "counted D ?S d t" if ct: "counted D S d t" for d t
    using ct kept [of d "t - 2 * D"] col by (auto simp: counted_def)
  then have "writers_ok D ?S" using i(2) by (simp add: writers_ok_def)
  moreover have "sweeps_ok ?S" using i(3) pc col(5) by (auto simp: sweeps_ok_def a split: option.splits)
  moreover have "collector_ok D ?S" using col by (simp add: collector_ok_def)
  ultimately show ?thesis by (simp add: gc_inv_def)
qed

lemma inv_next_marking:
  assumes inv: "gc_inv cx D S" and D: "slack_ok D" and S': "gc_next cx S = Some S'" and Marking: "gs_gc S = Marking st todo ds"
  shows "gc_inv cx D S'"
proof -
  have st: "st \<le> gs_now S" using gc_invD(4) [OF inv] Marking by (simp add: collector_ok_def)
  show ?thesis
  proof (cases ds)
    case (Cons d ds')
    then show ?thesis using S' inv_mark [OF inv D] Marking by (cases todo) (auto simp: gc_next_def)
  next
    case Nil
    show ?thesis
    proof (cases todo)
      case todo: Nil
      then have "S' = S\<lparr>gs_gc := Sweeping (st - GC_GRACE_S)\<rparr>" using S' Marking Nil by (simp add: gc_next_def)
      moreover have "gc_inv cx D (S\<lparr>gs_gc := Sweeping (st - GC_GRACE_S)\<rparr>)"
        by (rule inv_pc [OF inv]) (use st Marking Nil todo in \<open>auto simp: collector_ok_def entry_ok_def kept_between\<close>)
      ultimately show ?thesis by simp
    next
      case todo: (Cons kd todo')
      obtain k disk where kd: "kd = (k, disk)" by (cases kd)
      show ?thesis
      proof (cases "index_of cx k disk (gs_store S)")
        case (Inl e)
        then show ?thesis using S' inv_idle [OF inv] Marking Nil todo kd by (auto simp: gc_next_def)
      next
        case (Inr ix)
        have "gc_inv cx D (S\<lparr>gs_gc := Marking st todo' (used_digests ix)\<rparr>)"
          by (rule inv_pc [OF inv]) (use st Marking Nil todo kd Inr in \<open>auto simp: collector_ok_def entry_ok_def kept_between\<close>)
        then show ?thesis using S' Marking Nil todo kd Inr by (auto simp: gc_next_def)
      qed
    qed
  qed
qed

lemma inv_next:
  assumes inv: "gc_inv cx D S" and D: "slack_ok D" and S': "gc_next cx S = Some S'"
  shows "gc_inv cx D S'"
proof (cases "gs_gc S")
  case Idle
  then show ?thesis using S' by (simp add: gc_next_def)
next
  case (Marking st todo ds)
  then show ?thesis using inv_next_marking [OF inv D S'] by blast
next
  case (Sweeping c)
  then show ?thesis using S' inv_idle [OF inv] by (auto simp: gc_next_def)
next
  case (Looked c f tk)
  obtain b s where r: "sweep_rename f (gs_store S) = (b, s)" by (cases "sweep_rename f (gs_store S)")
  show ?thesis
  proof (cases b)
    case True
    then have "atime_of (gs_store S) f \<noteq> None" "s = snd (os_replace f (Sweep f) (gs_store S))"
      using r by (auto simp: sweep_rename_def os_replace_def atime_of_def split: option.splits)
    then show ?thesis using S' Looked r True inv_rename [OF inv Looked] by (auto simp: gc_next_def)
  next
    case False
    have "gc_inv cx D (S\<lparr>gs_gc := Sweeping c\<rparr>)"
      by (rule inv_pc [OF inv]) (use Looked gc_invD(4) [OF inv] in \<open>auto simp: collector_ok_def entry_ok_def kept_between\<close>)
    then show ?thesis using S' Looked r False by (auto simp: gc_next_def)
  qed
next
  case (Renamed c f tk)
  then show ?thesis using S' inv_sweep_end [OF inv Renamed] by (auto simp: gc_next_def)
qed

lemma inv_touch:
  assumes inv: "gc_inv cx D S" and D: "slack_ok D" and S': "gc_do cx (Touch w d) S = Some S'"
  shows "gc_inv cx D S'"
proof -
  obtain wr where w: "map_of (gs_writers S) w = Some wr" and f: "atime_of (gs_store S) (Chunk d) \<noteq> None"
      and r: "S' = S\<lparr>gs_store := snd (os_utime (gs_now S) (Chunk d) (gs_store S)), gs_writers := dict_set w (uses d (gs_now S) wr) (gs_writers S)\<rparr>"
    using S' by (auto simp: bind_eq_Some_conv file_exists_def atime_of_def split: if_splits)
  show ?thesis using inv_uses [OF inv_utime [OF inv D, of d] D, of w wr d "gs_now S"] w f by (simp add: r atime_utime)
qed

lemma inv_make:
  assumes inv: "gc_inv cx D S" and D: "slack_ok D" and S': "gc_do cx (Make w d blob) S = Some S'"
  shows "gc_inv cx D S'"
proof -
  obtain wr where w: "map_of (gs_writers S) w = Some wr"
      and r: "S' = S\<lparr>gs_writers := dict_set w (wr\<lparr>w_making := Some (d, blob, gs_now S)\<rparr>) (gs_writers S)\<rparr>"
    using S' by (auto simp: bind_eq_Some_conv split: if_splits)
  show ?thesis unfolding r
    using writersD [OF inv] w D by (intro inv_writers [OF inv]) (auto simp: making_ok_def slack_ok_def split: if_splits)
qed

lemma inv_rename_made:
  assumes inv: "gc_inv cx D S" and D: "slack_ok D" and S': "gc_do cx (Rename_made w) S = Some S'"
  shows "gc_inv cx D S'"
proof -
  obtain wr d blob t where w: "map_of (gs_writers S) w = Some wr" "w_making wr = Some (d, blob, t)"
      and r: "S' = S\<lparr>gs_store := write_atomic t (Chunk d) blob (gs_store S), gs_writers := dict_set w (uses d t wr) (gs_writers S)\<rparr>"
    using S' by (auto simp: bind_eq_Some_conv split: option.splits)
  have t: "t \<le> gs_now S" "gs_now S - D \<le> t" using writersD(2) [OF inv w(1)] w(2) by (simp_all add: making_ok_def)
  have "gc_inv cx D (S\<lparr>gs_store := write_atomic t (Chunk d) blob (gs_store S)\<rparr>)"
    by (rule inv_set_time [OF inv D, of _ d t]) (use t in \<open>simp_all add: atime_write\<close>)
  from inv_uses [OF this D, of w wr d t] show ?thesis using w t by (simp add: r atime_write)
qed

lemma gc_step_inv:
  assumes inv: "gc_inv cx D S" and D: "slack_ok D" and time: "timely D ev S" and S': "gc_do cx ev S = Some S'"
  shows "gc_inv cx D S'"
proof (cases ev)
  case (Tick dt)
  then show ?thesis using S' inv_tick [OF inv] time by (auto split: if_splits)
next
  case (Begin w k)
  have "gc_inv cx D (S\<lparr>gs_writers := dict_set w \<lparr>w_key = k, w_used = [], w_making = None\<rparr> (gs_writers S)\<rparr>)"
    using writersD [OF inv] by (intro inv_writers [OF inv]) (auto simp: making_ok_def split: if_splits)
  then show ?thesis using S' Begin by (auto split: if_splits)
next
  case (Touch w d)
  then show ?thesis using inv_touch [OF inv D] S' by blast
next
  case (Make w d blob)
  then show ?thesis using inv_make [OF inv D] S' by blast
next
  case (Rename_made w)
  then show ?thesis using inv_rename_made [OF inv D] S' by blast
next
  case (Record w ixs)
  then obtain wr where w: "map_of (gs_writers S) w = Some wr"
      and u: "indexes_used cx (w_key wr) (w_used wr) (snd (record_backup cx (\<lambda>_. []) (w_key wr) ixs [] [] (gs_store S)))"
      and r: "S' = S\<lparr>gs_store := snd (record_backup cx (\<lambda>_. []) (w_key wr) ixs [] [] (gs_store S)), gs_writers := dict_del w (gs_writers S)\<rparr>"
    using S' by (auto simp: bind_eq_Some_conv Let_def split: if_splits)
  show ?thesis using inv_drop_writer [OF inv_record [OF inv w time [unfolded Record] u], of w] by (simp add: r)
next
  case (Give_up w)
  then show ?thesis using S' inv_drop_writer [OF inv] by auto
next
  case (Delete k)
  then show ?thesis using S' inv_delete [OF inv, of k] by auto
next
  case Gc_start
  then show ?thesis using S' inv_gc_start [OF inv] by (auto split: if_splits)
next
  case Gc_next
  then show ?thesis using S' inv_next [OF inv D] by simp
next
  case (Gc_put_back f)
  then obtain c where "gs_gc S = Sweeping c" "file_exists f (gs_store S)" "S' = S\<lparr>gs_store := put_back f (gs_store S)\<rparr>"
    using S' by (auto split: collector.splits if_splits)
  moreover from this have "\<forall>g. f \<noteq> Sweep g" using gc_invD(3) [OF inv] by (auto simp: sweeps_ok_def file_exists_def atime_of_def)
  ultimately show ?thesis using inv by (auto simp: put_back_def split: cfile.splits)
next
  case (Gc_look f)
  then obtain c where c: "gs_gc S = Sweeping c" "S' = (if sweep_look c f (gs_store S) then S\<lparr>gs_gc := Looked c f (gs_now S)\<rparr> else S)"
    using S' by (auto split: collector.splits)
  have "f \<noteq> Sweep g" if l: "sweep_look c f (gs_store S)" for g
    using l gc_invD(3) [OF inv] c(1) by (auto simp: sweeps_ok_def sweep_look_def atime_of_def split: option.splits)
  then have "gc_inv cx D (S\<lparr>gs_gc := Looked c f (gs_now S)\<rparr>)" if l: "sweep_look c f (gs_store S)"
    using that by (intro inv_pc [OF inv])
      (use c D l gc_invD(4) [OF inv] in \<open>auto simp: collector_ok_def entry_ok_def kept_between sweep_look_def atime_of_def slack_ok_def split: option.splits\<close>)
  then show ?thesis using c(2) inv by (auto split: if_splits)
next
  case Gc_killed
  then have "between (gs_gc S)" using time by (auto simp: timely_def between_def split: collector.splits)
  then show ?thesis using S' inv_idle [OF inv] Gc_killed by auto
qed

section \<open>A collection on its own\<close>

lemma exists_atime: "file_exists f s \<longleftrightarrow> atime_of s f \<noteq> None"
  by (simp add: file_exists_def atime_of_def)

lemma snd_mark_chunk: "snd (mark_chunk now d rs) = snd (os_utime now (Chunk d) (snd rs))"
  by (cases "os_utime now (Chunk d) (snd rs)") (auto simp: mark_chunk_def os_utime_def split: bool.splits option.splits)

definition marked :: "seconds \<Rightarrow> bytes set \<Rightarrow> (cfile \<Rightarrow> seconds option) \<Rightarrow> cfile \<Rightarrow> seconds option" where
  "marked now ds tm f = (if f \<in> Chunk ` ds \<and> tm f \<noteq> None then Some now else tm f)"

lemma marked_marked: "marked now A (marked now B tm) = marked now (A \<union> B) tm"
  by (auto simp: marked_def fun_eq_iff)

lemma mark_fold:
  "atime_of (snd (foldl (\<lambda>rs d. mark_chunk now d rs) rs ds)) = marked now (set ds) (atime_of (snd rs))
   \<and> st_dirs (snd (foldl (\<lambda>rs d. mark_chunk now d rs) rs ds)) = st_dirs (snd rs)"
proof (induction ds arbitrary: rs)
  case (Cons d ds)
  have "atime_of (snd (mark_chunk now d rs)) = marked now {d} (atime_of (snd rs))"
    by (auto simp: snd_mark_chunk atime_utime marked_def fun_eq_iff)
  then show ?case using Cons.IH [of "mark_chunk now d rs"] by (simp add: marked_marked snd_mark_chunk)
qed (simp add: marked_def fun_eq_iff)

definition named :: "codec \<Rightarrow> (backup_key \<times> string) list \<Rightarrow> bstore \<Rightarrow> bytes set" where
  "named cx todo s = {d. \<exists>(k, disk) \<in> set todo. \<exists>ix. index_of cx k disk s = Inr ix \<and> d \<in> set (used_digests ix)}"

lemma mark_disks_facts:
  assumes "mark_disks cx now todo rs = (r, s')"
  shows "(\<exists>A. atime_of s' = marked now A (atime_of (snd rs)) \<and> (\<forall>x. r = Inr x \<longrightarrow> A = named cx todo (snd rs)))
    \<and> st_dirs s' = st_dirs (snd rs)
    \<and> ((\<exists>x. r = Inr x) \<longleftrightarrow> (\<forall>(k, disk) \<in> set todo. \<exists>ix. index_of cx k disk (snd rs) = Inr ix))
    \<and> (\<forall>e. r = Inl e \<longrightarrow> e = Store_error ''garbage collection stopped, backup unreadable'')"
  using assms
proof (induction todo arbitrary: rs)
  case Nil
  then show ?case by (auto simp: named_def marked_def fun_eq_iff intro: exI [of _ "{}"])
next
  case (Cons kd todo)
  obtain k disk where kd: "kd = (k, disk)" by (cases kd)
  show ?case
  proof (cases "index_of cx k disk (snd rs)")
    case (Inl e)
    then show ?thesis using Cons.prems by (auto simp: kd marked_def fun_eq_iff intro: exI [of _ "{}"])
  next
    case (Inr ix)
    let ?rs = "foldl (\<lambda>rs d. mark_chunk now d rs) rs (used_digests ix)"
    note f = mark_fold [of now rs "used_digests ix"]
    have same: "index_of cx k' d' (snd ?rs) = index_of cx k' d' (snd rs)" for k' d' by (rule index_of_dirs) (simp add: f)
    have names: "named cx todo (snd ?rs) \<union> set (used_digests ix) = named cx (kd # todo) (snd rs)"
      using Inr by (auto simp: named_def same kd)
    have "mark_disks cx now todo ?rs = (r, s')" using Cons.prems Inr by (simp add: kd)
    note IH = Cons.IH [OF this]
    obtain A where A: "atime_of s' = marked now A (atime_of (snd ?rs))" "\<forall>x. r = Inr x \<longrightarrow> A = named cx todo (snd ?rs)"
      using IH by blast
    have "atime_of s' = marked now (A \<union> set (used_digests ix)) (atime_of (snd rs))" using A(1) f by (simp add: marked_marked)
    then show ?thesis using IH A(2) names f Inr by (auto simp: same kd)
  qed
qed

definition no_sweeps :: "bstore \<Rightarrow> bool" where
  "no_sweeps s \<longleftrightarrow> (\<forall>g. atime_of s (Sweep g) = None)"

definition swept :: "seconds \<Rightarrow> cfile set \<Rightarrow> (cfile \<Rightarrow> seconds option) \<Rightarrow> cfile \<Rightarrow> seconds option" where
  "swept c F tm f = (case tm f of None \<Rightarrow> None | Some a \<Rightarrow> if f \<in> F \<and> a < c then None else Some a)"

lemma sweep_alone:
  assumes "no_sweeps s" and f: "\<forall>g. f \<noteq> Sweep g"
  shows "atime_of (snd (sweep c f s)) = swept c {f} (atime_of s)" "st_dirs (snd (sweep c f s)) = st_dirs s"
proof -
  have n: "map_of (st_files s) (Sweep f) = None" using assms(1) by (auto simp: no_sweeps_def atime_of_def)
  show "atime_of (snd (sweep c f s)) = swept c {f} (atime_of s)"
    using n f by (auto simp: sweep_def sweep_look_def sweep_rename_def sweep_end_def os_replace_def os_unlink_def atime_of_def swept_def
        sweep_ne fun_eq_iff split: option.splits)
  show "st_dirs (snd (sweep c f s)) = st_dirs s"
    by (auto simp: sweep_def sweep_rename_def sweep_end_def os_replace_def os_unlink_def split: option.splits prod.splits)
qed

lemma collect_alone:
  assumes "no_sweeps s" and f: "\<forall>g. f \<noteq> Sweep g"
  shows "atime_of (snd (collect_file c f (r, s))) = swept c {f} (atime_of s)" "st_dirs (snd (collect_file c f (r, s))) = st_dirs s"
proof -
  have "put_back f s = s" "swept_name f = f" using f by (auto simp: put_back_def swept_name_def split: cfile.splits)
  then show "atime_of (snd (collect_file c f (r, s))) = swept c {f} (atime_of s)" "st_dirs (snd (collect_file c f (r, s))) = st_dirs s"
    using sweep_alone [OF assms, of c] by (auto simp: collect_file_def split: prod.splits option.splits)
qed

lemma swept_no_sweeps: "atime_of s' = swept c F (atime_of s) \<Longrightarrow> no_sweeps s \<Longrightarrow> no_sweeps s'"
  by (simp add: no_sweeps_def swept_def)

lemma collect_fold:
  assumes "no_sweeps (snd rs)" and "\<forall>f \<in> set fs. \<forall>g. f \<noteq> Sweep g"
  shows "atime_of (snd (foldl (\<lambda>rs f. collect_file c f rs) rs fs)) = swept c (set fs) (atime_of (snd rs))
    \<and> st_dirs (snd (foldl (\<lambda>rs f. collect_file c f rs) rs fs)) = st_dirs (snd rs)"
  using assms
proof (induction fs arbitrary: rs)
  case (Cons f fs)
  obtain r s where rs: "rs = (r, s)" by (cases rs)
  have one: "atime_of (snd (collect_file c f rs)) = swept c {f} (atime_of s)" "st_dirs (snd (collect_file c f rs)) = st_dirs s"
    using collect_alone [of s f c r] Cons.prems by (simp_all add: rs)
  have "no_sweeps (snd (collect_file c f rs))" using swept_no_sweeps [OF one(1)] Cons.prems(1) by (simp add: rs)
  then have "atime_of (snd (foldl (\<lambda>rs f. collect_file c f rs) (collect_file c f rs) fs)) = swept c (set fs) (swept c {f} (atime_of s))
      \<and> st_dirs (snd (foldl (\<lambda>rs f. collect_file c f rs) (collect_file c f rs) fs)) = st_dirs s"
    using Cons.IH [of "collect_file c f rs"] Cons.prems(2) one by simp
  moreover have "swept c (set fs) (swept c {f} tm) = swept c (insert f (set fs)) tm" for tm
    by (auto simp: swept_def fun_eq_iff split: option.splits)
  ultimately show ?case by (simp add: rs)
qed (simp add: swept_def fun_eq_iff split: option.splits)

text \<open>A collection with nothing else at work removes exactly the chunks no index of a recorded backup names and that were not touched
  since the grace before it began, and leaves the backups; an index it cannot read stops it before it removes anything.\<close>

theorem collection_frees_the_unused:
  assumes "no_sweeps s" and "collect_garbage cx now True s = (r, s')"
  shows "st_dirs s' = st_dirs s \<and> (case r of
       Inl e \<Rightarrow> e = Store_error ''garbage collection stopped, backup unreadable'' \<and> (\<forall>f. file_exists f s' \<longleftrightarrow> file_exists f s)
         \<and> (\<exists>(k, disk) \<in> set (listed_disks s). \<forall>ix. index_of cx k disk s \<noteq> Inr ix)
     | Inr _ \<Rightarrow> (\<forall>f. file_exists f s' \<longleftrightarrow> (\<exists>a. atime_of s f = Some a
         \<and> ((\<exists>d k disk ix. f = Chunk d \<and> index_of cx k disk s = Inr ix \<and> d \<in> set (used_digests ix)) \<or> now - GC_GRACE_S \<le> a))))"
proof -
  let ?z = "\<lparr>gc_marked = 0, gc_removed = 0, gc_freed = 0, gc_kept = 0\<rparr>"
  obtain q t where m: "mark_disks cx now (listed_disks s) (?z, s) = (q, t)" by (metis surj_pair)
  note f = mark_disks_facts [OF m, unfolded snd_conv]
  obtain A where A: "atime_of t = marked now A (atime_of s)" "\<forall>x. q = Inr x \<longrightarrow> A = named cx (listed_disks s) s" using f by blast
  have nm: "d \<in> named cx (listed_disks s) s \<longleftrightarrow> (\<exists>k disk ix. index_of cx k disk s = Inr ix \<and> d \<in> set (used_digests ix))" for d
    using listed_index [of cx _ _ s] unfolding named_def by blast
  have ns: "no_sweeps t" using assms(1) by (auto simp: no_sweeps_def A(1) marked_def)
  have keys: "\<forall>f \<in> set (keys (st_files t)). \<forall>g. f \<noteq> Sweep g"
  proof (intro ballI allI notI)
    fix f g assume "f \<in> set (keys (st_files t))" "f = Sweep g"
    then show False using ns keys_map_of [of f "st_files t"] by (auto simp: no_sweeps_def atime_of_def)
  qed
  show ?thesis
  proof (cases q)
    case (Inl e)
    then have "r = Inl e" "s' = t" using assms(2) by (simp_all add: collect_garbage_def m)
    moreover have "\<exists>(k, disk) \<in> set (listed_disks s). \<forall>ix. index_of cx k disk s \<noteq> Inr ix"
    proof -
      have "\<not> (\<forall>p \<in> set (listed_disks s). \<exists>ix. index_of cx (fst p) (snd p) s = Inr ix)"
        using conjunct1 [OF conjunct2 [OF conjunct2 [OF f]]] Inl by (simp add: split_beta)
      then show ?thesis by (simp add: split_beta)
    qed
    moreover have "e = Store_error ''garbage collection stopped, backup unreadable''" "st_dirs t = st_dirs s" using f Inl by simp_all
    moreover have "file_exists g t \<longleftrightarrow> file_exists g s" for g by (simp add: exists_atime A(1) marked_def)
    ultimately show ?thesis by simp
  next
    case (Inr x)
    obtain r' where r: "r = Inr r'" and s': "s' = snd (foldl (\<lambda>rs f. collect_file (now - GC_GRACE_S) f rs) (x, t) (keys (st_files t)))"
      using assms(2) Inr by (auto simp: collect_garbage_def m split: prod.splits)
    have tm: "atime_of s' = swept (now - GC_GRACE_S) (set (keys (st_files t))) (marked now (named cx (listed_disks s) s) (atime_of s))"
      and dirs: "st_dirs s' = st_dirs s"
      using collect_fold [of "(x, t)" "keys (st_files t)"] ns keys A Inr f by (simp_all add: s')
    have all: "atime_of t f = Some a \<Longrightarrow> f \<in> set (keys (st_files t))" for f a by (auto simp: atime_of_def dest: map_of_in_keys)
    have "file_exists f s' \<longleftrightarrow> (\<exists>a. atime_of s f = Some a \<and> (f \<in> Chunk ` named cx (listed_disks s) s \<or> now - GC_GRACE_S \<le> a))" for f
      using all [of f] A Inr by (auto simp: exists_atime tm swept_def marked_def GC_GRACE_S_def split: option.splits if_splits)
    moreover have "f \<in> Chunk ` named cx (listed_disks s) s \<longleftrightarrow>
        (\<exists>d k disk ix. f = Chunk d \<and> index_of cx k disk s = Inr ix \<and> d \<in> set (used_digests ix))" for f
      unfolding image_iff Bex_def nm by blast
    ultimately show ?thesis using dirs by (simp add: r)
  qed
qed

section \<open>What holds of every run\<close>

text \<open>Before: no process at work, no leftover of a sweep, every chunk of a recorded backup in its place.\<close>

definition whole_store :: "codec \<Rightarrow> gc_sys \<Rightarrow> bool" where
  "whole_store cx S \<longleftrightarrow> gs_gc S = Idle \<and> gs_writers S = [] \<and> (\<forall>g. \<not> file_exists (Sweep g) (gs_store S))
     \<and> (\<forall>k disk ix d. index_of cx k disk (gs_store S) = Inr ix \<longrightarrow> d \<in> set (used_digests ix) \<longrightarrow> file_exists (Chunk d) (gs_store S))"

lemma whole_store_inv: "whole_store cx S \<Longrightarrow> gc_inv cx D S"
  by (simp add: whole_store_def gc_inv_def entries_ok_def entry_ok_def writers_ok_def sweeps_ok_def collector_ok_def exists_atime)

lemma gc_reachable_inv: "gc_reachable cx D S0 S \<Longrightarrow> slack_ok D \<Longrightarrow> whole_store cx S0 \<Longrightarrow> gc_inv cx D S"
  by (induction rule: gc_reachable.induct) (auto intro: whole_store_inv gc_step_inv)

text \<open>C9: Whatever backups and collections do at once, every chunk that an index of a recorded backup names stays in the store: it is
  in its place, or the collector has it in hand and its next step puts it back. That holds when a backup is recorded within the
  grace of garbage collection less twice the time one chunk's file or sweep takes, and no collection is killed within a
  sweep.\<close>

theorem collection_spares_recorded_backups:
  assumes "slack_ok D" and "whole_store cx S0" and "gc_reachable cx D S0 S"
    and "index_of cx k disk (gs_store S) = Inr ix" and "d \<in> set (used_digests ix)"
  shows "file_exists (Chunk d) (gs_store S)
    \<or> (\<exists>c t S'. gs_gc S = Renamed c (Chunk d) t \<and> gc_do cx Gc_next S = Some S' \<and> file_exists (Chunk d) (gs_store S'))"
proof -
  have e: "entry_ok S k disk d" by (rule entriesD [OF gc_reachable_inv [OF assms(3,1,2)] assms(4,5)])
  show ?thesis
  proof (cases "between (gs_gc S)")
    case True
    then show ?thesis using entry_between [OF e] by (simp add: exists_atime)
  next
    case False
    then obtain c f t where pc: "gs_gc S = Renamed c f t" by (auto simp: between_def)
    then consider "atime_of (gs_store S) (Chunk d) \<noteq> None"
      | a where "f = Chunk d" "atime_of (gs_store S) (Sweep (Chunk d)) = Some a" "c \<le> a"
      using e by (auto simp: entry_ok_def kept_since_def)
    then show ?thesis
    proof cases
      case 2
      then have "file_exists (Chunk d) (snd (sweep_end c f (gs_store S)))"
        by (auto simp: exists_atime sweep_end_def atime_of_def os_replace_def split: option.splits)
      then show ?thesis using pc 2(1) by (auto simp: gc_next_def)
    qed (simp add: exists_atime)
  qed
qed

fun gc_run :: "codec \<Rightarrow> seconds \<Rightarrow> bool \<Rightarrow> gc_event list \<Rightarrow> gc_sys \<Rightarrow> gc_sys option" where
  "gc_run cx D strict [] S = Some S"
| "gc_run cx D strict (ev # evs) S =
     (if strict \<and> \<not> timely D ev S then None else Option.bind (gc_do cx ev S) (gc_run cx D strict evs))"

lemma gc_run_reachable: "gc_reachable cx D S0 S \<Longrightarrow> gc_run cx D True evs S = Some S' \<Longrightarrow> gc_reachable cx D S0 S'"
  by (induction evs arbitrary: S) (auto simp: bind_eq_Some_conv split: if_splits intro: gc_reachable.step)

text \<open>One old chunk, that no backup uses yet.\<close>

definition old_digest :: bytes where "old_digest = digest plain_codec [1, 2]"

definition old_chunk :: gc_sys where
  "old_chunk = \<lparr>gs_store = small_store\<lparr>st_files := [(Chunk old_digest, \<lparr>cb_bytes = [], cb_atime = 0\<rparr>)]\<rparr>, gs_now = 100000, gs_writers = [],
     gs_gc = Idle\<rparr>"

definition one_chunk_index :: disk_index where
  "one_chunk_index = \<lparr>ix_size = 2, ix_chunk_size = 2, ix_digests = [old_digest]\<rparr>"

text \<open>A backup that comes to use the chunk and is recorded, all between the collector's look at it and its renaming.\<close>

definition close_call :: "gc_event list" where
  "close_call = [Gc_start, Gc_next, Gc_look (Chunk old_digest), Begin 1 (''u'', ''t1''), Touch 1 old_digest,
     Record 1 [(''vda'', one_chunk_index)], Gc_next]"

lemma old_chunk_whole: "whole_store plain_codec old_chunk"
  by (simp add: whole_store_def old_chunk_def file_exists_def index_of_def dir_of_def small_store_def)

theorem collection_spares_recorded_backups_witness:
  "\<exists>S. gc_run plain_codec 150 True close_call old_chunk = Some S \<and> index_of plain_codec (''u'', ''t1'') ''vda'' (gs_store S) = Inr one_chunk_index
     \<and> (file_exists (Chunk old_digest) (gs_store S)
        \<or> (\<exists>c t S'. gs_gc S = Renamed c (Chunk old_digest) t \<and> gc_do plain_codec Gc_next S = Some S'
             \<and> file_exists (Chunk old_digest) (gs_store S')))"
proof -
  have "map_option (\<lambda>S. index_of plain_codec (''u'', ''t1'') ''vda'' (gs_store S)) (gc_run plain_codec 150 True close_call old_chunk)
      = Some (Inr one_chunk_index)"
    by code_simp
  then obtain S where S: "gc_run plain_codec 150 True close_call old_chunk = Some S"
      "index_of plain_codec (''u'', ''t1'') ''vda'' (gs_store S) = Inr one_chunk_index"
    by (cases "gc_run plain_codec 150 True close_call old_chunk") auto
  have "slack_ok 150" by (simp add: slack_ok_def GC_GRACE_S_def)
  moreover have "old_digest \<in> set (used_digests one_chunk_index)" by code_simp
  ultimately show ?thesis
    using collection_spares_recorded_backups [OF _ old_chunk_whole gc_run_reachable [OF gc_reachable.start S(1)] S(2)] S by blast
qed

text \<open>A collection killed in that very place: the chunk the recorded backup uses stays under its swept name, the next collection does
  not mark it (its mark looks for the chunk's own name only), puts it back with the time the backup touched it, and, a day
  later, removes it. \<open>write_backup\<close>'s own look for its chunks passed.\<close>

definition killed_there :: "gc_event list" where
  "killed_there = [Gc_killed, Tick 100000, Gc_start, Gc_next, Gc_next, Gc_next, Gc_put_back (Sweep (Chunk old_digest)),
     Gc_look (Chunk old_digest), Gc_next, Gc_next]"

theorem killed_sweep_loses_a_chunk:
  "(case gc_run plain_codec 150 False (close_call @ killed_there) old_chunk of
     None \<Rightarrow> False
   | Some S \<Rightarrow> index_of plain_codec (''u'', ''t1'') ''vda'' (gs_store S) = Inr one_chunk_index
       \<and> old_digest \<in> set (used_digests one_chunk_index) \<and> st_files (gs_store S) = [])
   \<and> map_option (\<lambda>S. missing_chunk [(''vda'', one_chunk_index)] (gs_store S))
     (gc_run plain_codec 150 True (take 5 close_call) old_chunk) = Some None"
  by code_simp

text \<open>A backup deleted while a collection marks stops the collection.\<close>

theorem deletion_stops_the_collection:
  "gs_gc S = Marking st ((k, disk) # todo) [] \<Longrightarrow> gc_do cx (Delete k) S = Some S' \<Longrightarrow>
     \<exists>S''. gc_do cx Gc_next S' = Some S'' \<and> gs_gc S'' = Idle"
  by (auto simp: gc_next_def delete_backup_def index_of_def dir_of_def)

theorem collection_frees_the_unused_witness:
  "no_sweeps (gs_store old_chunk) \<and> st_dirs (snd (collect_garbage plain_codec 100000 True (gs_store old_chunk))) = []
     \<and> \<not> file_exists (Chunk old_digest) (snd (collect_garbage plain_codec 100000 True (gs_store old_chunk)))"
proof -
  let ?s = "gs_store old_chunk"
  obtain r s' where c: "collect_garbage plain_codec 100000 True ?s = (r, s')" by (metis surj_pair)
  have ns: "no_sweeps ?s" by (simp add: no_sweeps_def old_chunk_def atime_of_def)
  have none: "index_of plain_codec k disk ?s \<noteq> Inr ix" for k disk ix
    by (simp add: index_of_def old_chunk_def dir_of_def small_store_def)
  have "listed_disks ?s = []" by (simp add: listed_disks_def backups_def old_chunk_def map_filter_def)
  then have "\<exists>x. r = Inr x" using collection_frees_the_unused [OF ns c] by (cases r) auto
  moreover have "atime_of ?s (Chunk old_digest) = Some 0" by (simp add: old_chunk_def atime_of_def)
  ultimately show ?thesis
    using collection_frees_the_unused [OF ns c] none ns c by (auto simp: GC_GRACE_S_def old_chunk_def)
qed

end
