(* ===== verification/Network_Alloc.thy ===== *)
theory Network_Alloc
  imports Ip_Net
begin

text \<open>
  Fixed addresses on the libvirt networks (\<^verbatim>\<open>app/core/network_alloc.py\<close>) and their move with a VM
  (\<^verbatim>\<open>app/core/vm_migrate.py\<close>): a network's XML as its \<open>ip\<close> elements with their DHCP range and reservations, its leases
  (none: libvirt raises, an inactive network), a node's libvirt connection as its domains' interfaces and its networks.

  libvirt is not part of the code: \<open>network.update\<close> is the parameter \<open>upd\<close> (none: it raises), with what its documentation
  says of it in \<open>update_laws\<close>. The connections that open are a parameter too.
\<close>

section \<open>What libvirt answers\<close>

record host_el =
  h_mac :: "string option"
  h_ip :: "string option"

record ip_el =
  ip_family :: "string option"
  ip_address :: "string option"
  ip_prefix :: "string option"
  ip_netmask :: "string option"
  ip_range :: "(string option \<times> string option) option"
  ip_hosts :: "host_el list"

text \<open>A lease: its MAC and its address.\<close>

record network =
  nt_ips :: "ip_el list"
  nt_leases :: "(string option \<times> string option) list option"

record iface =
  if_network :: "string option"
  if_mac :: "string option"

text \<open>\<open>cn_domains\<close>: none for a domain undefined meanwhile.\<close>

record conn =
  cn_domains :: "iface list option list"
  cn_nets :: "(string, network) dict"

datatype command = Add_last | Delete

type_synonym update = "command \<Rightarrow> string \<Rightarrow> string \<Rightarrow> network \<Rightarrow> network option"

datatype net_error = Libvirt_error | Address_value_error | No_free_mac | Address_in_use string string string

text \<open>A Python string that counts as true.\<close>

definition given :: "string option \<Rightarrow> string option" where
  "given x = (case x of Some (c # cs) \<Rightarrow> Some (c # cs) | _ \<Rightarrow> None)"

definition or_empty :: "string option \<Rightarrow> string" where
  "or_empty x = (case x of None \<Rightarrow> [] | Some s \<Rightarrow> s)"

definition dhcp_hosts :: "network \<Rightarrow> host_el list" where
  "dhcp_hosts n = concat (map ip_hosts (nt_ips n))"

text \<open>The laws of \<open>network.update\<close>: an added reservation stands somewhere among the others, a deleted one is one with that
  MAC, whatever its case, and that address; nothing else of the network changes.\<close>

definition skeleton :: "network \<Rightarrow> network" where
  "skeleton n = n\<lparr>nt_ips := map (\<lambda>e. e\<lparr>ip_hosts := []\<rparr>) (nt_ips n)\<rparr>"

definition added_to :: "string \<Rightarrow> string \<Rightarrow> network \<Rightarrow> network \<Rightarrow> bool" where
  "added_to mac ip n n' \<longleftrightarrow> skeleton n' = skeleton n
     \<and> (\<exists>a b. dhcp_hosts n = a @ b \<and> dhcp_hosts n' = a @ \<lparr>h_mac = Some mac, h_ip = Some ip\<rparr> # b)"

definition deleted_from :: "string \<Rightarrow> string \<Rightarrow> network \<Rightarrow> network \<Rightarrow> bool" where
  "deleted_from mac ip n n' \<longleftrightarrow> skeleton n' = skeleton n
     \<and> (\<exists>a h b. dhcp_hosts n = a @ h # b \<and> dhcp_hosts n' = a @ b
          \<and> map_option str_lower (h_mac h) = Some (str_lower mac) \<and> h_ip h = Some ip)"

definition update_laws :: "update \<Rightarrow> bool" where
  "update_laws upd \<longleftrightarrow>
     (\<forall>mac ip n n'. upd Add_last mac ip n = Some n' \<longrightarrow> added_to mac ip n n')
   \<and> (\<forall>mac ip n n'. upd Delete mac ip n = Some n' \<longrightarrow> deleted_from mac ip n n')"

section \<open>MAC addresses\<close>

definition res_pair :: "host_el \<Rightarrow> (string \<times> string) option" where
  "res_pair h = (case (given (h_mac h), given (h_ip h)) of (Some m, Some i) \<Rightarrow> Some (str_lower m, i) | _ \<Rightarrow> None)"

definition res_pairs :: "network \<Rightarrow> (string \<times> string) list" where
  "res_pairs n = List.map_filter res_pair (dhcp_hosts n)"

definition reservations :: "network \<Rightarrow> (string, string) dict" where
  "reservations n = dict_of (res_pairs n)"

text \<open>An inactive network raises on its leases, before its reservations are read.\<close>

definition macs_in_use :: "conn \<Rightarrow> string list" where
  "macs_in_use c =
     concat (map (\<lambda>d. case d of None \<Rightarrow> [] | Some ifs \<Rightarrow> map (\<lambda>m. str_lower m) (List.map_filter if_mac ifs)) (cn_domains c))
   @ concat (map (\<lambda>(_, n). case nt_leases n of
       None \<Rightarrow> []
     | Some ls \<Rightarrow> map (\<lambda>l. str_lower (or_empty (fst l))) ls @ keys (reservations n)) (cn_nets c))"

definition hex_digit :: "nat \<Rightarrow> char" where
  "hex_digit n = (if n < 10 then digit_char n else char_of (n - 10 + of_char (CHR ''a'')))"

definition hex2 :: "nat \<Rightarrow> string" where
  "hex2 n = [hex_digit (n div 16), hex_digit (n mod 16)]"

definition mac_text :: "nat \<times> nat \<times> nat \<Rightarrow> string" where
  "mac_text = (\<lambda>(a, b, c). ''52:54:00:'' @ hex2 a @ '':'' @ hex2 b @ '':'' @ hex2 c)"

text \<open>\<open>draws\<close>: what \<open>random\<close> gives, three bytes a time.\<close>

definition generate_mac :: "(nat \<Rightarrow> nat \<times> nat \<times> nat) \<Rightarrow> conn \<Rightarrow> net_error + string" where
  "generate_mac draws c = some_or No_free_mac (find (\<lambda>m. m \<notin> set (macs_in_use c)) (map (\<lambda>i. mac_text (draws i)) [0..<20]))"

section \<open>Allocation\<close>

definition ipv4_family :: "ip_el \<Rightarrow> bool" where
  "ipv4_family e \<longleftrightarrow> (case ip_family e of None \<Rightarrow> True | Some f \<Rightarrow> f = ''ipv4'')"

fun first_range :: "ip_el list \<Rightarrow> (string option \<times> string option) option" where
  "first_range [] = None"
| "first_range (e # es) = (if \<not> ipv4_family e then first_range es else case ip_range e of Some r \<Rightarrow> Some r | None \<Rightarrow> first_range es)"

definition dhcp_range :: "network \<Rightarrow> (string option \<times> string option) option" where
  "dhcp_range n = first_range (nt_ips n)"

definition host_ips :: "network \<Rightarrow> string list" where
  "host_ips n = List.map_filter (\<lambda>h. given (h_ip h)) (dhcp_hosts n)"

definition used_ips :: "network \<Rightarrow> net_error + string list" where
  "used_ips n = (case nt_leases n of
     None \<Rightarrow> Inl Libvirt_error
   | Some ls \<Rightarrow> Inr (host_ips n @ List.map_filter (\<lambda>l. given (snd l)) ls))"

text \<open>\<open>nodes\<close>: the registered nodes, none when the list is unavailable; \<open>opens\<close>: the connections that open, none for this node.\<close>

definition cluster_used_ips :: "string list option \<Rightarrow> (string option \<Rightarrow> conn option) \<Rightarrow> string \<Rightarrow> string list" where
  "cluster_used_ips nodes opens net = concat (map
     (\<lambda>name. case opens name of
        None \<Rightarrow> []
      | Some c \<Rightarrow> (case map_of (cn_nets c) net of
          None \<Rightarrow> []
        | Some n \<Rightarrow> (case used_ips n of Inl _ \<Rightarrow> [] | Inr ips \<Rightarrow> ips)))
     (None # (case nodes of None \<Rightarrow> [] | Some ns \<Rightarrow> map Some ns)))"

fun try_addresses :: "update \<Rightarrow> string \<Rightarrow> string list \<Rightarrow> nat \<Rightarrow> nat list \<Rightarrow> network \<Rightarrow> (net_error + string option) \<times> network" where
  "try_addresses upd mac used refused [] n = (Inr None, n)"
| "try_addresses upd mac used refused (raw # raws) n =
     (if ipv4_text raw \<in> set used then try_addresses upd mac used refused raws n
      else case upd Add_last mac (ipv4_text raw) n of
        Some n' \<Rightarrow> (Inr (Some (ipv4_text raw)), n')
      | None \<Rightarrow> if refused + 1 \<ge> 3 then (Inl Libvirt_error, n) else try_addresses upd mac used (refused + 1) raws n)"

definition ipv4_address :: "string option \<Rightarrow> net_error + nat" where
  "ipv4_address x = (case x of
     Some s \<Rightarrow> if ipv4_ok s then Inr (ipv4_number s) else Inl Address_value_error
   | None \<Rightarrow> Inl Address_value_error)"

text \<open>What is read before the lock: the network, its range and the other nodes' addresses.\<close>

definition alloc_reads ::
  "string list option \<Rightarrow> (string option \<Rightarrow> conn option) \<Rightarrow> string \<Rightarrow> bool \<Rightarrow> conn \<Rightarrow>
   net_error + ((string option \<times> string option) \<times> string list) option" where
  "alloc_reads nodes opens net cluster c = (case map_of (cn_nets c) net of
     None \<Rightarrow> Inl Libvirt_error
   | Some n \<Rightarrow> (case dhcp_range n of
       None \<Rightarrow> Inr None
     | Some r \<Rightarrow> Inr (Some (r, if cluster then cluster_used_ips nodes opens net else []))))"

text \<open>What is done under the lock.\<close>

definition alloc_takes ::
  "update \<Rightarrow> string \<Rightarrow> (string option \<times> string option) \<Rightarrow> string list \<Rightarrow> network \<Rightarrow> (net_error + string option) \<times> network" where
  "alloc_takes upd mac r others n =
     (case rbind (used_ips n) (\<lambda>ips. rbind (ipv4_address (fst r)) (\<lambda>a. rbind (ipv4_address (snd r)) (\<lambda>b. Inr (ips, a, b)))) of
        Inl e \<Rightarrow> (Inl e, n)
      | Inr (ips, a, b) \<Rightarrow> try_addresses upd mac (ips @ others) 0 [a..<b + 1] n)"

definition set_net :: "string \<Rightarrow> network \<Rightarrow> conn \<Rightarrow> conn" where
  "set_net net n c = c\<lparr>cn_nets := dict_set net n (cn_nets c)\<rparr>"

definition allocate_static_ip ::
  "update \<Rightarrow> string list option \<Rightarrow> (string option \<Rightarrow> conn option) \<Rightarrow> string \<Rightarrow> string \<Rightarrow> bool \<Rightarrow> conn \<Rightarrow>
   (net_error + string option) \<times> conn" where
  "allocate_static_ip upd nodes opens net mac cluster c = (case alloc_reads nodes opens net cluster c of
     Inl e \<Rightarrow> (Inl e, c)
   | Inr None \<Rightarrow> (Inr None, c)
   | Inr (Some (r, others)) \<Rightarrow> (case map_of (cn_nets c) net of
       None \<Rightarrow> (Inl Libvirt_error, c)
     | Some n \<Rightarrow> (let (res, n') = alloc_takes upd mac r others n in (res, set_net net n' c))))"

section \<open>Release\<close>

text \<open>\<open>f"\{host.get('ip')\}"\<close>: no address prints as \<open>None\<close>.\<close>

definition release_static_ip :: "update \<Rightarrow> string \<Rightarrow> string \<Rightarrow> conn \<Rightarrow> (net_error + bool) \<times> conn" where
  "release_static_ip upd net mac c = (case map_of (cn_nets c) net of
     None \<Rightarrow> (Inr False, c)
   | Some n \<Rightarrow> (case find (\<lambda>h. str_lower (or_empty (h_mac h)) = str_lower mac) (dhcp_hosts n) of
       None \<Rightarrow> (Inr False, c)
     | Some h \<Rightarrow> (case upd Delete mac (case h_ip h of None \<Rightarrow> ''None'' | Some i \<Rightarrow> i) n of
         None \<Rightarrow> (Inl Libvirt_error, c)
       | Some n' \<Rightarrow> (Inr True, set_net net n' c))))"

definition release_reservations :: "update \<Rightarrow> (string \<times> string) list \<Rightarrow> conn \<Rightarrow> conn" where
  "release_reservations upd pairs c = fold (\<lambda>(net, mac) c. snd (release_static_ip upd net mac c)) pairs c"

section \<open>Migration\<close>

definition domain_interfaces :: "iface list \<Rightarrow> (string \<times> string) list" where
  "domain_interfaces ifs = List.map_filter
     (\<lambda>i. case (given (if_network i), given (if_mac i)) of (Some n, Some m) \<Rightarrow> Some (n, str_lower m) | _ \<Rightarrow> None) ifs"

text \<open>Who else holds an address: a reservation, then a lease; a lease without a MAC counts as nobody's.\<close>

definition other_holder :: "string \<Rightarrow> string \<Rightarrow> network \<Rightarrow> net_error + string option" where
  "other_holder ip mac n =
     (let holder = find (\<lambda>(m, a). a = ip \<and> m \<noteq> mac) (reservations n) in
      case nt_leases n of
        None \<Rightarrow> Inl Libvirt_error
      | Some ls \<Rightarrow>
          let leased = find (\<lambda>l. snd l = Some ip \<and> str_lower (or_empty (fst l)) \<noteq> mac) ls in
          Inr (case holder of Some (m, _) \<Rightarrow> Some m | None \<Rightarrow> (case leased of None \<Rightarrow> None | Some l \<Rightarrow> given (Some (str_lower (or_empty (fst l)))))))"

type_synonym carried = "string \<times> string \<times> string \<times> string option"

fun carry_plan :: "conn \<Rightarrow> conn \<Rightarrow> (string \<times> string) list \<Rightarrow> net_error + carried list" where
  "carry_plan src dest [] = Inr []"
| "carry_plan src dest ((net, mac) # ps) = (case (map_of (cn_nets src) net, map_of (cn_nets dest) net) of
     (Some s, Some d) \<Rightarrow> (case map_of (reservations s) mac of
         None \<Rightarrow> carry_plan src dest ps
       | Some ip \<Rightarrow>
           if dhcp_range d = None then carry_plan src dest ps
           else rbind (other_holder ip mac d) (\<lambda>w. case w of
               Some who \<Rightarrow> Inl (Address_in_use ip net who)
             | None \<Rightarrow> rbind (carry_plan src dest ps) (\<lambda>rest. Inr ((net, mac, ip, map_of (reservations d) mac) # rest))))
   | _ \<Rightarrow> carry_plan src dest ps)"

definition update_host :: "update \<Rightarrow> command \<Rightarrow> string \<Rightarrow> string \<Rightarrow> string \<Rightarrow> conn \<Rightarrow> conn option" where
  "update_host upd cmd net mac ip c = (case map_of (cn_nets c) net of
     None \<Rightarrow> None
   | Some n \<Rightarrow> map_option (\<lambda>n'. set_net net n' c) (upd cmd mac ip n))"

fun carry_apply ::
  "update \<Rightarrow> carried list \<Rightarrow> (string \<times> string) list \<Rightarrow> (string \<times> string) list \<Rightarrow> conn \<Rightarrow>
   (net_error + (string \<times> string) list \<times> (string \<times> string) list) \<times> conn" where
  "carry_apply upd [] moved added c = (Inr (moved, added), c)"
| "carry_apply upd ((net, mac, ip, current) # plan) moved added c =
     (if current = Some ip then carry_apply upd plan (moved @ [(net, mac)]) added c
      else case (case current of None \<Rightarrow> Some c | Some old \<Rightarrow> update_host upd Delete net mac old c) of
        None \<Rightarrow> (Inl Libvirt_error, c)
      | Some c1 \<Rightarrow> (case update_host upd Add_last net mac ip c1 of
          None \<Rightarrow> (Inl Libvirt_error, c1)
        | Some c2 \<Rightarrow> carry_apply upd plan (moved @ [(net, mac)]) (added @ [(net, mac)]) c2))"

definition carry_reservations ::
  "update \<Rightarrow> conn \<Rightarrow> conn \<Rightarrow> iface list \<Rightarrow> (net_error + (string \<times> string) list \<times> (string \<times> string) list) \<times> conn" where
  "carry_reservations upd src dest ifs = (case carry_plan src dest (domain_interfaces ifs) of
     Inl e \<Rightarrow> (Inl e, dest)
   | Inr plan \<Rightarrow> carry_apply upd plan [] [] dest)"

text \<open>What a migration does to both ends' reservations: \<open>Stops\<close> is a failure or a cancellation between the reservation and the
  move (copying a CD-ROM, no room), \<open>Fails\<close> is libvirt refusing the move.\<close>

datatype move = Stops | Fails | Moves

definition migrate_addresses :: "update \<Rightarrow> move \<Rightarrow> conn \<Rightarrow> conn \<Rightarrow> iface list \<Rightarrow> conn \<times> conn" where
  "migrate_addresses upd move src dest ifs = (case carry_reservations upd src dest ifs of
     (Inl _, dest') \<Rightarrow> (src, dest')
   | (Inr (moved, added), dest') \<Rightarrow> (case move of
       Stops \<Rightarrow> (src, dest')
     | Fails \<Rightarrow> (src, release_reservations upd added dest')
     | Moves \<Rightarrow> (release_reservations upd moved src, dest')))"

section \<open>A network's gateway\<close>

text \<open>\<open>IPv4Network("0.0.0.0/mask")\<close>: the mask's prefix length.\<close>

fun first_gateway :: "ip_el list \<Rightarrow> net_error + (string \<times> int) option" where
  "first_gateway [] = Inr None"
| "first_gateway (e # es) =
     (if \<not> ipv4_family e then first_gateway es
      else case given (ip_address e) of
        None \<Rightarrow> first_gateway es
      | Some a \<Rightarrow> (case given (ip_prefix e) of
          Some p \<Rightarrow> rbind (some_or Address_value_error (int_of_text p)) (\<lambda>k. Inr (Some (a, k)))
        | None \<Rightarrow> (case given (ip_netmask e) of
            Some m \<Rightarrow> rbind (some_or Address_value_error (prefix_of_text m)) (\<lambda>k. Inr (Some (a, int k)))
          | None \<Rightarrow> first_gateway es)))"

definition network_gateway :: "conn \<Rightarrow> string \<Rightarrow> net_error + (string \<times> int) option" where
  "network_gateway c net = (case map_of (cn_nets c) net of
     None \<Rightarrow> Inl Libvirt_error
   | Some n \<Rightarrow> first_gateway (nt_ips n))"

end
