(* ===== verification/Network_Props.thy ===== *)
theory Network_Props
  imports Network_Alloc
begin

text \<open>
  What the fixed addresses promise, for any libvirt that keeps \<open>update_laws\<close>: an allocated address is in the range and free on
  every node that answered, the lowest one when libvirt refuses nothing; creations and deletions on any node, in any order and
  however they overlap, never reserve an address twice on one network; a migration's reservations give the VM its own addresses
  on the destination and take nobody else's.

  Also shown: two nodes that read each other's addresses at the same time give the same address to two VMs, and a migration that
  stops between its reservations and the move leaves them on the destination.
\<close>

section \<open>One change of a network\<close>

lemma given_Some_iff: "given x = Some s \<longleftrightarrow> x = Some s \<and> s \<noteq> []"
  by (auto simp: given_def split: option.splits list.splits)

lemma given_None_iff: "given x = None \<longleftrightarrow> x = None \<or> x = Some []"
  by (auto simp: given_def split: option.splits list.splits)

lemma mem_map_filter: "y \<in> set (List.map_filter f xs) \<longleftrightarrow> (\<exists>x \<in> set xs. f x = Some y)"
  by (force simp: List.map_filter_def)

lemma map_filter_append: "List.map_filter f (xs @ ys) = List.map_filter f xs @ List.map_filter f ys"
  by (simp add: List.map_filter_def)

lemma added_host_ips:
  assumes "added_to mac ip n n'" and "ip \<noteq> []"
  shows "\<exists>a b. host_ips n = a @ b \<and> host_ips n' = a @ ip # b"
proof -
  obtain a b where h: "dhcp_hosts n = a @ b" "dhcp_hosts n' = a @ \<lparr>h_mac = Some mac, h_ip = Some ip\<rparr> # b"
    using assms(1) by (auto simp: added_to_def)
  obtain c cs where "ip = c # cs" using assms(2) by (cases ip) auto
  then show ?thesis by (auto simp: host_ips_def h List.map_filter_def given_def)
qed

lemma deleted_host_ips:
  assumes "deleted_from mac ip n n'"
  shows "distinct (host_ips n) \<Longrightarrow> distinct (host_ips n')" and "set (host_ips n') \<subseteq> set (host_ips n)"
proof -
  obtain a h b where h: "dhcp_hosts n = a @ h # b" "dhcp_hosts n' = a @ b"
    using assms by (auto simp: deleted_from_def)
  show "distinct (host_ips n) \<Longrightarrow> distinct (host_ips n')"
    by (cases "given (h_ip h)") (simp_all add: host_ips_def h List.map_filter_def)
  show "set (host_ips n') \<subseteq> set (host_ips n)"
    by (cases "given (h_ip h)") (auto simp: host_ips_def h List.map_filter_def)
qed

lemma update_lawsD:
  assumes "update_laws upd"
  shows "upd Add_last mac ip n = Some n' \<Longrightarrow> added_to mac ip n n'"
    and "upd Delete mac ip n = Some n' \<Longrightarrow> deleted_from mac ip n n'"
  using assms by (auto simp: update_laws_def)

lemma ipv4_text_not_Nil [simp]: "ipv4_text n \<noteq> []"
  by (simp add: ipv4_text_def)

lemma map_of_set_net [simp]: "map_of (cn_nets (set_net net n c)) m = (if m = net then Some n else map_of (cn_nets c) m)"
  by (simp add: set_net_def)

text \<open>An address held on a network: reserved there, or leased.\<close>

definition holds_ip :: "network \<Rightarrow> string \<Rightarrow> bool" where
  "holds_ip n ip \<longleftrightarrow> ip \<in> set (host_ips n) \<or> (\<exists>ls l. nt_leases n = Some ls \<and> l \<in> set ls \<and> snd l = Some ip)"

lemma used_ips_holds: "used_ips n = Inr ips \<Longrightarrow> ip \<noteq> [] \<Longrightarrow> ip \<in> set ips \<longleftrightarrow> holds_ip n ip"
  by (force simp: used_ips_def holds_ip_def mem_map_filter given_Some_iff split: option.splits)

section \<open>Which address is taken\<close>

lemma try_addresses_takes:
  "try_addresses upd mac used k raws n = (Inr (Some ip), n') \<Longrightarrow>
   \<exists>raw \<in> set raws. ip = ipv4_text raw \<and> ip \<notin> set used \<and> upd Add_last mac ip n = Some n'"
  by (induction raws arbitrary: k) (auto split: if_splits option.splits)

lemma try_addresses_unchanged:
  "try_addresses upd mac used k raws n = (res, n') \<Longrightarrow> (\<forall>ip. res \<noteq> Inr (Some ip)) \<Longrightarrow> n' = n"
  by (induction raws arbitrary: k) (auto split: if_splits option.splits)

lemma try_addresses_accepting:
  assumes "\<And>ip. upd Add_last mac ip n \<noteq> None"
  shows "fst (try_addresses upd mac used k raws n) = Inr (map_option ipv4_text (find (\<lambda>raw. ipv4_text raw \<notin> set used) raws))"
proof (induction raws arbitrary: k)
  case (Cons raw raws)
  obtain n' where "upd Add_last mac (ipv4_text raw) n = Some n'" using assms by blast
  then show ?case using Cons by simp
qed simp

lemma alloc_takes_cases:
  assumes "alloc_takes upd mac r others n = (res, n')"
  obtains e where "res = Inl e" "n' = n"
  | ips a b where "used_ips n = Inr ips" "ipv4_address (fst r) = Inr a" "ipv4_address (snd r) = Inr b"
      "try_addresses upd mac (ips @ others) 0 [a..<b + 1] n = (res, n')"
  using assms unfolding alloc_takes_def
  by (cases "used_ips n"; cases "ipv4_address (fst r)"; cases "ipv4_address (snd r)") auto

lemma alloc_takes_some:
  assumes "update_laws upd" and "alloc_takes upd mac r others n = (Inr (Some ip), n')"
  shows "added_to mac ip n n' \<and> \<not> holds_ip n ip \<and> ip \<notin> set others \<and> ip \<noteq> []
    \<and> (\<exists>a b raw. ipv4_address (fst r) = Inr a \<and> ipv4_address (snd r) = Inr b \<and> a \<le> raw \<and> raw \<le> b \<and> ip = ipv4_text raw)"
  using assms(2)
proof (cases rule: alloc_takes_cases)
  case (2 ips a b)
  obtain raw where "raw \<in> set [a..<b + 1]" and ip: "ip = ipv4_text raw" and free: "ip \<notin> set (ips @ others)"
    and upd: "upd Add_last mac ip n = Some n'"
    using try_addresses_takes [OF 2(4)] by blast
  then have "a \<le> raw" "raw \<le> b" by auto
  moreover have "\<not> holds_ip n ip" using used_ips_holds [OF 2(1), of ip] free ip by simp
  moreover have "added_to mac ip n n'" using update_lawsD(1) [OF assms(1) upd] .
  ultimately show ?thesis using ip free 2 by auto
qed simp

lemma alloc_takes_other:
  assumes "alloc_takes upd mac r others n = (res, n')" and "\<forall>ip. res \<noteq> Inr (Some ip)"
  shows "n' = n"
  using assms(1) by (cases rule: alloc_takes_cases) (use assms(2) try_addresses_unchanged in auto)

text \<open>The network of that name of this node, or of a registered one, that could be read.\<close>

definition answered :: "string list option \<Rightarrow> (string option \<Rightarrow> conn option) \<Rightarrow> string \<Rightarrow> network \<Rightarrow> bool" where
  "answered nodes opens net n \<longleftrightarrow> (\<exists>name c. (name = None \<or> (\<exists>ns m. nodes = Some ns \<and> m \<in> set ns \<and> name = Some m))
     \<and> opens name = Some c \<and> map_of (cn_nets c) net = Some n \<and> nt_leases n \<noteq> None)"

lemma cluster_used_ips_holds:
  assumes "answered nodes opens net n" and "holds_ip n ip" and "ip \<noteq> []"
  shows "ip \<in> set (cluster_used_ips nodes opens net)"
proof -
  obtain ips where u: "used_ips n = Inr ips" using assms(1) by (auto simp: answered_def used_ips_def)
  then have "ip \<in> set ips" using used_ips_holds assms(2,3) by blast
  then show ?thesis
    using assms(1) u by (force simp: answered_def cluster_used_ips_def)
qed

text \<open>C18: An address given to a MAC lies in the network's DHCP range, is now reserved there for it, and was neither reserved nor
  leased on that network nor, in a cluster, on the network of that name of any node that answered.\<close>

theorem allocated_address_is_free:
  assumes "update_laws upd" and "allocate_static_ip upd nodes opens net mac cluster c = (Inr (Some ip), c')"
  shows "\<exists>n n' low high. map_of (cn_nets c) net = Some n \<and> map_of (cn_nets c') net = Some n' \<and> added_to mac ip n n'
    \<and> dhcp_range n = Some (Some low, Some high) \<and> ipv4_ok ip
    \<and> ipv4_number low \<le> ipv4_number ip \<and> ipv4_number ip \<le> ipv4_number high
    \<and> \<not> holds_ip n ip
    \<and> (\<forall>n2. cluster \<and> answered nodes opens net n2 \<longrightarrow> \<not> holds_ip n2 ip)
    \<and> (\<forall>other. other \<noteq> net \<longrightarrow> map_of (cn_nets c') other = map_of (cn_nets c) other)"
proof -
  obtain n r others where n: "map_of (cn_nets c) net = Some n" and r: "dhcp_range n = Some r"
    and o: "others = (if cluster then cluster_used_ips nodes opens net else [])"
    and t: "(let (res, n') = alloc_takes upd mac r others n in (res, set_net net n' c)) = (Inr (Some ip), c')"
    using assms(2) by (auto simp: allocate_static_ip_def alloc_reads_def split: option.splits)
  then obtain n' where at: "alloc_takes upd mac r others n = (Inr (Some ip), n')" and c': "c' = set_net net n' c"
    by (auto split: prod.splits)
  have f: "added_to mac ip n n'" "\<not> holds_ip n ip" "ip \<notin> set others" "ip \<noteq> []"
    using alloc_takes_some [OF assms(1) at] by auto
  obtain a b raw where ab: "ipv4_address (fst r) = Inr a" "ipv4_address (snd r) = Inr b" "a \<le> raw" "raw \<le> b" "ip = ipv4_text raw"
    using alloc_takes_some [OF assms(1) at] by auto
  obtain low high where lh: "r = (Some low, Some high)" "ipv4_ok high" "a = ipv4_number low" "b = ipv4_number high"
    using ab(1,2) by (cases r) (auto simp: ipv4_address_def split: option.splits if_splits)
  have "raw < 2 ^ 32" using ipv4_number_bound [OF lh(2)] ab(4) lh(4) by simp
  then have "ipv4_number ip = raw" using ab(5) ipv4_number_text by simp
  moreover have "\<not> holds_ip n2 ip" if "cluster" "answered nodes opens net n2" for n2
    using cluster_used_ips_holds [OF that(2)] f(3,4) o that(1) by auto
  ultimately show ?thesis
    using n r f ab lh c' by (auto simp: ipv4_ok_text)
qed

text \<open>The address taken is the lowest free one of the range, when libvirt accepts it.\<close>

theorem lowest_free_address:
  assumes "\<And>ip n. upd Add_last mac ip n \<noteq> None" and "map_of (cn_nets c) net = Some n"
    and "dhcp_range n = Some (Some low, Some high)" and "ipv4_ok low" and "ipv4_ok high" and "nt_leases n \<noteq> None"
  shows "fst (allocate_static_ip upd nodes opens net mac cluster c) =
    Inr (map_option ipv4_text (find (\<lambda>raw. \<not> holds_ip n (ipv4_text raw)
      \<and> (cluster \<longrightarrow> ipv4_text raw \<notin> set (cluster_used_ips nodes opens net))) [ipv4_number low..<ipv4_number high + 1]))"
proof -
  obtain ips where u: "used_ips n = Inr ips" using assms(6) by (auto simp: used_ips_def)
  let ?o = "if cluster then cluster_used_ips nodes opens net else []"
  have "fst (allocate_static_ip upd nodes opens net mac cluster c) = fst (try_addresses upd mac (ips @ ?o) 0 [ipv4_number low..<ipv4_number high + 1] n)"
    using assms(2-5) u by (simp add: allocate_static_ip_def alloc_reads_def alloc_takes_def ipv4_address_def split: prod.splits)
  also have "\<dots> = Inr (map_option ipv4_text (find (\<lambda>raw. ipv4_text raw \<notin> set (ips @ ?o)) [ipv4_number low..<ipv4_number high + 1]))"
    using assms(1) by (rule try_addresses_accepting)
  also have "(\<lambda>raw. ipv4_text raw \<notin> set (ips @ ?o)) = (\<lambda>raw. \<not> holds_ip n (ipv4_text raw)
      \<and> (cluster \<longrightarrow> ipv4_text raw \<notin> set (cluster_used_ips nodes opens net)))"
    using used_ips_holds [OF u] by auto
  finally show ?thesis .
qed

section \<open>Creations and deletions that overlap\<close>

text \<open>Every node's libvirt, and the allocations that have read their range and the other nodes' addresses and wait for the lock.
  A creation may reach any part of the cluster (\<open>opens\<close> answers with what a node has at that moment, or not at all), leases come
  and go by themselves.\<close>

record net_sys =
  sy_conn :: "string \<Rightarrow> conn"
  sy_waiting :: "(string \<times> string \<times> string \<times> (string option \<times> string option) \<times> string list) list"

definition at_node :: "string \<Rightarrow> conn \<Rightarrow> net_sys \<Rightarrow> net_sys" where
  "at_node k c s = s\<lparr>sy_conn := (sy_conn s)(k := c)\<rparr>"

definition reached :: "string \<Rightarrow> string list \<Rightarrow> net_sys \<Rightarrow> string option \<Rightarrow> conn option" where
  "reached me up s name = (case name of
     None \<Rightarrow> Some (sy_conn s me)
   | Some k \<Rightarrow> if k \<in> set up then Some (sy_conn s k) else None)"

inductive net_step :: "update \<Rightarrow> net_sys \<Rightarrow> net_sys \<Rightarrow> bool" for upd where
  asks: "alloc_reads nodes (reached me up s) net cluster (sy_conn s k) = Inr (Some (r, others)) \<Longrightarrow>
    net_step upd s (s\<lparr>sy_waiting := sy_waiting s @ [(k, net, mac, r, others)]\<rparr>)"
| takes: "sy_waiting s = ws @ (k, net, mac, r, others) # ws' \<Longrightarrow> map_of (cn_nets (sy_conn s k)) net = Some n \<Longrightarrow>
    alloc_takes upd mac r others n = (res, n') \<Longrightarrow>
    net_step upd s ((at_node k (set_net net n' (sy_conn s k)) s)\<lparr>sy_waiting := ws @ ws'\<rparr>)"
| releases: "net_step upd s (at_node k (snd (release_static_ip upd net mac (sy_conn s k))) s)"
| leases: "map_of (cn_nets (sy_conn s k)) net = Some n \<Longrightarrow>
    net_step upd s (at_node k (set_net net (n\<lparr>nt_leases := ls\<rparr>) (sy_conn s k)) s)"

definition reserved_once :: "net_sys \<Rightarrow> bool" where
  "reserved_once s \<longleftrightarrow> (\<forall>k net n. map_of (cn_nets (sy_conn s k)) net = Some n \<longrightarrow> distinct (host_ips n))"

lemma reserved_once_set_net:
  "reserved_once s \<Longrightarrow> distinct (host_ips n) \<Longrightarrow> reserved_once (at_node k (set_net net n (sy_conn s k)) s)"
  by (auto simp: reserved_once_def at_node_def split: if_splits)

lemma alloc_takes_distinct:
  assumes "update_laws upd" and "alloc_takes upd mac r others n = (res, n')" and "distinct (host_ips n)"
  shows "distinct (host_ips n')"
proof (cases "\<exists>ip. res = Inr (Some ip)")
  case True
  then obtain ip where ip: "res = Inr (Some ip)" by blast
  have f: "added_to mac ip n n'" "\<not> holds_ip n ip" "ip \<noteq> []"
    using alloc_takes_some [OF assms(1)] assms(2) ip by auto
  obtain a b where "host_ips n = a @ b" "host_ips n' = a @ ip # b" using added_host_ips [OF f(1,3)] by blast
  then show ?thesis using f(2) assms(3) by (auto simp: holds_ip_def)
next
  case False
  then show ?thesis using alloc_takes_other [OF assms(2)] assms(3) by auto
qed

lemma release_cases:
  assumes "update_laws upd"
  obtains "snd (release_static_ip upd net mac c) = c"
  | n n' ip where "map_of (cn_nets c) net = Some n" "deleted_from mac ip n n'" "snd (release_static_ip upd net mac c) = set_net net n' c"
proof (cases "map_of (cn_nets c) net")
  case (Some n)
  show ?thesis
  proof (cases "find (\<lambda>h. str_lower (or_empty (h_mac h)) = str_lower mac) (dhcp_hosts n)")
    case (Some h)
    let ?ip = "case h_ip h of None \<Rightarrow> ''None'' | Some i \<Rightarrow> i"
    show ?thesis
    proof (cases "upd Delete mac ?ip n")
      case (Some n')
      then show ?thesis
        using that(2) [OF _ update_lawsD(2) [OF assms Some]] \<open>map_of (cn_nets c) net = Some n\<close> \<open>find _ _ = Some h\<close>
        by (simp add: release_static_ip_def)
    qed (use that(1) Some \<open>map_of (cn_nets c) net = Some n\<close> in \<open>simp add: release_static_ip_def\<close>)
  qed (use that(1) Some in \<open>simp add: release_static_ip_def\<close>)
qed (use that(1) in \<open>simp add: release_static_ip_def\<close>)

lemma net_step_keeps:
  assumes "net_step upd s s'" and "update_laws upd" and "reserved_once s"
  shows "reserved_once s'"
  using assms(1)
proof cases
  case (takes ws k net mac r others ws' n res n')
  have "distinct (host_ips n)" using assms(3) takes(3) by (auto simp: reserved_once_def)
  then have "reserved_once (at_node k (set_net net n' (sy_conn s k)) s)"
    using alloc_takes_distinct [OF assms(2) takes(4)] reserved_once_set_net [OF assms(3)] by blast
  then show ?thesis using takes(1) by (simp add: reserved_once_def)
next
  case (releases k net mac)
  show ?thesis
  proof (cases rule: release_cases [OF assms(2), of net mac "sy_conn s k"])
    case 1
    then show ?thesis using releases assms(3) by (simp add: at_node_def)
  next
    case (2 n n' ip)
    have "distinct (host_ips n)" using assms(3) 2(1) by (auto simp: reserved_once_def)
    then show ?thesis using releases 2(3) deleted_host_ips(1) [OF 2(2)] reserved_once_set_net [OF assms(3)] by simp
  qed
next
  case (leases k net n ls)
  have "distinct (host_ips (n\<lparr>nt_leases := ls\<rparr>))" using assms(3) leases(2) by (auto simp: reserved_once_def host_ips_def dhcp_hosts_def)
  then show ?thesis using leases(1) reserved_once_set_net [OF assms(3)] by simp
qed (use assms(3) in \<open>simp add: reserved_once_def\<close>)

text \<open>C22: However creations and deletions overlap, on any nodes and whoever answers, no network ever reserves an address twice.\<close>

theorem no_address_reserved_twice:
  assumes "update_laws upd" and "reserved_once s" and "(net_step upd)\<^sup>*\<^sup>* s s'"
    and "map_of (cn_nets (sy_conn s' k)) net = Some n"
  shows "distinct (host_ips n)"
proof -
  have "reserved_once s'"
    using assms(3) by (induction rule: rtranclp_induct) (use assms(1,2) net_step_keeps in blast)+
  then show ?thesis using assms(4) by (auto simp: reserved_once_def)
qed

section \<open>A migration's reservations\<close>

lemma lower_char_idem: "lower_char (lower_char c) = lower_char c"
proof (cases "is_upper c")
  case True
  then have "65 \<le> (of_char c :: nat)" "(of_char c :: nat) \<le> 90" by (auto simp: is_upper_def less_eq_char_def)
  then have "of_char (lower_char c) = (of_char c :: nat) + 32" using True by (simp add: lower_char_def)
  then have "\<not> is_upper (lower_char c)" using \<open>65 \<le> (of_char c :: nat)\<close> by (simp add: is_upper_def less_eq_char_def)
  then show ?thesis by (simp add: lower_char_def)
qed (simp add: lower_char_def)

lemma str_lower_idem [simp]: "str_lower (str_lower s) = str_lower s"
  by (simp add: str_lower_def lower_char_idem)

lemma res_pair_Some: "res_pair h = Some (m, i) \<longleftrightarrow> (\<exists>m'. h_mac h = Some m' \<and> m' \<noteq> [] \<and> m = str_lower m') \<and> h_ip h = Some i \<and> i \<noteq> []"
  by (auto simp: res_pair_def given_Some_iff given_None_iff split: option.splits)

lemma distinct_ips_one_mac:
  assumes "distinct (host_ips n)" and "(m, i) \<in> set (res_pairs n)" and "(m', i) \<in> set (res_pairs n)"
  shows "m = m'"
proof -
  have "distinct (List.map_filter (\<lambda>h. given (h_ip h)) hs) \<Longrightarrow> h \<in> set hs \<Longrightarrow> h' \<in> set hs \<Longrightarrow>
      given (h_ip h) = Some i \<Longrightarrow> given (h_ip h') = Some i \<Longrightarrow> h = h'" for hs :: "host_el list" and h h'
  proof (induction hs)
    case (Cons x hs)
    have "i \<in> set (List.map_filter (\<lambda>h. given (h_ip h)) hs)" if "y \<in> set hs" "given (h_ip y) = Some i" for y
      using that by (auto simp: mem_map_filter)
    with Cons show ?case by (cases "given (h_ip x)") (auto simp: List.map_filter_simps)
  qed simp
  moreover obtain h h' where "h \<in> set (dhcp_hosts n)" "res_pair h = Some (m, i)" "h' \<in> set (dhcp_hosts n)" "res_pair h' = Some (m', i)"
    using assms(2,3) by (auto simp: res_pairs_def mem_map_filter)
  ultimately have "h = h'" using assms(1) unfolding host_ips_def by (auto simp: res_pair_Some given_Some_iff)
  then show ?thesis using \<open>res_pair h = _\<close> \<open>res_pair h' = _\<close> by simp
qed

lemma dict_of_distinct: "distinct (map fst ps) \<Longrightarrow> dict_of ps = ps"
proof (induction ps rule: rev_induct)
  case (snoc p ps)
  then show ?case by (cases p) (simp add: dict_of_snoc dict_set_new)
qed simp

text \<open>What the destination reserves on a network of a name.\<close>

definition pairs_at :: "conn \<Rightarrow> string \<Rightarrow> (string \<times> string) set" where
  "pairs_at c net = (case map_of (cn_nets c) net of None \<Rightarrow> {} | Some n \<Rightarrow> set (res_pairs n))"

lemma added_pairs: "added_to mac ip n n' \<Longrightarrow> mac \<noteq> [] \<Longrightarrow> ip \<noteq> [] \<Longrightarrow> set (res_pairs n') = insert (str_lower mac, ip) (set (res_pairs n))"
  by (auto simp: added_to_def res_pairs_def map_filter_append List.map_filter_simps res_pair_def given_def split: list.splits)

lemma deleted_pairs:
  assumes "deleted_from mac ip n n'"
  shows "set (res_pairs n') \<subseteq> set (res_pairs n)" and "set (res_pairs n) - {(str_lower mac, ip)} \<subseteq> set (res_pairs n')"
  using assms
  by (fastforce simp: deleted_from_def res_pairs_def mem_map_filter res_pair_Some)+

lemma update_host_add:
  assumes "update_laws upd" and "update_host upd Add_last net mac ip c = Some c'" and "mac \<noteq> []" and "ip \<noteq> []"
  shows "pairs_at c' k = (if k = net then insert (str_lower mac, ip) (pairs_at c k) else pairs_at c k)"
  using assms(2) added_pairs [OF update_lawsD(1) [OF assms(1)] assms(3,4)]
  by (auto simp: update_host_def pairs_at_def split: option.splits)

lemma update_host_delete:
  assumes "update_laws upd" and "update_host upd Delete net mac ip c = Some c'"
  shows "pairs_at c' k \<subseteq> pairs_at c k" and "pairs_at c k - (if k = net then {(str_lower mac, ip)} else {}) \<subseteq> pairs_at c' k"
proof -
  obtain n n' where n: "map_of (cn_nets c) net = Some n" "upd Delete mac ip n = Some n'" "c' = set_net net n' c"
    using assms(2) by (auto simp: update_host_def split: option.splits)
  note d = deleted_pairs [OF update_lawsD(2) [OF assms(1) n(2)]]
  show "pairs_at c' k \<subseteq> pairs_at c k" and "pairs_at c k - (if k = net then {(str_lower mac, ip)} else {}) \<subseteq> pairs_at c' k"
    using n(1,3) d by (simp_all add: pairs_at_def)
qed

text \<open>What a plan reserves on a network, and what its MACs hold there instead of their own address.\<close>

definition puts :: "carried list \<Rightarrow> string \<Rightarrow> (string \<times> string) set" where
  "puts plan k = {(mac, ip) | mac ip cur. (k, mac, ip, cur) \<in> set plan}"

definition cuts :: "carried list \<Rightarrow> string \<Rightarrow> (string \<times> string) set" where
  "cuts plan k = {(mac, old) | mac ip old. (k, mac, ip, Some old) \<in> set plan \<and> old \<noteq> ip}"

lemma carried_puts_Cons: "puts ((net, mac, ip, cur) # plan) k = (if k = net then insert (mac, ip) (puts plan k) else puts plan k)"
  by (auto simp: puts_def)

lemma cuts_Cons: "cuts ((net, mac, ip, cur) # plan) k =
    (if k = net \<and> cur \<noteq> Some ip then {(mac, old) | old. cur = Some old} \<union> cuts plan k else cuts plan k)"
  by (auto simp: cuts_def)

definition lower_plan :: "carried list \<Rightarrow> bool" where
  "lower_plan plan \<longleftrightarrow> (\<forall>(net, mac, ip, cur) \<in> set plan. mac \<noteq> [] \<and> ip \<noteq> [] \<and> str_lower mac = mac)"

lemma carry_apply_Cons:
  assumes "update_laws upd" and "lower_plan ((net, mac, ip, cur) # plan)" and "cur \<noteq> Some ip"
    and "carry_apply upd ((net, mac, ip, cur) # plan) mv ad c = (Inr (mv', ad'), c')"
  obtains c2 where "carry_apply upd plan (mv @ [(net, mac)]) (ad @ [(net, mac)]) c2 = (Inr (mv', ad'), c')"
    and "\<forall>k. pairs_at c2 k \<subseteq> pairs_at c k \<union> (if k = net then {(mac, ip)} else {})"
    and "\<forall>k. pairs_at c k - (if k = net then {(mac, old) | old. cur = Some old} else {}) \<subseteq> pairs_at c2 k"
    and "(mac, ip) \<in> pairs_at c2 net"
proof -
  have m: "mac \<noteq> []" "ip \<noteq> []" "str_lower mac = mac" using assms(2) by (auto simp: lower_plan_def)
  obtain c1 where c1: "(case cur of None \<Rightarrow> Some c | Some old \<Rightarrow> update_host upd Delete net mac old c) = Some c1"
    using assms(3,4) by (auto split: option.splits)
  then obtain c2 where c2: "update_host upd Add_last net mac ip c1 = Some c2"
    using assms(3,4) by (cases "update_host upd Add_last net mac ip c1") auto
  have "pairs_at c1 k \<subseteq> pairs_at c k
      \<and> pairs_at c k - (if k = net then {(mac, old) | old. cur = Some old} else {}) \<subseteq> pairs_at c1 k" for k
  proof (cases cur)
    case None
    then show ?thesis using c1 by auto
  next
    case (Some old)
    then have "update_host upd Delete net mac old c = Some c1" using c1 by simp
    from update_host_delete [OF assms(1) this, of k] show ?thesis using m(3) Some by (simp split: if_splits)
  qed
  then have up1: "pairs_at c1 k \<subseteq> pairs_at c k"
    and lo1: "pairs_at c k - (if k = net then {(mac, old) | old. cur = Some old} else {}) \<subseteq> pairs_at c1 k" for k
    by blast+
  have p2: "pairs_at c2 k = (if k = net then insert (mac, ip) (pairs_at c1 k) else pairs_at c1 k)" for k
    using update_host_add [OF assms(1) c2 m(1,2)] m(3) by simp
  show thesis
  proof (rule that)
    show "carry_apply upd plan (mv @ [(net, mac)]) (ad @ [(net, mac)]) c2 = (Inr (mv', ad'), c')"
      using assms(3,4) c1 c2 by simp
    show "\<forall>k. pairs_at c2 k \<subseteq> pairs_at c k \<union> (if k = net then {(mac, ip)} else {})"
      using up1 p2 by auto
    show "\<forall>k. pairs_at c k - (if k = net then {(mac, old) | old. cur = Some old} else {}) \<subseteq> pairs_at c2 k"
    proof
      show "pairs_at c k - (if k = net then {(mac, old) | old. cur = Some old} else {}) \<subseteq> pairs_at c2 k" for k
        using lo1 [of k] p2 [of k] by (auto split: if_splits)
    qed
    show "(mac, ip) \<in> pairs_at c2 net" using p2 [of net] by simp
  qed
qed

text \<open>The changes of a plan: nothing appears but what it reserves, nothing goes but what its MACs held instead.\<close>

lemma carry_apply_effect:
  assumes "update_laws upd" and "lower_plan plan" and "carry_apply upd plan mv ad c = (Inr (mv', ad'), c')"
  shows "mv' = mv @ map (\<lambda>(net, mac, _). (net, mac)) plan \<and> pairs_at c' k \<subseteq> pairs_at c k \<union> puts plan k
    \<and> pairs_at c k - cuts plan k \<subseteq> pairs_at c' k
    \<and> (\<forall>mac ip cur. (k, mac, ip, cur) \<in> set plan \<and> cur \<noteq> Some ip \<and> (mac, ip) \<notin> cuts plan k \<longrightarrow> (mac, ip) \<in> pairs_at c' k)"
  using assms(2,3)
proof (induction plan arbitrary: mv ad c)
  case Nil
  then show ?case by (simp add: cuts_def)
next
  case (Cons e plan)
  obtain net mac ip cur where e: "e = (net, mac, ip, cur)" by (cases e)
  have rest: "lower_plan plan" using Cons.prems(1) by (simp add: lower_plan_def)
  show ?case
  proof (cases "cur = Some ip")
    case True
    then have "carry_apply upd plan (mv @ [(net, mac)]) ad c = (Inr (mv', ad'), c')" using Cons.prems(2) e by simp
    note ih = Cons.IH [OF rest this]
    have "cuts (e # plan) k = cuts plan k" using e True by (simp add: cuts_Cons)
    moreover have "puts plan k \<subseteq> puts (e # plan) k" using e by (auto simp: carried_puts_Cons)
    ultimately have "pairs_at c' k \<subseteq> pairs_at c k \<union> puts (e # plan) k" "pairs_at c k - cuts (e # plan) k \<subseteq> pairs_at c' k"
      using ih by blast+
    moreover have "(m, i) \<in> pairs_at c' k" if "(k, m, i, u) \<in> set (e # plan)" "u \<noteq> Some i" "(m, i) \<notin> cuts (e # plan) k" for m i u
    proof -
      have "(k, m, i, u) \<in> set plan" using that(1,2) e True by auto
      then show ?thesis using ih that(2,3) \<open>cuts (e # plan) k = cuts plan k\<close> by blast
    qed
    moreover have "mv' = mv @ map (\<lambda>(net, mac, _). (net, mac)) (e # plan)" using ih e by simp
    ultimately show ?thesis by blast
  next
    case False
    obtain c2 where c2: "carry_apply upd plan (mv @ [(net, mac)]) (ad @ [(net, mac)]) c2 = (Inr (mv', ad'), c')"
      "\<forall>k. pairs_at c2 k \<subseteq> pairs_at c k \<union> (if k = net then {(mac, ip)} else {})"
      "\<forall>k. pairs_at c k - (if k = net then {(mac, old) | old. cur = Some old} else {}) \<subseteq> pairs_at c2 k"
      "(mac, ip) \<in> pairs_at c2 net"
      by (blast intro: carry_apply_Cons [OF assms(1) Cons.prems(1) [unfolded e] False Cons.prems(2) [unfolded e]])
    note ih = Cons.IH [OF rest c2(1)]
    have cuts: "cuts (e # plan) k = (if k = net then {(mac, old) | old. cur = Some old} else {}) \<union> cuts plan k"
      using e False by (simp add: cuts_Cons)
    have puts: "puts (e # plan) k = (if k = net then {(mac, ip)} else {}) \<union> puts plan k"
      using e by (simp add: carried_puts_Cons)
    have "pairs_at c' k \<subseteq> pairs_at c k \<union> puts (e # plan) k" using ih spec [OF c2(2), of k] puts by blast
    moreover have "pairs_at c k - cuts (e # plan) k \<subseteq> pairs_at c' k" using ih spec [OF c2(3), of k] cuts by blast
    moreover have "(m, i) \<in> pairs_at c' k" if "(k, m, i, u) \<in> set (e # plan)" "u \<noteq> Some i" "(m, i) \<notin> cuts (e # plan) k" for m i u
    proof -
      have "(m, i) \<notin> cuts plan k" using that(3) cuts by blast
      then show ?thesis using that(1,2) e ih c2(4) by (cases "(k, m, i, u) \<in> set plan") (blast, auto)
    qed
    moreover have "mv' = mv @ map (\<lambda>(net, mac, _). (net, mac)) (e # plan)" using ih e by simp
    ultimately show ?thesis by blast
  qed
qed

lemma carry_plan_mem:
  assumes "carry_plan src dest ps = Inr plan" and "(k, mac, ip, cur) \<in> set plan"
  obtains s d where "(k, mac) \<in> set ps" "map_of (cn_nets src) k = Some s" "map_of (cn_nets dest) k = Some d"
    "map_of (reservations s) mac = Some ip" "other_holder ip mac d = Inr None" "cur = map_of (reservations d) mac"
proof -
  have "\<exists>s d. (k, mac) \<in> set ps \<and> map_of (cn_nets src) k = Some s \<and> map_of (cn_nets dest) k = Some d
    \<and> map_of (reservations s) mac = Some ip \<and> other_holder ip mac d = Inr None \<and> cur = map_of (reservations d) mac"
    using assms
  proof (induction ps arbitrary: plan)
    case (Cons p ps)
    obtain net m where p: "p = (net, m)" by (cases p)
    show ?case
    proof (cases "carry_plan src dest ps = Inr plan")
      case True
      then show ?thesis using Cons by fastforce
    next
      case False
      then show ?thesis using Cons p
        by (fastforce simp: rbind_Inr_iff split: option.splits if_splits)
    qed
  qed simp
  then show thesis using that by blast
qed

lemma domain_interfaces_lower: "(k, mac) \<in> set (domain_interfaces ifs) \<Longrightarrow> mac \<noteq> [] \<and> str_lower mac = mac"
proof -
  assume "(k, mac) \<in> set (domain_interfaces ifs)"
  then obtain i :: iface where "(case (given (if_network i), given (if_mac i)) of (Some n, Some m) \<Rightarrow> Some (n, str_lower m) | _ \<Rightarrow> None) = Some (k, mac)"
    unfolding domain_interfaces_def mem_map_filter by blast
  then obtain m where "given (if_mac i) = Some m" "mac = str_lower m"
    by (cases "given (if_network i)"; cases "given (if_mac i)") auto
  then show ?thesis by (auto simp: given_Some_iff str_lower_def lower_char_idem)
qed

lemma reservations_pair: "map_of (reservations n) mac = Some ip \<Longrightarrow> (mac, ip) \<in> set (res_pairs n)"
  unfolding reservations_def by (rule dict_of_mem) (rule map_of_SomeD)

lemma res_pairs_not_Nil: "(m, i) \<in> set (res_pairs n) \<Longrightarrow> i \<noteq> []"
  by (auto simp: res_pairs_def mem_map_filter res_pair_Some)

lemma other_holder_None:
  assumes "other_holder ip mac d = Inr None" and "distinct (map fst (res_pairs d))" and "(m, ip) \<in> set (res_pairs d)"
  shows "m = mac"
  using assms by (auto simp: other_holder_def reservations_def dict_of_distinct Let_def find_None_iff split: option.splits)


lemma carry_plan_refused:
  "carry_plan src dest ps = Inl (Address_in_use ip net who) \<Longrightarrow>
   \<exists>d mac. map_of (cn_nets dest) net = Some d \<and> other_holder ip mac d = Inr (Some who)"
proof (induction ps)
  case (Cons p ps)
  obtain k m where p: "p = (k, m)" by (cases p)
  show ?case
  proof (cases "carry_plan src dest ps = Inl (Address_in_use ip net who)")
    case True
    then show ?thesis by (rule Cons.IH)
  next
    case False
    have "other_holder i m d \<noteq> Inl (Address_in_use a b c)" for i m d a b c
      by (simp add: other_holder_def Let_def split: option.split)
    then show ?thesis using Cons.prems p False
      by (auto simp: rbind_Inl_iff split: option.splits if_splits)
  qed
qed simp

lemma carry_apply_error: "carry_apply upd plan mv ad c = (Inl e, c') \<Longrightarrow> e = Libvirt_error"
  by (induction plan arbitrary: mv ad c) (auto split: if_splits option.splits)

lemma other_holder_Some:
  assumes "other_holder ip mac d = Inr (Some who)"
  shows "(who, ip) \<in> set (res_pairs d)
    \<or> (\<exists>ls l. nt_leases d = Some ls \<and> l \<in> set ls \<and> snd l = Some ip \<and> str_lower (or_empty (fst l)) = who)"
proof (cases "find (\<lambda>(m, a). a = ip \<and> m \<noteq> mac) (reservations d)")
  case None
  then obtain ls l where "nt_leases d = Some ls" and l: "find (\<lambda>l. snd l = Some ip \<and> str_lower (or_empty (fst l)) \<noteq> mac) ls = Some l"
    and "given (Some (str_lower (or_empty (fst l)))) = Some who"
    using assms by (auto simp: other_holder_def Let_def split: option.splits)
  moreover have "l \<in> set ls" "snd l = Some ip" using l by (auto simp: find_Some_iff)
  ultimately show ?thesis unfolding given_Some_iff by (metis option.inject)
next
  case (Some p)
  moreover from this have "p \<in> set (reservations d)" "snd p = ip" by (auto simp: find_Some_iff dest!: nth_mem)
  moreover have "fst p = who" using assms Some by (auto simp: other_holder_def Let_def split: option.splits prod.splits)
  ultimately have "(who, ip) \<in> set (reservations d)" by (cases p) auto
  then show ?thesis by (auto simp: reservations_def dest: dict_of_mem)
qed

text \<open>A migration refused because of an address changes nothing, and the machine it names does hold that address there.\<close>

theorem refusal_changes_nothing:
  assumes "carry_reservations upd src dest ifs = (Inl (Address_in_use ip net who), dest')"
  shows "dest' = dest \<and> (\<exists>d. map_of (cn_nets dest) net = Some d
    \<and> ((who, ip) \<in> set (res_pairs d) \<or> (\<exists>ls l. nt_leases d = Some ls \<and> l \<in> set ls \<and> snd l = Some ip \<and> str_lower (or_empty (fst l)) = who)))"
proof -
  have plan: "carry_plan src dest (domain_interfaces ifs) = Inl (Address_in_use ip net who)" and "dest' = dest"
    using assms by (auto simp: carry_reservations_def split: sum.splits dest: carry_apply_error)
  then show ?thesis using carry_plan_refused [OF plan] other_holder_Some by blast
qed

section \<open>On a libvirt that accepts every change\<close>

text \<open>Reservations are added at the end of the first subnet, and deleted from it.\<close>

fun without_host :: "string \<Rightarrow> string \<Rightarrow> host_el list \<Rightarrow> host_el list option" where
  "without_host mac ip [] = None"
| "without_host mac ip (h # hs) =
     (if map_option str_lower (h_mac h) = Some (str_lower mac) \<and> h_ip h = Some ip then Some hs
      else map_option (Cons h) (without_host mac ip hs))"

definition one_subnet :: update where
  "one_subnet cmd mac ip n = (case nt_ips n of
     [] \<Rightarrow> None
   | e # es \<Rightarrow> (case cmd of
       Add_last \<Rightarrow> Some (n\<lparr>nt_ips := e\<lparr>ip_hosts := ip_hosts e @ [\<lparr>h_mac = Some mac, h_ip = Some ip\<rparr>]\<rparr> # es\<rparr>)
     | Delete \<Rightarrow> map_option (\<lambda>hs. n\<lparr>nt_ips := e\<lparr>ip_hosts := hs\<rparr> # es\<rparr>) (without_host mac ip (ip_hosts e))))"

lemma without_host_Some:
  "without_host mac ip hs = Some hs' \<Longrightarrow>
   \<exists>a h b. hs = a @ h # b \<and> hs' = a @ b \<and> map_option str_lower (h_mac h) = Some (str_lower mac) \<and> h_ip h = Some ip"
proof (induction hs arbitrary: hs')
  case (Cons x hs)
  show ?case
  proof (cases "map_option str_lower (h_mac x) = Some (str_lower mac) \<and> h_ip x = Some ip")
    case True
    then show ?thesis using Cons.prems by (intro exI [of _ "[]"] exI [of _ x] exI [of _ hs]) auto
  next
    case False
    then obtain ys where "without_host mac ip hs = Some ys" "hs' = x # ys" using Cons.prems by (auto split: if_splits)
    then show ?thesis using Cons.IH by (metis append_Cons)
  qed
qed simp

lemma one_subnet_laws: "update_laws one_subnet"
proof -
  have "added_to mac ip n n'" if ok: "one_subnet Add_last mac ip n = Some n'" for mac ip n n'
  proof -
    obtain e es where "nt_ips n = e # es" and n': "n' = n\<lparr>nt_ips := e\<lparr>ip_hosts := ip_hosts e @ [\<lparr>h_mac = Some mac, h_ip = Some ip\<rparr>]\<rparr> # es\<rparr>"
      using ok by (auto simp: one_subnet_def split: list.splits)
    then have "dhcp_hosts n = ip_hosts e @ concat (map ip_hosts es)"
      "dhcp_hosts n' = ip_hosts e @ \<lparr>h_mac = Some mac, h_ip = Some ip\<rparr> # concat (map ip_hosts es)" "skeleton n' = skeleton n"
      by (simp_all add: dhcp_hosts_def skeleton_def)
    then show ?thesis unfolding added_to_def by blast
  qed
  moreover have "deleted_from mac ip n n'" if ok: "one_subnet Delete mac ip n = Some n'" for mac ip n n'
  proof -
    obtain e es hs where "nt_ips n = e # es" and w: "without_host mac ip (ip_hosts e) = Some hs" and "n' = n\<lparr>nt_ips := e\<lparr>ip_hosts := hs\<rparr> # es\<rparr>"
      using ok by (auto simp: one_subnet_def split: list.splits)
    moreover obtain a h b where "ip_hosts e = a @ h # b" "hs = a @ b" "map_option str_lower (h_mac h) = Some (str_lower mac)" "h_ip h = Some ip"
      using without_host_Some [OF w] by blast
    ultimately have "dhcp_hosts n = a @ h # (b @ concat (map ip_hosts es))" "dhcp_hosts n' = a @ (b @ concat (map ip_hosts es))"
      "skeleton n' = skeleton n" "map_option str_lower (h_mac h) = Some (str_lower mac)" "h_ip h = Some ip"
      by (simp_all add: dhcp_hosts_def skeleton_def)
    then show ?thesis unfolding deleted_from_def by blast
  qed
  ultimately show ?thesis by (simp add: update_laws_def)
qed

text \<open>A small NAT network with given reservations, and a node that has it.\<close>

definition nat_net :: "host_el list \<Rightarrow> network" where
  "nat_net hs = \<lparr>nt_ips = [\<lparr>ip_family = None, ip_address = Some ''10.0.0.1'', ip_prefix = Some ''24'', ip_netmask = None,
      ip_range = Some (Some ''10.0.0.2'', Some ''10.0.0.4''), ip_hosts = hs\<rparr>], nt_leases = Some []\<rparr>"

definition nat_conn :: "host_el list \<Rightarrow> conn" where
  "nat_conn hs = \<lparr>cn_domains = [], cn_nets = [(''nat'', nat_net hs)]\<rparr>"

abbreviation reserved :: "string \<Rightarrow> string \<Rightarrow> host_el" where
  "reserved mac ip \<equiv> \<lparr>h_mac = Some mac, h_ip = Some ip\<rparr>"

lemmas nat_simps = nat_conn_def nat_net_def allocate_static_ip_def alloc_reads_def alloc_takes_def dhcp_range_def ipv4_family_def
  ipv4_address_def used_ips_def host_ips_def dhcp_hosts_def cluster_used_ips_def one_subnet_def set_net_def
  List.map_filter_def given_def

lemma small_addresses:
  "ipv4_ok ''10.0.0.2''" "ipv4_ok ''10.0.0.4''" "ipv4_number ''10.0.0.2'' = 167772162" "ipv4_number ''10.0.0.4'' = 167772164"
  "ipv4_text 167772162 = ''10.0.0.2''" "ipv4_text 167772163 = ''10.0.0.3''" "ipv4_text 167772164 = ''10.0.0.4''"
  by (simp_all add: ipv4_ok_def octet_ok_def ipv4_number_def ipv4_text_def str_of_nat.simps digit_char_def nat_of_digits_def digit_value_def
      str_isdigit_def is_digit_def less_eq_char_def Let_def char_of_def bit_0)

lemma small_range: "[167772162..<167772165] = [167772162, 167772163, 167772164 :: nat]"
  by (simp add: upt_rec)

abbreviation mac1 :: string where "mac1 \<equiv> ''52:54:00:00:00:01''"
abbreviation mac2 :: string where "mac2 \<equiv> ''52:54:00:00:00:02''"

theorem allocated_address_is_free_witness:
  "allocate_static_ip one_subnet (Some [''b'']) (\<lambda>k. if k = None then Some (nat_conn [reserved mac1 ''10.0.0.2'']) else Some (nat_conn [reserved mac2 ''10.0.0.3'']))
     ''nat'' ''52:54:00:00:00:03'' True (nat_conn [reserved mac1 ''10.0.0.2'']) =
     (Inr (Some ''10.0.0.4''), nat_conn [reserved mac1 ''10.0.0.2'', reserved ''52:54:00:00:00:03'' ''10.0.0.4''])
   \<and> \<not> holds_ip (nat_net [reserved mac2 ''10.0.0.3'']) ''10.0.0.4''"
proof -
  let ?a = "nat_conn [reserved mac1 ''10.0.0.2'']" and ?b = "nat_conn [reserved mac2 ''10.0.0.3'']"
  let ?opens = "\<lambda>k :: string option. if k = None then Some ?a else Some ?b"
  have al: "allocate_static_ip one_subnet (Some [''b'']) ?opens ''nat'' ''52:54:00:00:00:03'' True ?a =
     (Inr (Some ''10.0.0.4''), nat_conn [reserved mac1 ''10.0.0.2'', reserved ''52:54:00:00:00:03'' ''10.0.0.4''])"
    by (simp add: nat_simps small_addresses small_range)
  have "answered (Some [''b'']) ?opens ''nat'' (nat_net [reserved mac2 ''10.0.0.3''])"
    unfolding answered_def by (intro exI [of _ "Some ''b''"] exI [of _ ?b]) (simp add: nat_conn_def nat_net_def)
  then show ?thesis using allocated_address_is_free [OF one_subnet_laws al] al by auto
qed

theorem lowest_free_address_witness:
  "fst (allocate_static_ip (\<lambda>_ _ _ n. Some n) (Some []) (\<lambda>_. None) ''nat'' mac2 False (nat_conn [reserved mac1 ''10.0.0.2''])) = Inr (Some ''10.0.0.3'')"
proof -
  have "map_of (cn_nets (nat_conn [reserved mac1 ''10.0.0.2''])) ''nat'' = Some (nat_net [reserved mac1 ''10.0.0.2''])"
    "dhcp_range (nat_net [reserved mac1 ''10.0.0.2'']) = Some (Some ''10.0.0.2'', Some ''10.0.0.4'')" "nt_leases (nat_net [reserved mac1 ''10.0.0.2'']) \<noteq> None"
    by (simp_all add: nat_conn_def nat_net_def dhcp_range_def ipv4_family_def)
  from lowest_free_address [OF _ this(1,2) small_addresses(1,2) this(3), where upd = "\<lambda>_ _ _ n. Some n"]
  show ?thesis by (simp add: small_addresses small_range holds_ip_def nat_net_def host_ips_def dhcp_hosts_def List.map_filter_def given_def)
qed

text \<open>Two creations on one node that both read before either takes the lock.\<close>

definition two_waiting :: net_sys where
  "two_waiting = \<lparr>sy_conn = (\<lambda>_. nat_conn []), sy_waiting =
     [(''a'', ''nat'', mac1, (Some ''10.0.0.2'', Some ''10.0.0.4''), []), (''a'', ''nat'', mac2, (Some ''10.0.0.2'', Some ''10.0.0.4''), [])]\<rparr>"

lemma nat_take:
  "alloc_takes one_subnet mac1 (Some ''10.0.0.2'', Some ''10.0.0.4'') [] (nat_net []) = (Inr (Some ''10.0.0.2''), nat_net [reserved mac1 ''10.0.0.2''])"
  "alloc_takes one_subnet mac2 (Some ''10.0.0.2'', Some ''10.0.0.4'') [] (nat_net []) = (Inr (Some ''10.0.0.2''), nat_net [reserved mac2 ''10.0.0.2''])"
  "alloc_takes one_subnet mac2 (Some ''10.0.0.2'', Some ''10.0.0.4'') [] (nat_net [reserved mac1 ''10.0.0.2'']) =
     (Inr (Some ''10.0.0.3''), nat_net [reserved mac1 ''10.0.0.2'', reserved mac2 ''10.0.0.3''])"
  by (simp_all add: nat_simps small_addresses small_range)

lemma nat_lookup: "map_of (cn_nets (nat_conn hs)) ''nat'' = Some (nat_net hs)" "set_net ''nat'' (nat_net hs') (nat_conn hs) = nat_conn hs'"
  by (simp_all add: nat_conn_def set_net_def)

lemma nat_reads:
  "alloc_reads (Some [''a'', ''b'']) opens ''nat'' True (nat_conn hs) = Inr (Some ((Some ''10.0.0.2'', Some ''10.0.0.4''), cluster_used_ips (Some [''a'', ''b'']) opens ''nat''))"
  by (simp add: alloc_reads_def nat_lookup) (simp add: nat_net_def dhcp_range_def ipv4_family_def)

theorem no_address_reserved_twice_witness:
  "distinct (host_ips (nat_net [reserved mac1 ''10.0.0.2'', reserved mac2 ''10.0.0.3'']))"
proof -
  have "reserved_once two_waiting"
    by (auto simp: reserved_once_def two_waiting_def nat_conn_def nat_net_def host_ips_def dhcp_hosts_def List.map_filter_def split: if_splits)
  define s1 where "s1 = \<lparr>sy_conn = (\<lambda>k. if k = ''a'' then nat_conn [reserved mac1 ''10.0.0.2''] else nat_conn []),
    sy_waiting = [(''a'', ''nat'', mac2, (Some ''10.0.0.2'', Some ''10.0.0.4''), [] :: string list)]\<rparr>"
  define s2 where "s2 = \<lparr>sy_conn = (\<lambda>k. if k = ''a'' then nat_conn [reserved mac1 ''10.0.0.2'', reserved mac2 ''10.0.0.3''] else nat_conn []),
    sy_waiting = []\<rparr>"
  have "net_step one_subnet two_waiting s1"
    using net_step.takes [where s = two_waiting and ws = "[]" and upd = one_subnet and k = "''a''" and net = "''nat''", OF _ _ nat_take(1)]
    by (simp add: two_waiting_def nat_lookup s1_def at_node_def fun_eq_iff cong: if_cong) (simp add: fun_upd_def)
  moreover have "net_step one_subnet s1 s2"
    using net_step.takes [where s = s1 and ws = "[]" and upd = one_subnet and k = "''a''" and net = "''nat''", OF _ _ nat_take(3)]
    by (simp add: s1_def nat_lookup s2_def at_node_def fun_upd_def cong: if_cong)
  ultimately have "(net_step one_subnet)\<^sup>*\<^sup>* two_waiting s2" by simp
  from no_address_reserved_twice [OF one_subnet_laws \<open>reserved_once two_waiting\<close> this, of "''a''" "''nat''"]
  show ?thesis by (simp add: s2_def nat_lookup)
qed

definition nat_vm :: "iface list" where
  "nat_vm = [\<lparr>if_network = Some ''nat'', if_mac = Some mac1\<rparr>]"

lemma mac_lower: "str_lower mac1 = mac1" "str_lower mac2 = mac2"
  by (simp_all add: str_lower_def lower_char_def is_upper_def less_eq_char_def)

lemma nat_vm_interfaces: "domain_interfaces nat_vm = [(''nat'', mac1)]"
  by (simp add: domain_interfaces_def nat_vm_def List.map_filter_def given_def mac_lower)

lemma nat_reservations:
  "reservations (nat_net []) = []" "reservations (nat_net [reserved mac1 ''10.0.0.2'']) = [(mac1, ''10.0.0.2'')]"
  "reservations (nat_net [reserved mac2 ''10.0.0.2'']) = [(mac2, ''10.0.0.2'')]" "reservations (nat_net [reserved mac2 ''10.0.0.3'']) = [(mac2, ''10.0.0.3'')]"
  by (simp_all add: reservations_def res_pairs_def res_pair_def nat_net_def dhcp_hosts_def List.map_filter_def given_def mac_lower dict_of_def)

lemma nat_net_facts:
  "dhcp_range (nat_net hs) = Some (Some ''10.0.0.2'', Some ''10.0.0.4'')" "nt_leases (nat_net hs) = Some []"
  "one_subnet Add_last m i (nat_net hs) = Some (nat_net (hs @ [reserved m i]))"
  by (simp_all add: nat_net_def dhcp_range_def ipv4_family_def one_subnet_def)

lemmas carry_simps = carry_reservations_def nat_vm_interfaces nat_lookup nat_reservations nat_net_facts other_holder_def update_host_def

lemma nat_carry: "carry_reservations one_subnet (nat_conn [reserved mac1 ''10.0.0.2'']) (nat_conn [reserved mac2 ''10.0.0.3'']) nat_vm =
    (Inr ([(''nat'', mac1)], [(''nat'', mac1)]), nat_conn [reserved mac2 ''10.0.0.3'', reserved mac1 ''10.0.0.2''])"
  by (simp add: carry_simps)


theorem refusal_changes_nothing_witness:
  "carry_reservations one_subnet (nat_conn [reserved mac1 ''10.0.0.2'']) (nat_conn [reserved mac2 ''10.0.0.2'']) nat_vm =
     (Inl (Address_in_use ''10.0.0.2'' ''nat'' mac2), nat_conn [reserved mac2 ''10.0.0.2''])
   \<and> (mac2, ''10.0.0.2'') \<in> set (res_pairs (nat_net [reserved mac2 ''10.0.0.2'']))"
proof -
  have r: "carry_reservations one_subnet (nat_conn [reserved mac1 ''10.0.0.2'']) (nat_conn [reserved mac2 ''10.0.0.2'']) nat_vm =
     (Inl (Address_in_use ''10.0.0.2'' ''nat'' mac2), nat_conn [reserved mac2 ''10.0.0.2''])"
    by (simp add: carry_simps)
  then show ?thesis using refusal_changes_nothing [OF r] by (simp add: nat_lookup) (simp add: nat_net_def)
qed

section \<open>What is not kept\<close>

text \<open>Creations on two nodes that read each other's addresses before either reserves: both VMs get the same address, though every node
  answered. The lock is one process's.\<close>

theorem two_nodes_give_the_same_address:
  "\<exists>s. (net_step one_subnet)\<^sup>*\<^sup>* \<lparr>sy_conn = (\<lambda>_. nat_conn []), sy_waiting = []\<rparr> s
     \<and> sy_conn s ''a'' = nat_conn [reserved mac1 ''10.0.0.2''] \<and> sy_conn s ''b'' = nat_conn [reserved mac2 ''10.0.0.2'']"
proof -
  let ?r = "(Some ''10.0.0.2'', Some ''10.0.0.4'') :: string option \<times> string option"
  define s0 where "s0 = \<lparr>sy_conn = (\<lambda>_. nat_conn []), sy_waiting = []\<rparr>"
  define s1 where "s1 = s0\<lparr>sy_waiting := [(''a'', ''nat'', mac1, ?r, [])]\<rparr>"
  define s2 where "s2 = s0\<lparr>sy_waiting := [(''a'', ''nat'', mac1, ?r, []), (''b'', ''nat'', mac2, ?r, [])]\<rparr>"
  define s3 where "s3 = (at_node ''a'' (nat_conn [reserved mac1 ''10.0.0.2'']) s0)\<lparr>sy_waiting := [(''b'', ''nat'', mac2, ?r, [])]\<rparr>"
  define s4 where "s4 = (at_node ''b'' (nat_conn [reserved mac2 ''10.0.0.2'']) s3)\<lparr>sy_waiting := []\<rparr>"
  have "used_ips (nat_net []) = Inr []" by (simp add: nat_simps)
  then have none: "cluster_used_ips (Some [''a'', ''b'']) (reached me [''a'', ''b''] s) ''nat'' = []" if "sy_conn s = (\<lambda>_. nat_conn [])" for s me
    using that by (simp add: cluster_used_ips_def reached_def nat_lookup)
  have "net_step one_subnet s0 s1"
    using net_step.asks [of "Some [''a'', ''b'']" "''a''" "[''a'', ''b'']" s0 "''nat''" True "''a''" ?r "[]" one_subnet mac1] none [of s0]
    by (simp add: nat_reads s0_def s1_def)
  moreover have "net_step one_subnet s1 s2"
    using net_step.asks [of "Some [''a'', ''b'']" "''b''" "[''a'', ''b'']" s1 "''nat''" True "''b''" ?r "[]" one_subnet mac2] none [of s1]
    by (simp add: nat_reads s0_def s1_def s2_def)
  moreover have "net_step one_subnet s2 s3"
    using net_step.takes [where s = s2 and ws = "[]" and upd = one_subnet and k = "''a''" and net = "''nat''", OF _ _ nat_take(1)]
    by (simp add: s2_def s0_def nat_lookup s3_def at_node_def)
  moreover have "net_step one_subnet s3 s4"
    using net_step.takes [where s = s3 and ws = "[]" and upd = one_subnet and k = "''b''" and net = "''nat''", OF _ _ nat_take(2)]
    by (simp add: s3_def s0_def nat_lookup s4_def at_node_def)
  ultimately have "(net_step one_subnet)\<^sup>*\<^sup>* s0 s4" by simp
  moreover have "sy_conn s4 ''a'' = nat_conn [reserved mac1 ''10.0.0.2'']" "sy_conn s4 ''b'' = nat_conn [reserved mac2 ''10.0.0.2'']"
    by (simp_all add: s4_def s3_def s0_def at_node_def)
  ultimately show ?thesis unfolding s0_def by blast
qed

text \<open>A migration refused by libvirt takes its reservations back; one that stops before the move (a CD-ROM not copied, a cancellation)
  leaves them on a destination the VM never reached.\<close>

theorem stopped_migration_keeps_the_address:
  "migrate_addresses one_subnet Fails (nat_conn [reserved mac1 ''10.0.0.2'']) (nat_conn []) nat_vm = (nat_conn [reserved mac1 ''10.0.0.2''], nat_conn [])
   \<and> migrate_addresses one_subnet Stops (nat_conn [reserved mac1 ''10.0.0.2'']) (nat_conn []) nat_vm =
       (nat_conn [reserved mac1 ''10.0.0.2''], nat_conn [reserved mac1 ''10.0.0.2''])"
proof -
  have c: "carry_reservations one_subnet (nat_conn [reserved mac1 ''10.0.0.2'']) (nat_conn []) nat_vm =
      (Inr ([(''nat'', mac1)], [(''nat'', mac1)]), nat_conn [reserved mac1 ''10.0.0.2''])"
    by (simp add: carry_simps)
  have "release_reservations one_subnet [(''nat'', mac1)] (nat_conn [reserved mac1 ''10.0.0.2'']) = nat_conn []"
    by (simp add: release_reservations_def release_static_ip_def nat_lookup) (simp add: nat_simps or_empty_def mac_lower)
  then show ?thesis using c by (simp add: migrate_addresses_def)
qed

text \<open>A MAC reserved on an inactive network is not seen: the network raises on its leases before its reservations are read.\<close>

theorem inactive_reservations_are_not_seen:
  "generate_mac (\<lambda>_. (0, 0, 1)) \<lparr>cn_domains = [], cn_nets = [(''nat'', (nat_net [reserved mac1 ''10.0.0.2''])\<lparr>nt_leases := None\<rparr>)]\<rparr> = Inr mac1"
  by (simp add: generate_mac_def macs_in_use_def mac_text_def hex2_def hex_digit_def digit_char_def char_of_def bit_0 upt_rec)

end
