(* ===== verification/Jobs.thy ===== *)
theory Jobs
  imports Task_Props Py_Text
begin

text \<open>
  The automation jobs (\<^verbatim>\<open>app/core/jobs.py\<close>, \<^verbatim>\<open>app/services/automation_service.py\<close>,
  \<^verbatim>\<open>app/repositories/sqlite/automation.py\<close>): a job is a sequence of shell commands, a run expands it over its target VMs, asks
  the privileged daemon for each step in turn and stops at the first that fails; its task, its row, its step logs and the audit
  log record it.

  The daemon is not asked about here: \<open>daemon\<close> answers the n-th step asked since the start with an error or with what the command
  printed and its exit code. \<open>asks\<close> says who asks for the run's cancellation before each step, \<open>trouble\<close> which step the store
  fails to record; the text of an exception is a parameter. Dates and the columns shown only are left out.
\<close>

section \<open>Jobs, runs and their tables\<close>

record step =
  st_position :: nat
  st_target_type :: string
  st_target :: "string option"
  st_command :: string
  st_condition_type :: string
  st_condition_value :: "string option"

record job =
  jb_name :: string
  jb_description :: "string option"
  jb_predefined :: "string option"
  jb_steps :: "step list"

record job_run =
  rn_job :: nat
  rn_task :: string
  rn_dry :: bool
  rn_targets :: "string list"
  rn_status :: string
  rn_result :: "string option"

record step_log =
  lg_run :: string
  lg_position :: nat
  lg_target :: "string option"
  lg_command :: string
  lg_stdout :: string
  lg_stderr :: string
  lg_exit :: int
  lg_succeeded :: bool

text \<open>\<open>au_asked\<close>: the commands the daemon was asked to run, in order; \<open>au_audit\<close>: user, action, object, result, details.\<close>

record automation =
  au_world :: world
  au_jobs :: "(nat, job) dict"
  au_seq :: nat
  au_runs :: "(string, job_run) dict"
  au_logs :: "step_log list"
  au_audit :: "(string \<times> string \<times> string \<times> string \<times> string) list"
  au_asked :: "(string \<times> string option \<times> string) list"

type_synonym answer = "string + string \<times> string \<times> int"
type_synonym daemon = "nat \<Rightarrow> string \<times> string option \<times> string \<Rightarrow> answer"

definition LB_PREDEFINED_KEY :: string where "LB_PREDEFINED_KEY = ''deploy_load_balancing''"

definition STEP_TYPES :: "string list" where "STEP_TYPES = [''vm'', ''host'', ''each_target'']"

section \<open>Managing jobs\<close>

datatype job_error = Job_not_found | Job_invalid | Job_exists | Job_protected | Integrity

text \<open>The table's rules: a step's kind and its condition's kind are checked.\<close>

definition step_row_ok :: "step \<Rightarrow> bool" where
  "step_row_ok s \<longleftrightarrow> st_target_type s \<in> set STEP_TYPES \<and> st_condition_type s \<in> {''exit_code'', ''stdout_contains''}"

definition number_steps :: "step list \<Rightarrow> step list" where
  "number_steps steps = map (\<lambda>(i, s). s\<lparr>st_position := i\<rparr>) (List.enumerate 0 steps)"

text \<open>AUTOINCREMENT: the row's id is one more than the largest ever given; what fails is not committed.\<close>

definition store_create_job :: "string \<Rightarrow> string option \<Rightarrow> step list \<Rightarrow> automation \<Rightarrow> (job_error + nat) \<times> automation" where
  "store_create_job name description steps s =
     (if name \<in> jb_name ` snd ` set (au_jobs s) then (Inl Job_exists, s)
      else if \<not> list_all step_row_ok steps then (Inl Integrity, s)
      else let i = au_seq s + 1 in
        (Inr i, s\<lparr>au_jobs := dict_set i \<lparr>jb_name = name, jb_description = description, jb_predefined = None, jb_steps = number_steps steps\<rparr> (au_jobs s), au_seq := i\<rparr>))"

definition create_job :: "string \<Rightarrow> string option \<Rightarrow> step list \<Rightarrow> automation \<Rightarrow> (job_error + nat) \<times> automation" where
  "create_job name description steps s =
     (if steps = [] \<or> list_ex (\<lambda>t. st_target_type t \<notin> set STEP_TYPES \<or> st_target_type t = ''vm'' \<and> (st_target t = None \<or> st_target t = Some [])) steps
      then (Inl Job_invalid, s) else store_create_job name description steps s)"

definition delete_job :: "nat \<Rightarrow> automation \<Rightarrow> (job_error + string) \<times> automation" where
  "delete_job i s = (case map_of (au_jobs s) i of
     None \<Rightarrow> (Inl Job_not_found, s)
   | Some j \<Rightarrow> if jb_predefined j \<noteq> None \<and> jb_predefined j \<noteq> Some [] then (Inl Job_protected, s)
       else (Inr (jb_name j), s\<lparr>au_jobs := dict_del i (au_jobs s)\<rparr>))"

text \<open>The predefined job: its name and description are brought up to date; a name another job has is refused by the table.\<close>

definition ensure_predefined :: "string \<Rightarrow> string \<Rightarrow> string \<Rightarrow> automation \<Rightarrow> (job_error + nat) \<times> automation" where
  "ensure_predefined key name description s = (case find (\<lambda>(_, j). jb_predefined j = Some key) (au_jobs s) of
     Some (i, _) \<Rightarrow>
       if name \<in> jb_name ` snd ` set (dict_del i (au_jobs s)) then (Inl Integrity, s)
       else (Inr i, s\<lparr>au_jobs := dict_alter i (\<lambda>j. j\<lparr>jb_name := name, jb_description := Some description\<rparr>) (au_jobs s)\<rparr>)
   | None \<Rightarrow>
       if name \<in> jb_name ` snd ` set (au_jobs s) then (Inl Integrity, s)
       else let i = au_seq s + 1 in
         (Inr i, s\<lparr>au_jobs := dict_set i \<lparr>jb_name = name, jb_description = Some description, jb_predefined = Some key, jb_steps = []\<rparr> (au_jobs s), au_seq := i\<rparr>))"

section \<open>One step\<close>

definition run_command ::
  "daemon \<Rightarrow> bool \<Rightarrow> string \<Rightarrow> string option \<Rightarrow> string \<Rightarrow> automation \<Rightarrow> answer \<times> automation" where
  "run_command daemon dry ttype target command s =
     (if dry then (Inr (''[dry-run] command not executed: '' @ command, [], 0), s)
      else let asked = (ttype, if ttype = ''host'' then None else target, command) in
        (daemon (length (au_asked s)) asked, s\<lparr>au_asked := au_asked s @ [asked]\<rparr>))"

text \<open>\<open>int(condition_value)\<close> may raise (\<open>None\<close>).\<close>

definition step_succeeded :: "string \<Rightarrow> string option \<Rightarrow> string \<Rightarrow> int \<Rightarrow> bool option" where
  "step_succeeded ctype cvalue stdout exit_code =
     (if ctype = ''exit_code'' then
        (case cvalue of
           Some (c # cs) \<Rightarrow> map_option (\<lambda>expected. exit_code = expected) (int_of_text (c # cs))
         | _ \<Rightarrow> Some (exit_code = 0))
      else if ctype = ''stdout_contains'' then Some (sublist (case cvalue of None \<Rightarrow> [] | Some v \<Rightarrow> v) stdout)
      else Some (exit_code = 0))"

text \<open>\<open>s[-n:]\<close>.\<close>

definition last_chars :: "nat \<Rightarrow> string \<Rightarrow> string" where
  "last_chars n s = drop (length s - n) s"

definition log_step :: "step_log \<Rightarrow> automation \<Rightarrow> automation" where
  "log_step l s = s\<lparr>au_logs := au_logs s @ [l\<lparr>lg_stdout := last_chars 8000 (lg_stdout l), lg_stderr := last_chars 4000 (lg_stderr l)\<rparr>]\<rparr>"

section \<open>What a run does\<close>

definition expand_step :: "string list \<Rightarrow> step \<Rightarrow> step list" where
  "expand_step targets s =
     (if st_target_type s = ''each_target'' then map (\<lambda>t. s\<lparr>st_target_type := ''vm'', st_target := Some t\<rparr>) targets else [s])"

definition expand_steps :: "step list \<Rightarrow> string list \<Rightarrow> step list" where
  "expand_steps steps targets = concat (map (expand_step targets) steps)"

datatype refused = Empty_target | Listed_twice | Too_few_targets | No_step | No_target

definition check_targets :: "job \<Rightarrow> string list \<Rightarrow> refused + unit" where
  "check_targets j targets =
     (if list_ex (\<lambda>t. strip t = []) targets then Inl Empty_target
      else if \<not> distinct targets then Inl Listed_twice
      else if jb_predefined j = Some LB_PREDEFINED_KEY then (if length targets < 2 then Inl Too_few_targets else Inr ())
      else if jb_steps j = [] then Inl No_step
      else if targets = [] \<and> list_ex (\<lambda>s. st_target_type s = ''each_target'') (jb_steps j) then Inl No_target
      else Inr ())"

text \<open>The predefined job's steps, generated from the targets. \<open>address\<close>: a VM's address, none inside when unknown, none outside
  when there is no such VM.\<close>

definition vm_step :: "nat \<Rightarrow> string \<Rightarrow> string \<Rightarrow> step" where
  "vm_step i target command = \<lparr>st_position = i, st_target_type = ''vm'', st_target = Some target, st_command = command,
     st_condition_type = ''exit_code'', st_condition_value = Some ''0''\<rparr>"

definition placeholder :: "string \<Rightarrow> string" where
  "placeholder b = ''__IP_'' @ b @ ''__''"

definition haproxy_cfg :: "string list \<Rightarrow> string" where
  "haproxy_cfg backends =
     ''frontend http_front'' @ [newline] @ ''    bind *:80'' @ [newline] @ ''    default_backend http_back'' @ [newline] @
     ''backend http_back'' @ [newline] @ ''    balance roundrobin'' @ [newline] @
     join_with newline (map (\<lambda>(i, b). ''    server backend'' @ str_of_nat (i + 1) @ '' '' @ placeholder b @ '':80 check'') (List.enumerate 0 backends))"

fun backend_addresses :: "(string \<Rightarrow> string option option) \<Rightarrow> string list \<Rightarrow> string + (string \<times> string) list" where
  "backend_addresses address [] = Inr []"
| "backend_addresses address (b # bs) = (case address b of
     None \<Rightarrow> Inl (''VM '' @ [CHR 0x27] @ b @ [CHR 0x27] @ '' not found'')
   | Some (Some (c # ip)) \<Rightarrow> rbind (backend_addresses address bs) (\<lambda>m. Inr ((b, c # ip) # m))
   | Some _ \<Rightarrow> Inl (''IP address of '' @ [CHR 0x27] @ b @ [CHR 0x27] @ '' unknown (is the VM running?)''))"

definition lb_steps :: "(string \<Rightarrow> string option option) \<Rightarrow> string list \<Rightarrow> bool \<Rightarrow> string + step list" where
  "lb_steps address targets dry =
     (let lb = hd targets; backends = tl targets in
      rbind (if dry then Inr (map (\<lambda>b. (b, ''0.0.0.0'')) backends) else backend_addresses address backends) (\<lambda>ip_map.
      let cfg = foldl (\<lambda>c (b, ip). py_replace (placeholder b) ip c) (haproxy_cfg backends) ip_map;
          n = length backends
      in Inr (vm_step 0 lb ''sudo apt-get update -qq && sudo apt-get install -y -qq haproxy'' #
         map (\<lambda>(i, b). vm_step i b ''sudo apt-get update -qq && sudo apt-get install -y -qq nginx && echo OK_$(hostname) | sudo tee /var/www/html/index.html'')
           (List.enumerate 1 backends) @
         [vm_step (n + 1) lb (''echo '' @ [CHR 0x27] @ cfg @ [CHR 0x27] @ '' | sudo tee /etc/haproxy/haproxy.cfg > /dev/null && sudo systemctl restart haproxy''),
          vm_step (n + 2) lb (''curl -sf -o /dev/null -w '' @ [CHR 0x27] @ ''%{http_code}'' @ [CHR 0x27] @ '' http://localhost:80/ | grep -q 200'')])))"

text \<open>One step after another. An exception is its text; a step that could not run fails, the store's troubles and an unreadable
  condition end the run.\<close>

record surroundings =
  en_daemon :: daemon
  en_asks :: "nat \<Rightarrow> string option"
  en_trouble :: "nat \<Rightarrow> string option"
  en_bad_int :: "string option \<Rightarrow> string"

definition noted :: "surroundings \<Rightarrow> nat \<Rightarrow> string \<Rightarrow> nat \<Rightarrow> automation \<Rightarrow> automation" where
  "noted en p tid i s = (case en_asks en i of None \<Rightarrow> s | Some user \<Rightarrow> s\<lparr>au_world := request_noted p tid user (au_world s)\<rparr>)"

definition step_target :: "step \<Rightarrow> string option" where
  "step_target st = (if st_target_type st = ''host'' then Some ''the host'' else st_target st)"

definition shown :: "string option \<Rightarrow> string" where
  "shown x = (case x of None \<Rightarrow> ''None'' | Some s \<Rightarrow> s)"

definition step_message :: "nat \<Rightarrow> nat \<Rightarrow> step \<Rightarrow> string" where
  "step_message i n_steps st =
     ''Step '' @ str_of_nat (i + 1) @ ''/'' @ str_of_nat n_steps @ '' on '' @ shown (step_target st) @ '': '' @ take 200 (st_command st)"

definition progress_after :: "nat \<Rightarrow> nat \<Rightarrow> int" where
  "progress_after i n_steps = int ((i + 1) * 100 div n_steps)"

text \<open>What running a step gives: its output, and whether it succeeded or what its condition raised.\<close>

definition step_outcome :: "surroundings \<Rightarrow> step \<Rightarrow> answer \<Rightarrow> string + string \<times> string \<times> int \<times> bool" where
  "step_outcome en st ans = (case ans of
     Inl e \<Rightarrow> Inr ([], e, -1, False)
   | Inr (out, err, code) \<Rightarrow> (case step_succeeded (st_condition_type st) (st_condition_value st) out code of
       None \<Rightarrow> Inl (en_bad_int en (st_condition_value st))
     | Some ok \<Rightarrow> Inr (out, err, code, ok)))"

fun run_steps :: "surroundings \<Rightarrow> nat \<Rightarrow> string \<Rightarrow> string \<Rightarrow> bool \<Rightarrow> nat \<Rightarrow> nat \<Rightarrow> step list \<Rightarrow> automation \<Rightarrow> (string + bool) \<times> automation" where
  "run_steps en p run_id tid dry n_steps i [] s = (Inr True, s)"
| "run_steps en p run_id tid dry n_steps i (st # steps) s =
     (let s1 = noted en p tid i s in
      case map_of (requested (worker_of (au_world s1) p)) tid of
        Some who \<Rightarrow> (Inl (''Cancelled by '' @ who), s1)
      | None \<Rightarrow>
        let s2 = s1\<lparr>au_world := task_log tid (step_message i n_steps st) (au_world s1)\<rparr>;
            (ans, s3) = run_command (en_daemon en) dry (st_target_type st) (st_target st) (st_command st) s2
        in case step_outcome en st ans of
          Inl e \<Rightarrow> (Inl e, s3)
        | Inr (out, err, code, ok) \<Rightarrow> (case en_trouble en i of
            Some e \<Rightarrow> (Inl e, s3)
          | None \<Rightarrow>
            let s4 = log_step \<lparr>lg_run = run_id, lg_position = st_position st, lg_target = step_target st, lg_command = st_command st,
                       lg_stdout = out, lg_stderr = err, lg_exit = code, lg_succeeded = ok\<rparr> s3;
                s5 = s4\<lparr>au_world := update_progress tid (progress_after i n_steps) (au_world s4)\<rparr>
            in if ok then run_steps en p run_id tid dry n_steps (i + 1) steps s5 else (Inr False, s5)))"

definition run_all_steps :: "surroundings \<Rightarrow> nat \<Rightarrow> string \<Rightarrow> string \<Rightarrow> bool \<Rightarrow> step list \<Rightarrow> automation \<Rightarrow> (string + bool) \<times> automation" where
  "run_all_steps en p run_id tid dry steps s =
     run_steps en p run_id tid dry (max (length steps) 1) 0 steps (s\<lparr>au_world := register_cancel p tid (au_world s)\<rparr>)"

section \<open>A run's beginning and end\<close>

text \<open>Where recording the end fails, if it does.\<close>

datatype close_trouble = Records | Task_fails | Audit_fails | Row_fails

definition outcome_text :: "bool \<Rightarrow> string \<Rightarrow> string" where
  "outcome_text ok error = (if ok then ''SUCCESS'' else if error \<noteq> [] then ''ERROR: '' @ error else ''FAILED'')"

definition close_run :: "string \<Rightarrow> bool \<Rightarrow> string \<Rightarrow> automation \<Rightarrow> automation" where
  "close_run run_id ok result s =
     s\<lparr>au_runs := dict_alter run_id (\<lambda>r. r\<lparr>rn_status := if ok then ''success'' else ''failed'', rn_result := Some result\<rparr>) (au_runs s)\<rparr>"

definition finish_run :: "close_trouble \<Rightarrow> nat \<Rightarrow> string \<Rightarrow> string \<Rightarrow> string \<Rightarrow> string \<Rightarrow> bool \<Rightarrow> string \<Rightarrow> automation \<Rightarrow> automation" where
  "finish_run tr p run_id tid job_name username ok error s =
     (let result = outcome_text ok error in
      if tr = Task_fails then s
      else let s1 = s\<lparr>au_world := (if ok then finish_task p tid Succeeded None (au_world s)
                else finish_task p tid Failed (Some (''Job '' @ [CHR 0x27] @ job_name @ [CHR 0x27] @ '': '' @ result)) (au_world s))\<rparr>
      in if tr = Audit_fails then s1
      else let s2 = s1\<lparr>au_audit := au_audit s1 @ [(username, ''run_job'', job_name, if ok then ''success'' else ''failed'', result)]\<rparr>
      in if tr = Row_fails then s2 else close_run run_id ok result s2)"

text \<open>The body of the run's thread: whatever is raised is caught; so is what recording the end raises.\<close>

definition execute_run ::
  "surroundings \<Rightarrow> close_trouble \<Rightarrow> nat \<Rightarrow> string \<Rightarrow> string \<Rightarrow> string \<Rightarrow> string + step list \<Rightarrow> bool \<Rightarrow> string \<Rightarrow> automation \<Rightarrow> automation" where
  "execute_run en tr p run_id tid job_name steps dry username s =
     (case (case steps of Inl e \<Rightarrow> (Inl e, s) | Inr sts \<Rightarrow> run_all_steps en p run_id tid dry sts s) of
        (Inl e, s') \<Rightarrow> finish_run tr p run_id tid job_name username False e s'
      | (Inr ok, s') \<Rightarrow> finish_run tr p run_id tid job_name username ok [] s')"

datatype start_error = Unknown_job | Refused refused | Not_recorded string

definition build_steps :: "(string \<Rightarrow> string option option) \<Rightarrow> job \<Rightarrow> string list \<Rightarrow> bool \<Rightarrow> string + step list" where
  "build_steps address j targets dry =
     (if jb_predefined j = Some LB_PREDEFINED_KEY then lb_steps address targets dry else Inr (expand_steps (jb_steps j) targets))"

text \<open>\<open>run_id\<close> and \<open>tid\<close> are fresh; \<open>unrecorded\<close>: what recording the run raises.\<close>

definition start_job_run ::
  "nat \<Rightarrow> nat \<Rightarrow> string list \<Rightarrow> bool \<Rightarrow> string \<Rightarrow> string \<Rightarrow> string \<Rightarrow> string option \<Rightarrow> automation \<Rightarrow> (start_error + job) \<times> automation" where
  "start_job_run p job_id targets dry username run_id tid unrecorded s = (case map_of (au_jobs s) job_id of
     None \<Rightarrow> (Inl Unknown_job, s)
   | Some j \<Rightarrow> (case check_targets j targets of
       Inl r \<Rightarrow> (Inl (Refused r), s)
     | Inr _ \<Rightarrow>
         let s1 = s\<lparr>au_world := create_task p tid (Some username) (au_world s)\<rparr> in
         case unrecorded of
           Some e \<Rightarrow> (Inl (Not_recorded e), s1\<lparr>au_world := finish_task p tid Failed (Some (''Could not record the run: '' @ e)) (au_world s1)\<rparr>)
         | None \<Rightarrow> (Inr j, s1\<lparr>au_runs := dict_set run_id \<lparr>rn_job = job_id, rn_task = tid, rn_dry = dry, rn_targets = targets, rn_status = ''running'', rn_result = None\<rparr> (au_runs s1)\<rparr>)))"

end
