(* ===== verification/Job_Props.thy ===== *)
theory Job_Props
  imports Jobs
begin

text \<open>
  What a job's run promises. Its steps are asked for in order, each once, and none after one that failed; a dry run asks for none;
  a run reported as a success has run every step on every target. Once started, a run ends as a success or a failure together with
  its task and its audit entry, whatever the daemon answers, whoever cancels it and whatever the steps raise, when its end can be
  recorded.

  Also shown: a command whose condition is not a number runs without a line in the run's log, and a run whose service restarts stays
  \<open>running\<close>.
\<close>

section \<open>The steps of a run\<close>

definition asked_of :: "step \<Rightarrow> string \<times> string option \<times> string" where
  "asked_of st = (st_target_type st, if st_target_type st = ''host'' then None else st_target st, st_command st)"

text \<open>A line of the run's log about a step.\<close>

definition logged :: "string \<Rightarrow> step_log \<Rightarrow> step \<Rightarrow> bool" where
  "logged run_id l st \<longleftrightarrow> lg_run l = run_id \<and> lg_position l = st_position st \<and> lg_target l = step_target st \<and> lg_command l = st_command st"

lemma noted_fields [simp]:
  "au_jobs (noted en p tid i s) = au_jobs s" "au_runs (noted en p tid i s) = au_runs s" "au_audit (noted en p tid i s) = au_audit s"
  "au_logs (noted en p tid i s) = au_logs s" "au_asked (noted en p tid i s) = au_asked s"
  "tasks (au_world (noted en p tid i s)) = tasks (au_world s)"
  "held (worker_of (au_world (noted en p tid i s)) q) = held (worker_of (au_world s) q)"
  by (auto simp: noted_def request_noted_def at_worker_def split: option.split)

lemma run_command_state:
  "run_command d dry ty tg c s = (ans, s') \<Longrightarrow> s' = s\<lparr>au_asked := au_asked s @ (if dry then [] else [(ty, if ty = ''host'' then None else tg, c)])\<rparr>"
  by (auto simp: run_command_def Let_def)

text \<open>What the steps leave as it was.\<close>

definition same_rest :: "automation \<Rightarrow> automation \<Rightarrow> bool" where
  "same_rest s s' \<longleftrightarrow> au_jobs s' = au_jobs s \<and> au_runs s' = au_runs s \<and> au_audit s' = au_audit s
     \<and> keys (tasks (au_world s')) = keys (tasks (au_world s)) \<and> (\<forall>q. held (worker_of (au_world s') q) = held (worker_of (au_world s) q))"

lemma same_rest_trans: "same_rest a b \<Longrightarrow> same_rest b c \<Longrightarrow> same_rest a c"
  by (simp add: same_rest_def)

lemma update_progress_fields [simp]: "keys (tasks (update_progress tid n w)) = keys (tasks w)" "worker_of (update_progress tid n w) = worker_of w"
  by (simp_all add: update_progress_def)

text \<open>One step: the run stops before it, stops at it before its line is written, or writes its line and goes on if it succeeded.\<close>

lemma run_steps_Cons:
  assumes "run_steps en p run_id tid dry n i (st # steps) s = (res, s')"
  obtains (cancelled) e where "res = Inl e" "same_rest s s'" "au_asked s' = au_asked s" "au_logs s' = au_logs s"
  | (broken) e where "res = Inl e" "same_rest s s'" "au_asked s' = au_asked s @ (if dry then [] else [asked_of st])" "au_logs s' = au_logs s"
  | (ran) l s5 where "logged run_id l st" "same_rest s s5"
      "au_asked s5 = au_asked s @ (if dry then [] else [asked_of st])" "au_logs s5 = au_logs s @ [l]"
      "(lg_succeeded l \<and> run_steps en p run_id tid dry n (i + 1) steps s5 = (res, s')) \<or> (\<not> lg_succeeded l \<and> res = Inr False \<and> s' = s5)"
proof (cases "map_of (requested (worker_of (au_world (noted en p tid i s)) p)) tid")
  case (Some who)
  then show thesis using cancelled assms by (auto simp: Let_def same_rest_def)
next
  case None
  let ?s2 = "(noted en p tid i s)\<lparr>au_world := task_log tid (step_message i n st) (au_world (noted en p tid i s))\<rparr>"
  obtain ans s3 where rc: "run_command (en_daemon en) dry (st_target_type st) (st_target st) (st_command st) ?s2 = (ans, s3)" by fastforce
  have s3: "same_rest s s3" "au_asked s3 = au_asked s @ (if dry then [] else [asked_of st])" "au_logs s3 = au_logs s"
    using run_command_state [OF rc] by (simp_all add: asked_of_def same_rest_def)
  show thesis
  proof (cases "step_outcome en st ans")
    case (Inl e)
    then show thesis using broken [of e] assms None rc s3 by (simp add: Let_def)
  next
    case (Inr oc)
    obtain out err code ok where oc: "oc = (out, err, code, ok)" by (cases oc)
    show thesis
    proof (cases "en_trouble en i")
      case (Some e)
      then show thesis using broken [of e] assms None rc s3 Inr oc by (simp add: Let_def)
    next
      case none: None
      let ?l = "\<lparr>lg_run = run_id, lg_position = st_position st, lg_target = step_target st, lg_command = st_command st,
        lg_stdout = out, lg_stderr = err, lg_exit = code, lg_succeeded = ok\<rparr>"
      let ?s4 = "log_step ?l s3"
      let ?s5 = "?s4\<lparr>au_world := update_progress tid (progress_after i n) (au_world ?s4)\<rparr>"
      have "(if ok then run_steps en p run_id tid dry n (i + 1) steps ?s5 else (Inr False, ?s5)) = (res, s')"
        using assms None rc Inr oc none by (simp add: Let_def)
      moreover have "same_rest s ?s5" "au_asked ?s5 = au_asked s @ (if dry then [] else [asked_of st])"
        "au_logs ?s5 = au_logs s @ [?l\<lparr>lg_stdout := last_chars 8000 out, lg_stderr := last_chars 4000 err\<rparr>]"
        using s3 by (simp_all add: log_step_def same_rest_def)
      ultimately show thesis
        using ran [of "?l\<lparr>lg_stdout := last_chars 8000 out, lg_stderr := last_chars 4000 err\<rparr>" ?s5]
        by (cases ok) (simp_all add: logged_def)
    qed
  qed
qed

text \<open>However a run goes: the steps asked for are the first ones, in order; each but the last of them has its line and succeeded.\<close>

definition ran_in_order :: "string \<Rightarrow> bool \<Rightarrow> step list \<Rightarrow> string + bool \<Rightarrow> automation \<Rightarrow> automation \<Rightarrow> nat \<Rightarrow> step_log list \<Rightarrow> bool" where
  "ran_in_order run_id dry steps res s s' k ls \<longleftrightarrow> k \<le> length steps
     \<and> au_asked s' = au_asked s @ (if dry then [] else map asked_of (take k steps))
     \<and> au_logs s' = au_logs s @ ls \<and> length ls \<le> k \<and> k \<le> length ls + 1
     \<and> list_all2 (logged run_id) ls (take (length ls) steps) \<and> list_all lg_succeeded (take (k - 1) ls)
     \<and> (res = Inr True \<longrightarrow> k = length steps \<and> length ls = k \<and> list_all lg_succeeded ls)
     \<and> (res = Inr False \<longrightarrow> ls \<noteq> [] \<and> length ls = k \<and> \<not> lg_succeeded (last ls))"

lemma run_steps_in_order:
  assumes "run_steps en p run_id tid dry n i steps s = (res, s')"
  shows "\<exists>k ls. ran_in_order run_id dry steps res s s' k ls"
  using assms
proof (induction steps arbitrary: i s)
  case Nil
  then show ?case by (auto simp: ran_in_order_def)
next
  case (Cons st steps)
  from Cons.prems show ?case
  proof (cases rule: run_steps_Cons)
    case (cancelled e)
    then show ?thesis by (intro exI [of _ 0] exI [of _ "[]"]) (simp add: ran_in_order_def)
  next
    case (broken e)
    then show ?thesis by (intro exI [of _ 1] exI [of _ "[]"]) (simp add: ran_in_order_def)
  next
    case (ran l s5)
    from ran(5) show ?thesis
    proof
      assume "lg_succeeded l \<and> run_steps en p run_id tid dry n (i + 1) steps s5 = (res, s')"
      then obtain k ls where ls: "lg_succeeded l" "ran_in_order run_id dry steps res s5 s' k ls" using Cons.IH by blast
      have "take k (l # ls) = l # take (k - 1) ls" if "0 < k" using that by (cases k) auto
      then have "list_all lg_succeeded (take k (l # ls))" using ls by (cases "k = 0") (auto simp: ran_in_order_def)
      then have "ran_in_order run_id dry (st # steps) res s s' (k + 1) (l # ls)"
        using ls ran(1,3,4) by (auto simp: ran_in_order_def)
      then show ?thesis by blast
    next
      assume "\<not> lg_succeeded l \<and> res = Inr False \<and> s' = s5"
      then show ?thesis using ran(1,3,4) by (intro exI [of _ 1] exI [of _ "[l]"]) (simp add: ran_in_order_def)
    qed
  qed
qed


section \<open>The end of a run\<close>

lemma run_steps_rest: "run_steps en p run_id tid dry n i steps s = (res, s') \<Longrightarrow> same_rest s s'"
proof (induction steps arbitrary: i s)
  case Nil
  then show ?case by (auto simp: same_rest_def)
next
  case (Cons st steps)
  from Cons.prems show ?case
    by (cases rule: run_steps_Cons) (use Cons.IH same_rest_trans in blast)+
qed

lemma run_all_steps_rest: "run_all_steps en p run_id tid dry steps s = (res, s') \<Longrightarrow> same_rest s s'"
  using run_steps_rest [of en p run_id tid dry _ 0 steps "s\<lparr>au_world := register_cancel p tid (au_world s)\<rparr>" res s']
  by (auto simp: run_all_steps_def same_rest_def register_cancel_def at_worker_def split: if_splits)

text \<open>A run's end, on its row, its task and the audit log.\<close>

definition ended_as :: "bool \<Rightarrow> string \<Rightarrow> string \<Rightarrow> string \<Rightarrow> string \<Rightarrow> automation \<Rightarrow> bool" where
  "ended_as ok run_id tid job_name username s \<longleftrightarrow>
     (\<exists>r row result. map_of (au_runs s) run_id = Some r \<and> rn_status r = (if ok then ''success'' else ''failed'')
        \<and> map_of (tasks (au_world s)) tid = Some row \<and> tr_status row = (if ok then Succeeded else Failed)
        \<and> au_audit s \<noteq> [] \<and> last (au_audit s) = (username, ''run_job'', job_name, if ok then ''success'' else ''failed'', result) \<and> rn_result r = Some result)"

lemma finish_run_ends:
  assumes "run_id \<in> set (keys (au_runs s))" and "tid \<in> set (keys (tasks (au_world s)))" and "map_of (held (worker_of (au_world s) p)) tid = None"
  shows "ended_as ok run_id tid job_name username (finish_run Records p run_id tid job_name username ok error s)"
proof -
  obtain r row where r: "map_of (au_runs s) run_id = Some r" and row: "map_of (tasks (au_world s)) tid = Some row"
    using keys_map_of [OF assms(1)] keys_map_of [OF assms(2)] by blast
  show ?thesis
    unfolding ended_as_def finish_run_def Let_def close_run_def
    using r row by (cases ok) (simp_all add: finish_fields [OF assms(3)])
qed

text \<open>The state a run's thread starts from.\<close>

lemma start_job_run_Inr:
  assumes "start_job_run p job_id targets dry username run_id tid unrecorded s = (Inr j, s1)"
  shows "map_of (au_jobs s) job_id = Some j" and "check_targets j targets = Inr ()" and "run_id \<in> set (keys (au_runs s1))"
    and "tid \<in> set (keys (tasks (au_world s1)))" and "held (worker_of (au_world s1) q) = held (worker_of (au_world s) q)"
    and "au_asked s1 = au_asked s" and "au_logs s1 = au_logs s"
proof -
  have s1: "map_of (au_jobs s) job_id = Some j" "check_targets j targets = Inr ()"
    "s1 = s\<lparr>au_world := create_task p tid (Some username) (au_world s),
      au_runs := dict_set run_id \<lparr>rn_job = job_id, rn_task = tid, rn_dry = dry, rn_targets = targets, rn_status = ''running'', rn_result = None\<rparr> (au_runs s)\<rparr>"
    using assms by (auto simp: start_job_run_def Let_def split: option.splits sum.splits)
  then show "map_of (au_jobs s) job_id = Some j" "check_targets j targets = Inr ()" "au_asked s1 = au_asked s" "au_logs s1 = au_logs s"
    by simp_all
  show "run_id \<in> set (keys (au_runs s1))" by (rule map_of_in_keys) (simp add: s1)
  show "tid \<in> set (keys (tasks (au_world s1)))" by (rule map_of_in_keys) (simp add: s1 create_task_def store_create_def at_worker_def)
  show "held (worker_of (au_world s1) q) = held (worker_of (au_world s) q)" by (simp add: s1 create_task_def store_create_def at_worker_def)
qed

text \<open>C27: A run that started ends: with its end recorded, its row says success or failure, its task has ended the same way and the audit
  log says so, whatever the daemon answered, whoever cancelled it and whatever its steps raised.\<close>

theorem started_run_ends:
  assumes "start_job_run p job_id targets dry username run_id tid unrecorded s = (Inr j, s1)"
    and "map_of (held (worker_of (au_world s) p)) tid = None"
  shows "\<exists>ok. ended_as ok run_id tid (jb_name j) username
    (execute_run en Records p run_id tid (jb_name j) (build_steps address j targets dry) dry username s1)"
proof -
  note st = start_job_run_Inr [OF assms(1)]
  have ends: "ended_as ok run_id tid (jb_name j) username (finish_run Records p run_id tid (jb_name j) username ok e s')"
    if "same_rest s1 s'" for ok e s'
  proof (rule finish_run_ends)
    show "run_id \<in> set (keys (au_runs s'))" "tid \<in> set (keys (tasks (au_world s')))" "map_of (held (worker_of (au_world s') p)) tid = None"
      using that st assms(2) unfolding same_rest_def by simp_all
  qed
  have refl: "same_rest s1 s1" by (simp add: same_rest_def)
  show ?thesis
  proof (cases "build_steps address j targets dry")
    case (Inl e)
    then show ?thesis using ends [OF refl, of False e] by (auto simp: execute_run_def)
  next
    case (Inr sts)
    obtain res s' where rs: "run_all_steps en p run_id tid dry sts s1 = (res, s')" by fastforce
    note end' = ends [OF run_all_steps_rest [OF rs]]
    show ?thesis
    proof (cases res)
      case (Inl e)
      then show ?thesis using end' [of False e] by (auto simp: execute_run_def Inr rs)
    next
      case ok: (Inr ok)
      then show ?thesis using end' [of ok "[]"] by (auto simp: execute_run_def Inr rs)
    qed
  qed
qed


section \<open>Examples and what is not kept\<close>

abbreviation quiet :: "daemon \<Rightarrow> surroundings" where
  "quiet d \<equiv> \<lparr>en_daemon = d, en_asks = (\<lambda>_. None), en_trouble = (\<lambda>_. None), en_bad_int = (\<lambda>_. ''invalid literal'')\<rparr>"

definition uptime_job :: job where
  "uptime_job = \<lparr>jb_name = ''check'', jb_description = None, jb_predefined = None, jb_steps =
     [\<lparr>st_position = 0, st_target_type = ''each_target'', st_target = None, st_command = ''uptime'', st_condition_type = ''exit_code'', st_condition_value = None\<rparr>]\<rparr>"

definition one_job :: "job \<Rightarrow> automation" where
  "one_job j = \<lparr>au_world = no_tasks\<lparr>alive := [0]\<rparr>, au_jobs = [(1, j)], au_seq = 1, au_runs = [], au_logs = [], au_audit = [], au_asked = []\<rparr>"

abbreviation answers_ok :: daemon where "answers_ok \<equiv> \<lambda>_ _. Inr ([], [], 0)"

abbreviation begun :: "job \<Rightarrow> string list \<Rightarrow> automation" where
  "begun j targets \<equiv> snd (start_job_run 0 1 targets False ''ann'' ''r'' ''t'' None (one_job j))"

lemma uptime_starts: "start_job_run 0 1 [''a''] False ''ann'' ''r'' ''t'' None (one_job uptime_job) = (Inr uptime_job, begun uptime_job [''a''])"
  by (simp add: start_job_run_def one_job_def uptime_job_def check_targets_def strip_chars_def is_blank_def LB_PREDEFINED_KEY_def Let_def)

lemma one_job_held: "map_of (held (worker_of (au_world (one_job j)) p)) tid = None"
  by (simp add: one_job_def no_tasks_def new_worker_def)

theorem started_run_ends_witness:
  "\<exists>ok. ended_as ok ''r'' ''t'' ''check'' ''ann''
     (execute_run (quiet (\<lambda>_ _. Inl ''no answer'')) Records 0 ''r'' ''t'' ''check'' (build_steps (\<lambda>_. None) uptime_job [''a''] False) False ''ann'' (begun uptime_job [''a'']))"
  using started_run_ends [OF uptime_starts one_job_held, of "quiet (\<lambda>_ _. Inl ''no answer'')"] by (simp add: uptime_job_def)


lemmas run_evals = execute_run_def run_all_steps_def finish_run_def close_run_def build_steps_def expand_steps_def expand_step_def
  run_command_def step_outcome_def step_succeeded_def noted_def log_step_def Let_def start_job_run_def one_job_def check_targets_def
  strip_chars_def is_blank_def LB_PREDEFINED_KEY_def outcome_text_def register_cancel_def at_worker_def create_task_def store_create_def no_tasks_def new_worker_def
  update_progress_def dict_alter_def

lemma uptime_ran:
  "let s = execute_run (quiet answers_ok) Records 0 ''r'' ''t'' ''check'' (build_steps (\<lambda>_. None) uptime_job [''a''] False) False ''ann'' (begun uptime_job [''a''])
   in ended_as True ''r'' ''t'' ''check'' ''ann'' s \<and> au_asked s = [(''vm'', Some ''a'', ''uptime'')]"
  by (simp add: ended_as_def run_evals uptime_job_def finish_fields)


text \<open>A step whose expected exit code is not a number runs, and leaves no line in the run's log.\<close>

definition bad_condition :: job where
  "bad_condition = \<lparr>jb_name = ''check'', jb_description = None, jb_predefined = None, jb_steps =
     [\<lparr>st_position = 0, st_target_type = ''host'', st_target = None, st_command = ''reboot'', st_condition_type = ''exit_code'', st_condition_value = Some ''zero''\<rparr>]\<rparr>"

theorem unreadable_condition_runs_unlogged:
  "let s = execute_run (quiet answers_ok) Records 0 ''r'' ''t'' ''check'' (build_steps (\<lambda>_. None) bad_condition [] False) False ''ann'' (begun bad_condition [])
   in au_asked s = [(''host'', None, ''reboot'')] \<and> au_logs s = []"
proof -
  have "int_of_text ''zero'' = None"
    by (simp add: int_of_text_def strip_chars_def is_blank_def str_isdigit_def is_digit_def less_eq_char_def)
  then show ?thesis by (simp add: run_evals bad_condition_def)
qed

text \<open>A service restarted during a run closes the run's task, not the run: it stays \<open>running\<close>.\<close>

theorem restarted_run_stays_running:
  "let s = begun uptime_job [''a''];
       w = close_interrupted_tasks (starts 1 (stops 0 (au_world s)))
   in map_option rn_status (map_of (au_runs s) ''r'') = Some ''running''
     \<and> map_option tr_status (map_of (tasks w) ''t'') = Some Failed"
  by (simp add: run_evals uptime_job_def starts_def stops_def close_interrupted_tasks_def gone_tasks_def store_close_interrupted_def
      close_one_row as_interrupted_def)

section \<open>The predefined job's steps\<close>

lemma lb_steps_shape:
  assumes "lb_steps address (lb # backends) dry = Inr sts"
  shows "map st_position sts = [0..<length backends + 3] \<and> map st_target sts = Some lb # map Some backends @ [Some lb, Some lb]"
proof -
  have "map (\<lambda>p. fst p) (List.enumerate 1 backends) = [1..<1 + length backends]" by simp
  moreover have "map (\<lambda>p. Some (snd p)) (List.enumerate 1 backends) = map Some backends"
    using map_map [of Some snd "List.enumerate 1 backends"] by (simp add: o_def)
  moreover have "[0..<length backends + 3] = 0 # [1..<1 + length backends] @ [length backends + 1, length backends + 2]"
    by (auto simp: numeral_eq_Suc upt_conv_Cons [of 0] Suc_le_eq)
  ultimately show ?thesis
    using assms by (auto simp: lb_steps_def Let_def rbind_Inr_iff vm_step_def o_def split_def simp del: upt_Suc)
qed

end
