(* ===== verification/Rolling.thy ===== *)
theory Rolling
  imports Ha_Store
begin

text \<open>
  Node maintenance (\<^verbatim>\<open>app/core/maintenance.py\<close>, the drain of \<^verbatim>\<open>app/routers/nodes.py\<close>) and the rolling update of a cluster
  (\<^verbatim>\<open>app/core/rolling_update.py\<close>): the node that starts it updates the others one after another, each put in maintenance and
  emptied first, then itself.

  What the other nodes, libvirt and the clock answer is a parameter: \<open>answers\<close> holds, for one node, the answer of each call of its
  update and of each poll of its waits (\<open>Lost\<close>: the node cannot be reached), and the times its loops read. Who asks for a
  cancellation or ends a maintenance meanwhile is in \<open>drain_env\<close>. Texts of messages are reasons of a datatype.
\<close>

section \<open>Maintenance\<close>

text \<open>The table: a node, and who put it in maintenance.\<close>

type_synonym maint = "(node_name, string) dict"

definition label :: "node_name option \<Rightarrow> node_name" where
  "label node = (case node of None \<Rightarrow> LOCAL | Some n \<Rightarrow> if n = [] \<or> n = LOCAL then LOCAL else n)"

definition conn_key :: "node_name \<Rightarrow> node_name option" where
  "conn_key l = (if l = LOCAL then None else Some l)"

definition in_maintenance :: "node_name \<Rightarrow> node_name \<Rightarrow> maint \<Rightarrow> bool" where
  "in_maintenance me l m \<longleftrightarrow> map_of m (to_db me l) \<noteq> None"

text \<open>The first start and its author are kept.\<close>

definition enter :: "node_name \<Rightarrow> node_name \<Rightarrow> string \<Rightarrow> maint \<Rightarrow> maint" where
  "enter me l user m = (if in_maintenance me l m then m else dict_set (to_db me l) user m)"

definition leave :: "node_name \<Rightarrow> node_name \<Rightarrow> maint \<Rightarrow> maint \<times> bool" where
  "leave me l m = (dict_del (to_db me l) m, in_maintenance me l m)"

text \<open>409.\<close>

definition refuse_if_in_maintenance :: "node_name \<Rightarrow> node_name option \<Rightarrow> maint \<Rightarrow> unit + unit" where
  "refuse_if_in_maintenance me node m = require (\<not> in_maintenance me (label node) m) ()"

text \<open>Why a VM cannot be live-migrated. A domain as libvirt shows it: each reading may raise, with its message.\<close>

record dom_view =
  dv_name :: vm_name
  dv_active :: "string + bool"
  dv_iscsi :: "string + bool"
  dv_compat :: "node_name \<Rightarrow> string + string list"

datatype why = Stopped_vm | On_luns | Nowhere | Same_name node_name | Blocking "string list" | Unchecked string | Unreachable_target node_name

text \<open>\<open>there\<close>: the names on the target, none without a connection to one.\<close>

definition why_not_migrable :: "dom_view \<Rightarrow> (node_name \<times> vm_name list) option \<Rightarrow> why option" where
  "why_not_migrable d dst =
     (case dv_active d of
        Inl e \<Rightarrow> Some (Unchecked e)
      | Inr False \<Rightarrow> Some Stopped_vm
      | Inr True \<Rightarrow> (case dv_iscsi d of
          Inl e \<Rightarrow> Some (Unchecked e)
        | Inr True \<Rightarrow> Some On_luns
        | Inr False \<Rightarrow> (case dst of
            None \<Rightarrow> Some Nowhere
          | Some (target, there) \<Rightarrow>
              if dv_name d \<in> set there then Some (Same_name target)
              else (case dv_compat d target of
                  Inl e \<Rightarrow> Some (Unchecked e)
                | Inr [] \<Rightarrow> None
                | Inr (b # bs) \<Rightarrow> Some (Blocking (b # bs))))))"

definition plan :: "dom_view list \<Rightarrow> (node_name \<times> vm_name list) option \<Rightarrow> vm_name list \<times> (vm_name \<times> why) list" where
  "plan doms dst =
     (let ds = sort_key dv_name doms in
      (map dv_name (filter (\<lambda>d. why_not_migrable d dst = None) ds),
       concat (map (\<lambda>d. case why_not_migrable d dst of None \<Rightarrow> [] | Some r \<Rightarrow> [(dv_name d, r)]) ds)))"

text \<open>Each VM with a target of its own; \<open>conns\<close>: the names on each target, none for one that cannot be reached.\<close>

definition spread_why :: "(vm_name \<Rightarrow> node_name option) \<Rightarrow> (node_name \<Rightarrow> vm_name list option) \<Rightarrow> dom_view \<Rightarrow> why option" where
  "spread_why targets conns d = (case targets (dv_name d) of
     None \<Rightarrow> why_not_migrable d None
   | Some t \<Rightarrow> (case conns t of None \<Rightarrow> Some (Unreachable_target t) | Some there \<Rightarrow> why_not_migrable d (Some (t, there))))"

definition spread_plan ::
  "(vm_name \<Rightarrow> node_name option) \<Rightarrow> (node_name \<Rightarrow> vm_name list option) \<Rightarrow> dom_view list \<Rightarrow>
   (vm_name \<times> node_name option) list \<times> (vm_name \<times> why) list" where
  "spread_plan targets conns doms =
     (let ds = sort_key dv_name doms in
      (map (\<lambda>d. (dv_name d, targets (dv_name d))) (filter (\<lambda>d. spread_why targets conns d = None) ds),
       concat (map (\<lambda>d. case spread_why targets conns d of None \<Rightarrow> [] | Some r \<Rightarrow> [(dv_name d, r)]) ds)))"

section \<open>Emptying a node\<close>

text \<open>What the cluster's nodes and this process remember: the maintenance table, the nodes being drained, the setting that says this
  node updates itself as the last step, who holds the run's lock; and what was done: the moves, the updates started, the reboots.\<close>

record cluster =
  cl_maint :: maint
  cl_draining :: "node_name list"
  cl_pending :: "(string \<times> string) option"
  cl_lock :: "node_name option"
  cl_moves :: "(vm_name \<times> node_name \<times> node_name option) list"
  cl_started :: "node_name list"
  cl_rebooted :: "node_name list"

datatype vm_move = Busy_vm | Migrated | Not_migrated | Raised

record drain_env =
  dr_move :: "vm_name \<Rightarrow> vm_move"
  dr_cancelled :: "nat \<Rightarrow> bool"
  dr_ended :: "nat \<Rightarrow> bool"

text \<open>The VMs one after another: those that failed, those not started. An exception ends the loop.\<close>

fun drain_vms ::
  "node_name \<Rightarrow> node_name \<Rightarrow> node_name option \<Rightarrow> drain_env \<Rightarrow> nat \<Rightarrow> vm_name list \<Rightarrow> vm_name list \<Rightarrow> cluster \<Rightarrow>
   vm_name list \<times> vm_name list \<times> cluster" where
  "drain_vms me source target env i [] failed s = (failed, [], s)"
| "drain_vms me source target env i (vm # vms) failed s =
     (let s = (if dr_ended env i then s\<lparr>cl_maint := fst (leave me source (cl_maint s))\<rparr> else s) in
      if dr_cancelled env i \<or> \<not> in_maintenance me source (cl_maint s) then (failed, vm # vms, s)
      else case dr_move env vm of
        Migrated \<Rightarrow> drain_vms me source target env (i + 1) vms failed (s\<lparr>cl_moves := cl_moves s @ [(vm, source, target)]\<rparr>)
      | Raised \<Rightarrow> (failed @ [vm], [], s)
      | _ \<Rightarrow> drain_vms me source target env (i + 1) vms (failed @ [vm]) s)"

text \<open>True when every VM left.\<close>

definition drain_job :: "node_name \<Rightarrow> node_name \<Rightarrow> node_name option \<Rightarrow> drain_env \<Rightarrow> vm_name list \<Rightarrow> cluster \<Rightarrow> bool \<times> cluster" where
  "drain_job me source target env names s =
     (let (failed, not_started, s') = drain_vms me source target env 0 names [] s in
      (failed = [] \<and> not_started = [], s'\<lparr>cl_draining := removeAll source (cl_draining s')\<rparr>))"

datatype stop = Being_drained | Plan_failed string | Not_emptied | Peer_lost | Check_failed | Not_started | Timed_out | Update_failed
  | Rolled_back | Reboot_refused | Node_offline | Locked_elsewhere | Local_failed string

type_synonym drain_plan = "string + vm_name list \<times> vm_name list"

text \<open>\<open>_drain\<close> of the rolling update: the VMs that cannot move. A plan that raises leaves the node among those being drained.\<close>

definition drain ::
  "node_name \<Rightarrow> string \<Rightarrow> node_name \<Rightarrow> node_name option \<Rightarrow> drain_plan \<Rightarrow> drain_env \<Rightarrow> cluster \<Rightarrow> (stop + vm_name list) \<times> cluster" where
  "drain me user l target pl env s =
     (let s1 = s\<lparr>cl_maint := enter me l user (cl_maint s)\<rparr> in
      if l \<in> set (cl_draining s1) then (Inl Being_drained, s1)
      else let s2 = s1\<lparr>cl_draining := l # cl_draining s1\<rparr> in
        case pl of
          Inl e \<Rightarrow> (Inl (Plan_failed e), s2)
        | Inr (migratable, blocked) \<Rightarrow>
            if migratable = [] then (Inr blocked, s2\<lparr>cl_draining := removeAll l (cl_draining s2)\<rparr>)
            else let (ok, s3) = drain_job me l target env migratable s2 in
              if ok then (Inr blocked, s3) else (Inl Not_emptied, s3))"

text \<open>The Nodes page's own drain: the reservation is released whatever the plan does; true when a drain starts.\<close>

definition enter_maintenance ::
  "node_name \<Rightarrow> string \<Rightarrow> node_name \<Rightarrow> drain_plan \<Rightarrow> cluster \<Rightarrow> (stop + bool) \<times> cluster" where
  "enter_maintenance me user l pl s =
     (if l \<in> set (cl_draining s) then (Inl Being_drained, s)
      else let s1 = s\<lparr>cl_draining := l # cl_draining s, cl_maint := enter me l user (cl_maint s)\<rparr> in
        case pl of
          Inl e \<Rightarrow> (Inl (Plan_failed e), s1\<lparr>cl_draining := removeAll l (cl_draining s1)\<rparr>)
        | Inr (migratable, blocked) \<Rightarrow>
            if migratable = [] then (Inr False, s1\<lparr>cl_draining := removeAll l (cl_draining s1)\<rparr>) else (Inr True, s1))"

section \<open>Waiting\<close>

definition POLL_S :: rat where "POLL_S = 5"
definition UPDATE_TIMEOUT_S :: rat where "UPDATE_TIMEOUT_S = 3600"
definition RESTART_TIMEOUT_S :: rat where "RESTART_TIMEOUT_S = 300"
definition ROLLBACK_SETTLE_S :: rat where "ROLLBACK_SETTLE_S = 120"
definition REBOOT_TIMEOUT_S :: rat where "REBOOT_TIMEOUT_S = 1200"

text \<open>\<open>_wait\<close>: \<open>clock i\<close> is the time at the loop's i-th test, \<open>check i\<close> what is then polled. None: out of fuel; a value, or none
  when the deadline passed.\<close>

fun wait_from :: "(nat \<Rightarrow> rat) \<Rightarrow> (nat \<Rightarrow> 'a option) \<Rightarrow> rat \<Rightarrow> nat \<Rightarrow> nat \<Rightarrow> 'a option option" where
  "wait_from clock check deadline i 0 = None"
| "wait_from clock check deadline i (Suc fuel) =
     (if clock i < deadline then (case check i of Some v \<Rightarrow> Some (Some v) | None \<Rightarrow> wait_from clock check deadline (i + 1) fuel)
      else Some None)"

definition wait_fuel :: "rat \<Rightarrow> rat \<Rightarrow> nat" where
  "wait_fuel timeout every = Suc (nat \<lceil>timeout / every\<rceil>)"

definition wait :: "(nat \<Rightarrow> rat) \<Rightarrow> (nat \<Rightarrow> 'a option) \<Rightarrow> rat \<Rightarrow> rat \<Rightarrow> stop + 'a" where
  "wait clock check timeout every = (case wait_from clock check (clock 0 + timeout) 0 (wait_fuel timeout every) of
     Some (Some v) \<Rightarrow> Inr v
   | _ \<Rightarrow> Inl Timed_out)"

section \<open>The update of one node\<close>

datatype 'a call = Lost | Got int 'a

record check =
  ck_verifiable :: bool
  ck_up_to_date :: bool
  ck_packages :: nat
  ck_restart_scheduled :: bool
  ck_restart_required :: bool
  ck_local :: "string option"
  ck_remote :: "string option"
  ck_rolled_back :: bool

record answers =
  an_check :: "check call"
  an_plan :: drain_plan
  an_drain :: drain_env
  an_apply :: "unit call"
  an_clock :: "nat \<Rightarrow> rat"
  an_task :: "nat \<Rightarrow> (string \<times> string option) call"
  an_settled_from :: rat
  an_after_clock :: "nat \<Rightarrow> rat"
  an_after :: "nat \<Rightarrow> rat \<times> check call"
  an_boot :: "string option"
  an_power :: "unit call"
  an_boot_clock :: "nat \<Rightarrow> rat"
  an_boots :: "nat \<Rightarrow> string option"
  an_channel :: "nat \<Rightarrow> unit call"
  an_health :: "nat \<Rightarrow> string option call"

text \<open>\<open>str(version or "").split(":")[-1].split(".")[0]\<close>.\<close>

definition major :: "string option \<Rightarrow> nat" where
  "major v = (let h = hd (split_on (CHR ''.'') (last (split_on (CHR '':'') (case v of None \<Rightarrow> [] | Some s \<Rightarrow> s)))) in
     if str_isdigit h \<and> nat_of_digits h < 1000 then nat_of_digits h else 0)"

definition crosses_1_0 :: "check \<Rightarrow> bool" where
  "crosses_1_0 c \<longleftrightarrow> major (ck_local c) < 1 \<and> 1 \<le> major (ck_remote c)"

definition needs_update :: "check \<Rightarrow> bool" where
  "needs_update c \<longleftrightarrow> \<not> ck_up_to_date c \<or> ck_packages c \<noteq> 0 \<or> ck_restart_scheduled c \<or> ck_restart_required c"

definition finished :: "answers \<Rightarrow> nat \<Rightarrow> (string \<times> string option) option" where
  "finished a i = (case an_task a i of
     Got s t \<Rightarrow> if s = 200 \<and> (fst t = ''succeeded'' \<or> fst t = ''failed'') then Some t else None
   | Lost \<Rightarrow> None)"

text \<open>A rollback is only believed once it has lasted: \<open>settled\<close>.\<close>

definition service_answers :: "answers \<Rightarrow> nat \<Rightarrow> check option" where
  "service_answers a i = (case an_after a i of
     (now, Got s c) \<Rightarrow> if s \<noteq> 200 \<or> ck_rolled_back c \<and> now < an_settled_from a + ROLLBACK_SETTLE_S then None else Some c
   | (_, Lost) \<Rightarrow> None)"

definition back_after_reboot :: "answers \<Rightarrow> nat \<Rightarrow> unit option" where
  "back_after_reboot a i = (case an_boots a i of
     None \<Rightarrow> None
   | Some b \<Rightarrow> if b = [] \<or> Some b = an_boot a then None
       else (case an_channel a i of Got s _ \<Rightarrow> if s = 200 then Some () else None | Lost \<Rightarrow> None))"

definition reboot_peer :: "node_name \<Rightarrow> answers \<Rightarrow> cluster \<Rightarrow> (stop + unit) \<times> cluster" where
  "reboot_peer name a s = (case an_power a of
     Lost \<Rightarrow> (Inl Peer_lost, s)
   | Got st _ \<Rightarrow>
       if st \<noteq> 202 then (Inl Reboot_refused, s)
       else (wait (an_boot_clock a) (back_after_reboot a) REBOOT_TIMEOUT_S 10, s\<lparr>cl_rebooted := cl_rebooted s @ [name]\<rparr>))"

text \<open>The update to 1.0, in place: watched through \<open>/health\<close>, else through its task.\<close>

definition done_1_0 :: "check \<Rightarrow> answers \<Rightarrow> nat \<Rightarrow> bool option" where
  "done_1_0 c a i = (case an_health a i of
     Lost \<Rightarrow> None
   | Got s v \<Rightarrow>
       let running = (if s = 200 then v else None) in
       if running \<noteq> None \<and> running \<noteq> Some [] \<and> running \<noteq> ck_local c then Some True
       else (case an_task a i of Got s t \<Rightarrow> if s = 200 \<and> fst t = ''failed'' then Some False else None | Lost \<Rightarrow> None))"

definition start_update :: "node_name \<Rightarrow> answers \<Rightarrow> cluster \<Rightarrow> (stop + unit) \<times> cluster" where
  "start_update name a s = (case an_apply a of
     Lost \<Rightarrow> (Inl Peer_lost, s)
   | Got st _ \<Rightarrow> if st \<noteq> 202 then (Inl Not_started, s) else (Inr (), s\<lparr>cl_started := cl_started s @ [name]\<rparr>))"

definition update_peer_to_1_0 :: "node_name \<Rightarrow> check \<Rightarrow> answers \<Rightarrow> cluster \<Rightarrow> (stop + unit) \<times> cluster" where
  "update_peer_to_1_0 name c a s = (case start_update name a s of
     (Inl e, s') \<Rightarrow> (Inl e, s')
   | (Inr _, s') \<Rightarrow> (rbind (wait (an_clock a) (done_1_0 c a) UPDATE_TIMEOUT_S POLL_S) (\<lambda>ok. require ok Update_failed), s'))"

text \<open>What follows the start of an ordinary update: its task, its service's answers.\<close>

definition update_outcome :: "answers \<Rightarrow> stop + check" where
  "update_outcome a =
     rbind (wait (an_clock a) (finished a) UPDATE_TIMEOUT_S POLL_S) (\<lambda>t.
     rbind (require (fst t = ''succeeded'') Update_failed) (\<lambda>_.
     rbind (wait (an_after_clock a) (service_answers a) RESTART_TIMEOUT_S POLL_S) (\<lambda>c.
     rbind (require (\<not> ck_rolled_back c) Rolled_back) (\<lambda>_. Inr c))))"

text \<open>False: nothing to update.\<close>

definition update_peer ::
  "node_name \<Rightarrow> string \<Rightarrow> node_name \<Rightarrow> node_name \<Rightarrow> bool \<Rightarrow> answers \<Rightarrow> cluster \<Rightarrow> (stop + bool) \<times> cluster" where
  "update_peer me user name target stop_blocked a s = (case an_check a of
     Lost \<Rightarrow> (Inl Peer_lost, s)
   | Got st c \<Rightarrow>
       if st \<noteq> 200 \<or> \<not> ck_verifiable c then (Inl Check_failed, s)
       else if \<not> needs_update c then (Inr False, s)
       else if crosses_1_0 c then
         (case update_peer_to_1_0 name c a s of (Inl e, s') \<Rightarrow> (Inl e, s') | (Inr _, s') \<Rightarrow> (Inr True, s'))
       else (case drain me user name (Some target) (an_plan a) (an_drain a) s of
           (Inl e, s1) \<Rightarrow> (Inl e, s1)
         | (Inr blocked, s1) \<Rightarrow> (case start_update name a s1 of
             (Inl e, s2) \<Rightarrow> (Inl e, s2)
           | (Inr _, s2) \<Rightarrow> (case update_outcome a of
               Inl e \<Rightarrow> (Inl e, s2)
             | Inr c2 \<Rightarrow>
                 (case (if ck_restart_required c2 \<and> (blocked = [] \<or> stop_blocked) then reboot_peer name a s2 else (Inr (), s2)) of
                    (Inl e, s3) \<Rightarrow> (Inl e, s3)
                  | (Inr _, s3) \<Rightarrow> (Inr True, s3\<lparr>cl_maint := fst (leave me name (cl_maint s3))\<rparr>))))))"

section \<open>The run\<close>

text \<open>The other nodes in order: where it stopped, the nodes updated, the nodes on the new version, the state.\<close>

fun update_peers ::
  "node_name \<Rightarrow> string \<Rightarrow> bool \<Rightarrow> (node_name \<Rightarrow> answers) \<Rightarrow> node_name list \<Rightarrow> node_name list \<Rightarrow> node_name list \<Rightarrow> cluster \<Rightarrow>
   (node_name \<times> stop) option \<times> node_name list \<times> node_name list \<times> cluster" where
  "update_peers me user stop_blocked ans [] upd ready s = (None, upd, ready, s)"
| "update_peers me user stop_blocked ans (n # ns) upd ready s =
     (let target = (if ready \<noteq> [] then last ready else case ns of m # _ \<Rightarrow> m | [] \<Rightarrow> LOCAL) in
      case update_peer me user n target stop_blocked (ans n) s of
        (Inl e, s') \<Rightarrow> (Some (n, e), upd, ready, s')
      | (Inr b, s') \<Rightarrow> update_peers me user stop_blocked ans ns (if b then upd @ [n] else upd) (ready @ [n]) s')"

record local_answers =
  la_check :: "check option"
  la_plan :: drain_plan
  la_drain :: drain_env
  la_start :: "string + string"

text \<open>This node, last: the task of its own update, none when it is up to date. The setting is written before its update starts.\<close>

definition update_self ::
  "node_name \<Rightarrow> string \<Rightarrow> string \<Rightarrow> local_answers \<Rightarrow> node_name option \<Rightarrow> cluster \<Rightarrow> (stop + string option) \<times> cluster" where
  "update_self me user task la target s =
     (if (case la_check la of None \<Rightarrow> False | Some c \<Rightarrow> \<not> needs_update c) then (Inr None, s)
      else case (if (case la_check la of None \<Rightarrow> True | Some c \<Rightarrow> \<not> crosses_1_0 c)
                 then drain me user LOCAL target (la_plan la) (la_drain la) s else (Inr [], s)) of
        (Inl e, s1) \<Rightarrow> (Inl e, s1)
      | (Inr _, s1) \<Rightarrow>
          let s2 = s1\<lparr>cl_pending := Some (task, user)\<rparr> in
          case la_start la of Inl e \<Rightarrow> (Inl (Local_failed e), s2) | Inr t \<Rightarrow> (Inr (Some t), s2))"

text \<open>The run: where and why it stopped, or the task of this node's own update. \<open>peers\<close>: the other members with their state.\<close>

definition rolling_run ::
  "node_name \<Rightarrow> string \<Rightarrow> string \<Rightarrow> bool \<Rightarrow> (node_name \<Rightarrow> answers) \<Rightarrow> local_answers \<Rightarrow> (node_name \<times> string) list \<Rightarrow> cluster \<Rightarrow>
   (node_name \<times> stop + string option) \<times> node_name list \<times> cluster" where
  "rolling_run me user task stop_blocked ans la peers s =
     (if cl_lock s \<noteq> None \<and> cl_lock s \<noteq> Some me then (Inl (me, Locked_elsewhere), [], s)
      else let unlock = (\<lambda>s. s\<lparr>cl_lock := None\<rparr>); s0 = s\<lparr>cl_lock := Some me\<rparr> in
        if list_ex (\<lambda>(_, st). st = ''offline'') peers then (Inl (me, Node_offline), [], unlock s0)
        else case update_peers me user stop_blocked ans (map fst (sort_key fst peers)) [] [] s0 of
          (Some (n, e), upd, _, s1) \<Rightarrow> (Inl (n, e), upd, unlock s1)
        | (None, upd, ready, s1) \<Rightarrow>
            (case update_self me user task la (if ready = [] then None else Some (last ready)) s1 of
               (Inl e, s2) \<Rightarrow> (Inl (LOCAL, e), upd, unlock s2)
             | (Inr t, s2) \<Rightarrow> (Inr t, upd, unlock s2)))"

text \<open>This node's own update, followed while the service lives; \<open>status\<close>: its task's in the end, \<open>restarts\<close>: whether it installed a
  new Hyperlite.\<close>

definition wait_local :: "node_name \<Rightarrow> string \<Rightarrow> bool \<Rightarrow> cluster \<Rightarrow> cluster" where
  "wait_local me status restarts s =
     (if status = ''failed'' then s\<lparr>cl_pending := None\<rparr>
      else if status = ''succeeded'' \<and> \<not> restarts then s\<lparr>cl_pending := None, cl_maint := fst (leave me LOCAL (cl_maint s))\<rparr>
      else s)"

definition finish_self_after_restart :: "node_name \<Rightarrow> cluster \<Rightarrow> cluster" where
  "finish_self_after_restart me s = (case cl_pending s of
     None \<Rightarrow> s
   | Some _ \<Rightarrow> s\<lparr>cl_pending := None, cl_maint := fst (leave me LOCAL (cl_maint s))\<rparr>)"

section \<open>The plan shown before\<close>

record node_view =
  nv_name :: node_name
  nv_reachable :: bool
  nv_verifiable :: bool
  nv_channel :: "string option"
  nv_to_do :: bool
  nv_to_1_0 :: bool

text \<open>What \<open>node_plan\<close> says of a node from its check (none: the check raised), its channel and whether its VMs could be listed: reached,
  verifiable, something to do, the update to 1.0. The VMs are not looked at for the update to 1.0.\<close>

definition node_plan :: "node_name \<Rightarrow> check option \<Rightarrow> string option \<Rightarrow> bool \<Rightarrow> node_view" where
  "node_plan name c channel vms_listed = (case c of
     None \<Rightarrow> \<lparr>nv_name = name, nv_reachable = False, nv_verifiable = False, nv_channel = None, nv_to_do = False, nv_to_1_0 = False\<rparr>
   | Some c \<Rightarrow> \<lparr>nv_name = name, nv_reachable = crosses_1_0 c \<or> vms_listed, nv_verifiable = ck_verifiable c, nv_channel = channel,
       nv_to_do = (ck_verifiable c \<and> needs_update c), nv_to_1_0 = crosses_1_0 c\<rparr>)"

text \<open>The node its VMs are judged against: the next one, for the last the one before.\<close>

definition plan_targets :: "node_name list \<Rightarrow> node_name option list" where
  "plan_targets order = map (\<lambda>i. if i + 1 < length order then Some (order ! (i + 1)) else if i > 0 then Some (order ! (i - 1)) else None) [0..<length order]"

datatype problem = Not_ready node_name | Offline_node node_name | Channels_differ | No_other_node

text \<open>What prevents starting: \<open>results\<close> are the nodes' plans in order, this node last, none for one whose check did not end in time;
  \<open>offline\<close> says which of the other members are.\<close>

definition plan_problems :: "node_view option list \<Rightarrow> bool list \<Rightarrow> problem list" where
  "plan_problems results offline =
     (let ns = List.map_filter id results in
      map (\<lambda>n. Not_ready (nv_name n)) (filter (\<lambda>n. \<not> nv_reachable n \<or> \<not> nv_verifiable n) ns)
    @ map (\<lambda>(n, _). Offline_node (nv_name n)) (filter snd (zip ns (offline @ [False])))
    @ (if length (dedup (map nv_channel (filter nv_reachable ns))) > 1 then [Channels_differ] else [])
    @ (if length ns < 2 then [No_other_node] else []))"

end
