(* ===== verification/Rolling_Props.thy ===== *)
theory Rolling_Props
  imports Rolling
begin

text \<open>
  What a rolling update promises. A wait ends; a run never has two nodes in maintenance at once, and where it stops only that node may
  stay in maintenance while the nodes after it are untouched; a run that ends has updated every node that needed it, whose service
  came back on a version that was not rolled back; once this node has restarted, no node is left in maintenance by the run.

  Also shown: a drain whose plan fails leaves its node reserved, which the Nodes page's own drain does not; the VMs may be sent to a node
  in maintenance; a node whose check does not end is missing from the plan, and another is named offline.
\<close>

section \<open>Waits end\<close>

text \<open>Each turn of a wait sleeps, so the clock read at the loop's tests moves on by at least that much.\<close>

definition ticks :: "(nat \<Rightarrow> rat) \<Rightarrow> rat \<Rightarrow> bool" where
  "ticks clock every \<longleftrightarrow> 0 < every \<and> (\<forall>i. clock i + every \<le> clock (Suc i))"

lemma ticks_linear: "ticks clock every \<Longrightarrow> clock 0 + of_nat i * every \<le> clock i"
proof (induction i)
  case (Suc i)
  then have "clock 0 + of_nat i * every + every \<le> clock (Suc i)" unfolding ticks_def by (metis add_right_mono dual_order.trans)
  then show ?case by (simp add: algebra_simps)
qed simp

lemma wait_from_ends:
  assumes "ticks clock every" and "deadline \<le> clock 0 + of_nat (i + fuel) * every"
  shows "wait_from clock check deadline i (Suc fuel) \<noteq> None"
  using assms(2)
proof (induction fuel arbitrary: i)
  case 0
  then have "deadline \<le> clock i" using ticks_linear [OF assms(1), of i] by simp
  then show ?case by simp
next
  case (Suc fuel)
  then have "wait_from clock check deadline (i + 1) (Suc fuel) \<noteq> None" using Suc.IH [of "i + 1"] by simp
  then show ?case by (simp split: option.split)
qed

text \<open>A wait always ends by itself, with what it polled or its deadline passed, within its timeout over its period in turns.\<close>

theorem wait_ends:
  assumes "ticks clock every" and "0 \<le> timeout"
  shows "\<exists>v. wait_from clock check (clock 0 + timeout) 0 (wait_fuel timeout every) = Some v"
proof -
  have "timeout / every \<le> of_nat (nat \<lceil>timeout / every\<rceil>)" by (simp add: of_nat_ceiling)
  then have "timeout \<le> of_nat (nat \<lceil>timeout / every\<rceil>) * every" using assms(1) by (simp add: ticks_def pos_divide_le_eq)
  then have "clock 0 + timeout \<le> clock 0 + of_nat (0 + nat \<lceil>timeout / every\<rceil>) * every" by simp
  from wait_from_ends [OF assms(1) this] show ?thesis unfolding wait_fuel_def by (metis not_None_eq)
qed

theorem wait_ends_witness:
  "\<exists>v. wait_from (\<lambda>i. 5 * of_nat i) (\<lambda>_. None :: unit option) (0 + 300) 0 (wait_fuel 300 5) = Some v"
  using wait_ends [of "\<lambda>i. 5 * of_nat i" 5 300 "\<lambda>_. None :: unit option"] by (simp add: ticks_def)

lemma wait_from_polled: "wait_from clock check deadline i fuel = Some (Some v) \<Longrightarrow> \<exists>k. check k = Some v"
  by (induction fuel arbitrary: i) (auto split: if_splits option.splits)

lemma wait_polled: "wait clock check timeout every = Inr v \<Longrightarrow> \<exists>k. check k = Some v"
  by (auto simp: wait_def dest: wait_from_polled split: option.splits)

section \<open>Emptying a node\<close>

text \<open>What emptying or updating a node leaves of the rest: only that node's maintenance and reservation change, and its VMs only go to the
  target.\<close>

definition only_at :: "node_name \<Rightarrow> cluster \<Rightarrow> cluster \<Rightarrow> bool" where
  "only_at k s s' \<longleftrightarrow> (\<forall>j. j \<noteq> k \<longrightarrow> map_of (cl_maint s') j = map_of (cl_maint s) j)
     \<and> cl_pending s' = cl_pending s \<and> cl_lock s' = cl_lock s"

lemma only_at_trans: "only_at k a b \<Longrightarrow> only_at k b c \<Longrightarrow> only_at k a c"
  by (simp add: only_at_def)

lemma only_at_refl [simp]: "only_at k s s"
  by (simp add: only_at_def)

lemma drain_vms_only:
  "drain_vms me source target env i vms failed s = (f, ns, s') \<Longrightarrow> only_at (to_db me source) s s' \<and> cl_started s' = cl_started s"
proof (induction vms arbitrary: i failed s)
  case (Cons vm vms)
  let ?s = "if dr_ended env i then s\<lparr>cl_maint := fst (leave me source (cl_maint s))\<rparr> else s"
  have here: "only_at (to_db me source) s ?s \<and> cl_started ?s = cl_started s" by (simp add: only_at_def leave_def)
  show ?case
  proof (cases "dr_cancelled env i \<or> \<not> in_maintenance me source (cl_maint ?s) \<or> dr_move env vm = Raised")
    case True
    then show ?thesis using Cons.prems here by (auto simp: Let_def split: if_splits)
  next
    case False
    then obtain s2 f2 where "drain_vms me source target env (i + 1) vms f2 s2 = (f, ns, s')"
      and "only_at (to_db me source) ?s s2 \<and> cl_started s2 = cl_started ?s"
      using Cons.prems by (auto simp: Let_def only_at_def split: vm_move.splits if_splits)
    then show ?thesis using Cons.IH here only_at_trans by metis
  qed
qed simp

lemma drain_only:
  assumes "drain me user l target pl env s = (res, s')"
  shows "only_at (to_db me l) s s' \<and> cl_started s' = cl_started s"
proof -
  let ?s1 = "s\<lparr>cl_maint := enter me l user (cl_maint s)\<rparr>"
  let ?s2 = "?s1\<lparr>cl_draining := l # cl_draining ?s1\<rparr>"
  have s2: "only_at (to_db me l) s ?s2" "only_at (to_db me l) s ?s1" by (simp_all add: only_at_def enter_def)
  have job: "only_at (to_db me l) ?s2 s3 \<and> cl_started s3 = cl_started s" if "drain_job me l target env ms ?s2 = (ok, s3)" for ms ok s3
    using that drain_vms_only [of me l target env 0 ms "[]" ?s2]
    by (auto simp: drain_job_def Let_def only_at_def split: prod.splits)
  show ?thesis
    using assms s2 only_at_trans [OF s2(1)] job
    by (auto simp: drain_def Let_def only_at_def split: if_splits sum.splits prod.splits)
qed

section \<open>The update of one node\<close>

text \<open>What it takes for a node to count as updated: its service answers and its version was not rolled back; to 1.0, it runs another
  version.\<close>

definition came_back :: "check \<Rightarrow> answers \<Rightarrow> bool" where
  "came_back c a \<longleftrightarrow> (if crosses_1_0 c then \<exists>k. done_1_0 c a k = Some True
     else (\<exists>k t. finished a k = Some t \<and> fst t = ''succeeded'') \<and> (\<exists>k c2. service_answers a k = Some c2 \<and> \<not> ck_rolled_back c2))"

lemma start_update_only:
  assumes "start_update n a s = (res, s')"
  shows "only_at k s s'" and "cl_maint s' = cl_maint s" and "cl_started s' = (if res = Inr () then cl_started s @ [n] else cl_started s)"
  using assms by (auto simp: start_update_def only_at_def split: call.splits if_splits)

lemma update_outcome_came: "update_outcome a = Inr c2 \<Longrightarrow>
    (\<exists>k t. finished a k = Some t \<and> fst t = ''succeeded'') \<and> (\<exists>k. service_answers a k = Some c2) \<and> \<not> ck_rolled_back c2"
  by (auto simp: update_outcome_def rbind_Inr_iff require_Inr_iff dest!: wait_polled)

lemma reboot_only: "reboot_peer n a s = (res, s') \<Longrightarrow> only_at k s s' \<and> cl_maint s' = cl_maint s \<and> cl_started s' = cl_started s"
  by (auto simp: reboot_peer_def only_at_def split: call.splits if_splits)

text \<open>One node's update changes nothing of the others; a node it is done with is in maintenance only if it was, and when it says it updated
  it, it did.\<close>

definition peer_done :: "node_name \<Rightarrow> answers \<Rightarrow> stop + bool \<Rightarrow> cluster \<Rightarrow> cluster \<Rightarrow> bool" where
  "peer_done n a res s s' \<longleftrightarrow> only_at n s s' \<and> set (cl_started s') \<subseteq> insert n (set (cl_started s)) \<and> set (cl_started s) \<subseteq> set (cl_started s')
     \<and> (\<forall>b. res = Inr b \<longrightarrow> (\<exists>c. an_check a = Got 200 c \<and> b = needs_update c \<and> (b \<longrightarrow> n \<in> set (cl_started s') \<and> came_back c a))
          \<and> (map_of (cl_maint s') n \<noteq> None \<longrightarrow> map_of (cl_maint s) n \<noteq> None))"

lemma peer_doneD:
  assumes "peer_done n a (Inr b) s s'"
  shows "\<exists>c. an_check a = Got 200 c \<and> b = needs_update c \<and> (b \<longrightarrow> n \<in> set (cl_started s') \<and> came_back c a)"
    and "map_of (cl_maint s') n \<noteq> None \<longrightarrow> map_of (cl_maint s) n \<noteq> None"
  using assms unfolding peer_done_def by (elim conjE, simp)+

lemma peer_done_other:
  "peer_done n a res s s' \<Longrightarrow> k \<noteq> n \<Longrightarrow> map_of (cl_maint s') k = map_of (cl_maint s) k \<and> (k \<in> set (cl_started s') \<longleftrightarrow> k \<in> set (cl_started s))"
  by (auto simp: peer_done_def only_at_def)

lemma update_peer_1_0_done:
  assumes "an_check a = Got 200 c" and "needs_update c" and "crosses_1_0 c"
    and "(case update_peer_to_1_0 n c a s of (Inl e, s') \<Rightarrow> (Inl e, s') | (Inr _, s') \<Rightarrow> (Inr True, s')) = (res, s')"
  shows "peer_done n a res s s'"
proof -
  obtain r1 s1 where st: "start_update n a s = (r1, s1)" by fastforce
  note so = start_update_only [OF st]
  show ?thesis
  proof (cases r1)
    case (Inl e)
    then show ?thesis using assms(4) st so by (auto simp: update_peer_to_1_0_def peer_done_def)
  next
    case (Inr u)
    have "came_back c a" if "rbind (wait (an_clock a) (done_1_0 c a) UPDATE_TIMEOUT_S POLL_S) (\<lambda>ok. require ok Update_failed) = Inr x" for x
      using that assms(3) wait_polled [of "an_clock a" "done_1_0 c a"] by (auto simp: rbind_Inr_iff require_Inr_iff came_back_def)
    then show ?thesis using assms st so Inr
      by (auto simp: update_peer_to_1_0_def peer_done_def split: sum.splits)
  qed
qed

lemma update_peer_done:
  assumes "update_peer me user n target sb a s = (res, s')" and "n \<noteq> []" and "n \<noteq> LOCAL"
  shows "peer_done n a res s s'"
proof (cases "an_check a")
  case Lost
  then show ?thesis using assms(1) by (auto simp: update_peer_def peer_done_def)
next
  case (Got st c)
  have n: "to_db me n = n" using assms(2,3) by (simp add: to_db_def)
  consider "st \<noteq> 200 \<or> \<not> ck_verifiable c" | "st = 200" "ck_verifiable c" "\<not> needs_update c"
    | "st = 200" "ck_verifiable c" "needs_update c" "crosses_1_0 c" | "st = 200" "ck_verifiable c" "needs_update c" "\<not> crosses_1_0 c"
    by blast
  then show ?thesis
  proof cases
    case 1
    then show ?thesis using assms(1) Got by (auto simp: update_peer_def peer_done_def)
  next
    case 2
    then show ?thesis using assms(1) Got by (auto simp: update_peer_def peer_done_def)
  next
    case 3
    then show ?thesis using assms(1) Got update_peer_1_0_done [of a c n s res s'] by (simp add: update_peer_def)
  next
    case 4
    obtain r1 s1 where d: "drain me user n (Some target) (an_plan a) (an_drain a) s = (r1, s1)" by fastforce
    have o1: "only_at n s s1" "cl_started s1 = cl_started s" using drain_only [OF d] n by auto
    show ?thesis
    proof (cases r1)
      case (Inl e)
      then show ?thesis using assms(1) Got 4 d o1 by (auto simp: update_peer_def peer_done_def)
    next
      case (Inr blocked)
      obtain r2 s2 where st2: "start_update n a s1 = (r2, s2)" by fastforce
      note o2 = start_update_only(1) [OF st2, of n] start_update_only(2,3) [OF st2]
      have o12: "only_at n s s2" using o1(1) o2(1) only_at_trans by blast
      show ?thesis
      proof (cases "r2 = Inr () \<and> (\<exists>c2. update_outcome a = Inr c2)")
        case False
        then show ?thesis using assms(1) Got 4 d Inr st2 o12 o2(3) o1(2)
          by (cases r2; cases "update_outcome a") (auto simp: update_peer_def peer_done_def)
      next
        case True
        then obtain c2 where c2: "r2 = Inr ()" "update_outcome a = Inr c2" by blast
        let ?rb = "if ck_restart_required c2 \<and> (blocked = [] \<or> sb) then reboot_peer n a s2 else (Inr (), s2)"
        obtain r3 s3 where r3: "?rb = (r3, s3)" by fastforce
        have o3: "only_at n s2 s3" "cl_started s3 = cl_started s2" using r3 reboot_only [of n a s2 r3 s3 n] by (auto split: if_splits)
        have o13: "only_at n s s3" using o12 o3(1) only_at_trans by blast
        have cb: "came_back c a" using update_outcome_came [OF c2(2)] 4(4) by (auto simp: came_back_def)
        show ?thesis
        proof (cases r3)
          case (Inl e)
          then show ?thesis using assms(1) Got 4 d Inr \<open>r1 = Inr blocked\<close> st2 c2 r3 o13 o3(2) o2(3) o1(2)
            by (auto simp: update_peer_def peer_done_def)
        next
          case r3u: (Inr u)
          have "s' = s3\<lparr>cl_maint := fst (leave me n (cl_maint s3))\<rparr>" "res = Inr True"
            using assms(1) Got 4 d \<open>r1 = Inr blocked\<close> st2 c2 r3 r3u by (simp_all add: update_peer_def)
          then show ?thesis using o13 o3(2) o2(3) o1(2) c2(1) cb Got 4 n
            by (auto simp: peer_done_def only_at_def leave_def)
        qed
      qed
    qed
  qed
qed

section \<open>The run over the other nodes\<close>

text \<open>The nodes of a run over \<open>ns\<close>: up to where it stopped, all were done; the maintenance of a node the run did not stop on is as it was or
  over; a node after the stop has nothing of it changed.\<close>

definition run_ok :: "(node_name \<Rightarrow> answers) \<Rightarrow> node_name list \<Rightarrow> (node_name \<times> stop) option \<Rightarrow> cluster \<Rightarrow> cluster \<Rightarrow> bool" where
  "run_ok ans ns stp s s' \<longleftrightarrow> (\<exists>gone rest. ns = gone @ rest
     \<and> (case stp of None \<Rightarrow> rest = [] | Some (n, _) \<Rightarrow> \<exists>after. rest = n # after)
     \<and> (\<forall>k. map_of (cl_maint s') k \<noteq> None \<longrightarrow> map_of (cl_maint s) k \<noteq> None \<or> (\<exists>e. stp = Some (k, e)))
     \<and> (\<forall>k. k \<notin> set ns \<or> k \<in> set (tl rest) \<longrightarrow> map_of (cl_maint s') k = map_of (cl_maint s) k \<and> (k \<in> set (cl_started s') \<longleftrightarrow> k \<in> set (cl_started s)))
     \<and> (\<forall>n \<in> set gone. \<exists>c. an_check (ans n) = Got 200 c \<and> (needs_update c \<longrightarrow> n \<in> set (cl_started s') \<and> came_back c (ans n)))
     \<and> set (cl_started s) \<subseteq> set (cl_started s') \<and> cl_pending s' = cl_pending s \<and> cl_lock s' = cl_lock s)"

lemma update_peers_ok:
  assumes "update_peers me user sb ans ns upd ready s = (stp, upd', ready', s')" and "distinct ns" and "\<forall>n \<in> set ns. n \<noteq> [] \<and> n \<noteq> LOCAL"
  shows "run_ok ans ns stp s s'"
  using assms
proof (induction ns arbitrary: upd ready s)
  case Nil
  then show ?case by (auto simp: run_ok_def)
next
  case (Cons n ns)
  obtain target res s1 where up: "update_peer me user n target sb (ans n) s = (res, s1)"
    and cont: "(case res of Inl e \<Rightarrow> (Some (n, e), upd, ready, s1)
      | Inr b \<Rightarrow> update_peers me user sb ans ns (if b then upd @ [n] else upd) (ready @ [n]) s1) = (stp, upd', ready', s')"
  proof -
    define target where "target = (if ready \<noteq> [] then last ready else case ns of m # _ \<Rightarrow> m | [] \<Rightarrow> LOCAL)"
    obtain res s1 where "update_peer me user n target sb (ans n) s = (res, s1)" by fastforce
    then show thesis using that [of target res s1] Cons.prems(1) by (cases res) (auto simp: Let_def target_def)
  qed
  have pd: "peer_done n (ans n) res s s1" using update_peer_done [OF up] Cons.prems(3) by simp
  then have only: "only_at n s s1" by (simp add: peer_done_def)
  show ?case
  proof (cases res)
    case (Inl e)
    then have "stp = Some (n, e)" "s' = s1" using cont by auto
    then show ?thesis unfolding run_ok_def
      using pd Cons.prems(2) by (intro exI [of _ "[]"] exI [of _ "n # ns"]) (auto simp: peer_done_def only_at_def)
  next
    case (Inr b)
    then have "run_ok ans ns stp s1 s'" using cont Cons.IH [of _ _ s1] Cons.prems(2,3) by auto
    then obtain gone rest where g: "ns = gone @ rest" "case stp of None \<Rightarrow> rest = [] | Some (n, _) \<Rightarrow> \<exists>after. rest = n # after"
      "\<forall>k. map_of (cl_maint s') k \<noteq> None \<longrightarrow> map_of (cl_maint s1) k \<noteq> None \<or> (\<exists>e. stp = Some (k, e))"
      "\<forall>k. k \<notin> set ns \<or> k \<in> set (tl rest) \<longrightarrow> map_of (cl_maint s') k = map_of (cl_maint s1) k \<and> (k \<in> set (cl_started s') \<longleftrightarrow> k \<in> set (cl_started s1))"
      "\<forall>n \<in> set gone. \<exists>c. an_check (ans n) = Got 200 c \<and> (needs_update c \<longrightarrow> n \<in> set (cl_started s') \<and> came_back c (ans n))"
      "set (cl_started s1) \<subseteq> set (cl_started s')" "cl_pending s' = cl_pending s1" "cl_lock s' = cl_lock s1"
      unfolding run_ok_def by blast
    obtain c where c: "an_check (ans n) = Got 200 c" "needs_update c \<longrightarrow> n \<in> set (cl_started s1) \<and> came_back c (ans n)"
      using peer_doneD(1) [OF pd [unfolded Inr]] by auto
    have m: "map_of (cl_maint s1) n \<noteq> None \<longrightarrow> map_of (cl_maint s) n \<noteq> None"
      by (rule peer_doneD(2) [OF pd [unfolded Inr]])
    have k1: "map_of (cl_maint s') k \<noteq> None \<longrightarrow> map_of (cl_maint s) k \<noteq> None \<or> (\<exists>e. stp = Some (k, e))" for k
    proof (cases "k = n")
      case True
      then show ?thesis using g(3) m by blast
    next
      case False
      then have "map_of (cl_maint s1) k = map_of (cl_maint s) k" using only by (simp add: only_at_def)
      then show ?thesis using g(3) by metis
    qed
    have k2: "map_of (cl_maint s') k = map_of (cl_maint s) k \<and> (k \<in> set (cl_started s') \<longleftrightarrow> k \<in> set (cl_started s))"
      if "k \<notin> set (n # ns) \<or> k \<in> set (tl rest)" for k
    proof -
      have "k \<in> set (tl rest) \<longrightarrow> k \<in> set ns" using g(1) by (cases rest) auto
      then have "k \<noteq> n" using that Cons.prems(2) by auto
      moreover have "k \<notin> set ns \<or> k \<in> set (tl rest)" using that by auto
      ultimately show ?thesis using spec [OF g(4), of k] peer_done_other [OF pd, of k] by simp
    qed
    have k3: "\<exists>c. an_check (ans k) = Got 200 c \<and> (needs_update c \<longrightarrow> k \<in> set (cl_started s') \<and> came_back c (ans k))" if "k \<in> set (n # gone)" for k
      using that c g(5,6) by (cases "k = n") auto
    have k4: "set (cl_started s) \<subseteq> set (cl_started s')" "cl_pending s' = cl_pending s" "cl_lock s' = cl_lock s"
      using g(6-8) pd only unfolding peer_done_def only_at_def by auto
    have "n # ns = (n # gone) @ rest" using g(1) by simp
    then show ?thesis unfolding run_ok_def using g(2) k1 k2 k3 k4 by (intro exI [of _ "n # gone"] exI [of _ rest] conjI) (blast | assumption)+
  qed
qed

section \<open>The whole run\<close>

lemma update_self_only:
  assumes "update_self me user task la target s = (res, s')"
  shows "(\<forall>k. k \<noteq> me \<longrightarrow> map_of (cl_maint s') k = map_of (cl_maint s) k) \<and> cl_started s' = cl_started s \<and> cl_lock s' = cl_lock s
    \<and> (\<forall>t. res = Inr t \<longrightarrow> s' = s \<or> cl_pending s' \<noteq> None)"
proof -
  have d: "(\<forall>k. k \<noteq> me \<longrightarrow> map_of (cl_maint s1) k = map_of (cl_maint s) k) \<and> cl_started s1 = cl_started s \<and> cl_lock s1 = cl_lock s"
    if "drain me user LOCAL target (la_plan la) (la_drain la) s = (r1, s1)" for r1 s1
    using drain_only [OF that] by (auto simp: only_at_def to_db_def)
  show ?thesis
    using assms d by (auto simp: update_self_def Let_def split: if_splits sum.splits prod.splits)
qed

text \<open>The state a run over the other nodes starts from, and their order.\<close>

lemma peer_order:
  assumes "distinct (map fst peers)" and "\<forall>n \<in> fst ` set peers. n \<noteq> [] \<and> n \<noteq> LOCAL"
  shows "distinct (map fst (sort_key fst peers))" and "\<forall>n \<in> set (map fst (sort_key fst peers)). n \<noteq> [] \<and> n \<noteq> LOCAL"
  using assms by (simp_all add: distinct_map)



section \<open>Examples and what is not kept\<close>

definition new_version :: check where
  "new_version = \<lparr>ck_verifiable = True, ck_up_to_date = False, ck_packages = 0, ck_restart_scheduled = False, ck_restart_required = False,
     ck_local = Some ''1.0.0'', ck_remote = Some ''1.1.0'', ck_rolled_back = False\<rparr>"

definition calm :: drain_env where
  "calm = \<lparr>dr_move = (\<lambda>_. Migrated), dr_cancelled = (\<lambda>_. False), dr_ended = (\<lambda>_. False)\<rparr>"

text \<open>A node with one VM to move, whose update goes well.\<close>

definition goes_well :: answers where
  "goes_well = \<lparr>an_check = Got 200 new_version, an_plan = Inr ([''vm''], []), an_drain = calm, an_apply = Got 202 (),
     an_clock = (\<lambda>i. 5 * of_nat i), an_task = (\<lambda>_. Got 200 (''succeeded'', None)), an_settled_from = 0, an_after_clock = (\<lambda>i. 5 * of_nat i),
     an_after = (\<lambda>i. (5 * of_nat i, Got 200 (new_version\<lparr>ck_up_to_date := True\<rparr>))), an_boot = None, an_power = Lost, an_boot_clock = (\<lambda>_. 0),
     an_boots = (\<lambda>_. None), an_channel = (\<lambda>_. Lost), an_health = (\<lambda>_. Lost)\<rparr>"

definition local_goes_well :: local_answers where
  "local_goes_well = \<lparr>la_check = Some new_version, la_plan = Inr ([], []), la_drain = calm, la_start = Inr ''u''\<rparr>"

definition calm_cluster :: "maint \<Rightarrow> cluster" where
  "calm_cluster m = \<lparr>cl_maint = m, cl_draining = [], cl_pending = None, cl_lock = None, cl_moves = [], cl_started = [], cl_rebooted = []\<rparr>"

lemma new_version_facts: "needs_update new_version" "\<not> crosses_1_0 new_version" "ck_verifiable new_version"
  by (simp_all add: new_version_def needs_update_def crosses_1_0_def major_def str_isdigit_def is_digit_def less_eq_char_def nat_of_digits_def digit_value_def Let_def)

lemmas update_evals = update_peer_def new_version_facts drain_def drain_job_def enter_def leave_def in_maintenance_def to_db_def LOCAL_def
  start_update_def update_outcome_def wait_def wait_fuel_def finished_def service_answers_def

lemma goes_well_update:
  "update_peer ''me'' ''ann'' ''a'' target sb goes_well (calm_cluster m) =
     (Inr True, (calm_cluster (dict_del ''a'' (if map_of m ''a'' = None then dict_set ''a'' ''ann'' m else m)))\<lparr>cl_moves := [(''vm'', ''a'', Some target)], cl_started := [''a'']\<rparr>)"
  by (simp add: update_evals goes_well_def calm_def calm_cluster_def Let_def UPDATE_TIMEOUT_S_def RESTART_TIMEOUT_S_def) (simp add: new_version_def leave_def to_db_def LOCAL_def)



text \<open>A plan that fails leaves the node reserved: the next drain of it is refused, until the service restarts. The Nodes page's drain
  releases it.\<close>

theorem failed_plan_keeps_the_reservation:
  assumes "l \<notin> set (cl_draining s)"
  shows "fst (drain me user l target pl2 env (snd (drain me user l target (Inl e) env s))) = Inl Being_drained
    \<and> l \<notin> set (cl_draining (snd (enter_maintenance me user l (Inl e) s)))"
  using assms by (simp add: drain_def enter_maintenance_def Let_def)

text \<open>The first node's VMs go to the next one, in maintenance or not.\<close>

theorem vms_go_to_a_node_in_maintenance:
  "cl_moves (snd (snd (snd (update_peers ''me'' ''ann'' False (\<lambda>n. if n = ''a'' then goes_well else goes_well\<lparr>an_check := Lost\<rparr>) [''a'', ''b''] [] [] (calm_cluster [(''b'', ''bob'')])))))
     = [(''vm'', ''a'', Some ''b'')]"
  by (simp add: goes_well_update) (simp add: update_peer_def)

text \<open>This node's own update refused after its setting is written: the run stops on it, and the next start of the service takes it out of
  maintenance all the same.\<close>

theorem refused_local_update_leaves_its_setting:
  "case update_self ''me'' ''ann'' ''t'' (local_goes_well\<lparr>la_start := Inl ''an update is already running''\<rparr>) None (calm_cluster []) of
     (res, s) \<Rightarrow> res = Inl (Local_failed ''an update is already running'') \<and> in_maintenance ''me'' LOCAL (cl_maint s)
       \<and> \<not> in_maintenance ''me'' LOCAL (cl_maint (finish_self_after_restart ''me'' s))"
  by (simp add: update_self_def local_goes_well_def calm_cluster_def drain_def enter_def in_maintenance_def to_db_def LOCAL_def
      new_version_facts Let_def finish_self_after_restart_def leave_def)

text \<open>A node whose check does not end in time is missing from the plan, and the next one is named offline in its place.\<close>

definition fine_view :: "node_name \<Rightarrow> node_view" where
  "fine_view n = \<lparr>nv_name = n, nv_reachable = True, nv_verifiable = True, nv_channel = Some ''stable'', nv_to_do = True, nv_to_1_0 = False\<rparr>"

theorem silent_node_shifts_the_report:
  "plan_problems [None, Some (fine_view ''b''), Some (fine_view ''me'')] [True, False] = [Offline_node ''b'']"
  by (simp add: plan_problems_def fine_view_def List.map_filter_def Let_def)

section \<open>The plan of a drain\<close>

text \<open>Each VM is either to migrate or listed with a reason; to migrate are the running ones without LUNs whose name and compatibility the target
  allows.\<close>

lemma plan_partitions:
  assumes "plan doms dst = (mig, blocked)"
  shows "set mig \<union> fst ` set blocked = dv_name ` set doms"
    and "vm \<in> set mig \<longleftrightarrow> (\<exists>d target there. d \<in> set doms \<and> dv_name d = vm \<and> dst = Some (target, there) \<and> dv_active d = Inr True
      \<and> dv_iscsi d = Inr False \<and> vm \<notin> set there \<and> dv_compat d target = Inr [])"
proof -
  have mig: "set mig = dv_name ` {d \<in> set doms. why_not_migrable d dst = None}" using assms by (auto simp: plan_def Let_def)
  have blk: "set blocked = {(dv_name d, r) | d r. d \<in> set doms \<and> why_not_migrable d dst = Some r}"
    using assms by (auto simp: plan_def Let_def split: option.splits) metis+
  have "n \<in> fst ` set blocked \<longleftrightarrow> (\<exists>d. d \<in> set doms \<and> dv_name d = n \<and> why_not_migrable d dst \<noteq> None)" for n
    unfolding blk by (auto simp: image_iff)
  moreover have "n \<in> dv_name ` {d \<in> set doms. why_not_migrable d dst \<noteq> None} \<longleftrightarrow> (\<exists>d. d \<in> set doms \<and> dv_name d = n \<and> why_not_migrable d dst \<noteq> None)" for n
    by (simp add: image_iff) metis
  ultimately have bl: "fst ` set blocked = dv_name ` {d \<in> set doms. why_not_migrable d dst \<noteq> None}" by (intro set_eqI) (simp only:)
  have un: "{d \<in> set doms. why_not_migrable d dst = None} \<union> {d \<in> set doms. why_not_migrable d dst \<noteq> None} = set doms" by blast
  show "set mig \<union> fst ` set blocked = dv_name ` set doms" unfolding mig bl image_Un [symmetric] un ..
  have "why_not_migrable d dst = None \<longleftrightarrow> (\<exists>target there. dst = Some (target, there) \<and> dv_active d = Inr True
      \<and> dv_iscsi d = Inr False \<and> dv_name d \<notin> set there \<and> dv_compat d target = Inr [])" for d
    by (auto simp: why_not_migrable_def split: sum.splits bool.splits option.splits list.splits if_splits)
  then show "vm \<in> set mig \<longleftrightarrow> (\<exists>d target there. d \<in> set doms \<and> dv_name d = vm \<and> dst = Some (target, there) \<and> dv_active d = Inr True
      \<and> dv_iscsi d = Inr False \<and> vm \<notin> set there \<and> dv_compat d target = Inr [])"
    unfolding mig by auto
qed

end
