(* ===== verification/Spec2Isabelle.thy ===== *)
theory Spec2Isabelle
  imports Drs_Auto Vmid Cluster_Lead Ha_Round Ha_Admission Ha_Monitor Ha_Watch Permission_Props Cfs_Wire_Props Firewall_Run Backup_Props
    Shared_Claims Tickets Task_Props Replica Row_Ids Chunk_Gc Network_Props Job_Props Rolling_Props
begin

text \<open>
  A verification of the control plane of Hyperlite, a hypervisor for one node or a cluster: a FastAPI service and a
  privileged daemon in Python (\<^verbatim>\<open>src/app\<close>) over libvirt, QEMU, nftables and systemd, with a replicated store in C
  (\<^verbatim>\<open>src/cfs\<close>). The development models the parts that decide: what runs where, who may do what, which change wins, what is
  kept and what is removed. What those parts ask of the machine (libvirt, a fence agent, nft, a socket, a cipher) is an
  argument of the definitions, with what the code relies on as a named hypothesis.

  \<^bold>\<open>The parts and how they meet.\<close> Each node keeps its configuration in SQLite. In a cluster, triggers note each change in an
  outbox; a copy loop writes it into hyperlite-cfs, a tree of entries with versions, over the version the node last saw
  (compare and set), and another loop brings the tree's changes back. The same store gives locks that expire, which choose the
  node that leads, and counters, which number guests and rows. The leader runs the cluster's own work: high availability
  (detect a lost member, make sure it is stopped, restart its VMs) and load balancing (recommend, then carry out migrations);
  both ask the affinity rules. Every request is checked against the permissions; operations on a guest take a claim shared by
  all processes and run as tasks. The firewall's document and the schedules of backups travel in the replicated tables and are
  applied by each node. Backups go into a store of chunks that garbage collection cleans. A VM's address is reserved on its node's
  network and moves with it. Jobs run commands on VMs as tasks; a rolling update empties and updates the nodes in turn.

  \<^bold>\<open>Theories, and the files under src/ they model.\<close>

  \<^item> \<open>Prelude\<close>, \<open>Py_Text\<close>, \<open>Py_Bytes\<close>, \<open>Calendar\<close>, \<open>Ip_Net\<close>: the Python values, texts, bytes, dates and IPv4 networks the
    sources compute with; the collections \<open>py_simps\<close> and the laws of dictionaries the other theories share.
  \<^item> \<open>Drs_Rules\<close> (\<^verbatim>\<open>core/drs_rules.py\<close>, \<^verbatim>\<open>repositories/sqlite/drs.py\<close>), \<open>Drs\<close> and \<open>Drs_Auto\<close> (\<^verbatim>\<open>core/drs.py\<close>): settings and
    affinity rules; the loads, the recommended moves and the placement of one VM; the automatic mode with its requests. Shown:
    a VM is allowed on a node exactly when the must rules are kept; a recommendation ends, lowers the spread with every move and
    keeps the rules; a placement fits and is the best; two running moves never share a member.
  \<^item> \<open>Cfs\<close> (\<^verbatim>\<open>cfs/src/store.c\<close> as its clients see it), \<open>Cfs_Wire\<close> and \<open>Cfs_Wire_Props\<close> (\<^verbatim>\<open>core/cfs_client.py\<close>,
    \<^verbatim>\<open>cfs/src/proto.c\<close>, \<^verbatim>\<open>handler.c\<close>): the compare-and-set tree and the locks, with the locales \<open>cas_store\<close> and \<open>lease_lock\<close>
    their clients rest on; the frames both sides write and read. Shown: what one side sends is what the other reads.
  \<^item> \<open>Vmid\<close> (\<^verbatim>\<open>core/vmid.py\<close>), \<open>Cluster_Lead\<close> (\<^verbatim>\<open>core/cluster_lead.py\<close>), \<open>Row_Ids\<close> (\<^verbatim>\<open>repositories/cfs/ids.py\<close>): numbers
    handed out once under any interleaving of nodes; at most one leader; no change without a fresh quorum.
  \<^item> \<open>Row_Codec\<close>, \<open>Shadow\<close>, \<open>Inbound\<close>, with the proofs in \<open>Shadow_Props\<close>, \<open>Inbound_Props\<close>, and \<open>Replica\<close>
    (\<^verbatim>\<open>repositories/cfs/shadow.py\<close>, \<^verbatim>\<open>inbound.py\<close>): the replicated configuration in both directions. Shown: a difference between
    a node and the tree it saw always waits in its outbox; a change replaces only what its node saw; an apply makes nodes equal;
    a confirmed request was written; an apply that is held back touches nothing.
  \<^item> \<open>Ha_Store\<close>, \<open>Ha_Fencing\<close>, \<open>Ha_Selffence\<close>, \<open>Ha_Recovery\<close>, \<open>Ha_Recovery_Props\<close>, \<open>Ha_Round\<close>, \<open>Ha_Admission\<close>, \<open>Ha_Monitor\<close>,
    \<open>Ha_Watch\<close> (\<^verbatim>\<open>core/ha*.py\<close>, \<^verbatim>\<open>repositories/sqlite/ha.py\<close>, \<^verbatim>\<open>core/self_node.py\<close>, \<^verbatim>\<open>core/statd.py\<close>): high availability. Shown: a
    member counts as stopped on a proof only and no VM starts before; restarts fit the memory; the leader waits for a watchdog's
    reset; admission control leaves room; a power off ends; only hung guests are reset.
  \<^item> \<open>Access_Store\<close>, \<open>Permissions\<close>, \<open>Permission_Props\<close> (\<^verbatim>\<open>core/permissions.py\<close>, \<^verbatim>\<open>repositories/sqlite/access.py\<close>,
    \<^verbatim>\<open>routers/acl.py\<close>, \<^verbatim>\<open>routers/auth.py\<close>): rights as rows; the three checks share the contract \<open>acl_check\<close>. Shown: what is deleted
    gives no right again; the page of a VM lists exactly the rights on it.
  \<^item> \<open>Firewall_Doc\<close>, \<open>Firewall_Props\<close>, \<open>Firewall_Apply\<close>, \<open>Firewall_Run\<close> (\<^verbatim>\<open>core/host_firewall.py\<close>, \<^verbatim>\<open>core/rollback_timer.py\<close>,
    \<^verbatim>\<open>routers/host_firewall.py\<close>): the document and its script; applying, confirming, rolling back, following. Shown: an accepted
    document is well formed and reads back; an unconfirmed change is undone; the follow loop brings the saved rules.
  \<^item> \<open>Backups\<close>, \<open>Backup_Props\<close> (\<^verbatim>\<open>core/backup_retention.py\<close>, \<^verbatim>\<open>core/backups.py\<close>, \<^verbatim>\<open>core/backup_store_sync.py\<close>): retention,
    schedules and the copy job. Shown: the walk is the policy; the newest good backup stays; the next run is the next.
  \<^item> \<open>Chunk_Codec\<close>, \<open>Chunk_Store\<close>, \<open>Chunk_Props\<close>, \<open>Backup_Vm\<close>, \<open>Chunk_Gc\<close> (\<^verbatim>\<open>core/backup_store.py\<close>,
    \<^verbatim>\<open>core/backup_store_vm.py\<close>): the backup store. Chunks have the contract \<open>chunk_keeper\<close>. Shown: a VM's backup reads back byte for
    byte, read whole or from the changed blocks; a restore is exact or raises; a verified damage is repaired by the next backup;
    a collection takes exactly the unused chunks, and none of a recorded backup while backups run.
  \<^item> \<open>Shared_Claims\<close> (\<^verbatim>\<open>core/shared_claims.py\<close>, \<^verbatim>\<open>core/vm_locks.py\<close>), \<open>Tickets\<close> (\<^verbatim>\<open>core/tickets.py\<close>), \<open>Tasks\<close> and \<open>Task_Props\<close>
    (\<^verbatim>\<open>core/tasks.py\<close>, \<^verbatim>\<open>repositories/sqlite/tasks.py\<close>): one operation per guest over processes that may die; sessions that outlive
    key rotations; tasks that are neither abandoned while they run nor left running after their process.
  \<^item> \<open>Network_Alloc\<close>, \<open>Network_Props\<close> (\<^verbatim>\<open>core/network_alloc.py\<close>, the reservations of \<^verbatim>\<open>core/vm_migrate.py\<close>): fixed addresses on
    the libvirt networks. Shown: an address given is free on every node that answered; no network reserves one twice, however
    creations and deletions overlap; a VM that migrates keeps its addresses and takes nobody's.
  \<^item> \<open>Jobs\<close>, \<open>Job_Props\<close> (\<^verbatim>\<open>core/jobs.py\<close>, \<^verbatim>\<open>services/automation_service.py\<close>, \<^verbatim>\<open>repositories/sqlite/automation.py\<close>): automation
    jobs over the tasks of \<open>Tasks\<close>. Shown: steps run in order up to the first failure; a success ran every step on every target; a
    run that started ends with its task and its audit entry.
  \<^item> \<open>Rolling\<close>, \<open>Rolling_Props\<close> (\<^verbatim>\<open>core/maintenance.py\<close>, \<^verbatim>\<open>core/rolling_update.py\<close>, the drain of \<^verbatim>\<open>routers/nodes.py\<close>): maintenance
    and the rolling update of a cluster. Shown: a run that ends updated every node that needed it and leaves none in maintenance;
    one that stops leaves the nodes after it alone; a wait ends.

  \<^bold>\<open>How the code is written here.\<close> A record of the program is a \<open>record\<close>, a raise is \<open>Inl\<close> of the component's error type, a
  missing dictionary key \<open>None\<close>. A function that changes a store takes and returns it. What other threads, processes and
  nodes do in between is explicit: a step function or a step relation over whole states, or the parameter of a call that says
  what happens around it (\<open>call_env\<close> of \<open>Shadow\<close>). Proofs are by an invariant kept by every step.

  Floats and times are exact rationals. A clock is read once per call. Texts are ASCII. Constants that the environment may
  override have their default values. Log lines and the sentences of errors are left out unless code reads them. Log, audit and
  notification calls are kept only where a property speaks of them.

  \<^bold>\<open>Loops and fuel.\<close> Loops over lists are structural. A VMID is tried 50 times (\<open>ATTEMPTS\<close>, the source's), after which the
  code raises. A power off reads the state until a deadline: thirteen readings are shown to be enough. The greedy loop of load
  balancing makes at most four moves. A date goes back to its Monday in at most seven steps. The copy loop takes at most 500
  changes at once; the wait of a request is a list of rounds, given by what happens while it waits. Reading a JSON object has the
  length of its text as fuel, and each of its members takes at least one character. A wait of a rolling update has its timeout over
  its period as fuel, enough for a clock that moves on by its period at each turn. An address is tried until libvirt has refused three.

  \<^bold>\<open>Findings.\<close> Where the code does not do what its comments or its documents say, the theory that shows it proves a theorem of
  the behaviour as it is: must rules an automatic restart does not look at (\<open>Ha_Round\<close>), a leader that may act before a watchdog's
  reset (\<open>Ha_Round\<close>), a watcher silenced by an empty port (\<open>Ha_Watch\<close>), an option slipped into a fence agent (\<open>Ha_Fencing\<close>), a copy
  job that removes other VMs' copies (\<open>Backup_Props\<close>), rules lost at a reboot and a change stuck after one (\<open>Firewall_Run\<close>), rules a
  group loses and a name with a newline (\<open>Firewall_Props\<close>), answers and settings lost by the copy loop (\<open>Replica\<close>), ids given twice
  (\<open>Row_Ids\<close>), a chunk lost by a killed collection (\<open>Chunk_Gc\<close>), an address two nodes give at once and reservations a stopped
  migration leaves (\<open>Network_Props\<close>), a command that runs without its log line and a run a restart leaves running (\<open>Job_Props\<close>), a
  node left reserved by a failed plan, VMs sent to a node in maintenance, a setting a refused update leaves and a report that names
  the wrong node (\<open>Rolling_Props\<close>).

  \<^bold>\<open>Not modelled.\<close> The endpoints that only check their arguments and call the core; libvirt's XML and the migration, storage,
  network and container commands, whose meaning is that of the tools they call; passwords, TOTP, WebAuthn, LDAP and OIDC, whose
  meaning is the libraries'; the database's schema and migrations; packages' downloads and installation, metrics and notifications; the web interface. Of the
  modelled parts: the threads' endless loops (a round is modelled, and what may come between rounds), the XML of a VM's
  metadata, rows of before API v1, how a call reaches another node's API, the daemon's state transfer and listings, opening and creating a backup store, the master
  recovery key and the exports of QEMU.
\<close>

end
